(* ===== verification/Prelude.thy ===== *)
theory Prelude
  imports Main "HOL-Library.Word"
begin

text \<open>
  Shared vocabulary of the development: the C integer types as words, the error numbers the
  kernel code returns, bit tests on flag words, the facts about lists (removal, first hit of a
  search, moving an element to the tail) that the run queues, job tables and device buffers share,
  and the collections of rewrite rules the component proofs draw on.
\<close>

unbundle bit_operations_syntax

named_theorems frame_simps \<open>what an update leaves unchanged\<close>
named_theorems class_defs \<open>definitions of scheduling-class operations\<close>

section \<open>C types\<close>

type_synonym u8 = "8 word"
type_synonym u32 = "32 word"
type_synonym u64 = "64 word"
type_synonym task_id = nat
type_synonym cpu_id = nat
type_synonym cpumask = "cpu_id \<Rightarrow> bool"

text \<open>Comparison of two \<open>u64\<close> values through \<open>s64\<close>, as the clock code does.\<close>

definition s64 :: "u64 \<Rightarrow> int" where
  "s64 w = sint w"

definition flag_set :: "'a::len word \<Rightarrow> 'a word \<Rightarrow> bool" where
  "flag_set flags m \<longleftrightarrow> flags AND m \<noteq> 0"

lemma flag_set_zero [simp]: "\<not> flag_set 0 m"
  by (simp add: flag_set_def)

lemma unat_sub_of_nat:
  fixes n :: "'a::len word"
  assumes "k \<le> unat n"
  shows "unat (n - of_nat k) = unat n - k"
proof -
  have "k < 2 ^ LENGTH('a)" using assms unsigned_less[of n] by (rule le_less_trans)
  then have k: "unat (of_nat k :: 'a word) = k" by (simp add: unat_of_nat)
  with assms have "of_nat k \<le> n" by (simp add: word_le_nat_alt)
  then show ?thesis by (simp add: unat_sub k)
qed

section \<open>Error numbers\<close>

datatype errno =
    EPERM | ESRCH | EIO | E2BIG | EAGAIN | ENOMEM | EACCES | EFAULT | EBUSY | ENODEV
  | EINVAL | EFBIG | ERANGE | ENOENT | EEXIST | ENOTDIR | ELOOP | ENAMETOOLONG | EOTHER int

fun errno_val :: "errno \<Rightarrow> int" where
  "errno_val EPERM = 1"
| "errno_val ENOENT = 2"
| "errno_val ESRCH = 3"
| "errno_val EIO = 5"
| "errno_val E2BIG = 7"
| "errno_val EAGAIN = 11"
| "errno_val ENOMEM = 12"
| "errno_val EACCES = 13"
| "errno_val EFAULT = 14"
| "errno_val EBUSY = 16"
| "errno_val EEXIST = 17"
| "errno_val ENODEV = 19"
| "errno_val ENOTDIR = 20"
| "errno_val EINVAL = 22"
| "errno_val EFBIG = 27"
| "errno_val ERANGE = 34"
| "errno_val ENAMETOOLONG = 36"
| "errno_val ELOOP = 40"
| "errno_val (EOTHER n) = n"

section \<open>Lists\<close>

text \<open>
  A C loop that scans an array for the first index with a property is \<open>find_index\<close>; scanning
  from the end is \<open>find_last_index\<close>.
\<close>

fun find_index :: "('a \<Rightarrow> bool) \<Rightarrow> 'a list \<Rightarrow> nat option" where
  "find_index P [] = None"
| "find_index P (x # xs) = (if P x then Some 0 else map_option Suc (find_index P xs))"

definition find_last_index :: "('a \<Rightarrow> bool) \<Rightarrow> 'a list \<Rightarrow> nat option" where
  "find_last_index P xs = map_option (\<lambda>i. length xs - 1 - i) (find_index P (rev xs))"

lemma find_index_None: "find_index P xs = None \<longleftrightarrow> (\<forall>x\<in>set xs. \<not> P x)"
  by (induction xs) auto

lemma find_index_Some:
  "find_index P xs = Some i \<longleftrightarrow> i < length xs \<and> P (xs ! i) \<and> (\<forall>j<i. \<not> P (xs ! j))"
proof (induction xs arbitrary: i)
  case Nil
  then show ?case by simp
next
  case (Cons x xs)
  show ?case
    by (cases i) (auto simp: Cons.IH All_less_Suc2 less_Suc_eq_0_disj)
qed

lemma find_last_index_None: "find_last_index P xs = None \<longleftrightarrow> (\<forall>x\<in>set xs. \<not> P x)"
  by (simp add: find_last_index_def find_index_None)

lemma find_last_index_Some:
  assumes "find_last_index P xs = Some i"
  shows "i < length xs" "P (xs ! i)" "\<And>j. i < j \<Longrightarrow> j < length xs \<Longrightarrow> \<not> P (xs ! j)"
proof -
  from assms obtain k where k: "find_index P (rev xs) = Some k" "i = length xs - 1 - k"
    by (auto simp: find_last_index_def)
  then have kl: "k < length xs" and Pk: "P (rev xs ! k)"
    and no: "\<And>j. j < k \<Longrightarrow> \<not> P (rev xs ! j)"
    by (auto simp: find_index_Some)
  show "i < length xs" using k kl by simp
  show "P (xs ! i)" using Pk k kl by (simp add: rev_nth)
  fix j assume j: "i < j" "j < length xs"
  then have "length xs - 1 - j < k" using k kl by arith
  from no[OF this] j show "\<not> P (xs ! j)" by (simp add: rev_nth)
qed

lemma removeAll_notin [simp]: "x \<notin> set xs \<Longrightarrow> removeAll x xs = xs"
  by (induction xs) auto

lemma distinct_removeAll_snoc: "distinct xs \<Longrightarrow> distinct (removeAll x xs @ [x])"
  by (simp add: distinct_removeAll)

lemma removeAll_snoc_fresh: "x \<notin> set xs \<Longrightarrow> removeAll x (xs @ [x]) = xs"
  by simp

section \<open>Fault recording\<close>

text \<open>
  A \<open>BUG_ON\<close>, an array access outside its bounds and a list operation on a poisoned node all
  end in undefined behaviour or a kernel panic.  The model keeps the first such event in the
  state; everything after it is meaningless, and a theorem that no fault is recorded says that
  none of them happens.
\<close>

datatype kfault = Index_out_of_range | List_corruption | Poisoned_list | Bug_on | No_progress

text \<open>The element after one of a list, as following a \<open>next\<close> pointer finds it.\<close>

fun next_of :: "nat \<Rightarrow> nat list \<Rightarrow> nat option" where
  "next_of j (x # y # xs) = (if x = j then Some y else next_of j (y # xs))"
| "next_of j xs = None"

lemma next_of_mem: "next_of j xs = Some k \<Longrightarrow> k \<in> set xs \<and> (distinct xs \<longrightarrow> k \<noteq> j)"
  by (induction j xs rule: next_of.induct) (auto split: if_splits)

lemma next_of_split: "j \<notin> set xs \<Longrightarrow> next_of j (xs @ j # ys) = (case ys of [] \<Rightarrow> None | y # zs \<Rightarrow> Some y)"
proof (induction xs)
  case Nil
  then show ?case by (cases ys) simp_all
next
  case (Cons x xs)
  then show ?case by (cases xs) simp_all
qed

end
