(* ===== verification/Sched_Types.thy ===== *)
theory Sched_Types
  imports Prelude
begin

text \<open>
  The data the scheduler works on (\<open>include/uapi/linux/sched.h\<close>, \<open>include/linux/sched.h\<close>,
  \<open>kernel/sched/sched.h\<close>), in the configuration CONFIG\_SMP, CONFIG\_64BIT, without
  CONFIG\_RT\_GROUP\_SCHED and CONFIG\_SCHED\_DEBUG: policies, flag words, the task, the run queues of the RT and TS
  classes, the per-CPU run queue, the root domain and the whole system state.  A pointer to a task
  or a run queue is the number of the task or CPU; \<open>NULL\<close> is \<open>None\<close>.  The intrusive lists of
  \<open>linux/list.h\<close> are lists of task numbers, with the link state of a task's own node kept in the
  task.  Locks, RCU, memory barriers, tracing, \<open>printk\<close> and lockdep assertions have no counterpart:
  every operation runs atomically under the locks the code takes (the locks have their own model, \<open>Sched_Lock\<close>).
\<close>

section \<open>Scheduling policies and priorities\<close>

definition SCHED_NORMAL :: int where "SCHED_NORMAL = 0"
definition SCHED_FIFO :: int where "SCHED_FIFO = 1"
definition SCHED_RR :: int where "SCHED_RR = 2"
definition SCHED_BATCH :: int where "SCHED_BATCH = 3"
definition SCHED_IDLE :: int where "SCHED_IDLE = 5"
definition SCHED_DEADLINE :: int where "SCHED_DEADLINE = 6"
definition SCHED_TS :: int where "SCHED_TS = 10"

lemmas policy_consts = SCHED_NORMAL_def SCHED_FIFO_def SCHED_RR_def SCHED_BATCH_def
  SCHED_IDLE_def SCHED_DEADLINE_def SCHED_TS_def

definition SCHED_RESET_ON_FORK :: u32 where "SCHED_RESET_ON_FORK = 0x40000000"
definition SCHED_FLAG_RESET_ON_FORK :: u64 where "SCHED_FLAG_RESET_ON_FORK = 0x01"
definition SCHED_FLAG_RECLAIM :: u64 where "SCHED_FLAG_RECLAIM = 0x02"
definition SCHED_FLAG_DL_OVERRUN :: u64 where "SCHED_FLAG_DL_OVERRUN = 0x04"
definition SCHED_FLAG_ALL :: u64 where
  "SCHED_FLAG_ALL = SCHED_FLAG_RESET_ON_FORK OR SCHED_FLAG_RECLAIM OR SCHED_FLAG_DL_OVERRUN"
definition SCHED_FLAG_SUGOV :: u64 where "SCHED_FLAG_SUGOV = 0x10000000"

text \<open>Constants of \<open>linux/sched/prio.h\<close>.\<close>

definition MAX_USER_RT_PRIO :: int where "MAX_USER_RT_PRIO = 100"
definition MAX_RT_PRIO :: int where "MAX_RT_PRIO = 100"
definition MAX_DL_PRIO :: int where "MAX_DL_PRIO = 0"
definition MIN_NICE :: int where "MIN_NICE = - 20"
definition MAX_NICE :: int where "MAX_NICE = 19"
definition NICE_WIDTH :: int where "NICE_WIDTH = MAX_NICE - MIN_NICE + 1"
definition MAX_PRIO :: int where "MAX_PRIO = MAX_RT_PRIO + NICE_WIDTH"
definition DEFAULT_PRIO :: int where "DEFAULT_PRIO = MAX_RT_PRIO + NICE_WIDTH div 2"
definition NICE_TO_PRIO :: "int \<Rightarrow> int" where "NICE_TO_PRIO n = n + DEFAULT_PRIO"
definition PRIO_TO_NICE :: "int \<Rightarrow> int" where "PRIO_TO_NICE q = q - DEFAULT_PRIO"

lemmas prio_consts = MAX_USER_RT_PRIO_def MAX_RT_PRIO_def MAX_DL_PRIO_def MIN_NICE_def
  MAX_NICE_def NICE_WIDTH_def MAX_PRIO_def DEFAULT_PRIO_def NICE_TO_PRIO_def PRIO_TO_NICE_def

definition idle_policy :: "int \<Rightarrow> bool" where
  "idle_policy policy \<longleftrightarrow> policy = SCHED_IDLE"

definition fair_policy :: "int \<Rightarrow> bool" where
  "fair_policy policy \<longleftrightarrow> policy = SCHED_NORMAL \<or> policy = SCHED_BATCH"

definition rt_policy :: "int \<Rightarrow> bool" where
  "rt_policy policy \<longleftrightarrow> policy = SCHED_FIFO \<or> policy = SCHED_RR"

definition dl_policy :: "int \<Rightarrow> bool" where
  "dl_policy policy \<longleftrightarrow> policy = SCHED_DEADLINE"

definition ts_policy :: "int \<Rightarrow> bool" where
  "ts_policy policy \<longleftrightarrow> policy = SCHED_TS"

definition valid_policy :: "int \<Rightarrow> bool" where
  "valid_policy policy \<longleftrightarrow> idle_policy policy \<or> fair_policy policy \<or>
     rt_policy policy \<or> dl_policy policy \<or> ts_policy policy"

lemmas policy_defs = idle_policy_def fair_policy_def rt_policy_def dl_policy_def ts_policy_def
  policy_consts

text \<open>\<open>rt_prio\<close> and \<open>dl_prio\<close> of \<open>linux/sched/rt.h\<close> and \<open>deadline.h\<close>.\<close>

definition rt_prio :: "int \<Rightarrow> bool" where "rt_prio q \<longleftrightarrow> q < MAX_RT_PRIO"
definition dl_prio :: "int \<Rightarrow> bool" where "dl_prio q \<longleftrightarrow> q < MAX_DL_PRIO"

section \<open>Flag words\<close>

definition DEQUEUE_SLEEP :: u32 where "DEQUEUE_SLEEP = 0x01"
definition DEQUEUE_SAVE :: u32 where "DEQUEUE_SAVE = 0x02"
definition DEQUEUE_MOVE :: u32 where "DEQUEUE_MOVE = 0x04"
definition DEQUEUE_NOCLOCK :: u32 where "DEQUEUE_NOCLOCK = 0x08"
definition ENQUEUE_WAKEUP :: u32 where "ENQUEUE_WAKEUP = 0x01"
definition ENQUEUE_RESTORE :: u32 where "ENQUEUE_RESTORE = 0x02"
definition ENQUEUE_MOVE :: u32 where "ENQUEUE_MOVE = 0x04"
definition ENQUEUE_NOCLOCK :: u32 where "ENQUEUE_NOCLOCK = 0x08"
definition ENQUEUE_HEAD :: u32 where "ENQUEUE_HEAD = 0x10"
definition ENQUEUE_REPLENISH :: u32 where "ENQUEUE_REPLENISH = 0x20"
definition ENQUEUE_MIGRATED :: u32 where "ENQUEUE_MIGRATED = 0x40"

lemmas queue_flag_defs = DEQUEUE_SLEEP_def DEQUEUE_SAVE_def DEQUEUE_MOVE_def
  DEQUEUE_NOCLOCK_def ENQUEUE_WAKEUP_def ENQUEUE_RESTORE_def ENQUEUE_MOVE_def
  ENQUEUE_NOCLOCK_def ENQUEUE_HEAD_def ENQUEUE_REPLENISH_def ENQUEUE_MIGRATED_def

definition WF_SYNC :: u32 where "WF_SYNC = 0x01"
definition WF_FORK :: u32 where "WF_FORK = 0x02"
definition WF_MIGRATED :: u32 where "WF_MIGRATED = 0x04"

definition TASK_RUNNING :: u64 where "TASK_RUNNING = 0x0000"
definition TASK_INTERRUPTIBLE :: u64 where "TASK_INTERRUPTIBLE = 0x0001"
definition TASK_UNINTERRUPTIBLE :: u64 where "TASK_UNINTERRUPTIBLE = 0x0002"
definition TASK_DEAD :: u64 where "TASK_DEAD = 0x0080"
definition TASK_WAKING :: u64 where "TASK_WAKING = 0x0200"
definition TASK_NOLOAD :: u64 where "TASK_NOLOAD = 0x0400"
definition TASK_NEW :: u64 where "TASK_NEW = 0x0800"
definition TASK_NORMAL :: u64 where "TASK_NORMAL = TASK_INTERRUPTIBLE OR TASK_UNINTERRUPTIBLE"

definition PF_IDLE :: u32 where "PF_IDLE = 0x00000002"
definition PF_WQ_WORKER :: u32 where "PF_WQ_WORKER = 0x00000020"
definition PF_FROZEN :: u32 where "PF_FROZEN = 0x00010000"
definition PF_KTHREAD :: u32 where "PF_KTHREAD = 0x00200000"
definition PF_NO_SETAFFINITY :: u32 where "PF_NO_SETAFFINITY = 0x04000000"

definition RQCF_REQ_SKIP :: u32 where "RQCF_REQ_SKIP = 0x01"
definition RQCF_ACT_SKIP :: u32 where "RQCF_ACT_SKIP = 0x02"
definition RQCF_UPDATED :: u32 where "RQCF_UPDATED = 0x04"

definition TASK_ON_RQ_QUEUED :: nat where "TASK_ON_RQ_QUEUED = 1"
definition TASK_ON_RQ_MIGRATING :: nat where "TASK_ON_RQ_MIGRATING = 2"

lemmas on_rq_consts = TASK_ON_RQ_QUEUED_def TASK_ON_RQ_MIGRATING_def
lemmas task_state_defs = TASK_RUNNING_def TASK_INTERRUPTIBLE_def TASK_UNINTERRUPTIBLE_def
  TASK_DEAD_def TASK_WAKING_def TASK_NOLOAD_def TASK_NEW_def TASK_NORMAL_def

definition RUNTIME_INF :: u64 where "RUNTIME_INF = NOT 0"

section \<open>Tasks\<close>

datatype sched_class = Stop_class | Dl_class | Rt_class | Ts_class | Fair_class | Idle_class

text \<open>
  The link state of an embedded \<open>struct list_head\<close>: initialised to itself, on some list, or
  poisoned by \<open>list_del\<close>.
\<close>

datatype list_node = Self_linked | Linked | Poisoned

record sched_ts_entity =
  ts_list :: list_node
  ts_time_slice :: u32

record load_weight =
  lw_weight :: u64
  lw_inv_weight :: u32

record sched_entity =
  se_load :: load_weight
  se_on_rq :: bool
  se_exec_start :: u64
  se_sum_exec_runtime :: u64
  se_prev_sum_exec_runtime :: u64
  se_vruntime :: u64
  se_nr_migrations :: u64

record sched_rt_entity =
  rte_timeout :: u64
  rte_watchdog_stamp :: u64
  rte_time_slice :: u32
  rte_on_rq :: bool
  rte_on_list :: bool

text \<open>
  \<open>p_mm\<close> and \<open>p_active_mm\<close> are address spaces by number, \<open>p_wake_q\<close> says whether \<open>wake_q.next\<close> is
  non-null; the thread-info flags are two booleans.
\<close>

record task_struct =
  p_pid :: int
  p_state :: u64
  p_flags :: u32
  p_on_cpu :: bool
  p_cpu :: cpu_id
  p_wake_cpu :: cpu_id
  p_recent_used_cpu :: cpu_id
  p_on_rq :: nat
  p_prio :: int
  p_static_prio :: int
  p_normal_prio :: int
  p_rt_priority :: u32
  p_sched_class :: sched_class
  p_se :: sched_entity
  p_rt :: sched_rt_entity
  p_ts :: sched_ts_entity
  p_policy :: int
  p_nr_cpus_allowed :: nat
  p_cpus_allowed :: cpumask
  p_mm :: "nat option"
  p_active_mm :: "nat option"
  p_sched_reset_on_fork :: bool
  p_sched_contributes_to_load :: bool
  p_sched_remote_wakeup :: bool
  p_in_iowait :: bool
  p_nvcsw :: u64
  p_nivcsw :: u64
  p_need_resched :: bool
  p_polling :: bool
  p_pi_top_task :: "task_id option"
  p_dl_boosted :: bool
  p_sched_exp :: u64
  p_wake_q :: bool

section \<open>Run queues\<close>

record ts_rq =
  ts_queue :: "task_id list list"

text \<open>
  The RT class's priority array and accounting.  The bitmap has \<open>MAX_RT_PRIO + 1\<close> bits, the
  last one a delimiter; \<open>pushable_tasks\<close> is a plist, sorted by the priority each node was
  initialised with.
\<close>

record rt_prio_array =
  bitmap :: "bool list"
  queue :: "task_id list list"

record rt_rq =
  active :: rt_prio_array
  rt_nr_running :: u32
  rr_nr_running :: u32
  highest_prio_curr :: int
  highest_prio_next :: int
  rt_nr_migratory :: u64
  rt_nr_total :: u64
  rt_is_overloaded :: bool
  pushable_tasks :: "(int \<times> task_id) list"
  rt_queued :: bool
  rt_throttled :: bool
  rt_time :: u64
  rt_runtime :: u64

record rt_bandwidth =
  rt_period :: u64
  rtb_runtime :: u64
  rt_period_active :: bool

datatype balance_fn = Push_rt_tasks | Pull_rt_task

record rq =
  rq_nr_running :: u32
  rq_nr_switches :: u64
  rq_cfs_h_nr_running :: u32
  rq_rt :: rt_rq
  rq_dl_nr_running :: u64
  rq_ts :: ts_rq
  rq_nr_uninterruptible :: u64
  rq_curr :: task_id
  rq_idle :: task_id
  rq_stop :: "task_id option"
  rq_prev_mm :: "nat option"
  rq_clock_update_flags :: u32
  rq_clock :: u64
  rq_clock_task :: u64
  rq_nr_iowait :: u32
  rq_rd :: nat
  rq_balance_callback :: "balance_fn list"
  rq_idle_balance :: bool
  rq_online :: bool
  rq_idle_stamp :: u64
  rq_avg_idle :: u64
  rq_max_idle_balance_cost :: u64
  rq_prev_irq_time :: u64
  rq_prev_steal_time_rq :: u64
  rq_wake_list :: "task_id list"

record root_domain =
  rd_span :: cpumask
  rd_overload :: bool
  rto_mask :: cpumask
  rto_count :: int
  rto_loop :: int
  rto_cpu :: int
  rto_loop_next :: int
  rto_loop_start :: bool
  rd_cpupri :: "cpu_id \<Rightarrow> int"

text \<open>
  The whole system.  \<open>sched_clock\<close>, \<open>irq_time\<close> and \<open>steal_clock\<close> are the readings the clock
  sources give in this state, \<open>feat_*\<close> the scheduler feature bits that the code tests,
  \<open>ipis\<close> the reschedule interrupts sent so far, \<open>irq_works\<close> the CPUs the RT
  push work was queued on, \<open>preempt_need\<close> the folded need-resched bit of each CPU's preempt count,
  \<open>mm_count\<close> the reference count of each address space.
\<close>

record sys =
  tasks :: "task_id \<Rightarrow> task_struct"
  rqs :: "cpu_id \<Rightarrow> rq"
  rds :: "nat \<Rightarrow> root_domain"
  this_cpu :: cpu_id
  nr_cpu_ids :: nat
  cpu_online_mask :: cpumask
  cpu_active_mask :: cpumask
  cpu_possible_mask :: cpumask
  sched_clock :: "cpu_id \<Rightarrow> u64"
  irq_time :: "cpu_id \<Rightarrow> u64"
  steal_clock :: "cpu_id \<Rightarrow> u64"
  paravirt_steal_rq_enabled :: bool
  jiffies :: u64
  def_rt_bandwidth :: rt_bandwidth
  sysctl_sched_rt_period :: u32
  sysctl_sched_rt_runtime :: "32 word"
  sched_rr_timeslice :: u32
  feat_rt_runtime_share :: bool
  feat_rt_push_ipi :: bool
  feat_ttwu_queue :: bool
  ipis :: "cpu_id list"
  irq_works :: "cpu_id list"
  preempt_need :: "cpu_id \<Rightarrow> bool"
  mm_count :: "nat \<Rightarrow> int"
  fault :: "kfault option"

section \<open>Access to the state\<close>

definition upd_task :: "task_id \<Rightarrow> (task_struct \<Rightarrow> task_struct) \<Rightarrow> sys \<Rightarrow> sys" where
  "upd_task p f s = s\<lparr>tasks := (tasks s)(p := f (tasks s p))\<rparr>"

definition upd_rq :: "cpu_id \<Rightarrow> (rq \<Rightarrow> rq) \<Rightarrow> sys \<Rightarrow> sys" where
  "upd_rq c f s = s\<lparr>rqs := (rqs s)(c := f (rqs s c))\<rparr>"

definition upd_rd :: "nat \<Rightarrow> (root_domain \<Rightarrow> root_domain) \<Rightarrow> sys \<Rightarrow> sys" where
  "upd_rd d f s = s\<lparr>rds := (rds s)(d := f (rds s d))\<rparr>"

definition raise_fault :: "kfault \<Rightarrow> sys \<Rightarrow> sys" where
  "raise_fault e s = (case fault s of None \<Rightarrow> s\<lparr>fault := Some e\<rparr> | Some _ \<Rightarrow> s)"

lemma tasks_upd_task [simp]: "tasks (upd_task p f s) = (tasks s)(p := f (tasks s p))"
  by (simp add: upd_task_def)

lemma rqs_upd_task [simp, frame_simps]: "rqs (upd_task p f s) = rqs s"
  by (simp add: upd_task_def)

lemma rds_upd_task [simp, frame_simps]: "rds (upd_task p f s) = rds s"
  by (simp add: upd_task_def)

lemma fault_upd_task [simp, frame_simps]: "fault (upd_task p f s) = fault s"
  by (simp add: upd_task_def)

lemma rqs_upd_rq [simp]: "rqs (upd_rq c f s) = (rqs s)(c := f (rqs s c))"
  by (simp add: upd_rq_def)

lemma tasks_upd_rq [simp, frame_simps]: "tasks (upd_rq c f s) = tasks s"
  by (simp add: upd_rq_def)

lemma rds_upd_rq [simp, frame_simps]: "rds (upd_rq c f s) = rds s"
  by (simp add: upd_rq_def)

lemma fault_upd_rq [simp, frame_simps]: "fault (upd_rq c f s) = fault s"
  by (simp add: upd_rq_def)

lemma rds_upd_rd [simp]: "rds (upd_rd d f s) = (rds s)(d := f (rds s d))"
  by (simp add: upd_rd_def)

lemma upd_rd_frame [simp, frame_simps]:
  "tasks (upd_rd d f s) = tasks s" "rqs (upd_rd d f s) = rqs s" "fault (upd_rd d f s) = fault s"
  by (simp_all add: upd_rd_def)

lemma raise_fault_frame [simp, frame_simps]:
  "tasks (raise_fault e s) = tasks s" "rqs (raise_fault e s) = rqs s" "rds (raise_fault e s) = rds s"
  by (simp_all add: raise_fault_def split: option.splits)

lemma fault_raise_fault [simp]:
  "fault (raise_fault e s) = Some (case fault s of None \<Rightarrow> e | Some e' \<Rightarrow> e')"
  by (simp add: raise_fault_def split: option.splits)

text \<open>The rest of the state is untouched by these updates.\<close>

lemma upd_this_cpu [simp, frame_simps]:
  "this_cpu (upd_task p f s) = this_cpu s" "this_cpu (upd_rq c g s) = this_cpu s"
  "this_cpu (upd_rd d h s) = this_cpu s" "this_cpu (raise_fault e s) = this_cpu s"
  by (simp_all add: upd_task_def upd_rq_def upd_rd_def raise_fault_def split: option.splits)

section \<open>Small predicates of sched.h\<close>

definition task_has_rt_policy :: "task_struct \<Rightarrow> bool" where
  "task_has_rt_policy p \<longleftrightarrow> rt_policy (p_policy p)"

definition task_has_dl_policy :: "task_struct \<Rightarrow> bool" where
  "task_has_dl_policy p \<longleftrightarrow> dl_policy (p_policy p)"

definition task_current :: "sys \<Rightarrow> cpu_id \<Rightarrow> task_id \<Rightarrow> bool" where
  "task_current s c p \<longleftrightarrow> rq_curr (rqs s c) = p"

definition task_running :: "sys \<Rightarrow> task_id \<Rightarrow> bool" where
  "task_running s p \<longleftrightarrow> p_on_cpu (tasks s p)"

definition task_on_rq_queued :: "sys \<Rightarrow> task_id \<Rightarrow> bool" where
  "task_on_rq_queued s p \<longleftrightarrow> p_on_rq (tasks s p) = TASK_ON_RQ_QUEUED"

definition task_on_rq_migrating :: "sys \<Rightarrow> task_id \<Rightarrow> bool" where
  "task_on_rq_migrating s p \<longleftrightarrow> p_on_rq (tasks s p) = TASK_ON_RQ_MIGRATING"

definition task_nice :: "task_struct \<Rightarrow> int" where
  "task_nice p = PRIO_TO_NICE (p_static_prio p)"

definition task_contributes_to_load :: "task_struct \<Rightarrow> bool" where
  "task_contributes_to_load p \<longleftrightarrow> flag_set (p_state p) TASK_UNINTERRUPTIBLE \<and>
     \<not> flag_set (p_flags p) PF_FROZEN \<and> \<not> flag_set (p_state p) TASK_NOLOAD"

definition rt_bandwidth_enabled :: "sys \<Rightarrow> bool" where
  "rt_bandwidth_enabled s \<longleftrightarrow> 0 \<le> sint (sysctl_sched_rt_runtime s)"

definition dl_bandwidth_enabled :: "sys \<Rightarrow> bool" where
  "dl_bandwidth_enabled s \<longleftrightarrow> 0 \<le> sint (sysctl_sched_rt_runtime s)"

definition NSEC_PER_USEC :: u64 where "NSEC_PER_USEC = 1000"

definition global_rt_period :: "sys \<Rightarrow> u64" where
  "global_rt_period s = ucast (sysctl_sched_rt_period s) * NSEC_PER_USEC"

definition global_rt_runtime :: "sys \<Rightarrow> u64" where
  "global_rt_runtime s =
     (if sint (sysctl_sched_rt_runtime s) < 0 then RUNTIME_INF
      else ucast (sysctl_sched_rt_runtime s) * NSEC_PER_USEC)"

section \<open>CPU masks\<close>

definition cpus_of :: "sys \<Rightarrow> cpumask \<Rightarrow> cpu_id list" where
  "cpus_of s m = filter m [0..<nr_cpu_ids s]"

definition cpumask_weight :: "sys \<Rightarrow> cpumask \<Rightarrow> nat" where
  "cpumask_weight s m = length (cpus_of s m)"

definition cpumask_first :: "sys \<Rightarrow> cpumask \<Rightarrow> cpu_id" where
  "cpumask_first s m = (case cpus_of s m of [] \<Rightarrow> nr_cpu_ids s | c # _ \<Rightarrow> c)"

definition cpumask_any_and :: "sys \<Rightarrow> cpumask \<Rightarrow> cpumask \<Rightarrow> cpu_id" where
  "cpumask_any_and s m m' = cpumask_first s (\<lambda>c. m c \<and> m' c)"

definition cpumask_equal :: "sys \<Rightarrow> cpumask \<Rightarrow> cpumask \<Rightarrow> bool" where
  "cpumask_equal s m m' \<longleftrightarrow> cpus_of s m = cpus_of s m'"

definition cpumask_subset :: "sys \<Rightarrow> cpumask \<Rightarrow> cpumask \<Rightarrow> bool" where
  "cpumask_subset s m m' \<longleftrightarrow> list_all m' (cpus_of s m)"

lemma cpumask_first_in: "cpumask_first s m < nr_cpu_ids s \<Longrightarrow> m (cpumask_first s m)"
proof -
  assume a: "cpumask_first s m < nr_cpu_ids s"
  then obtain c cs where "cpus_of s m = c # cs"
    by (auto simp: cpumask_first_def split: list.splits)
  moreover have "\<forall>x\<in>set (cpus_of s m). m x" by (simp add: cpus_of_def)
  ultimately show ?thesis by (simp add: cpumask_first_def)
qed

lemma cpumask_first_none: "cpumask_first s m = nr_cpu_ids s \<longleftrightarrow> (\<forall>c<nr_cpu_ids s. \<not> m c)"
proof
  assume "cpumask_first s m = nr_cpu_ids s"
  then have "cpus_of s m = [] \<or> (\<exists>cs. cpus_of s m = nr_cpu_ids s # cs)"
    by (auto simp: cpumask_first_def split: list.splits)
  moreover have "nr_cpu_ids s \<notin> set (cpus_of s m)" by (simp add: cpus_of_def)
  ultimately have "cpus_of s m = []" by force
  then show "\<forall>c<nr_cpu_ids s. \<not> m c" by (simp add: cpus_of_def filter_empty_conv)
next
  assume "\<forall>c<nr_cpu_ids s. \<not> m c"
  then have "cpus_of s m = []" by (simp add: cpus_of_def filter_empty_conv)
  then show "cpumask_first s m = nr_cpu_ids s" by (simp add: cpumask_first_def)
qed


section \<open>A booted system\<close>

text \<open>
  A closed state of a machine with two CPUs on which nothing runs but the idle tasks 0 and 1:
  the starting point of the concrete runs.
\<close>

definition idle_se :: sched_entity where
  "idle_se = \<lparr>se_load = \<lparr>lw_weight = 0, lw_inv_weight = 0\<rparr>, se_on_rq = False, se_exec_start = 0,
     se_sum_exec_runtime = 0, se_prev_sum_exec_runtime = 0, se_vruntime = 0, se_nr_migrations = 0\<rparr>"

definition boot_task :: task_struct where
  "boot_task = \<lparr>p_pid = 0, p_state = 0, p_flags = 0, p_on_cpu = False, p_cpu = 0, p_wake_cpu = 0,
     p_recent_used_cpu = 0, p_on_rq = 0, p_prio = 120, p_static_prio = 120, p_normal_prio = 120,
     p_rt_priority = 0, p_sched_class = Fair_class, p_se = idle_se,
     p_rt = \<lparr>rte_timeout = 0, rte_watchdog_stamp = 0, rte_time_slice = 100, rte_on_rq = False,
            rte_on_list = False\<rparr>,
     p_ts = \<lparr>ts_list = Self_linked, ts_time_slice = 12\<rparr>, p_policy = SCHED_NORMAL,
     p_nr_cpus_allowed = 2, p_cpus_allowed = (\<lambda>_. True), p_mm = Some 1,
     p_active_mm = Some 1,
     p_sched_reset_on_fork = False, p_sched_contributes_to_load = False,
     p_sched_remote_wakeup = False, p_in_iowait = False, p_nvcsw = 0, p_nivcsw = 0,
     p_need_resched = False, p_polling = False, p_pi_top_task = None, p_dl_boosted = False,
     p_sched_exp = 0, p_wake_q = False\<rparr>"

definition boot_rt_rq :: rt_rq where
  "boot_rt_rq = \<lparr>active = \<lparr>bitmap = replicate 100 False @ [True], queue = replicate 100 []\<rparr>,
     rt_nr_running = 0, rr_nr_running = 0, highest_prio_curr = 100, highest_prio_next = 100,
     rt_nr_migratory = 0, rt_nr_total = 0, rt_is_overloaded = False, pushable_tasks = [],
     rt_queued = False, rt_throttled = False, rt_time = 0, rt_runtime = 950000000\<rparr>"

definition boot_rq :: "cpu_id \<Rightarrow> rq" where
  "boot_rq c = \<lparr>rq_nr_running = 0, rq_nr_switches = 0, rq_cfs_h_nr_running = 0, rq_rt = boot_rt_rq,
     rq_dl_nr_running = 0, rq_ts = \<lparr>ts_queue = replicate 40 []\<rparr>, rq_nr_uninterruptible = 0,
     rq_curr = c, rq_idle = c, rq_stop = None, rq_prev_mm = None, rq_clock_update_flags = 0, rq_clock = 0,
     rq_clock_task = 0, rq_nr_iowait = 0, rq_rd = 0, rq_balance_callback = [],
     rq_idle_balance = False, rq_online = True, rq_idle_stamp = 0, rq_avg_idle = 0,
     rq_max_idle_balance_cost = 0, rq_prev_irq_time = 0, rq_prev_steal_time_rq = 0,
     rq_wake_list = []\<rparr>"

definition boot_sys :: sys where
  "boot_sys = \<lparr>tasks = (\<lambda>p. if p < 2 then boot_task\<lparr>p_sched_class := Idle_class, p_flags := PF_IDLE, p_cpu := p,
           p_mm := None, p_active_mm := Some 0\<rparr>
       else boot_task),
     rqs = boot_rq,
     rds = (\<lambda>_. \<lparr>rd_span = (\<lambda>_. True), rd_overload = False, rto_mask = (\<lambda>_. False), rto_count = 0,
        rto_loop = 0, rto_cpu = - 1, rto_loop_next = 0, rto_loop_start = False,
        rd_cpupri = (\<lambda>_. 0)\<rparr>),
     this_cpu = 0, nr_cpu_ids = 2, cpu_online_mask = (\<lambda>c. c < 2), cpu_active_mask = (\<lambda>c. c < 2),
     cpu_possible_mask = (\<lambda>c. c < 2), sched_clock = (\<lambda>_. 0), irq_time = (\<lambda>_. 0),
     steal_clock = (\<lambda>_. 0), paravirt_steal_rq_enabled = False, jiffies = 0,
     def_rt_bandwidth = \<lparr>rt_period = 1000000000, rtb_runtime = 950000000, rt_period_active = False\<rparr>,
     sysctl_sched_rt_period = 1000000, sysctl_sched_rt_runtime = 950000, sched_rr_timeslice = 100,
     feat_rt_runtime_share = True, feat_rt_push_ipi = False, feat_ttwu_queue = False, ipis = [], irq_works = [],
     preempt_need = (\<lambda>_. False),
     mm_count = (\<lambda>m. if m = 0 then 3 else 1), fault = None\<rparr>"

end
