(* ===== verification/Sched_Base.thy ===== *)
theory Sched_Base
  imports Sched_Types
begin

text \<open>
  The services of \<open>kernel/sched/core.c\<close> and \<open>kernel/sched/sched.h\<close> every scheduling class calls:
  the run-queue clocks, the need-resched protocol with its cross-CPU interrupts, the count of
  runnable tasks and the idle-CPU queries.
\<close>

section \<open>Run-queue clocks\<close>

definition update_rq_clock_task :: "cpu_id \<Rightarrow> u64 \<Rightarrow> sys \<Rightarrow> sys" where
  "update_rq_clock_task c delta s =
     (let rq = rqs s c;
          irq0 = irq_time s c - rq_prev_irq_time rq;
          irq_delta = (if s64 irq0 > s64 delta then delta else irq0);
          delta1 = delta - irq_delta;
          steal0 = steal_clock s c - rq_prev_steal_time_rq rq;
          steal = (if \<not> paravirt_steal_rq_enabled s then 0
                   else if s64 steal0 > s64 delta1 then delta1 else steal0);
          delta2 = delta1 - steal
      in upd_rq c (\<lambda>rq. rq\<lparr>rq_prev_irq_time := rq_prev_irq_time rq + irq_delta,
                           rq_prev_steal_time_rq := rq_prev_steal_time_rq rq + steal,
                           rq_clock_task := rq_clock_task rq + delta2\<rparr>) s)"

definition update_rq_clock :: "cpu_id \<Rightarrow> sys \<Rightarrow> sys" where
  "update_rq_clock c s =
     (if flag_set (rq_clock_update_flags (rqs s c)) RQCF_ACT_SKIP then s
      else
        let delta = sched_clock s c - rq_clock (rqs s c)
        in if s64 delta < 0 then s
           else update_rq_clock_task c delta
                  (upd_rq c (\<lambda>rq. rq\<lparr>rq_clock := rq_clock rq + delta\<rparr>) s))"

definition rq_clock_skip_update :: "cpu_id \<Rightarrow> sys \<Rightarrow> sys" where
  "rq_clock_skip_update c =
     upd_rq c (\<lambda>rq. rq\<lparr>rq_clock_update_flags := rq_clock_update_flags rq OR RQCF_REQ_SKIP\<rparr>)"

definition rq_clock_cancel_skipupdate :: "cpu_id \<Rightarrow> sys \<Rightarrow> sys" where
  "rq_clock_cancel_skipupdate c =
     upd_rq c (\<lambda>rq. rq\<lparr>rq_clock_update_flags := rq_clock_update_flags rq AND NOT RQCF_REQ_SKIP\<rparr>)"

section \<open>Asking a CPU to reschedule\<close>

definition smp_send_reschedule :: "cpu_id \<Rightarrow> sys \<Rightarrow> sys" where
  "smp_send_reschedule c s = s\<lparr>ipis := ipis s @ [c]\<rparr>"

definition set_tsk_need_resched :: "task_id \<Rightarrow> sys \<Rightarrow> sys" where
  "set_tsk_need_resched p = upd_task p (\<lambda>t. t\<lparr>p_need_resched := True\<rparr>)"

definition set_preempt_need_resched :: "sys \<Rightarrow> sys" where
  "set_preempt_need_resched s = s\<lparr>preempt_need := (preempt_need s)(this_cpu s := True)\<rparr>"

text \<open>The two atomic read-modify-write tests return their answer with the new state.\<close>

definition set_nr_and_not_polling :: "task_id \<Rightarrow> sys \<Rightarrow> bool \<times> sys" where
  "set_nr_and_not_polling p s = (\<not> p_polling (tasks s p), set_tsk_need_resched p s)"

definition set_nr_if_polling :: "task_id \<Rightarrow> sys \<Rightarrow> bool \<times> sys" where
  "set_nr_if_polling p s =
     (if \<not> p_polling (tasks s p) then (False, s)
      else if p_need_resched (tasks s p) then (True, s)
      else (True, set_tsk_need_resched p s))"

definition resched_curr :: "cpu_id \<Rightarrow> sys \<Rightarrow> sys" where
  "resched_curr c s =
     (let curr = rq_curr (rqs s c)
      in if p_need_resched (tasks s curr) then s
         else if c = this_cpu s then set_preempt_need_resched (set_tsk_need_resched curr s)
         else case set_nr_and_not_polling curr s of (kick, s1) \<Rightarrow>
                if kick then smp_send_reschedule c s1 else s1)"

definition resched_cpu :: "cpu_id \<Rightarrow> sys \<Rightarrow> sys" where
  "resched_cpu c s =
     (if cpu_online_mask s c \<or> c = this_cpu s then resched_curr c s else s)"

definition wake_up_idle_cpu :: "cpu_id \<Rightarrow> sys \<Rightarrow> sys" where
  "wake_up_idle_cpu c s =
     (if c = this_cpu s then s
      else case set_nr_and_not_polling (rq_idle (rqs s c)) s of (kick, s1) \<Rightarrow>
             if kick then smp_send_reschedule c s1 else s1)"

definition is_idle_task :: "task_struct \<Rightarrow> bool" where
  "is_idle_task p \<longleftrightarrow> flag_set (p_flags p) PF_IDLE"

definition wake_up_if_idle :: "cpu_id \<Rightarrow> sys \<Rightarrow> sys" where
  "wake_up_if_idle c s =
     (if \<not> is_idle_task (tasks s (rq_curr (rqs s c))) then s
      else case set_nr_if_polling (rq_idle (rqs s c)) s of (polling, s1) \<Rightarrow>
        if polling then s1
        else if is_idle_task (tasks s1 (rq_curr (rqs s1 c))) then smp_send_reschedule c s1
        else s1)"

definition task_curr :: "sys \<Rightarrow> task_id \<Rightarrow> bool" where
  "task_curr s p \<longleftrightarrow> rq_curr (rqs s (p_cpu (tasks s p))) = p"

definition kick_process :: "task_id \<Rightarrow> sys \<Rightarrow> sys" where
  "kick_process p s =
     (let c = p_cpu (tasks s p)
      in if c \<noteq> this_cpu s \<and> task_curr s p then smp_send_reschedule c s else s)"

section \<open>Runnable counts and idle CPUs\<close>

definition add_nr_running :: "cpu_id \<Rightarrow> u32 \<Rightarrow> sys \<Rightarrow> sys" where
  "add_nr_running c count s =
     (let prev_nr = rq_nr_running (rqs s c);
          s1 = upd_rq c (\<lambda>rq. rq\<lparr>rq_nr_running := prev_nr + count\<rparr>) s
      in if prev_nr < 2 \<and> 2 \<le> prev_nr + count
         then upd_rd (rq_rd (rqs s c)) (\<lambda>rd. rd\<lparr>rd_overload := True\<rparr>) s1
         else s1)"

definition sub_nr_running :: "cpu_id \<Rightarrow> u32 \<Rightarrow> sys \<Rightarrow> sys" where
  "sub_nr_running c count = upd_rq c (\<lambda>rq. rq\<lparr>rq_nr_running := rq_nr_running rq - count\<rparr>)"

definition idle_cpu :: "sys \<Rightarrow> cpu_id \<Rightarrow> bool" where
  "idle_cpu s c \<longleftrightarrow>
     (let rq = rqs s c
      in if rq_curr rq \<noteq> rq_idle rq then False
         else if rq_nr_running rq \<noteq> 0 then False
         else if rq_wake_list rq \<noteq> [] then False
         else True)"

definition available_idle_cpu :: "(cpu_id \<Rightarrow> bool) \<Rightarrow> sys \<Rightarrow> cpu_id \<Rightarrow> bool" where
  "available_idle_cpu vcpu_is_preempted s c \<longleftrightarrow>
     (if \<not> idle_cpu s c then False else if vcpu_is_preempted c then False else True)"

definition sched_can_stop_tick :: "rq \<Rightarrow> bool" where
  "sched_can_stop_tick rq =
     (if rq_dl_nr_running rq \<noteq> 0 then False
      else if rr_nr_running (rq_rt rq) \<noteq> 0 then rr_nr_running (rq_rt rq) = 1
      else let fifo_nr_running = rt_nr_running (rq_rt rq) - rr_nr_running (rq_rt rq)
           in if fifo_nr_running \<noteq> 0 then True
              else if 1 < rq_nr_running rq then False
              else True)"

text \<open>
  \<open>domains\<close> are the spans of the scheduling domains of the calling CPU from the smallest up,
  \<open>housekeeping\<close> the CPUs allowed to run timers.
\<close>

definition get_nohz_timer_target ::
  "cpumask list \<Rightarrow> (cpu_id \<Rightarrow> bool) \<Rightarrow> cpu_id \<Rightarrow> sys \<Rightarrow> cpu_id" where
  "get_nohz_timer_target domains housekeeping housekeeping_any s =
     (let c = this_cpu s
      in if \<not> idle_cpu s c \<and> housekeeping c then c
         else case find (\<lambda>i. i \<noteq> c \<and> \<not> idle_cpu s i \<and> housekeeping i)
                     (concat (map (cpus_of s) domains)) of
                Some i \<Rightarrow> i
              | None \<Rightarrow> if \<not> housekeeping c then housekeeping_any else c)"

section \<open>What these services leave alone\<close>

lemma update_rq_clock_task_frame [simp, frame_simps]:
  "tasks (update_rq_clock_task c d s) = tasks s"
  "rds (update_rq_clock_task c d s) = rds s"
  "fault (update_rq_clock_task c d s) = fault s"
  "this_cpu (update_rq_clock_task c d s) = this_cpu s"
  by (simp_all add: update_rq_clock_task_def Let_def)

lemma update_rq_clock_frame [simp, frame_simps]:
  "tasks (update_rq_clock c s) = tasks s"
  "rds (update_rq_clock c s) = rds s"
  "fault (update_rq_clock c s) = fault s"
  "this_cpu (update_rq_clock c s) = this_cpu s"
  by (simp_all add: update_rq_clock_def Let_def)

lemma update_rq_clock_rq [simp, frame_simps]:
  "rq_curr (rqs (update_rq_clock c s) k) = rq_curr (rqs s k)"
  "rq_idle (rqs (update_rq_clock c s) k) = rq_idle (rqs s k)"
  "rq_stop (rqs (update_rq_clock c s) k) = rq_stop (rqs s k)"
  "rq_rt (rqs (update_rq_clock c s) k) = rq_rt (rqs s k)"
  "rq_ts (rqs (update_rq_clock c s) k) = rq_ts (rqs s k)"
  "rq_nr_running (rqs (update_rq_clock c s) k) = rq_nr_running (rqs s k)"
  "rq_cfs_h_nr_running (rqs (update_rq_clock c s) k) = rq_cfs_h_nr_running (rqs s k)"
  by (simp_all add: update_rq_clock_def update_rq_clock_task_def Let_def)

lemma need_resched_frame [simp, frame_simps]:
  "rqs (smp_send_reschedule c s) = rqs s" "tasks (smp_send_reschedule c s) = tasks s"
  "fault (smp_send_reschedule c s) = fault s" "rds (smp_send_reschedule c s) = rds s"
  "rqs (set_tsk_need_resched p s) = rqs s" "fault (set_tsk_need_resched p s) = fault s"
  "rds (set_tsk_need_resched p s) = rds s"
  "rqs (set_preempt_need_resched s) = rqs s" "tasks (set_preempt_need_resched s) = tasks s"
  "fault (set_preempt_need_resched s) = fault s" "rds (set_preempt_need_resched s) = rds s"
  by (simp_all add: smp_send_reschedule_def set_tsk_need_resched_def set_preempt_need_resched_def)

lemma resched_curr_frame [simp, frame_simps]:
  "rqs (resched_curr c s) = rqs s" "fault (resched_curr c s) = fault s"
  "rds (resched_curr c s) = rds s" "this_cpu (resched_curr c s) = this_cpu s"
  by (simp_all add: resched_curr_def set_nr_and_not_polling_def Let_def smp_send_reschedule_def
      set_preempt_need_resched_def set_tsk_need_resched_def)

text \<open>A reschedule request changes nothing of any task but the need-resched bit of the current one.\<close>

lemma resched_curr_tasks:
  "tasks (resched_curr c s) =
     (tasks s)(rq_curr (rqs s c) := (tasks s (rq_curr (rqs s c)))\<lparr>p_need_resched := True\<rparr>)"
  by (auto simp: resched_curr_def set_nr_and_not_polling_def Let_def smp_send_reschedule_def
      set_preempt_need_resched_def set_tsk_need_resched_def fun_eq_iff)

lemma resched_curr_task_fields [simp, frame_simps]:
  "p_prio (tasks (resched_curr c s) p) = p_prio (tasks s p)"
  "p_ts (tasks (resched_curr c s) p) = p_ts (tasks s p)"
  "p_rt (tasks (resched_curr c s) p) = p_rt (tasks s p)"
  "p_se (tasks (resched_curr c s) p) = p_se (tasks s p)"
  "p_policy (tasks (resched_curr c s) p) = p_policy (tasks s p)"
  "p_sched_class (tasks (resched_curr c s) p) = p_sched_class (tasks s p)"
  "p_cpu (tasks (resched_curr c s) p) = p_cpu (tasks s p)"
  "p_on_rq (tasks (resched_curr c s) p) = p_on_rq (tasks s p)"
  "p_nr_cpus_allowed (tasks (resched_curr c s) p) = p_nr_cpus_allowed (tasks s p)"
  by (simp_all add: resched_curr_tasks)

lemma add_nr_running_frame [simp, frame_simps]:
  "tasks (add_nr_running c n s) = tasks s" "fault (add_nr_running c n s) = fault s"
  "this_cpu (add_nr_running c n s) = this_cpu s"
  by (simp_all add: add_nr_running_def Let_def)

lemma add_nr_running_rqs [simp]:
  "rqs (add_nr_running c n s) =
     (rqs s)(c := (rqs s c)\<lparr>rq_nr_running := rq_nr_running (rqs s c) + n\<rparr>)"
  by (simp add: add_nr_running_def Let_def)

lemma sub_nr_running_frame [simp, frame_simps]:
  "tasks (sub_nr_running c n s) = tasks s" "fault (sub_nr_running c n s) = fault s"
  "this_cpu (sub_nr_running c n s) = this_cpu s" "rds (sub_nr_running c n s) = rds s"
  by (simp_all add: sub_nr_running_def)

lemma sub_nr_running_rqs [simp]:
  "rqs (sub_nr_running c n s) =
     (rqs s)(c := (rqs s c)\<lparr>rq_nr_running := rq_nr_running (rqs s c) - n\<rparr>)"
  by (simp add: sub_nr_running_def)

section \<open>Clock arithmetic\<close>

lemma s64_diff_nonneg:
  assumes "0 \<le> s64 b" "s64 b \<le> s64 a"
  shows "s64 (a - b) = s64 a - s64 b"
proof -
  have "s64 a - s64 b < 2 ^ 63" "- (2 ^ 63) \<le> s64 a - s64 b"
    using assms sint_lt[of a] by (auto simp: s64_def)
  then show ?thesis
    unfolding s64_def sint_word_ariths
    by (subst signed_take_bit_int_eq_self) (simp_all add: s64_def)
qed

lemma clamp_part:
  assumes "0 \<le> s64 (d::u64)" "0 \<le> s64 x"
  defines "y \<equiv> (if s64 x > s64 d then d else x)"
  shows "0 \<le> s64 y" "s64 y \<le> s64 d" "s64 y \<le> s64 x" "0 \<le> s64 (d - y)" "s64 (d - y) \<le> s64 d"
proof -
  show y: "0 \<le> s64 y" "s64 y \<le> s64 d" "s64 y \<le> s64 x" using assms by auto
  show "0 \<le> s64 (d - y)" "s64 (d - y) \<le> s64 d" using y by (simp_all add: s64_diff_nonneg)
qed

text \<open>
  The task clock of a run queue only ever moves forward, and never by more than the queue clock,
  as long as the interrupt and steal clocks are not behind what was last accounted.
\<close>

lemma update_rq_clock_task_advances:
  assumes "0 \<le> s64 delta"
    and "0 \<le> s64 (irq_time s c - rq_prev_irq_time (rqs s c))"
    and "0 \<le> s64 (steal_clock s c - rq_prev_steal_time_rq (rqs s c))"
  obtains d where "rq_clock_task (rqs (update_rq_clock_task c delta s) c) = rq_clock_task (rqs s c) + d"
    and "0 \<le> s64 d" "s64 d \<le> s64 delta"
proof -
  let ?i0 = "irq_time s c - rq_prev_irq_time (rqs s c)"
  let ?i = "if s64 ?i0 > s64 delta then delta else ?i0"
  let ?s0 = "steal_clock s c - rq_prev_steal_time_rq (rqs s c)"
  let ?st = "if s64 ?s0 > s64 (delta - ?i) then delta - ?i else ?s0"
  let ?d = "if paravirt_steal_rq_enabled s then delta - ?i - ?st else delta - ?i"
  note i = clamp_part[OF assms(1,2)]
  note st = clamp_part[OF i(4) assms(3)]
  have "rq_clock_task (rqs (update_rq_clock_task c delta s) c) = rq_clock_task (rqs s c) + ?d"
    by (simp add: update_rq_clock_task_def Let_def)
  moreover have "0 \<le> s64 ?d" "s64 ?d \<le> s64 delta"
    using i(4,5) st(4,5) by auto
  ultimately show thesis by (rule that)
qed

end
