(* ===== verification/Level_Queue.thy ===== *)
theory Level_Queue
  imports Prelude
begin

text \<open>
  The interface the two priority-array classes of the scheduler provide: an array of FIFO queues,
  best level first, with insertion at the tail of a level, deletion, and a pick operation.  The
  laws are what the class operations promise; the consequences that the callers rely on (the pick
  is the oldest task of the best non-empty level, a newly inserted task of a better level preempts,
  requeueing serves a level round-robin and reaches every task of it) are proved once from them.
\<close>

text \<open>Repeatedly moving the head of level \<open>i\<close> to its tail.\<close>

fun serve_rounds :: "('a \<Rightarrow> nat \<Rightarrow> 'q \<Rightarrow> 'q) \<Rightarrow> ('a \<Rightarrow> nat \<Rightarrow> 'q \<Rightarrow> 'q) \<Rightarrow> ('q \<Rightarrow> 'a list list) \<Rightarrow>
    nat \<Rightarrow> nat \<Rightarrow> 'q \<Rightarrow> 'q" where
  "serve_rounds add del lev i 0 q = q"
| "serve_rounds add del lev i (Suc n) q =
     (let x = hd (lev q ! i) in serve_rounds add del lev i n (add x i (del x i q)))"

lemma concat_update_set:
  "i < length qs \<Longrightarrow> set (concat (qs[i := ys])) \<subseteq> set (concat qs) \<union> set ys"
  using set_update_subset_insert[of qs i ys] by auto

lemma nth_in_concat: "i < length qs \<Longrightarrow> x \<in> set (qs ! i) \<Longrightarrow> x \<in> set (concat qs)"
  by (auto intro: nth_mem)

lemma distinct_concat_nth: "i < length qs \<Longrightarrow> distinct (concat qs) \<Longrightarrow> distinct (qs ! i)"
  by (simp add: distinct_concat_iff)

text \<open>In a duplicate-free family of queues a member belongs to one queue only.\<close>

lemma distinct_concat_unique:
  assumes "distinct (concat qs)" "i < length qs" "j < length qs"
    and "x \<in> set (qs ! i)" "x \<in> set (qs ! j)"
  shows "i = j"
  using assms
proof (induction qs arbitrary: i j)
  case Nil
  then show ?case by simp
next
  case (Cons q qs)
  show ?case
  proof (cases i)
    case 0
    show ?thesis
    proof (cases j)
      case (Suc k)
      with Cons.prems 0 have "x \<in> set q" "x \<in> set (concat qs)" by (auto intro: nth_in_concat)
      with Cons.prems show ?thesis by auto
    qed (simp add: 0)
  next
    case (Suc i')
    show ?thesis
    proof (cases j)
      case 0
      with Cons.prems Suc have "x \<in> set q" "x \<in> set (concat qs)" by (auto intro: nth_in_concat)
      with Cons.prems show ?thesis by auto
    next
      case (Suc j')
      with Cons.prems \<open>i = Suc i'\<close> have "i' = j'" by (intro Cons.IH) auto
      with Suc \<open>i = Suc i'\<close> show ?thesis by simp
    qed
  qed
qed

lemma concat_update_append_set:
  "i < length qs \<Longrightarrow> set (concat (qs[i := qs ! i @ [p]])) = insert p (set (concat qs))"
  by (induction qs arbitrary: i) (auto split: nat.splits)

lemma concat_update_remove_set:
  "i < length qs \<Longrightarrow> distinct (concat qs) \<Longrightarrow> x \<in> set (qs ! i) \<Longrightarrow>
     set (concat (qs[i := removeAll x (qs ! i)])) = set (concat qs) - {x}"
proof (induction qs arbitrary: i)
  case Nil
  then show ?case by simp
next
  case (Cons q qs)
  show ?case
  proof (cases i)
    case 0
    with Cons.prems show ?thesis by auto
  next
    case (Suc j)
    with Cons.prems have "x \<in> set (concat qs)" by (auto intro: nth_in_concat)
    with Cons.prems have "x \<notin> set q" by auto
    with Suc Cons show ?thesis by (simp del: set_concat) auto
  qed
qed

lemma distinct_concat_append:
  "i < length qs \<Longrightarrow> distinct (concat qs) \<Longrightarrow> p \<notin> set (concat qs) \<Longrightarrow>
     distinct (concat (qs[i := qs ! i @ [p]]))"
proof (induction qs arbitrary: i)
  case Nil
  then show ?case by simp
next
  case (Cons q qs)
  show ?case
  proof (cases i)
    case 0
    with Cons.prems show ?thesis by auto
  next
    case (Suc j)
    with Cons have "distinct (concat (qs[j := qs ! j @ [p]]))" by simp
    moreover have "set (concat (qs[j := qs ! j @ [p]])) = insert p (set (concat qs))"
      using Suc Cons.prems by (intro concat_update_append_set) simp
    ultimately show ?thesis using Suc Cons.prems by auto
  qed
qed

lemma distinct_concat_remove:
  "distinct (concat qs) \<Longrightarrow> distinct (concat (qs[i := removeAll x (qs ! i)]))"
proof (induction qs arbitrary: i)
  case Nil
  then show ?case by simp
next
  case (Cons q qs)
  show ?case
  proof (cases i)
    case 0
    with Cons.prems show ?thesis by (auto simp: distinct_removeAll)
  next
    case (Suc j)
    have "set (concat (qs[j := removeAll x (qs ! j)])) \<subseteq> set (concat qs)"
    proof (cases "j < length qs")
      case True
      then show ?thesis
        using concat_update_set[OF True, of "removeAll x (qs ! j)"] nth_in_concat[OF True] by auto
    qed (simp add: list_update_beyond)
    with Suc Cons show ?thesis by (auto simp del: set_concat)
  qed
qed

text \<open>Removing an element everywhere is removing it from the one queue that holds it.\<close>

lemma map_removeAll_update:
  assumes "distinct (concat qs)" "i < length qs" "x \<in> set (qs ! i)"
  shows "map (removeAll x) qs = qs[i := removeAll x (qs ! i)]"
proof (rule nth_equalityI)
  fix j assume "j < length (map (removeAll x) qs)"
  then have j: "j < length qs" by simp
  show "map (removeAll x) qs ! j = qs[i := removeAll x (qs ! i)] ! j"
  proof (cases "j = i")
    case False
    then have "x \<notin> set (qs ! j)" using distinct_concat_unique[OF assms(1,2) j assms(3)] by blast
    with False j show ?thesis by simp
  qed (use j in simp)
qed simp

locale level_queue =
  fixes levels :: "'q \<Rightarrow> 'a list list"
    and nlev :: nat
    and add_tail :: "'a \<Rightarrow> nat \<Rightarrow> 'q \<Rightarrow> 'q"
    and del :: "'a \<Rightarrow> nat \<Rightarrow> 'q \<Rightarrow> 'q"
    and first :: "'q \<Rightarrow> 'a option"
    and invar :: "'q \<Rightarrow> bool"
  assumes length_levels: "invar q \<Longrightarrow> length (levels q) = nlev"
    and distinct_levels: "invar q \<Longrightarrow> distinct (concat (levels q))"
    and add_tail_levels: "invar q \<Longrightarrow> i < nlev \<Longrightarrow> x \<notin> set (concat (levels q)) \<Longrightarrow>
          levels (add_tail x i q) = (levels q)[i := levels q ! i @ [x]]"
    and add_tail_invar: "invar q \<Longrightarrow> i < nlev \<Longrightarrow> x \<notin> set (concat (levels q)) \<Longrightarrow>
          invar (add_tail x i q)"
    and del_levels: "invar q \<Longrightarrow> i < nlev \<Longrightarrow> x \<in> set (levels q ! i) \<Longrightarrow>
          levels (del x i q) = (levels q)[i := removeAll x (levels q ! i)]"
    and del_invar: "invar q \<Longrightarrow> i < nlev \<Longrightarrow> x \<in> set (levels q ! i) \<Longrightarrow> invar (del x i q)"
    and first_levels: "invar q \<Longrightarrow> first q =
          map_option (\<lambda>i. hd (levels q ! i)) (find_index (\<lambda>l. l \<noteq> []) (levels q))"
begin

lemma first_None: "invar q \<Longrightarrow> first q = None \<longleftrightarrow> concat (levels q) = []"
  by (auto simp: first_levels find_index_None)

lemma first_is_oldest_of_best:
  assumes "invar q" "first q = Some x"
  obtains i where "i < nlev" "levels q ! i \<noteq> []" "x = hd (levels q ! i)"
    "\<And>j. j < i \<Longrightarrow> levels q ! j = []"
  using assms by (auto simp: first_levels find_index_Some length_levels)

lemma first_of_best:
  assumes "invar q" "i < nlev" "levels q ! i \<noteq> []" "\<And>j. j < i \<Longrightarrow> levels q ! j = []"
  shows "first q = Some (hd (levels q ! i))"
proof -
  have "find_index (\<lambda>l. l \<noteq> []) (levels q) = Some i"
    using assms by (auto simp: find_index_Some length_levels)
  then show ?thesis using assms(1) by (simp add: first_levels)
qed

lemma del_add_tail:
  assumes "invar q" "i < nlev" "x \<notin> set (concat (levels q))"
  shows "levels (del x i (add_tail x i q)) = levels q"
proof -
  have len: "length (levels q) = nlev" using assms by (simp add: length_levels)
  have fresh: "x \<notin> set (levels q ! i)" using assms len nth_in_concat[of i "levels q" x] by auto
  have "levels (del x i (add_tail x i q)) =
      (levels (add_tail x i q))[i := removeAll x (levels (add_tail x i q) ! i)]"
    using assms len by (intro del_levels add_tail_invar) (auto simp: add_tail_levels)
  also have "\<dots> = levels q" using assms len fresh by (simp add: add_tail_levels)
  finally show ?thesis .
qed

text \<open>A task added at a level better than every non-empty one is picked at once.\<close>

lemma add_tail_preempts:
  assumes "invar q" "i < nlev" "x \<notin> set (concat (levels q))" "\<And>j. j \<le> i \<Longrightarrow> levels q ! j = []"
  shows "first (add_tail x i q) = Some x"
proof -
  have len: "length (levels q) = nlev" using assms by (simp add: length_levels)
  have "first (add_tail x i q) = Some (hd (levels (add_tail x i q) ! i))"
    using assms len by (intro first_of_best add_tail_invar) (auto simp: add_tail_levels)
  also have "\<dots> = Some x" using assms len by (simp add: add_tail_levels)
  finally show ?thesis .
qed

lemma requeue_levels:
  assumes "invar q" "i < nlev" "x \<in> set (levels q ! i)"
  shows "levels (add_tail x i (del x i q)) = (levels q)[i := removeAll x (levels q ! i) @ [x]]"
    and "invar (add_tail x i (del x i q))"
proof -
  have len: "length (levels q) = nlev" using assms by (simp add: length_levels)
  have d: "levels (del x i q) = (levels q)[i := removeAll x (levels q ! i)]"
    using assms by (rule del_levels)
  have fresh: "x \<notin> set (concat (levels (del x i q)))"
    using concat_update_remove_set[of i "levels q" x] assms len distinct_levels
    by (simp add: d del: set_concat)
  have inv: "invar (del x i q)" using assms by (rule del_invar)
  show "levels (add_tail x i (del x i q)) = (levels q)[i := removeAll x (levels q ! i) @ [x]]"
    using assms len by (simp add: add_tail_levels[OF inv _ fresh]) (simp add: d)
  show "invar (add_tail x i (del x i q))" using inv assms(2) fresh by (rule add_tail_invar)
qed

lemma serve_rounds_levels:
  assumes "invar q" "i < nlev" "levels q ! i \<noteq> []"
  shows "levels (serve_rounds add_tail del levels i n q) = (levels q)[i := rotate n (levels q ! i)] \<and>
         invar (serve_rounds add_tail del levels i n q)"
  using assms
proof (induction n arbitrary: q)
  case 0
  then show ?case by simp
next
  case (Suc n)
  let ?x = "hd (levels q ! i)" and ?l = "levels q ! i"
  let ?q = "add_tail ?x i (del ?x i q)"
  have x: "?x \<in> set ?l" using Suc.prems by simp
  note rq = requeue_levels[OF Suc.prems(1,2) x]
  have len: "length (levels q) = nlev" using Suc.prems by (simp add: length_levels)
  have dist: "distinct ?l"
    using Suc.prems len distinct_levels by (intro distinct_concat_nth) auto
  have rot: "removeAll ?x ?l @ [?x] = rotate1 ?l"
    using dist Suc.prems(3) by (cases ?l) auto
  have "levels (serve_rounds add_tail del levels i n ?q) = (levels ?q)[i := rotate n (levels ?q ! i)]
      \<and> invar (serve_rounds add_tail del levels i n ?q)"
    using Suc.prems len rq by (intro Suc.IH) (auto simp: rot)
  then show ?case using Suc.prems len by (simp add: rq(1) rot Let_def rotate1_rotate_swap)
qed

text \<open>Round-robin: after \<open>n\<close> turns the pick is the task \<open>n\<close> places behind, cyclically.\<close>

lemma serve_rounds_first:
  assumes "invar q" "i < nlev" "levels q ! i \<noteq> []" "\<And>j. j < i \<Longrightarrow> levels q ! j = []"
  shows "first (serve_rounds add_tail del levels i n q) =
     Some (levels q ! i ! (n mod length (levels q ! i)))"
proof -
  have len: "length (levels q) = nlev" using assms by (simp add: length_levels)
  note sr = serve_rounds_levels[OF assms(1,2,3), of n]
  have "first (serve_rounds add_tail del levels i n q) =
      Some (hd (levels (serve_rounds add_tail del levels i n q) ! i))"
    using sr assms len by (intro first_of_best) auto
  also have "\<dots> = Some (hd (rotate n (levels q ! i)))" using sr assms(2) len by simp
  also have "\<dots> = Some (levels q ! i ! (n mod length (levels q ! i)))"
    using assms(3) by (simp add: hd_rotate_conv_nth)
  finally show ?thesis .
qed

text \<open>No starvation within the best level: every task of it is picked within one round.\<close>

lemma served_within_a_round:
  assumes "invar q" "i < nlev" "\<And>j. j < i \<Longrightarrow> levels q ! j = []" "x \<in> set (levels q ! i)"
  shows "\<exists>n < length (levels q ! i). first (serve_rounds add_tail del levels i n q) = Some x"
proof -
  from assms(4) obtain n where n: "n < length (levels q ! i)" "levels q ! i ! n = x"
    by (auto simp: in_set_conv_nth)
  have "first (serve_rounds add_tail del levels i n q) =
      Some (levels q ! i ! (n mod length (levels q ! i)))"
    using assms by (intro serve_rounds_first) auto
  with n show ?thesis by auto
qed

end

end
