(* ===== verification/Sched_Ts.thy ===== *)
theory Sched_Ts
  imports Sched_Base Level_Queue
begin

text \<open>
  The time-sharing class of \<open>kernel/sched/ts.c\<close>: forty queues per CPU, indexed by the level
  \<open>139 - prio\<close>, a dispatch table that moves a task down when its time slice expires and up when it
  sleeps, and the class operations that do not call another class.  The invariant
  \<open>ts_inv\<close> says that every node is on at most one queue and that a node's link state tells
  whether it is on one.
\<close>

section \<open>The dispatch table\<close>

definition MAX_TS_PRIO :: nat where "MAX_TS_PRIO = 40"

definition get_new_prio :: "int \<Rightarrow> int \<Rightarrow> int" where
  "get_new_prio prio0 type =
     (let prio = 139 - prio0
      in if prio < 0 \<or> prio > 39 then 139
         else 139 -
           (if type = 0 then
              (if prio < 10 then 0 else prio - 10)
            else
              (if prio < 10 then 30
               else if prio < 20 then 31
               else if prio < 25 then prio + 12
               else if prio < 27 then prio + 11
               else if prio = 27 then 37
               else if prio < 30 then 38
               else 39)))"

definition get_num_ticks :: "int \<Rightarrow> u32" where
  "get_num_ticks prio0 =
     (let prio = 139 - prio0
      in if prio < 0 then 0
         else if prio < 10 then 16
         else if prio < 20 then 12
         else if prio < 30 then 8
         else if prio < 40 then 4
         else 0)"

section \<open>Lists of the class\<close>

definition init_ts_rq :: "ts_rq \<Rightarrow> ts_rq" where
  "init_ts_rq r = r\<lparr>ts_queue := replicate MAX_TS_PRIO []\<rparr>"

text \<open>
  \<open>list_del\<close>, \<open>list_add_tail\<close> and \<open>list_move_tail\<close> of \<open>linux/list.h\<close> on the \<open>ts.list\<close> node of a
  task.  Deleting unlinks the node from whichever list it is on.  Following the pointers of a
  poisoned node and linking a node that is already linked are faults; so is a queue index
  outside the array.
\<close>

definition ts_rq_del :: "task_id \<Rightarrow> ts_rq \<Rightarrow> ts_rq" where
  "ts_rq_del p r = r\<lparr>ts_queue := map (removeAll p) (ts_queue r)\<rparr>"

definition ts_rq_add_tail :: "task_id \<Rightarrow> nat \<Rightarrow> ts_rq \<Rightarrow> ts_rq" where
  "ts_rq_add_tail p i r = r\<lparr>ts_queue := (ts_queue r)[i := ts_queue r ! i @ [p]]\<rparr>"

definition ts_unlink :: "task_id \<Rightarrow> sys \<Rightarrow> sys" where
  "ts_unlink p s =
     s\<lparr>rqs := (\<lambda>c. (rqs s c)\<lparr>rq_ts := ts_rq_del p (rq_ts (rqs s c))\<rparr>)\<rparr>"

definition set_ts_node :: "list_node \<Rightarrow> task_id \<Rightarrow> sys \<Rightarrow> sys" where
  "set_ts_node n p = upd_task p (\<lambda>t. t\<lparr>p_ts := (p_ts t)\<lparr>ts_list := n\<rparr>\<rparr>)"

definition ts_list_del :: "task_id \<Rightarrow> sys \<Rightarrow> sys" where
  "ts_list_del p s =
     (if ts_list (p_ts (tasks s p)) = Poisoned then raise_fault Poisoned_list s
      else set_ts_node Poisoned p (ts_unlink p s))"

definition ts_list_add_tail :: "task_id \<Rightarrow> cpu_id \<Rightarrow> int \<Rightarrow> sys \<Rightarrow> sys" where
  "ts_list_add_tail p c idx s =
     (if idx < 0 \<or> int MAX_TS_PRIO \<le> idx then raise_fault Index_out_of_range s
      else if ts_list (p_ts (tasks s p)) = Linked then raise_fault List_corruption s
      else set_ts_node Linked p
             (upd_rq c (\<lambda>rq. rq\<lparr>rq_ts := ts_rq_add_tail p (nat idx) (rq_ts rq)\<rparr>) s))"

definition ts_list_move_tail :: "task_id \<Rightarrow> cpu_id \<Rightarrow> int \<Rightarrow> sys \<Rightarrow> sys" where
  "ts_list_move_tail p c idx s = ts_list_add_tail p c idx (ts_list_del p s)"

section \<open>Class operations\<close>

definition enqueue_task_ts :: "cpu_id \<Rightarrow> task_id \<Rightarrow> u32 \<Rightarrow> sys \<Rightarrow> sys" where
  "enqueue_task_ts c p flags s =
     (let idx = 139 - p_prio (tasks s p);
          s1 = (if flag_set flags ENQUEUE_WAKEUP
                then upd_task p (\<lambda>t. t\<lparr>p_prio := get_new_prio (p_prio t) 1\<rparr>) s
                else s)
      in ts_list_add_tail p c idx s1)"

definition dequeue_task_ts :: "cpu_id \<Rightarrow> task_id \<Rightarrow> u32 \<Rightarrow> sys \<Rightarrow> sys" where
  "dequeue_task_ts c p flags s = ts_list_del p s"

definition yield_task_ts :: "cpu_id \<Rightarrow> sys \<Rightarrow> sys" where
  "yield_task_ts c s =
     (let curr = rq_curr (rqs s c)
      in ts_list_move_tail curr c (139 - p_prio (tasks s curr)) s)"

definition check_preempt_curr_ts :: "cpu_id \<Rightarrow> task_id \<Rightarrow> u32 \<Rightarrow> sys \<Rightarrow> sys" where
  "check_preempt_curr_ts c p flags s =
     (if p_prio (tasks s (rq_curr (rqs s c))) > p_prio (tasks s p) then resched_curr c s else s)"

text \<open>The scan of \<open>pick_next_task_ts\<close>: from queue 39 down to 0, the head of the first non-empty one.\<close>

fun ts_scan :: "task_id list list \<Rightarrow> nat \<Rightarrow> task_id option" where
  "ts_scan qs 0 = None"
| "ts_scan qs (Suc i) = (if qs ! i \<noteq> [] then Some (hd (qs ! i)) else ts_scan qs i)"

definition put_prev_task_ts :: "cpu_id \<Rightarrow> task_id \<Rightarrow> sys \<Rightarrow> sys" where
  "put_prev_task_ts c p s = s"

definition set_curr_task_ts :: "cpu_id \<Rightarrow> sys \<Rightarrow> sys" where
  "set_curr_task_ts c s = s"

definition task_tick_ts :: "cpu_id \<Rightarrow> task_id \<Rightarrow> bool \<Rightarrow> sys \<Rightarrow> sys" where
  "task_tick_ts c p queued s =
     (if p_policy (tasks s p) \<noteq> SCHED_TS then s
      else
        let s1 = upd_task p (\<lambda>t. t\<lparr>p_ts := (p_ts t)\<lparr>ts_time_slice := ts_time_slice (p_ts t) - 1\<rparr>\<rparr>) s
        in if ts_time_slice (p_ts (tasks s1 p)) \<noteq> 0 then s1
           else
             let s2 = upd_task p (\<lambda>t. t\<lparr>p_prio := get_new_prio (p_prio t) 0\<rparr>) s1;
                 s3 = upd_task p (\<lambda>t. t\<lparr>p_ts := (p_ts t)\<lparr>ts_time_slice := get_num_ticks (p_prio t)\<rparr>\<rparr>) s2;
                 idx = 139 - p_prio (tasks s3 p);
                 s4 = ts_list_move_tail p c idx s3
             in resched_curr c s4)"

definition get_rr_interval_ts :: "cpu_id \<Rightarrow> task_id \<Rightarrow> sys \<Rightarrow> u32" where
  "get_rr_interval_ts c p s = get_num_ticks (p_prio (tasks s p))"

definition prio_changed_ts :: "cpu_id \<Rightarrow> task_id \<Rightarrow> int \<Rightarrow> sys \<Rightarrow> sys" where
  "prio_changed_ts c p oldprio s = s"

definition switched_to_ts :: "cpu_id \<Rightarrow> task_id \<Rightarrow> sys \<Rightarrow> sys" where
  "switched_to_ts c p s = s"

definition update_curr_ts :: "cpu_id \<Rightarrow> sys \<Rightarrow> sys" where
  "update_curr_ts c s = s"

definition select_task_rq_ts :: "task_id \<Rightarrow> cpu_id \<Rightarrow> u32 \<Rightarrow> u32 \<Rightarrow> sys \<Rightarrow> cpu_id" where
  "select_task_rq_ts p c sd_flag flags s = p_cpu (tasks s p)"

section \<open>The dispatch table: range, direction, convergence\<close>

abbreviation ts_prio_ok :: "int \<Rightarrow> bool" where
  "ts_prio_ok q \<equiv> 100 \<le> q \<and> q \<le> 139"

lemma get_new_prio_range: "ts_prio_ok (get_new_prio q t)"
  by (auto simp: get_new_prio_def Let_def)

lemma get_new_prio_expire: "ts_prio_ok q \<Longrightarrow> get_new_prio q 0 = min 139 (q + 10)"
  by (auto simp: get_new_prio_def Let_def)

lemma get_new_prio_sleep: "ts_prio_ok q \<Longrightarrow> get_new_prio q 1 \<le> q"
  by (auto simp: get_new_prio_def Let_def)

lemma get_new_prio_mono:
  "ts_prio_ok q \<Longrightarrow> ts_prio_ok q' \<Longrightarrow> q \<le> q' \<Longrightarrow> get_new_prio q t \<le> get_new_prio q' t"
  by (auto simp: get_new_prio_def Let_def)

lemma get_num_ticks_pos: "ts_prio_ok q \<Longrightarrow> get_num_ticks q \<noteq> 0"
  by (auto simp: get_num_ticks_def Let_def)

lemma get_num_ticks_cases: "get_num_ticks q \<in> {0, 4, 8, 12, 16}"
  by (simp add: get_num_ticks_def Let_def)

section \<open>Queues: where a task is\<close>

definition ts_queues :: "sys \<Rightarrow> cpu_id \<Rightarrow> task_id list list" where
  "ts_queues s c = ts_queue (rq_ts (rqs s c))"

definition ts_members :: "sys \<Rightarrow> cpu_id \<Rightarrow> task_id list" where
  "ts_members s c = concat (ts_queues s c)"

definition ts_linked :: "sys \<Rightarrow> task_id \<Rightarrow> bool" where
  "ts_linked s p \<longleftrightarrow> ts_list (p_ts (tasks s p)) = Linked"

text \<open>
  Every CPU has its forty queues, a task is on at most one queue of one CPU and at most once, and
  exactly the linked nodes are on a queue.
\<close>

definition ts_inv :: "sys \<Rightarrow> bool" where
  "ts_inv s \<longleftrightarrow>
     (\<forall>c. length (ts_queues s c) = MAX_TS_PRIO \<and> distinct (ts_members s c)) \<and>
     (\<forall>c d p. p \<in> set (ts_members s c) \<longrightarrow> p \<in> set (ts_members s d) \<longrightarrow> c = d) \<and>
     (\<forall>p. ts_linked s p \<longleftrightarrow> (\<exists>c. p \<in> set (ts_members s c)))"

lemma ts_inv_cong:
  assumes "\<And>c. rq_ts (rqs s' c) = rq_ts (rqs s c)"
    and "\<And>p. ts_list (p_ts (tasks s' p)) = ts_list (p_ts (tasks s p))"
  shows "ts_inv s' = ts_inv s"
  using assms by (simp add: ts_inv_def ts_queues_def ts_members_def ts_linked_def)

lemma ts_queues_unlink [simp]: "ts_queues (ts_unlink p s) c = map (removeAll p) (ts_queues s c)"
  by (simp add: ts_unlink_def ts_queues_def ts_rq_del_def)

lemma concat_map_removeAll: "concat (map (removeAll p) qs) = removeAll p (concat qs)"
  by (induction qs) auto

lemma ts_members_unlink [simp]: "ts_members (ts_unlink p s) c = removeAll p (ts_members s c)"
  by (simp add: ts_members_def concat_map_removeAll)

lemma ts_unlink_frame [simp, frame_simps]:
  "tasks (ts_unlink p s) = tasks s" "fault (ts_unlink p s) = fault s" "rds (ts_unlink p s) = rds s"
  "this_cpu (ts_unlink p s) = this_cpu s"
  "rq_curr (rqs (ts_unlink p s) c) = rq_curr (rqs s c)"
  "rq_rt (rqs (ts_unlink p s) c) = rq_rt (rqs s c)"
  "rq_nr_running (rqs (ts_unlink p s) c) = rq_nr_running (rqs s c)"
  by (simp_all add: ts_unlink_def)

lemma set_ts_node_frame [simp, frame_simps]:
  "rqs (set_ts_node n p s) = rqs s" "fault (set_ts_node n p s) = fault s"
  "rds (set_ts_node n p s) = rds s" "this_cpu (set_ts_node n p s) = this_cpu s"
  "ts_queues (set_ts_node n p s) c = ts_queues s c"
  "ts_members (set_ts_node n p s) c = ts_members s c"
  by (simp_all add: set_ts_node_def ts_queues_def ts_members_def)

lemma ts_linked_set_ts_node [simp]:
  "ts_linked (set_ts_node n p s) q = (if q = p then n = Linked else ts_linked s q)"
  by (simp add: ts_linked_def set_ts_node_def)

lemma ts_linked_unlink [simp]: "ts_linked (ts_unlink p s) q = ts_linked s q"
  by (simp add: ts_linked_def)

lemma ts_inv_raise_fault [simp]: "ts_inv (raise_fault e s) = ts_inv s"
  by (rule ts_inv_cong) simp_all

lemma ts_list_del_inv:
  assumes inv: "ts_inv s"
  shows "ts_inv (ts_list_del p s)"
proof (cases "ts_list (p_ts (tasks s p)) = Poisoned")
  case True
  with inv show ?thesis by (simp add: ts_list_del_def)
next
  case False
  let ?t = "set_ts_node Poisoned p (ts_unlink p s)"
  have "length (ts_queues ?t c) = MAX_TS_PRIO \<and> distinct (ts_members ?t c)" for c
    using inv by (simp add: ts_inv_def distinct_removeAll)
  moreover have "c = d" if "x \<in> set (ts_members ?t c)" "x \<in> set (ts_members ?t d)" for c d x
    using that inv by (auto simp: ts_inv_def)
  moreover have "ts_linked ?t x \<longleftrightarrow> (\<exists>c. x \<in> set (ts_members ?t c))" for x
    using inv by (auto simp: ts_inv_def)
  ultimately have "ts_inv ?t" unfolding ts_inv_def by blast
  with False show ?thesis by (simp add: ts_list_del_def)
qed

lemma ts_inv_unlinked: "ts_inv s \<Longrightarrow> \<not> ts_linked s p \<Longrightarrow> p \<notin> set (ts_members s c)"
  by (auto simp: ts_inv_def)

lemma ts_list_add_tail_queues:
  assumes "0 \<le> idx" "idx < int MAX_TS_PRIO" "\<not> ts_linked s p"
  shows "ts_queues (ts_list_add_tail p c idx s) d =
     (if d = c then (ts_queues s c)[nat idx := ts_queues s c ! nat idx @ [p]] else ts_queues s d)"
    and "ts_linked (ts_list_add_tail p c idx s) q \<longleftrightarrow> q = p \<or> ts_linked s q"
    and "fault (ts_list_add_tail p c idx s) = fault s"
  using assms
  by (auto simp: ts_list_add_tail_def ts_queues_def ts_linked_def set_ts_node_def ts_rq_add_tail_def)

lemma ts_list_add_tail_inv:
  assumes inv: "ts_inv s"
  shows "ts_inv (ts_list_add_tail p c idx s)"
proof (cases "0 \<le> idx \<and> idx < int MAX_TS_PRIO \<and> \<not> ts_linked s p")
  case False
  then have "ts_list_add_tail p c idx s = raise_fault Index_out_of_range s \<or>
             ts_list_add_tail p c idx s = raise_fault List_corruption s"
    by (auto simp: ts_list_add_tail_def ts_linked_def)
  with inv show ?thesis by auto
next
  case True
  let ?t = "ts_list_add_tail p c idx s"
  have len: "nat idx < length (ts_queues s c)" using True inv by (auto simp: ts_inv_def)
  have fresh: "p \<notin> set (ts_members s d)" for d using True inv by (simp add: ts_inv_unlinked)
  note q = ts_list_add_tail_queues[OF conjunct1[OF True] conjunct1[OF conjunct2[OF True]]
      conjunct2[OF conjunct2[OF True]], where c = c]
  have mem: "set (ts_members ?t d) = (if d = c then insert p (set (ts_members s c))
      else set (ts_members s d))" for d
    unfolding ts_members_def q(1)
    using concat_update_append_set[OF len, of p] by (cases "d = c") (simp_all del: set_concat)
  have "length (ts_queues ?t d) = MAX_TS_PRIO \<and> distinct (ts_members ?t d)" for d
    using inv fresh[of c] distinct_concat_append[OF len, of p]
    by (auto simp: ts_inv_def ts_members_def q(1))
  moreover have "e = d" if "x \<in> set (ts_members ?t e)" "x \<in> set (ts_members ?t d)" for e d x
    using that inv fresh unfolding mem ts_inv_def by (auto split: if_splits)
  moreover have "ts_linked ?t x \<longleftrightarrow> (\<exists>d. x \<in> set (ts_members ?t d))" for x
    using inv unfolding mem q(2) ts_inv_def by auto
  ultimately show ?thesis unfolding ts_inv_def by blast
qed

lemma ts_list_move_tail_inv: "ts_inv s \<Longrightarrow> ts_inv (ts_list_move_tail p c idx s)"
  by (simp add: ts_list_move_tail_def ts_list_add_tail_inv ts_list_del_inv)

section \<open>The forty queues are a level queue\<close>

definition ts_rq_ok :: "ts_rq \<Rightarrow> bool" where
  "ts_rq_ok r \<longleftrightarrow> length (ts_queue r) = MAX_TS_PRIO \<and> distinct (concat (ts_queue r))"

lemma distinct_concat_rev [simp]: "distinct (concat (rev qs)) = distinct (concat qs)"
  by (induction qs) auto

lemma ts_scan_find_index:
  "n \<le> length qs \<Longrightarrow> ts_scan qs n =
     map_option (\<lambda>i. hd (rev (take n qs) ! i)) (find_index (\<lambda>l. l \<noteq> []) (rev (take n qs)))"
proof (induction n)
  case 0
  then show ?case by simp
next
  case (Suc n)
  then have "rev (take (Suc n) qs) = qs ! n # rev (take n qs)" by (simp add: take_Suc_conv_app_nth)
  with Suc show ?case by (simp add: option.map_comp comp_def)
qed

interpretation tsq: level_queue "\<lambda>r. rev (ts_queue r)" MAX_TS_PRIO
  "\<lambda>p i r. ts_rq_add_tail p (39 - i) r" "\<lambda>p i r. ts_rq_del p r"
  "\<lambda>r. ts_scan (ts_queue r) MAX_TS_PRIO" ts_rq_ok
proof
  fix q :: ts_rq and i :: nat and x :: task_id
  assume ok: "ts_rq_ok q"
  then show len: "length (rev (ts_queue q)) = MAX_TS_PRIO"
    and dist: "distinct (concat (rev (ts_queue q)))"
    by (simp_all add: ts_rq_ok_def)
  show "ts_scan (ts_queue q) MAX_TS_PRIO = map_option (\<lambda>i. hd (rev (ts_queue q) ! i))
      (find_index (\<lambda>l. l \<noteq> []) (rev (ts_queue q)))"
    using ok ts_scan_find_index[of MAX_TS_PRIO "ts_queue q"] by (simp add: ts_rq_ok_def)
  assume i: "i < MAX_TS_PRIO"
  have i39: "39 - i < length (ts_queue q)" "i = length (ts_queue q) - Suc (39 - i)"
    using i len by (auto simp: MAX_TS_PRIO_def)
  { assume "x \<notin> set (concat (rev (ts_queue q)))"
    then show "rev (ts_queue (ts_rq_add_tail x (39 - i) q)) =
        (rev (ts_queue q))[i := rev (ts_queue q) ! i @ [x]]"
      and "ts_rq_ok (ts_rq_add_tail x (39 - i) q)"
      using ok i len i39 distinct_concat_append[OF i39(1), of x]
      by (auto simp: ts_rq_add_tail_def ts_rq_ok_def rev_update rev_nth MAX_TS_PRIO_def) }
  { assume "x \<in> set (rev (ts_queue q) ! i)"
    then have "map (removeAll x) (rev (ts_queue q)) =
        (rev (ts_queue q))[i := removeAll x (rev (ts_queue q) ! i)]"
      using i len dist by (intro map_removeAll_update) auto
    then show "rev (ts_queue (ts_rq_del x q)) = (rev (ts_queue q))[i := removeAll x (rev (ts_queue q) ! i)]"
      by (simp add: ts_rq_del_def rev_map)
    show "ts_rq_ok (ts_rq_del x q)"
      using ok by (simp add: ts_rq_del_def ts_rq_ok_def concat_map_removeAll distinct_removeAll) }
qed

section \<open>Every class operation keeps the queues well formed\<close>

lemma ts_inv_upd_task:
  "(\<And>t. ts_list (p_ts (f t)) = ts_list (p_ts t)) \<Longrightarrow> ts_inv (upd_task p f s) = ts_inv s"
  by (rule ts_inv_cong) simp_all

lemma ts_inv_resched [simp]: "ts_inv (resched_curr c s) = ts_inv s"
  by (rule ts_inv_cong) simp_all

lemma enqueue_task_ts_inv: "ts_inv s \<Longrightarrow> ts_inv (enqueue_task_ts c p flags s)"
  by (simp add: enqueue_task_ts_def Let_def ts_list_add_tail_inv ts_inv_upd_task)

lemma dequeue_task_ts_inv: "ts_inv s \<Longrightarrow> ts_inv (dequeue_task_ts c p flags s)"
  by (simp add: dequeue_task_ts_def ts_list_del_inv)

lemma yield_task_ts_inv: "ts_inv s \<Longrightarrow> ts_inv (yield_task_ts c s)"
  by (simp add: yield_task_ts_def Let_def ts_list_move_tail_inv)

lemma task_tick_ts_inv: "ts_inv s \<Longrightarrow> ts_inv (task_tick_ts c p queued s)"
  by (simp add: task_tick_ts_def Let_def ts_list_move_tail_inv ts_inv_upd_task)


section \<open>Effects of single operations\<close>

lemma ts_list_del_linked:
  "ts_linked s p \<Longrightarrow> ts_list_del p s = set_ts_node Poisoned p (ts_unlink p s)"
  by (simp add: ts_list_del_def ts_linked_def)

lemma ts_list_add_tail_tasks:
  "tasks (ts_list_add_tail p c idx s) q = tasks s q \<or>
   tasks (ts_list_add_tail p c idx s) q = (tasks s q)\<lparr>p_ts := (p_ts (tasks s q))\<lparr>ts_list := Linked\<rparr>\<rparr>"
  by (simp add: ts_list_add_tail_def set_ts_node_def)

lemma ts_list_del_tasks:
  "tasks (ts_list_del p s) q = tasks s q \<or>
   tasks (ts_list_del p s) q = (tasks s q)\<lparr>p_ts := (p_ts (tasks s q))\<lparr>ts_list := Poisoned\<rparr>\<rparr>"
  by (simp add: ts_list_del_def set_ts_node_def)

lemma ts_list_ops_fields [simp, frame_simps]:
  "p_prio (tasks (ts_list_add_tail p c idx s) q) = p_prio (tasks s q)"
  "p_prio (tasks (ts_list_del p s) q) = p_prio (tasks s q)"
  "p_policy (tasks (ts_list_add_tail p c idx s) q) = p_policy (tasks s q)"
  "p_policy (tasks (ts_list_del p s) q) = p_policy (tasks s q)"
  "ts_time_slice (p_ts (tasks (ts_list_add_tail p c idx s) q)) = ts_time_slice (p_ts (tasks s q))"
  "ts_time_slice (p_ts (tasks (ts_list_del p s) q)) = ts_time_slice (p_ts (tasks s q))"
  "p_sched_class (tasks (ts_list_add_tail p c idx s) q) = p_sched_class (tasks s q)"
  "p_sched_class (tasks (ts_list_del p s) q) = p_sched_class (tasks s q)"
  "rq_curr (rqs (ts_list_add_tail p c idx s) d) = rq_curr (rqs s d)"
  "rq_curr (rqs (ts_list_del p s) d) = rq_curr (rqs s d)"
  "rq_nr_running (rqs (ts_list_add_tail p c idx s) d) = rq_nr_running (rqs s d)"
  "rq_nr_running (rqs (ts_list_del p s) d) = rq_nr_running (rqs s d)"
  "rq_cfs_h_nr_running (rqs (ts_list_add_tail p c idx s) d) = rq_cfs_h_nr_running (rqs s d)"
  "rq_cfs_h_nr_running (rqs (ts_list_del p s) d) = rq_cfs_h_nr_running (rqs s d)"
  by (simp_all add: ts_list_add_tail_def ts_list_del_def set_ts_node_def ts_unlink_def)

lemma ts_list_move_tail_fields [simp, frame_simps]:
  "p_prio (tasks (ts_list_move_tail p c idx s) q) = p_prio (tasks s q)"
  "p_policy (tasks (ts_list_move_tail p c idx s) q) = p_policy (tasks s q)"
  "ts_time_slice (p_ts (tasks (ts_list_move_tail p c idx s) q)) = ts_time_slice (p_ts (tasks s q))"
  "rq_curr (rqs (ts_list_move_tail p c idx s) d) = rq_curr (rqs s d)"
  by (simp_all add: ts_list_move_tail_def)

lemma ts_list_del_fault: "ts_linked s p \<Longrightarrow> fault (ts_list_del p s) = fault s"
  by (simp add: ts_list_del_linked)

lemma ts_linked_list_del: "ts_linked (ts_list_del p s) q \<longleftrightarrow> q \<noteq> p \<and> ts_linked s q"
  by (auto simp: ts_list_del_def ts_linked_def set_ts_node_def)

lemma ts_list_move_tail_effect:
  assumes "ts_linked s p" "0 \<le> idx" "idx < int MAX_TS_PRIO"
  shows "fault (ts_list_move_tail p c idx s) = fault s"
    and "ts_linked (ts_list_move_tail p c idx s) q \<longleftrightarrow> ts_linked s q"
    and "ts_queues (ts_list_move_tail p c idx s) d =
      (let qs = map (removeAll p) (ts_queues s d)
       in if d = c then qs[nat idx := qs ! nat idx @ [p]] else qs)"
proof -
  let ?s = "ts_list_del p s"
  have nl: "\<not> ts_linked ?s p" by (simp add: ts_linked_list_del)
  note a = ts_list_add_tail_queues[OF assms(2,3) nl]
  show "fault (ts_list_move_tail p c idx s) = fault s"
    by (simp add: ts_list_move_tail_def a(3) ts_list_del_fault assms(1))
  show "ts_linked (ts_list_move_tail p c idx s) q \<longleftrightarrow> ts_linked s q"
    using assms(1) by (auto simp: ts_list_move_tail_def a(2) ts_linked_list_del)
  have "ts_queues ?s d = map (removeAll p) (ts_queues s d)" for d
    using assms(1) by (simp add: ts_list_del_linked)
  then show "ts_queues (ts_list_move_tail p c idx s) d =
      (let qs = map (removeAll p) (ts_queues s d)
       in if d = c then qs[nat idx := qs ! nat idx @ [p]] else qs)"
    by (simp add: ts_list_move_tail_def a(1) Let_def)
qed

section \<open>Runs of the class\<close>

text \<open>
  What the core may call: enqueue of a task that is not queued, and dequeue, yield and tick of one
  that is.  \<open>ts_good\<close> adds to the shape of the queues that no fault happened and that queued tasks
  have a priority of the class and a time slice of one to sixteen ticks.
\<close>

definition ts_slice_ok :: "sys \<Rightarrow> task_id \<Rightarrow> bool" where
  "ts_slice_ok s p \<longleftrightarrow>
     (let n = unat (ts_time_slice (p_ts (tasks s p))) in 1 \<le> n \<and> n \<le> 16)"

definition ts_good :: "sys \<Rightarrow> bool" where
  "ts_good s \<longleftrightarrow> ts_inv s \<and> fault s = None \<and>
     (\<forall>p. ts_linked s p \<longrightarrow> ts_prio_ok (p_prio (tasks s p)) \<and> ts_slice_ok s p)"

inductive ts_step :: "sys \<Rightarrow> sys \<Rightarrow> bool" where
  ts_enqueue: "\<not> ts_linked s p \<Longrightarrow> ts_prio_ok (p_prio (tasks s p)) \<Longrightarrow> ts_slice_ok s p \<Longrightarrow>
     ts_step s (enqueue_task_ts c p flags s)"
| ts_dequeue: "ts_linked s p \<Longrightarrow> ts_step s (dequeue_task_ts c p flags s)"
| ts_yield: "ts_linked s (rq_curr (rqs s c)) \<Longrightarrow> ts_step s (yield_task_ts c s)"
| ts_tick: "ts_linked s p \<Longrightarrow> ts_step s (task_tick_ts c p queued s)"
| ts_preempt: "ts_step s (check_preempt_curr_ts c p flags s)"

inductive ts_reachable :: "sys \<Rightarrow> sys \<Rightarrow> bool" for s0 where
  ts_start: "ts_reachable s0 s0"
| ts_next: "ts_reachable s0 s \<Longrightarrow> ts_step s t \<Longrightarrow> ts_reachable s0 t"

lemma ts_idx_ok: "ts_prio_ok q \<Longrightarrow> 0 \<le> 139 - q \<and> 139 - q < int MAX_TS_PRIO"
  by (simp add: MAX_TS_PRIO_def)

lemma ts_slice_ok_num_ticks: "ts_prio_ok q \<Longrightarrow> 1 \<le> unat (get_num_ticks q) \<and> unat (get_num_ticks q) \<le> 16"
  by (auto simp: get_num_ticks_def Let_def)

lemma unat_dec: "(x::u32) \<noteq> 0 \<Longrightarrow> unat (x - 1) = unat x - 1"
  by (simp add: unat_minus_one)

lemma enqueue_task_ts_good:
  assumes g: "ts_good s" and nl: "\<not> ts_linked s p"
    and ok: "ts_prio_ok (p_prio (tasks s p))" "ts_slice_ok s p"
  shows "ts_good (enqueue_task_ts c p flags s)"
proof -
  let ?s1 = "if flag_set flags ENQUEUE_WAKEUP
    then upd_task p (\<lambda>t. t\<lparr>p_prio := get_new_prio (p_prio t) 1\<rparr>) s else s"
  let ?t = "ts_list_add_tail p c (139 - p_prio (tasks s p)) ?s1"
  have eq: "enqueue_task_ts c p flags s = ?t" by (simp add: enqueue_task_ts_def Let_def)
  have nl1: "\<not> ts_linked ?s1 p" using nl by (simp add: ts_linked_def)
  note a = ts_list_add_tail_queues[OF conjunct1[OF ts_idx_ok[OF ok(1)]]
      conjunct2[OF ts_idx_ok[OF ok(1)]] nl1, where c = c]
  have lk: "q = p \<or> ts_linked s q" if "ts_linked ?t q" for q
    using that a(2)[of q] by (auto simp: ts_linked_def split: if_splits)
  have prio: "ts_prio_ok (p_prio (tasks ?t q))" if "ts_linked ?t q" for q
    using lk[OF that] g ok(1) get_new_prio_range[of "p_prio (tasks s p)" 1]
    by (auto simp: ts_good_def)
  have slice: "ts_slice_ok ?t q" if "ts_linked ?t q" for q
    using lk[OF that] g ok(2) by (auto simp: ts_good_def ts_slice_ok_def)
  have "fault ?t = None" using g by (simp add: a(3) ts_good_def)
  then show ?thesis
    using g prio slice enqueue_task_ts_inv[of s c p flags] by (simp add: ts_good_def eq)
qed

lemma dequeue_task_ts_good:
  "ts_good s \<Longrightarrow> ts_linked s p \<Longrightarrow> ts_good (dequeue_task_ts c p flags s)"
  by (auto simp: ts_good_def dequeue_task_ts_def ts_list_del_inv ts_list_del_fault
      ts_linked_list_del ts_slice_ok_def)

lemma ts_move_good:
  assumes "ts_good s" "ts_linked s p" "ts_prio_ok q"
  shows "ts_good (ts_list_move_tail p c (139 - q) s)"
proof -
  note m = ts_list_move_tail_effect[OF assms(2) conjunct1[OF ts_idx_ok[OF assms(3)]]
      conjunct2[OF ts_idx_ok[OF assms(3)]], where c = c]
  show ?thesis
    using assms(1)
    by (auto simp: ts_good_def m(1,2) ts_list_move_tail_inv ts_slice_ok_def)
qed

lemma ts_good_resched [simp]: "ts_good (resched_curr c s) = ts_good s"
  by (simp add: ts_good_def ts_linked_def ts_slice_ok_def)

lemma ts_good_upd_task:
  assumes "ts_good s" "\<And>t. ts_list (p_ts (f t)) = ts_list (p_ts t)"
    and "ts_prio_ok (p_prio (f (tasks s p)))"
    and "ts_slice_ok (upd_task p f s) p"
  shows "ts_good (upd_task p f s)"
  using assms
  by (auto simp: ts_good_def ts_inv_upd_task ts_linked_def ts_slice_ok_def)

lemma task_tick_ts_good:
  assumes g: "ts_good s" and l: "ts_linked s p"
  shows "ts_good (task_tick_ts c p queued s)"
proof (cases "p_policy (tasks s p) = SCHED_TS")
  case False
  with g show ?thesis by (simp add: task_tick_ts_def)
next
  case True
  let ?n = "ts_time_slice (p_ts (tasks s p))"
  let ?q = "get_new_prio (p_prio (tasks s p)) 0"
  let ?dec = "\<lambda>t. t\<lparr>p_ts := (p_ts t)\<lparr>ts_time_slice := ts_time_slice (p_ts t) - 1\<rparr>\<rparr>"
  let ?exp = "\<lambda>t. t\<lparr>p_prio := ?q, p_ts := (p_ts t)\<lparr>ts_time_slice := get_num_ticks ?q\<rparr>\<rparr>"
  from g l have ok: "ts_prio_ok (p_prio (tasks s p))" "1 \<le> unat ?n" "unat ?n \<le> 16"
    by (auto simp: ts_good_def ts_slice_ok_def Let_def)
  show ?thesis
  proof (cases "?n - 1 = 0")
    case False
    then have "1 \<le> unat (?n - 1)" by (simp add: unat_gt_0 Suc_le_eq)
    moreover have "unat (?n - 1) \<le> 16" using ok by (subst unat_dec) auto
    ultimately have "ts_good (upd_task p ?dec s)"
      using g ok by (intro ts_good_upd_task) (auto simp: ts_slice_ok_def)
    with True False show ?thesis by (simp add: task_tick_ts_def Let_def)
  next
    case exp: True
    have "ts_good (upd_task p ?exp s)"
      using g ts_slice_ok_num_ticks[OF get_new_prio_range]
      by (intro ts_good_upd_task) (auto simp: ts_slice_ok_def get_new_prio_range Let_def)
    moreover have "ts_linked (upd_task p ?exp s) p" using l by (simp add: ts_linked_def)
    ultimately have "ts_good (ts_list_move_tail p c (139 - ?q) (upd_task p ?exp s))"
      by (rule ts_move_good) (rule get_new_prio_range)
    moreover have "task_tick_ts c p queued s =
        resched_curr c (ts_list_move_tail p c (139 - ?q) (upd_task p ?exp s))"
      using True exp by (simp add: task_tick_ts_def Let_def upd_task_def)
    ultimately show ?thesis by simp
  qed
qed

lemma ts_step_good: "ts_step s t \<Longrightarrow> ts_good s \<Longrightarrow> ts_good t"
proof (induction rule: ts_step.induct)
  case (ts_enqueue s p c flags)
  then show ?case by (simp add: enqueue_task_ts_good)
next
  case (ts_dequeue s p c flags)
  then show ?case by (simp add: dequeue_task_ts_good)
next
  case (ts_yield s c)
  then have "ts_prio_ok (p_prio (tasks s (rq_curr (rqs s c))))" by (simp add: ts_good_def)
  with ts_yield show ?case by (simp add: yield_task_ts_def Let_def ts_move_good)
next
  case (ts_tick s p c queued)
  then show ?case by (simp add: task_tick_ts_good)
next
  case (ts_preempt s c p flags)
  then show ?case by (simp add: check_preempt_curr_ts_def)
qed


section \<open>Time slices running out\<close>

text \<open>All but the last tick of a slice only count it down.\<close>

lemma task_tick_ts_countdown:
  assumes "p_policy (tasks s p) = SCHED_TS" "k < unat (ts_time_slice (p_ts (tasks s p)))"
  shows "(task_tick_ts c p queued ^^ k) s =
     upd_task p (\<lambda>t. t\<lparr>p_ts := (p_ts t)\<lparr>ts_time_slice := ts_time_slice (p_ts t) - of_nat k\<rparr>\<rparr>) s"
  using assms
proof (induction k)
  case 0
  then show ?case by (simp add: upd_task_def)
next
  case (Suc k)
  let ?n = "ts_time_slice (p_ts (tasks s p))"
  have "unat (?n - of_nat (Suc k)) = unat ?n - Suc k"
    using Suc.prems by (intro unat_sub_of_nat) simp
  then have "?n - of_nat (Suc k) \<noteq> 0" using Suc.prems by (metis unat_0 zero_less_diff less_irrefl)
  then show ?case using Suc by (simp add: task_tick_ts_def Let_def upd_task_def algebra_simps)
qed

text \<open>The tick that uses the slice up.\<close>

lemma task_tick_ts_expire:
  fixes c :: cpu_id and queued :: bool
  assumes "p_policy (tasks s p) = SCHED_TS" "ts_time_slice (p_ts (tasks s p)) = 1"
    "ts_inv s" "ts_linked s p" "ts_prio_ok (p_prio (tasks s p))"
  defines "q \<equiv> min 139 (p_prio (tasks s p) + 10)"
  defines "t \<equiv> task_tick_ts c p queued s"
  shows "p_prio (tasks t p) = q" "ts_time_slice (p_ts (tasks t p)) = get_num_ticks q"
    "p_need_resched (tasks t (rq_curr (rqs s c)))" "fault t = fault s"
    "ts_queues t c ! nat (139 - q) = removeAll p (ts_queues s c ! nat (139 - q)) @ [p]"
proof -
  let ?exp = "\<lambda>t. t\<lparr>p_prio := q, p_ts := (p_ts t)\<lparr>ts_time_slice := get_num_ticks q\<rparr>\<rparr>"
  have q: "get_new_prio (p_prio (tasks s p)) 0 = q"
    using get_new_prio_expire assms(5) by (simp add: q_def)
  have ok: "ts_prio_ok q" using get_new_prio_range[of "p_prio (tasks s p)" 0] by (simp add: q)
  have lk: "ts_linked (upd_task p ?exp s) p" using assms(4) by (simp add: ts_linked_def)
  note m = ts_list_move_tail_effect[OF lk conjunct1[OF ts_idx_ok[OF ok]]
      conjunct2[OF ts_idx_ok[OF ok]], where c = c]
  have t: "t = resched_curr c (ts_list_move_tail p c (139 - q) (upd_task p ?exp s))"
    using assms(1,2) by (simp add: t_def task_tick_ts_def Let_def upd_task_def q)
  show "p_prio (tasks t p) = q" "ts_time_slice (p_ts (tasks t p)) = get_num_ticks q"
    by (simp_all add: t)
  show "p_need_resched (tasks t (rq_curr (rqs s c)))" by (simp add: t resched_curr_tasks)
  show "fault t = fault s" by (simp add: t m(1))
  have "nat (139 - q) < length (ts_queues s c)" using assms(3) ok by (auto simp: ts_inv_def MAX_TS_PRIO_def)
  then show "ts_queues t c ! nat (139 - q) = removeAll p (ts_queues s c ! nat (139 - q)) @ [p]"
    using m(3)[of c] by (simp add: t ts_queues_def Let_def)
qed

section \<open>Yielding within the best level\<close>

text \<open>One turn: the pick of the class becomes current and yields.\<close>

definition ts_yield_turn :: "cpu_id \<Rightarrow> sys \<Rightarrow> sys" where
  "ts_yield_turn c s =
     (case ts_scan (ts_queues s c) MAX_TS_PRIO of
        None \<Rightarrow> s
      | Some p \<Rightarrow> yield_task_ts c (upd_rq c (\<lambda>rq. rq\<lparr>rq_curr := p\<rparr>) s))"

abbreviation ts_serve :: "nat \<Rightarrow> nat \<Rightarrow> ts_rq \<Rightarrow> ts_rq" where
  "ts_serve i n r \<equiv> serve_rounds (\<lambda>p i r. ts_rq_add_tail p (39 - i) r) (\<lambda>p i r. ts_rq_del p r)
     (\<lambda>r. rev (ts_queue r)) i n r"

lemma ts_yield_turn_rq:
  assumes "ts_inv s" "ts_scan (ts_queues s c) MAX_TS_PRIO = Some p" "ts_linked s p"
    "p_prio (tasks s p) = 139 - int idx" "idx < MAX_TS_PRIO"
  shows "rq_ts (rqs (ts_yield_turn c s) c) = ts_rq_add_tail p idx (ts_rq_del p (rq_ts (rqs s c)))"
    and "ts_inv (ts_yield_turn c s)" "ts_linked (ts_yield_turn c s) x = ts_linked s x"
    "p_prio (tasks (ts_yield_turn c s) x) = p_prio (tasks s x)"
proof -
  let ?s = "upd_rq c (\<lambda>rq. rq\<lparr>rq_curr := p\<rparr>) s"
  have lk: "ts_linked ?s p" using assms(3) by (simp add: ts_linked_def)
  have eq: "ts_yield_turn c s = ts_list_move_tail p c (int idx) ?s"
    using assms(2,4) by (simp add: ts_yield_turn_def yield_task_ts_def Let_def)
  note m = ts_list_move_tail_effect[OF lk, of "int idx" c]
  have "ts_queues (ts_yield_turn c s) c =
      ts_queue (ts_rq_add_tail p idx (ts_rq_del p (rq_ts (rqs s c))))"
    using m(3)[of c] assms(5) by (simp add: eq Let_def ts_rq_add_tail_def ts_rq_del_def ts_queues_def)
  then show "rq_ts (rqs (ts_yield_turn c s) c) = ts_rq_add_tail p idx (ts_rq_del p (rq_ts (rqs s c)))"
    by (simp add: ts_queues_def)
  have "ts_inv ?s" using assms(1) by (subst ts_inv_cong[of _ s]) simp_all
  then show "ts_inv (ts_yield_turn c s)" by (simp add: eq ts_list_move_tail_inv)
  show "ts_linked (ts_yield_turn c s) x = ts_linked s x"
    using m(2)[of x] assms(5) by (simp add: eq ts_linked_def)
  show "p_prio (tasks (ts_yield_turn c s) x) = p_prio (tasks s x)" by (simp add: eq)
qed

lemma ts_inv_rq_ok: "ts_inv s \<Longrightarrow> ts_rq_ok (rq_ts (rqs s c))"
  by (simp add: ts_inv_def ts_rq_ok_def ts_queues_def ts_members_def)

lemma ts_inv_linked: "ts_inv s \<Longrightarrow> i < MAX_TS_PRIO \<Longrightarrow> x \<in> set (ts_queues s c ! i) \<Longrightarrow> ts_linked s x"
  by (metis nth_in_concat ts_inv_def ts_members_def)

text \<open>
  With every task of the best queue sitting on the queue of its own priority, the turns are the
  rounds of the level queue.
\<close>

lemma ts_yield_turns:
  assumes "ts_inv s" "idx < MAX_TS_PRIO" "ts_queues s c ! idx \<noteq> []"
    and "\<And>j. idx < j \<Longrightarrow> j < MAX_TS_PRIO \<Longrightarrow> ts_queues s c ! j = []"
    and "\<And>x. x \<in> set (ts_queues s c ! idx) \<Longrightarrow> p_prio (tasks s x) = 139 - int idx"
  shows "rq_ts (rqs ((ts_yield_turn c ^^ n) s) c) = ts_serve (39 - idx) n (rq_ts (rqs s c))"
  using assms
proof (induction n arbitrary: s)
  case 0
  then show ?case by simp
next
  case (Suc n)
  let ?r = "rq_ts (rqs s c)" and ?q = "ts_queues s c ! idx"
  have ok: "ts_rq_ok ?r" using Suc.prems by (simp add: ts_inv_rq_ok)
  have len: "length (ts_queue ?r) = 40" using ok by (simp add: ts_rq_ok_def MAX_TS_PRIO_def)
  have i: "39 - idx < 40" "rev (ts_queue ?r) ! (39 - idx) = ?q"
    using Suc.prems(2) len by (auto simp: rev_nth ts_queues_def MAX_TS_PRIO_def)
  have "ts_scan (ts_queue ?r) MAX_TS_PRIO = Some (hd (rev (ts_queue ?r) ! (39 - idx)))"
    using ok i Suc.prems(2,3,4) len
    by (intro tsq.first_of_best) (auto simp: MAX_TS_PRIO_def rev_nth ts_queues_def)
  then have scan: "ts_scan (ts_queues s c) MAX_TS_PRIO = Some (hd ?q)" by (simp add: i(2) ts_queues_def)
  have hd_in: "hd ?q \<in> set ?q" using Suc.prems(3) by simp
  note y = ts_yield_turn_rq[OF Suc.prems(1) scan ts_inv_linked[OF Suc.prems(1,2) hd_in]
      Suc.prems(5)[OF hd_in] Suc.prems(2)]
  let ?s = "ts_yield_turn c s"
  have qs: "ts_queues ?s c = (map (removeAll (hd ?q)) (ts_queues s c))[idx := removeAll (hd ?q) ?q @ [hd ?q]]"
    using y(1) len Suc.prems(2)
    by (simp add: ts_queues_def ts_rq_add_tail_def ts_rq_del_def MAX_TS_PRIO_def)
  have ql: "length (ts_queues s c) = MAX_TS_PRIO" using len by (simp add: ts_queues_def MAX_TS_PRIO_def)
  have "rq_ts (rqs ((ts_yield_turn c ^^ n) ?s) c) = ts_serve (39 - idx) n (rq_ts (rqs ?s c))"
    using Suc.prems y ql hd_in by (intro Suc.IH) (auto simp: qs nth_list_update split: if_splits)
  moreover have "39 - (39 - idx) = idx" using Suc.prems(2) by (simp add: MAX_TS_PRIO_def)
  ultimately show ?case by (simp add: funpow_swap1 y(1) i(2) Let_def)
qed


section \<open>Properties of the time-sharing class\<close>

lemma boot_ts_queues: "ts_queues boot_sys c = replicate 40 []"
  by (simp add: ts_queues_def boot_sys_def boot_rq_def)

lemma boot_ts_linked: "\<not> ts_linked boot_sys p"
  by (simp add: ts_linked_def boot_sys_def boot_task_def)

lemma boot_ts_inv: "ts_inv boot_sys"
  by (simp add: ts_inv_def boot_ts_linked ts_members_def boot_ts_queues MAX_TS_PRIO_def)

lemma boot_ts_good: "ts_good boot_sys"
  using boot_ts_inv by (simp add: ts_good_def boot_ts_linked) (simp add: boot_sys_def)

lemma boot_ts_task:
  "p_prio (tasks boot_sys 5) = 120" "ts_time_slice (p_ts (tasks boot_sys 5)) = 12"
  "fault boot_sys = None" "ts_slice_ok boot_sys 5"
  by (simp_all add: boot_sys_def boot_task_def ts_slice_ok_def)

text \<open>
  The dispatch table keeps a priority of the class within the class, an expired slice lowers
  the priority by ten levels down to the lowest, sleeping never lowers it, and neither ever
  inverts the order of two tasks.
\<close>

theorem ts_dispatch_order:
  assumes "ts_prio_ok q" "ts_prio_ok q'" "q \<le> q'"
  shows "get_new_prio q t \<le> get_new_prio q' t \<and> ts_prio_ok (get_new_prio q t) \<and>
    get_new_prio q 0 = min 139 (q + 10) \<and> get_new_prio q 1 \<le> q \<and>
    get_num_ticks q \<le> get_num_ticks q'"
proof -
  have "get_num_ticks q \<le> get_num_ticks q'"
    using assms by (simp add: get_num_ticks_def Let_def)
  then show ?thesis
    using get_new_prio_mono[OF assms] get_new_prio_range get_new_prio_expire[OF assms(1)]
      get_new_prio_sleep[OF assms(1)] by blast
qed

theorem ts_dispatch_order_witness:
  "get_new_prio 112 0 = 122 \<and> get_new_prio 120 0 = 130 \<and> get_new_prio 112 1 = 102"
  using ts_dispatch_order[of 112 120 0] ts_dispatch_order[of 120 120 0]
  by (simp add: get_new_prio_def Let_def)

text \<open>
  C1: From a good state, whatever sequence of enqueue, dequeue, yield, tick and preemption checks
  the core makes, the forty queues of every CPU stay duplicate-free and agree with the list nodes,
  queued tasks keep a priority of the class and a slice of one to sixteen ticks, and no list node is
  corrupted or queue index out of range.
\<close>

theorem ts_runs_safe:
  assumes "ts_good s0" "ts_reachable s0 s"
  shows "ts_good s"
  using assms(2,1)
proof (induction rule: ts_reachable.induct)
  case ts_start
  then show ?case .
next
  case (ts_next s t)
  then show ?case using ts_step_good by blast
qed

theorem ts_runs_safe_witness:
  "ts_good (task_tick_ts 0 5 False (enqueue_task_ts 0 5 ENQUEUE_WAKEUP boot_sys))"
proof -
  let ?s = "enqueue_task_ts 0 5 ENQUEUE_WAKEUP boot_sys"
  have "ts_step boot_sys ?s"
    using boot_ts_task by (intro ts_step.ts_enqueue) (auto simp: boot_ts_linked)
  then have r: "ts_reachable boot_sys ?s" by (rule ts_reachable.ts_next[OF ts_reachable.ts_start])
  have "ts_linked ?s 5"
    by (simp add: enqueue_task_ts_def Let_def boot_ts_task ts_list_add_tail_def MAX_TS_PRIO_def)
      (simp add: boot_sys_def boot_task_def)
  then have "ts_step ?s (task_tick_ts 0 5 False ?s)" by (rule ts_step.ts_tick)
  with r have "ts_reachable boot_sys (task_tick_ts 0 5 False ?s)" by (rule ts_reachable.ts_next)
  then show ?thesis by (rule ts_runs_safe[OF boot_ts_good])
qed

text \<open>
  Enqueueing puts the task at the tail of the queue of the priority it had on entry and
  touches no other queue; a wakeup raises its priority by the sleep column of the table, any other
  enqueue leaves it.
\<close>

theorem enqueue_task_ts_effect:
  assumes "ts_inv s" "\<not> ts_linked s p" "ts_prio_ok (p_prio (tasks s p))"
  shows "let s' = enqueue_task_ts c p flags s; i = nat (139 - p_prio (tasks s p)) in
     ts_queues s' c = (ts_queues s c)[i := ts_queues s c ! i @ [p]] \<and>
     (\<forall>d. d \<noteq> c \<longrightarrow> ts_queues s' d = ts_queues s d) \<and>
     p_prio (tasks s' p) = (if flag_set flags ENQUEUE_WAKEUP then get_new_prio (p_prio (tasks s p)) 1
                            else p_prio (tasks s p)) \<and>
     ts_linked s' p \<and> fault s' = fault s"
proof -
  let ?s1 = "if flag_set flags ENQUEUE_WAKEUP
    then upd_task p (\<lambda>t. t\<lparr>p_prio := get_new_prio (p_prio t) 1\<rparr>) s else s"
  have nl1: "\<not> ts_linked ?s1 p" using assms(2) by (simp add: ts_linked_def)
  have q1: "ts_queues ?s1 d = ts_queues s d" for d by (simp add: ts_queues_def)
  note a = ts_list_add_tail_queues[OF conjunct1[OF ts_idx_ok[OF assms(3)]]
      conjunct2[OF ts_idx_ok[OF assms(3)]] nl1, where c = c]
  show ?thesis
    unfolding enqueue_task_ts_def Let_def by (simp add: a q1)
qed

theorem enqueue_task_ts_effect_witness:
  "ts_queues (enqueue_task_ts 1 5 ENQUEUE_WAKEUP boot_sys) 1 ! 19 = [5] \<and>
   p_prio (tasks (enqueue_task_ts 1 5 ENQUEUE_WAKEUP boot_sys) 5) = 108"
  using enqueue_task_ts_effect[OF boot_ts_inv boot_ts_linked, of 5 1 ENQUEUE_WAKEUP] boot_ts_task
  by (simp add: Let_def boot_ts_queues flag_set_def ENQUEUE_WAKEUP_def get_new_prio_def)

text \<open>
  A woken task that is not already at the highest level sits on the queue of the priority it
  had before the wakeup, not on the queue of the raised priority it now has: its next pick happens
  at the old level.
\<close>

theorem woken_task_on_stale_queue:
  assumes "ts_inv s" "\<not> ts_linked s p" "100 < p_prio (tasks s p)" "p_prio (tasks s p) \<le> 139"
  shows "let s' = enqueue_task_ts c p ENQUEUE_WAKEUP s in
     p \<in> set (ts_queues s' c ! nat (139 - p_prio (tasks s p))) \<and>
     p_prio (tasks s' p) < p_prio (tasks s p) \<and>
     p \<notin> set (ts_queues s' c ! nat (139 - p_prio (tasks s' p)))"
proof -
  let ?q = "p_prio (tasks s p)" and ?q' = "get_new_prio (p_prio (tasks s p)) 1"
  have ok: "ts_prio_ok ?q" using assms by simp
  have w: "flag_set ENQUEUE_WAKEUP ENQUEUE_WAKEUP" by (simp add: flag_set_def ENQUEUE_WAKEUP_def)
  let ?s1 = "upd_task p (\<lambda>t. t\<lparr>p_prio := get_new_prio (p_prio t) 1\<rparr>) s"
  let ?t = "ts_list_add_tail p c (139 - ?q) ?s1"
  have eq: "enqueue_task_ts c p ENQUEUE_WAKEUP s = ?t" by (simp add: enqueue_task_ts_def Let_def w)
  have nl1: "\<not> ts_linked ?s1 p" using assms(2) by (simp add: ts_linked_def)
  have q1: "ts_queues ?s1 c = ts_queues s c" by (simp add: ts_queues_def)
  note a = ts_list_add_tail_queues[OF conjunct1[OF ts_idx_ok[OF ok]]
      conjunct2[OF ts_idx_ok[OF ok]] nl1, where c = c]
  have lt: "?q' < ?q" using assms(3,4) by (simp add: get_new_prio_def Let_def)
  have rng: "ts_prio_ok ?q'" by (rule get_new_prio_range)
  have len: "length (ts_queues s c) = 40" using assms(1) by (simp add: ts_inv_def MAX_TS_PRIO_def)
  have "nat (139 - ?q') < length (ts_queues s c)" using rng len by auto
  then have "p \<notin> set (ts_queues s c ! nat (139 - ?q'))"
    using ts_inv_unlinked[OF assms(1,2), of c] nth_in_concat[of "nat (139 - ?q')" "ts_queues s c" p]
    unfolding ts_members_def by blast
  moreover have "nat (139 - ?q) \<noteq> nat (139 - ?q')" using lt rng ok by simp
  moreover have "nat (139 - ?q) < length (ts_queues s c)" using ok len by auto
  ultimately show ?thesis
    using lt ok len by (simp add: eq Let_def a(1) q1)
qed

theorem woken_task_on_stale_queue_witness:
  "5 \<in> set (ts_queues (enqueue_task_ts 0 5 ENQUEUE_WAKEUP boot_sys) 0 ! 19) \<and>
   5 \<notin> set (ts_queues (enqueue_task_ts 0 5 ENQUEUE_WAKEUP boot_sys) 0 ! 31)"
proof -
  have "p_prio (tasks (enqueue_task_ts 0 5 ENQUEUE_WAKEUP boot_sys) 5) = 108"
    by (simp add: enqueue_task_ts_def Let_def boot_ts_task flag_set_def ENQUEUE_WAKEUP_def get_new_prio_def)
  then show ?thesis
    using woken_task_on_stale_queue[OF boot_ts_inv boot_ts_linked, of 5 0] boot_ts_task
    by (simp add: Let_def)
qed

text \<open>
  C37: A queued time-sharing task that is ticked as often as its slice is long keeps its priority
  until the last tick, which moves it to the tail of the queue ten levels down, gives it that
  level's quantum and asks for a reschedule.
\<close>

theorem ts_slice_expiry:
  assumes "ts_inv s" "ts_linked s p" "ts_prio_ok (p_prio (tasks s p))"
    "p_policy (tasks s p) = SCHED_TS" "ts_time_slice (p_ts (tasks s p)) \<noteq> 0"
  shows "let n = unat (ts_time_slice (p_ts (tasks s p))); q = min 139 (p_prio (tasks s p) + 10);
             run = (\<lambda>k. (task_tick_ts c p queued ^^ k) s); s' = run n in
     (\<forall>k<n. p_prio (tasks (run k) p) = p_prio (tasks s p) \<and> ts_queues (run k) c = ts_queues s c) \<and>
     p_prio (tasks s' p) = q \<and> ts_time_slice (p_ts (tasks s' p)) = get_num_ticks q \<and>
     ts_queues s' c ! nat (139 - q) = removeAll p (ts_queues s c ! nat (139 - q)) @ [p] \<and>
     p_need_resched (tasks s' (rq_curr (rqs s c))) \<and> fault s' = fault s"
proof -
  let ?n = "unat (ts_time_slice (p_ts (tasks s p)))"
  let ?down = "\<lambda>k t. t\<lparr>p_ts := (p_ts t)\<lparr>ts_time_slice := ts_time_slice (p_ts t) - of_nat k\<rparr>\<rparr>"
  let ?m = "upd_task p (?down (?n - 1)) s"
  have unat_eq_one: "w = 1" if "unat w = 1" for w :: u32 using that by (metis unat_1 word_unat_eq_iff)
  have n: "0 < ?n" using assms(5) by (simp add: unat_gt_0)
  have down: "(task_tick_ts c p queued ^^ k) s = upd_task p (?down k) s" if "k < ?n" for k
    using assms(4) that by (rule task_tick_ts_countdown)
  have "unat (ts_time_slice (p_ts (tasks ?m p))) = 1"
    using n unat_sub_of_nat[of "?n - 1" "ts_time_slice (p_ts (tasks s p))"] by simp
  then have one: "ts_time_slice (p_ts (tasks ?m p)) = 1" by (rule unat_eq_one)
  have last: "(task_tick_ts c p queued ^^ ?n) s = task_tick_ts c p queued ?m"
  proof -
    from n obtain k where k: "?n = Suc k" by (cases ?n) auto
    then have "(task_tick_ts c p queued ^^ k) s = upd_task p (?down k) s" by (intro down) simp
    then show ?thesis by (simp add: k)
  qed
  have m: "p_policy (tasks ?m p) = SCHED_TS" "ts_inv ?m" "ts_linked ?m p"
    "ts_prio_ok (p_prio (tasks ?m p))"
    using assms by (simp_all add: ts_inv_upd_task ts_linked_def)
  note e = task_tick_ts_expire[OF m(1) one m(2,3,4), of c queued]
  have f: "p_prio (tasks ?m p) = p_prio (tasks s p)" "ts_queues ?m d = ts_queues s d"
    "rqs ?m = rqs s" "fault ?m = fault s" for d
    by (simp_all add: ts_queues_def)
  have "p_prio (tasks ((task_tick_ts c p queued ^^ k) s) p) = p_prio (tasks s p) \<and>
      ts_queues ((task_tick_ts c p queued ^^ k) s) c = ts_queues s c" if "k < ?n" for k
    using that by (simp add: down ts_queues_def)
  then show ?thesis
    unfolding Let_def last using e[unfolded f] by blast
qed

theorem ts_slice_expiry_witness:
  "p_prio (tasks ((task_tick_ts 0 5 False ^^ 12)
     (enqueue_task_ts 0 5 0 (upd_task 5 (\<lambda>t. t\<lparr>p_policy := SCHED_TS\<rparr>) boot_sys))) 5) = 130"
proof -
  let ?u = "upd_task 5 (\<lambda>t. t\<lparr>p_policy := SCHED_TS\<rparr>) boot_sys"
  let ?s = "enqueue_task_ts 0 5 0 ?u"
  have inv0: "ts_inv ?u" using boot_ts_inv by (simp add: ts_inv_upd_task)
  have nl0: "\<not> ts_linked ?u 5" using boot_ts_linked by (simp add: ts_linked_def)
  have f: "p_prio (tasks ?u 5) = 120" "ts_time_slice (p_ts (tasks ?u 5)) = 12" using boot_ts_task by simp_all
  have inv: "ts_inv ?s" using inv0 by (rule enqueue_task_ts_inv)
  have eq: "?s = ts_list_add_tail 5 0 19 ?u" using f by (simp add: enqueue_task_ts_def Let_def)
  have lk: "ts_linked ?s 5" using nl0 by (simp add: eq ts_list_add_tail_queues MAX_TS_PRIO_def)
  show ?thesis
    using ts_slice_expiry[OF inv lk, of 0 False] f by (simp add: eq Let_def)
qed



end
