(* ===== verification/Sched_Rt.thy ===== *)
theory Sched_Rt
  imports Sched_Base Level_Queue
begin

text \<open>
  The real-time class of \<open>kernel/sched/rt.c\<close> in the configuration CONFIG\_SMP without
  CONFIG\_RT\_GROUP\_SCHED: the priority array with its bitmap, the accounting of runnable,
  round-robin and migratable tasks, overload marks of the root domain, the pushable list, RT
  throttling with the runtime borrowed between CPUs, and the class operations that do not call
  another class.  \<open>rtq s c\<close> is \<open>&cpu_rq(c)->rt\<close>.
\<close>

abbreviation rtq :: "sys \<Rightarrow> cpu_id \<Rightarrow> rt_rq" where
  "rtq s c \<equiv> rq_rt (rqs s c)"

definition upd_rt :: "cpu_id \<Rightarrow> (rt_rq \<Rightarrow> rt_rq) \<Rightarrow> sys \<Rightarrow> sys" where
  "upd_rt c f = upd_rq c (\<lambda>rq. rq\<lparr>rq_rt := f (rq_rt rq)\<rparr>)"

definition upd_rte :: "task_id \<Rightarrow> (sched_rt_entity \<Rightarrow> sched_rt_entity) \<Rightarrow> sys \<Rightarrow> sys" where
  "upd_rte p f = upd_task p (\<lambda>t. t\<lparr>p_rt := f (p_rt t)\<rparr>)"

section \<open>The priority array\<close>

definition init_rt_rq :: "rt_rq \<Rightarrow> rt_rq" where
  "init_rt_rq r = r\<lparr>
     active := \<lparr>bitmap = replicate (nat MAX_RT_PRIO) False @ [True],
                queue = replicate (nat MAX_RT_PRIO) []\<rparr>,
     highest_prio_curr := MAX_RT_PRIO, highest_prio_next := MAX_RT_PRIO,
     rt_nr_migratory := 0, rt_is_overloaded := False, pushable_tasks := [],
     rt_queued := False, rt_time := 0, rt_throttled := False, rt_runtime := 0\<rparr>"

definition sched_find_first_bit :: "bool list \<Rightarrow> nat" where
  "sched_find_first_bit b = (case find_index (\<lambda>x. x) b of Some i \<Rightarrow> i | None \<Rightarrow> length b)"

definition array_add :: "task_id \<Rightarrow> nat \<Rightarrow> bool \<Rightarrow> rt_prio_array \<Rightarrow> rt_prio_array" where
  "array_add p i head a = a\<lparr>
     queue := (queue a)[i := if head then p # queue a ! i else queue a ! i @ [p]],
     bitmap := (bitmap a)[i := True]\<rparr>"

definition array_delist :: "task_id \<Rightarrow> nat \<Rightarrow> rt_prio_array \<Rightarrow> rt_prio_array" where
  "array_delist p i a =
     (let qs = map (removeAll p) (queue a)
      in a\<lparr>queue := qs, bitmap := if qs ! i = [] then (bitmap a)[i := False] else bitmap a\<rparr>)"

definition array_move :: "task_id \<Rightarrow> nat \<Rightarrow> bool \<Rightarrow> rt_prio_array \<Rightarrow> rt_prio_array" where
  "array_move p i head a =
     (let qs = map (removeAll p) (queue a)
      in a\<lparr>queue := qs[i := if head then p # qs ! i else qs ! i @ [p]]\<rparr>)"

definition rt_se_prio :: "sys \<Rightarrow> task_id \<Rightarrow> int" where
  "rt_se_prio s p = p_prio (tasks s p)"

text \<open>An access to \<open>array->queue + prio\<close> outside the array is a fault.\<close>

definition rt_index_ok :: "int \<Rightarrow> bool" where
  "rt_index_ok q \<longleftrightarrow> 0 \<le> q \<and> q < MAX_RT_PRIO"

definition check_rt_index :: "int \<Rightarrow> sys \<Rightarrow> sys" where
  "check_rt_index q s = (if rt_index_ok q then s else raise_fault Index_out_of_range s)"

section \<open>RT bandwidth timer\<close>

definition init_rt_bandwidth :: "u64 \<Rightarrow> u64 \<Rightarrow> rt_bandwidth \<Rightarrow> rt_bandwidth" where
  "init_rt_bandwidth period runtime b = b\<lparr>rt_period := period, rtb_runtime := runtime\<rparr>"

definition start_rt_bandwidth :: "sys \<Rightarrow> sys" where
  "start_rt_bandwidth s =
     (if \<not> rt_bandwidth_enabled s \<or> rtb_runtime (def_rt_bandwidth s) = RUNTIME_INF then s
      else if \<not> rt_period_active (def_rt_bandwidth s)
        then s\<lparr>def_rt_bandwidth := (def_rt_bandwidth s)\<lparr>rt_period_active := True\<rparr>\<rparr>
        else s)"

section \<open>Overload marks and the pushable list\<close>

definition need_pull_rt_task :: "sys \<Rightarrow> cpu_id \<Rightarrow> task_id \<Rightarrow> bool" where
  "need_pull_rt_task s c prev \<longleftrightarrow> highest_prio_curr (rtq s c) > p_prio (tasks s prev)"

definition rt_overloaded :: "sys \<Rightarrow> cpu_id \<Rightarrow> int" where
  "rt_overloaded s c = rto_count (rds s (rq_rd (rqs s c)))"

definition rt_set_overload :: "cpu_id \<Rightarrow> sys \<Rightarrow> sys" where
  "rt_set_overload c s =
     (if \<not> rq_online (rqs s c) then s
      else upd_rd (rq_rd (rqs s c))
             (\<lambda>rd. rd\<lparr>rto_mask := (rto_mask rd)(c := True), rto_count := rto_count rd + 1\<rparr>) s)"

definition rt_clear_overload :: "cpu_id \<Rightarrow> sys \<Rightarrow> sys" where
  "rt_clear_overload c s =
     (if \<not> rq_online (rqs s c) then s
      else upd_rd (rq_rd (rqs s c))
             (\<lambda>rd. rd\<lparr>rto_count := rto_count rd - 1, rto_mask := (rto_mask rd)(c := False)\<rparr>) s)"

definition update_rt_migration :: "cpu_id \<Rightarrow> sys \<Rightarrow> sys" where
  "update_rt_migration c s =
     (if rt_nr_migratory (rtq s c) \<noteq> 0 \<and> 1 < rt_nr_total (rtq s c) then
        (if \<not> rt_is_overloaded (rtq s c)
         then upd_rt c (\<lambda>r. r\<lparr>rt_is_overloaded := True\<rparr>) (rt_set_overload c s) else s)
      else if rt_is_overloaded (rtq s c)
        then upd_rt c (\<lambda>r. r\<lparr>rt_is_overloaded := False\<rparr>) (rt_clear_overload c s)
      else s)"

definition inc_rt_migration :: "task_id \<Rightarrow> cpu_id \<Rightarrow> sys \<Rightarrow> sys" where
  "inc_rt_migration p c s =
     update_rt_migration c
       (upd_rt c (\<lambda>r. r\<lparr>rt_nr_total := rt_nr_total r + 1,
          rt_nr_migratory := (if 1 < p_nr_cpus_allowed (tasks s p) then rt_nr_migratory r + 1
                              else rt_nr_migratory r)\<rparr>) s)"

definition dec_rt_migration :: "task_id \<Rightarrow> cpu_id \<Rightarrow> sys \<Rightarrow> sys" where
  "dec_rt_migration p c s =
     update_rt_migration c
       (upd_rt c (\<lambda>r. r\<lparr>rt_nr_total := rt_nr_total r - 1,
          rt_nr_migratory := (if 1 < p_nr_cpus_allowed (tasks s p) then rt_nr_migratory r - 1
                              else rt_nr_migratory r)\<rparr>) s)"

definition has_pushable_tasks :: "sys \<Rightarrow> cpu_id \<Rightarrow> bool" where
  "has_pushable_tasks s c \<longleftrightarrow> pushable_tasks (rtq s c) \<noteq> []"

text \<open>
  A callback head is taken to be queued already when its \<open>next\<close> pointer is non-null, which is not
  the case for the last element of the chain.
\<close>

definition queue_balance_callback :: "balance_fn \<Rightarrow> cpu_id \<Rightarrow> sys \<Rightarrow> sys" where
  "queue_balance_callback fn c =
     upd_rq c (\<lambda>rq. if fn \<in> set (butlast (rq_balance_callback rq)) then rq
                    else rq\<lparr>rq_balance_callback := fn # rq_balance_callback rq\<rparr>)"

definition rt_queue_push_tasks :: "cpu_id \<Rightarrow> sys \<Rightarrow> sys" where
  "rt_queue_push_tasks c s =
     (if \<not> has_pushable_tasks s c then s else queue_balance_callback Push_rt_tasks c s)"

definition rt_queue_pull_task :: "cpu_id \<Rightarrow> sys \<Rightarrow> sys" where
  "rt_queue_pull_task c = queue_balance_callback Pull_rt_task c"

text \<open>\<open>plist_add\<close> keeps the list sorted by priority, first in first out among equals.\<close>

fun plist_add :: "int \<times> task_id \<Rightarrow> (int \<times> task_id) list \<Rightarrow> (int \<times> task_id) list" where
  "plist_add n [] = [n]"
| "plist_add n (m # ms) = (if fst n < fst m then n # m # ms else m # plist_add n ms)"

definition plist_del :: "task_id \<Rightarrow> (int \<times> task_id) list \<Rightarrow> (int \<times> task_id) list" where
  "plist_del p = filter (\<lambda>n. snd n \<noteq> p)"

definition enqueue_pushable_task :: "cpu_id \<Rightarrow> task_id \<Rightarrow> sys \<Rightarrow> sys" where
  "enqueue_pushable_task c p s =
     (let q = p_prio (tasks s p)
      in upd_rt c (\<lambda>r. r\<lparr>pushable_tasks := plist_add (q, p) (plist_del p (pushable_tasks r)),
           highest_prio_next := (if q < highest_prio_next r then q else highest_prio_next r)\<rparr>) s)"

definition dequeue_pushable_task :: "cpu_id \<Rightarrow> task_id \<Rightarrow> sys \<Rightarrow> sys" where
  "dequeue_pushable_task c p s =
     upd_rt c (\<lambda>r. let l = plist_del p (pushable_tasks r)
        in r\<lparr>pushable_tasks := l,
             highest_prio_next := (case l of [] \<Rightarrow> MAX_RT_PRIO | n # _ \<Rightarrow> p_prio (tasks s (snd n)))\<rparr>) s"

section \<open>Throttling and the top queue\<close>

definition on_rt_rq :: "sys \<Rightarrow> task_id \<Rightarrow> bool" where
  "on_rt_rq s p \<longleftrightarrow> rte_on_rq (p_rt (tasks s p))"

definition sched_rt_runtime :: "rt_rq \<Rightarrow> u64" where
  "sched_rt_runtime r = rt_runtime r"

definition sched_rt_period :: "sys \<Rightarrow> u64" where
  "sched_rt_period s = rt_period (def_rt_bandwidth s)"

definition rt_rq_throttled :: "rt_rq \<Rightarrow> bool" where
  "rt_rq_throttled r \<longleftrightarrow> rt_throttled r"

definition dequeue_top_rt_rq :: "cpu_id \<Rightarrow> sys \<Rightarrow> sys" where
  "dequeue_top_rt_rq c s =
     (if \<not> rt_queued (rtq s c) then s
      else
        let s1 = (if rq_nr_running (rqs s c) = 0 then raise_fault Bug_on s else s)
        in upd_rt c (\<lambda>r. r\<lparr>rt_queued := False\<rparr>) (sub_nr_running c (rt_nr_running (rtq s1 c)) s1))"

definition enqueue_top_rt_rq :: "cpu_id \<Rightarrow> sys \<Rightarrow> sys" where
  "enqueue_top_rt_rq c s =
     (if rt_queued (rtq s c) then s
      else if rt_rq_throttled (rtq s c) then s
      else if rt_nr_running (rtq s c) \<noteq> 0
        then upd_rt c (\<lambda>r. r\<lparr>rt_queued := True\<rparr>) (add_nr_running c (rt_nr_running (rtq s c)) s)
      else s)"

definition sched_rt_rq_enqueue :: "cpu_id \<Rightarrow> sys \<Rightarrow> sys" where
  "sched_rt_rq_enqueue c s =
     (if rt_nr_running (rtq s c) = 0 then s else resched_curr c (enqueue_top_rt_rq c s))"

definition sched_rt_rq_dequeue :: "cpu_id \<Rightarrow> sys \<Rightarrow> sys" where
  "sched_rt_rq_dequeue c = dequeue_top_rt_rq c"

definition sched_rt_bandwidth_account :: "(sys \<Rightarrow> bool) \<Rightarrow> sys \<Rightarrow> cpu_id \<Rightarrow> bool" where
  "sched_rt_bandwidth_account hrtimer_active s c \<longleftrightarrow>
     hrtimer_active s \<or> rt_time (rtq s c) < rtb_runtime (def_rt_bandwidth s)"

section \<open>Borrowing runtime between CPUs\<close>

text \<open>One neighbour's turn in \<open>do_balance_runtime\<close>: the new state and whether the loop stops.\<close>

definition balance_one :: "cpu_id \<Rightarrow> u64 \<Rightarrow> u64 \<Rightarrow> cpu_id \<Rightarrow> sys \<Rightarrow> sys \<times> bool" where
  "balance_one c weight period i s =
     (let iter = rtq s i
      in if i = c then (s, False)
         else if rt_runtime iter = RUNTIME_INF then (s, False)
         else
           let diff = rt_runtime iter - rt_time iter
           in if 0 < s64 diff then
                let diff1 = diff div weight;
                    diff2 = (if rt_runtime (rtq s c) + diff1 > period
                             then period - rt_runtime (rtq s c) else diff1);
                    s1 = upd_rt i (\<lambda>r. r\<lparr>rt_runtime := rt_runtime r - diff2\<rparr>) s;
                    s2 = upd_rt c (\<lambda>r. r\<lparr>rt_runtime := rt_runtime r + diff2\<rparr>) s1
                in (s2, rt_runtime (rtq s2 c) = period)
              else (s, False))"

fun balance_loop :: "cpu_id \<Rightarrow> u64 \<Rightarrow> u64 \<Rightarrow> cpu_id list \<Rightarrow> sys \<Rightarrow> sys" where
  "balance_loop c weight period [] s = s"
| "balance_loop c weight period (i # is) s =
     (case balance_one c weight period i s of (s1, stop) \<Rightarrow>
        if stop then s1 else balance_loop c weight period is s1)"

definition do_balance_runtime :: "cpu_id \<Rightarrow> sys \<Rightarrow> sys" where
  "do_balance_runtime c s =
     (let span = rd_span (rds s (rq_rd (rqs s c)))
      in balance_loop c (of_nat (cpumask_weight s span)) (rt_period (def_rt_bandwidth s))
           (cpus_of s span) s)"

text \<open>The greedy reclaim of \<open>__disable_runtime\<close>, with what is still wanted as a signed amount.\<close>

fun reclaim_loop :: "cpu_id \<Rightarrow> cpu_id list \<Rightarrow> u64 \<Rightarrow> sys \<Rightarrow> u64 \<times> sys" where
  "reclaim_loop c [] want s = (want, s)"
| "reclaim_loop c (i # is) want s =
     (if i = c \<or> rt_runtime (rtq s i) = RUNTIME_INF then reclaim_loop c is want s
      else
        let diff = (if 0 < s64 want
                    then (if s64 (rt_runtime (rtq s i)) < s64 want then rt_runtime (rtq s i) else want)
                    else want);
            s1 = upd_rt i (\<lambda>r. r\<lparr>rt_runtime := rt_runtime r - diff\<rparr>) s;
            want1 = want - diff
        in if want1 = 0 then (want1, s1) else reclaim_loop c is want1 s1)"

definition disable_runtime :: "bool \<Rightarrow> cpu_id \<Rightarrow> sys \<Rightarrow> sys" where
  "disable_runtime scheduler_running c s =
     (if \<not> scheduler_running then s
      else
        let R = rtb_runtime (def_rt_bandwidth s);
            s1 = (if rt_runtime (rtq s c) = RUNTIME_INF \<or> rt_runtime (rtq s c) = R then s
                  else case reclaim_loop c (cpus_of s (rd_span (rds s (rq_rd (rqs s c)))))
                              (R - rt_runtime (rtq s c)) s of
                    (want, s') \<Rightarrow> if want \<noteq> 0 then raise_fault Bug_on s' else s');
            s2 = upd_rt c (\<lambda>r. r\<lparr>rt_runtime := RUNTIME_INF, rt_throttled := False\<rparr>) s1
        in sched_rt_rq_enqueue c s2)"

definition enable_runtime :: "bool \<Rightarrow> cpu_id \<Rightarrow> sys \<Rightarrow> sys" where
  "enable_runtime scheduler_running c s =
     (if \<not> scheduler_running then s
      else upd_rt c (\<lambda>r. r\<lparr>rt_runtime := rtb_runtime (def_rt_bandwidth s), rt_time := 0,
                           rt_throttled := False\<rparr>) s)"

definition balance_runtime :: "cpu_id \<Rightarrow> sys \<Rightarrow> sys" where
  "balance_runtime c s =
     (if \<not> feat_rt_runtime_share s then s
      else if rt_runtime (rtq s c) < rt_time (rtq s c) then do_balance_runtime c s
      else s)"

text \<open>
  The body of the loop of \<open>do_sched_rt_period_timer\<close> for one CPU: the flags \<open>idle\<close> and
  \<open>throttled\<close> are threaded through.
\<close>

definition period_timer_one :: "u64 \<Rightarrow> cpu_id \<Rightarrow> bool \<times> bool \<times> sys \<Rightarrow> bool \<times> bool \<times> sys" where
  "period_timer_one overrun i st =
     (case st of (idle, throttled, s) \<Rightarrow>
        let s1 = (if \<not> feat_rt_runtime_share s \<and> rt_runtime (rtq s i) \<noteq> RUNTIME_INF
                  then upd_rt i (\<lambda>r. r\<lparr>rt_runtime := rtb_runtime (def_rt_bandwidth s)\<rparr>) s else s)
        in if rt_time (rtq s1 i) = 0 \<and> rt_nr_running (rtq s1 i) = 0 then (idle, throttled, s1)
           else
             let s2 = update_rq_clock i s1;
                 (idle1, enqueue, s3) =
                   (if rt_time (rtq s2 i) \<noteq> 0 then
                      let t1 = (if rt_throttled (rtq s2 i) then balance_runtime i s2 else s2);
                          runtime = rt_runtime (rtq t1 i);
                          t2 = upd_rt i (\<lambda>r. r\<lparr>rt_time := rt_time r - min (rt_time r) (overrun * runtime)\<rparr>) t1;
                          unthr = (rt_throttled (rtq t2 i) \<and> rt_time (rtq t2 i) < runtime);
                          t3 = (if unthr then upd_rt i (\<lambda>r. r\<lparr>rt_throttled := False\<rparr>) t2 else t2);
                          t4 = (if unthr \<and> rt_nr_running (rtq t3 i) \<noteq> 0 \<and>
                                   rq_curr (rqs t3 i) = rq_idle (rqs t3 i)
                                then rq_clock_cancel_skipupdate i t3 else t3)
                      in (if rt_time (rtq t4 i) \<noteq> 0 \<or> rt_nr_running (rtq t4 i) \<noteq> 0 then False else idle,
                          unthr, t4)
                    else if rt_nr_running (rtq s2 i) \<noteq> 0
                      then (False, \<not> rt_rq_throttled (rtq s2 i), s2)
                    else (idle, False, s2));
                 throttled1 = (throttled \<or> rt_throttled (rtq s3 i));
                 s4 = (if enqueue then sched_rt_rq_enqueue i s3 else s3)
             in (idle1, throttled1, s4))"

definition do_sched_rt_period_timer :: "u64 \<Rightarrow> sys \<Rightarrow> bool \<times> sys" where
  "do_sched_rt_period_timer overrun s =
     (case fold (period_timer_one overrun) (cpus_of s (cpu_online_mask s)) (True, False, s) of
        (idle, throttled, s1) \<Rightarrow>
          if \<not> throttled \<and> (\<not> rt_bandwidth_enabled s1 \<or> rtb_runtime (def_rt_bandwidth s1) = RUNTIME_INF)
          then (True, s1) else (idle, s1))"

text \<open>
  \<open>sched_rt_period_timer\<close>: \<open>overruns\<close> are the results of the successive calls of
  \<open>hrtimer_forward_now\<close> before it returns zero.
\<close>

fun period_timer_loop :: "u64 list \<Rightarrow> bool \<Rightarrow> sys \<Rightarrow> bool \<times> sys" where
  "period_timer_loop [] idle s = (idle, s)"
| "period_timer_loop (n # ns) idle s =
     (if n = 0 then (idle, s)
      else case do_sched_rt_period_timer n s of (idle1, s1) \<Rightarrow> period_timer_loop ns idle1 s1)"

definition sched_rt_period_timer :: "u64 list \<Rightarrow> sys \<Rightarrow> bool \<times> sys" where
  "sched_rt_period_timer overruns s =
     (case period_timer_loop overruns False s of (idle, s1) \<Rightarrow>
        (\<not> idle, if idle then s1\<lparr>def_rt_bandwidth := (def_rt_bandwidth s1)\<lparr>rt_period_active := False\<rparr>\<rparr>
                 else s1))"

definition sched_rt_runtime_exceeded :: "cpu_id \<Rightarrow> sys \<Rightarrow> bool \<times> sys" where
  "sched_rt_runtime_exceeded c s =
     (let runtime = sched_rt_runtime (rtq s c)
      in if rt_throttled (rtq s c) then (rt_rq_throttled (rtq s c), s)
         else if runtime \<ge> sched_rt_period s then (False, s)
         else
           let s1 = balance_runtime c s;
               runtime1 = sched_rt_runtime (rtq s1 c)
           in if runtime1 = RUNTIME_INF then (False, s1)
              else if rt_time (rtq s1 c) > runtime1 then
                let s2 = (if rtb_runtime (def_rt_bandwidth s1) \<noteq> 0
                          then upd_rt c (\<lambda>r. r\<lparr>rt_throttled := True\<rparr>) s1
                          else upd_rt c (\<lambda>r. r\<lparr>rt_time := 0\<rparr>) s1)
                in if rt_rq_throttled (rtq s2 c) then (True, sched_rt_rq_dequeue c s2)
                   else (False, s2)
              else (False, s1))"

definition update_curr_rt :: "cpu_id \<Rightarrow> sys \<Rightarrow> sys" where
  "update_curr_rt c s =
     (let curr = rq_curr (rqs s c)
      in if p_sched_class (tasks s curr) \<noteq> Rt_class then s
         else
           let now = rq_clock_task (rqs s c);
               delta_exec = now - se_exec_start (p_se (tasks s curr))
           in if s64 delta_exec \<le> 0 then s
              else
                let s1 = upd_task curr (\<lambda>t. t\<lparr>p_se := (p_se t)\<lparr>
                           se_sum_exec_runtime := se_sum_exec_runtime (p_se t) + delta_exec,
                           se_exec_start := now\<rparr>\<rparr>) s;
                    d = p_cpu (tasks s1 curr)
                in if \<not> rt_bandwidth_enabled s1 then s1
                   else if sched_rt_runtime (rtq s1 d) \<noteq> RUNTIME_INF then
                     let s2 = upd_rt d (\<lambda>r. r\<lparr>rt_time := rt_time r + delta_exec\<rparr>) s1
                     in (case sched_rt_runtime_exceeded d s2 of (exceeded, s3) \<Rightarrow>
                           if exceeded then resched_curr c s3 else s3)
                   else s1)"

section \<open>Counting queued tasks\<close>

definition cpupri_set :: "cpu_id \<Rightarrow> int \<Rightarrow> sys \<Rightarrow> sys" where
  "cpupri_set c q s = upd_rd (rq_rd (rqs s c)) (\<lambda>rd. rd\<lparr>rd_cpupri := (rd_cpupri rd)(c := q)\<rparr>) s"

definition inc_rt_prio_smp :: "cpu_id \<Rightarrow> int \<Rightarrow> int \<Rightarrow> sys \<Rightarrow> sys" where
  "inc_rt_prio_smp c q prev_prio s =
     (if rq_online (rqs s c) \<and> q < prev_prio then cpupri_set c q s else s)"

definition dec_rt_prio_smp :: "cpu_id \<Rightarrow> int \<Rightarrow> int \<Rightarrow> sys \<Rightarrow> sys" where
  "dec_rt_prio_smp c q prev_prio s =
     (if rq_online (rqs s c) \<and> highest_prio_curr (rtq s c) \<noteq> prev_prio
      then cpupri_set c (highest_prio_curr (rtq s c)) s else s)"

definition inc_rt_prio :: "cpu_id \<Rightarrow> int \<Rightarrow> sys \<Rightarrow> sys" where
  "inc_rt_prio c q s =
     (let prev_prio = highest_prio_curr (rtq s c);
          s1 = (if q < prev_prio then upd_rt c (\<lambda>r. r\<lparr>highest_prio_curr := q\<rparr>) s else s)
      in inc_rt_prio_smp c q prev_prio s1)"

definition dec_rt_prio :: "cpu_id \<Rightarrow> int \<Rightarrow> sys \<Rightarrow> sys" where
  "dec_rt_prio c q s =
     (let prev_prio = highest_prio_curr (rtq s c);
          s1 = (if rt_nr_running (rtq s c) \<noteq> 0 then
                  (if q = prev_prio
                   then upd_rt c (\<lambda>r. r\<lparr>highest_prio_curr := int (sched_find_first_bit (bitmap (active r)))\<rparr>) s
                   else s)
                else upd_rt c (\<lambda>r. r\<lparr>highest_prio_curr := MAX_RT_PRIO\<rparr>) s)
      in dec_rt_prio_smp c q prev_prio s1)"

definition rt_se_rr_nr_running :: "sys \<Rightarrow> task_id \<Rightarrow> u32" where
  "rt_se_rr_nr_running s p = (if p_policy (tasks s p) = SCHED_RR then 1 else 0)"

definition inc_rt_tasks :: "task_id \<Rightarrow> cpu_id \<Rightarrow> sys \<Rightarrow> sys" where
  "inc_rt_tasks p c s =
     (let q = rt_se_prio s p;
          rr = rt_se_rr_nr_running s p;
          s1 = upd_rt c (\<lambda>r. r\<lparr>rt_nr_running := rt_nr_running r + 1,
                               rr_nr_running := rr_nr_running r + rr\<rparr>) s
      in start_rt_bandwidth (inc_rt_migration p c (inc_rt_prio c q s1)))"

definition dec_rt_tasks :: "task_id \<Rightarrow> cpu_id \<Rightarrow> sys \<Rightarrow> sys" where
  "dec_rt_tasks p c s =
     (let rr = rt_se_rr_nr_running s p;
          s1 = upd_rt c (\<lambda>r. r\<lparr>rt_nr_running := rt_nr_running r - 1,
                               rr_nr_running := rr_nr_running r - rr\<rparr>) s
      in dec_rt_migration p c (dec_rt_prio c (rt_se_prio s1 p) s1))"

section \<open>Queueing\<close>

definition move_entity :: "u32 \<Rightarrow> bool" where
  "move_entity flags \<longleftrightarrow> \<not> (flags AND (DEQUEUE_SAVE OR DEQUEUE_MOVE) = DEQUEUE_SAVE)"

definition delist_rt_entity :: "task_id \<Rightarrow> cpu_id \<Rightarrow> sys \<Rightarrow> sys" where
  "delist_rt_entity p c s =
     (let q = rt_se_prio s p
      in upd_rte p (\<lambda>e. e\<lparr>rte_on_list := False\<rparr>)
           (upd_rt c (\<lambda>r. r\<lparr>active := array_delist p (nat q) (active r)\<rparr>) (check_rt_index q s)))"

definition enqueue_entity :: "task_id \<Rightarrow> u32 \<Rightarrow> sys \<Rightarrow> sys" where
  "enqueue_entity p flags s =
     (let c = p_cpu (tasks s p);
          q = rt_se_prio s p;
          s1 = (if move_entity flags
                then upd_rte p (\<lambda>e. e\<lparr>rte_on_list := True\<rparr>)
                       (upd_rt c (\<lambda>r. r\<lparr>active := array_add p (nat q) (flag_set flags ENQUEUE_HEAD) (active r)\<rparr>)
                         (check_rt_index q s))
                else s);
          s2 = upd_rte p (\<lambda>e. e\<lparr>rte_on_rq := True\<rparr>) s1
      in inc_rt_tasks p c s2)"

definition dequeue_entity :: "task_id \<Rightarrow> u32 \<Rightarrow> sys \<Rightarrow> sys" where
  "dequeue_entity p flags s =
     (let c = p_cpu (tasks s p);
          s1 = (if move_entity flags then delist_rt_entity p c s else s);
          s2 = upd_rte p (\<lambda>e. e\<lparr>rte_on_rq := False\<rparr>) s1
      in dec_rt_tasks p c s2)"

definition dequeue_rt_stack :: "task_id \<Rightarrow> u32 \<Rightarrow> sys \<Rightarrow> sys" where
  "dequeue_rt_stack p flags s =
     (let s1 = dequeue_top_rt_rq (p_cpu (tasks s p)) s
      in if on_rt_rq s1 p then dequeue_entity p flags s1 else s1)"

definition enqueue_rt_entity :: "task_id \<Rightarrow> u32 \<Rightarrow> sys \<Rightarrow> sys" where
  "enqueue_rt_entity p flags s =
     (let c = p_cpu (tasks s p)
      in enqueue_top_rt_rq c (enqueue_entity p flags (dequeue_rt_stack p flags s)))"

definition dequeue_rt_entity :: "task_id \<Rightarrow> u32 \<Rightarrow> sys \<Rightarrow> sys" where
  "dequeue_rt_entity p flags s =
     (let c = p_cpu (tasks s p) in enqueue_top_rt_rq c (dequeue_rt_stack p flags s))"

section \<open>Class operations\<close>

definition enqueue_task_rt :: "cpu_id \<Rightarrow> task_id \<Rightarrow> u32 \<Rightarrow> sys \<Rightarrow> sys" where
  "enqueue_task_rt c p flags s =
     (let s1 = (if flag_set flags ENQUEUE_WAKEUP then upd_rte p (\<lambda>e. e\<lparr>rte_timeout := 0\<rparr>) s else s);
          s2 = enqueue_rt_entity p flags s1
      in if \<not> task_current s2 c p \<and> 1 < p_nr_cpus_allowed (tasks s2 p)
         then enqueue_pushable_task c p s2 else s2)"

definition dequeue_task_rt :: "cpu_id \<Rightarrow> task_id \<Rightarrow> u32 \<Rightarrow> sys \<Rightarrow> sys" where
  "dequeue_task_rt c p flags s =
     dequeue_pushable_task c p (dequeue_rt_entity p flags (update_curr_rt c s))"

definition requeue_rt_entity :: "cpu_id \<Rightarrow> task_id \<Rightarrow> bool \<Rightarrow> sys \<Rightarrow> sys" where
  "requeue_rt_entity c p head s =
     (if on_rt_rq s p
      then upd_rt c (\<lambda>r. r\<lparr>active := array_move p (nat (rt_se_prio s p)) head (active r)\<rparr>)
             (check_rt_index (rt_se_prio s p) s)
      else s)"

definition requeue_task_rt :: "task_id \<Rightarrow> bool \<Rightarrow> sys \<Rightarrow> sys" where
  "requeue_task_rt p head s = requeue_rt_entity (p_cpu (tasks s p)) p head s"

definition yield_task_rt :: "cpu_id \<Rightarrow> sys \<Rightarrow> sys" where
  "yield_task_rt c s = requeue_task_rt (rq_curr (rqs s c)) False s"

definition put_prev_task_rt :: "cpu_id \<Rightarrow> task_id \<Rightarrow> sys \<Rightarrow> sys" where
  "put_prev_task_rt c p s =
     (let s1 = update_curr_rt c s
      in if on_rt_rq s1 p \<and> 1 < p_nr_cpus_allowed (tasks s1 p) then enqueue_pushable_task c p s1
         else s1)"

text \<open>\<open>cpupri_find\<close> (of \<open>cpupri.c\<close>) asks whether some CPU of lower priority can take the task.\<close>

definition check_preempt_equal_prio ::
  "(sys \<Rightarrow> task_id \<Rightarrow> bool) \<Rightarrow> cpu_id \<Rightarrow> task_id \<Rightarrow> sys \<Rightarrow> sys" where
  "check_preempt_equal_prio cpupri_find c p s =
     (let curr = rq_curr (rqs s c)
      in if p_nr_cpus_allowed (tasks s curr) = 1 \<or> \<not> cpupri_find s curr then s
         else if p_nr_cpus_allowed (tasks s p) \<noteq> 1 \<and> cpupri_find s p then s
         else resched_curr c (requeue_task_rt p True s))"

definition check_preempt_curr_rt ::
  "(sys \<Rightarrow> task_id \<Rightarrow> bool) \<Rightarrow> cpu_id \<Rightarrow> task_id \<Rightarrow> u32 \<Rightarrow> sys \<Rightarrow> sys" where
  "check_preempt_curr_rt cpupri_find c p flags s =
     (let curr = rq_curr (rqs s c)
      in if p_prio (tasks s p) < p_prio (tasks s curr) then resched_curr c s
         else if p_prio (tasks s p) = p_prio (tasks s curr) \<and> \<not> p_need_resched (tasks s curr)
           then check_preempt_equal_prio cpupri_find c p s
         else s)"

definition pick_next_rt_entity :: "sys \<Rightarrow> cpu_id \<Rightarrow> task_id option" where
  "pick_next_rt_entity s c =
     (let idx = sched_find_first_bit (bitmap (active (rtq s c)))
      in if int idx \<ge> MAX_RT_PRIO then None
         else case queue (active (rtq s c)) ! idx of [] \<Rightarrow> None | p # _ \<Rightarrow> Some p)"

definition pick_next_task_rt_inner :: "cpu_id \<Rightarrow> sys \<Rightarrow> task_id option \<times> sys" where
  "pick_next_task_rt_inner c s =
     (case pick_next_rt_entity s c of
        None \<Rightarrow> (None, raise_fault Bug_on s)
      | Some p \<Rightarrow> (Some p, upd_task p (\<lambda>t. t\<lparr>p_se := (p_se t)\<lparr>se_exec_start := rq_clock_task (rqs s c)\<rparr>\<rparr>) s))"

definition switched_from_rt :: "cpu_id \<Rightarrow> task_id \<Rightarrow> sys \<Rightarrow> sys" where
  "switched_from_rt c p s =
     (if \<not> task_on_rq_queued s p \<or> rt_nr_running (rtq s c) \<noteq> 0 then s else rt_queue_pull_task c s)"

definition switched_to_rt :: "cpu_id \<Rightarrow> task_id \<Rightarrow> sys \<Rightarrow> sys" where
  "switched_to_rt c p s =
     (if task_on_rq_queued s p \<and> rq_curr (rqs s c) \<noteq> p then
        let s1 = (if 1 < p_nr_cpus_allowed (tasks s p) \<and> rt_is_overloaded (rtq s c)
                  then rt_queue_push_tasks c s else s)
        in if p_prio (tasks s1 p) < p_prio (tasks s1 (rq_curr (rqs s1 c))) \<and> cpu_online_mask s1 c
           then resched_curr c s1 else s1
      else s)"

definition prio_changed_rt :: "cpu_id \<Rightarrow> task_id \<Rightarrow> int \<Rightarrow> sys \<Rightarrow> sys" where
  "prio_changed_rt c p oldprio s =
     (if \<not> task_on_rq_queued s p then s
      else if rq_curr (rqs s c) = p then
        let s1 = (if oldprio < p_prio (tasks s p) then rt_queue_pull_task c s else s)
        in if highest_prio_curr (rtq s1 c) < p_prio (tasks s1 p) then resched_curr c s1 else s1
      else if p_prio (tasks s p) < p_prio (tasks s (rq_curr (rqs s c))) then resched_curr c s
      else s)"

text \<open>\<open>soft\<close> and \<open>hard\<close> are the RLIMIT\_RTTIME limits of the task, \<open>hz\<close> the tick rate.\<close>

definition watchdog :: "u64 \<Rightarrow> u64 \<Rightarrow> u64 \<Rightarrow> task_id \<Rightarrow> sys \<Rightarrow> sys" where
  "watchdog soft hard hz p s =
     (if soft = NOT 0 then s
      else
        let s1 = (if rte_watchdog_stamp (p_rt (tasks s p)) \<noteq> jiffies s
                  then upd_rte p (\<lambda>e. e\<lparr>rte_timeout := rte_timeout e + 1, rte_watchdog_stamp := jiffies s\<rparr>) s
                  else s);
            tick_us = 1000000 div hz;
            next_tick = (min soft hard + tick_us - 1) div tick_us
        in if rte_timeout (p_rt (tasks s1 p)) > next_tick
           then upd_task p (\<lambda>t. t\<lparr>p_sched_exp := se_sum_exec_runtime (p_se t)\<rparr>) s1
           else s1)"

text \<open>
  The test \<open>run_list.prev != run_list.next\<close> of \<open>task_tick_rt\<close>: the two neighbours of a node
  coincide exactly when it is unlinked or the only entry of its list.
\<close>

definition alone_on_queue :: "sys \<Rightarrow> task_id \<Rightarrow> bool" where
  "alone_on_queue s p \<longleftrightarrow>
     list_all (\<lambda>l. p \<in> set l \<longrightarrow> l = [p]) (queue (active (rtq s (p_cpu (tasks s p)))))"

definition task_tick_rt :: "u64 \<Rightarrow> u64 \<Rightarrow> u64 \<Rightarrow> cpu_id \<Rightarrow> task_id \<Rightarrow> bool \<Rightarrow> sys \<Rightarrow> sys" where
  "task_tick_rt soft hard hz c p queued s =
     (let s1 = watchdog soft hard hz p (update_curr_rt c s)
      in if p_policy (tasks s1 p) \<noteq> SCHED_RR then s1
         else
           let s2 = upd_rte p (\<lambda>e. e\<lparr>rte_time_slice := rte_time_slice e - 1\<rparr>) s1
           in if rte_time_slice (p_rt (tasks s2 p)) \<noteq> 0 then s2
              else
                let s3 = upd_rte p (\<lambda>e. e\<lparr>rte_time_slice := sched_rr_timeslice s2\<rparr>) s2
                in if \<not> alone_on_queue s3 p then resched_curr c (requeue_task_rt p False s3)
                   else s3)"

definition set_curr_task_rt :: "cpu_id \<Rightarrow> sys \<Rightarrow> sys" where
  "set_curr_task_rt c s =
     (let p = rq_curr (rqs s c)
      in dequeue_pushable_task c p
           (upd_task p (\<lambda>t. t\<lparr>p_se := (p_se t)\<lparr>se_exec_start := rq_clock_task (rqs s c)\<rparr>\<rparr>) s))"

definition get_rr_interval_rt :: "cpu_id \<Rightarrow> task_id \<Rightarrow> sys \<Rightarrow> u32" where
  "get_rr_interval_rt c p s = (if p_policy (tasks s p) = SCHED_RR then sched_rr_timeslice s else 0)"

end
