(* ===== verification/Sched_Class.thy ===== *)
theory Sched_Class
  imports Sched_Ts Sched_Rt
begin

text \<open>
  The dispatch from \<open>kernel/sched/core.c\<close> to the scheduling classes.  The stop, deadline, fair and
  idle classes are not part of this source tree: their operations are the fields of a \<open>class_ops\<close>
  record, and a \<open>kenv\<close> collects them with the other code the scheduler calls (the CPU-priority
  search, the scheduling-domain topology, signals, the workqueue and what other CPUs do while a
  run-queue lock is dropped).  The real-time and time-sharing classes are dispatched to their models.
\<close>

section \<open>Classes and environment\<close>

text \<open>The result of a \<open>pick_next_task\<close> operation: NULL, RETRY\_TASK or a task.\<close>

datatype picked = No_task | Retry_task | Picked task_id

text \<open>\<open>struct sched_class\<close>; an operation the class does not have is the identity.\<close>

record class_ops =
  op_enqueue_task :: "cpu_id \<Rightarrow> task_id \<Rightarrow> u32 \<Rightarrow> sys \<Rightarrow> sys"
  op_dequeue_task :: "cpu_id \<Rightarrow> task_id \<Rightarrow> u32 \<Rightarrow> sys \<Rightarrow> sys"
  op_yield_task :: "cpu_id \<Rightarrow> sys \<Rightarrow> sys"
  op_check_preempt_curr :: "cpu_id \<Rightarrow> task_id \<Rightarrow> u32 \<Rightarrow> sys \<Rightarrow> sys"
  op_pick_next_task :: "cpu_id \<Rightarrow> task_id \<Rightarrow> sys \<Rightarrow> picked \<times> sys"
  op_put_prev_task :: "cpu_id \<Rightarrow> task_id \<Rightarrow> sys \<Rightarrow> sys"
  op_select_task_rq :: "task_id \<Rightarrow> cpu_id \<Rightarrow> u32 \<Rightarrow> u32 \<Rightarrow> sys \<Rightarrow> cpu_id"
  op_migrate_task_rq :: "task_id \<Rightarrow> cpu_id \<Rightarrow> sys \<Rightarrow> sys"
  op_task_woken :: "cpu_id \<Rightarrow> task_id \<Rightarrow> sys \<Rightarrow> sys"
  op_set_cpus_allowed :: "task_id \<Rightarrow> cpumask \<Rightarrow> sys \<Rightarrow> sys"
  op_set_curr_task :: "cpu_id \<Rightarrow> sys \<Rightarrow> sys"
  op_task_tick :: "cpu_id \<Rightarrow> task_id \<Rightarrow> bool \<Rightarrow> sys \<Rightarrow> sys"
  op_task_fork :: "task_id \<Rightarrow> sys \<Rightarrow> sys"
  op_task_dead :: "task_id \<Rightarrow> sys \<Rightarrow> sys"
  op_switched_from :: "cpu_id \<Rightarrow> task_id \<Rightarrow> sys \<Rightarrow> sys"
  op_switched_to :: "cpu_id \<Rightarrow> task_id \<Rightarrow> sys \<Rightarrow> sys"
  op_prio_changed :: "cpu_id \<Rightarrow> task_id \<Rightarrow> int \<Rightarrow> sys \<Rightarrow> sys"
  op_get_rr_interval :: "cpu_id \<Rightarrow> task_id \<Rightarrow> sys \<Rightarrow> u32"
  op_update_curr :: "cpu_id \<Rightarrow> sys \<Rightarrow> sys"

text \<open>
  \<open>e_cpupri_find\<close> gives the CPUs of lowest priority a task may run on, \<open>None\<close> when there are none;
  \<open>e_domains\<close> the scheduling domains above a CPU, each with its span and whether it has
  SD\_WAKE\_AFFINE; \<open>e_double_lock\<close> says whether taking a second run-queue lock dropped the first
  one and what the other CPUs did in between; \<open>e_rttime\<close> the RLIMIT\_RTTIME pair of a task;
  \<open>e_wq_sleeping\<close> and \<open>e_wq_waking\<close> the workqueue's notifications; \<open>e_wait_off_cpu\<close> what happens
  until a task has left its CPU; \<open>e_node_mask\<close> the CPUs of a CPU's node, if it has one;
  \<open>e_llc_id\<close> the cache a CPU shares; \<open>e_reweight\<close> is \<open>reweight_task\<close> of the fair class;
  \<open>e_fuel\<close> bounds the retry loops.
\<close>

record kenv =
  e_stop :: class_ops
  e_dl :: class_ops
  e_fair :: class_ops
  e_idle :: class_ops
  e_cpupri_find :: "sys \<Rightarrow> task_id \<Rightarrow> cpumask option"
  e_domains :: "cpu_id \<Rightarrow> (cpumask \<times> bool) list"
  e_double_lock :: "cpu_id \<Rightarrow> cpu_id \<Rightarrow> sys \<Rightarrow> bool \<times> sys"
  e_rttime :: "task_id \<Rightarrow> u64 \<times> u64"
  e_hz :: u64
  e_signal_pending :: "sys \<Rightarrow> task_id \<Rightarrow> bool"
  e_wq_sleeping :: "sys \<Rightarrow> task_id \<Rightarrow> task_id option"
  e_wq_waking :: "task_id \<Rightarrow> cpu_id \<Rightarrow> sys \<Rightarrow> sys"
  e_wait_off_cpu :: "task_id \<Rightarrow> sys \<Rightarrow> sys"
  e_node_mask :: "cpu_id \<Rightarrow> cpumask option"
  e_cpuset_fallback :: "task_id \<Rightarrow> sys \<Rightarrow> sys"
  e_llc_id :: "cpu_id \<Rightarrow> nat"
  e_reweight :: "task_id \<Rightarrow> int \<Rightarrow> sys \<Rightarrow> sys"
  e_load_balance :: "cpu_id \<Rightarrow> sys \<Rightarrow> sys"
  e_fuel :: nat

text \<open>The order of \<open>for_each_class\<close>: \<open>rt_sched_class.next\<close> is the time-sharing class, whose \<open>next\<close> is fair.\<close>

definition class_order :: "sched_class list" where
  "class_order = [Stop_class, Dl_class, Rt_class, Ts_class, Fair_class, Idle_class]"

section \<open>Dispatch\<close>

definition class_enqueue_task :: "kenv \<Rightarrow> sched_class \<Rightarrow> cpu_id \<Rightarrow> task_id \<Rightarrow> u32 \<Rightarrow> sys \<Rightarrow> sys" where
  "class_enqueue_task e k c p flags = (case k of
     Stop_class \<Rightarrow> op_enqueue_task (e_stop e) c p flags
   | Dl_class \<Rightarrow> op_enqueue_task (e_dl e) c p flags
   | Rt_class \<Rightarrow> enqueue_task_rt c p flags
   | Ts_class \<Rightarrow> enqueue_task_ts c p flags
   | Fair_class \<Rightarrow> op_enqueue_task (e_fair e) c p flags
   | Idle_class \<Rightarrow> op_enqueue_task (e_idle e) c p flags)"

definition class_dequeue_task :: "kenv \<Rightarrow> sched_class \<Rightarrow> cpu_id \<Rightarrow> task_id \<Rightarrow> u32 \<Rightarrow> sys \<Rightarrow> sys" where
  "class_dequeue_task e k c p flags = (case k of
     Stop_class \<Rightarrow> op_dequeue_task (e_stop e) c p flags
   | Dl_class \<Rightarrow> op_dequeue_task (e_dl e) c p flags
   | Rt_class \<Rightarrow> dequeue_task_rt c p flags
   | Ts_class \<Rightarrow> dequeue_task_ts c p flags
   | Fair_class \<Rightarrow> op_dequeue_task (e_fair e) c p flags
   | Idle_class \<Rightarrow> op_dequeue_task (e_idle e) c p flags)"

definition class_yield_task :: "kenv \<Rightarrow> sched_class \<Rightarrow> cpu_id \<Rightarrow> sys \<Rightarrow> sys" where
  "class_yield_task e k c = (case k of
     Stop_class \<Rightarrow> op_yield_task (e_stop e) c | Dl_class \<Rightarrow> op_yield_task (e_dl e) c
   | Rt_class \<Rightarrow> yield_task_rt c | Ts_class \<Rightarrow> yield_task_ts c
   | Fair_class \<Rightarrow> op_yield_task (e_fair e) c | Idle_class \<Rightarrow> op_yield_task (e_idle e) c)"

definition class_check_preempt_curr :: "kenv \<Rightarrow> sched_class \<Rightarrow> cpu_id \<Rightarrow> task_id \<Rightarrow> u32 \<Rightarrow> sys \<Rightarrow> sys" where
  "class_check_preempt_curr e k c p flags = (case k of
     Stop_class \<Rightarrow> op_check_preempt_curr (e_stop e) c p flags
   | Dl_class \<Rightarrow> op_check_preempt_curr (e_dl e) c p flags
   | Rt_class \<Rightarrow> check_preempt_curr_rt (\<lambda>s q. e_cpupri_find e s q \<noteq> None) c p flags
   | Ts_class \<Rightarrow> check_preempt_curr_ts c p flags
   | Fair_class \<Rightarrow> op_check_preempt_curr (e_fair e) c p flags
   | Idle_class \<Rightarrow> op_check_preempt_curr (e_idle e) c p flags)"

definition put_prev_task :: "kenv \<Rightarrow> cpu_id \<Rightarrow> task_id \<Rightarrow> sys \<Rightarrow> sys" where
  "put_prev_task e c prev s = (case p_sched_class (tasks s prev) of
     Stop_class \<Rightarrow> op_put_prev_task (e_stop e) c prev s
   | Dl_class \<Rightarrow> op_put_prev_task (e_dl e) c prev s
   | Rt_class \<Rightarrow> put_prev_task_rt c prev s
   | Ts_class \<Rightarrow> put_prev_task_ts c prev s
   | Fair_class \<Rightarrow> op_put_prev_task (e_fair e) c prev s
   | Idle_class \<Rightarrow> op_put_prev_task (e_idle e) c prev s)"

definition set_curr_task :: "kenv \<Rightarrow> cpu_id \<Rightarrow> task_id \<Rightarrow> sys \<Rightarrow> sys" where
  "set_curr_task e c p s = (case p_sched_class (tasks s p) of
     Stop_class \<Rightarrow> op_set_curr_task (e_stop e) c s
   | Dl_class \<Rightarrow> op_set_curr_task (e_dl e) c s
   | Rt_class \<Rightarrow> set_curr_task_rt c s
   | Ts_class \<Rightarrow> set_curr_task_ts c s
   | Fair_class \<Rightarrow> op_set_curr_task (e_fair e) c s
   | Idle_class \<Rightarrow> op_set_curr_task (e_idle e) c s)"

definition class_task_tick :: "kenv \<Rightarrow> sched_class \<Rightarrow> cpu_id \<Rightarrow> task_id \<Rightarrow> bool \<Rightarrow> sys \<Rightarrow> sys" where
  "class_task_tick e k c p queued = (case k of
     Stop_class \<Rightarrow> op_task_tick (e_stop e) c p queued
   | Dl_class \<Rightarrow> op_task_tick (e_dl e) c p queued
   | Rt_class \<Rightarrow> task_tick_rt (fst (e_rttime e p)) (snd (e_rttime e p)) (e_hz e) c p queued
   | Ts_class \<Rightarrow> task_tick_ts c p queued
   | Fair_class \<Rightarrow> op_task_tick (e_fair e) c p queued
   | Idle_class \<Rightarrow> op_task_tick (e_idle e) c p queued)"

definition class_switched_from :: "kenv \<Rightarrow> sched_class \<Rightarrow> cpu_id \<Rightarrow> task_id \<Rightarrow> sys \<Rightarrow> sys" where
  "class_switched_from e k c p = (case k of
     Stop_class \<Rightarrow> op_switched_from (e_stop e) c p | Dl_class \<Rightarrow> op_switched_from (e_dl e) c p
   | Rt_class \<Rightarrow> switched_from_rt c p | Ts_class \<Rightarrow> (\<lambda>s. s)
   | Fair_class \<Rightarrow> op_switched_from (e_fair e) c p | Idle_class \<Rightarrow> op_switched_from (e_idle e) c p)"

definition class_switched_to :: "kenv \<Rightarrow> sched_class \<Rightarrow> cpu_id \<Rightarrow> task_id \<Rightarrow> sys \<Rightarrow> sys" where
  "class_switched_to e k c p = (case k of
     Stop_class \<Rightarrow> op_switched_to (e_stop e) c p | Dl_class \<Rightarrow> op_switched_to (e_dl e) c p
   | Rt_class \<Rightarrow> switched_to_rt c p | Ts_class \<Rightarrow> switched_to_ts c p
   | Fair_class \<Rightarrow> op_switched_to (e_fair e) c p | Idle_class \<Rightarrow> op_switched_to (e_idle e) c p)"

definition class_prio_changed :: "kenv \<Rightarrow> sched_class \<Rightarrow> cpu_id \<Rightarrow> task_id \<Rightarrow> int \<Rightarrow> sys \<Rightarrow> sys" where
  "class_prio_changed e k c p oldprio = (case k of
     Stop_class \<Rightarrow> op_prio_changed (e_stop e) c p oldprio
   | Dl_class \<Rightarrow> op_prio_changed (e_dl e) c p oldprio
   | Rt_class \<Rightarrow> prio_changed_rt c p oldprio | Ts_class \<Rightarrow> prio_changed_ts c p oldprio
   | Fair_class \<Rightarrow> op_prio_changed (e_fair e) c p oldprio
   | Idle_class \<Rightarrow> op_prio_changed (e_idle e) c p oldprio)"

definition class_update_curr :: "kenv \<Rightarrow> sched_class \<Rightarrow> cpu_id \<Rightarrow> sys \<Rightarrow> sys" where
  "class_update_curr e k c = (case k of
     Stop_class \<Rightarrow> op_update_curr (e_stop e) c | Dl_class \<Rightarrow> op_update_curr (e_dl e) c
   | Rt_class \<Rightarrow> update_curr_rt c | Ts_class \<Rightarrow> update_curr_ts c
   | Fair_class \<Rightarrow> op_update_curr (e_fair e) c | Idle_class \<Rightarrow> op_update_curr (e_idle e) c)"

text \<open>Only the deadline and fair classes have \<open>migrate_task_rq\<close>, \<open>task_fork\<close> or \<open>task_dead\<close>.\<close>

definition class_migrate_task_rq :: "kenv \<Rightarrow> sched_class \<Rightarrow> task_id \<Rightarrow> cpu_id \<Rightarrow> sys \<Rightarrow> sys" where
  "class_migrate_task_rq e k p new_cpu = (case k of
     Dl_class \<Rightarrow> op_migrate_task_rq (e_dl e) p new_cpu
   | Fair_class \<Rightarrow> op_migrate_task_rq (e_fair e) p new_cpu | _ \<Rightarrow> (\<lambda>s. s))"

definition class_task_dead :: "kenv \<Rightarrow> sched_class \<Rightarrow> task_id \<Rightarrow> sys \<Rightarrow> sys" where
  "class_task_dead e k p = (case k of
     Dl_class \<Rightarrow> op_task_dead (e_dl e) p | Fair_class \<Rightarrow> op_task_dead (e_fair e) p | _ \<Rightarrow> (\<lambda>s. s))"

definition class_task_fork :: "kenv \<Rightarrow> sched_class \<Rightarrow> task_id \<Rightarrow> sys \<Rightarrow> sys" where
  "class_task_fork e k p = (case k of
     Dl_class \<Rightarrow> op_task_fork (e_dl e) p | Fair_class \<Rightarrow> op_task_fork (e_fair e) p | _ \<Rightarrow> (\<lambda>s. s))"

lemmas class_dispatch = class_enqueue_task_def class_dequeue_task_def class_yield_task_def
  class_check_preempt_curr_def class_task_tick_def class_switched_from_def class_switched_to_def
  class_prio_changed_def class_update_curr_def class_migrate_task_rq_def class_task_dead_def
  class_task_fork_def

section \<open>Queueing through the core\<close>

definition enqueue_task :: "kenv \<Rightarrow> cpu_id \<Rightarrow> task_id \<Rightarrow> u32 \<Rightarrow> sys \<Rightarrow> sys" where
  "enqueue_task e c p flags s =
     (let s1 = (if \<not> flag_set flags ENQUEUE_NOCLOCK then update_rq_clock c s else s)
      in class_enqueue_task e (p_sched_class (tasks s1 p)) c p flags s1)"

definition dequeue_task :: "kenv \<Rightarrow> cpu_id \<Rightarrow> task_id \<Rightarrow> u32 \<Rightarrow> sys \<Rightarrow> sys" where
  "dequeue_task e c p flags s =
     (let s1 = (if \<not> flag_set flags DEQUEUE_NOCLOCK then update_rq_clock c s else s)
      in class_dequeue_task e (p_sched_class (tasks s1 p)) c p flags s1)"

definition activate_task :: "kenv \<Rightarrow> cpu_id \<Rightarrow> task_id \<Rightarrow> u32 \<Rightarrow> sys \<Rightarrow> sys" where
  "activate_task e c p flags s =
     enqueue_task e c p flags
       (if task_contributes_to_load (tasks s p)
        then upd_rq c (\<lambda>rq. rq\<lparr>rq_nr_uninterruptible := rq_nr_uninterruptible rq - 1\<rparr>) s else s)"

definition deactivate_task :: "kenv \<Rightarrow> cpu_id \<Rightarrow> task_id \<Rightarrow> u32 \<Rightarrow> sys \<Rightarrow> sys" where
  "deactivate_task e c p flags s =
     dequeue_task e c p flags
       (if task_contributes_to_load (tasks s p)
        then upd_rq c (\<lambda>rq. rq\<lparr>rq_nr_uninterruptible := rq_nr_uninterruptible rq + 1\<rparr>) s else s)"

definition check_class_changed :: "kenv \<Rightarrow> cpu_id \<Rightarrow> task_id \<Rightarrow> sched_class \<Rightarrow> int \<Rightarrow> sys \<Rightarrow> sys" where
  "check_class_changed e c p prev_class oldprio s =
     (if prev_class \<noteq> p_sched_class (tasks s p) then
        let s1 = class_switched_from e prev_class c p s
        in class_switched_to e (p_sched_class (tasks s1 p)) c p s1
      else if oldprio \<noteq> p_prio (tasks s p) \<or> dl_prio (p_prio (tasks s p))
        then class_prio_changed e (p_sched_class (tasks s p)) c p oldprio s
      else s)"

text \<open>The scan for the better of two classes: it stops at whichever comes first.\<close>

fun class_outranks :: "sched_class list \<Rightarrow> sched_class \<Rightarrow> sched_class \<Rightarrow> bool" where
  "class_outranks [] k kcurr = False"
| "class_outranks (x # xs) k kcurr =
     (if x = kcurr then False else if x = k then True else class_outranks xs k kcurr)"

definition check_preempt_curr :: "kenv \<Rightarrow> cpu_id \<Rightarrow> task_id \<Rightarrow> u32 \<Rightarrow> sys \<Rightarrow> sys" where
  "check_preempt_curr e c p flags s =
     (let kcurr = p_sched_class (tasks s (rq_curr (rqs s c)));
          s1 = (if p_sched_class (tasks s p) = kcurr then class_check_preempt_curr e kcurr c p flags s
                else if class_outranks class_order (p_sched_class (tasks s p)) kcurr then resched_curr c s
                else s)
      in if task_on_rq_queued s1 (rq_curr (rqs s1 c)) \<and> p_need_resched (tasks s1 (rq_curr (rqs s1 c)))
         then rq_clock_skip_update c s1 else s1)"

section \<open>Moving tasks between CPUs\<close>

definition set_task_cpu_raw :: "task_id \<Rightarrow> cpu_id \<Rightarrow> sys \<Rightarrow> sys" where
  "set_task_cpu_raw p c = upd_task p (\<lambda>t. t\<lparr>p_cpu := c, p_wake_cpu := c\<rparr>)"

definition set_task_cpu :: "kenv \<Rightarrow> task_id \<Rightarrow> cpu_id \<Rightarrow> sys \<Rightarrow> sys" where
  "set_task_cpu e p new_cpu s =
     (let s1 = (if p_cpu (tasks s p) \<noteq> new_cpu
                then upd_task p (\<lambda>t. t\<lparr>p_se := (p_se t)\<lparr>se_nr_migrations := se_nr_migrations (p_se t) + 1\<rparr>\<rparr>)
                       (class_migrate_task_rq e (p_sched_class (tasks s p)) p new_cpu s)
                else s)
      in set_task_cpu_raw p new_cpu s1)"

definition is_per_cpu_kthread :: "task_struct \<Rightarrow> bool" where
  "is_per_cpu_kthread p \<longleftrightarrow>
     (if \<not> flag_set (p_flags p) PF_KTHREAD then False else if p_nr_cpus_allowed p \<noteq> 1 then False else True)"

definition is_cpu_allowed :: "sys \<Rightarrow> task_id \<Rightarrow> cpu_id \<Rightarrow> bool" where
  "is_cpu_allowed s p c \<longleftrightarrow>
     (if \<not> p_cpus_allowed (tasks s p) c then False
      else if is_per_cpu_kthread (tasks s p) then cpu_online_mask s c
      else cpu_active_mask s c)"

definition move_queued_task :: "kenv \<Rightarrow> cpu_id \<Rightarrow> task_id \<Rightarrow> cpu_id \<Rightarrow> sys \<Rightarrow> sys" where
  "move_queued_task e c p new_cpu s =
     (let s1 = upd_task p (\<lambda>t. t\<lparr>p_on_rq := TASK_ON_RQ_MIGRATING\<rparr>) s;
          s2 = set_task_cpu e p new_cpu (dequeue_task e c p DEQUEUE_NOCLOCK s1);
          s3 = (if p_cpu (tasks s2 p) \<noteq> new_cpu then raise_fault Bug_on s2 else s2);
          s4 = upd_task p (\<lambda>t. t\<lparr>p_on_rq := TASK_ON_RQ_QUEUED\<rparr>) (enqueue_task e new_cpu p 0 s3)
      in check_preempt_curr e new_cpu p 0 s4)"

definition migrate_task :: "kenv \<Rightarrow> cpu_id \<Rightarrow> task_id \<Rightarrow> cpu_id \<Rightarrow> sys \<Rightarrow> sys" where
  "migrate_task e c p dest_cpu s =
     (if \<not> is_cpu_allowed s p dest_cpu then s
      else move_queued_task e c p dest_cpu (update_rq_clock c s))"

definition set_cpus_allowed_common :: "task_id \<Rightarrow> cpumask \<Rightarrow> sys \<Rightarrow> sys" where
  "set_cpus_allowed_common p new_mask s =
     upd_task p (\<lambda>t. t\<lparr>p_cpus_allowed := new_mask, p_nr_cpus_allowed := cpumask_weight s new_mask\<rparr>) s"

definition class_set_cpus_allowed :: "kenv \<Rightarrow> sched_class \<Rightarrow> task_id \<Rightarrow> cpumask \<Rightarrow> sys \<Rightarrow> sys" where
  "class_set_cpus_allowed e k p m = (case k of
     Stop_class \<Rightarrow> op_set_cpus_allowed (e_stop e) p m | Dl_class \<Rightarrow> op_set_cpus_allowed (e_dl e) p m
   | Rt_class \<Rightarrow> set_cpus_allowed_common p m | Ts_class \<Rightarrow> set_cpus_allowed_common p m
   | Fair_class \<Rightarrow> op_set_cpus_allowed (e_fair e) p m | Idle_class \<Rightarrow> op_set_cpus_allowed (e_idle e) p m)"

definition do_set_cpus_allowed :: "kenv \<Rightarrow> task_id \<Rightarrow> cpumask \<Rightarrow> sys \<Rightarrow> sys" where
  "do_set_cpus_allowed e p new_mask s =
     (let c = p_cpu (tasks s p);
          queued = task_on_rq_queued s p;
          running = task_current s c p;
          s1 = (if queued then dequeue_task e c p (DEQUEUE_SAVE OR DEQUEUE_NOCLOCK) s else s);
          s2 = (if running then put_prev_task e c p s1 else s1);
          s3 = class_set_cpus_allowed e (p_sched_class (tasks s2 p)) p new_mask s2;
          s4 = (if queued then enqueue_task e c p (ENQUEUE_RESTORE OR ENQUEUE_NOCLOCK) s3 else s3)
      in if running then set_curr_task e c p s4 else s4)"

text \<open>
  \<open>migration_cpu_stop\<close> runs on the CPU of the stopper, here the one the task was on;
  \<open>sched_ttwu_pending\<close> is given as \<open>pending\<close>.
\<close>

definition migration_cpu_stop :: "kenv \<Rightarrow> (cpu_id \<Rightarrow> sys \<Rightarrow> sys) \<Rightarrow> cpu_id \<Rightarrow> task_id \<Rightarrow> cpu_id \<Rightarrow> sys \<Rightarrow> sys" where
  "migration_cpu_stop e pending c p dest_cpu s =
     (let s1 = pending c s
      in if p_cpu (tasks s1 p) = c then
           (if task_on_rq_queued s1 p then migrate_task e c p dest_cpu s1
            else upd_task p (\<lambda>t. t\<lparr>p_wake_cpu := dest_cpu\<rparr>) s1)
         else s1)"

definition set_cpus_allowed_ptr ::
  "kenv \<Rightarrow> (cpu_id \<Rightarrow> sys \<Rightarrow> sys) \<Rightarrow> task_id \<Rightarrow> cpumask \<Rightarrow> bool \<Rightarrow> sys \<Rightarrow> errno option \<times> sys" where
  "set_cpus_allowed_ptr e pending p new_mask check s =
     (let c = p_cpu (tasks s p);
          s0 = update_rq_clock c s;
          kthread = flag_set (p_flags (tasks s0 p)) PF_KTHREAD;
          cpu_valid_mask = (if kthread then cpu_online_mask s0 else cpu_active_mask s0)
      in if check \<and> flag_set (p_flags (tasks s0 p)) PF_NO_SETAFFINITY then (Some EINVAL, s0)
         else if cpumask_equal s0 (p_cpus_allowed (tasks s0 p)) new_mask then (None, s0)
         else
           let dest_cpu = cpumask_any_and s0 cpu_valid_mask new_mask
           in if dest_cpu \<ge> nr_cpu_ids s0 then (Some EINVAL, s0)
              else
                let s1 = do_set_cpus_allowed e p new_mask s0
                in if new_mask (p_cpu (tasks s1 p)) then (None, s1)
                   else if task_running s1 p \<or> p_state (tasks s1 p) = TASK_WAKING
                     then (None, migration_cpu_stop e pending c p dest_cpu s1)
                   else if task_on_rq_queued s1 p then (None, move_queued_task e c p dest_cpu s1)
                   else (None, s1))"

text \<open>Cross migration of two tasks (\<open>migrate_swap\<close>), for NUMA balancing.\<close>

definition migrate_swap_task :: "kenv \<Rightarrow> task_id \<Rightarrow> cpu_id \<Rightarrow> sys \<Rightarrow> sys" where
  "migrate_swap_task e p c s =
     (if task_on_rq_queued s p then
        let src = p_cpu (tasks s p);
            s1 = upd_task p (\<lambda>t. t\<lparr>p_on_rq := TASK_ON_RQ_MIGRATING\<rparr>) s;
            s2 = activate_task e c p 0 (set_task_cpu e p c (deactivate_task e src p 0 s1));
            s3 = upd_task p (\<lambda>t. t\<lparr>p_on_rq := TASK_ON_RQ_QUEUED\<rparr>) s2
        in check_preempt_curr e c p 0 s3
      else upd_task p (\<lambda>t. t\<lparr>p_wake_cpu := c\<rparr>) s)"

definition migrate_swap_stop :: "kenv \<Rightarrow> task_id \<Rightarrow> task_id \<Rightarrow> cpu_id \<Rightarrow> cpu_id \<Rightarrow> sys \<Rightarrow> errno option \<times> sys" where
  "migrate_swap_stop e src_task dst_task src_cpu dst_cpu s =
     (if \<not> cpu_active_mask s src_cpu \<or> \<not> cpu_active_mask s dst_cpu then (Some EAGAIN, s)
      else if p_cpu (tasks s dst_task) \<noteq> dst_cpu \<or> p_cpu (tasks s src_task) \<noteq> src_cpu \<or>
          \<not> p_cpus_allowed (tasks s src_task) dst_cpu \<or> \<not> p_cpus_allowed (tasks s dst_task) src_cpu
        then (Some EAGAIN, s)
      else (None, migrate_swap_task e dst_task src_cpu (migrate_swap_task e src_task dst_cpu s)))"

definition migrate_swap :: "kenv \<Rightarrow> task_id \<Rightarrow> task_id \<Rightarrow> cpu_id \<Rightarrow> cpu_id \<Rightarrow> sys \<Rightarrow> errno option \<times> sys" where
  "migrate_swap e cur p target_cpu curr_cpu s =
     (if curr_cpu = target_cpu then (Some EINVAL, s)
      else if \<not> cpu_active_mask s curr_cpu \<or> \<not> cpu_active_mask s target_cpu then (Some EINVAL, s)
      else if \<not> p_cpus_allowed (tasks s cur) target_cpu then (Some EINVAL, s)
      else if \<not> p_cpus_allowed (tasks s p) curr_cpu then (Some EINVAL, s)
      else migrate_swap_stop e cur p curr_cpu target_cpu s)"

end
