(* ===== verification/Sched_Balance.thy ===== *)
theory Sched_Balance
  imports Sched_Class
begin

text \<open>
  Pushing and pulling real-time tasks between CPUs (\<open>kernel/sched/rt.c\<close>): the search for the CPU of
  lowest priority, the push of the best waiting task, the pull into a CPU whose priority drops, the
  interrupt-driven variant of the pull with its loop over the overloaded CPUs, and the operations of
  the class that call them.
\<close>

section \<open>Searching a target CPU\<close>

definition rt_task :: "task_struct \<Rightarrow> bool" where
  "rt_task p \<longleftrightarrow> rt_prio (p_prio p)"

definition dl_task :: "task_struct \<Rightarrow> bool" where
  "dl_task p \<longleftrightarrow> dl_prio (p_prio p)"

definition pick_rt_task :: "sys \<Rightarrow> task_id \<Rightarrow> cpu_id \<Rightarrow> bool" where
  "pick_rt_task s p c \<longleftrightarrow> \<not> task_running s p \<and> p_cpus_allowed (tasks s p) c"

definition pick_highest_pushable_task :: "sys \<Rightarrow> cpu_id \<Rightarrow> cpu_id \<Rightarrow> task_id option" where
  "pick_highest_pushable_task s src c =
     (if \<not> has_pushable_tasks s src then None
      else map_option snd (find (\<lambda>n. pick_rt_task s (snd n) c) (pushable_tasks (rtq s src))))"

text \<open>The domain walk of \<open>find_lowest_rq\<close>: \<open>here\<close> is the calling CPU when it is in the mask.\<close>

fun lowest_in_domains :: "sys \<Rightarrow> cpumask \<Rightarrow> cpu_id option \<Rightarrow> (cpumask \<times> bool) list \<Rightarrow> cpu_id option" where
  "lowest_in_domains s m here [] = None"
| "lowest_in_domains s m here ((span, wake_affine) # sds) =
     (if \<not> wake_affine then lowest_in_domains s m here sds
      else if (case here of Some h \<Rightarrow> span h | None \<Rightarrow> False) then here
      else
        let best_cpu = cpumask_any_and s m span
        in if best_cpu < nr_cpu_ids s then Some best_cpu else lowest_in_domains s m here sds)"

definition find_lowest_rq :: "kenv \<Rightarrow> sys \<Rightarrow> task_id \<Rightarrow> cpu_id option" where
  "find_lowest_rq e s p =
     (if p_nr_cpus_allowed (tasks s p) = 1 then None
      else case e_cpupri_find e s p of
        None \<Rightarrow> None
      | Some m \<Rightarrow>
          let c = p_cpu (tasks s p);
              here = (if m (this_cpu s) then Some (this_cpu s) else None)
          in if m c then Some c
             else case lowest_in_domains s m here (e_domains e c) of
               Some d \<Rightarrow> Some d
             | None \<Rightarrow>
                 (case here of Some h \<Rightarrow> Some h
                  | None \<Rightarrow> let d = cpumask_first s m in if d < nr_cpu_ids s then Some d else None))"

definition RT_MAX_TRIES :: nat where "RT_MAX_TRIES = 3"

text \<open>The result is the CPU whose run queue is locked, \<open>None\<close> for NULL.\<close>

fun find_lock_tries :: "kenv \<Rightarrow> nat \<Rightarrow> task_id \<Rightarrow> cpu_id \<Rightarrow> sys \<Rightarrow> cpu_id option \<times> sys" where
  "find_lock_tries e 0 p c s = (None, s)"
| "find_lock_tries e (Suc n) p c s =
     (case find_lowest_rq e s p of
        None \<Rightarrow> (None, s)
      | Some lowest \<Rightarrow>
          if lowest = c then (None, s)
          else if highest_prio_curr (rtq s lowest) \<le> p_prio (tasks s p) then (None, s)
          else case e_double_lock e c lowest s of (dropped, s1) \<Rightarrow>
            if dropped \<and> (p_cpu (tasks s1 p) \<noteq> c \<or> \<not> p_cpus_allowed (tasks s1 p) lowest \<or>
                 task_running s1 p \<or> \<not> rt_task (tasks s1 p) \<or> \<not> task_on_rq_queued s1 p) then (None, s1)
            else if highest_prio_curr (rtq s1 lowest) > p_prio (tasks s1 p) then (Some lowest, s1)
            else find_lock_tries e n p c s1)"

definition find_lock_lowest_rq :: "kenv \<Rightarrow> task_id \<Rightarrow> cpu_id \<Rightarrow> sys \<Rightarrow> cpu_id option \<times> sys" where
  "find_lock_lowest_rq e = find_lock_tries e RT_MAX_TRIES"

section \<open>Push\<close>

definition pick_next_pushable_task :: "cpu_id \<Rightarrow> sys \<Rightarrow> task_id option \<times> sys" where
  "pick_next_pushable_task c s =
     (case pushable_tasks (rtq s c) of
        [] \<Rightarrow> (None, s)
      | n # _ \<Rightarrow>
          let p = snd n
          in if c \<noteq> p_cpu (tasks s p) \<or> task_current s c p \<or> p_nr_cpus_allowed (tasks s p) \<le> 1 \<or>
               \<not> task_on_rq_queued s p \<or> \<not> rt_task (tasks s p)
             then (Some p, raise_fault Bug_on s) else (Some p, s))"

text \<open>From the label \<open>retry\<close>; the answer is whether a task was moved.\<close>

fun push_rt_retry :: "kenv \<Rightarrow> nat \<Rightarrow> cpu_id \<Rightarrow> task_id \<Rightarrow> sys \<Rightarrow> bool \<times> sys" where
  "push_rt_retry e 0 c p s = (False, raise_fault No_progress s)"
| "push_rt_retry e (Suc n) c p s =
     (if p = rq_curr (rqs s c) then (False, s)
      else if p_prio (tasks s p) < p_prio (tasks s (rq_curr (rqs s c))) then (False, resched_curr c s)
      else case find_lock_lowest_rq e p c s of
        (None, s1) \<Rightarrow>
          (case pick_next_pushable_task c s1 of
             (None, s2) \<Rightarrow> (False, s2)
           | (Some t, s2) \<Rightarrow> if t = p then (False, s2) else push_rt_retry e n c t s2)
      | (Some lowest, s1) \<Rightarrow>
          let s2 = deactivate_task e c p 0 s1;
              s3 = set_task_cpu e p lowest s2;
              s4 = activate_task e lowest p 0 s3
          in (True, resched_curr lowest s4))"

definition push_rt_task :: "kenv \<Rightarrow> cpu_id \<Rightarrow> sys \<Rightarrow> bool \<times> sys" where
  "push_rt_task e c s =
     (if \<not> rt_is_overloaded (rtq s c) then (False, s)
      else case pick_next_pushable_task c s of
        (None, s1) \<Rightarrow> (False, s1)
      | (Some p, s1) \<Rightarrow> push_rt_retry e (e_fuel e) c p s1)"

fun push_rt_loop :: "kenv \<Rightarrow> nat \<Rightarrow> cpu_id \<Rightarrow> sys \<Rightarrow> sys" where
  "push_rt_loop e 0 c s = raise_fault No_progress s"
| "push_rt_loop e (Suc n) c s =
     (case push_rt_task e c s of (moved, s1) \<Rightarrow> if moved then push_rt_loop e n c s1 else s1)"

definition push_rt_tasks :: "kenv \<Rightarrow> cpu_id \<Rightarrow> sys \<Rightarrow> sys" where
  "push_rt_tasks e c s = push_rt_loop e (e_fuel e) c s"

section \<open>The interrupt-driven pull\<close>

definition cpumask_next :: "nat \<Rightarrow> int \<Rightarrow> cpumask \<Rightarrow> cpu_id" where
  "cpumask_next n k m = (case filter m [nat (k + 1)..<n] of [] \<Rightarrow> n | c # _ \<Rightarrow> c)"

text \<open>
  The loop ends: after one pass without a hit \<open>rto_loop\<close> has caught up with \<open>rto_loop_next\<close>.
\<close>

function rto_next_cpu :: "nat \<Rightarrow> root_domain \<Rightarrow> int \<times> root_domain" where
  "rto_next_cpu n rd =
     (let c = cpumask_next n (rto_cpu rd) (rto_mask rd);
          rd1 = rd\<lparr>rto_cpu := - 1\<rparr>
      in if c < n then (int c, rd\<lparr>rto_cpu := int c\<rparr>)
         else if rto_loop rd = rto_loop_next rd then (- 1, rd1)
         else rto_next_cpu n (rd1\<lparr>rto_loop := rto_loop_next rd\<rparr>))"
  by auto
termination
  by (relation "measure (\<lambda>(n, rd). if rto_loop rd = rto_loop_next rd then 0 else 1)") auto

declare rto_next_cpu.simps [simp del]

definition rto_start_trylock :: "root_domain \<Rightarrow> bool \<times> root_domain" where
  "rto_start_trylock rd = (\<not> rto_loop_start rd, rd\<lparr>rto_loop_start := True\<rparr>)"

definition rto_start_unlock :: "root_domain \<Rightarrow> root_domain" where
  "rto_start_unlock rd = rd\<lparr>rto_loop_start := False\<rparr>"

definition irq_work_queue_on :: "cpu_id \<Rightarrow> sys \<Rightarrow> sys" where
  "irq_work_queue_on c s = s\<lparr>irq_works := irq_works s @ [c]\<rparr>"

definition tell_cpu_to_push :: "cpu_id \<Rightarrow> sys \<Rightarrow> sys" where
  "tell_cpu_to_push c s =
     (let d = rq_rd (rqs s c);
          rd1 = (rds s d)\<lparr>rto_loop_next := rto_loop_next (rds s d) + 1\<rparr>
      in case rto_start_trylock rd1 of (ok, rd2) \<Rightarrow>
           if \<not> ok then upd_rd d (\<lambda>_. rd2) s
           else
             case (if rto_cpu rd2 < 0 then rto_next_cpu (nr_cpu_ids s) rd2 else (- 1, rd2)) of (target, rd3) \<Rightarrow>
               let s1 = upd_rd d (\<lambda>_. rto_start_unlock rd3) s
               in if target \<ge> 0 then irq_work_queue_on (nat target) s1 else s1)"

definition rto_push_irq_work_func :: "kenv \<Rightarrow> nat \<Rightarrow> sys \<Rightarrow> sys" where
  "rto_push_irq_work_func e d s =
     (let c = this_cpu s;
          s1 = (if has_pushable_tasks s c then push_rt_tasks e c s else s)
      in case rto_next_cpu (nr_cpu_ids s1) (rds s1 d) of (target, rd1) \<Rightarrow>
           let s2 = upd_rd d (\<lambda>_. rd1) s1
           in if target < 0 then s2 else irq_work_queue_on (nat target) s2)"

section \<open>Pull\<close>

text \<open>One overloaded CPU's turn: whether the current task is to be rescheduled, and the state.\<close>

definition pull_one :: "kenv \<Rightarrow> cpu_id \<Rightarrow> cpu_id \<Rightarrow> bool \<times> sys \<Rightarrow> bool \<times> sys" where
  "pull_one e c src st =
     (case st of (resched, s) \<Rightarrow>
        if src = c then (resched, s)
        else if highest_prio_next (rtq s src) \<ge> highest_prio_curr (rtq s c) then (resched, s)
        else
          let s1 = snd (e_double_lock e c src s)
          in case pick_highest_pushable_task s1 src c of
               None \<Rightarrow> (resched, s1)
             | Some p \<Rightarrow>
                 if \<not> p_prio (tasks s1 p) < highest_prio_curr (rtq s1 c) then (resched, s1)
                 else if p_prio (tasks s1 p) < p_prio (tasks s1 (rq_curr (rqs s1 src))) then (resched, s1)
                 else (True, activate_task e c p 0 (set_task_cpu e p c (deactivate_task e src p 0 s1))))"

definition pull_rt_task :: "kenv \<Rightarrow> cpu_id \<Rightarrow> sys \<Rightarrow> sys" where
  "pull_rt_task e c s =
     (let rd = rds s (rq_rd (rqs s c));
          rt_overload_count = rt_overloaded s c
      in if rt_overload_count = 0 then s
         else if rt_overload_count = 1 \<and> rto_mask rd c then s
         else if feat_rt_push_ipi s then tell_cpu_to_push c s
         else case fold (pull_one e c) (cpus_of s (rto_mask rd)) (False, s) of (resched, s1) \<Rightarrow>
                if resched then resched_curr c s1 else s1)"

section \<open>Class operations that balance\<close>

definition SD_BALANCE_FORK :: u32 where "SD_BALANCE_FORK = 0x08"
definition SD_BALANCE_WAKE :: u32 where "SD_BALANCE_WAKE = 0x10"

definition select_task_rq_rt :: "kenv \<Rightarrow> task_id \<Rightarrow> cpu_id \<Rightarrow> u32 \<Rightarrow> u32 \<Rightarrow> sys \<Rightarrow> cpu_id" where
  "select_task_rq_rt e p c sd_flag flags s =
     (if sd_flag \<noteq> SD_BALANCE_WAKE \<and> sd_flag \<noteq> SD_BALANCE_FORK then c
      else
        let t = tasks s (rq_curr (rqs s c))
        in if rt_task t \<and> (p_nr_cpus_allowed t < 2 \<or> p_prio t \<le> p_prio (tasks s p)) then
             (case find_lowest_rq e s p of
                None \<Rightarrow> c
              | Some target \<Rightarrow> if p_prio (tasks s p) < highest_prio_curr (rtq s target) then target else c)
           else c)"

definition task_woken_rt :: "kenv \<Rightarrow> cpu_id \<Rightarrow> task_id \<Rightarrow> sys \<Rightarrow> sys" where
  "task_woken_rt e c p s =
     (let t = tasks s (rq_curr (rqs s c))
      in if \<not> task_running s p \<and> \<not> p_need_resched t \<and> 1 < p_nr_cpus_allowed (tasks s p) \<and>
           (dl_task t \<or> rt_task t) \<and> (p_nr_cpus_allowed t < 2 \<or> p_prio t \<le> p_prio (tasks s p))
         then push_rt_tasks e c s else s)"

definition CPUPRI_INVALID :: int where "CPUPRI_INVALID = - 1"

definition rq_online_rt :: "bool \<Rightarrow> cpu_id \<Rightarrow> sys \<Rightarrow> sys" where
  "rq_online_rt scheduler_running c s =
     (let s1 = enable_runtime scheduler_running c (if rt_is_overloaded (rtq s c) then rt_set_overload c s else s)
      in cpupri_set c (highest_prio_curr (rtq s1 c)) s1)"

definition rq_offline_rt :: "bool \<Rightarrow> cpu_id \<Rightarrow> sys \<Rightarrow> sys" where
  "rq_offline_rt scheduler_running c s =
     cpupri_set c CPUPRI_INVALID
       (disable_runtime scheduler_running c (if rt_is_overloaded (rtq s c) then rt_clear_overload c s else s))"

definition pick_next_task_rt :: "kenv \<Rightarrow> cpu_id \<Rightarrow> task_id \<Rightarrow> sys \<Rightarrow> picked \<times> sys" where
  "pick_next_task_rt e c prev s =
     (let pull = need_pull_rt_task s c prev;
          s1 = (if pull then pull_rt_task e c s else s)
      in if pull \<and> ((case rq_stop (rqs s1 c) of Some t \<Rightarrow> task_on_rq_queued s1 t | None \<Rightarrow> False) \<or>
                    rq_dl_nr_running (rqs s1 c) \<noteq> 0)
         then (Retry_task, s1)
         else
           let s2 = (if p_sched_class (tasks s1 prev) = Rt_class then update_curr_rt c s1 else s1)
           in if \<not> rt_queued (rtq s2 c) then (No_task, s2)
              else case pick_next_task_rt_inner c (put_prev_task e c prev s2) of
                (None, s3) \<Rightarrow> (No_task, s3)
              | (Some p, s3) \<Rightarrow> (Picked p, rt_queue_push_tasks c (dequeue_pushable_task c p s3)))"

definition pick_next_task_ts :: "kenv \<Rightarrow> cpu_id \<Rightarrow> task_id \<Rightarrow> sys \<Rightarrow> picked \<times> sys" where
  "pick_next_task_ts e c prev s =
     (case ts_scan (ts_queues s c) MAX_TS_PRIO of
        None \<Rightarrow> (No_task, s)
      | Some p \<Rightarrow> (Picked p, put_prev_task e c prev s))"

definition class_task_woken :: "kenv \<Rightarrow> sched_class \<Rightarrow> cpu_id \<Rightarrow> task_id \<Rightarrow> sys \<Rightarrow> sys" where
  "class_task_woken e k c p = (case k of
     Rt_class \<Rightarrow> task_woken_rt e c p | Dl_class \<Rightarrow> op_task_woken (e_dl e) c p | _ \<Rightarrow> (\<lambda>s. s))"

definition class_select_task_rq :: "kenv \<Rightarrow> sched_class \<Rightarrow> task_id \<Rightarrow> cpu_id \<Rightarrow> u32 \<Rightarrow> u32 \<Rightarrow> sys \<Rightarrow> cpu_id" where
  "class_select_task_rq e k p c sd_flag flags s = (case k of
     Stop_class \<Rightarrow> op_select_task_rq (e_stop e) p c sd_flag flags s
   | Dl_class \<Rightarrow> op_select_task_rq (e_dl e) p c sd_flag flags s
   | Rt_class \<Rightarrow> select_task_rq_rt e p c sd_flag flags s
   | Ts_class \<Rightarrow> select_task_rq_ts p c sd_flag flags s
   | Fair_class \<Rightarrow> op_select_task_rq (e_fair e) p c sd_flag flags s
   | Idle_class \<Rightarrow> op_select_task_rq (e_idle e) p c sd_flag flags s)"

definition class_pick_next_task :: "kenv \<Rightarrow> sched_class \<Rightarrow> cpu_id \<Rightarrow> task_id \<Rightarrow> sys \<Rightarrow> picked \<times> sys" where
  "class_pick_next_task e k c prev = (case k of
     Stop_class \<Rightarrow> op_pick_next_task (e_stop e) c prev
   | Dl_class \<Rightarrow> op_pick_next_task (e_dl e) c prev
   | Rt_class \<Rightarrow> pick_next_task_rt e c prev
   | Ts_class \<Rightarrow> pick_next_task_ts e c prev
   | Fair_class \<Rightarrow> op_pick_next_task (e_fair e) c prev
   | Idle_class \<Rightarrow> op_pick_next_task (e_idle e) c prev)"

end
