(* ===== verification/Sched_Prio.thy ===== *)
theory Sched_Prio
  imports Sched_Class
begin

text \<open>
  Priorities and load weights of tasks (\<open>kernel/sched/core.c\<close>): the nice-to-weight tables, the
  normal and effective priority of a task, its load weight, and the bandwidth ratio.
\<close>

definition sched_prio_to_weight :: "int list" where
  "sched_prio_to_weight = [
     88761, 71755, 56483, 46273, 36291, 29154, 23254, 18705, 14949, 11916,
     9548, 7620, 6100, 4904, 3906, 3121, 2501, 1991, 1586, 1277,
     1024, 820, 655, 526, 423, 335, 272, 215, 172, 137,
     110, 87, 70, 56, 45, 36, 29, 23, 18, 15]"

definition sched_prio_to_wmult :: "u32 list" where
  "sched_prio_to_wmult = [
     48388, 59856, 76040, 92818, 118348, 147320, 184698, 229616, 287308, 360437,
     449829, 563644, 704093, 875809, 1099582, 1376151, 1717300, 2157191, 2708050, 3363326,
     4194304, 5237765, 6557202, 8165337, 10153587, 12820798, 15790321, 19976592, 24970740, 31350126,
     39045157, 49367440, 61356676, 76695844, 95443717, 119304647, 148102320, 186737708, 238609294, 286331153]"

definition WEIGHT_IDLEPRIO :: int where "WEIGHT_IDLEPRIO = 3"
definition WMULT_IDLEPRIO :: u32 where "WMULT_IDLEPRIO = 1431655765"

definition SCHED_FIXEDPOINT_SHIFT :: nat where "SCHED_FIXEDPOINT_SHIFT = 10"

definition scale_load :: "u64 \<Rightarrow> u64" where
  "scale_load w = push_bit SCHED_FIXEDPOINT_SHIFT w"

definition scale_load_down :: "u64 \<Rightarrow> u64" where
  "scale_load_down w = (if w \<noteq> 0 then max 2 (drop_bit SCHED_FIXEDPOINT_SHIFT w) else w)"

text \<open>An index outside the tables is a fault.\<close>

definition set_load_weight :: "kenv \<Rightarrow> task_id \<Rightarrow> bool \<Rightarrow> sys \<Rightarrow> sys" where
  "set_load_weight e p update_load s =
     (let prio = p_static_prio (tasks s p) - MAX_RT_PRIO;
          put = (\<lambda>w iw. upd_task p (\<lambda>t. t\<lparr>p_se := (p_se t)\<lparr>se_load := \<lparr>lw_weight = w, lw_inv_weight = iw\<rparr>\<rparr>\<rparr>) s)
      in if idle_policy (p_policy (tasks s p))
           then put (scale_load (word_of_int WEIGHT_IDLEPRIO)) WMULT_IDLEPRIO
         else if update_load \<and> p_sched_class (tasks s p) = Fair_class then e_reweight e p prio s
         else if 0 \<le> prio \<and> prio < 40
           then put (scale_load (word_of_int (sched_prio_to_weight ! nat prio))) (sched_prio_to_wmult ! nat prio)
         else raise_fault Index_out_of_range s)"

definition normal_prio_static :: "task_struct \<Rightarrow> int" where
  "normal_prio_static p = p_static_prio p"

definition normal_prio :: "task_struct \<Rightarrow> int" where
  "normal_prio p =
     (if task_has_dl_policy p then MAX_DL_PRIO - 1
      else if task_has_rt_policy p then MAX_RT_PRIO - 1 - sint (p_rt_priority p)
      else normal_prio_static p)"

definition effective_prio :: "task_id \<Rightarrow> sys \<Rightarrow> int \<times> sys" where
  "effective_prio p s =
     (let s1 = upd_task p (\<lambda>t. t\<lparr>p_normal_prio := normal_prio t\<rparr>) s
      in (if \<not> rt_prio (p_prio (tasks s1 p)) then p_normal_prio (tasks s1 p) else p_prio (tasks s1 p), s1))"

definition BW_SHIFT :: nat where "BW_SHIFT = 20"
definition BW_UNIT :: u64 where "BW_UNIT = push_bit BW_SHIFT 1"

definition to_ratio :: "u64 \<Rightarrow> u64 \<Rightarrow> u64" where
  "to_ratio period runtime =
     (if runtime = RUNTIME_INF then BW_UNIT
      else if period = 0 then 0
      else push_bit BW_SHIFT runtime div period)"

end
