(* ===== verification/Sched_Wakeup.thy ===== *)
theory Sched_Wakeup
  imports Sched_Balance Sched_Prio
begin

text \<open>
  Waking tasks (\<open>kernel/sched/core.c\<close>): choosing a CPU, the local and the remote wakeup with the
  per-CPU wake list, \<open>try_to_wake_up\<close>, wake queues, and the setup and first wakeup of a forked task.
\<close>

section \<open>Choosing a CPU\<close>

datatype fallback_state = Fb_cpuset | Fb_possible | Fb_fail

text \<open>
  The loop of \<open>select_fallback_rq\<close> widens the affinity at most twice, from the cpuset to the possible
  CPUs; with no usable CPU after that it is a BUG.
\<close>

function fallback_loop :: "kenv \<Rightarrow> fallback_state \<Rightarrow> task_id \<Rightarrow> sys \<Rightarrow> cpu_id \<times> sys" where
  "fallback_loop e Fb_fail p s =
     (case find (is_cpu_allowed s p) (cpus_of s (p_cpus_allowed (tasks s p))) of
        Some d \<Rightarrow> (d, s) | None \<Rightarrow> (nr_cpu_ids s, raise_fault Bug_on s))"
| "fallback_loop e Fb_possible p s =
     (case find (is_cpu_allowed s p) (cpus_of s (p_cpus_allowed (tasks s p))) of
        Some d \<Rightarrow> (d, s)
      | None \<Rightarrow> fallback_loop e Fb_fail p (do_set_cpus_allowed e p (cpu_possible_mask s) s))"
| "fallback_loop e Fb_cpuset p s =
     (case find (is_cpu_allowed s p) (cpus_of s (p_cpus_allowed (tasks s p))) of
        Some d \<Rightarrow> (d, s)
      | None \<Rightarrow> fallback_loop e Fb_possible p (e_cpuset_fallback e p s))"
  by pat_completeness auto
termination
  by (relation "measure (\<lambda>(e, st, p, s). case st of Fb_cpuset \<Rightarrow> 2 | Fb_possible \<Rightarrow> 1 | Fb_fail \<Rightarrow> 0)") auto

definition select_fallback_rq :: "kenv \<Rightarrow> cpu_id \<Rightarrow> task_id \<Rightarrow> sys \<Rightarrow> cpu_id \<times> sys" where
  "select_fallback_rq e c p s =
     (case (case e_node_mask e c of
              None \<Rightarrow> None
            | Some m \<Rightarrow> find (\<lambda>d. cpu_active_mask s d \<and> p_cpus_allowed (tasks s p) d) (cpus_of s m)) of
        Some d \<Rightarrow> (d, s)
      | None \<Rightarrow> fallback_loop e Fb_cpuset p s)"

definition select_task_rq :: "kenv \<Rightarrow> task_id \<Rightarrow> cpu_id \<Rightarrow> u32 \<Rightarrow> u32 \<Rightarrow> sys \<Rightarrow> cpu_id \<times> sys" where
  "select_task_rq e p c sd_flags wake_flags s =
     (let c1 = (if 1 < p_nr_cpus_allowed (tasks s p)
                then class_select_task_rq e (p_sched_class (tasks s p)) p c sd_flags wake_flags s
                else cpumask_first s (p_cpus_allowed (tasks s p)))
      in if \<not> is_cpu_allowed s p c1 then select_fallback_rq e (p_cpu (tasks s p)) p s else (c1, s))"

section \<open>Activation\<close>

definition update_avg :: "u64 \<Rightarrow> u64 \<Rightarrow> u64" where
  "update_avg avg sample = avg + signed_drop_bit 3 (sample - avg)"

definition ttwu_activate :: "kenv \<Rightarrow> cpu_id \<Rightarrow> task_id \<Rightarrow> u32 \<Rightarrow> sys \<Rightarrow> sys" where
  "ttwu_activate e c p en_flags s =
     (let s1 = upd_task p (\<lambda>t. t\<lparr>p_on_rq := TASK_ON_RQ_QUEUED\<rparr>) (activate_task e c p en_flags s)
      in if flag_set (p_flags (tasks s1 p)) PF_WQ_WORKER then e_wq_waking e p c s1 else s1)"

definition ttwu_do_wakeup :: "kenv \<Rightarrow> cpu_id \<Rightarrow> task_id \<Rightarrow> u32 \<Rightarrow> sys \<Rightarrow> sys" where
  "ttwu_do_wakeup e c p wake_flags s =
     (let s1 = upd_task p (\<lambda>t. t\<lparr>p_state := TASK_RUNNING\<rparr>) (check_preempt_curr e c p wake_flags s);
          s2 = class_task_woken e (p_sched_class (tasks s1 p)) c p s1
      in if rq_idle_stamp (rqs s2 c) \<noteq> 0 then
           upd_rq c (\<lambda>rq.
             let delta = rq_clock rq - rq_idle_stamp rq;
                 mx = 2 * rq_max_idle_balance_cost rq;
                 avg = update_avg (rq_avg_idle rq) delta
             in rq\<lparr>rq_avg_idle := (if avg > mx then mx else avg), rq_idle_stamp := 0\<rparr>) s2
         else s2)"

definition ttwu_do_activate :: "kenv \<Rightarrow> cpu_id \<Rightarrow> task_id \<Rightarrow> u32 \<Rightarrow> sys \<Rightarrow> sys" where
  "ttwu_do_activate e c p wake_flags s =
     (let s1 = (if p_sched_contributes_to_load (tasks s p)
                then upd_rq c (\<lambda>rq. rq\<lparr>rq_nr_uninterruptible := rq_nr_uninterruptible rq - 1\<rparr>) s else s);
          en_flags = (ENQUEUE_WAKEUP OR ENQUEUE_NOCLOCK) OR
                     (if flag_set wake_flags WF_MIGRATED then ENQUEUE_MIGRATED else 0)
      in ttwu_do_wakeup e c p wake_flags (ttwu_activate e c p en_flags s1))"

definition ttwu_remote :: "kenv \<Rightarrow> task_id \<Rightarrow> u32 \<Rightarrow> sys \<Rightarrow> bool \<times> sys" where
  "ttwu_remote e p wake_flags s =
     (let c = p_cpu (tasks s p)
      in if task_on_rq_queued s p then (True, ttwu_do_wakeup e c p wake_flags (update_rq_clock c s))
         else (False, s))"

definition sched_ttwu_pending :: "kenv \<Rightarrow> cpu_id \<Rightarrow> sys \<Rightarrow> sys" where
  "sched_ttwu_pending e c s =
     (let pending = rq_wake_list (rqs s c)
      in if pending = [] then s
         else fold (\<lambda>p s. ttwu_do_activate e c p (if p_sched_remote_wakeup (tasks s p) then WF_MIGRATED else 0) s)
                pending (update_rq_clock c (upd_rq c (\<lambda>rq. rq\<lparr>rq_wake_list := []\<rparr>) s)))"

text \<open>\<open>nohz_kick\<close> is the answer of \<open>got_nohz_idle_kick\<close>.\<close>

definition scheduler_ipi :: "kenv \<Rightarrow> (sys \<Rightarrow> bool) \<Rightarrow> sys \<Rightarrow> sys" where
  "scheduler_ipi e nohz_kick s =
     (let c = this_cpu s;
          s1 = (if p_need_resched (tasks s (rq_curr (rqs s c))) then set_preempt_need_resched s else s)
      in if rq_wake_list (rqs s1 c) = [] \<and> \<not> nohz_kick s1 then s1
         else
           let s2 = sched_ttwu_pending e c s1
           in if nohz_kick s2 then upd_rq c (\<lambda>rq. rq\<lparr>rq_idle_balance := True\<rparr>) s2 else s2)"

definition ttwu_queue_remote :: "task_id \<Rightarrow> cpu_id \<Rightarrow> u32 \<Rightarrow> sys \<Rightarrow> sys" where
  "ttwu_queue_remote p c wake_flags s =
     (let s1 = upd_task p (\<lambda>t. t\<lparr>p_sched_remote_wakeup := flag_set wake_flags WF_MIGRATED\<rparr>) s;
          was_empty = (rq_wake_list (rqs s1 c) = []);
          s2 = upd_rq c (\<lambda>rq. rq\<lparr>rq_wake_list := p # rq_wake_list rq\<rparr>) s1
      in if was_empty then
           (case set_nr_if_polling (rq_idle (rqs s2 c)) s2 of (polling, s3) \<Rightarrow>
              if \<not> polling then smp_send_reschedule c s3 else s3)
         else s2)"

definition cpus_share_cache :: "kenv \<Rightarrow> cpu_id \<Rightarrow> cpu_id \<Rightarrow> bool" where
  "cpus_share_cache e a b \<longleftrightarrow> e_llc_id e a = e_llc_id e b"

definition ttwu_queue :: "kenv \<Rightarrow> task_id \<Rightarrow> cpu_id \<Rightarrow> u32 \<Rightarrow> sys \<Rightarrow> sys" where
  "ttwu_queue e p c wake_flags s =
     (if feat_ttwu_queue s \<and> \<not> cpus_share_cache e (this_cpu s) c then ttwu_queue_remote p c wake_flags s
      else ttwu_do_activate e c p wake_flags (update_rq_clock c s))"

section \<open>Wakeup\<close>

definition dec_nr_iowait :: "cpu_id \<Rightarrow> sys \<Rightarrow> sys" where
  "dec_nr_iowait c = upd_rq c (\<lambda>rq. rq\<lparr>rq_nr_iowait := rq_nr_iowait rq - 1\<rparr>)"

definition try_to_wake_up :: "kenv \<Rightarrow> task_id \<Rightarrow> u64 \<Rightarrow> u32 \<Rightarrow> sys \<Rightarrow> bool \<times> sys" where
  "try_to_wake_up e p state wake_flags s =
     (if \<not> flag_set (p_state (tasks s p)) state then (False, s)
      else
        let (remote, s1) = (if p_on_rq (tasks s p) \<noteq> 0 then ttwu_remote e p wake_flags s else (False, s))
        in if remote then (True, s1)
           else
             let s2 = (if p_on_cpu (tasks s1 p) then e_wait_off_cpu e p s1 else s1);
                 s3 = upd_task p (\<lambda>t. t\<lparr>p_sched_contributes_to_load := task_contributes_to_load t,
                                        p_state := TASK_WAKING\<rparr>) s2;
                 s4 = (if p_in_iowait (tasks s3 p) then dec_nr_iowait (p_cpu (tasks s3 p)) s3 else s3);
                 (c, s5) = select_task_rq e p (p_wake_cpu (tasks s4 p)) SD_BALANCE_WAKE wake_flags s4;
                 migrate = (p_cpu (tasks s5 p) \<noteq> c);
                 wf = (if migrate then wake_flags OR WF_MIGRATED else wake_flags);
                 s6 = (if migrate then set_task_cpu e p c s5 else s5)
             in (True, ttwu_queue e p c wf s6))"

definition try_to_wake_up_local :: "kenv \<Rightarrow> task_id \<Rightarrow> sys \<Rightarrow> sys" where
  "try_to_wake_up_local e p s =
     (let c = p_cpu (tasks s p)
      in if c \<noteq> this_cpu s \<or> p = rq_curr (rqs s (this_cpu s)) then s
         else if \<not> flag_set (p_state (tasks s p)) TASK_NORMAL then s
         else
           let s1 = (if \<not> task_on_rq_queued s p
                     then ttwu_activate e c p (ENQUEUE_WAKEUP OR ENQUEUE_NOCLOCK)
                            (if p_in_iowait (tasks s p) then dec_nr_iowait c s else s)
                     else s)
           in ttwu_do_wakeup e c p 0 s1)"

definition wake_up_process :: "kenv \<Rightarrow> task_id \<Rightarrow> sys \<Rightarrow> bool \<times> sys" where
  "wake_up_process e p s = try_to_wake_up e p TASK_NORMAL 0 s"

definition wake_up_state :: "kenv \<Rightarrow> task_id \<Rightarrow> u64 \<Rightarrow> sys \<Rightarrow> bool \<times> sys" where
  "wake_up_state e p state s = try_to_wake_up e p state 0 s"

text \<open>
  A wake queue is the list of its tasks in order; \<open>p_wake_q\<close> says that a task's node is in use.
\<close>

definition wake_q_add :: "task_id \<Rightarrow> task_id list \<times> sys \<Rightarrow> task_id list \<times> sys" where
  "wake_q_add p qs = (case qs of (q, s) \<Rightarrow>
     if p_wake_q (tasks s p) then (q, s)
     else (q @ [p], upd_task p (\<lambda>t. t\<lparr>p_wake_q := True\<rparr>) s))"

definition wake_up_q :: "kenv \<Rightarrow> task_id list \<Rightarrow> sys \<Rightarrow> sys" where
  "wake_up_q e q s =
     fold (\<lambda>p s. snd (wake_up_process e p (upd_task p (\<lambda>t. t\<lparr>p_wake_q := False\<rparr>) s))) q s"

section \<open>Fork\<close>

definition sched_fork_init :: "task_id \<Rightarrow> sys \<Rightarrow> sys" where
  "sched_fork_init p s = upd_task p (\<lambda>t. t\<lparr>
     p_on_rq := 0,
     p_se := (p_se t)\<lparr>se_on_rq := False, se_exec_start := 0, se_sum_exec_runtime := 0,
                      se_prev_sum_exec_runtime := 0, se_nr_migrations := 0, se_vruntime := 0\<rparr>,
     p_ts := \<lparr>ts_list = Self_linked, ts_time_slice = 12\<rparr>,
     p_rt := (p_rt t)\<lparr>rte_timeout := 0, rte_time_slice := sched_rr_timeslice s, rte_on_rq := False,
                      rte_on_list := False\<rparr>\<rparr>) s"

text \<open>The block that reverts to the default policy and priority when that was asked for.\<close>

definition fork_reset :: "kenv \<Rightarrow> task_id \<Rightarrow> sys \<Rightarrow> sys" where
  "fork_reset e p s =
     (let s1 = upd_task p (\<lambda>t.
            if task_has_dl_policy t \<or> task_has_rt_policy t
            then t\<lparr>p_policy := SCHED_NORMAL, p_static_prio := NICE_TO_PRIO 0, p_rt_priority := 0\<rparr>
            else if PRIO_TO_NICE (p_static_prio t) < 0 then t\<lparr>p_static_prio := NICE_TO_PRIO 0\<rparr>
            else t) s;
          s2 = upd_task p (\<lambda>t. t\<lparr>p_prio := normal_prio_static t, p_normal_prio := normal_prio_static t\<rparr>) s1
      in upd_task p (\<lambda>t. t\<lparr>p_sched_reset_on_fork := False\<rparr>) (set_load_weight e p False s2))"

definition sched_fork :: "kenv \<Rightarrow> task_id \<Rightarrow> sys \<Rightarrow> errno option \<times> sys" where
  "sched_fork e p s =
     (let curr_normal = p_normal_prio (tasks s (rq_curr (rqs s (this_cpu s))));
          s1 = upd_task p (\<lambda>t. t\<lparr>p_state := TASK_NEW, p_prio := curr_normal\<rparr>) (sched_fork_init p s);
          s2 = (if p_sched_reset_on_fork (tasks s1 p) then fork_reset e p s1 else s1)
      in if dl_prio (p_prio (tasks s2 p)) then (Some EAGAIN, s2)
         else
           let k = (if rt_prio (p_prio (tasks s2 p)) then Rt_class
                    else if ts_policy (p_policy (tasks s2 p)) then Ts_class else Fair_class);
               s3 = upd_task p (\<lambda>t. t\<lparr>p_sched_class := k\<rparr>) s2;
               s4 = class_task_fork e k p (set_task_cpu_raw p (this_cpu s3) s3)
           in (None, upd_task p (\<lambda>t. t\<lparr>p_on_cpu := False\<rparr>) s4))"

definition wake_up_new_task :: "kenv \<Rightarrow> task_id \<Rightarrow> sys \<Rightarrow> sys" where
  "wake_up_new_task e p s =
     (let s1 = upd_task p (\<lambda>t. t\<lparr>p_state := TASK_RUNNING, p_recent_used_cpu := p_cpu t\<rparr>) s;
          (c, s2) = select_task_rq e p (p_cpu (tasks s1 p)) SD_BALANCE_FORK 0 s1;
          s3 = update_rq_clock c (set_task_cpu_raw p c s2);
          s4 = upd_task p (\<lambda>t. t\<lparr>p_on_rq := TASK_ON_RQ_QUEUED\<rparr>) (activate_task e c p ENQUEUE_NOCLOCK s3);
          s5 = check_preempt_curr e c p WF_FORK s4
      in class_task_woken e (p_sched_class (tasks s5 p)) c p s5)"

end
