(* ===== verification/Sched_Core.thy ===== *)
theory Sched_Core
  imports Sched_Wakeup
begin

text \<open>
  The scheduler's main path (\<open>kernel/sched/core.c\<close>): choosing the next task over the classes,
  the context switch with its lazily borrowed address spaces, \<open>__schedule\<close>, the balance callbacks,
  the periodic tick and \<open>sched_yield\<close>.
\<close>

section \<open>Choosing the next task\<close>

text \<open>One walk over the classes; a walk off the end is \<open>BUG()\<close>.\<close>

fun pick_walk :: "kenv \<Rightarrow> sched_class list \<Rightarrow> cpu_id \<Rightarrow> task_id \<Rightarrow> sys \<Rightarrow> picked \<times> sys" where
  "pick_walk e [] c prev s = (No_task, raise_fault Bug_on s)"
| "pick_walk e (k # ks) c prev s =
     (case class_pick_next_task e k c prev s of
        (No_task, s1) \<Rightarrow> pick_walk e ks c prev s1
      | r \<Rightarrow> r)"

fun pick_again :: "kenv \<Rightarrow> nat \<Rightarrow> cpu_id \<Rightarrow> task_id \<Rightarrow> sys \<Rightarrow> task_id option \<times> sys" where
  "pick_again e 0 c prev s = (None, raise_fault No_progress s)"
| "pick_again e (Suc n) c prev s =
     (case pick_walk e class_order c prev s of
        (Retry_task, s1) \<Rightarrow> pick_again e n c prev s1
      | (Picked p, s1) \<Rightarrow> (Some p, s1)
      | (No_task, s1) \<Rightarrow> (None, s1))"

definition fair_fast_path :: "sys \<Rightarrow> cpu_id \<Rightarrow> task_id \<Rightarrow> bool" where
  "fair_fast_path s c prev \<longleftrightarrow>
     (p_sched_class (tasks s prev) = Idle_class \<or> p_sched_class (tasks s prev) = Fair_class) \<and>
     rq_nr_running (rqs s c) = rq_cfs_h_nr_running (rqs s c)"

definition pick_next_task :: "kenv \<Rightarrow> cpu_id \<Rightarrow> task_id \<Rightarrow> sys \<Rightarrow> task_id option \<times> sys" where
  "pick_next_task e c prev s =
     (if fair_fast_path s c prev then
        (case op_pick_next_task (e_fair e) c prev s of
           (Retry_task, s1) \<Rightarrow> pick_again e (e_fuel e) c prev s1
         | (Picked p, s1) \<Rightarrow> (Some p, s1)
         | (No_task, s1) \<Rightarrow>
             (case op_pick_next_task (e_idle e) c prev s1 of
                (Picked p, s2) \<Rightarrow> (Some p, s2)
              | (_, s2) \<Rightarrow> (None, raise_fault Bug_on s2)))
      else pick_again e (e_fuel e) c prev s)"

section \<open>Context switch\<close>

definition prepare_task :: "task_id \<Rightarrow> sys \<Rightarrow> sys" where
  "prepare_task p = upd_task p (\<lambda>t. t\<lparr>p_on_cpu := True\<rparr>)"

definition finish_task :: "task_id \<Rightarrow> sys \<Rightarrow> sys" where
  "finish_task p = upd_task p (\<lambda>t. t\<lparr>p_on_cpu := False\<rparr>)"

definition mmgrab :: "nat option \<Rightarrow> sys \<Rightarrow> sys" where
  "mmgrab m s = (case m of None \<Rightarrow> s | Some x \<Rightarrow> s\<lparr>mm_count := (mm_count s)(x := mm_count s x + 1)\<rparr>)"

definition mmdrop :: "nat option \<Rightarrow> sys \<Rightarrow> sys" where
  "mmdrop m s = (case m of None \<Rightarrow> s | Some x \<Rightarrow> s\<lparr>mm_count := (mm_count s)(x := mm_count s x - 1)\<rparr>)"

definition finish_task_switch :: "kenv \<Rightarrow> cpu_id \<Rightarrow> task_id \<Rightarrow> sys \<Rightarrow> sys" where
  "finish_task_switch e c prev s =
     (let mm = rq_prev_mm (rqs s c);
          prev_state = p_state (tasks s prev);
          s1 = mmdrop mm (finish_task prev (upd_rq c (\<lambda>rq. rq\<lparr>rq_prev_mm := None\<rparr>) s))
      in if prev_state = TASK_DEAD then class_task_dead e (p_sched_class (tasks s1 prev)) prev s1 else s1)"

definition clear_clock_skip :: "cpu_id \<Rightarrow> sys \<Rightarrow> sys" where
  "clear_clock_skip c = upd_rq c (\<lambda>rq. rq\<lparr>rq_clock_update_flags :=
     rq_clock_update_flags rq AND NOT (RQCF_ACT_SKIP OR RQCF_REQ_SKIP)\<rparr>)"

definition context_switch :: "kenv \<Rightarrow> cpu_id \<Rightarrow> task_id \<Rightarrow> task_id \<Rightarrow> sys \<Rightarrow> sys" where
  "context_switch e c prev next s =
     (let s1 = prepare_task next s;
          mm = p_mm (tasks s1 next);
          oldmm = p_active_mm (tasks s1 prev);
          s2 = (if mm = None then mmgrab oldmm (upd_task next (\<lambda>t. t\<lparr>p_active_mm := oldmm\<rparr>) s1) else s1);
          s3 = (if p_mm (tasks s2 prev) = None
                then upd_rq c (\<lambda>rq. rq\<lparr>rq_prev_mm := oldmm\<rparr>) (upd_task prev (\<lambda>t. t\<lparr>p_active_mm := None\<rparr>) s2)
                else s2)
      in finish_task_switch e c prev (clear_clock_skip c s3))"

section \<open>Balance callbacks\<close>

definition run_balance_fn :: "kenv \<Rightarrow> cpu_id \<Rightarrow> balance_fn \<Rightarrow> sys \<Rightarrow> sys" where
  "run_balance_fn e c f = (case f of Push_rt_tasks \<Rightarrow> push_rt_tasks e c | Pull_rt_task \<Rightarrow> pull_rt_task e c)"

definition balance_callback :: "kenv \<Rightarrow> cpu_id \<Rightarrow> sys \<Rightarrow> sys" where
  "balance_callback e c s =
     (let fs = rq_balance_callback (rqs s c)
      in if fs = [] then s
         else fold (run_balance_fn e c) fs (upd_rq c (\<lambda>rq. rq\<lparr>rq_balance_callback := []\<rparr>) s))"

definition schedule_tail :: "kenv \<Rightarrow> task_id \<Rightarrow> sys \<Rightarrow> sys" where
  "schedule_tail e prev s = (let c = this_cpu s in balance_callback e c (finish_task_switch e c prev s))"

section \<open>The main function\<close>

definition clear_need_resched :: "task_id \<Rightarrow> sys \<Rightarrow> sys" where
  "clear_need_resched p s =
     (upd_task p (\<lambda>t. t\<lparr>p_need_resched := False\<rparr>) s)\<lparr>preempt_need := (preempt_need s)(this_cpu s := False)\<rparr>"

text \<open>The block at the top of \<open>__schedule\<close> that takes a task that wants to sleep off its queue.\<close>

definition deschedule_prev :: "kenv \<Rightarrow> cpu_id \<Rightarrow> task_id \<Rightarrow> sys \<Rightarrow> sys" where
  "deschedule_prev e c prev s =
     (if e_signal_pending e s prev then upd_task prev (\<lambda>t. t\<lparr>p_state := TASK_RUNNING\<rparr>) s
      else
        let s1 = upd_task prev (\<lambda>t. t\<lparr>p_on_rq := 0\<rparr>)
                   (deactivate_task e c prev (DEQUEUE_SLEEP OR DEQUEUE_NOCLOCK) s);
            s2 = (if p_in_iowait (tasks s1 prev) then upd_rq c (\<lambda>rq. rq\<lparr>rq_nr_iowait := rq_nr_iowait rq + 1\<rparr>) s1
                  else s1)
        in if flag_set (p_flags (tasks s2 prev)) PF_WQ_WORKER then
             (case e_wq_sleeping e s2 prev of None \<Rightarrow> s2 | Some w \<Rightarrow> try_to_wake_up_local e w s2)
           else s2)"

definition schedule_once :: "kenv \<Rightarrow> bool \<Rightarrow> sys \<Rightarrow> sys" where
  "schedule_once e preempt s =
     (let c = this_cpu s;
          prev = rq_curr (rqs s c);
          s1 = update_rq_clock c (upd_rq c (\<lambda>rq. rq\<lparr>rq_clock_update_flags := push_bit 1 (rq_clock_update_flags rq)\<rparr>) s);
          sleeping = (\<not> preempt \<and> p_state (tasks s1 prev) \<noteq> 0);
          s2 = (if sleeping then deschedule_prev e c prev s1 else s1)
      in case pick_next_task e c prev s2 of
           (None, s3) \<Rightarrow> s3
         | (Some next, s3) \<Rightarrow>
             let s4 = clear_need_resched prev s3
             in if prev \<noteq> next then
                  let s5 = upd_rq c (\<lambda>rq. rq\<lparr>rq_nr_switches := rq_nr_switches rq + 1, rq_curr := next\<rparr>) s4;
                      s6 = upd_task prev (\<lambda>t. if sleeping then t\<lparr>p_nvcsw := p_nvcsw t + 1\<rparr>
                                              else t\<lparr>p_nivcsw := p_nivcsw t + 1\<rparr>) s5
                  in balance_callback e c (context_switch e c prev next s6)
                else balance_callback e c (clear_clock_skip c s4))"

fun schedule_loop :: "kenv \<Rightarrow> nat \<Rightarrow> sys \<Rightarrow> sys" where
  "schedule_loop e 0 s = raise_fault No_progress s"
| "schedule_loop e (Suc n) s =
     (let s1 = schedule_once e False s
      in if p_need_resched (tasks s1 (rq_curr (rqs s1 (this_cpu s1)))) then schedule_loop e n s1 else s1)"

definition schedule :: "kenv \<Rightarrow> sys \<Rightarrow> sys" where
  "schedule e s = schedule_loop e (e_fuel e) s"

section \<open>Tick, yield and run-time queries\<close>

definition scheduler_tick :: "kenv \<Rightarrow> sys \<Rightarrow> sys" where
  "scheduler_tick e s =
     (let c = this_cpu s;
          p = rq_curr (rqs s c);
          s1 = update_rq_clock c s;
          s2 = class_task_tick e (p_sched_class (tasks s1 p)) c p False s1
      in e_load_balance e c (upd_rq c (\<lambda>rq. rq\<lparr>rq_idle_balance := idle_cpu s2 c\<rparr>) s2))"

definition do_sched_yield :: "kenv \<Rightarrow> sys \<Rightarrow> sys" where
  "do_sched_yield e s =
     (let c = this_cpu s
      in schedule e (class_yield_task e (p_sched_class (tasks s (rq_curr (rqs s c)))) c s))"

definition task_sched_runtime :: "kenv \<Rightarrow> task_id \<Rightarrow> sys \<Rightarrow> u64 \<times> sys" where
  "task_sched_runtime e p s =
     (if \<not> p_on_cpu (tasks s p) \<or> \<not> task_on_rq_queued s p then (se_sum_exec_runtime (p_se (tasks s p)), s)
      else
        let c = p_cpu (tasks s p);
            s1 = (if task_current s c p \<and> task_on_rq_queued s p
                  then class_update_curr e (p_sched_class (tasks s p)) c (update_rq_clock c s) else s)
        in (se_sum_exec_runtime (p_se (tasks s1 p)), s1))"

definition nr_running :: "sys \<Rightarrow> u64" where
  "nr_running s = sum_list (map (\<lambda>i. ucast (rq_nr_running (rqs s i))) (cpus_of s (cpu_online_mask s)))"

definition nr_context_switches :: "sys \<Rightarrow> u64" where
  "nr_context_switches s = sum_list (map (\<lambda>i. rq_nr_switches (rqs s i)) (cpus_of s (cpu_possible_mask s)))"

definition nr_iowait :: "sys \<Rightarrow> u64" where
  "nr_iowait s = sum_list (map (\<lambda>i. word_of_int (sint (rq_nr_iowait (rqs s i)))) (cpus_of s (cpu_possible_mask s)))"

definition single_task_running :: "sys \<Rightarrow> bool" where
  "single_task_running s \<longleftrightarrow> rq_nr_running (rqs s (this_cpu s)) = 1"

end
