(* ===== verification/Sched_Rt_Queue.thy ===== *)
theory Sched_Rt_Queue
  imports Sched_Rt "HOL-Library.Multiset"
begin

text \<open>
  What the real-time class promises about its queues: the priority array is a level queue whose
  bitmap answers the search for the best level, enqueueing and dequeueing keep the array, the
  counters and the highest-priority cache in agreement with the tasks, and the run queue's own count
  of runnable tasks is moved by exactly the runnable real-time tasks.
\<close>

section \<open>The array as a level queue\<close>

definition rt_array_ok :: "rt_prio_array \<Rightarrow> bool" where
  "rt_array_ok a \<longleftrightarrow> length (queue a) = 100 \<and> bitmap a = map (\<lambda>l. l \<noteq> []) (queue a) @ [True] \<and>
     distinct (concat (queue a))"

definition array_first :: "rt_prio_array \<Rightarrow> task_id option" where
  "array_first a =
     (let idx = sched_find_first_bit (bitmap a)
      in if int idx \<ge> MAX_RT_PRIO then None
         else case queue a ! idx of [] \<Rightarrow> None | p # _ \<Rightarrow> Some p)"

lemma pick_next_rt_entity_array: "pick_next_rt_entity s c = array_first (active (rtq s c))"
  by (simp add: pick_next_rt_entity_def array_first_def)

lemma find_index_map: "find_index P (map f xs) = find_index (P \<circ> f) xs"
  by (induction xs) auto

lemma find_index_append:
  "find_index P (xs @ ys) = (case find_index P xs of Some i \<Rightarrow> Some i
     | None \<Rightarrow> map_option (\<lambda>i. i + length xs) (find_index P ys))"
  by (induction xs) (auto simp: option.map_comp comp_def option.map_ident split: option.splits)

lemma find_first_bit_levels:
  assumes "rt_array_ok a"
  shows "sched_find_first_bit (bitmap a) =
     (case find_index (\<lambda>l. l \<noteq> []) (queue a) of Some i \<Rightarrow> i | None \<Rightarrow> 100)"
  using assms by (auto simp: rt_array_ok_def sched_find_first_bit_def find_index_append
      find_index_map comp_def split: option.splits)

lemma array_first_levels:
  assumes "rt_array_ok a"
  shows "array_first a = map_option (\<lambda>i. hd (queue a ! i)) (find_index (\<lambda>l. l \<noteq> []) (queue a))"
proof (cases "find_index (\<lambda>l. l \<noteq> []) (queue a)")
  case None
  then show ?thesis by (simp add: array_first_def find_first_bit_levels[OF assms] MAX_RT_PRIO_def)
next
  case (Some i)
  then have "i < 100" "queue a ! i \<noteq> []" using assms by (auto simp: find_index_Some rt_array_ok_def)
  then show ?thesis
    by (simp add: array_first_def find_first_bit_levels[OF assms] Some MAX_RT_PRIO_def split: list.splits)
qed

lemma list_update_map_ne:
  "i < length qs \<Longrightarrow> (map f qs @ zs)[i := f y] = map f (qs[i := y]) @ zs"
  by (simp add: list_update_append map_update)

lemma array_add_ok:
  assumes "rt_array_ok a" "i < 100" "p \<notin> set (concat (queue a))"
  shows "queue (array_add p i h a) = (queue a)[i := if h then p # queue a ! i else queue a ! i @ [p]]"
    and "rt_array_ok (array_add p i h a)"
proof -
  let ?y = "if h then p # queue a ! i else queue a ! i @ [p]"
  show q: "queue (array_add p i h a) = (queue a)[i := ?y]" by (simp add: array_add_def)
  have len: "i < length (queue a)" using assms by (simp add: rt_array_ok_def)
  have b: "bitmap (array_add p i h a) = map (\<lambda>l. l \<noteq> []) ((queue a)[i := ?y]) @ [True]"
    using assms list_update_map_ne[OF len, of "\<lambda>l. l \<noteq> []" "[True]" ?y]
    by (cases h) (simp_all add: array_add_def rt_array_ok_def)
  have "mset (concat ((queue a)[i := p # queue a ! i])) = mset (concat ((queue a)[i := queue a ! i @ [p]]))"
    by (simp add: mset_concat map_update)
  then have "distinct (concat ((queue a)[i := ?y]))"
    using distinct_concat_append[OF len, of p] assms mset_eq_imp_distinct_iff
    by (auto simp: rt_array_ok_def simp del: set_concat)
  with b q assms show "rt_array_ok (array_add p i h a)" by (simp add: rt_array_ok_def)
qed

lemma array_delist_ok:
  assumes "rt_array_ok a" "i < 100" "p \<in> set (queue a ! i)"
  shows "queue (array_delist p i a) = (queue a)[i := removeAll p (queue a ! i)]"
    and "rt_array_ok (array_delist p i a)"
proof -
  have len: "i < length (queue a)" using assms by (simp add: rt_array_ok_def)
  have m: "map (removeAll p) (queue a) = (queue a)[i := removeAll p (queue a ! i)]"
    using assms by (intro map_removeAll_update) (auto simp: rt_array_ok_def)
  then show q: "queue (array_delist p i a) = (queue a)[i := removeAll p (queue a ! i)]"
    by (simp add: array_delist_def Let_def)
  have ne: "queue a ! i \<noteq> []" using assms(3) by auto
  have "bitmap (array_delist p i a) =
      map (\<lambda>l. l \<noteq> []) ((queue a)[i := removeAll p (queue a ! i)]) @ [True]"
    using assms len ne
    by (simp add: array_delist_def Let_def m rt_array_ok_def map_update list_update_append)
      (metis (mono_tags, lifting) len length_map list_update_id map_update nth_map)
  then show "rt_array_ok (array_delist p i a)"
    using assms q distinct_concat_remove[of "queue a" i p] by (simp add: rt_array_ok_def)
qed

interpretation rta: level_queue queue 100 "\<lambda>p i. array_add p i False" array_delist array_first rt_array_ok
proof
  fix q :: rt_prio_array and i :: nat and x :: task_id
  assume ok: "rt_array_ok q"
  then show "length (queue q) = 100" "distinct (concat (queue q))"
    and "array_first q = map_option (\<lambda>i. hd (queue q ! i)) (find_index (\<lambda>l. l \<noteq> []) (queue q))"
    by (simp_all add: rt_array_ok_def array_first_levels)
  assume i: "i < 100"
  { assume "x \<notin> set (concat (queue q))"
    then show "queue (array_add x i False q) = (queue q)[i := queue q ! i @ [x]]"
      and "rt_array_ok (array_add x i False q)"
      using array_add_ok[OF ok i, of x False] by simp_all }
  { assume "x \<in> set (queue q ! i)"
    then show "queue (array_delist x i q) = (queue q)[i := removeAll x (queue q ! i)]"
      and "rt_array_ok (array_delist x i q)"
      using array_delist_ok[OF ok i, of x] by simp_all }
qed

section \<open>Effect of the helpers on the run queues\<close>

lemma rqs_upd_rt [simp]:
  "rqs (upd_rt c f s) = (rqs s)(c := (rqs s c)\<lparr>rq_rt := f (rtq s c)\<rparr>)"
  by (simp add: upd_rt_def)

lemma upd_rt_frame [simp, frame_simps]:
  "tasks (upd_rt c f s) = tasks s" "rds (upd_rt c f s) = rds s" "fault (upd_rt c f s) = fault s"
  "this_cpu (upd_rt c f s) = this_cpu s"
  by (simp_all add: upd_rt_def)

lemma upd_rte_frame [simp, frame_simps]:
  "rqs (upd_rte p f s) = rqs s" "rds (upd_rte p f s) = rds s" "fault (upd_rte p f s) = fault s"
  "this_cpu (upd_rte p f s) = this_cpu s"
  by (simp_all add: upd_rte_def)

lemma tasks_upd_rte [simp]:
  "tasks (upd_rte p f s) = (tasks s)(p := (tasks s p)\<lparr>p_rt := f (p_rt (tasks s p))\<rparr>)"
  by (simp add: upd_rte_def)

lemma rt_marks_frame [simp, frame_simps]:
  "tasks (rt_set_overload c s) = tasks s" "rqs (rt_set_overload c s) = rqs s"
  "fault (rt_set_overload c s) = fault s"
  "tasks (rt_clear_overload c s) = tasks s" "rqs (rt_clear_overload c s) = rqs s"
  "fault (rt_clear_overload c s) = fault s"
  "tasks (cpupri_set c q s) = tasks s" "rqs (cpupri_set c q s) = rqs s"
  "fault (cpupri_set c q s) = fault s"
  "tasks (start_rt_bandwidth s) = tasks s" "rqs (start_rt_bandwidth s) = rqs s"
  "fault (start_rt_bandwidth s) = fault s"
  "tasks (inc_rt_prio_smp c q r s) = tasks s" "rqs (inc_rt_prio_smp c q r s) = rqs s"
  "fault (inc_rt_prio_smp c q r s) = fault s"
  "tasks (dec_rt_prio_smp c q r s) = tasks s" "rqs (dec_rt_prio_smp c q r s) = rqs s"
  "fault (dec_rt_prio_smp c q r s) = fault s"
  by (simp_all add: rt_set_overload_def rt_clear_overload_def cpupri_set_def start_rt_bandwidth_def
      inc_rt_prio_smp_def dec_rt_prio_smp_def)

text \<open>Whatever the old mark was, \<open>update_rt_migration\<close> leaves the one the counters call for.\<close>

definition rt_overload_due :: "rt_rq \<Rightarrow> bool" where
  "rt_overload_due r \<longleftrightarrow> rt_nr_migratory r \<noteq> 0 \<and> 1 < rt_nr_total r"

lemma update_rt_migration_frame [simp, frame_simps]:
  "tasks (update_rt_migration c s) = tasks s" "fault (update_rt_migration c s) = fault s"
  by (simp_all add: update_rt_migration_def)

lemma update_rt_migration_rqs [simp]:
  "rqs (update_rt_migration c s) =
     (rqs s)(c := (rqs s c)\<lparr>rq_rt := (rtq s c)\<lparr>rt_is_overloaded := rt_overload_due (rtq s c)\<rparr>\<rparr>)"
  by (auto simp: update_rt_migration_def rt_overload_due_def fun_eq_iff)

text \<open>The counting helpers as functions on the run queue of the class.\<close>

definition mig_one :: "task_struct \<Rightarrow> u64" where
  "mig_one t = (if 1 < p_nr_cpus_allowed t then 1 else 0)"

definition rr_one :: "task_struct \<Rightarrow> u32" where
  "rr_one t = (if p_policy t = SCHED_RR then 1 else 0)"

definition set_overload_mark :: "rt_rq \<Rightarrow> rt_rq" where
  "set_overload_mark r = r\<lparr>rt_is_overloaded := rt_overload_due r\<rparr>"

definition count_in :: "task_struct \<Rightarrow> rt_rq \<Rightarrow> rt_rq" where
  "count_in t r = set_overload_mark (r\<lparr>
     rt_nr_running := rt_nr_running r + 1, rr_nr_running := rr_nr_running r + rr_one t,
     highest_prio_curr := min (p_prio t) (highest_prio_curr r),
     rt_nr_total := rt_nr_total r + 1, rt_nr_migratory := rt_nr_migratory r + mig_one t\<rparr>)"

definition count_out :: "task_struct \<Rightarrow> rt_rq \<Rightarrow> rt_rq" where
  "count_out t r = set_overload_mark (r\<lparr>
     rt_nr_running := rt_nr_running r - 1, rr_nr_running := rr_nr_running r - rr_one t,
     highest_prio_curr :=
       (if rt_nr_running r = 1 then MAX_RT_PRIO
        else if p_prio t = highest_prio_curr r then int (sched_find_first_bit (bitmap (active r)))
        else highest_prio_curr r),
     rt_nr_total := rt_nr_total r - 1, rt_nr_migratory := rt_nr_migratory r - mig_one t\<rparr>)"

lemma inc_rt_tasks_frame [simp, frame_simps]:
  "tasks (inc_rt_tasks p c s) = tasks s" "fault (inc_rt_tasks p c s) = fault s"
  by (simp_all add: inc_rt_tasks_def inc_rt_migration_def inc_rt_prio_def Let_def)

lemma dec_rt_tasks_frame [simp, frame_simps]:
  "tasks (dec_rt_tasks p c s) = tasks s" "fault (dec_rt_tasks p c s) = fault s"
  by (simp_all add: dec_rt_tasks_def dec_rt_migration_def dec_rt_prio_def Let_def)

lemma inc_rt_tasks_rqs:
  "rqs (inc_rt_tasks p c s) = (rqs s)(c := (rqs s c)\<lparr>rq_rt := count_in (tasks s p) (rtq s c)\<rparr>)"
  by (simp add: inc_rt_tasks_def inc_rt_migration_def inc_rt_prio_def Let_def count_in_def rr_one_def
      mig_one_def rt_se_prio_def rt_se_rr_nr_running_def min_def set_overload_mark_def)

lemma dec_rt_tasks_rqs:
  "rqs (dec_rt_tasks p c s) = (rqs s)(c := (rqs s c)\<lparr>rq_rt := count_out (tasks s p) (rtq s c)\<rparr>)"
  by (simp add: dec_rt_tasks_def dec_rt_migration_def dec_rt_prio_def Let_def count_out_def rr_one_def
      mig_one_def rt_se_prio_def rt_se_rr_nr_running_def set_overload_mark_def)

section \<open>Runnable count and throttling\<close>

text \<open>The runnable tasks of the other classes, and the state of the top queue between operations.\<close>

definition nr_others :: "rq \<Rightarrow> u32" where
  "nr_others r = rq_nr_running r - (if rt_queued (rq_rt r) then rt_nr_running (rq_rt r) else 0)"

definition rt_top_ok :: "rq \<Rightarrow> bool" where
  "rt_top_ok r \<longleftrightarrow> (rt_queued (rq_rt r) \<longleftrightarrow> \<not> rt_throttled (rq_rt r) \<and> rt_nr_running (rq_rt r) \<noteq> 0) \<and>
     (rt_queued (rq_rt r) \<longrightarrow> rq_nr_running r \<noteq> 0)"

definition top_out :: "rq \<Rightarrow> rq" where
  "top_out r = (if rt_queued (rq_rt r)
     then r\<lparr>rq_nr_running := rq_nr_running r - rt_nr_running (rq_rt r), rq_rt := (rq_rt r)\<lparr>rt_queued := False\<rparr>\<rparr>
     else r)"

definition top_in :: "rq \<Rightarrow> rq" where
  "top_in r = (if \<not> rt_queued (rq_rt r) \<and> \<not> rt_throttled (rq_rt r) \<and> rt_nr_running (rq_rt r) \<noteq> 0
     then r\<lparr>rq_nr_running := rq_nr_running r + rt_nr_running (rq_rt r), rq_rt := (rq_rt r)\<lparr>rt_queued := True\<rparr>\<rparr>
     else r)"

lemma dequeue_top_effect [simp]:
  "rqs (dequeue_top_rt_rq c s) = (rqs s)(c := top_out (rqs s c))"
  "tasks (dequeue_top_rt_rq c s) = tasks s"
  by (auto simp: dequeue_top_rt_rq_def top_out_def Let_def fun_eq_iff)

lemma dequeue_top_fault:
  "rt_queued (rtq s c) \<longrightarrow> rq_nr_running (rqs s c) \<noteq> 0 \<Longrightarrow> fault (dequeue_top_rt_rq c s) = fault s"
  by (auto simp: dequeue_top_rt_rq_def Let_def)

lemma enqueue_top_effect [simp]:
  "rqs (enqueue_top_rt_rq c s) = (rqs s)(c := top_in (rqs s c))"
  "tasks (enqueue_top_rt_rq c s) = tasks s" "fault (enqueue_top_rt_rq c s) = fault s"
  by (auto simp: enqueue_top_rt_rq_def top_in_def rt_rq_throttled_def fun_eq_iff)

lemma nr_others_top [simp]: "nr_others (top_out r) = nr_others r" "nr_others (top_in r) = nr_others r"
  by (simp_all add: nr_others_def top_out_def top_in_def)

text \<open>
  The part of a task and of a run queue that queueing depends on; an operation is \<open>quiet\<close> when it
  keeps that part, the other classes' count, and the state of the top queue.
\<close>

definition task_key :: "task_struct \<Rightarrow> bool \<times> bool \<times> cpu_id \<times> int \<times> int \<times> nat" where
  "task_key t = (rte_on_list (p_rt t), rte_on_rq (p_rt t), p_cpu t, p_prio t, p_policy t, p_nr_cpus_allowed t)"

definition rt_key :: "rt_rq \<Rightarrow> rt_prio_array \<times> u32 \<times> u32 \<times> int \<times> u64 \<times> u64 \<times> bool" where
  "rt_key r = (active r, rt_nr_running r, rr_nr_running r, highest_prio_curr r, rt_nr_total r,
     rt_nr_migratory r, rt_is_overloaded r)"

definition rt_quiet :: "sys \<Rightarrow> sys \<Rightarrow> bool" where
  "rt_quiet s s' \<longleftrightarrow> (\<forall>p. task_key (tasks s' p) = task_key (tasks s p)) \<and>
     (\<forall>c. rt_key (rtq s' c) = rt_key (rtq s c) \<and> nr_others (rqs s' c) = nr_others (rqs s c)) \<and>
     ((\<forall>c. rt_top_ok (rqs s c)) \<and> (\<forall>c. unat (nr_others (rqs s c)) + unat (rt_nr_running (rtq s c)) < 2 ^ 32)
        \<longrightarrow> (\<forall>c. rt_top_ok (rqs s' c)) \<and> fault s' = fault s)"

lemma rt_quiet_refl [simp]: "rt_quiet s s"
  by (simp add: rt_quiet_def)

lemma rt_quiet_trans [trans]: "rt_quiet s t \<Longrightarrow> rt_quiet t u \<Longrightarrow> rt_quiet s u"
  unfolding rt_quiet_def rt_key_def by simp

text \<open>An update that leaves every run-queue field in question alone.\<close>

lemma rt_quiet_same:
  assumes "\<And>p. task_key (tasks s' p) = task_key (tasks s p)" "fault s' = fault s"
    and "\<And>c. rt_key (rtq s' c) = rt_key (rtq s c)"
    and "\<And>c. rt_queued (rtq s' c) = rt_queued (rtq s c)"
    and "\<And>c. rt_throttled (rtq s' c) = rt_throttled (rtq s c)"
    and "\<And>c. rq_nr_running (rqs s' c) = rq_nr_running (rqs s c)"
  shows "rt_quiet s s'"
proof -
  have "rt_nr_running (rtq s' c) = rt_nr_running (rtq s c)" for c using assms(3)[of c] by (simp add: rt_key_def)
  then show ?thesis using assms by (simp add: rt_quiet_def nr_others_def rt_top_ok_def)
qed

lemma top_in_ok:
  assumes "rt_queued (rq_rt r) \<longrightarrow> \<not> rt_throttled (rq_rt r) \<and> rt_nr_running (rq_rt r) \<noteq> 0 \<and> rq_nr_running r \<noteq> 0"
    and "unat (nr_others r) + unat (rt_nr_running (rq_rt r)) < 2 ^ 32"
  shows "rt_top_ok (top_in r)"
proof (cases "rt_queued (rq_rt r)")
  case True
  then show ?thesis using assms by (simp add: rt_top_ok_def top_in_def)
next
  case False
  have "rq_nr_running r + rt_nr_running (rq_rt r) \<noteq> 0" if "rt_nr_running (rq_rt r) \<noteq> 0"
  proof -
    have "unat (rq_nr_running r + rt_nr_running (rq_rt r)) = unat (rq_nr_running r) + unat (rt_nr_running (rq_rt r))"
      using assms(2) False by (subst unat_plus_simple[THEN iffD1])
        (simp_all add: nr_others_def word_le_nat_alt unat_word_ariths)
    moreover have "0 < unat (rt_nr_running (rq_rt r))" using that by (simp add: unat_gt_0)
    ultimately show ?thesis by (metis add_is_0 not_gr_zero unat_0)
  qed
  then show ?thesis using False by (auto simp: rt_top_ok_def top_in_def)
qed

lemma top_out_ok: "rt_throttled (rq_rt r) \<Longrightarrow> rt_top_ok (top_out r)"
  by (simp add: rt_top_ok_def top_out_def)

subsection \<open>Quiet operations\<close>

named_theorems quiet \<open>operations that leave the queues alone\<close>

lemma rt_key_top [simp]: "rt_key (rq_rt (top_out r)) = rt_key (rq_rt r)"
  "rt_key (rq_rt (top_in r)) = rt_key (rq_rt r)"
  by (simp_all add: rt_key_def top_out_def top_in_def)

lemma rt_throttled_top [simp]: "rt_throttled (rq_rt (top_out r)) = rt_throttled (rq_rt r)"
  "rt_throttled (rq_rt (top_in r)) = rt_throttled (rq_rt r)"
  by (simp_all add: top_out_def top_in_def)

lemma quiet_upd_rt:
  assumes "\<And>r. rt_key (f r) = rt_key r" "\<And>r. rt_queued (f r) = rt_queued r"
    "\<And>r. rt_throttled (f r) = rt_throttled r"
  shows "rt_quiet s (upd_rt c f s)"
  using assms by (intro rt_quiet_same) (auto simp: fun_upd_def)

lemma quiet_upd_task:
  assumes "\<And>t. task_key (f t) = task_key t"
  shows "rt_quiet s (upd_task p f s)"
  using assms by (intro rt_quiet_same) auto

lemma quiet_update_rq_clock [quiet]: "rt_quiet s (update_rq_clock c s)"
  by (intro rt_quiet_same) simp_all

lemma quiet_clock_cancel [quiet]: "rt_quiet s (rq_clock_cancel_skipupdate c s)"
  by (intro rt_quiet_same) (simp_all add: rq_clock_cancel_skipupdate_def)

lemma quiet_resched_curr [quiet]: "rt_quiet s (resched_curr c s)"
  by (intro rt_quiet_same) (simp_all add: task_key_def)

lemma quiet_enqueue_pushable [quiet]: "rt_quiet s (enqueue_pushable_task c p s)"
  unfolding enqueue_pushable_task_def Let_def by (rule quiet_upd_rt) (simp_all add: rt_key_def)

lemma quiet_dequeue_pushable [quiet]: "rt_quiet s (dequeue_pushable_task c p s)"
  unfolding dequeue_pushable_task_def by (rule quiet_upd_rt) (simp_all add: rt_key_def Let_def)

lemma quiet_balance_one: "rt_quiet s (fst (balance_one c w per i s))"
proof -
  have q: "rt_quiet t (upd_rt i (\<lambda>r. r\<lparr>rt_runtime := g r\<rparr>) t)" for t i g
    by (rule quiet_upd_rt) (simp_all add: rt_key_def)
  show ?thesis
    unfolding balance_one_def Let_def by (auto intro!: rt_quiet_trans[OF q q])
qed

lemma quiet_balance_loop: "rt_quiet s (balance_loop c w per is s)"
proof (induction "is" arbitrary: s)
  case (Cons i "is")
  obtain t stop where t: "balance_one c w per i s = (t, stop)" by (cases "balance_one c w per i s")
  then have "rt_quiet s t" using quiet_balance_one[of s c w per i] by simp
  then show ?case using Cons[of t] by (auto simp: t intro: rt_quiet_trans)
qed simp

lemma quiet_balance_runtime [quiet]: "rt_quiet s (balance_runtime c s)"
  by (simp add: balance_runtime_def do_balance_runtime_def quiet_balance_loop Let_def)

lemma balance_one_throttled:
  "rt_throttled (rtq (fst (balance_one c w per i s)) d) = rt_throttled (rtq s d)"
  by (auto simp: balance_one_def Let_def)

lemma balance_loop_throttled:
  "rt_throttled (rtq (balance_loop c w per is s) d) = rt_throttled (rtq s d)"
proof (induction "is" arbitrary: s)
  case (Cons i "is")
  obtain t stop where t: "balance_one c w per i s = (t, stop)" by (cases "balance_one c w per i s")
  then show ?case using Cons[of t] balance_one_throttled[of c w per i s d] by simp
qed simp

lemma balance_runtime_throttled [simp]:
  "rt_throttled (rtq (balance_runtime c s) d) = rt_throttled (rtq s d)"
  by (simp add: balance_runtime_def do_balance_runtime_def balance_loop_throttled Let_def)

text \<open>Throttling takes the class off the run queue; the end of throttling puts it back.\<close>

lemma quiet_throttle: "rt_quiet s (sched_rt_rq_dequeue c (upd_rt c (\<lambda>r. r\<lparr>rt_throttled := True\<rparr>) s))"
proof -
  let ?t = "upd_rt c (\<lambda>r. r\<lparr>rt_throttled := True\<rparr>) s"
  have "fault (dequeue_top_rt_rq c ?t) = fault s" if "rt_top_ok (rqs s c)"
    using that by (subst dequeue_top_fault) (auto simp: rt_top_ok_def)
  moreover have "nr_others ((rqs s c)\<lparr>rq_rt := (rtq s c)\<lparr>rt_throttled := True\<rparr>\<rparr>) = nr_others (rqs s c)"
    by (simp add: nr_others_def)
  ultimately show ?thesis
    by (auto simp: rt_quiet_def sched_rt_rq_dequeue_def top_out_ok) (simp_all add: rt_key_def)
qed

lemma quiet_unthrottle:
  "rt_quiet s (sched_rt_rq_enqueue c (upd_rt c (\<lambda>r. r\<lparr>rt_throttled := False\<rparr>) s))"
proof -
  let ?f = "\<lambda>r. r\<lparr>rt_throttled := False\<rparr>"
  let ?t = "enqueue_top_rt_rq c (upd_rt c ?f s)"
  let ?r = "(rqs s c)\<lparr>rq_rt := ?f (rtq s c)\<rparr>"
  have o: "nr_others ?r = nr_others (rqs s c)" by (simp add: nr_others_def)
  have ok: "rt_top_ok (top_in ?r)" if "rt_top_ok (rqs s c)"
    "unat (nr_others (rqs s c)) + unat (rt_nr_running (rtq s c)) < 2 ^ 32"
    using that by (intro top_in_ok) (auto simp: rt_top_ok_def o)
  have q: "rt_quiet s ?t"
    using ok by (auto simp: rt_quiet_def o) (simp_all add: rt_key_def)
  show ?thesis
  proof (cases "rt_nr_running (rtq s c) = 0")
    case True
    then have "top_in ?r = ?r" by (simp add: top_in_def)
    then have "rqs ?t = rqs (upd_rt c ?f s)" by (simp add: fun_eq_iff)
    then have "rt_quiet s (upd_rt c ?f s)"
      using q by (simp add: rt_quiet_def)
    then show ?thesis using True by (simp add: sched_rt_rq_enqueue_def)
  next
    case False
    then show ?thesis using rt_quiet_trans[OF q quiet_resched_curr] by (simp add: sched_rt_rq_enqueue_def)
  qed
qed

lemma upd_rt_id: "f (rtq s c) = rtq s c \<Longrightarrow> upd_rt c f s = s"
  by (cases "rqs s c") (simp add: upd_rt_def upd_rq_def fun_upd_idem)

lemma quiet_sched_rt_rq_enqueue:
  assumes "\<not> rt_throttled (rtq s c)"
  shows "rt_quiet s (sched_rt_rq_enqueue c s)"
proof -
  have "upd_rt c (\<lambda>r. r\<lparr>rt_throttled := False\<rparr>) s = s"
    using assms by (intro upd_rt_id) (cases "rtq s c", simp)
  then show ?thesis using quiet_unthrottle[of s c] by simp
qed

lemma quiet_runtime_exceeded [quiet]: "rt_quiet s (snd (sched_rt_runtime_exceeded c s))"
proof -
  let ?b = "balance_runtime c s"
  have b: "rt_quiet s ?b" by (rule quiet)
  moreover have "rt_quiet ?b (upd_rt c (\<lambda>r. r\<lparr>rt_time := 0\<rparr>) ?b)"
    by (rule quiet_upd_rt) (simp_all add: rt_key_def)
  moreover note quiet_throttle[of ?b c]
  ultimately show ?thesis
    by (auto simp: sched_rt_runtime_exceeded_def Let_def rt_rq_throttled_def intro: rt_quiet_trans)
qed

lemma quiet_upd_rte:
  assumes "\<And>e. rte_on_list (f e) = rte_on_list e" "\<And>e. rte_on_rq (f e) = rte_on_rq e"
  shows "rt_quiet s (upd_rte p f s)"
  unfolding upd_rte_def using assms by (intro quiet_upd_task) (simp add: task_key_def)

lemma quiet_update_curr_rt [quiet]: "rt_quiet s (update_curr_rt c s)"
proof -
  let ?curr = "rq_curr (rqs s c)" and ?now = "rq_clock_task (rqs s c)"
  let ?d = "?now - se_exec_start (p_se (tasks s ?curr))"
  let ?s1 = "upd_task ?curr (\<lambda>t. t\<lparr>p_se := (p_se t)\<lparr>
     se_sum_exec_runtime := se_sum_exec_runtime (p_se t) + ?d, se_exec_start := ?now\<rparr>\<rparr>) s"
  let ?s2 = "upd_rt (p_cpu (tasks ?s1 ?curr)) (\<lambda>r. r\<lparr>rt_time := rt_time r + ?d\<rparr>) ?s1"
  have 1: "rt_quiet s ?s1" by (rule quiet_upd_task) (simp add: task_key_def)
  have 2: "rt_quiet ?s1 ?s2" by (rule quiet_upd_rt) (simp_all add: rt_key_def)
  obtain ex s3 where 3: "sched_rt_runtime_exceeded (p_cpu (tasks ?s1 ?curr)) ?s2 = (ex, s3)"
    by (cases "sched_rt_runtime_exceeded (p_cpu (tasks ?s1 ?curr)) ?s2")
  have "rt_quiet ?s2 s3"
    using quiet_runtime_exceeded[of ?s2 "p_cpu (tasks ?s1 ?curr)"] by (simp only: 3 snd_conv)
  then have 4: "rt_quiet s s3" using 1 2 rt_quiet_trans by blast
  then have 5: "rt_quiet s (resched_curr c s3)" using quiet_resched_curr rt_quiet_trans by blast
  show ?thesis
    unfolding update_curr_rt_def Let_def 3 using 1 4 5 by (simp only: prod.case if_split) simp
qed

lemma quiet_watchdog [quiet]: "rt_quiet s (watchdog soft hard hz p s)"
proof -
  let ?w = "upd_rte p (\<lambda>e. e\<lparr>rte_timeout := rte_timeout e + 1, rte_watchdog_stamp := jiffies s\<rparr>) s"
  have 1: "rt_quiet s ?w" by (rule quiet_upd_rte) simp_all
  have 2: "rt_quiet t (upd_task p (\<lambda>t. t\<lparr>p_sched_exp := se_sum_exec_runtime (p_se t)\<rparr>) t)" for t
    by (rule quiet_upd_task) (simp add: task_key_def)
  show ?thesis
    unfolding watchdog_def Let_def by (auto intro: 1 2 rt_quiet_trans[OF 1 2])
qed

lemma clock_cancel_upd_rt:
  "rq_clock_cancel_skipupdate i (upd_rt i f s) = upd_rt i f (rq_clock_cancel_skipupdate i s)"
  by (cases "rqs s i") (simp add: rq_clock_cancel_skipupdate_def upd_rt_def upd_rq_def)

lemma quiet_period_timer_one: "rt_quiet s (snd (snd (period_timer_one n i (idle, thr, s))))"
proof -
  let ?s1 = "if \<not> feat_rt_runtime_share s \<and> rt_runtime (rtq s i) \<noteq> RUNTIME_INF
     then upd_rt i (\<lambda>r. r\<lparr>rt_runtime := rtb_runtime (def_rt_bandwidth s)\<rparr>) s else s"
  let ?s2 = "update_rq_clock i ?s1"
  have 1: "rt_quiet s ?s1" by (simp add: quiet_upd_rt rt_key_def)
  have 2: "rt_quiet s ?s2" using 1 quiet_update_rq_clock by (rule rt_quiet_trans)
  let ?t1 = "if rt_throttled (rtq ?s2 i) then balance_runtime i ?s2 else ?s2"
  let ?t2 = "upd_rt i (\<lambda>r. r\<lparr>rt_time := rt_time r - min (rt_time r) (n * rt_runtime (rtq ?t1 i))\<rparr>) ?t1"
  let ?t3 = "upd_rt i (\<lambda>r. r\<lparr>rt_throttled := False\<rparr>) ?t2"
  have "rt_quiet s ?t1" using 2 quiet_balance_runtime rt_quiet_trans by simp
  moreover have "rt_quiet ?t1 ?t2" by (rule quiet_upd_rt) (simp_all add: rt_key_def)
  ultimately have 3: "rt_quiet s ?t2" by (rule rt_quiet_trans)
  have 4: "rt_quiet s (sched_rt_rq_enqueue i ?t3)" using 3 quiet_unthrottle by (rule rt_quiet_trans)
  have c: "rq_clock_cancel_skipupdate i ?t3 =
      upd_rt i (\<lambda>r. r\<lparr>rt_throttled := False\<rparr>) (rq_clock_cancel_skipupdate i ?t2)"
    by (rule clock_cancel_upd_rt)
  have 5: "rt_quiet s (sched_rt_rq_enqueue i (rq_clock_cancel_skipupdate i ?t3))"
    unfolding c using rt_quiet_trans[OF 3 quiet_clock_cancel] quiet_unthrottle by (rule rt_quiet_trans)
  have 6: "rt_quiet s (sched_rt_rq_enqueue i ?s2)" if "\<not> rt_throttled (rtq ?s2 i)"
    using 2 quiet_sched_rt_rq_enqueue[OF that] by (rule rt_quiet_trans)
  show ?thesis
  proof (cases "rt_time (rtq ?s1 i) = 0 \<and> rt_nr_running (rtq ?s1 i) = 0")
    case True
    then show ?thesis using 1 unfolding period_timer_one_def prod.case Let_def by (simp only: if_True simp_thms snd_conv)
  next
    case False
    have "snd (snd (period_timer_one n i (idle, thr, s))) \<in>
       {sched_rt_rq_enqueue i ?t3, sched_rt_rq_enqueue i (rq_clock_cancel_skipupdate i ?t3), ?t2, ?s2} \<or>
       snd (snd (period_timer_one n i (idle, thr, s))) = sched_rt_rq_enqueue i ?s2 \<and> \<not> rt_throttled (rtq ?s2 i)"
      unfolding period_timer_one_def prod.case Let_def if_not_P[OF False]
      by (cases "rt_time (rtq ?s2 i) = 0"; cases "rt_throttled (rtq ?t2 i) \<and> rt_time (rtq ?t2 i) < rt_runtime (rtq ?t1 i)")
        (simp_all only: simp_thms if_True if_False prod.case snd_conv insert_iff rt_rq_throttled_def split: if_split, auto)
    then show ?thesis using 2 3 4 5 6 by auto
  qed
qed

lemma quiet_period_fold:
  "rt_quiet s (snd (snd (fold (period_timer_one n) is (idle, thr, s))))"
proof (induction "is" arbitrary: idle thr s)
  case (Cons i "is")
  obtain idle1 thr1 s1 where 1: "period_timer_one n i (idle, thr, s) = (idle1, thr1, s1)"
    by (cases "period_timer_one n i (idle, thr, s)") auto
  then have "rt_quiet s s1" using quiet_period_timer_one[of s n i idle thr] by simp
  then show ?case using Cons[of s1 idle1 thr1] by (simp add: 1 rt_quiet_trans)
qed simp

lemma quiet_do_period_timer: "rt_quiet s (snd (do_sched_rt_period_timer n s))"
  using quiet_period_fold[of s n "cpus_of s (cpu_online_mask s)" True False]
  by (auto simp: do_sched_rt_period_timer_def split: prod.splits)

lemma quiet_period_timer_loop: "rt_quiet s (snd (period_timer_loop ns idle s))"
proof (induction ns arbitrary: idle s)
  case (Cons n ns)
  obtain idle1 s1 where 1: "do_sched_rt_period_timer n s = (idle1, s1)"
    by (cases "do_sched_rt_period_timer n s")
  then have "rt_quiet s s1" using quiet_do_period_timer[of s n] by simp
  then show ?case using Cons[of s1 idle1] by (simp add: 1 rt_quiet_trans)
qed simp

lemma quiet_period_timer [quiet]: "rt_quiet s (snd (sched_rt_period_timer ns s))"
proof -
  obtain idle t where t: "period_timer_loop ns False s = (idle, t)" by (cases "period_timer_loop ns False s")
  have 1: "rt_quiet s t" using quiet_period_timer_loop[of s ns False] by (simp add: t)
  have "rt_quiet t (t\<lparr>def_rt_bandwidth := b\<rparr>)" for b by (rule rt_quiet_same) simp_all
  then show ?thesis using 1 by (auto simp: sched_rt_period_timer_def t intro: rt_quiet_trans)
qed

section \<open>The queue invariant\<close>

text \<open>
  Every list of the array holds exactly the tasks of its CPU and priority that are marked as
  listed, the counters count them, and the cached highest priority is the first bit of the bitmap.
  Task numbers stay below \<open>PID_MAX_LIMIT\<close>, so that no counter wraps.
\<close>

definition PID_MAX_LIMIT :: nat where "PID_MAX_LIMIT = 2 ^ 22"

definition members :: "rt_rq \<Rightarrow> task_id list" where
  "members r = concat (queue (active r))"

definition rt_counts :: "(task_id \<Rightarrow> task_struct) \<Rightarrow> rt_rq \<Rightarrow> bool" where
  "rt_counts T r \<longleftrightarrow>
     rt_nr_running r = of_nat (length (members r)) \<and>
     rr_nr_running r = sum_list (map (\<lambda>p. rr_one (T p)) (members r)) \<and>
     rt_nr_total r = of_nat (length (members r)) \<and>
     rt_nr_migratory r = sum_list (map (\<lambda>p. mig_one (T p)) (members r)) \<and>
     highest_prio_curr r = int (sched_find_first_bit (bitmap (active r))) \<and>
     rt_is_overloaded r = rt_overload_due r"

definition rt_lists :: "sys \<Rightarrow> bool" where
  "rt_lists s \<longleftrightarrow>
     (\<forall>c. rt_array_ok (active (rtq s c))) \<and>
     (\<forall>c i. i < 100 \<longrightarrow> set (queue (active (rtq s c)) ! i) =
        {p. rte_on_list (p_rt (tasks s p)) \<and> p_cpu (tasks s p) = c \<and> p_prio (tasks s p) = int i}) \<and>
     (\<forall>p. rte_on_list (p_rt (tasks s p)) \<longrightarrow>
        p < PID_MAX_LIMIT \<and> rt_index_ok (p_prio (tasks s p)) \<and> rte_on_rq (p_rt (tasks s p))) \<and>
     (\<forall>p. rte_on_rq (p_rt (tasks s p)) \<longrightarrow> rte_on_list (p_rt (tasks s p)))"

definition rt_inv :: "sys \<Rightarrow> bool" where
  "rt_inv s \<longleftrightarrow> rt_lists s \<and> (\<forall>c. rt_counts (tasks s) (rtq s c)) \<and> (\<forall>c. rt_top_ok (rqs s c)) \<and>
     (\<forall>c. unat (nr_others (rqs s c)) < 2 ^ 31)"

lemma members_bound:
  assumes "rt_lists s"
  shows "length (members (rtq s c)) \<le> PID_MAX_LIMIT" "set (members (rtq s c)) \<subseteq> {..<PID_MAX_LIMIT}"
proof -
  have a: "rt_array_ok (active (rtq s c))" using assms by (simp add: rt_lists_def)
  show sub: "set (members (rtq s c)) \<subseteq> {..<PID_MAX_LIMIT}"
  proof
    fix p assume "p \<in> set (members (rtq s c))"
    then obtain l where "l \<in> set (queue (active (rtq s c)))" "p \<in> set l" by (auto simp: members_def)
    then obtain i where "i < 100" "p \<in> set (queue (active (rtq s c)) ! i)"
      using a by (auto simp: in_set_conv_nth rt_array_ok_def)
    then show "p \<in> {..<PID_MAX_LIMIT}" using assms by (auto simp: rt_lists_def)
  qed
  have "length (members (rtq s c)) = card (set (members (rtq s c)))"
    using a by (simp add: distinct_card members_def rt_array_ok_def del: set_concat)
  also have "\<dots> \<le> card {..<PID_MAX_LIMIT}" by (intro card_mono sub) simp
  finally show "length (members (rtq s c)) \<le> PID_MAX_LIMIT" by simp
qed

lemma rt_nr_running_unat:
  assumes "rt_lists s" "rt_counts (tasks s) (rtq s c)"
  shows "unat (rt_nr_running (rtq s c)) = length (members (rtq s c))"
  using assms members_bound(1)[OF assms(1), of c]
  by (simp add: rt_counts_def unat_of_nat PID_MAX_LIMIT_def)

lemma rt_quiet_inv:
  assumes "rt_inv s" "rt_quiet s s'"
  shows "rt_inv s'" "fault s' = fault s"
proof -
  have k: "task_key (tasks s' p) = task_key (tasks s p)" "rt_key (rtq s' c) = rt_key (rtq s c)"
    "nr_others (rqs s' c) = nr_others (rqs s c)" for p c
    using assms(2) by (simp_all add: rt_quiet_def)
  have t: "rte_on_list (p_rt (tasks s' p)) = rte_on_list (p_rt (tasks s p))"
    "rte_on_rq (p_rt (tasks s' p)) = rte_on_rq (p_rt (tasks s p))"
    "p_cpu (tasks s' p) = p_cpu (tasks s p)" "p_prio (tasks s' p) = p_prio (tasks s p)"
    "rr_one (tasks s' p) = rr_one (tasks s p)" "mig_one (tasks s' p) = mig_one (tasks s p)" for p
    using k(1)[of p] by (simp_all add: task_key_def rr_one_def mig_one_def)
  have r: "active (rtq s' c) = active (rtq s c)" "rt_nr_running (rtq s' c) = rt_nr_running (rtq s c)"
    "rr_nr_running (rtq s' c) = rr_nr_running (rtq s c)"
    "highest_prio_curr (rtq s' c) = highest_prio_curr (rtq s c)"
    "rt_nr_total (rtq s' c) = rt_nr_total (rtq s c)"
    "rt_nr_migratory (rtq s' c) = rt_nr_migratory (rtq s c)"
    "rt_is_overloaded (rtq s' c) = rt_is_overloaded (rtq s c)" for c
    using k(2)[of c] by (simp_all add: rt_key_def)
  have "unat (nr_others (rqs s c)) + unat (rt_nr_running (rtq s c)) < 2 ^ 32" for c
  proof -
    have "unat (rt_nr_running (rtq s c)) \<le> 2 ^ 22" "unat (nr_others (rqs s c)) < 2 ^ 31"
      using assms(1) rt_nr_running_unat[of s c] members_bound(1)[of s c]
      by (simp_all add: rt_inv_def PID_MAX_LIMIT_def)
    then show ?thesis by simp
  qed
  then have top: "\<forall>c. rt_top_ok (rqs s' c)" and f: "fault s' = fault s"
    using assms by (simp_all add: rt_quiet_def rt_inv_def)
  show "fault s' = fault s" by (rule f)
  have "rt_lists s'" using assms(1) by (simp add: rt_inv_def rt_lists_def t r)
  moreover have "rt_counts (tasks s') (rtq s' c)" for c
    using assms(1) by (simp add: rt_inv_def rt_counts_def t r members_def rt_overload_due_def)
  ultimately show "rt_inv s'" using assms(1) top by (simp add: rt_inv_def k(3))
qed

section \<open>Queueing and dequeueing keep the invariant\<close>

lemma first_bit_rec [simp]: "sched_find_first_bit [] = 0"
  "sched_find_first_bit (x # b) = (if x then 0 else Suc (sched_find_first_bit b))"
  by (auto simp: sched_find_first_bit_def split: option.splits)

lemma first_bit_set: "i < length b \<Longrightarrow> sched_find_first_bit (b[i := True]) = min i (sched_find_first_bit b)"
  by (induction b arbitrary: i) (auto split: nat.splits)

lemma first_bit_clear: "i \<noteq> sched_find_first_bit b \<Longrightarrow> sched_find_first_bit (b[i := False]) = sched_find_first_bit b"
  by (induction b arbitrary: i) (auto split: nat.splits if_splits)

definition rt_linked :: "sched_rt_entity \<Rightarrow> bool \<Rightarrow> sched_rt_entity" where
  "rt_linked e b = e\<lparr>rte_on_list := b, rte_on_rq := b\<rparr>"

definition put_in :: "task_id \<Rightarrow> task_struct \<Rightarrow> bool \<Rightarrow> rq \<Rightarrow> rq" where
  "put_in p t h r = top_in ((top_out r)\<lparr>rq_rt := count_in t
     ((rq_rt (top_out r))\<lparr>active := array_add p (nat (p_prio t)) h (active (rq_rt r))\<rparr>)\<rparr>)"

definition take_out :: "task_id \<Rightarrow> task_struct \<Rightarrow> rq \<Rightarrow> rq" where
  "take_out p t r = top_in ((top_out r)\<lparr>rq_rt := count_out t
     ((rq_rt (top_out r))\<lparr>active := array_delist p (nat (p_prio t)) (active (rq_rt r))\<rparr>)\<rparr>)"

lemma active_top_out [simp]: "active (rq_rt (top_out r)) = active (rq_rt r)"
  by (simp add: top_out_def)

lemma count_key [simp]: "count_in (t\<lparr>p_rt := e\<rparr>) r = count_in t r" "count_out (t\<lparr>p_rt := e\<rparr>) r = count_out t r"
  by (simp_all add: count_in_def count_out_def rr_one_def mig_one_def)

lemma enqueue_rt_entity_effect:
  assumes "\<not> rte_on_rq (p_rt (tasks s p))" "move_entity flags" "rt_index_ok (p_prio (tasks s p))"
    and "rt_top_ok (rqs s (p_cpu (tasks s p)))"
  defines "c \<equiv> p_cpu (tasks s p)"
  shows "rqs (enqueue_rt_entity p flags s) =
           (rqs s)(c := put_in p (tasks s p) (flag_set flags ENQUEUE_HEAD) (rqs s c))"
    and "tasks (enqueue_rt_entity p flags s) =
           (tasks s)(p := (tasks s p)\<lparr>p_rt := rt_linked (p_rt (tasks s p)) True\<rparr>)"
    and "fault (enqueue_rt_entity p flags s) = fault s"
  using assms
  by (simp_all add: enqueue_rt_entity_def dequeue_rt_stack_def on_rt_rq_def enqueue_entity_def Let_def
      inc_rt_tasks_rqs put_in_def check_rt_index_def rt_se_prio_def rt_linked_def dequeue_top_fault
      rt_top_ok_def)

lemma dequeue_rt_entity_effect:
  assumes "rte_on_rq (p_rt (tasks s p))" "move_entity flags" "rt_index_ok (p_prio (tasks s p))"
    and "rt_top_ok (rqs s (p_cpu (tasks s p)))"
  defines "c \<equiv> p_cpu (tasks s p)"
  shows "rqs (dequeue_rt_entity p flags s) = (rqs s)(c := take_out p (tasks s p) (rqs s c))"
    and "tasks (dequeue_rt_entity p flags s) =
           (tasks s)(p := (tasks s p)\<lparr>p_rt := rt_linked (p_rt (tasks s p)) False\<rparr>)"
    and "fault (dequeue_rt_entity p flags s) = fault s"
  using assms
  by (simp_all add: dequeue_rt_entity_def dequeue_rt_stack_def on_rt_rq_def dequeue_entity_def Let_def
      dec_rt_tasks_rqs take_out_def delist_rt_entity_def check_rt_index_def rt_se_prio_def rt_linked_def
      dequeue_top_fault rt_top_ok_def)

end
