(* ===== verification/Sched_Rt_Inv.thy ===== *)
theory Sched_Rt_Inv
  imports Sched_Rt_Queue
begin

text \<open>
  Every class operation keeps the queue invariant of the real-time class, so the runs of the class
  are safe; the pick is the longest-waiting task of the best priority, and the run queue's count of
  runnable tasks moves with the class exactly while it is not throttled.
\<close>

section \<open>Counting members\<close>

lemma mset_concat_update:
  "i < length qs \<Longrightarrow> mset (concat (qs[i := ys])) + mset (qs ! i) = mset (concat qs) + mset ys"
  by (induction qs arbitrary: i) (auto split: nat.splits simp: ac_simps)

lemma mset_members_add:
  assumes "rt_array_ok (active r)" "i < 100"
  shows "mset (members (r\<lparr>active := array_add p i h (active r)\<rparr>)) = add_mset p (mset (members r))"
proof -
  let ?qs = "queue (active r)"
  let ?y = "if h then p # ?qs ! i else ?qs ! i @ [p]"
  have "i < length ?qs" using assms by (simp add: rt_array_ok_def)
  then have "mset (concat (?qs[i := ?y])) + mset (?qs ! i) = mset (concat ?qs) + mset ?y"
    by (rule mset_concat_update)
  moreover have "mset ?y = add_mset p (mset (?qs ! i))" by simp
  ultimately show ?thesis by (simp add: members_def array_add_def)
qed

lemma mset_members_del:
  assumes "rt_array_ok (active r)" "i < 100" "p \<in> set (queue (active r) ! i)"
  shows "add_mset p (mset (members (r\<lparr>active := array_delist p i (active r)\<rparr>))) = mset (members r)"
proof -
  let ?qs = "queue (active r)"
  have len: "i < length ?qs" using assms by (simp add: rt_array_ok_def)
  have "distinct (?qs ! i)" using assms len by (intro distinct_concat_nth) (auto simp: rt_array_ok_def)
  then have "removeAll p (?qs ! i) = remove1 p (?qs ! i)" by (simp add: distinct_remove1_removeAll)
  then have y: "add_mset p (mset (removeAll p (?qs ! i))) = mset (?qs ! i)" using assms(3) by simp
  have "mset (concat (?qs[i := removeAll p (?qs ! i)])) + mset (?qs ! i) =
      mset (concat ?qs) + mset (removeAll p (?qs ! i))"
    using len by (rule mset_concat_update)
  then show ?thesis using y array_delist_ok(1)[OF assms]
    by (simp add: members_def) (metis add_left_imp_eq union_commute union_mset_add_mset_left union_mset_add_mset_right)
qed

lemma sum_list_mset_cong:
  fixes f :: "'a \<Rightarrow> 'b::comm_monoid_add"
  shows "mset xs = mset ys \<Longrightarrow> sum_list (map f xs) = sum_list (map f ys)"
  by (metis mset_map sum_mset_sum_list)

lemma rt_counts_mset:
  assumes "rt_counts T r" "mset (members r') = add_mset p (mset (members r))" "\<And>q. rr_one (T' q) = rr_one (T q)" "\<And>q. mig_one (T' q) = mig_one (T q)"
  shows "rt_nr_running r + 1 = of_nat (length (members r'))"
    "rr_nr_running r + rr_one (T p) = sum_list (map (\<lambda>p. rr_one (T' p)) (members r'))"
    "rt_nr_total r + 1 = of_nat (length (members r'))"
    "rt_nr_migratory r + mig_one (T p) = sum_list (map (\<lambda>p. mig_one (T' p)) (members r'))"
proof -
  have m: "mset (members r') = mset (p # members r)" using assms(2) by simp
  then have "length (members r') = Suc (length (members r))" using mset_eq_length by fastforce
  then show "rt_nr_running r + 1 = of_nat (length (members r'))"
    "rt_nr_total r + 1 = of_nat (length (members r'))"
    using assms(1) by (simp_all add: rt_counts_def)
  show "rr_nr_running r + rr_one (T p) = sum_list (map (\<lambda>p. rr_one (T' p)) (members r'))"
    "rt_nr_migratory r + mig_one (T p) = sum_list (map (\<lambda>p. mig_one (T' p)) (members r'))"
    using assms(1,3,4) by (simp_all add: sum_list_mset_cong[OF m] rt_counts_def add.commute)
qed

lemma rt_counts_in:
  assumes "rt_counts T r" "rt_array_ok (active r)" "rt_index_ok (p_prio (T p))"
    "\<And>q. rr_one (T' q) = rr_one (T q)" "\<And>q. mig_one (T' q) = mig_one (T q)"
  shows "rt_counts T' (count_in (T p) (r\<lparr>active := array_add p (nat (p_prio (T p))) h (active r)\<rparr>))"
proof -
  let ?i = "nat (p_prio (T p))"
  let ?r = "r\<lparr>active := array_add p ?i h (active r)\<rparr>"
  have i: "?i < 100" "int ?i = p_prio (T p)" using assms(3) by (auto simp: rt_index_ok_def MAX_RT_PRIO_def)
  note c = rt_counts_mset[OF assms(1) mset_members_add[OF assms(2) i(1), of p h] assms(4,5)]
  have "sched_find_first_bit (bitmap (active ?r)) = min ?i (sched_find_first_bit (bitmap (active r)))"
    using i assms(2) by (simp add: array_add_def first_bit_set rt_array_ok_def)
  then have h: "min (p_prio (T p)) (highest_prio_curr r) = int (sched_find_first_bit (bitmap (active ?r)))"
    using assms(1) i(2) by (auto simp: rt_counts_def min_def)
  have a: "members (count_in (T p) ?r) = members ?r" "active (count_in (T p) ?r) = active ?r"
    by (simp_all add: count_in_def set_overload_mark_def members_def)
  show ?thesis
    using c h
    unfolding rt_counts_def a by (simp add: count_in_def set_overload_mark_def rt_overload_due_def)
qed


lemma rt_counts_out:
  assumes "rt_counts T r" "rt_array_ok (active r)" "rt_index_ok (p_prio (T p))"
    "p \<in> set (queue (active r) ! nat (p_prio (T p)))" "length (members r) \<le> PID_MAX_LIMIT"
    "\<And>q. rr_one (T' q) = rr_one (T q)" "\<And>q. mig_one (T' q) = mig_one (T q)"
  shows "rt_counts T' (count_out (T p) (r\<lparr>active := array_delist p (nat (p_prio (T p))) (active r)\<rparr>))"
proof -
  let ?i = "nat (p_prio (T p))"
  let ?r = "r\<lparr>active := array_delist p ?i (active r)\<rparr>"
  let ?f = "sched_find_first_bit (bitmap (active ?r))"
  let ?k = "?r\<lparr>rt_nr_running := of_nat (length (members ?r)),
      rr_nr_running := sum_list (map (\<lambda>p. rr_one (T' p)) (members ?r)),
      rt_nr_total := of_nat (length (members ?r)),
      rt_nr_migratory := sum_list (map (\<lambda>p. mig_one (T' p)) (members ?r)),
      highest_prio_curr := int ?f, rt_is_overloaded := True\<rparr>"
  have i: "?i < 100" "int ?i = p_prio (T p)" using assms(3) by (auto simp: rt_index_ok_def MAX_RT_PRIO_def)
  note md = mset_members_del[OF assms(2) i(1) assms(4)]
  have len: "length (members r) = Suc (length (members ?r))"
    using arg_cong[OF md, of size] by (simp only: size_add_mset size_mset)
  have ok: "rt_array_ok (active ?r)" using array_delist_ok(2)[OF assms(2) i(1) assms(4)] by simp
  have one: "rt_nr_running r = 1 \<longleftrightarrow> members ?r = []"
  proof -
    have "unat (rt_nr_running r) = length (members r)"
      using assms(1,5) by (simp add: rt_counts_def unat_of_nat PID_MAX_LIMIT_def)
    then show ?thesis using len by (metis One_nat_def length_0_conv nat.inject unat_1 word_unat_eq_iff)
  qed
  have empty: "?f = 100" if "members ?r = []"
  proof -
    have "find_index (\<lambda>l. l \<noteq> []) (queue (active ?r)) = None"
      using that by (auto simp: find_index_None members_def)
    then show ?thesis using find_first_bit_levels[OF ok] by (simp only: option.case)
  qed
  have keep: "?f = sched_find_first_bit (bitmap (active r))" if "?i \<noteq> sched_find_first_bit (bitmap (active r))"
    using that by (simp add: array_delist_def Let_def first_bit_clear)
  have h: "(if rt_nr_running r = 1 then MAX_RT_PRIO else if p_prio (T p) = highest_prio_curr r
      then int ?f else highest_prio_curr r) = int ?f"
  proof -
    have hp: "highest_prio_curr r = int (sched_find_first_bit (bitmap (active r)))"
      using assms(1) by (simp add: rt_counts_def)
    have "highest_prio_curr r = int ?f" if "p_prio (T p) \<noteq> highest_prio_curr r"
      using that keep hp i(2) by metis
    then show ?thesis using empty by (simp add: one MAX_RT_PRIO_def)
  qed
  have tot: "rt_nr_running r - 1 = of_nat (length (members ?r))" "rt_nr_total r - 1 = of_nat (length (members ?r))"
    using assms(1) len by (simp_all add: rt_counts_def)
  have m: "mset (members r) = mset (p # members ?r)" using md by simp
  have sums: "rr_nr_running r - rr_one (T p) = sum_list (map (\<lambda>p. rr_one (T' p)) (members ?r))"
    "rt_nr_migratory r - mig_one (T p) = sum_list (map (\<lambda>p. mig_one (T' p)) (members ?r))"
    using assms(1,6,7) by (simp_all add: sum_list_mset_cong[OF m] rt_counts_def)
  have a: "members (count_out (T p) ?r) = members ?r" "active (count_out (T p) ?r) = active ?r"
    by (simp_all add: count_out_def set_overload_mark_def members_def)
  have hc: "highest_prio_curr (count_out (T p) ?r) = int ?f"
    by (rule trans[OF _ h]) (simp add: count_out_def set_overload_mark_def)
  show ?thesis
    using tot sums
    unfolding rt_counts_def a hc by (simp add: count_out_def set_overload_mark_def rt_overload_due_def)
qed

text \<open>The state after a task has been linked or unlinked.\<close>

lemma rt_keys_linked [simp]:
  "rr_one (((tasks s)(p := (tasks s p)\<lparr>p_rt := e\<rparr>)) q) = rr_one (tasks s q)"
  "mig_one (((tasks s)(p := (tasks s p)\<lparr>p_rt := e\<rparr>)) q) = mig_one (tasks s q)"
  by (simp_all add: rr_one_def mig_one_def)

lemma in_level:
  assumes "rt_lists s" "i < 100"
  shows "p \<in> set (queue (active (rtq s c)) ! i) \<longleftrightarrow>
     rte_on_list (p_rt (tasks s p)) \<and> p_cpu (tasks s p) = c \<and> p_prio (tasks s p) = int i"
  using assms by (auto simp: rt_lists_def)

lemma member_level:
  assumes "rt_lists s" "p \<in> set (members (rtq s c))"
  obtains i where "i < 100" "p \<in> set (queue (active (rtq s c)) ! i)"
proof -
  obtain l where l: "l \<in> set (queue (active (rtq s c)))" "p \<in> set l"
    using assms(2) by (auto simp: members_def)
  moreover have "length (queue (active (rtq s c))) = 100"
    using assms(1) by (simp add: rt_lists_def rt_array_ok_def)
  ultimately show thesis using that by (metis in_set_conv_nth)
qed

lemma not_member:
  assumes "rt_lists s" "\<not> rte_on_list (p_rt (tasks s p))"
  shows "p \<notin> set (members (rtq s c))"
proof
  assume "p \<in> set (members (rtq s c))"
  then obtain i where "i < 100" "p \<in> set (queue (active (rtq s c)) ! i)"
    by (rule member_level[OF assms(1)])
  then show False using in_level[OF assms(1)] assms(2) by blast
qed

lemma listed_index:
  assumes "rt_lists s" "rte_on_list (p_rt (tasks s p))"
  shows "nat (p_prio (tasks s p)) < 100" "int (nat (p_prio (tasks s p))) = p_prio (tasks s p)"
    "rt_index_ok (p_prio (tasks s p))"
proof -
  show "rt_index_ok (p_prio (tasks s p))" using assms unfolding rt_lists_def by blast
  then show "nat (p_prio (tasks s p)) < 100" "int (nat (p_prio (tasks s p))) = p_prio (tasks s p)"
    by (auto simp: rt_index_ok_def MAX_RT_PRIO_def)
qed

lemma rt_lists_linked:
  assumes "rt_lists s" "\<not> rte_on_list (p_rt (tasks s p))" "rt_index_ok (p_prio (tasks s p))" "p < PID_MAX_LIMIT"
    and "tasks s' = (tasks s)(p := (tasks s p)\<lparr>p_rt := rt_linked (p_rt (tasks s p)) True\<rparr>)"
    and "active (rtq s' (p_cpu (tasks s p))) =
       array_add p (nat (p_prio (tasks s p))) h (active (rtq s (p_cpu (tasks s p))))"
    and "\<And>d. d \<noteq> p_cpu (tasks s p) \<Longrightarrow> active (rtq s' d) = active (rtq s d)"
  shows "rt_lists s'"
proof -
  let ?c = "p_cpu (tasks s p)" and ?i = "nat (p_prio (tasks s p))"
  have i: "?i < 100" "int ?i = p_prio (tasks s p)"
    using assms(3) by (auto simp: rt_index_ok_def MAX_RT_PRIO_def)
  have ok: "rt_array_ok (active (rtq s d))" for d using assms(1) by (simp add: rt_lists_def)
  have fresh: "p \<notin> set (concat (queue (active (rtq s ?c))))"
    using not_member[OF assms(1,2), of ?c] by (simp add: members_def)
  note add = array_add_ok[OF ok i(1) fresh, of h]
  have "rt_array_ok (active (rtq s' d))" for d
    using ok add(2) assms(6,7) by (cases "d = ?c") auto
  moreover have "set (queue (active (rtq s' d)) ! j) =
      {q. rte_on_list (p_rt (tasks s' q)) \<and> p_cpu (tasks s' q) = d \<and> p_prio (tasks s' q) = int j}" if "j < 100" for d j
  proof -
    have l: "set (queue (active (rtq s d)) ! j) =
      {q. rte_on_list (p_rt (tasks s q)) \<and> p_cpu (tasks s q) = d \<and> p_prio (tasks s q) = int j}"
      using assms(1) that by (simp add: rt_lists_def)
    have len: "length (queue (active (rtq s ?c))) = 100" using ok by (simp add: rt_array_ok_def)
    show ?thesis
    proof (cases "d = ?c \<and> j = ?i")
      case True
      then show ?thesis using l len i assms(6) by (auto simp: assms(5) add(1) rt_linked_def)
    next
      case False
      then have "queue (active (rtq s' d)) ! j = queue (active (rtq s d)) ! j"
        using assms(6,7) by (cases "d = ?c") (auto simp: add(1))
      moreover have "\<not> (?c = d \<and> p_prio (tasks s p) = int j)" using False nat_int[of j] by metis
      ultimately show ?thesis using l assms(2) by (auto simp: assms(5) rt_linked_def)
    qed
  qed
  moreover have "rte_on_list (p_rt (tasks s' q)) \<longrightarrow>
      q < PID_MAX_LIMIT \<and> rt_index_ok (p_prio (tasks s' q)) \<and> rte_on_rq (p_rt (tasks s' q))"
    "rte_on_rq (p_rt (tasks s' q)) \<longrightarrow> rte_on_list (p_rt (tasks s' q))" for q
    using assms(1,3,4) by (simp_all add: rt_lists_def assms(5) rt_linked_def)
  ultimately show ?thesis unfolding rt_lists_def by blast
qed

lemma rt_lists_unlinked:
  assumes "rt_lists s" "rte_on_list (p_rt (tasks s p))"
    and "tasks s' = (tasks s)(p := (tasks s p)\<lparr>p_rt := rt_linked (p_rt (tasks s p)) False\<rparr>)"
    and "active (rtq s' (p_cpu (tasks s p))) =
       array_delist p (nat (p_prio (tasks s p))) (active (rtq s (p_cpu (tasks s p))))"
    and "\<And>d. d \<noteq> p_cpu (tasks s p) \<Longrightarrow> active (rtq s' d) = active (rtq s d)"
  shows "rt_lists s'"
proof -
  let ?c = "p_cpu (tasks s p)" and ?i = "nat (p_prio (tasks s p))"
  have i: "?i < 100" "int ?i = p_prio (tasks s p)"
    using listed_index[OF assms(1,2)] by simp_all
  have ok: "rt_array_ok (active (rtq s d))" for d using assms(1) by (simp add: rt_lists_def)
  have "p \<in> set (queue (active (rtq s ?c)) ! ?i)" 
    using assms(2) by (simp only: in_level[OF assms(1) i(1)] i(2) simp_thms)
  note del = array_delist_ok[OF ok i(1) this]
  have "rt_array_ok (active (rtq s' d))" for d
    using ok del(2) assms(4,5) by (cases "d = ?c") auto
  moreover have "set (queue (active (rtq s' d)) ! j) =
      {q. rte_on_list (p_rt (tasks s' q)) \<and> p_cpu (tasks s' q) = d \<and> p_prio (tasks s' q) = int j}" if "j < 100" for d j
  proof -
    have l: "set (queue (active (rtq s d)) ! j) =
      {q. rte_on_list (p_rt (tasks s q)) \<and> p_cpu (tasks s q) = d \<and> p_prio (tasks s q) = int j}"
      using assms(1) that by (simp add: rt_lists_def)
    have len: "length (queue (active (rtq s ?c))) = 100" using ok by (simp add: rt_array_ok_def)
    show ?thesis
    proof (cases "d = ?c \<and> j = ?i")
      case True
      then show ?thesis using l len i assms(4) by (auto simp: assms(3) del(1) rt_linked_def)
    next
      case False
      then have "queue (active (rtq s' d)) ! j = queue (active (rtq s d)) ! j"
        using assms(4,5) by (cases "d = ?c") (auto simp: del(1))
      moreover have "\<not> (?c = d \<and> p_prio (tasks s p) = int j)" using False nat_int[of j] by metis
      ultimately show ?thesis using l by (auto simp: assms(3) rt_linked_def)
    qed
  qed
  moreover have "rte_on_list (p_rt (tasks s' q)) \<longrightarrow>
      q < PID_MAX_LIMIT \<and> rt_index_ok (p_prio (tasks s' q)) \<and> rte_on_rq (p_rt (tasks s' q))"
    "rte_on_rq (p_rt (tasks s' q)) \<longrightarrow> rte_on_list (p_rt (tasks s' q))" for q
    using assms(1) by (simp_all add: rt_lists_def assms(3) rt_linked_def)
  ultimately show ?thesis unfolding rt_lists_def by blast
qed

text \<open>The rest of the run queue when one task has come or gone.\<close>

lemma put_in_parts [simp]:
  "rq_rt (put_in p t h r) = (let r0 = count_in t ((rq_rt r)\<lparr>active := array_add p (nat (p_prio t)) h (active (rq_rt r))\<rparr>)
     in r0\<lparr>rt_queued := \<not> rt_throttled r0 \<and> rt_nr_running r0 \<noteq> 0\<rparr>)"
  "nr_others (put_in p t h r) = nr_others r"
proof -
  show "nr_others (put_in p t h r) = nr_others r"
    by (simp add: put_in_def) (simp add: nr_others_def top_out_def count_in_def set_overload_mark_def)
  show "rq_rt (put_in p t h r) = (let r0 = count_in t ((rq_rt r)\<lparr>active := array_add p (nat (p_prio t)) h (active (rq_rt r))\<rparr>)
     in r0\<lparr>rt_queued := \<not> rt_throttled r0 \<and> rt_nr_running r0 \<noteq> 0\<rparr>)"
    by (cases "rq_rt r") (simp add: put_in_def top_in_def top_out_def count_in_def set_overload_mark_def Let_def rt_overload_due_def)
qed

lemma take_out_parts [simp]:
  "rq_rt (take_out p t r) = (let r0 = count_out t ((rq_rt r)\<lparr>active := array_delist p (nat (p_prio t)) (active (rq_rt r))\<rparr>)
     in r0\<lparr>rt_queued := \<not> rt_throttled r0 \<and> rt_nr_running r0 \<noteq> 0\<rparr>)"
  "nr_others (take_out p t r) = nr_others r"
proof -
  show "nr_others (take_out p t r) = nr_others r"
    by (simp add: take_out_def) (simp add: nr_others_def top_out_def count_out_def set_overload_mark_def)
  show "rq_rt (take_out p t r) = (let r0 = count_out t ((rq_rt r)\<lparr>active := array_delist p (nat (p_prio t)) (active (rq_rt r))\<rparr>)
     in r0\<lparr>rt_queued := \<not> rt_throttled r0 \<and> rt_nr_running r0 \<noteq> 0\<rparr>)"
    by (cases "rq_rt r") (simp add: take_out_def top_in_def top_out_def count_out_def set_overload_mark_def Let_def rt_overload_due_def)
qed

lemma rt_counts_queued [simp]: "rt_counts T (r\<lparr>rt_queued := b\<rparr>) = rt_counts T r"
  by (simp add: rt_counts_def members_def rt_overload_due_def)

lemma rt_top_others:
  assumes "rt_queued (rq_rt r) \<longleftrightarrow> \<not> rt_throttled (rq_rt r) \<and> rt_nr_running (rq_rt r) \<noteq> 0"
    and "unat (nr_others r) + unat (rt_nr_running (rq_rt r)) < 2 ^ 32"
  shows "rt_top_ok r"
proof -
  have "rq_nr_running r \<noteq> 0" if q: "rt_queued (rq_rt r)"
  proof
    assume "rq_nr_running r = 0"
    then have "nr_others r + rt_nr_running (rq_rt r) = 0" using q by (simp add: nr_others_def)
    moreover have "unat (nr_others r + rt_nr_running (rq_rt r)) = unat (nr_others r) + unat (rt_nr_running (rq_rt r))"
      using assms(2) by (simp add: unat_word_ariths)
    moreover have "unat (rt_nr_running (rq_rt r)) \<noteq> 0" using q assms(1) by (simp add: unat_eq_0)
    ultimately show False by simp
  qed
  then show ?thesis using assms(1) by (simp add: rt_top_ok_def)
qed

lemma rt_inv_top_bound:
  assumes "rt_lists s'" "\<forall>c. rt_counts (tasks s') (rtq s' c)" "\<And>c. unat (nr_others (rqs s' c)) < 2 ^ 31"
    and "\<And>c. rt_queued (rtq s' c) \<longleftrightarrow> \<not> rt_throttled (rtq s' c) \<and> rt_nr_running (rtq s' c) \<noteq> 0"
  shows "rt_inv s'"
proof -
  have "rt_top_ok (rqs s' c)" for c
  proof (rule rt_top_others[OF assms(4)])
    have "unat (rt_nr_running (rtq s' c)) \<le> 2 ^ 22"
      using rt_nr_running_unat[OF assms(1)] assms(2) members_bound(1)[OF assms(1), of c]
      by (simp add: PID_MAX_LIMIT_def)
    then show "unat (nr_others (rqs s' c)) + unat (rt_nr_running (rtq s' c)) < 2 ^ 32"
      using assms(3)[of c] by simp
  qed
  then show ?thesis using assms by (simp add: rt_inv_def)
qed

lemma rt_inv_parts:
  assumes "rt_inv s"
  shows "rt_lists s" "rt_counts (tasks s) (rtq s c)" "rt_top_ok (rqs s c)" "unat (nr_others (rqs s c)) < 2 ^ 31"
    "rt_array_ok (active (rtq s c))"
    "rt_queued (rtq s c) \<longleftrightarrow> \<not> rt_throttled (rtq s c) \<and> rt_nr_running (rtq s c) \<noteq> 0"
    "rte_on_rq (p_rt (tasks s p)) = rte_on_list (p_rt (tasks s p))"
  using assms unfolding rt_inv_def rt_lists_def rt_top_ok_def by blast+

lemma enqueue_rt_entity_inv:
  assumes "rt_inv s" "\<not> rte_on_list (p_rt (tasks s p))" "move_entity flags"
    "rt_index_ok (p_prio (tasks s p))" "p < PID_MAX_LIMIT"
  shows "rt_inv (enqueue_rt_entity p flags s)" "fault (enqueue_rt_entity p flags s) = fault s"
proof -
  let ?c = "p_cpu (tasks s p)" and ?s' = "enqueue_rt_entity p flags s"
  note I = rt_inv_parts[OF assms(1)]
  have nrq: "\<not> rte_on_rq (p_rt (tasks s p))" using I(7) assms(2) by blast
  note E = enqueue_rt_entity_effect[OF nrq assms(3,4) I(3)]
  show "fault ?s' = fault s" by (rule E(3))
  let ?h = "flag_set flags ENQUEUE_HEAD"
  let ?r0 = "count_in (tasks s p) ((rtq s ?c)\<lparr>active := array_add p (nat (p_prio (tasks s p))) ?h (active (rtq s ?c))\<rparr>)"
  have r: "rtq ?s' d = (if d = ?c then ?r0\<lparr>rt_queued := \<not> rt_throttled ?r0 \<and> rt_nr_running ?r0 \<noteq> 0\<rparr> else rtq s d)" for d
    by (simp add: E(1) Let_def)
  have keys: "rr_one (tasks ?s' q) = rr_one (tasks s q)" "mig_one (tasks ?s' q) = mig_one (tasks s q)" for q
    by (simp_all add: E(2) rr_one_def mig_one_def)
  have "rt_lists ?s'"
    by (rule rt_lists_linked[OF I(1) assms(2,4,5) E(2), of ?h]) (simp_all add: r count_in_def set_overload_mark_def)
  moreover have "rt_counts (tasks ?s') (rtq ?s' d)" for d
  proof (cases "d = ?c")
    case True
    then show ?thesis using rt_counts_in[OF I(2,5) assms(4) keys] by (simp add: r)
  next
    case False
    then show ?thesis using I(2)[of d] by (simp add: r rt_counts_def keys)
  qed
  moreover have "nr_others (rqs ?s' d) = nr_others (rqs s d)" for d by (simp add: E(1))
  ultimately show "rt_inv ?s'" using I(4,6) by (intro rt_inv_top_bound) (simp_all add: r)
qed

lemma dequeue_rt_entity_inv:
  assumes "rt_inv s" "rte_on_list (p_rt (tasks s p))" "move_entity flags"
  shows "rt_inv (dequeue_rt_entity p flags s)" "fault (dequeue_rt_entity p flags s) = fault s"
proof -
  let ?c = "p_cpu (tasks s p)" and ?s' = "dequeue_rt_entity p flags s"
  note I = rt_inv_parts[OF assms(1)]
  have rq: "rte_on_rq (p_rt (tasks s p))" using I(7) assms(2) by blast
  note idx = listed_index[OF I(1) assms(2)]
  note E = dequeue_rt_entity_effect[OF rq assms(3) idx(3) I(3)]
  show "fault ?s' = fault s" by (rule E(3))
  let ?r0 = "count_out (tasks s p) ((rtq s ?c)\<lparr>active := array_delist p (nat (p_prio (tasks s p))) (active (rtq s ?c))\<rparr>)"
  have r: "rtq ?s' d = (if d = ?c then ?r0\<lparr>rt_queued := \<not> rt_throttled ?r0 \<and> rt_nr_running ?r0 \<noteq> 0\<rparr> else rtq s d)" for d
    by (simp add: E(1) Let_def)
  have keys: "rr_one (tasks ?s' q) = rr_one (tasks s q)" "mig_one (tasks ?s' q) = mig_one (tasks s q)" for q
    by (simp_all add: E(2) rr_one_def mig_one_def)
  have "rt_lists ?s'"
    by (rule rt_lists_unlinked[OF I(1) assms(2) E(2)]) (simp_all add: r count_out_def set_overload_mark_def)
  moreover have "rt_counts (tasks ?s') (rtq ?s' d)" for d
  proof (cases "d = ?c")
    case True
    have mem: "p \<in> set (queue (active (rtq s ?c)) ! nat (p_prio (tasks s p)))"
      using assms(2) by (simp only: in_level[OF I(1) idx(1)] idx(2) simp_thms)
    show ?thesis using True rt_counts_out[OF I(2,5) idx(3) mem members_bound(1)[OF I(1)] keys] by (simp add: r)
  next
    case False
    then show ?thesis using I(2)[of d] by (simp add: r rt_counts_def keys)
  qed
  moreover have "nr_others (rqs ?s' d) = nr_others (rqs s d)" for d by (simp add: E(1))
  ultimately show "rt_inv ?s'" using I(4,6) by (intro rt_inv_top_bound) (simp_all add: r)
qed


subsection \<open>Moving a queued task within its level\<close>

lemma array_move_ok:
  assumes "rt_array_ok a" "i < 100" "p \<in> set (queue a ! i)"
  shows "queue (array_move p i h a) =
      (queue a)[i := if h then p # removeAll p (queue a ! i) else removeAll p (queue a ! i) @ [p]]"
    and "rt_array_ok (array_move p i h a)" "bitmap (array_move p i h a) = bitmap a"
    and "mset (concat (queue (array_move p i h a))) = mset (concat (queue a))"
proof -
  let ?l = "queue a ! i"
  let ?y = "if h then p # removeAll p ?l else removeAll p ?l @ [p]"
  have len: "i < length (queue a)" using assms by (simp add: rt_array_ok_def)
  have m: "map (removeAll p) (queue a) = (queue a)[i := removeAll p ?l]"
    using assms by (intro map_removeAll_update) (auto simp: rt_array_ok_def)
  show q: "queue (array_move p i h a) = (queue a)[i := ?y]"
    using len by (simp add: array_move_def Let_def m)
  show b: "bitmap (array_move p i h a) = bitmap a" by (simp add: array_move_def Let_def)
  have "distinct ?l" using assms len by (intro distinct_concat_nth) (auto simp: rt_array_ok_def)
  then have "removeAll p ?l = remove1 p ?l" by (simp add: distinct_remove1_removeAll)
  then have "mset ?y = mset ?l" using assms(3) by simp
  then show ms: "mset (concat (queue (array_move p i h a))) = mset (concat (queue a))"
    using mset_concat_update[OF len, of ?y] by (simp add: q)
  have "map (\<lambda>l. l \<noteq> []) ((queue a)[i := ?y]) = map (\<lambda>l. l \<noteq> []) (queue a)"
    using assms(3) len by (intro nth_equalityI) (auto simp: nth_list_update)
  then show "rt_array_ok (array_move p i h a)"
    using assms(1) b q mset_eq_imp_distinct_iff[OF ms] by (simp add: rt_array_ok_def)
qed

lemma rt_counts_same:
  assumes "rt_counts T r" "mset (members r') = mset (members r)"
    "rt_nr_running r' = rt_nr_running r" "rr_nr_running r' = rr_nr_running r"
    "rt_nr_total r' = rt_nr_total r" "rt_nr_migratory r' = rt_nr_migratory r"
    "highest_prio_curr r' = highest_prio_curr r" "rt_is_overloaded r' = rt_is_overloaded r"
    "bitmap (active r') = bitmap (active r)"
  shows "rt_counts T r'"
  using assms(1) by (simp add: rt_counts_def assms(3-) sum_list_mset_cong[OF assms(2)]
      mset_eq_length[OF assms(2)] rt_overload_due_def)

lemma requeue_task_rt_inv:
  assumes "rt_inv s"
  shows "rt_inv (requeue_task_rt p h s)" "fault (requeue_task_rt p h s) = fault s"
proof -
  let ?c = "p_cpu (tasks s p)" and ?i = "nat (p_prio (tasks s p))" and ?s' = "requeue_task_rt p h s"
  note I = rt_inv_parts[OF assms]
  have "rt_inv ?s' \<and> fault ?s' = fault s"
  proof (cases "rte_on_list (p_rt (tasks s p))")
    case False
    then have "?s' = s" using I(7) by (simp add: requeue_task_rt_def requeue_rt_entity_def on_rt_rq_def)
    then show ?thesis using assms by simp
  next
    case True
    note idx = listed_index[OF I(1) True]
    have mem: "p \<in> set (queue (active (rtq s ?c)) ! ?i)"
      using True by (simp only: in_level[OF I(1) idx(1)] idx(2) simp_thms)
    note mv = array_move_ok[OF I(5) idx(1) mem, of h]
    have eq: "?s' = upd_rt ?c (\<lambda>r. r\<lparr>active := array_move p ?i h (active r)\<rparr>) s"
      using True I(7)[of p] idx(3)
      by (simp add: requeue_task_rt_def requeue_rt_entity_def on_rt_rq_def rt_se_prio_def check_rt_index_def)
    have r: "rtq ?s' d = (if d = ?c then (rtq s d)\<lparr>active := array_move p ?i h (active (rtq s ?c))\<rparr> else rtq s d)" for d
      by (simp add: eq)
    have lvl: "set (queue (active (rtq ?s' d)) ! j) = set (queue (active (rtq s d)) ! j)" if "j < 100" for d j
    proof (cases "d = ?c \<and> j = ?i")
      case True
      then show ?thesis using mem idx(1) I(5)[of ?c] by (auto simp: r mv(1) rt_array_ok_def)
    next
      case False
      then show ?thesis by (auto simp: r mv(1))
    qed
    have "rt_lists ?s'"
      using I(1,5) lvl mv(2) by (auto simp: rt_lists_def r) (simp_all add: eq)
    moreover have "mset (members (rtq ?s' d)) = mset (members (rtq s d))" for d
      using mv(4) by (simp add: r members_def)
    then have "rt_counts (tasks s) (rtq ?s' d)" for d
      using I(2)[of d] mv(3) by (intro rt_counts_same[OF I(2)[of d]]) (simp_all add: r)
    then have "rt_counts (tasks ?s') (rtq ?s' d)" for d by (simp add: eq)
    moreover have "nr_others (rqs ?s' d) = nr_others (rqs s d)" for d by (simp add: eq nr_others_def)
    ultimately have "rt_inv ?s'" using I(4,6) by (intro rt_inv_top_bound) (simp_all add: r)
    then show ?thesis by (simp add: eq)
  qed
  then show "rt_inv ?s'" "fault ?s' = fault s" by blast+
qed

section \<open>Class operations\<close>

lemma if_either:
  "rt_inv a \<Longrightarrow> rt_inv b \<Longrightarrow> rt_inv (if P then a else b)"
  "fault a = e \<Longrightarrow> fault b = e \<Longrightarrow> fault (if P then a else b) = e"
  by simp_all

lemma enqueue_task_rt_inv:
  assumes "rt_inv s" "\<not> rte_on_list (p_rt (tasks s p))" "move_entity flags"
    "rt_index_ok (p_prio (tasks s p))" "p < PID_MAX_LIMIT"
  shows "rt_inv (enqueue_task_rt c p flags s)" "fault (enqueue_task_rt c p flags s) = fault s"
proof -
  let ?s1 = "if flag_set flags ENQUEUE_WAKEUP then upd_rte p (\<lambda>e. e\<lparr>rte_timeout := 0\<rparr>) s else s"
  have q: "rt_quiet s ?s1" by (simp add: quiet_upd_rte)
  note q1 = rt_quiet_inv[OF assms(1) q]
  have "\<not> rte_on_list (p_rt (tasks ?s1 p))" "rt_index_ok (p_prio (tasks ?s1 p))"
    using assms(2,4) by simp_all
  note e = enqueue_rt_entity_inv[OF q1(1) this(1) assms(3) this(2) assms(5)]
  note p1 = rt_quiet_inv[OF e(1) quiet_enqueue_pushable[of _ c p]]
  show "rt_inv (enqueue_task_rt c p flags s)" "fault (enqueue_task_rt c p flags s) = fault s"
    unfolding enqueue_task_rt_def Let_def using e p1 q1(2) by (simp_all only: if_split) simp_all
qed

lemma dequeue_task_rt_inv:
  assumes "rt_inv s" "rte_on_list (p_rt (tasks s p))" "move_entity flags"
  shows "rt_inv (dequeue_task_rt c p flags s)" "fault (dequeue_task_rt c p flags s) = fault s"
proof -
  let ?s1 = "update_curr_rt c s"
  have q: "rt_quiet s ?s1" by (rule quiet)
  note q1 = rt_quiet_inv[OF assms(1) q]
  have "task_key (tasks ?s1 p) = task_key (tasks s p)" using q by (simp only: rt_quiet_def)
  then have "rte_on_list (p_rt (tasks ?s1 p))" using assms(2) by (simp add: task_key_def)
  note e = dequeue_rt_entity_inv[OF q1(1) this assms(3)]
  note p1 = rt_quiet_inv[OF e(1) quiet_dequeue_pushable[of _ c p]]
  show "rt_inv (dequeue_task_rt c p flags s)" "fault (dequeue_task_rt c p flags s) = fault s"
    unfolding dequeue_task_rt_def using p1 e(2) q1(2) by simp_all
qed

lemma quiet_then_requeue:
  assumes "rt_inv s" "rt_quiet s t"
  shows "rt_inv (resched_curr c (requeue_task_rt p h t))" "fault (resched_curr c (requeue_task_rt p h t)) = fault s"
  using rt_quiet_inv[OF requeue_task_rt_inv(1)[OF rt_quiet_inv(1)[OF assms]] quiet_resched_curr[of _ c]]
    requeue_task_rt_inv(2)[OF rt_quiet_inv(1)[OF assms]] rt_quiet_inv(2)[OF assms] by simp_all

lemma task_tick_rt_inv:
  assumes "rt_inv s"
  shows "rt_inv (task_tick_rt soft hard hz c p queued s)" "fault (task_tick_rt soft hard hz c p queued s) = fault s"
proof -
  let ?s1 = "watchdog soft hard hz p (update_curr_rt c s)"
  let ?s2 = "upd_rte p (\<lambda>e. e\<lparr>rte_time_slice := rte_time_slice e - 1\<rparr>) ?s1"
  let ?s3 = "upd_rte p (\<lambda>e. e\<lparr>rte_time_slice := sched_rr_timeslice ?s2\<rparr>) ?s2"
  have 1: "rt_quiet s ?s1" by (rule rt_quiet_trans[OF quiet_update_curr_rt quiet_watchdog])
  have 2: "rt_quiet s ?s2" by (rule rt_quiet_trans[OF 1 quiet_upd_rte]) simp_all
  have 3: "rt_quiet s ?s3" by (rule rt_quiet_trans[OF 2 quiet_upd_rte]) simp_all
  note i = rt_quiet_inv[OF assms 1] rt_quiet_inv[OF assms 2] rt_quiet_inv[OF assms 3]
    quiet_then_requeue[OF assms 3, of c p False]
  show "rt_inv (task_tick_rt soft hard hz c p queued s)"
    unfolding task_tick_rt_def Let_def by (intro if_either i)
  show "fault (task_tick_rt soft hard hz c p queued s) = fault s"
    unfolding task_tick_rt_def Let_def by (intro if_either i)
qed

lemma check_preempt_curr_rt_inv:
  assumes "rt_inv s"
  shows "rt_inv (check_preempt_curr_rt cf c p flags s)" "fault (check_preempt_curr_rt cf c p flags s) = fault s"
  using assms rt_quiet_inv[OF assms quiet_resched_curr[of s c]] quiet_then_requeue[OF assms rt_quiet_refl, of c p True]
  by (auto simp: check_preempt_curr_rt_def check_preempt_equal_prio_def Let_def)

lemma put_prev_task_rt_quiet: "rt_quiet s (put_prev_task_rt c p s)"
  using rt_quiet_trans[OF quiet_update_curr_rt quiet_enqueue_pushable] quiet_update_curr_rt
  by (auto simp: put_prev_task_rt_def Let_def)

lemma set_curr_task_rt_quiet: "rt_quiet s (set_curr_task_rt c s)"
  unfolding set_curr_task_rt_def Let_def
  by (rule rt_quiet_trans[OF quiet_upd_task quiet_dequeue_pushable]) (simp add: task_key_def)

text \<open>
  The operations the core invokes on the class, in any order.  A task that is not on the class's
  lists may change arbitrarily (its policy, priority, CPU and affinity are set while it is off the
  queue).
\<close>

inductive rt_step :: "sys \<Rightarrow> sys \<Rightarrow> bool" where
  rt_enqueue: "\<not> rte_on_list (p_rt (tasks s p)) \<Longrightarrow> move_entity flags \<Longrightarrow> rt_index_ok (p_prio (tasks s p)) \<Longrightarrow>
     p < PID_MAX_LIMIT \<Longrightarrow> rt_step s (enqueue_task_rt c p flags s)"
| rt_dequeue: "rte_on_list (p_rt (tasks s p)) \<Longrightarrow> move_entity flags \<Longrightarrow> rt_step s (dequeue_task_rt c p flags s)"
| rt_yield: "rt_step s (yield_task_rt c s)"
| rt_tick: "rt_step s (task_tick_rt soft hard hz c p queued s)"
| rt_preempt: "rt_step s (check_preempt_curr_rt cf c p flags s)"
| rt_put_prev: "rt_step s (put_prev_task_rt c p s)"
| rt_set_curr: "rt_step s (set_curr_task_rt c s)"
| rt_period: "rt_step s (snd (sched_rt_period_timer ns s))"
| rt_switch: "rt_step s (upd_rq c (\<lambda>r. r\<lparr>rq_curr := p\<rparr>) s)"
| rt_clock: "rt_step s (update_rq_clock c s)"
| rt_edit: "\<not> rte_on_list (p_rt (tasks s p)) \<Longrightarrow> (\<And>t. p_rt (f t) = p_rt t) \<Longrightarrow> rt_step s (upd_task p f s)"

inductive rt_reachable :: "sys \<Rightarrow> sys \<Rightarrow> bool" for s0 where
  rt_start: "rt_reachable s0 s0"
| rt_next: "rt_reachable s0 s \<Longrightarrow> rt_step s t \<Longrightarrow> rt_reachable s0 t"

definition rt_good :: "sys \<Rightarrow> bool" where
  "rt_good s \<longleftrightarrow> rt_inv s \<and> fault s = None"

lemma rt_inv_edit:
  assumes "rt_inv s" "\<not> rte_on_list (p_rt (tasks s p))" "\<And>t. p_rt (f t) = p_rt t"
  shows "rt_inv (upd_task p f s)"
proof -
  let ?s' = "upd_task p f s"
  note I = rt_inv_parts[OF assms(1)]
  have nrq: "\<not> rte_on_rq (p_rt (tasks s p))" using I(7) assms(2) by blast
  have nm: "p \<notin> set (members (rtq s c))" for c by (rule not_member[OF I(1) assms(2)])
  have "rt_lists ?s'"
    using I(1) assms(2,3) nrq unfolding rt_lists_def by (auto simp: Collect_mono_iff)
  moreover have "rt_counts (tasks ?s') (rtq ?s' c)" for c
  proof -
    have "map (\<lambda>q. rr_one (tasks ?s' q)) (members (rtq s c)) = map (\<lambda>q. rr_one (tasks s q)) (members (rtq s c))"
      "map (\<lambda>q. mig_one (tasks ?s' q)) (members (rtq s c)) = map (\<lambda>q. mig_one (tasks s q)) (members (rtq s c))"
      using nm[of c] by (auto intro!: map_cong)
    then show ?thesis using I(2)[of c] by (simp only: rt_counts_def rqs_upd_task)
  qed
  ultimately show ?thesis using assms(1) by (simp add: rt_inv_def)
qed

lemma rt_step_good: "rt_step s t \<Longrightarrow> rt_good s \<Longrightarrow> rt_good t"
proof (induction rule: rt_step.induct)
  case (rt_edit s p f)
  then show ?case using rt_inv_edit by (simp add: rt_good_def)
next
  case (rt_switch s c p)
  have "rt_quiet s (upd_rq c (\<lambda>r. r\<lparr>rq_curr := p\<rparr>) s)" by (rule rt_quiet_same) simp_all
  then show ?case using rt_switch rt_quiet_inv unfolding rt_good_def by metis
next
  case (rt_yield s c)
  then show ?case by (simp add: rt_good_def yield_task_rt_def requeue_task_rt_inv)
qed (simp_all add: rt_good_def enqueue_task_rt_inv dequeue_task_rt_inv task_tick_rt_inv
      check_preempt_curr_rt_inv rt_quiet_inv[OF _ put_prev_task_rt_quiet]
      rt_quiet_inv[OF _ set_curr_task_rt_quiet] rt_quiet_inv[OF _ quiet_period_timer]
      rt_quiet_inv[OF _ quiet_update_rq_clock])


section \<open>Properties of the real-time queues\<close>

lemma boot_rt: "rtq boot_sys c = boot_rt_rq" "tasks boot_sys 5 = boot_task" "tasks boot_sys 6 = boot_task"
  "rq_nr_running (rqs boot_sys c) = 0" "fault boot_sys = None"
  "\<not> rte_on_list (p_rt (tasks boot_sys p))" "\<not> rte_on_rq (p_rt (tasks boot_sys p))"
  by (simp_all add: boot_sys_def boot_rq_def boot_task_def)

lemma boot_rt_inv: "rt_inv boot_sys"
proof (rule rt_inv_top_bound)
  have "rt_array_ok (active boot_rt_rq)" by (simp add: rt_array_ok_def boot_rt_rq_def)
  moreover have "queue (active boot_rt_rq) = replicate 100 []" by (simp add: boot_rt_rq_def)
  ultimately show "rt_lists boot_sys" by (simp add: rt_lists_def boot_rt)
  have "sched_find_first_bit (bitmap (active boot_rt_rq)) = 100"
    by (simp add: boot_rt_rq_def sched_find_first_bit_def find_index_append) (simp add: numeral_eq_Suc)
  then show "\<forall>c. rt_counts (tasks boot_sys) (rtq boot_sys c)"
    by (simp add: boot_rt rt_counts_def members_def) (simp add: boot_rt_rq_def rt_overload_due_def)
  show "unat (nr_others (rqs boot_sys c)) < 2 ^ 31" for c by (simp add: nr_others_def boot_rt) (simp add: boot_rt_rq_def)
  show "rt_queued (rtq boot_sys c) \<longleftrightarrow> \<not> rt_throttled (rtq boot_sys c) \<and> rt_nr_running (rtq boot_sys c) \<noteq> 0" for c
    by (simp add: boot_rt) (simp add: boot_rt_rq_def)
qed

text \<open>Task 5 made a real-time task of priority 10 and queued.\<close>

definition rt_demo :: sys where
  "rt_demo = upd_task 5 (\<lambda>t. t\<lparr>p_prio := 10, p_policy := SCHED_RR, p_sched_class := Rt_class\<rparr>) boot_sys"

lemma rt_demo: "rt_inv rt_demo" "p_prio (tasks rt_demo 5) = 10" "\<not> rte_on_list (p_rt (tasks rt_demo p))"
  "p_cpu (tasks rt_demo 5) = 0" "fault rt_demo = None" "rqs rt_demo = rqs boot_sys"
  "p_policy (tasks rt_demo 5) = SCHED_RR" "rte_time_slice (p_rt (tasks rt_demo 5)) = 100"
proof -
  show "rt_inv rt_demo" unfolding rt_demo_def using boot_rt_inv boot_rt(6) by (rule rt_inv_edit) simp
  show "p_prio (tasks rt_demo 5) = 10" "\<not> rte_on_list (p_rt (tasks rt_demo p))"
    "p_cpu (tasks rt_demo 5) = 0" "fault rt_demo = None" "rqs rt_demo = rqs boot_sys"
    "p_policy (tasks rt_demo 5) = SCHED_RR" "rte_time_slice (p_rt (tasks rt_demo 5)) = 100"
    by (simp_all add: rt_demo_def boot_rt) (simp_all add: boot_sys_def boot_task_def)
qed

lemma move_wakeup: "move_entity ENQUEUE_WAKEUP"
  by (simp add: move_entity_def queue_flag_defs)

lemma rt_demo_queued:
  defines "s \<equiv> enqueue_task_rt 0 5 ENQUEUE_WAKEUP rt_demo"
  shows "rt_inv s" "rte_on_list (p_rt (tasks s q)) \<longleftrightarrow> q = 5" "p_cpu (tasks s 5) = 0"
    "p_policy (tasks s 5) = SCHED_RR" "rte_time_slice (p_rt (tasks s 5)) = 100"
proof -
  have d: "rt_index_ok (p_prio (tasks rt_demo 5))" "5 < PID_MAX_LIMIT"
    using rt_demo by (simp_all add: rt_index_ok_def MAX_RT_PRIO_def PID_MAX_LIMIT_def)
  show "rt_inv s" unfolding s_def
    by (rule enqueue_task_rt_inv(1)[OF rt_demo(1,3) move_wakeup d])
  let ?s1 = "upd_rte 5 (\<lambda>e. e\<lparr>rte_timeout := 0\<rparr>) rt_demo"
  have I1: "rt_inv ?s1" by (rule rt_quiet_inv(1)[OF rt_demo(1) quiet_upd_rte]) simp_all
  have t: "\<not> rte_on_rq (p_rt (tasks ?s1 5))" "rt_index_ok (p_prio (tasks ?s1 5))"
    using d rt_inv_parts(7)[OF rt_demo(1), of 5] rt_demo(3)[of 5] by simp_all
  note E = enqueue_rt_entity_effect(2)[OF t(1) move_wakeup t(2) rt_inv_parts(3)[OF I1]]
  have "flag_set ENQUEUE_WAKEUP ENQUEUE_WAKEUP" by (simp add: flag_set_def ENQUEUE_WAKEUP_def)
  then have "tasks s = tasks (enqueue_rt_entity 5 ENQUEUE_WAKEUP ?s1)"
    by (simp add: s_def enqueue_task_rt_def Let_def enqueue_pushable_task_def)
  then show "rte_on_list (p_rt (tasks s q)) \<longleftrightarrow> q = 5" "p_cpu (tasks s 5) = 0"
    "p_policy (tasks s 5) = SCHED_RR" "rte_time_slice (p_rt (tasks s 5)) = 100"
    using rt_demo(3)[of q] rt_demo(4,7,8) by (simp_all add: E rt_linked_def)
qed



text \<open>What the bitmap search finds in a state of the invariant.\<close>

lemma rt_pick_best:
  assumes "rt_inv s"
  shows "case pick_next_rt_entity s c of
      None \<Rightarrow> (\<forall>q. rte_on_list (p_rt (tasks s q)) \<longrightarrow> p_cpu (tasks s q) \<noteq> c)
    | Some p \<Rightarrow> rte_on_list (p_rt (tasks s p)) \<and> p_cpu (tasks s p) = c \<and>
        p_prio (tasks s p) = highest_prio_curr (rtq s c) \<and>
        p = hd (queue (active (rtq s c)) ! nat (p_prio (tasks s p))) \<and>
        (\<forall>q. rte_on_list (p_rt (tasks s q)) \<and> p_cpu (tasks s q) = c \<longrightarrow> p_prio (tasks s p) \<le> p_prio (tasks s q))"
proof -
  note I = rt_inv_parts[OF assms]
  let ?a = "active (rtq s c)"
  have lv: "q \<in> set (queue ?a ! nat (p_prio (tasks s q)))" if "rte_on_list (p_rt (tasks s q))" "p_cpu (tasks s q) = c" for q
    using that listed_index[OF I(1) that(1)] by (simp only: in_level[OF I(1) listed_index(1)[OF I(1) that(1)]] simp_thms)
  show ?thesis
  proof (cases "find_index (\<lambda>l. l \<noteq> []) (queue ?a)")
    case None
    then have e: "\<And>l. l \<in> set (queue ?a) \<Longrightarrow> l = []" by (simp add: find_index_None)
    have "length (queue ?a) = 100" using I(5) by (simp add: rt_array_ok_def)
    then have "queue ?a ! j = []" if "j < 100" for j using that by (intro e nth_mem) simp
    then have "\<forall>q. rte_on_list (p_rt (tasks s q)) \<longrightarrow> p_cpu (tasks s q) \<noteq> c"
      using lv listed_index(1)[OF I(1)] by (metis empty_iff empty_set)
    then show ?thesis by (simp add: pick_next_rt_entity_array array_first_levels[OF I(5)] None)
  next
    case (Some i)
    then have i: "i < 100" "queue ?a ! i \<noteq> []" "\<And>j. j < i \<Longrightarrow> queue ?a ! j = []"
      using I(5)[of c] by (auto simp: find_index_Some rt_array_ok_def)
    let ?p = "hd (queue ?a ! i)"
    have p: "rte_on_list (p_rt (tasks s ?p))" "p_cpu (tasks s ?p) = c" "p_prio (tasks s ?p) = int i"
      using in_level[OF I(1) i(1), of ?p c] i(2) by simp_all
    have "highest_prio_curr (rtq s c) = int i"
      using I(2)[of c] find_first_bit_levels[OF I(5)] Some by (simp add: rt_counts_def)
    moreover have "int i \<le> p_prio (tasks s q)" if q: "rte_on_list (p_rt (tasks s q))" "p_cpu (tasks s q) = c" for q
    proof -
      have "\<not> nat (p_prio (tasks s q)) < i" using lv[OF q] i(3) by (metis empty_iff empty_set)
      then show ?thesis using listed_index(2)[OF I(1) q(1)] by linarith
    qed
    ultimately show ?thesis using p by (simp add: pick_next_rt_entity_array array_first_levels[OF I(5)] Some)
  qed
qed

text \<open>
  In a state of the invariant the pick of a CPU is \<open>None\<close> exactly when no listed task
  belongs to the CPU; otherwise it is a listed task of that CPU whose priority is the cached highest
  one, no listed task of the CPU has a better one, and it is the first of its list.
\<close>

theorem rt_pick_is_best:
  assumes "rt_inv s"
  shows "case pick_next_rt_entity s c of
      None \<Rightarrow> (\<forall>q. rte_on_list (p_rt (tasks s q)) \<longrightarrow> p_cpu (tasks s q) \<noteq> c)
    | Some p \<Rightarrow> rte_on_list (p_rt (tasks s p)) \<and> p_cpu (tasks s p) = c \<and>
        p_prio (tasks s p) = highest_prio_curr (rtq s c) \<and>
        p = hd (queue (active (rtq s c)) ! nat (p_prio (tasks s p))) \<and>
        (\<forall>q. rte_on_list (p_rt (tasks s q)) \<and> p_cpu (tasks s q) = c \<longrightarrow> p_prio (tasks s p) \<le> p_prio (tasks s q))"
  by (rule rt_pick_best[OF assms])

theorem rt_pick_is_best_witness:
  "pick_next_rt_entity rt_demo 0 = None \<and>
   pick_next_rt_entity (enqueue_task_rt 0 5 ENQUEUE_WAKEUP rt_demo) 0 = Some 5"
proof
  show "pick_next_rt_entity rt_demo 0 = None"
    using rt_pick_is_best[OF rt_demo(1), of 0] rt_demo(3) by (auto split: option.splits)
  let ?s = "enqueue_task_rt 0 5 ENQUEUE_WAKEUP rt_demo"
  show "pick_next_rt_entity ?s 0 = Some 5"
    using rt_pick_is_best[OF rt_demo_queued(1), of 0] rt_demo_queued(2-) by (auto split: option.splits if_splits)
qed

text \<open>
  Enqueueing a task adds one to the run queue's count of runnable tasks unless the class
  is throttled there, in which case the count is unchanged; the tasks of the other classes are never
  miscounted.
\<close>

theorem enqueue_task_rt_nr_running:
  assumes "rt_inv s" "\<not> rte_on_list (p_rt (tasks s p))" "move_entity flags"
    "rt_index_ok (p_prio (tasks s p))" "p < PID_MAX_LIMIT" "p_cpu (tasks s p) = c"
  shows "rq_nr_running (rqs (enqueue_task_rt c p flags s) c) =
     rq_nr_running (rqs s c) + (if rt_throttled (rtq s c) then 0 else 1)"
proof -
  let ?s1 = "if flag_set flags ENQUEUE_WAKEUP then upd_rte p (\<lambda>e. e\<lparr>rte_timeout := 0\<rparr>) s else s"
  have I1: "rt_inv ?s1" using rt_quiet_inv(1)[OF assms(1), of ?s1] by (simp add: quiet_upd_rte)
  note I = rt_inv_parts[OF I1]
  have t: "\<not> rte_on_rq (p_rt (tasks ?s1 p))" "rt_index_ok (p_prio (tasks ?s1 p))" "p_cpu (tasks ?s1 p) = c"
    "rqs ?s1 = rqs s"
    using assms(2,4,6) rt_inv_parts(7)[OF assms(1), of p] by simp_all
  note E = enqueue_rt_entity_effect[OF t(1) assms(3) t(2) I(3)]
  let ?h = "flag_set flags ENQUEUE_HEAD"
  have "rq_nr_running (rqs (enqueue_task_rt c p flags s) c) = rq_nr_running (rqs (enqueue_rt_entity p flags ?s1) c)"
    unfolding enqueue_task_rt_def Let_def by (simp add: enqueue_pushable_task_def Let_def)
  also have "\<dots> = rq_nr_running (put_in p (tasks ?s1 p) ?h (rqs s c))"
    unfolding E(1) t(3,4) by simp
  also have "\<dots> = nr_others (rqs s c) + (if rt_throttled (rtq s c) then 0 else rt_nr_running (rtq s c) + 1)"
  proof -
    let ?r = "put_in p (tasks ?s1 p) ?h (rqs s c)"
    have n: "unat (rt_nr_running (rtq s c)) \<le> 2 ^ 22"
      using rt_nr_running_unat[OF rt_inv_parts(1,2)[OF assms(1)]] members_bound(1)[OF rt_inv_parts(1)[OF assms(1)], of c]
      by (simp add: PID_MAX_LIMIT_def)
    then have "unat (rt_nr_running (rtq s c) + 1) = unat (rt_nr_running (rtq s c)) + 1"
      by (simp add: unat_word_ariths)
    then have nz: "rt_nr_running (rtq s c) + 1 \<noteq> 0" by (metis add_eq_0_iff_both_eq_0 one_neq_zero unat_0)
    have "rq_nr_running ?r = nr_others ?r + (if rt_queued (rq_rt ?r) then rt_nr_running (rq_rt ?r) else 0)"
      by (simp only: nr_others_def) simp
    then show ?thesis using nz by (simp add: Let_def count_in_def set_overload_mark_def)
  qed
  also have "\<dots> = rq_nr_running (rqs s c) + (if rt_throttled (rtq s c) then 0 else 1)"
    using rt_inv_parts(6)[OF assms(1), of c] by (auto simp: nr_others_def)
  finally show ?thesis .
qed

theorem enqueue_task_rt_nr_running_witness:
  "rq_nr_running (rqs (enqueue_task_rt 0 5 ENQUEUE_WAKEUP rt_demo) 0) = 1"
  using enqueue_task_rt_nr_running[OF rt_demo(1) rt_demo(3) move_wakeup, of 5 0] rt_demo
  by (simp add: rt_index_ok_def MAX_RT_PRIO_def PID_MAX_LIMIT_def boot_rt) (simp add: boot_rt_rq_def)

end
