(* ===== verification/Sched_Dispatch.thy ===== *)
theory Sched_Dispatch
  imports Sched_Core Sched_Rt_Inv
begin

text \<open>
  Results on the scheduler's main path that span the classes: which class's task
  \<open>pick_next_task\<close> returns, on its shortcut for the fair class and after a time-sharing task; that a
  context switch keeps the reference counts of borrowed address spaces; and \<open>sched_yield\<close> from the
  system call to the switch.  The classes that are not in this source tree appear through what the
  properties assume of them; \<open>quiet_env\<close> is an environment in which they have nothing to run.
\<close>

section \<open>Classes with nothing to run\<close>

definition no_ops :: class_ops where
  "no_ops = \<lparr>op_enqueue_task = (\<lambda>c p f s. s), op_dequeue_task = (\<lambda>c p f s. s), op_yield_task = (\<lambda>c s. s),
     op_check_preempt_curr = (\<lambda>c p f s. s), op_pick_next_task = (\<lambda>c p s. (No_task, s)),
     op_put_prev_task = (\<lambda>c p s. s), op_select_task_rq = (\<lambda>p c sf f s. c), op_migrate_task_rq = (\<lambda>p c s. s),
     op_task_woken = (\<lambda>c p s. s), op_set_cpus_allowed = set_cpus_allowed_common, op_set_curr_task = (\<lambda>c s. s),
     op_task_tick = (\<lambda>c p q s. s), op_task_fork = (\<lambda>p s. s), op_task_dead = (\<lambda>p s. s),
     op_switched_from = (\<lambda>c p s. s), op_switched_to = (\<lambda>c p s. s), op_prio_changed = (\<lambda>c p old s. s),
     op_get_rr_interval = (\<lambda>c p s. 0), op_update_curr = (\<lambda>c s. s)\<rparr>"

definition idle_ops :: class_ops where
  "idle_ops = no_ops\<lparr>op_pick_next_task := (\<lambda>c p s. (Picked (rq_idle (rqs s c)), s))\<rparr>"

definition quiet_env :: kenv where
  "quiet_env = \<lparr>e_stop = no_ops, e_dl = no_ops, e_fair = no_ops, e_idle = idle_ops,
     e_cpupri_find = (\<lambda>s p. None), e_domains = (\<lambda>c. []), e_double_lock = (\<lambda>c d s. (False, s)),
     e_rttime = (\<lambda>p. (0, 0)), e_hz = 1000, e_signal_pending = (\<lambda>s p. False), e_wq_sleeping = (\<lambda>s p. None),
     e_wq_waking = (\<lambda>p c s. s), e_wait_off_cpu = (\<lambda>p s. s), e_node_mask = (\<lambda>c. None),
     e_cpuset_fallback = (\<lambda>p s. s), e_llc_id = (\<lambda>c. 0), e_reweight = (\<lambda>p w s. s),
     e_load_balance = (\<lambda>c s. s), e_fuel = 3\<rparr>"

section \<open>Two time-sharing tasks on one CPU\<close>

definition ts_demo_task :: "task_struct \<Rightarrow> task_struct" where
  "ts_demo_task t = t\<lparr>p_policy := SCHED_TS, p_sched_class := Ts_class, p_on_rq := 1,
     p_ts := \<lparr>ts_list = Linked, ts_time_slice = 12\<rparr>\<rparr>"

definition ts_demo :: sys where
  "ts_demo = upd_rq 0 (\<lambda>rq. rq\<lparr>rq_curr := 5, rq_ts := \<lparr>ts_queue = (replicate 40 [])[19 := [5, 6]]\<rparr>\<rparr>)
     (upd_task 6 ts_demo_task (upd_task 5 ts_demo_task boot_sys))"

lemma ts_demo_queues: "ts_queues ts_demo c = (if c = 0 then (replicate 40 [])[19 := [5, 6]] else replicate 40 [])"
  using boot_ts_queues[of c] by (simp add: ts_demo_def ts_queues_def)

lemma ts_demo_members: "ts_members ts_demo c = (if c = 0 then [5, 6] else [])"
  by (simp add: ts_members_def ts_demo_queues) (simp add: numeral_eq_Suc)

lemma ts_demo_linked: "ts_linked ts_demo p \<longleftrightarrow> p = 5 \<or> p = 6"
  using boot_ts_linked[of p] by (simp add: ts_linked_def ts_demo_def ts_demo_task_def)

lemma ts_demo_fields: "p_prio (tasks ts_demo p) = 120" "ts_time_slice (p_ts (tasks ts_demo 5)) = 12"
  "ts_time_slice (p_ts (tasks ts_demo 6)) = 12" "p_sched_class (tasks ts_demo 5) = Ts_class" "fault ts_demo = None"
  "p_state (tasks ts_demo 5) = 0" "\<not> p_need_resched (tasks ts_demo 6)" "rq_balance_callback (rqs ts_demo 0) = []"
  "rq_curr (rqs ts_demo 0) = 5" "this_cpu ts_demo = 0" "rqs ts_demo 1 = boot_rq 1"
  "rq_prev_mm (rqs ts_demo 0) = None" "p_mm (tasks ts_demo 5) = Some 1" "p_mm (tasks ts_demo 0) = None"
  "p_active_mm (tasks ts_demo 0) = Some 0" "rtq ts_demo c = boot_rt_rq" "p_sched_class (tasks ts_demo 6) = Ts_class"
  by (simp_all add: ts_demo_def ts_demo_task_def boot_sys_def boot_task_def boot_rq_def)

lemma ts_demo_good: "ts_good ts_demo"
  by (auto simp: ts_good_def ts_inv_def ts_demo_members ts_demo_linked ts_slice_ok_def ts_demo_fields
      ts_demo_queues MAX_TS_PRIO_def)

lemma ts_demo_rt_inv: "rt_inv ts_demo"
proof -
  have "rt_inv (upd_task 5 ts_demo_task boot_sys)"
    using boot_rt_inv boot_rt(6) by (rule rt_inv_edit) (simp add: ts_demo_task_def)
  then have "rt_inv (upd_task 6 ts_demo_task (upd_task 5 ts_demo_task boot_sys))"
    by (rule rt_inv_edit) (simp_all add: boot_rt boot_task_def ts_demo_task_def)
  then show ?thesis
    unfolding ts_demo_def by (rule rt_quiet_inv(1)) (rule rt_quiet_same; simp)
qed

lemma quiet_env_picks:
  "op_pick_next_task (e_stop quiet_env) c p u = (No_task, u)" "op_pick_next_task (e_dl quiet_env) c p u = (No_task, u)"
  "op_pick_next_task (e_fair quiet_env) c p u = (No_task, u)"
  "op_pick_next_task (e_idle quiet_env) c p u = (Picked (rq_idle (rqs u c)), u)" "e_fuel quiet_env = 3"
  by (simp_all add: quiet_env_def no_ops_def idle_ops_def)

section \<open>The shortcut for the fair class\<close>

lemma ts_list_ops_more:
  "rq_idle (rqs (ts_list_add_tail p c idx s) d) = rq_idle (rqs s d)"
  "rq_idle (rqs (ts_list_del p s) d) = rq_idle (rqs s d)"
  by (simp_all add: ts_list_add_tail_def ts_list_del_def set_ts_node_def ts_unlink_def)

definition same_counts :: "sys \<Rightarrow> sys \<Rightarrow> bool" where
  "same_counts s t \<longleftrightarrow>
     (\<forall>c. rq_nr_running (rqs t c) = rq_nr_running (rqs s c) \<and>
          rq_cfs_h_nr_running (rqs t c) = rq_cfs_h_nr_running (rqs s c) \<and> rq_idle (rqs t c) = rq_idle (rqs s c)) \<and>
     (\<forall>p. p_sched_class (tasks t p) = p_sched_class (tasks s p))"

lemma same_counts_fast: "same_counts s t \<Longrightarrow> fair_fast_path t c prev = fair_fast_path s c prev"
  by (simp add: same_counts_def fair_fast_path_def)

lemma same_counts_move: "same_counts s (ts_list_move_tail p c idx s)"
  by (simp add: same_counts_def ts_list_move_tail_def ts_list_ops_more)

lemma same_counts_trans: "same_counts s t \<Longrightarrow> same_counts t u \<Longrightarrow> same_counts s u"
  by (simp add: same_counts_def)

lemma same_counts_resched: "same_counts s (resched_curr c s)"
  by (simp add: same_counts_def)

lemma same_counts_upd: "(\<And>t. p_sched_class (f t) = p_sched_class t) \<Longrightarrow> same_counts s (upd_task p f s)"
  by (simp add: same_counts_def)

lemma ts_step_counts: "ts_step s t \<Longrightarrow> same_counts s t"
proof (induction rule: ts_step.induct)
  case (ts_enqueue s p c flags)
  then show ?case by (simp add: same_counts_def enqueue_task_ts_def Let_def ts_list_ops_more)
next
  case (ts_dequeue s p c flags)
  then show ?case by (simp add: same_counts_def dequeue_task_ts_def ts_list_ops_more)
next
  case (ts_yield s c)
  then show ?case by (simp add: yield_task_ts_def Let_def same_counts_move)
next
  case (ts_tick s p c queued)
  show ?case
    by (simp add: task_tick_ts_def Let_def same_counts_def ts_list_move_tail_def ts_list_ops_more)
next
  case (ts_preempt s c p flags)
  then show ?case by (simp add: check_preempt_curr_ts_def same_counts_def)
qed

lemma ts_run_counts: "ts_reachable s t \<Longrightarrow> same_counts s t"
  by (induction rule: ts_reachable.induct) (auto simp: same_counts_def dest: ts_step_counts)

section \<open>The walk over the classes\<close>

lemma ts_scan_None: "ts_scan qs n = None \<longleftrightarrow> (\<forall>i<n. qs ! i = [])"
  by (induction n) (auto simp: less_Suc_eq)

lemma ts_scan_Some:
  "ts_scan qs n = Some p \<Longrightarrow> \<exists>i<n. qs ! i \<noteq> [] \<and> p = hd (qs ! i) \<and> (\<forall>j. i < j \<and> j < n \<longrightarrow> qs ! j = [])"
proof (induction n)
  case (Suc n)
  show ?case
  proof (cases "qs ! n = []")
    case True
    with Suc obtain i where "i < n" "qs ! i \<noteq> []" "p = hd (qs ! i)" "\<forall>j. i < j \<and> j < n \<longrightarrow> qs ! j = []" by auto
    with True show ?thesis by (intro exI[of _ i]) (auto simp: less_Suc_eq)
  next
    case False
    with Suc.prems show ?thesis by (intro exI[of _ n]) auto
  qed
qed simp

lemma rt_highest_bound: "rt_inv s \<Longrightarrow> highest_prio_curr (rtq s c) \<le> 100"
proof -
  assume a: "rt_inv s"
  note I = rt_inv_parts[OF a]
  have "highest_prio_curr (rtq s c) = int (sched_find_first_bit (bitmap (active (rtq s c))))"
    using I(2)[of c] by (simp add: rt_counts_def)
  then show ?thesis
    using find_first_bit_levels[OF I(5)[of c]] I(5)[of c]
    by (auto simp: rt_array_ok_def find_index_Some split: option.splits)
qed

lemma rt_queued_pick:
  assumes "rt_inv s" "rt_queued (rtq s c)"
  obtains p where "pick_next_rt_entity s c = Some p"
proof -
  note I = rt_inv_parts[OF assms(1)]
  have "members (rtq s c) \<noteq> []"
    using I(2)[of c] I(6)[of c] assms(2) by (auto simp: rt_counts_def)
  then obtain l where "l \<in> set (queue (active (rtq s c)))" "l \<noteq> []" by (auto simp: members_def)
  then have "find_index (\<lambda>l. l \<noteq> []) (queue (active (rtq s c))) \<noteq> None" by (auto simp: find_index_None)
  then show ?thesis using that
    by (auto simp: pick_next_rt_entity_array array_first_levels[OF I(5)])
qed

lemma pick_next_task_rt_after_ts:
  assumes "rt_inv s" "p_sched_class (tasks s prev) = Ts_class" "100 \<le> p_prio (tasks s prev)"
  shows "\<not> rt_queued (rtq s c) \<Longrightarrow> pick_next_task_rt e c prev s = (No_task, s)"
    and "rt_queued (rtq s c) \<Longrightarrow> pick_next_rt_entity s c = Some p \<Longrightarrow> \<exists>u. pick_next_task_rt e c prev s = (Picked p, u)"
  using rt_highest_bound[OF assms(1), of c] assms(2,3)
  by (simp_all add: pick_next_task_rt_def need_pull_rt_task_def put_prev_task_def put_prev_task_ts_def
      pick_next_task_rt_inner_def)

lemma pick_next_task_ts_prev:
  assumes "p_sched_class (tasks s prev) = Ts_class" "100 \<le> p_prio (tasks s prev)" "0 < e_fuel e"
    and "op_pick_next_task (e_stop e) c prev s = (No_task, s)" "op_pick_next_task (e_dl e) c prev s = (No_task, s)"
    and "highest_prio_curr (rtq s c) \<le> 100" "\<not> rt_queued (rtq s c)"
    and "i < MAX_TS_PRIO" "ts_queues s c ! i = p # ps" "\<And>j. i < j \<Longrightarrow> j < MAX_TS_PRIO \<Longrightarrow> ts_queues s c ! j = []"
  shows "pick_next_task e c prev s = (Some p, s)"
proof -
  obtain n where n: "e_fuel e = Suc n" using assms(3) gr0_implies_Suc by blast
  have rt: "pick_next_task_rt e c prev s = (No_task, s)"
    using assms(1,2,6,7) by (simp add: pick_next_task_rt_def need_pull_rt_task_def)
  have "ts_scan (ts_queues s c) MAX_TS_PRIO \<noteq> None" using assms(8,9) by (auto simp: ts_scan_None)
  then obtain q where q: "ts_scan (ts_queues s c) MAX_TS_PRIO = Some q" by blast
  then obtain k where k: "k < MAX_TS_PRIO" "ts_queues s c ! k \<noteq> []" "q = hd (ts_queues s c ! k)"
    "\<forall>j. k < j \<and> j < MAX_TS_PRIO \<longrightarrow> ts_queues s c ! j = []" using ts_scan_Some by blast
  with assms(8-10) have "k = i" by (metis linorder_neqE_nat list.distinct(1))
  then have "q = p" using k(3) assms(9) by simp
  then show ?thesis
    using n rt assms(1,4,5) q
    by (simp add: pick_next_task_def fair_fast_path_def class_order_def class_pick_next_task_def
        pick_next_task_ts_def put_prev_task_def put_prev_task_ts_def)
qed

section \<open>Context switch\<close>

text \<open>Whether a task without an address space of its own is using \<open>m\<close>.\<close>

definition borrows :: "sys \<Rightarrow> task_id \<Rightarrow> nat \<Rightarrow> int" where
  "borrows s p m = (if p_mm (tasks s p) = None \<and> p_active_mm (tasks s p) = Some m then 1 else 0)"

lemma mm_count_upd [simp]:
  "mm_count (upd_task p f s) = mm_count s" "mm_count (upd_rq c g s) = mm_count s"
  by (simp_all add: upd_task_def upd_rq_def)

lemma mm_ref_frame [simp]:
  "tasks (mmgrab x s) = tasks s" "rqs (mmgrab x s) = rqs s" "tasks (mmdrop x s) = tasks s" "rqs (mmdrop x s) = rqs s"
  "this_cpu (mmgrab x s) = this_cpu s" "this_cpu (mmdrop x s) = this_cpu s"
  "fault (mmgrab x s) = fault s" "fault (mmdrop x s) = fault s"
  "rds (mmgrab x s) = rds s" "rds (mmdrop x s) = rds s"
  by (simp_all add: mmgrab_def mmdrop_def split: option.splits)

lemma mm_count_grab [simp]:
  "mm_count (mmgrab x s) m = mm_count s m + (if x = Some m then 1 else 0)"
  "mm_count (mmdrop x s) m = mm_count s m - (if x = Some m then 1 else 0)"
  by (simp_all add: mmgrab_def mmdrop_def split: option.splits)

lemmas switch_defs = context_switch_def prepare_task_def finish_task_switch_def finish_task_def clear_clock_skip_def Let_def


lemma finish_switch_frame:
  assumes "p_state (tasks s prev) \<noteq> TASK_DEAD"
  shows "tasks (finish_task_switch e c prev s) = (tasks s)(prev := (tasks s prev)\<lparr>p_on_cpu := False\<rparr>)"
    "rqs (finish_task_switch e c prev s) = (rqs s)(c := (rqs s c)\<lparr>rq_prev_mm := None\<rparr>)"
    "fault (finish_task_switch e c prev s) = fault s" "this_cpu (finish_task_switch e c prev s) = this_cpu s"
  using assms by (simp_all add: finish_task_switch_def finish_task_def Let_def)

lemma context_switch_frame:
  assumes "prev \<noteq> next" "p_state (tasks s prev) \<noteq> TASK_DEAD"
  shows "rq_ts (rqs (context_switch e c prev next s) d) = rq_ts (rqs s d)"
    "rq_rt (rqs (context_switch e c prev next s) d) = rq_rt (rqs s d)"
    "rq_curr (rqs (context_switch e c prev next s) d) = rq_curr (rqs s d)"
    "rq_balance_callback (rqs (context_switch e c prev next s) d) = rq_balance_callback (rqs s d)"
    "rq_nr_switches (rqs (context_switch e c prev next s) d) = rq_nr_switches (rqs s d)"
    "fault (context_switch e c prev next s) = fault s"
    "this_cpu (context_switch e c prev next s) = this_cpu s"
    "p_need_resched (tasks (context_switch e c prev next s) q) = p_need_resched (tasks s q)"
    "p_nivcsw (tasks (context_switch e c prev next s) q) = p_nivcsw (tasks s q)"
    "p_nvcsw (tasks (context_switch e c prev next s) q) = p_nvcsw (tasks s q)"
    "p_on_rq (tasks (context_switch e c prev next s) q) = p_on_rq (tasks s q)"
    "p_state (tasks (context_switch e c prev next s) q) = p_state (tasks s q)"
  using assms by (simp_all add: context_switch_def prepare_task_def clear_clock_skip_def Let_def finish_switch_frame)

lemma clear_need_resched_frame [simp]:
  "rqs (clear_need_resched p s) = rqs s" "fault (clear_need_resched p s) = fault s"
  "this_cpu (clear_need_resched p s) = this_cpu s"
  "tasks (clear_need_resched p s) = (tasks s)(p := (tasks s p)\<lparr>p_need_resched := False\<rparr>)"
  by (simp_all add: clear_need_resched_def)

lemma balance_callback_none [simp]: "rq_balance_callback (rqs s c) = [] \<Longrightarrow> balance_callback e c s = s"
  by (simp add: balance_callback_def)

lemma update_rq_clock_callback [simp, frame_simps]:
  "rq_balance_callback (rqs (update_rq_clock c s) k) = rq_balance_callback (rqs s k)"
  "rq_nr_switches (rqs (update_rq_clock c s) k) = rq_nr_switches (rqs s k)"
  by (simp_all add: update_rq_clock_def update_rq_clock_task_def Let_def)

definition clocked :: "cpu_id \<Rightarrow> sys \<Rightarrow> sys" where
  "clocked c s = update_rq_clock c
     (upd_rq c (\<lambda>rq. rq\<lparr>rq_clock_update_flags := push_bit 1 (rq_clock_update_flags rq)\<rparr>) s)"

lemma clocked_frame [simp]:
  "tasks (clocked c s) = tasks s" "fault (clocked c s) = fault s" "this_cpu (clocked c s) = this_cpu s"
  "rq_ts (rqs (clocked c s) d) = rq_ts (rqs s d)" "rq_rt (rqs (clocked c s) d) = rq_rt (rqs s d)"
  "rq_curr (rqs (clocked c s) d) = rq_curr (rqs s d)"
  "rq_balance_callback (rqs (clocked c s) d) = rq_balance_callback (rqs s d)"
  "rq_nr_switches (rqs (clocked c s) d) = rq_nr_switches (rqs s d)"
  by (simp_all add: clocked_def)

text \<open>One call of the main function by a task that stays runnable, when another task is picked.\<close>

lemma schedule_once_switch:
  assumes c: "c = this_cpu s" "prev = rq_curr (rqs s c)" and st: "p_state (tasks s prev) = 0"
    and pick: "pick_next_task e c prev (clocked c s) = (Some next, clocked c s)" and ne: "prev \<noteq> next"
    and cb: "rq_balance_callback (rqs s c) = []" and t0: "t = schedule_once e preempt s"
  shows "rq_curr (rqs t c) = next" "rq_ts (rqs t d) = rq_ts (rqs s d)" "rq_rt (rqs t d) = rq_rt (rqs s d)"
    "fault t = fault s" "this_cpu t = this_cpu s"
    "p_need_resched (tasks t next) = p_need_resched (tasks s next)" "\<not> p_need_resched (tasks t prev)"
    "p_nivcsw (tasks t prev) = p_nivcsw (tasks s prev) + 1"
    "rq_nr_switches (rqs t c) = rq_nr_switches (rqs s c) + 1"
proof -
  let ?u = "clear_need_resched prev (clocked c s)"
  let ?v = "upd_task prev (\<lambda>t. t\<lparr>p_nivcsw := p_nivcsw t + 1\<rparr>)
      (upd_rq c (\<lambda>rq. rq\<lparr>rq_nr_switches := rq_nr_switches rq + 1, rq_curr := next\<rparr>) ?u)"
  have nd: "p_state (tasks ?v prev) \<noteq> TASK_DEAD" using st by (simp add: TASK_DEAD_def)
  note F = context_switch_frame[OF ne nd, of e c]
  have "t = balance_callback e c (context_switch e c prev next ?v)"
    unfolding t0 schedule_once_def Let_def clocked_def[symmetric] c(1)[symmetric] c(2)[symmetric]
    using st ne pick by simp
  also have "\<dots> = context_switch e c prev next ?v"
    using cb F(4) by simp
  finally have t: "t = context_switch e c prev next ?v" .
  show "rq_curr (rqs t c) = next" "rq_ts (rqs t d) = rq_ts (rqs s d)" "rq_rt (rqs t d) = rq_rt (rqs s d)"
    "fault t = fault s" "this_cpu t = this_cpu s"
    "p_need_resched (tasks t next) = p_need_resched (tasks s next)" "\<not> p_need_resched (tasks t prev)"
    "p_nivcsw (tasks t prev) = p_nivcsw (tasks s prev) + 1"
    "rq_nr_switches (rqs t c) = rq_nr_switches (rqs s c) + 1"
    using ne by (simp_all add: t F)
qed

text \<open>Moving a task between the lists changes nothing but the list node and the queues.\<close>

lemma ts_move_frame:
  "rq_rt (rqs (ts_list_move_tail p c idx s) d) = rq_rt (rqs s d)"
  "rq_balance_callback (rqs (ts_list_move_tail p c idx s) d) = rq_balance_callback (rqs s d)"
  "p_state (tasks (ts_list_move_tail p c idx s) r) = p_state (tasks s r)"
  "p_need_resched (tasks (ts_list_move_tail p c idx s) r) = p_need_resched (tasks s r)"
  "p_sched_class (tasks (ts_list_move_tail p c idx s) r) = p_sched_class (tasks s r)"
  "p_nivcsw (tasks (ts_list_move_tail p c idx s) r) = p_nivcsw (tasks s r)"
  "this_cpu (ts_list_move_tail p c idx s) = this_cpu s"
  by (simp_all add: ts_list_move_tail_def ts_list_add_tail_def ts_list_del_def set_ts_node_def ts_unlink_def)

section \<open>Properties\<close>

text \<open>
  The shortcut starves the class.  The time-sharing operations never change the run queue's
  count of runnable tasks.  So once the shortcut of \<open>pick_next_task\<close> applies (the previous task is
  idle or fair and the count equals the fair class's own), it applies after every run of
  time-sharing operations, and the task picked is never a time-sharing one, however many of them are
  queued: assuming that the fair class picks fair tasks or none, and the idle class the idle task.
\<close>

theorem ts_starved_by_shortcut:
  assumes "ts_reachable s t" "fair_fast_path s c prev"
    and fair: "\<And>u. case op_pick_next_task (e_fair e) c prev u of
        (Picked p, u') \<Rightarrow> p_sched_class (tasks u p) = Fair_class
      | (No_task, u') \<Rightarrow> rq_idle (rqs u' c) = rq_idle (rqs u c)
      | (Retry_task, u') \<Rightarrow> False"
    and idle: "\<And>u. fst (op_pick_next_task (e_idle e) c prev u) = Picked (rq_idle (rqs u c))"
    and "p_sched_class (tasks s (rq_idle (rqs s c))) = Idle_class"
  shows "\<exists>p u. pick_next_task e c prev t = (Some p, u) \<and> p_sched_class (tasks t p) \<noteq> Ts_class"
proof -
  have sc: "same_counts s t" using ts_run_counts[OF assms(1)] .
  then have fp: "fair_fast_path t c prev" using same_counts_fast assms(2) by blast
  have i: "p_sched_class (tasks t (rq_idle (rqs t c))) = Idle_class" using sc assms(5) by (simp add: same_counts_def)
  obtain r u where r: "op_pick_next_task (e_fair e) c prev t = (r, u)" by fastforce
  show ?thesis
  proof (cases r)
    case No_task
    obtain r' u' where r': "op_pick_next_task (e_idle e) c prev u = (r', u')" by fastforce
    have "rq_idle (rqs u c) = rq_idle (rqs t c)" using fair[of t] r No_task by simp
    moreover have "r' = Picked (rq_idle (rqs u c))" using idle[of u] r' by simp
    ultimately show ?thesis using fp r No_task r' i by (simp add: pick_next_task_def)
  next
    case Retry_task
    then show ?thesis using fair[of t] r by simp
  next
    case (Picked p)
    then show ?thesis using fair[of t] r fp by (simp add: pick_next_task_def)
  qed
qed

theorem ts_starved_by_shortcut_witness:
  "ts_scan (ts_queues (enqueue_task_ts 0 5 0 boot_sys) 0) MAX_TS_PRIO = Some 5 \<and>
   (\<exists>p u. pick_next_task quiet_env 0 0 (enqueue_task_ts 0 5 0 boot_sys) = (Some p, u) \<and>
      p_sched_class (tasks (enqueue_task_ts 0 5 0 boot_sys) p) \<noteq> Ts_class)"
proof
  let ?s = "enqueue_task_ts 0 5 0 boot_sys"
  have "?s = ts_list_add_tail 5 0 19 boot_sys" using boot_ts_task by (simp add: enqueue_task_ts_def Let_def)
  then have "ts_queues ?s 0 = (replicate 40 [])[19 := [5]]" 
    using boot_ts_linked[of 5] by (simp add: ts_list_add_tail_queues MAX_TS_PRIO_def boot_ts_queues)
  then show "ts_scan (ts_queues ?s 0) MAX_TS_PRIO = Some 5"
    by (simp add: MAX_TS_PRIO_def numeral_eq_Suc)
  have "ts_step boot_sys ?s"
    using boot_ts_task by (intro ts_step.ts_enqueue) (auto simp: boot_ts_linked)
  then have r: "ts_reachable boot_sys ?s" by (rule ts_reachable.ts_next[OF ts_reachable.ts_start])
  have "fair_fast_path boot_sys 0 0" by (simp add: fair_fast_path_def boot_sys_def boot_rq_def)
  moreover have "p_sched_class (tasks boot_sys (rq_idle (rqs boot_sys 0))) = Idle_class"
    by (simp add: boot_sys_def boot_rq_def)
  ultimately show "\<exists>p u. pick_next_task quiet_env 0 0 ?s = (Some p, u) \<and> p_sched_class (tasks ?s p) \<noteq> Ts_class"
    using r by (intro ts_starved_by_shortcut) (auto simp: quiet_env_picks)
qed

text \<open>
  After a time-sharing task, with nothing to run in the stop and deadline classes: a queued and
  unthrottled real-time queue yields a listed task of this CPU of the best priority; otherwise the
  pick is the oldest task of the best non-empty time-sharing queue, and the state is unchanged.
\<close>

theorem pick_after_ts_task:
  assumes "rt_inv s" "p_sched_class (tasks s prev) = Ts_class" "100 \<le> p_prio (tasks s prev)" "0 < e_fuel e"
    and "op_pick_next_task (e_stop e) c prev s = (No_task, s)" "op_pick_next_task (e_dl e) c prev s = (No_task, s)"
  shows "if rt_queued (rtq s c)
    then \<exists>p u. pick_next_task e c prev s = (Some p, u) \<and> rte_on_list (p_rt (tasks s p)) \<and> p_cpu (tasks s p) = c \<and>
           p_prio (tasks s p) < 100 \<and>
           (\<forall>q. rte_on_list (p_rt (tasks s q)) \<and> p_cpu (tasks s q) = c \<longrightarrow> p_prio (tasks s p) \<le> p_prio (tasks s q))
    else \<forall>i<MAX_TS_PRIO. ts_queues s c ! i \<noteq> [] \<and> (\<forall>j. i < j \<and> j < MAX_TS_PRIO \<longrightarrow> ts_queues s c ! j = []) \<longrightarrow>
           pick_next_task e c prev s = (Some (hd (ts_queues s c ! i)), s)"
proof -
  obtain n where n: "e_fuel e = Suc n" using assms(4) gr0_implies_Suc by blast
  have slow: "\<not> fair_fast_path s c prev" using assms(2) by (simp add: fair_fast_path_def)
  note R = pick_next_task_rt_after_ts[OF assms(1-3)]
  show ?thesis
  proof (cases "rt_queued (rtq s c)")
    case True
    obtain p where p: "pick_next_rt_entity s c = Some p" using rt_queued_pick[OF assms(1) True] .
    obtain u where u: "pick_next_task_rt e c prev s = (Picked p, u)" using R(2)[OF True p] by blast
    have "pick_next_task e c prev s = (Some p, u)"
      using slow n u assms(5,6) by (simp add: pick_next_task_def class_order_def class_pick_next_task_def)
    moreover have "p_prio (tasks s p) < 100"
      using rt_pick_best[OF assms(1), of c] p listed_index(2)[OF rt_inv_parts(1)[OF assms(1)], of p]
      listed_index(1)[OF rt_inv_parts(1)[OF assms(1)], of p] by simp
    ultimately show ?thesis using rt_pick_best[OF assms(1), of c] p True by auto
  next
    case False
    { fix i assume i: "i < MAX_TS_PRIO" "ts_queues s c ! i \<noteq> []" "\<forall>j. i < j \<and> j < MAX_TS_PRIO \<longrightarrow> ts_queues s c ! j = []"
      have "pick_next_task e c prev s = (Some (hd (ts_queues s c ! i)), s)"
        by (rule pick_next_task_ts_prev[OF assms(2-6) rt_highest_bound[OF assms(1)] False i(1), of _ "tl (ts_queues s c ! i)"])
          (use i(2,3) in auto) }
    then show ?thesis using False by simp
  qed
qed

theorem pick_after_ts_task_witness:
  "pick_next_task quiet_env 0 5 ts_demo = (Some 5, ts_demo)"
proof -
  have "\<not> rt_queued (rtq ts_demo 0)" by (simp add: ts_demo_fields boot_rt_rq_def)
  then have "\<forall>i<MAX_TS_PRIO. ts_queues ts_demo 0 ! i \<noteq> [] \<and> (\<forall>j. i < j \<and> j < MAX_TS_PRIO \<longrightarrow> ts_queues ts_demo 0 ! j = []) \<longrightarrow>
      pick_next_task quiet_env 0 5 ts_demo = (Some (hd (ts_queues ts_demo 0 ! i)), ts_demo)"
    using pick_after_ts_task[OF ts_demo_rt_inv, of 5 quiet_env 0] by (simp add: ts_demo_fields quiet_env_picks)
  from this[rule_format, of 19] show ?thesis by (simp add: ts_demo_queues MAX_TS_PRIO_def)
qed

text \<open>
  C22: A context switch keeps the account of borrowed address spaces: the reference count of every
  address space, less the one the running kernel thread borrows, is unchanged; the task switched
  away from borrows nothing any more; nothing is left to drop; exactly the new task is marked as
  on the CPU; and no other task is touched.
\<close>

theorem context_switch_mm_balanced:
  assumes "prev \<noteq> next" "rq_prev_mm (rqs s c) = None"
    and "p_state (tasks s prev) = TASK_DEAD \<longrightarrow> p_sched_class (tasks s prev) \<noteq> Dl_class \<and> p_sched_class (tasks s prev) \<noteq> Fair_class"
    and "p_mm (tasks s next) = None \<longrightarrow> p_active_mm (tasks s next) = None"
  shows "let t = context_switch e c prev next s
    in mm_count t m - borrows t next m = mm_count s m - borrows s prev m \<and>
       borrows t prev m = 0 \<and> rq_prev_mm (rqs t c) = None \<and>
       p_on_cpu (tasks t next) \<and> \<not> p_on_cpu (tasks t prev) \<and>
       (\<forall>q. q \<noteq> prev \<and> q \<noteq> next \<longrightarrow> tasks t q = tasks s q)"
proof -
  have dead: "class_task_dead e (p_sched_class (tasks s prev)) prev = (\<lambda>s. s)" if "p_state (tasks s prev) = TASK_DEAD"
    using assms(3) that by (simp add: class_task_dead_def split: sched_class.splits)
  show ?thesis
    using assms(1,2,4) dead by (simp add: switch_defs borrows_def)
qed

theorem context_switch_mm_balanced_witness:
  "mm_count (context_switch quiet_env 0 0 5 ts_demo) 0 = 2 \<and> borrows (context_switch quiet_env 0 0 5 ts_demo) 0 0 = 0"
proof -
  have "p_state (tasks ts_demo 0) = 0" "mm_count ts_demo 0 = 3" by (simp_all add: ts_demo_def boot_sys_def boot_task_def)
  moreover have "p_mm (tasks (context_switch quiet_env 0 0 5 ts_demo) 5) = Some 1"
    using \<open>p_state (tasks ts_demo 0) = 0\<close> by (simp add: switch_defs TASK_DEAD_def ts_demo_fields)
  ultimately show ?thesis
    using context_switch_mm_balanced[of 0 5 ts_demo 0 quiet_env 0]
    by (simp add: Let_def ts_demo_fields borrows_def TASK_DEAD_def)
qed

text \<open>
  \<open>sched_yield\<close> by the first task of the best time-sharing queue, with no real-time task to run
  and no balance work pending, ends with the second task of that queue running, the caller at the
  tail of the queue and no other queue changed, without a fault, and counts as an involuntary switch.
\<close>

theorem sched_yield_rotates:
  assumes "ts_good s" "rt_inv s" "\<not> rt_queued (rtq s c)" "c = this_cpu s" "prev = rq_curr (rqs s c)"
    and "p_sched_class (tasks s prev) = Ts_class" "p_state (tasks s prev) = 0"
    and "p_prio (tasks s prev) = 139 - int i" "i < MAX_TS_PRIO" "ts_queues s c ! i = prev # q # ps"
    and "\<And>j. i < j \<Longrightarrow> j < MAX_TS_PRIO \<Longrightarrow> ts_queues s c ! j = []"
    and "\<not> p_need_resched (tasks s q)" "rq_balance_callback (rqs s c) = []" "0 < e_fuel e"
    and "\<And>u. op_pick_next_task (e_stop e) c prev u = (No_task, u)" "\<And>u. op_pick_next_task (e_dl e) c prev u = (No_task, u)"
  shows "let t = do_sched_yield e s
    in rq_curr (rqs t c) = q \<and> ts_queues t c = (ts_queues s c)[i := q # ps @ [prev]] \<and> fault t = None \<and>
       p_nivcsw (tasks t prev) = p_nivcsw (tasks s prev) + 1"
proof -
  have inv: "ts_inv s" and fl: "fault s = None" using assms(1) by (simp_all add: ts_good_def)
  have ok: "length (ts_queues s c) = 40" "distinct (concat (ts_queues s c))"
    using ts_inv_rq_ok[OF inv, of c] by (simp_all add: ts_rq_ok_def ts_queues_def MAX_TS_PRIO_def)
  have lk: "ts_linked s prev" and i0: "i < MAX_TS_PRIO" using ts_inv_linked[OF inv assms(9), of prev c] assms(9,10) by simp_all
  then have pr: "100 \<le> p_prio (tasks s prev)" "p_prio (tasks s prev) \<le> 139" using assms(1) by (simp_all add: ts_good_def)
  then have i: "i < length (ts_queues s c)" and idx: "0 \<le> int i" "int i < int MAX_TS_PRIO"
    using i0 ok(1) by (simp_all add: MAX_TS_PRIO_def)
  have d: "distinct (prev # q # ps)" using distinct_concat_nth[OF i ok(2)] assms(10) by simp
  let ?s = "yield_task_ts c s"
  note E = ts_list_move_tail_effect[OF lk idx, of c]
  have s: "?s = ts_list_move_tail prev c (int i) s" using assms(5,8) by (simp add: yield_task_ts_def Let_def)
  have "map (removeAll prev) (ts_queues s c) = (ts_queues s c)[i := q # ps]"
    using map_removeAll_update[OF ok(2) i, of prev] assms(10) d by simp
  then have Q: "ts_queues ?s c = (ts_queues s c)[i := q # ps @ [prev]]"
    using i by (simp add: s E(3) Let_def)
  have pick: "pick_next_task e c prev (clocked c ?s) = (Some q, clocked c ?s)"
  proof (rule pick_next_task_ts_prev[where i = i and ps = "ps @ [prev]"])
    show "highest_prio_curr (rtq (clocked c ?s) c) \<le> 100" "\<not> rt_queued (rtq (clocked c ?s) c)"
      using rt_highest_bound[OF assms(2)] assms(3) by (simp_all add: s ts_move_frame)
    show "ts_queues (clocked c ?s) c ! i = q # ps @ [prev]" using Q i by (simp add: ts_queues_def)
    show "ts_queues (clocked c ?s) c ! j = []" if "i < j" "j < MAX_TS_PRIO" for j
      using Q that assms(11)[OF that] by (simp add: ts_queues_def)
  qed (use assms(6,14-16) pr i0 in \<open>simp_all add: s ts_move_frame\<close>)
  obtain n where n: "e_fuel e = Suc n" using assms(14) gr0_implies_Suc by blast
  have ne: "prev \<noteq> q" using d by simp
  let ?t = "schedule_once e False ?s"
  have G: "c = this_cpu ?s" "prev = rq_curr (rqs ?s c)" "p_state (tasks ?s prev) = 0" "rq_balance_callback (rqs ?s c) = []"
    unfolding s ts_move_frame ts_list_move_tail_fields using assms(4,5,7,13) by simp_all
  note S = schedule_once_switch[OF G(1-3) pick ne G(4) refl]
  have "\<not> p_need_resched (tasks ?t q)" using S(6) assms(12) by (simp add: s ts_move_frame)
  then have "schedule e ?s = ?t" using S(1,5) G(1) n by (simp add: schedule_def)
  moreover have "do_sched_yield e s = schedule e ?s"
    by (simp only: do_sched_yield_def Let_def assms(4,5)[symmetric] assms(6) class_yield_task_def sched_class.case)
  ultimately have t: "do_sched_yield e s = ?t" by simp
  have "ts_queues ?t c = ts_queues ?s c" using S(2) by (simp add: ts_queues_def)
  moreover have "fault ?s = None" using E(1) fl by (simp add: s)
  ultimately show ?thesis unfolding t Let_def using S(1,4,8) Q by (simp add: s ts_move_frame)
qed

theorem sched_yield_rotates_witness:
  "rq_curr (rqs (do_sched_yield quiet_env ts_demo) 0) = 6 \<and> ts_queues (do_sched_yield quiet_env ts_demo) 0 ! 19 = [6, 5]"
proof -
  have "\<not> rt_queued (rtq ts_demo 0)" by (simp add: ts_demo_fields boot_rt_rq_def)
  then show ?thesis
    using sched_yield_rotates[OF ts_demo_good ts_demo_rt_inv, of 0 5 19 6 "[]" quiet_env]
    by (simp add: Let_def ts_demo_fields ts_demo_queues quiet_env_picks MAX_TS_PRIO_def)
qed

end
