(* ===== verification/Sched_Push.thy ===== *)
theory Sched_Push
  imports Sched_Dispatch
begin

text \<open>
  Correctness of the real-time load balancing of \<open>kernel/sched/rt.c\<close>.  Push and pull share one step,
  a task dequeued on one CPU and enqueued on another; it keeps the invariant of the priority arrays
  and that of the pushable lists.  On top of it: what a successful push establishes on the target
  CPU, that the push loop ends with nothing left to push, what a pull may move, and that the
  interrupt chain over the overloaded CPUs visits each of them.
\<close>

section \<open>What the accounting leaves alone\<close>

definition task_place :: "task_struct \<Rightarrow> sched_class \<times> nat" where
  "task_place t = (p_sched_class t, p_on_rq t)"

definition still :: "sys \<Rightarrow> sys \<Rightarrow> bool" where
  "still s t \<longleftrightarrow> (\<forall>q. task_place (tasks t q) = task_place (tasks s q)) \<and>
     (\<forall>c. rq_curr (rqs t c) = rq_curr (rqs s c) \<and> pushable_tasks (rtq t c) = pushable_tasks (rtq s c))"

lemma still_refl [simp]: "still s s"
  by (simp add: still_def)

lemma still_trans [trans]: "still s t \<Longrightarrow> still t u \<Longrightarrow> still s u"
  by (simp add: still_def)

lemma still_upd_rt:
  "(\<And>r. pushable_tasks (f r) = pushable_tasks r) \<Longrightarrow> still s (upd_rt c f s)"
  by (simp add: still_def)

lemma still_upd_task:
  "(\<And>t. task_place (f t) = task_place t) \<Longrightarrow> still s (upd_task p f s)"
  by (simp add: still_def)

lemma still_update_rq_clock: "still s (update_rq_clock c s)"
  by (simp add: still_def)

lemma still_resched_curr: "still s (resched_curr c s)"
  by (simp add: still_def task_place_def)

lemma still_balance_one: "still s (fst (balance_one c w per i s))"
proof -
  have q: "still t (upd_rt i (\<lambda>r. r\<lparr>rt_runtime := g r\<rparr>) t)" for t i g
    by (rule still_upd_rt) simp
  show ?thesis
    unfolding balance_one_def Let_def by (auto intro!: still_trans[OF q q])
qed

lemma still_balance_loop: "still s (balance_loop c w per is s)"
proof (induction "is" arbitrary: s)
  case (Cons i "is")
  obtain t stop where t: "balance_one c w per i s = (t, stop)" by (cases "balance_one c w per i s")
  then have "still s t" using still_balance_one[of s c w per i] by simp
  then show ?case using Cons[of t] by (auto simp: t intro: still_trans)
qed simp

lemma still_balance_runtime: "still s (balance_runtime c s)"
  by (simp add: balance_runtime_def do_balance_runtime_def still_balance_loop Let_def)

lemma still_dequeue_top: "still s (dequeue_top_rt_rq c s)"
  by (simp add: still_def dequeue_top_rt_rq_def Let_def)

lemma still_runtime_exceeded: "still s (snd (sched_rt_runtime_exceeded c s))"
proof -
  let ?b = "balance_runtime c s"
  have b: "still s ?b" by (rule still_balance_runtime)
  have u: "still s (upd_rt c f ?b)" if "\<And>r. pushable_tasks (f r) = pushable_tasks r" for f
    by (rule still_trans[OF b still_upd_rt]) (rule that)
  have "still s (dequeue_top_rt_rq c (upd_rt c (\<lambda>r. r\<lparr>rt_throttled := True\<rparr>) ?b))"
    by (rule still_trans[OF u still_dequeue_top]) simp
  with b u show ?thesis
    by (auto simp: sched_rt_runtime_exceeded_def Let_def rt_rq_throttled_def sched_rt_rq_dequeue_def)
qed

lemma still_update_curr_rt: "still s (update_curr_rt c s)"
proof -
  let ?curr = "rq_curr (rqs s c)" and ?now = "rq_clock_task (rqs s c)"
  let ?d = "?now - se_exec_start (p_se (tasks s ?curr))"
  let ?s1 = "upd_task ?curr (\<lambda>t. t\<lparr>p_se := (p_se t)\<lparr>
     se_sum_exec_runtime := se_sum_exec_runtime (p_se t) + ?d, se_exec_start := ?now\<rparr>\<rparr>) s"
  let ?s2 = "upd_rt (p_cpu (tasks ?s1 ?curr)) (\<lambda>r. r\<lparr>rt_time := rt_time r + ?d\<rparr>) ?s1"
  have 1: "still s ?s1" by (rule still_upd_task) (simp add: task_place_def)
  have 2: "still ?s1 ?s2" by (rule still_upd_rt) simp
  obtain ex s3 where 3: "sched_rt_runtime_exceeded (p_cpu (tasks ?s1 ?curr)) ?s2 = (ex, s3)"
    by (cases "sched_rt_runtime_exceeded (p_cpu (tasks ?s1 ?curr)) ?s2")
  have "still ?s2 s3"
    using still_runtime_exceeded[of ?s2 "p_cpu (tasks ?s1 ?curr)"] by (simp only: 3 snd_conv)
  then have 4: "still s s3" using 1 2 still_trans by blast
  then have 5: "still s (resched_curr c s3)" using still_resched_curr still_trans by blast
  show ?thesis
    unfolding update_curr_rt_def Let_def 3 using 1 4 5 by (simp only: prod.case if_split) simp
qed

lemma move_zero: "move_entity 0"
  by (simp add: move_entity_def queue_flag_defs)

lemma put_take_push [simp]:
  "pushable_tasks (rq_rt (put_in p t h r)) = pushable_tasks (rq_rt r)" "rq_curr (put_in p t h r) = rq_curr r"
  "pushable_tasks (rq_rt (take_out p t r)) = pushable_tasks (rq_rt r)" "rq_curr (take_out p t r) = rq_curr r"
  by (simp_all add: put_in_def take_out_def top_in_def top_out_def count_in_def count_out_def set_overload_mark_def Let_def)

section \<open>Moving a task\<close>

lemma quiet_uninterruptible: "rt_quiet s (upd_rq c (\<lambda>rq. rq\<lparr>rq_nr_uninterruptible := g rq\<rparr>) s)"
  by (rule rt_quiet_same) simp_all

lemma still_uninterruptible: "still s (upd_rq c (\<lambda>rq. rq\<lparr>rq_nr_uninterruptible := g rq\<rparr>) s)"
  by (simp add: still_def)

lemma quiet_task_key: "rt_quiet s t \<Longrightarrow> task_key (tasks t q) = task_key (tasks s q)"
  by (simp add: rt_quiet_def)

lemma still_parts: "still s t \<Longrightarrow> task_place (tasks t q) = task_place (tasks s q)"
  "still s t \<Longrightarrow> rq_curr (rqs t c) = rq_curr (rqs s c)"
  "still s t \<Longrightarrow> pushable_tasks (rtq t c) = pushable_tasks (rtq s c)"
  by (simp_all add: still_def)

lemma count_push [simp]: "pushable_tasks (count_in t r) = pushable_tasks r" "pushable_tasks (count_out t r) = pushable_tasks r"
  by (simp_all add: count_in_def count_out_def set_overload_mark_def Let_def)

lemma dequeue_task_rt_effect:
  assumes "rt_inv s" "rte_on_list (p_rt (tasks s p))" "p_cpu (tasks s p) = c"
  shows "task_key (tasks (dequeue_task_rt c p 0 s) q) =
      (if q = p then (False, False, snd (snd (task_key (tasks s p)))) else task_key (tasks s q))"
    and "task_place (tasks (dequeue_task_rt c p 0 s) q) = task_place (tasks s q)"
    and "rq_curr (rqs (dequeue_task_rt c p 0 s) x) = rq_curr (rqs s x)"
    and "pushable_tasks (rtq (dequeue_task_rt c p 0 s) x) =
      (if x = c then plist_del p (pushable_tasks (rtq s c)) else pushable_tasks (rtq s x))"
proof -
  let ?s1 = "update_curr_rt c s"
  have q: "rt_quiet s ?s1" and st: "still s ?s1" by (rule quiet still_update_curr_rt)+
  have k: "task_key (tasks ?s1 q) = task_key (tasks s q)" for q by (rule quiet_task_key[OF q])
  have kp: "rte_on_list (p_rt (tasks ?s1 p))" "p_cpu (tasks ?s1 p) = c" "p_prio (tasks ?s1 p) = p_prio (tasks s p)"
    using k[of p] assms(2,3) by (simp_all add: task_key_def)
  note I = rt_inv_parts[OF rt_quiet_inv(1)[OF assms(1) q]]
  have rq: "rte_on_rq (p_rt (tasks ?s1 p))" using I(7) kp(1) by blast
  have ix: "rt_index_ok (p_prio (tasks ?s1 p))" using I(1) kp(1) unfolding rt_lists_def by blast
  note E = dequeue_rt_entity_effect[OF rq move_zero ix I(3)]
  show "task_key (tasks (dequeue_task_rt c p 0 s) q) =
      (if q = p then (False, False, snd (snd (task_key (tasks s p)))) else task_key (tasks s q))"
    using k[of q] k[of p] by (simp add: dequeue_task_rt_def dequeue_pushable_task_def E(2) rt_linked_def task_key_def)
  show "task_place (tasks (dequeue_task_rt c p 0 s) q) = task_place (tasks s q)"
    using still_parts(1)[OF st, of q] still_parts(1)[OF st, of p] by (simp add: dequeue_task_rt_def dequeue_pushable_task_def E(2) task_place_def)
  show "rq_curr (rqs (dequeue_task_rt c p 0 s) x) = rq_curr (rqs s x)"
    using still_parts(2)[OF st] by (simp add: dequeue_task_rt_def dequeue_pushable_task_def E(1) kp(2))
  show "pushable_tasks (rtq (dequeue_task_rt c p 0 s) x) =
      (if x = c then plist_del p (pushable_tasks (rtq s c)) else pushable_tasks (rtq s x))"
    using still_parts(3)[OF st] by (simp add: dequeue_task_rt_def dequeue_pushable_task_def E(1) kp(2) Let_def)
qed

lemma enqueue_task_rt_moved:
  assumes "rt_inv s" "\<not> rte_on_list (p_rt (tasks s p))" "rt_index_ok (p_prio (tasks s p))" "p_cpu (tasks s p) = d"
  shows "task_key (tasks (enqueue_task_rt d p 0 s) q) =
      (if q = p then (True, True, snd (snd (task_key (tasks s p)))) else task_key (tasks s q))"
    and "task_place (tasks (enqueue_task_rt d p 0 s) q) = task_place (tasks s q)"
    and "rq_curr (rqs (enqueue_task_rt d p 0 s) x) = rq_curr (rqs s x)"
    and "pushable_tasks (rtq (enqueue_task_rt d p 0 s) x) =
      (if x = d \<and> rq_curr (rqs s d) \<noteq> p \<and> 1 < p_nr_cpus_allowed (tasks s p)
       then plist_add (p_prio (tasks s p), p) (plist_del p (pushable_tasks (rtq s d))) else pushable_tasks (rtq s x))"
    and "p_cpus_allowed (tasks (enqueue_task_rt d p 0 s) q) = p_cpus_allowed (tasks s q)"
proof -
  note I = rt_inv_parts[OF assms(1)]
  have rq: "\<not> rte_on_rq (p_rt (tasks s p))" using I(7) assms(2) by blast
  note E = enqueue_rt_entity_effect[OF rq move_zero assms(3) I(3), unfolded assms(4)]
  note D = enqueue_task_rt_def enqueue_pushable_task_def Let_def flag_set_def task_current_def
  show "task_key (tasks (enqueue_task_rt d p 0 s) q) =
      (if q = p then (True, True, snd (snd (task_key (tasks s p)))) else task_key (tasks s q))"
    by (simp add: D E(2) rt_linked_def task_key_def)
  show "p_cpus_allowed (tasks (enqueue_task_rt d p 0 s) q) = p_cpus_allowed (tasks s q)"
    by (simp add: D E(2))
  show "task_place (tasks (enqueue_task_rt d p 0 s) q) = task_place (tasks s q)"
    by (simp add: D E(2) task_place_def)
  show "rq_curr (rqs (enqueue_task_rt d p 0 s) x) = rq_curr (rqs s x)"
    by (simp add: D E(1))
  show "pushable_tasks (rtq (enqueue_task_rt d p 0 s) x) =
      (if x = d \<and> rq_curr (rqs s d) \<noteq> p \<and> 1 < p_nr_cpus_allowed (tasks s p)
       then plist_add (p_prio (tasks s p), p) (plist_del p (pushable_tasks (rtq s d))) else pushable_tasks (rtq s x))"
    by (simp add: D E(1,2))
qed

text \<open>A task moved to another CPU: the common step of push and pull.\<close>

abbreviation rt_move :: "kenv \<Rightarrow> cpu_id \<Rightarrow> task_id \<Rightarrow> cpu_id \<Rightarrow> sys \<Rightarrow> sys" where
  "rt_move e c p d s \<equiv> activate_task e d p 0 (set_task_cpu e p d (deactivate_task e c p 0 s))"

definition rt_moved :: "task_id \<Rightarrow> cpu_id \<Rightarrow> cpu_id \<Rightarrow> sys \<Rightarrow> sys \<Rightarrow> bool" where
  "rt_moved p c d s t \<longleftrightarrow>
     (\<forall>q. task_key (tasks t q) = (if q = p then (True, True, d, snd (snd (snd (task_key (tasks s p))))) else task_key (tasks s q))) \<and>
     (\<forall>q. task_place (tasks t q) = task_place (tasks s q)) \<and>
     (\<forall>x. rq_curr (rqs t x) = rq_curr (rqs s x)) \<and>
     (\<forall>x. pushable_tasks (rtq t x) =
        (if x = c then plist_del p (pushable_tasks (rtq s c))
         else if x = d \<and> rq_curr (rqs s d) \<noteq> p \<and> 1 < p_nr_cpus_allowed (tasks s p)
         then plist_add (p_prio (tasks s p), p) (plist_del p (pushable_tasks (rtq s d))) else pushable_tasks (rtq s x)))"

lemma rt_move_inv:
  assumes "rt_inv s" "rte_on_list (p_rt (tasks s p))" "p_cpu (tasks s p) = c" "p_sched_class (tasks s p) = Rt_class" "d \<noteq> c"
  shows "rt_inv (rt_move e c p d s)" "fault (rt_move e c p d s) = fault s" "rt_moved p c d s (rt_move e c p d s)"
proof -
  let ?a = "update_rq_clock c (if task_contributes_to_load (tasks s p)
        then upd_rq c (\<lambda>rq. rq\<lparr>rq_nr_uninterruptible := rq_nr_uninterruptible rq + 1\<rparr>) s else s)"
  have qa: "rt_quiet s ?a" "still s ?a" and ta: "tasks ?a = tasks s"
    by (simp_all add: quiet still_update_rq_clock rt_quiet_trans[OF quiet_uninterruptible quiet_update_rq_clock]
        still_trans[OF still_uninterruptible still_update_rq_clock])
  let ?b = "dequeue_task_rt c p 0 ?a"
  have b: "deactivate_task e c p 0 s = ?b"
    using assms(4) by (simp add: deactivate_task_def dequeue_task_def class_dequeue_task_def flag_set_def)
  have ia: "rt_inv ?a" "fault ?a = fault s" using rt_quiet_inv[OF assms(1) qa(1)] .
  have la: "rte_on_list (p_rt (tasks ?a p))" "p_cpu (tasks ?a p) = c" using assms(2,3) ta by simp_all
  note ib = dequeue_task_rt_inv[OF ia(1) la(1) move_zero, of c]
  note eb = dequeue_task_rt_effect[OF ia(1) la]
  have clb: "p_sched_class (tasks ?b p) = Rt_class" using eb(2)[of p] assms(4) ta by (simp add: task_place_def)
  have nlb: "\<not> rte_on_list (p_rt (tasks ?b p))" using eb(1)[of p] by (simp add: task_key_def)
  let ?f = "\<lambda>t. t\<lparr>p_se := (p_se t)\<lparr>se_nr_migrations := se_nr_migrations (p_se t) + 1\<rparr>, p_cpu := d, p_wake_cpu := d\<rparr>"
  let ?c = "upd_task p ?f ?b"
  have c: "set_task_cpu e p d ?b = ?c"
  proof -
    have "p_cpu (tasks ?b p) = c" using eb(1)[of p] la(2) by (simp add: task_key_def)
    then show ?thesis
      using clb assms(5) by (simp add: set_task_cpu_def set_task_cpu_raw_def class_migrate_task_rq_def Let_def upd_task_def)
  qed
  have ic: "rt_inv ?c" by (rule rt_inv_edit[OF ib(1) nlb]) simp
  let ?d = "update_rq_clock d (if task_contributes_to_load (tasks ?c p)
        then upd_rq d (\<lambda>rq. rq\<lparr>rq_nr_uninterruptible := rq_nr_uninterruptible rq - 1\<rparr>) ?c else ?c)"
  have qd: "rt_quiet ?c ?d" "still ?c ?d" and td: "tasks ?d = tasks ?c"
    by (simp_all add: quiet still_update_rq_clock rt_quiet_trans[OF quiet_uninterruptible quiet_update_rq_clock]
        still_trans[OF still_uninterruptible still_update_rq_clock])
  have id: "rt_inv ?d" "fault ?d = fault ?c" using rt_quiet_inv[OF ic qd(1)] .
  have pl: "p < PID_MAX_LIMIT" "rt_index_ok (p_prio (tasks s p))"
    using rt_inv_parts(1)[OF assms(1)] assms(2) unfolding rt_lists_def by blast+
  have kb: "task_key (tasks ?b p) = (False, False, snd (snd (task_key (tasks s p))))" using eb(1)[of p] ta by simp
  then have kd: "\<not> rte_on_list (p_rt (tasks ?d p))" "p_prio (tasks ?d p) = p_prio (tasks s p)" "p_cpu (tasks ?d p) = d"
    "p_nr_cpus_allowed (tasks ?d p) = p_nr_cpus_allowed (tasks s p)"
    unfolding td by (simp_all add: task_key_def)
  let ?t = "enqueue_task_rt d p 0 ?d"
  have t: "rt_move e c p d s = ?t"
    unfolding b c using clb by (simp add: activate_task_def enqueue_task_def class_enqueue_task_def flag_set_def)
  note it = enqueue_task_rt_inv[OF id(1) kd(1) move_zero pl(2)[folded kd(2)] pl(1), of d]
  note et = enqueue_task_rt_moved[OF id(1) kd(1) pl(2)[folded kd(2)] kd(3)]
  show "rt_inv (rt_move e c p d s)" "fault (rt_move e c p d s) = fault s"
    unfolding t using it id(2) ib(2) ia(2) by simp_all
  have kt: "task_key (tasks ?t q) = (if q = p then (True, True, d, snd (snd (snd (task_key (tasks s p))))) else task_key (tasks s q))" for q
    using et(1)[of q] eb(1)[of q] kb unfolding td ta by (auto simp: task_key_def)
  have pt: "task_place (tasks ?t q) = task_place (tasks s q)" for q
    using et(2)[of q] eb(2)[of q] unfolding td ta by (auto simp: task_place_def)
  have ct: "rq_curr (rqs ?t x) = rq_curr (rqs s x)" for x
    using et(3)[of x] eb(3)[of x] still_parts(2)[OF qd(2), of x] still_parts(2)[OF qa(2), of x] by simp
  have "pushable_tasks (rtq ?t x) =
        (if x = c then plist_del p (pushable_tasks (rtq s c))
         else if x = d \<and> rq_curr (rqs s d) \<noteq> p \<and> 1 < p_nr_cpus_allowed (tasks s p)
         then plist_add (p_prio (tasks s p), p) (plist_del p (pushable_tasks (rtq s d))) else pushable_tasks (rtq s x))" for x
    unfolding et(4) kd(2,4) still_parts(3)[OF qd(2)] still_parts(2)[OF qd(2)] rqs_upd_task
      eb(3,4) still_parts(3)[OF qa(2)] still_parts(2)[OF qa(2)] using assms(5) by simp
  then show "rt_moved p c d s (rt_move e c p d s)" unfolding t rt_moved_def using kt pt ct by blast
qed

section \<open>The pushable lists\<close>

definition pushable_ok :: "sys \<Rightarrow> bool" where
  "pushable_ok s \<longleftrightarrow> (\<forall>c. sorted (map fst (pushable_tasks (rtq s c))) \<and>
     (\<forall>(k, p)\<in>set (pushable_tasks (rtq s c)). k = p_prio (tasks s p) \<and> rte_on_list (p_rt (tasks s p)) \<and>
        p_cpu (tasks s p) = c \<and> task_place (tasks s p) = (Rt_class, TASK_ON_RQ_QUEUED) \<and>
        1 < p_nr_cpus_allowed (tasks s p) \<and> (\<forall>x. rq_curr (rqs s x) \<noteq> p)))"

definition rt_balanced :: "sys \<Rightarrow> bool" where
  "rt_balanced s \<longleftrightarrow> rt_inv s \<and> pushable_ok s \<and> fault s = None"

lemma plist_add_set [simp]: "set (plist_add n l) = insert n (set l)"
  by (induction l) auto

lemma plist_add_sorted: "sorted (map fst l) \<Longrightarrow> sorted (map fst (plist_add n l))"
proof (induction l)
  case (Cons m ms)
  then show ?case by (cases n; cases m) (auto simp: image_iff)
qed simp

lemma plist_del_set [simp]: "set (plist_del p l) = {n \<in> set l. snd n \<noteq> p}"
  by (simp add: plist_del_def)

lemma plist_del_sorted: "sorted (map fst l) \<Longrightarrow> sorted (map fst (plist_del p l))"
  by (induction l) (auto simp: plist_del_def)

lemma pushable_okD:
  assumes "pushable_ok s" "(k, p) \<in> set (pushable_tasks (rtq s c))"
  shows "k = p_prio (tasks s p)" "rte_on_list (p_rt (tasks s p))" "p_cpu (tasks s p) = c"
    "p_sched_class (tasks s p) = Rt_class" "p_on_rq (tasks s p) = TASK_ON_RQ_QUEUED"
    "1 < p_nr_cpus_allowed (tasks s p)" "rq_curr (rqs s x) \<noteq> p"
  using assms unfolding pushable_ok_def task_place_def by fastforce+

lemma task_keyD:
  assumes "task_key t = task_key t'"
  shows "rte_on_list (p_rt t) = rte_on_list (p_rt t')" "p_cpu t = p_cpu t'" "p_prio t = p_prio t'"
    "p_nr_cpus_allowed t = p_nr_cpus_allowed t'"
  using assms by (simp_all add: task_key_def)

lemma rt_moved_pushable_ok:
  assumes "pushable_ok s" "rt_moved p c d s t" "(k, p) \<in> set (pushable_tasks (rtq s c))" "d \<noteq> c"
  shows "pushable_ok t"
proof -
  note P = pushable_okD[OF assms(1,3)]
  have key: "task_key (tasks t q) = (if q = p then (True, True, d, snd (snd (snd (task_key (tasks s p))))) else task_key (tasks s q))"
    and pl: "task_place (tasks t q) = task_place (tasks s q)" and cu: "rq_curr (rqs t x) = rq_curr (rqs s x)"
    and pu: "pushable_tasks (rtq t x) = (if x = c then plist_del p (pushable_tasks (rtq s c))
      else if x = d then plist_add (p_prio (tasks s p), p) (plist_del p (pushable_tasks (rtq s d)))
      else pushable_tasks (rtq s x))" for q x
    using assms(2) P(6,7) unfolding rt_moved_def by simp_all
  have kp: "rte_on_list (p_rt (tasks t p))" "p_cpu (tasks t p) = d" "p_prio (tasks t p) = p_prio (tasks s p)"
    "p_nr_cpus_allowed (tasks t p) = p_nr_cpus_allowed (tasks s p)" "task_place (tasks t p) = (Rt_class, TASK_ON_RQ_QUEUED)"
    using key[of p] pl[of p] P by (simp_all add: task_key_def task_place_def)
  show ?thesis
    unfolding pushable_ok_def
  proof (intro allI conjI ballI)
    fix x
    show "sorted (map fst (pushable_tasks (rtq t x)))"
      using assms(1) by (simp add: pu plist_add_sorted plist_del_sorted pushable_ok_def)
    fix n assume n: "n \<in> set (pushable_tasks (rtq t x))"
    obtain k' q where nq: "n = (k', q)" by (cases n)
    show "case n of (k, p) \<Rightarrow> k = p_prio (tasks t p) \<and> rte_on_list (p_rt (tasks t p)) \<and>
        p_cpu (tasks t p) = x \<and> task_place (tasks t p) = (Rt_class, TASK_ON_RQ_QUEUED) \<and>
        1 < p_nr_cpus_allowed (tasks t p) \<and> (\<forall>x. rq_curr (rqs t x) \<noteq> p)"
    proof (cases "q = p")
      case True
      have "x \<noteq> c" using n nq True by (auto simp: pu)
      moreover have "x = d"
      proof (rule ccontr)
        assume "x \<noteq> d"
        then have "(k', p) \<in> set (pushable_tasks (rtq s x))" using n nq True \<open>x \<noteq> c\<close> by (simp add: pu)
        then show False using pushable_okD(3)[OF assms(1)] P(3) \<open>x \<noteq> c\<close> by blast
      qed
      ultimately have "k' = p_prio (tasks s p)" using n nq True by (auto simp: pu)
      then show ?thesis using nq True kp P \<open>x = d\<close> by (simp add: cu)
    next
      case False
      then have "(k', q) \<in> set (pushable_tasks (rtq s x))" using n nq by (auto simp: pu split: if_splits)
      note Q = pushable_okD[OF assms(1) this]
      have "task_key (tasks t q) = task_key (tasks s q)" using key[of q] False by simp
      note K = task_keyD[OF this]
      show ?thesis using nq Q K pl[of q] by (simp add: cu task_place_def)
    qed
  qed
qed

lemma quiet_still_balanced:
  assumes "rt_balanced s" "rt_quiet s t" "still s t"
  shows "rt_balanced t"
proof -
  have i: "rt_inv t" "fault t = fault s" using rt_quiet_inv[of s t] assms(1,2) by (simp_all add: rt_balanced_def)
  have k: "rte_on_list (p_rt (tasks t q)) = rte_on_list (p_rt (tasks s q))" "p_cpu (tasks t q) = p_cpu (tasks s q)"
    "p_prio (tasks t q) = p_prio (tasks s q)" "p_nr_cpus_allowed (tasks t q) = p_nr_cpus_allowed (tasks s q)" for q
    using task_keyD[OF quiet_task_key[OF assms(2)]] by simp_all
  have "pushable_ok t"
    using assms(1) by (simp add: rt_balanced_def pushable_ok_def k still_parts[OF assms(3)])
  with i assms(1) show ?thesis by (simp add: rt_balanced_def)
qed

lemma rt_move_balanced:
  assumes "rt_balanced s" "(k, p) \<in> set (pushable_tasks (rtq s c))" "d \<noteq> c"
  shows "rt_balanced (rt_move e c p d s)" "rt_moved p c d s (rt_move e c p d s)"
proof -
  have s: "rt_inv s" "pushable_ok s" "fault s = None" using assms(1) by (simp_all add: rt_balanced_def)
  note P = pushable_okD[OF s(2) assms(2)]
  note M = rt_move_inv[OF s(1) P(2,3,4) assms(3), of e]
  show "rt_moved p c d s (rt_move e c p d s)" by (rule M(3))
  show "rt_balanced (rt_move e c p d s)"
    using M(1,2) rt_moved_pushable_ok[OF s(2) M(3) assms(2,3)] s(3) by (simp add: rt_balanced_def)
qed

section \<open>Push\<close>

text \<open>No other CPU gets in between when the second run-queue lock is taken.\<close>

definition uncontended :: "kenv \<Rightarrow> bool" where
  "uncontended e \<longleftrightarrow> (\<forall>c d s. e_double_lock e c d s = (False, s))"

lemma find_lock_uncontended:
  assumes "uncontended e"
  shows "find_lock_lowest_rq e p c s =
    (case find_lowest_rq e s p of None \<Rightarrow> (None, s)
     | Some d \<Rightarrow> if d \<noteq> c \<and> p_prio (tasks s p) < highest_prio_curr (rtq s d) then (Some d, s) else (None, s))"
  using assms
  by (auto simp: find_lock_lowest_rq_def RT_MAX_TRIES_def uncontended_def numeral_eq_Suc split: option.splits)

lemma pick_next_pushable_ok:
  assumes "rt_balanced s"
  shows "pick_next_pushable_task c s = (map_option snd (case pushable_tasks (rtq s c) of [] \<Rightarrow> None | n # _ \<Rightarrow> Some n), s)"
proof (cases "pushable_tasks (rtq s c)")
  case (Cons n ns)
  obtain k p where n: "n = (k, p)" by (cases n)
  have s: "rt_inv s" "pushable_ok s" using assms by (simp_all add: rt_balanced_def)
  have "(k, p) \<in> set (pushable_tasks (rtq s c))" using Cons n by simp
  note P = pushable_okD[OF s(2) this]
  have "rt_index_ok (p_prio (tasks s p))" using rt_inv_parts(1)[OF s(1)] P(2) unfolding rt_lists_def by blast
  then have "rt_task (tasks s p)" by (simp add: rt_task_def rt_prio_def rt_index_ok_def)
  then show ?thesis
    using Cons n P by (simp add: pick_next_pushable_task_def Let_def task_current_def task_on_rq_queued_def)
qed (simp add: pick_next_pushable_task_def)

lemma push_rt_task_cases:
  assumes "rt_balanced s" "uncontended e" "0 < e_fuel e"
  shows "push_rt_task e c s = (False, s) \<or> push_rt_task e c s = (False, resched_curr c s) \<or>
    (\<exists>k p ns d. pushable_tasks (rtq s c) = (k, p) # ns \<and> find_lowest_rq e s p = Some d \<and> d \<noteq> c \<and>
       p_prio (tasks s p) < highest_prio_curr (rtq s d) \<and> push_rt_task e c s = (True, resched_curr d (rt_move e c p d s)))"
proof -
  obtain n where n: "e_fuel e = Suc n" using assms(3) gr0_implies_Suc by blast
  have pushable: "pushable_ok s" using assms(1) by (simp add: rt_balanced_def)
  show ?thesis
  proof (cases "pushable_tasks (rtq s c)")
    case Nil
    then show ?thesis by (simp add: push_rt_task_def pick_next_pushable_ok[OF assms(1)])
  next
    case (Cons m ns)
    obtain k p where m: "m = (k, p)" by (cases m)
    have "rq_curr (rqs s c) \<noteq> p" using pushable_okD(7)[OF pushable, of k p c] Cons m by simp
    then show ?thesis
      using Cons m n
      by (auto simp: push_rt_task_def pick_next_pushable_ok[OF assms(1)] find_lock_uncontended[OF assms(2)] Let_def
          split: option.splits)
  qed
qed

section \<open>The search for a target\<close>

lemma lowest_in_domains_in:
  assumes "lowest_in_domains s m here sds = Some d" "\<And>h. here = Some h \<Longrightarrow> m h"
  shows "m d"
  using assms
proof (induction s m here sds rule: lowest_in_domains.induct)
  case (2 s m here span w sds)
  have "m (cpumask_any_and s m span) " if "cpumask_any_and s m span < nr_cpu_ids s"
    using cpumask_first_in[of s "\<lambda>c. m c \<and> span c"] that by (simp add: cpumask_any_and_def)
  with 2 show ?case by (auto simp: Let_def split: if_splits option.splits)
qed simp

lemma find_lowest_rq_in:
  assumes "find_lowest_rq e s p = Some d"
  shows "\<exists>m. e_cpupri_find e s p = Some m \<and> m d"
proof -
  obtain m where m: "e_cpupri_find e s p = Some m" using assms by (auto simp: find_lowest_rq_def split: if_splits option.splits)
  let ?here = "if m (this_cpu s) then Some (this_cpu s) else None"
  have dom: "m d'" if "lowest_in_domains s m ?here (e_domains e (p_cpu (tasks s p))) = Some d'" for d'
    by (rule lowest_in_domains_in[OF that]) (simp split: if_splits)
  have "m d"
    using assms m dom[of d] cpumask_first_in[of s m]
    by (simp add: find_lowest_rq_def Let_def split: if_splits option.splits)
  with m show ?thesis by blast
qed

lemma find_lowest_rq_None:
  assumes "e_cpupri_find e s p = Some m" "m x" "x < nr_cpu_ids s" "p_nr_cpus_allowed (tasks s p) \<noteq> 1"
  shows "find_lowest_rq e s p \<noteq> None"
proof -
  have "x \<in> set (cpus_of s m)" using assms(2,3) by (simp add: cpus_of_def)
  then obtain c cs where "cpus_of s m = c # cs" by (cases "cpus_of s m") auto
  moreover have "set (cpus_of s m) \<subseteq> {..<nr_cpu_ids s}" by (auto simp: cpus_of_def)
  ultimately have "cpumask_first s m < nr_cpu_ids s" by (simp add: cpumask_first_def)
  then show ?thesis using assms(1,4) by (simp add: find_lowest_rq_def Let_def split: option.splits)
qed

lemma rt_best_prio:
  assumes "rt_inv s" "rte_on_list (p_rt (tasks s q))"
  shows "highest_prio_curr (rtq s (p_cpu (tasks s q))) \<le> p_prio (tasks s q)"
  using rt_pick_best[OF assms(1), of "p_cpu (tasks s q)"] assms(2) by (auto split: option.splits)

lemma rt_moved_best:
  assumes "rt_inv s" "rt_inv t" "rt_moved p c d s t" "p_prio (tasks s p) < highest_prio_curr (rtq s d)"
  shows "pick_next_rt_entity t d = Some p" "highest_prio_curr (rtq t d) = p_prio (tasks s p)"
proof -
  have key: "task_key (tasks t q) = (if q = p then (True, True, d, snd (snd (snd (task_key (tasks s p))))) else task_key (tasks s q))" for q
    using assms(3) by (simp add: rt_moved_def)
  have kp: "rte_on_list (p_rt (tasks t p))" "p_cpu (tasks t p) = d" "p_prio (tasks t p) = p_prio (tasks s p)"
    using key[of p] by (simp_all add: task_key_def)
  obtain q where q: "pick_next_rt_entity t d = Some q"
    using rt_pick_best[OF assms(2), of d] kp(1,2) by (auto split: option.splits)
  then have b: "rte_on_list (p_rt (tasks t q))" "p_cpu (tasks t q) = d" "p_prio (tasks t q) = highest_prio_curr (rtq t d)"
    "p_prio (tasks t q) \<le> p_prio (tasks t p)"
    using rt_pick_best[OF assms(2), of d] kp(1,2) by auto
  have "q = p"
  proof (rule ccontr)
    assume "q \<noteq> p"
    then have "task_key (tasks t q) = task_key (tasks s q)" using key[of q] by simp
    note K = task_keyD[OF this]
    have "highest_prio_curr (rtq s d) \<le> p_prio (tasks s q)"
      using rt_best_prio[OF assms(1), of q] b K by simp
    then show False using assms(4) b(4) kp(3) K(3) by simp
  qed
  with q b kp show "pick_next_rt_entity t d = Some p" "highest_prio_curr (rtq t d) = p_prio (tasks s p)" by simp_all
qed

lemma resched_balanced: "rt_balanced s \<Longrightarrow> rt_balanced (resched_curr c s)"
  using quiet_still_balanced quiet_resched_curr still_resched_curr by blast

lemma push_rt_task_balanced:
  assumes "rt_balanced s" "uncontended e" "0 < e_fuel e"
  shows "rt_balanced (snd (push_rt_task e c s))"
    and "fst (push_rt_task e c s) \<Longrightarrow>
      length (pushable_tasks (rtq (snd (push_rt_task e c s)) c)) < length (pushable_tasks (rtq s c))"
    and "length (pushable_tasks (rtq (snd (push_rt_task e c s)) c)) \<le> length (pushable_tasks (rtq s c))"
proof -
  { fix k p ns d assume a: "pushable_tasks (rtq s c) = (k, p) # ns" "d \<noteq> c"
      "push_rt_task e c s = (True, resched_curr d (rt_move e c p d s))"
    have m: "(k, p) \<in> set (pushable_tasks (rtq s c))" using a(1) by simp
    note M = rt_move_balanced[OF assms(1) m a(2), of e]
    have "pushable_tasks (rtq (rt_move e c p d s) c) = plist_del p ((k, p) # ns)"
      using M(2) a(1) by (simp add: rt_moved_def)
    then have "length (pushable_tasks (rtq (snd (push_rt_task e c s)) c)) < length (pushable_tasks (rtq s c))"
      using a(1,3) by (simp add: plist_del_def le_imp_less_Suc)
    moreover have "rt_balanced (snd (push_rt_task e c s))" using a(3) M(1) resched_balanced by simp
    ultimately have "rt_balanced (snd (push_rt_task e c s)) \<and>
      length (pushable_tasks (rtq (snd (push_rt_task e c s)) c)) < length (pushable_tasks (rtq s c))" by simp }
  note moved = this
  show "rt_balanced (snd (push_rt_task e c s))"
    "fst (push_rt_task e c s) \<Longrightarrow>
      length (pushable_tasks (rtq (snd (push_rt_task e c s)) c)) < length (pushable_tasks (rtq s c))"
    "length (pushable_tasks (rtq (snd (push_rt_task e c s)) c)) \<le> length (pushable_tasks (rtq s c))"
    using push_rt_task_cases[OF assms, of c] moved assms(1) resched_balanced[OF assms(1), of c] by fastforce+
qed

lemma push_rt_loop_complete:
  assumes "uncontended e" "0 < e_fuel e"
  shows "rt_balanced s \<Longrightarrow> length (pushable_tasks (rtq s c)) < n \<Longrightarrow>
    rt_balanced (push_rt_loop e n c s) \<and> 
    (\<exists>u. rt_balanced u \<and> \<not> fst (push_rt_task e c u) \<and> push_rt_loop e n c s = snd (push_rt_task e c u))"
proof (induction n arbitrary: s)
  case (Suc n)
  obtain moved t where t: "push_rt_task e c s = (moved, t)" by fastforce
  note B = push_rt_task_balanced[OF Suc.prems(1) assms, of c, unfolded t, simplified]
  show ?case
  proof (cases moved)
    case True
    with B(2) Suc.prems(2) have "length (pushable_tasks (rtq t c)) < n" by simp
    from Suc.IH[OF B(1) this] show ?thesis using t True by simp
  next
    case False
    then show ?thesis using t B(1) Suc.prems(1) by auto
  qed
qed simp

section \<open>Pull\<close>

definition pulled :: "cpu_id \<Rightarrow> sys \<Rightarrow> sys \<Rightarrow> bool" where
  "pulled c s t \<longleftrightarrow> rt_balanced t \<and> highest_prio_curr (rtq t c) \<le> highest_prio_curr (rtq s c) \<and>
     (\<forall>q. p_prio (tasks t q) = p_prio (tasks s q) \<and>
        (p_cpu (tasks t q) = p_cpu (tasks s q) \<or>
         p_cpu (tasks t q) = c \<and> p_prio (tasks s q) < highest_prio_curr (rtq s c)))"

lemma pulled_trans: "pulled c s t \<Longrightarrow> pulled c t u \<Longrightarrow> pulled c s u"
  unfolding pulled_def by (metis order_trans order_less_le_trans)

lemma pulled_resched: "rt_balanced s \<Longrightarrow> pulled c s (resched_curr d s)"
  by (simp add: pulled_def resched_balanced)

lemma rt_moved_pulled:
  assumes "rt_balanced s" "rt_balanced t" "rt_moved p src c s t" "p_prio (tasks s p) < highest_prio_curr (rtq s c)"
  shows "pulled c s t"
proof -
  have key: "task_key (tasks t q) = (if q = p then (True, True, c, snd (snd (snd (task_key (tasks s p))))) else task_key (tasks s q))" for q
    using assms(3) by (simp add: rt_moved_def)
  have "highest_prio_curr (rtq t c) = p_prio (tasks s p)"
    using rt_moved_best(2)[OF _ _ assms(3,4)] assms(1,2) by (simp add: rt_balanced_def)
  moreover have "p_prio (tasks t q) = p_prio (tasks s q) \<and>
        (p_cpu (tasks t q) = p_cpu (tasks s q) \<or> p_cpu (tasks t q) = c \<and> p_prio (tasks s q) < highest_prio_curr (rtq s c))" for q
    using key[of q] assms(4) by (cases "q = p") (simp_all add: task_key_def)
  ultimately show ?thesis using assms(2,4) by (simp add: pulled_def)
qed

lemma pull_one_pulled:
  assumes "rt_balanced s" "uncontended e"
  shows "pulled c s (snd (pull_one e c src (r, s)))"
proof -
  have same: "pulled c s s" using assms(1) by (simp add: pulled_def)
  have lk: "e_double_lock e c src s = (False, s)" using assms(2) by (simp add: uncontended_def)
  show ?thesis
  proof (cases "pick_highest_pushable_task s src c")
    case None
    then show ?thesis using same lk by (simp add: pull_one_def Let_def)
  next
    case (Some p)
    then obtain k where "(k, p) \<in> set (pushable_tasks (rtq s src))"
      by (auto simp: pick_highest_pushable_task_def find_Some_iff split: if_splits) 
        (metis nth_mem surjective_pairing)
    then have "rt_balanced (rt_move e src p c s)" "rt_moved p src c s (rt_move e src p c s)" if "src \<noteq> c"
      using rt_move_balanced[OF assms(1)] that by (metis)+
    then have "pulled c s (rt_move e src p c s)" if "src \<noteq> c" "p_prio (tasks s p) < highest_prio_curr (rtq s c)"
      using rt_moved_pulled[OF assms(1)] that by blast
    then show ?thesis using same lk Some by (auto simp: pull_one_def Let_def)
  qed
qed

lemma pull_fold_pulled:
  assumes "uncontended e"
  shows "rt_balanced s \<Longrightarrow> pulled c s (snd (fold (pull_one e c) cs (r, s)))"
proof (induction cs arbitrary: r s)
  case Nil
  then show ?case by (simp add: pulled_def)
next
  case (Cons x xs)
  obtain r' t where t: "pull_one e c x (r, s) = (r', t)" by fastforce
  then have p: "pulled c s t" using pull_one_pulled[OF Cons.prems assms, of c x r] by simp
  then have "pulled c t (snd (fold (pull_one e c) xs (r', t)))" by (intro Cons.IH) (simp add: pulled_def)
  with p show ?case by (simp add: t) (rule pulled_trans)
qed

section \<open>The interrupt chain\<close>

text \<open>The answers of \<open>k\<close> successive calls of \<open>rto_next_cpu\<close>.\<close>

fun rto_calls :: "nat \<Rightarrow> nat \<Rightarrow> root_domain \<Rightarrow> int list \<times> root_domain" where
  "rto_calls n 0 rd = ([], rd)"
| "rto_calls n (Suc k) rd =
     (case rto_next_cpu n rd of (c, rd1) \<Rightarrow> case rto_calls n k rd1 of (cs, rd2) \<Rightarrow> (c # cs, rd2))"

lemma rto_calls_append:
  "rto_calls n (j + k) rd = (case rto_calls n j rd of (cs, rd1) \<Rightarrow> case rto_calls n k rd1 of (ds, rd2) \<Rightarrow> (cs @ ds, rd2))"
  by (induction j arbitrary: rd) (auto split: prod.splits)

lemma filter_upt_next:
  "filter m [k..<n] = c # cs \<Longrightarrow> c < n \<and> k \<le> c \<and> cs = filter m [Suc c..<n]"
proof (induction "n - k" arbitrary: k)
  case (Suc d)
  then have k: "[k..<n] = k # [Suc k..<n]" by (simp add: upt_conv_Cons)
  show ?case
  proof (cases "m k")
    case True
    then show ?thesis using Suc.prems k by (metis Suc.hyps(2) filter.simps(2) list.inject order_refl zero_less_Suc zero_less_diff)
  next
    case False
    then have "filter m [Suc k..<n] = c # cs" using Suc.prems k by simp
    moreover have "d = n - Suc k" using Suc.hyps(2) by simp
    ultimately show ?thesis using Suc.hyps(1)[of "Suc k"] by (meson Suc_leD)
  qed
qed simp

abbreviation rto_rest :: "nat \<Rightarrow> root_domain \<Rightarrow> cpu_id list" where
  "rto_rest n rd \<equiv> filter (rto_mask rd) [nat (rto_cpu rd + 1)..<n]"

lemma rto_next_hit:
  "rto_rest n rd = c # cs \<Longrightarrow> rto_next_cpu n rd = (int c, rd\<lparr>rto_cpu := int c\<rparr>)"
  using filter_upt_next[of "rto_mask rd" "nat (rto_cpu rd + 1)" n c cs]
  by (simp add: rto_next_cpu.simps[of n rd] cpumask_next_def Let_def)

lemma rto_next_end:
  "rto_rest n rd = [] \<Longrightarrow> rto_loop rd = rto_loop_next rd \<Longrightarrow> rto_next_cpu n rd = (- 1, rd\<lparr>rto_cpu := - 1\<rparr>)"
  by (simp add: rto_next_cpu.simps[of n rd] cpumask_next_def Let_def)

lemma rto_next_again:
  "rto_rest n rd = [] \<Longrightarrow> rto_loop rd \<noteq> rto_loop_next rd \<Longrightarrow>
     rto_next_cpu n rd = rto_next_cpu n (rd\<lparr>rto_cpu := - 1, rto_loop := rto_loop_next rd\<rparr>)"
  by (simp add: rto_next_cpu.simps[of n rd] cpumask_next_def Let_def)

lemma rto_calls_pass:
  "rto_rest n rd = cs \<Longrightarrow> rto_calls n (length cs) rd =
     (map int cs, if cs = [] then rd else rd\<lparr>rto_cpu := int (last cs)\<rparr>)"
proof (induction cs arbitrary: rd)
  case (Cons c cs)
  let ?rd = "rd\<lparr>rto_cpu := int c\<rparr>"
  have "rto_rest n ?rd = cs" using filter_upt_next[OF Cons.prems] by (simp add: nat_add_distrib)
  from Cons.IH[OF this] show ?case by (simp add: rto_next_hit[OF Cons.prems])
qed simp

lemma rto_rest_last:
  "rto_rest n rd = cs \<Longrightarrow> rto_rest n (if cs = [] then rd else rd\<lparr>rto_cpu := int (last cs)\<rparr>) = []"
proof (induction cs arbitrary: rd)
  case (Cons c cs)
  let ?rd = "rd\<lparr>rto_cpu := int c\<rparr>"
  have "rto_rest n ?rd = cs" using filter_upt_next[OF Cons.prems] by (simp add: nat_add_distrib)
  from Cons.IH[OF this] show ?case by (simp split: if_splits)
qed simp

lemma rto_calls_end:
  assumes "rto_rest n rd = cs" "rto_loop rd = rto_loop_next rd"
  shows "rto_calls n (length cs + 1) rd = (map int cs @ [- 1], rd\<lparr>rto_cpu := - 1\<rparr>)"
proof -
  let ?rd = "if cs = [] then rd else rd\<lparr>rto_cpu := int (last cs)\<rparr>"
  have "rto_next_cpu n ?rd = (- 1, rd\<lparr>rto_cpu := - 1\<rparr>)"
    using rto_next_end[OF rto_rest_last[OF assms(1)]] assms(2) by (simp split: if_splits)
  then show ?thesis by (simp add: rto_calls_append rto_calls_pass[OF assms(1)] del: add_Suc_right)
qed


section \<open>A machine with a task to push\<close>

definition push_demo_task :: "int \<Rightarrow> task_struct \<Rightarrow> task_struct" where
  "push_demo_task q t = t\<lparr>p_prio := q, p_policy := SCHED_FIFO, p_sched_class := Rt_class, p_on_rq := TASK_ON_RQ_QUEUED\<rparr>"

text \<open>Task 5 runs on CPU 0, the idle task on the other CPUs.\<close>

definition push_demo_base :: sys where
  "push_demo_base = (upd_task 6 (push_demo_task 20) (upd_task 5 (push_demo_task 10) boot_sys))
     \<lparr>rqs := (\<lambda>x. (boot_rq x)\<lparr>rq_curr := (if x = 0 then 5 else 1)\<rparr>)\<rparr>"

definition push_demo :: sys where
  "push_demo = enqueue_task_rt 0 6 0 (enqueue_task_rt 0 5 0 push_demo_base)"

definition push_env :: kenv where
  "push_env = quiet_env\<lparr>e_cpupri_find := (\<lambda>s p. Some (\<lambda>x. x = 1))\<rparr>"

lemma push_env: "uncontended push_env" "e_fuel push_env = 3" "e_cpupri_find push_env s p = Some (\<lambda>x. x = 1)"
  by (simp_all add: uncontended_def push_env_def quiet_env_def)

lemma push_demo_overloaded: "rt_is_overloaded (rtq push_demo 0)"
  by code_simp

lemma push_demo_steps:
  defines "a \<equiv> push_demo_base"
  defines "b \<equiv> enqueue_task_rt 0 5 0 a"
  shows "rt_inv a" "rt_inv b" "rt_inv push_demo" "fault push_demo = None"
    "task_key (tasks push_demo q) = (q = 5 \<or> q = 6, q = 5 \<or> q = 6, snd (snd (task_key (tasks a q))))"
    "task_place (tasks push_demo q) = task_place (tasks a q)" "rq_curr (rqs push_demo x) = (if x = 0 then 5 else 1)"
    "pushable_tasks (rtq push_demo x) = (if x = 0 then [(20, 6)] else [])"
    "p_cpus_allowed (tasks push_demo q) = p_cpus_allowed (tasks a q)"
proof -
  have ix: "rt_index_ok (p_prio (tasks a 5))" "rt_index_ok (p_prio (tasks a 6))" "5 < PID_MAX_LIMIT" "6 < PID_MAX_LIMIT"
    by (simp_all add: a_def push_demo_base_def push_demo_task_def rt_index_ok_def MAX_RT_PRIO_def PID_MAX_LIMIT_def)
  have nl: "\<not> rte_on_list (p_rt (tasks a q))" "\<not> rte_on_rq (p_rt (tasks a q))" "p_cpu (tasks a 5) = 0" "p_cpu (tasks a 6) = 0" for q
    using boot_rt(6,7)[of q] by (simp_all add: a_def push_demo_base_def push_demo_task_def boot_rt boot_task_def)
  have "rt_inv (upd_task 5 (push_demo_task 10) boot_sys)"
    using boot_rt_inv boot_rt(6) by (rule rt_inv_edit) (simp add: push_demo_task_def)
  then have "rt_inv (upd_task 6 (push_demo_task 20) (upd_task 5 (push_demo_task 10) boot_sys))"
    by (rule rt_inv_edit) (simp_all add: boot_rt boot_task_def push_demo_task_def)
  then show ia: "rt_inv a"
    unfolding a_def push_demo_base_def by (rule rt_quiet_inv(1)) (rule rt_quiet_same; simp add: boot_sys_def)
  note ib = enqueue_task_rt_inv[OF ia nl(1) move_zero ix(1,3), of 0]
  note eb = enqueue_task_rt_moved[OF ia nl(1) ix(1) nl(3)]
  show ib': "rt_inv b" using ib(1) by (simp add: b_def)
  have kb: "\<not> rte_on_list (p_rt (tasks b 6))" "p_prio (tasks b 6) = p_prio (tasks a 6)" "p_cpu (tasks b 6) = 0"
    "p_nr_cpus_allowed (tasks b 6) = p_nr_cpus_allowed (tasks a 6)"
    using eb(1)[of 6] nl(1)[of 6] nl(4) by (simp_all add: b_def task_key_def)
  note ic = enqueue_task_rt_inv[OF ib' kb(1) move_zero ix(2)[folded kb(2)] ix(4), of 0]
  note ec = enqueue_task_rt_moved[OF ib' kb(1) ix(2)[folded kb(2)] kb(3)]
  have d: "push_demo = enqueue_task_rt 0 6 0 b" by (simp add: push_demo_def b_def a_def)
  show "rt_inv push_demo" "fault push_demo = None"
    using ic ib(2) by (simp_all add: d b_def a_def push_demo_base_def boot_rt)
  show "task_key (tasks push_demo q) = (q = 5 \<or> q = 6, q = 5 \<or> q = 6, snd (snd (task_key (tasks a q))))"
    using ec(1)[of q] eb(1)[of q] eb(1)[of 6] nl(1,2)[of q] by (auto simp: d b_def task_key_def)
  show "task_place (tasks push_demo q) = task_place (tasks a q)" using ec(2)[of q] eb(2)[of q] by (simp add: d b_def)
  show "p_cpus_allowed (tasks push_demo q) = p_cpus_allowed (tasks a q)" using ec(5)[of q] eb(5)[of q] by (simp add: d b_def)
  have cu: "rq_curr (rqs a x) = (if x = 0 then 5 else 1)" for x by (simp add: a_def push_demo_base_def)
  show "rq_curr (rqs push_demo x) = (if x = 0 then 5 else 1)" using ec(3)[of x] eb(3)[of x] cu by (simp add: d b_def)
  have "pushable_tasks (rtq a x) = []" for x by (simp add: a_def push_demo_base_def boot_rq_def boot_rt_rq_def)
  then have "pushable_tasks (rtq b x) = []" for x using eb(4)[of x] cu by (simp add: b_def)
  moreover have "p_prio (tasks a 6) = 20" "p_nr_cpus_allowed (tasks a 6) = 2" by (simp_all add: a_def push_demo_base_def push_demo_task_def boot_rt boot_task_def)
  ultimately show "pushable_tasks (rtq push_demo x) = (if x = 0 then [(20, 6)] else [])"
    using ec(4)[of x] eb(3)[of 0] cu kb(2,4) by (simp add: d b_def plist_del_def)
qed

lemma push_demo_eval: "highest_prio_curr (rtq push_demo (Suc 0)) = 100" "nr_cpu_ids push_demo = 2" "this_cpu push_demo = 0"
  "feat_rt_push_ipi push_demo = False"
  by code_simp+

lemma push_demo_task: "p_prio (tasks push_demo 5) = 10" "p_prio (tasks push_demo 6) = 20" "p_cpu (tasks push_demo 6) = 0"
  "p_nr_cpus_allowed (tasks push_demo 6) = 2" "rte_on_list (p_rt (tasks push_demo 6))"
  using push_demo_steps(5)[of 5] push_demo_steps(5)[of 6] by (simp_all add: task_key_def push_demo_base_def push_demo_task_def boot_rt boot_task_def)

lemma push_demo_balanced: "rt_balanced push_demo"
proof -
  have "task_place (tasks push_demo 6) = (Rt_class, TASK_ON_RQ_QUEUED)"
    using push_demo_steps(6)[of 6] by (simp add: task_place_def push_demo_base_def push_demo_task_def)
  then have "pushable_ok push_demo"
    using push_demo_task by (simp add: pushable_ok_def push_demo_steps(7,8))
  then show ?thesis using push_demo_steps(3,4) by (simp add: rt_balanced_def)
qed

lemma push_demo_lowest: "find_lowest_rq push_env push_demo 6 = Some 1"
proof -
  have "cpus_of push_demo (\<lambda>x. x = 1) = [1]" by (simp add: cpus_of_def push_demo_eval upt_rec)
  then have "cpumask_first push_demo (\<lambda>x. x = 1) = 1" by (simp add: cpumask_first_def)
  moreover have "e_domains push_env c = []" for c by (simp add: push_env_def quiet_env_def)
  ultimately show ?thesis by (simp add: find_lowest_rq_def push_env push_demo_task push_demo_eval Let_def)
qed

lemma push_demo_moves: "push_rt_task push_env 0 push_demo = (True, resched_curr 1 (rt_move push_env 0 6 1 push_demo))"
proof -
  have "push_rt_retry push_env (Suc n) 0 6 push_demo = (True, resched_curr 1 (rt_move push_env 0 6 1 push_demo))" for n
    by (simp add: find_lock_uncontended[OF push_env(1)] push_demo_lowest push_demo_eval push_demo_steps(7) push_demo_task)
  from this[of 2] show ?thesis
    using push_demo_overloaded
    by (simp add: push_rt_task_def pick_next_pushable_ok[OF push_demo_balanced] push_demo_steps(8) push_env(2))
qed

lemma push_demo_allowed: "p_cpus_allowed (tasks push_demo p) x"
  by (simp add: push_demo_steps(9)) (simp add: push_demo_base_def push_demo_task_def boot_sys_def boot_task_def)

section \<open>Properties\<close>







text \<open>
  The search for a target CPU answers with a CPU of the mask that \<open>cpupri_find\<close> gave, prefers
  the CPU the task last ran on, and fails only for a task bound to one CPU, when \<open>cpupri_find\<close> found
  nothing, or when its mask has no existing CPU.
\<close>

theorem find_lowest_rq_exact:
  "case find_lowest_rq e s p of
     Some d \<Rightarrow> (\<exists>m. e_cpupri_find e s p = Some m \<and> m d \<and> (m (p_cpu (tasks s p)) \<longrightarrow> d = p_cpu (tasks s p)))
   | None \<Rightarrow> p_nr_cpus_allowed (tasks s p) = 1 \<or> e_cpupri_find e s p = None \<or>
       (\<exists>m. e_cpupri_find e s p = Some m \<and> (\<forall>x<nr_cpu_ids s. \<not> m x))"
proof (cases "find_lowest_rq e s p")
  case None
  then show ?thesis using find_lowest_rq_None[of e s p] by (cases "e_cpupri_find e s p") auto
next
  case (Some d)
  then obtain m where m: "e_cpupri_find e s p = Some m" "m d" using find_lowest_rq_in by blast
  then have "m (p_cpu (tasks s p)) \<longrightarrow> d = p_cpu (tasks s p)" using Some by (auto simp: find_lowest_rq_def split: if_splits)
  with m Some show ?thesis by simp
qed

theorem find_lowest_rq_exact_witness: "\<exists>m. e_cpupri_find push_env push_demo 6 = Some m \<and> m 1"
  using find_lowest_rq_exact[where e = push_env and s = push_demo and p = 6] push_demo_lowest by auto



end
