(* ===== verification/Sched_Ttwu.thy ===== *)
theory Sched_Ttwu
  imports Sched_Dispatch
begin

text \<open>
  Correctness of the wakeup and fork paths of \<open>kernel/sched/core.c\<close> for the time-sharing class:
  what \<open>try_to_wake_up\<close> establishes for a sleeping task, that the CPU chosen is always one the task
  may run on, and what a forked child starts with.
\<close>

section \<open>Time-sharing state that other services keep\<close>

definition ts_same :: "sys \<Rightarrow> sys \<Rightarrow> bool" where
  "ts_same s t \<longleftrightarrow> (\<forall>c. rq_ts (rqs t c) = rq_ts (rqs s c) \<and> rq_curr (rqs t c) = rq_curr (rqs s c)) \<and> fault t = fault s \<and>
     (\<forall>q. p_ts (tasks t q) = p_ts (tasks s q) \<and> p_prio (tasks t q) = p_prio (tasks s q) \<and>
        p_sched_class (tasks t q) = p_sched_class (tasks s q))"

lemma ts_same_refl [simp]: "ts_same s s"
  by (simp add: ts_same_def)

lemma ts_same_trans [trans]: "ts_same s t \<Longrightarrow> ts_same t u \<Longrightarrow> ts_same s u"
  by (simp add: ts_same_def)

lemma ts_same_parts:
  assumes "ts_same s t"
  shows "ts_queues t c = ts_queues s c" "ts_linked t p = ts_linked s p" "ts_slice_ok t p = ts_slice_ok s p" "ts_good t = ts_good s"
proof -
  have a: "ts_queues t c = ts_queues s c" "ts_linked t p = ts_linked s p" "ts_slice_ok t p = ts_slice_ok s p" for c p
    using assms by (simp_all add: ts_same_def ts_queues_def ts_linked_def ts_slice_ok_def)
  then show "ts_queues t c = ts_queues s c" "ts_linked t p = ts_linked s p" "ts_slice_ok t p = ts_slice_ok s p" by simp_all
  show "ts_good t = ts_good s"
    using assms by (simp add: ts_good_def ts_inv_def a ts_members_def ts_same_def)
qed

lemma ts_same_clock: "ts_same s (update_rq_clock c s)"
  by (simp add: ts_same_def)

lemma ts_same_resched: "ts_same s (resched_curr c s)"
  by (simp add: ts_same_def)

lemma ts_same_upd_rq:
  "(\<And>r. rq_ts (f r) = rq_ts r) \<Longrightarrow> (\<And>r. rq_curr (f r) = rq_curr r) \<Longrightarrow> ts_same s (upd_rq c f s)"
  by (simp add: ts_same_def)

lemma ts_same_upd_task:
  "(\<And>t. p_ts (f t) = p_ts t \<and> p_prio (f t) = p_prio t \<and> p_sched_class (f t) = p_sched_class t) \<Longrightarrow> ts_same s (upd_task p f s)"
  by (simp add: ts_same_def)

text \<open>When a woken time-sharing task preempts.\<close>

definition ts_preempts :: "sys \<Rightarrow> cpu_id \<Rightarrow> task_id \<Rightarrow> bool" where
  "ts_preempts s c p \<longleftrightarrow>
     (let k = p_sched_class (tasks s (rq_curr (rqs s c)))
      in if k = Ts_class then p_prio (tasks s p) < p_prio (tasks s (rq_curr (rqs s c)))
         else k = Fair_class \<or> k = Idle_class)"

lemma ts_outranks: "k \<noteq> Ts_class \<Longrightarrow> class_outranks class_order Ts_class k \<longleftrightarrow> k = Fair_class \<or> k = Idle_class"
  by (cases k) (simp_all add: class_order_def)

lemma check_preempt_curr_ts_task:
  assumes "p_sched_class (tasks s p) = Ts_class"
  shows "\<exists>f. check_preempt_curr e c p wfl s = upd_rq c f (if ts_preempts s c p then resched_curr c s else s) \<and>
    (\<forall>r. rq_ts (f r) = rq_ts r \<and> rq_curr (f r) = rq_curr r \<and> rq_idle_stamp (f r) = rq_idle_stamp r)"
proof -
  let ?v = "if ts_preempts s c p then resched_curr c s else s"
  have id: "upd_rq c (\<lambda>r. r) u = u" for u by (simp add: upd_rq_def)
  let ?k = "p_sched_class (tasks s (rq_curr (rqs s c)))"
  have w: "(if p_sched_class (tasks s p) = ?k then class_check_preempt_curr e ?k c p wfl s
      else if class_outranks class_order (p_sched_class (tasks s p)) ?k then resched_curr c s else s) = ?v"
  proof (cases "?k = Ts_class")
    case True
    then show ?thesis using assms by (simp add: class_check_preempt_curr_def check_preempt_curr_ts_def ts_preempts_def)
  next
    case False
    then show ?thesis unfolding assms using ts_outranks[OF False] by (simp add: ts_preempts_def)
  qed
  have v: "check_preempt_curr e c p wfl s =
    (if task_on_rq_queued ?v (rq_curr (rqs ?v c)) \<and> p_need_resched (tasks ?v (rq_curr (rqs ?v c)))
     then rq_clock_skip_update c ?v else ?v)"
    unfolding check_preempt_curr_def Let_def w ..
  let ?f = "\<lambda>rq. rq\<lparr>rq_clock_update_flags := rq_clock_update_flags rq OR RQCF_REQ_SKIP\<rparr>"
  show ?thesis
  proof (cases "task_on_rq_queued ?v (rq_curr (rqs ?v c)) \<and> p_need_resched (tasks ?v (rq_curr (rqs ?v c)))")
    case True
    show ?thesis unfolding v if_P[OF True] by (intro exI[of _ ?f]) (simp add: rq_clock_skip_update_def)
  next
    case False
    show ?thesis unfolding v if_not_P[OF False] by (intro exI[of _ "\<lambda>r. r"]) (simp add: id)
  qed
qed

lemma ttwu_do_wakeup_ts:
  assumes "p_sched_class (tasks s p) = Ts_class" "p \<noteq> rq_curr (rqs s c)"
    and t0: "t = ttwu_do_wakeup e c p wfl s"
  shows "ts_same s t" "p_state (tasks t p) = TASK_RUNNING" "p_on_rq (tasks t p) = p_on_rq (tasks s p)"
    "ts_preempts s c p \<Longrightarrow> p_need_resched (tasks t (rq_curr (rqs s c)))"
    "\<not> ts_preempts s c p \<Longrightarrow> tasks t q = (if q = p then (tasks s p)\<lparr>p_state := TASK_RUNNING\<rparr> else tasks s q)"
proof -
  let ?v = "if ts_preempts s c p then resched_curr c s else s"
  obtain f where f: "check_preempt_curr e c p wfl s = upd_rq c f ?v"
    "\<And>r. rq_ts (f r) = rq_ts r" "\<And>r. rq_curr (f r) = rq_curr r"
    using check_preempt_curr_ts_task[OF assms(1), of e c wfl] by blast
  let ?u = "upd_task p (\<lambda>t. t\<lparr>p_state := TASK_RUNNING\<rparr>) (upd_rq c f ?v)"
  have cl: "p_sched_class (tasks ?u p) = Ts_class" using assms(1) by simp
  obtain g where g: "t = upd_rq c g ?u" "\<And>r. rq_ts (g r) = rq_ts r" "\<And>r. rq_curr (g r) = rq_curr r"
  proof (cases "rq_idle_stamp (rqs ?u c) = 0")
    case True
    then have "t = upd_rq c (\<lambda>r. r) ?u"
      using cl by (simp add: t0 ttwu_do_wakeup_def f(1) Let_def class_task_woken_def) (simp add: upd_rq_def)
    then show ?thesis using that by simp
  next
    case False
    then show ?thesis using cl that by (simp add: t0 ttwu_do_wakeup_def f(1) Let_def class_task_woken_def)
  qed
  have t: "tasks t = (tasks ?v)(p := (tasks ?v p)\<lparr>p_state := TASK_RUNNING\<rparr>)" by (simp add: g(1))
  have "ts_same s ?v" by (simp add: ts_same_resched)
  also have "ts_same ?v (upd_rq c f ?v)" using f(2,3) by (rule ts_same_upd_rq)
  also have "ts_same (upd_rq c f ?v) ?u" by (rule ts_same_upd_task) simp
  also have "ts_same ?u t" unfolding g(1) using g(2,3) by (rule ts_same_upd_rq)
  finally show "ts_same s t" .
  show "p_state (tasks t p) = TASK_RUNNING" by (simp add: t)
  show "p_on_rq (tasks t p) = p_on_rq (tasks s p)" by (simp add: t)
  show "ts_preempts s c p \<Longrightarrow> p_need_resched (tasks t (rq_curr (rqs s c)))"
    using assms(2) by (simp add: t resched_curr_tasks)
  show "\<not> ts_preempts s c p \<Longrightarrow> tasks t q = (if q = p then (tasks s p)\<lparr>p_state := TASK_RUNNING\<rparr> else tasks s q)"
    by (simp add: t)
qed

lemma wake_flags:
  assumes "fl = (ENQUEUE_WAKEUP OR ENQUEUE_NOCLOCK) OR (if b then ENQUEUE_MIGRATED else 0)"
  shows "flag_set fl ENQUEUE_WAKEUP" "flag_set fl ENQUEUE_NOCLOCK"
  unfolding assms by (simp_all add: flag_set_def queue_flag_defs)

definition woken :: "cpu_id \<Rightarrow> task_id \<Rightarrow> sys \<Rightarrow> sys \<Rightarrow> bool" where
  "woken c p s t \<longleftrightarrow> ts_good t \<and>
     (\<forall>d. ts_queues t d = (if d = c then (ts_queues s c)[nat (139 - p_prio (tasks s p)) :=
        ts_queues s c ! nat (139 - p_prio (tasks s p)) @ [p]] else ts_queues s d)) \<and>
     p_prio (tasks t p) = get_new_prio (p_prio (tasks s p)) 1 \<and>
     p_state (tasks t p) = TASK_RUNNING \<and> p_on_rq (tasks t p) = TASK_ON_RQ_QUEUED \<and>
     (\<forall>d. rq_curr (rqs t d) = rq_curr (rqs s d)) \<and> (ts_preempts t c p \<longrightarrow> p_need_resched (tasks t (rq_curr (rqs t c))))"

lemma ttwu_activate_ts:
  assumes g: "ts_good s" "\<not> ts_linked s p" "ts_prio_ok (p_prio (tasks s p))" "ts_slice_ok s p"
    and cl: "p_sched_class (tasks s p) = Ts_class" "\<not> flag_set (p_flags (tasks s p)) PF_WQ_WORKER"
    and fl: "flag_set fl ENQUEUE_WAKEUP" "flag_set fl ENQUEUE_NOCLOCK"
    and t: "t = ttwu_activate e c p fl s"
  shows "ts_good t" "ts_queues t d = (if d = c then (ts_queues s c)[nat (139 - p_prio (tasks s p)) :=
        ts_queues s c ! nat (139 - p_prio (tasks s p)) @ [p]] else ts_queues s d)"
    "p_prio (tasks t p) = get_new_prio (p_prio (tasks s p)) 1" "p_on_rq (tasks t p) = TASK_ON_RQ_QUEUED"
    "rq_curr (rqs t d) = rq_curr (rqs s d)" "p_sched_class (tasks t q) = p_sched_class (tasks s q)"
proof -
  let ?s0 = "if task_contributes_to_load (tasks s p)
        then upd_rq c (\<lambda>rq. rq\<lparr>rq_nr_uninterruptible := rq_nr_uninterruptible rq - 1\<rparr>) s else s"
  have s0: "ts_same s ?s0" "tasks ?s0 = tasks s" by (simp_all add: ts_same_upd_rq)
  let ?e = "enqueue_task_ts c p fl ?s0"
  let ?on = "upd_task p (\<lambda>t. t\<lparr>p_on_rq := TASK_ON_RQ_QUEUED\<rparr>) ?e"
  let ?s1 = "upd_task p (\<lambda>t. t\<lparr>p_prio := get_new_prio (p_prio t) 1\<rparr>) ?s0"
  have e: "?e = ts_list_add_tail p c (139 - p_prio (tasks s p)) ?s1"
    using fl(1) s0(2) by (simp add: enqueue_task_ts_def)
  have pf: "p_flags (tasks ?e p) = p_flags (tasks s p)"
    unfolding e using s0(2) by (simp add: ts_list_add_tail_def set_ts_node_def)
  have tt: "t = ?on"
    using cl pf fl(2) s0(2)
    by (simp add: t ttwu_activate_def activate_task_def enqueue_task_def class_enqueue_task_def Let_def)
  have same: "ts_same ?e ?on" by (rule ts_same_upd_task) simp
  note S = ts_same_parts[OF s0(1)]
  have "ts_good ?e" by (rule enqueue_task_ts_good) (use g s0(2) in \<open>simp_all only: S simp_thms\<close>)
  then show "ts_good t" unfolding tt using ts_same_parts(4)[OF same] by blast
  have nl: "\<not> ts_linked ?s1 p" using g(2) s0(2) by (simp add: ts_linked_def)
  have q1: "ts_queues ?s1 d = ts_queues s d" for d using S(1)[of d] by (simp add: ts_queues_def)
  note A = ts_list_add_tail_queues[OF conjunct1[OF ts_idx_ok[OF g(3)]] conjunct2[OF ts_idx_ok[OF g(3)]] nl, where c = c]
  show "ts_queues t d = (if d = c then (ts_queues s c)[nat (139 - p_prio (tasks s p)) :=
        ts_queues s c ! nat (139 - p_prio (tasks s p)) @ [p]] else ts_queues s d)"
    unfolding tt by (rule trans[OF ts_same_parts(1)[OF same]]) (simp only: e A(1) q1)
  show "p_prio (tasks t p) = get_new_prio (p_prio (tasks s p)) 1" unfolding tt e using s0(2) by simp
  show "p_on_rq (tasks t p) = TASK_ON_RQ_QUEUED" unfolding tt by simp
  show "rq_curr (rqs t d) = rq_curr (rqs s d)" unfolding tt e using s0(1) by (simp add: ts_same_def)
  show "p_sched_class (tasks t q) = p_sched_class (tasks s q)" unfolding tt e using s0(2) by simp
qed

lemma ttwu_do_activate_ts:
  assumes "ts_good s" "\<not> ts_linked s p" "ts_prio_ok (p_prio (tasks s p))" "ts_slice_ok s p"
    and "p_sched_class (tasks s p) = Ts_class" "\<not> flag_set (p_flags (tasks s p)) PF_WQ_WORKER" "p \<noteq> rq_curr (rqs s c)"
  shows "woken c p s (ttwu_do_activate e c p wfl s)"
proof -
  let ?s0 = "if p_sched_contributes_to_load (tasks s p)
        then upd_rq c (\<lambda>rq. rq\<lparr>rq_nr_uninterruptible := rq_nr_uninterruptible rq - 1\<rparr>) s else s"
  have s0: "ts_same s ?s0" "tasks ?s0 = tasks s" by (simp_all add: ts_same_upd_rq)
  note S = ts_same_parts[OF s0(1)]
  let ?fl = "(ENQUEUE_WAKEUP OR ENQUEUE_NOCLOCK) OR (if flag_set wfl WF_MIGRATED then ENQUEUE_MIGRATED else 0)"
  let ?a = "ttwu_activate e c p ?fl ?s0"
  have c0: "rq_curr (rqs ?s0 d) = rq_curr (rqs s d)" for d using s0(1) by (simp add: ts_same_def)
  have pre: "ts_good ?s0" "\<not> ts_linked ?s0 p" "ts_prio_ok (p_prio (tasks ?s0 p))" "ts_slice_ok ?s0 p"
    "p_sched_class (tasks ?s0 p) = Ts_class" "\<not> flag_set (p_flags (tasks ?s0 p)) PF_WQ_WORKER"
    using assms by (simp_all only: S s0(2) simp_thms)
  note A = ttwu_activate_ts[OF pre wake_flags[OF refl] refl, of e c "flag_set wfl WF_MIGRATED", unfolded s0(2)]
  have ca: "p_sched_class (tasks ?a p) = Ts_class" "p \<noteq> rq_curr (rqs ?a c)"
    using A(5,6) assms(5,7) c0 by (simp_all only:) simp_all
  let ?t = "ttwu_do_wakeup e c p wfl ?a"
  note B = ttwu_do_wakeup_ts[OF ca refl, where e = e and wfl = wfl]
  note P = ts_same_parts[OF B(1)]
  have tt: "ttwu_do_activate e c p wfl s = ?t" by (simp add: ttwu_do_activate_def Let_def)
  have pre': "ts_preempts ?t c p = ts_preempts ?a c p" using B(1) by (simp add: ts_preempts_def ts_same_def Let_def)
  show ?thesis
    unfolding tt woken_def
  proof (intro conjI allI impI)
    show "ts_good ?t" using A(1) P(4) by simp
    show "ts_queues ?t d = (if d = c then (ts_queues s c)[nat (139 - p_prio (tasks s p)) :=
        ts_queues s c ! nat (139 - p_prio (tasks s p)) @ [p]] else ts_queues s d)" for d
      by (simp only: P(1) A(2) S(1))
    show "p_prio (tasks ?t p) = get_new_prio (p_prio (tasks s p)) 1" using B(1) A(3) by (simp add: ts_same_def)
    show "p_state (tasks ?t p) = TASK_RUNNING" by (rule B(2))
    show "p_on_rq (tasks ?t p) = TASK_ON_RQ_QUEUED" using B(3) A(4) by simp
    show cu: "rq_curr (rqs ?t d) = rq_curr (rqs s d)" for d using B(1) A(5)[of d] c0[of d] by (simp add: ts_same_def)
    assume "ts_preempts ?t c p"
    then show "p_need_resched (tasks ?t (rq_curr (rqs ?t c)))"
      unfolding pre' using B(1,4) by (simp add: ts_same_def)
  qed
qed

lemma woken_same:
  assumes "ts_same s u" "woken c p u t"
  shows "woken c p s t"
proof -
  have E: "\<And>d. ts_queues u d = ts_queues s d" "\<And>d. rq_curr (rqs u d) = rq_curr (rqs s d)" "p_prio (tasks u p) = p_prio (tasks s p)"
    using assms(1) ts_same_parts(1)[OF assms(1)] by (simp_all add: ts_same_def)
  show ?thesis using assms(2) unfolding woken_def E .
qed

text \<open>The state in which \<open>try_to_wake_up\<close> looks for a CPU.\<close>

definition waking :: "task_id \<Rightarrow> sys \<Rightarrow> sys" where
  "waking p s =
     (let s1 = upd_task p (\<lambda>t. t\<lparr>p_sched_contributes_to_load := task_contributes_to_load t, p_state := TASK_WAKING\<rparr>) s
      in if p_in_iowait (tasks s1 p) then dec_nr_iowait (p_cpu (tasks s1 p)) s1 else s1)"

lemma waking_frame:
  "ts_same s (waking p s)" "p_cpu (tasks (waking p s) p) = p_cpu (tasks s p)" "p_flags (tasks (waking p s) p) = p_flags (tasks s p)"
  "p_nr_cpus_allowed (tasks (waking p s) p) = p_nr_cpus_allowed (tasks s p)" "this_cpu (waking p s) = this_cpu s"
  "is_cpu_allowed (waking p s) p d = is_cpu_allowed s p d" "feat_ttwu_queue (waking p s) = feat_ttwu_queue s"
  by (simp_all add: waking_def Let_def dec_nr_iowait_def ts_same_def is_cpu_allowed_def is_per_cpu_kthread_def)
    (simp_all add: upd_task_def upd_rq_def)

lemma select_task_rq_ts_task:
  assumes "p_sched_class (tasks s p) = Ts_class" "1 < p_nr_cpus_allowed (tasks s p)" "is_cpu_allowed s p (p_cpu (tasks s p))"
  shows "select_task_rq e p d sd wfl s = (p_cpu (tasks s p), s)"
  using assms by (simp add: select_task_rq_def class_select_task_rq_def select_task_rq_ts_def)

lemma try_to_wake_up_ts:
  assumes "ts_good s" "\<not> ts_linked s p" "ts_prio_ok (p_prio (tasks s p))" "ts_slice_ok s p"
    and "p_sched_class (tasks s p) = Ts_class" "\<not> flag_set (p_flags (tasks s p)) PF_WQ_WORKER" "p \<noteq> rq_curr (rqs s (p_cpu (tasks s p)))"
    and "flag_set (p_state (tasks s p)) state" "p_on_rq (tasks s p) = 0" "\<not> p_on_cpu (tasks s p)"
    and "1 < p_nr_cpus_allowed (tasks s p)" "is_cpu_allowed s p (p_cpu (tasks s p))"
    and "feat_ttwu_queue s \<Longrightarrow> cpus_share_cache e (this_cpu s) (p_cpu (tasks s p))"
  shows "fst (try_to_wake_up e p state wfl s) \<and> woken (p_cpu (tasks s p)) p s (snd (try_to_wake_up e p state wfl s))"
proof -
  let ?c = "p_cpu (tasks s p)" and ?w = "waking p s"
  note W = waking_frame[where s = s and p = p]
  have clw: "p_sched_class (tasks ?w p) = Ts_class" using W(1) assms(5) by (simp add: ts_same_def)
  have sel: "select_task_rq e p d SD_BALANCE_WAKE wfl ?w = (?c, ?w)" for d
    using select_task_rq_ts_task[OF clw, of e d SD_BALANCE_WAKE wfl] W assms(11,12) by simp
  have "try_to_wake_up e p state wfl s = (True, ttwu_queue e p ?c wfl ?w)"
  proof (cases "p_in_iowait (tasks s p)")
    case True
    then have w: "?w = dec_nr_iowait ?c (upd_task p (\<lambda>t. t\<lparr>p_sched_contributes_to_load := task_contributes_to_load t,
        p_state := TASK_WAKING\<rparr>) s)" by (simp add: waking_def)
    show ?thesis using assms(8-10) sel[unfolded w] W(2)[unfolded w] True unfolding w by (simp add: try_to_wake_up_def Let_def)
  next
    case False
    then have w: "?w = upd_task p (\<lambda>t. t\<lparr>p_sched_contributes_to_load := task_contributes_to_load t,
        p_state := TASK_WAKING\<rparr>) s" by (simp add: waking_def)
    show ?thesis using assms(8-10) sel[unfolded w] W(2)[unfolded w] False unfolding w by (simp add: try_to_wake_up_def Let_def)
  qed
  also have "ttwu_queue e p ?c wfl ?w = ttwu_do_activate e ?c p wfl (update_rq_clock ?c ?w)"
    using W(5,7) assms(13) by (auto simp: ttwu_queue_def)
  finally have t: "try_to_wake_up e p state wfl s = (True, ttwu_do_activate e ?c p wfl (update_rq_clock ?c ?w))" .
  let ?u = "update_rq_clock ?c ?w"
  have u: "ts_same s ?u" using W(1) ts_same_clock ts_same_trans by blast
  note S = ts_same_parts[OF u]
  have "woken ?c p ?u (ttwu_do_activate e ?c p wfl ?u)"
    by (rule ttwu_do_activate_ts) (use assms(1-7) W(3) u in \<open>simp_all add: S ts_same_def\<close>)
  then show ?thesis unfolding t using woken_same[OF u] by simp
qed

section \<open>Choosing a CPU\<close>

lemma fallback_loop_allowed:
  "fallback_loop e st p s = (d, t) \<Longrightarrow> fault t = None \<Longrightarrow> is_cpu_allowed t p d"
proof (induction e st p s arbitrary: d t rule: fallback_loop.induct)
  case (1 e p s)
  then show ?case by (auto simp: find_Some_iff split: option.splits)
next
  case (2 e p s)
  then show ?case by (auto simp: find_Some_iff split: option.splits)
next
  case (3 e p s)
  then show ?case by (auto simp: find_Some_iff split: option.splits)
qed

lemma is_cpu_allowedD: "is_cpu_allowed s p d \<Longrightarrow> p_cpus_allowed (tasks s p) d \<and> (cpu_online_mask s d \<or> cpu_active_mask s d)"
  by (auto simp: is_cpu_allowed_def split: if_splits)

lemma select_fallback_allowed:
  assumes "select_fallback_rq e c p s = (d, t)" "fault t = None"
  shows "p_cpus_allowed (tasks t p) d \<and> (cpu_online_mask t d \<or> cpu_active_mask t d)"
proof (cases "case e_node_mask e c of None \<Rightarrow> None
    | Some m \<Rightarrow> find (\<lambda>d. cpu_active_mask s d \<and> p_cpus_allowed (tasks s p) d) (cpus_of s m)")
  case None
  then have "fallback_loop e Fb_cpuset p s = (d, t)" using assms(1) by (simp add: select_fallback_rq_def)
  then show ?thesis using fallback_loop_allowed[OF _ assms(2)] is_cpu_allowedD by blast
next
  case (Some x)
  then have "x = d" "s = t" using assms(1) by (simp_all add: select_fallback_rq_def)
  moreover have "cpu_active_mask s x \<and> p_cpus_allowed (tasks s p) x"
    using Some by (auto simp: find_Some_iff split: option.splits)
  ultimately show ?thesis by simp
qed

section \<open>Fork\<close>

lemma get_num_ticks_12: "ts_prio_ok q \<Longrightarrow> get_num_ticks q = 12 \<longleftrightarrow> 120 \<le> q \<and> q < 130"
  by (auto simp: get_num_ticks_def Let_def)

lemma set_load_weight_fork:
  assumes "ts_prio_ok (p_static_prio (tasks s p))"
  shows "\<exists>l. set_load_weight e p False s = upd_task p (\<lambda>t. t\<lparr>p_se := (p_se t)\<lparr>se_load := l\<rparr>\<rparr>) s"
  using assms by (auto simp: set_load_weight_def Let_def prio_consts)

lemma fork_reset_task:
  assumes "ts_prio_ok (p_static_prio (tasks s p))" and k_def: "k = tasks (fork_reset e p s) p"
  shows "\<not> task_has_rt_policy k" "\<not> task_has_dl_policy k" "120 \<le> p_static_prio k" "p_prio k = p_static_prio k"
    "p_normal_prio k = p_static_prio k" "\<not> p_sched_reset_on_fork k"
proof -
  let ?r = "\<lambda>t. if task_has_dl_policy t \<or> task_has_rt_policy t
        then t\<lparr>p_policy := SCHED_NORMAL, p_static_prio := NICE_TO_PRIO 0, p_rt_priority := 0\<rparr>
        else if PRIO_TO_NICE (p_static_prio t) < 0 then t\<lparr>p_static_prio := NICE_TO_PRIO 0\<rparr> else t"
  let ?s2 = "upd_task p (\<lambda>t. t\<lparr>p_prio := normal_prio_static t, p_normal_prio := normal_prio_static t\<rparr>) (upd_task p ?r s)"
  have r: "\<not> task_has_rt_policy (?r t)" "\<not> task_has_dl_policy (?r t)" "120 \<le> p_static_prio (?r t)" "p_static_prio (?r t) \<le> 139"
    if "ts_prio_ok (p_static_prio t)" for t
    using that by (auto simp: task_has_rt_policy_def task_has_dl_policy_def policy_defs prio_consts)
  obtain l where l: "set_load_weight e p False ?s2 = upd_task p (\<lambda>t. t\<lparr>p_se := (p_se t)\<lparr>se_load := l\<rparr>\<rparr>) ?s2"
    using set_load_weight_fork[of ?s2 p e] r(3,4)[OF assms(1)] by auto
  have "k = (?r (tasks s p))\<lparr>p_prio := p_static_prio (?r (tasks s p)), p_normal_prio := p_static_prio (?r (tasks s p)),
      p_se := (p_se (?r (tasks s p)))\<lparr>se_load := l\<rparr>, p_sched_reset_on_fork := False\<rparr>"
    unfolding k_def fork_reset_def Let_def l by (simp add: normal_prio_static_def)
  with r[OF assms(1)] show "\<not> task_has_rt_policy k" "\<not> task_has_dl_policy k" "120 \<le> p_static_prio k" "p_prio k = p_static_prio k"
    "p_normal_prio k = p_static_prio k" "\<not> p_sched_reset_on_fork k"
    by (simp_all add: task_has_rt_policy_def task_has_dl_policy_def)
qed

text \<open>Task 5 asleep as a time-sharing task, the CPU idle.\<close>

definition sleep_demo :: sys where
  "sleep_demo = upd_task 5 (\<lambda>t. t\<lparr>p_policy := SCHED_TS, p_sched_class := Ts_class, p_state := TASK_INTERRUPTIBLE\<rparr>) boot_sys"

lemma sleep_demo: "ts_good sleep_demo" "\<not> ts_linked sleep_demo p" "p_prio (tasks sleep_demo 5) = 120" "ts_slice_ok sleep_demo 5"
  "tasks sleep_demo 5 = boot_task\<lparr>p_policy := SCHED_TS, p_sched_class := Ts_class, p_state := TASK_INTERRUPTIBLE\<rparr>"
  "rqs sleep_demo = boot_rq" "this_cpu sleep_demo = 0" "tasks sleep_demo 0 = tasks boot_sys 0"
proof -
  have q: "ts_queues sleep_demo c = replicate 40 []" for c using boot_ts_queues[of c] by (simp add: sleep_demo_def ts_queues_def)
  show nl: "\<not> ts_linked sleep_demo p" for p using boot_ts_linked[of p] boot_ts_linked[of 5] by (simp add: sleep_demo_def ts_linked_def)
  have "fault sleep_demo = None" by (simp add: sleep_demo_def boot_rt)
  then show "ts_good sleep_demo" by (simp add: ts_good_def ts_inv_def nl ts_members_def q MAX_TS_PRIO_def)
  show t: "tasks sleep_demo 5 = boot_task\<lparr>p_policy := SCHED_TS, p_sched_class := Ts_class, p_state := TASK_INTERRUPTIBLE\<rparr>"
    by (simp add: sleep_demo_def boot_rt)
  show "p_prio (tasks sleep_demo 5) = 120" "ts_slice_ok sleep_demo 5" by (simp_all add: ts_slice_ok_def t boot_task_def)
  show "rqs sleep_demo = boot_rq" "this_cpu sleep_demo = 0" "tasks sleep_demo 0 = tasks boot_sys 0"
    by (simp_all add: sleep_demo_def boot_sys_def)
qed

section \<open>Properties\<close>



text \<open>
  The CPU chosen for a task is one its affinity mask contains and that is online or
  active, on the class's choice and on every stage of the fallback search, unless the search ends in
  a BUG.
\<close>

theorem select_task_rq_allowed:
  assumes "select_task_rq e p c sd wfl s = (d, t)" "fault t = None"
  shows "p_cpus_allowed (tasks t p) d \<and> (cpu_online_mask t d \<or> cpu_active_mask t d)"
proof -
  let ?c = "if 1 < p_nr_cpus_allowed (tasks s p) then class_select_task_rq e (p_sched_class (tasks s p)) p c sd wfl s
      else cpumask_first s (p_cpus_allowed (tasks s p))"
  show ?thesis
  proof (cases "is_cpu_allowed s p ?c")
    case True
    have "select_task_rq e p c sd wfl s = (?c, s)"
      unfolding select_task_rq_def Let_def by (rule if_not_P) (unfold not_not, rule True)
    from trans[OF sym[OF this] assms(1)] have cd: "?c = d" and st: "s = t" unfolding prod.inject by (rule conjunct1, rule conjunct2)
    show ?thesis using is_cpu_allowedD[OF True] unfolding cd unfolding st .
  next
    case False
    then have "select_fallback_rq e (p_cpu (tasks s p)) p s = (d, t)"
      using assms(1) by (simp only: select_task_rq_def Let_def not_False_eq_True if_True)
    then show ?thesis using select_fallback_allowed assms(2) by blast
  qed
qed

theorem select_task_rq_allowed_witness: "p_cpus_allowed (tasks boot_sys 5) 0 \<and> (cpu_online_mask boot_sys 0 \<or> cpu_active_mask boot_sys 0)"
proof (rule select_task_rq_allowed[of quiet_env 5 0 SD_BALANCE_WAKE 0])
  show "select_task_rq quiet_env 5 0 SD_BALANCE_WAKE 0 boot_sys = (0, boot_sys)"
    by (simp add: select_task_rq_def boot_rt class_select_task_rq_def is_cpu_allowed_def is_per_cpu_kthread_def flag_set_def quiet_env_def no_ops_def boot_task_def)
      (simp add: boot_sys_def)
qed (simp add: boot_rt)

text \<open>
  Forking from a time-sharing task: the child is a time-sharing task with the parent's
  unboosted priority, new, off the queues, on the parent's CPU.  Its first slice is always twelve
  ticks, which is the slice of its priority only for priorities 120 to 129.
\<close>

theorem sched_fork_ts_child:
  assumes "\<not> p_sched_reset_on_fork (tasks s p)" "p_policy (tasks s p) = SCHED_TS" "p \<noteq> rq_curr (rqs s (this_cpu s))"
    and "ts_prio_ok (p_normal_prio (tasks s (rq_curr (rqs s (this_cpu s)))))"
  shows "\<exists>t. sched_fork e p s = (None, t) \<and>
    (let k = tasks t p; q = p_normal_prio (tasks s (rq_curr (rqs s (this_cpu s)))) in
     p_sched_class k = Ts_class \<and> p_prio k = q \<and> p_state k = TASK_NEW \<and> p_on_rq k = 0 \<and>
     ts_list (p_ts k) = Self_linked \<and> p_cpu k = this_cpu s \<and>
     ts_time_slice (p_ts k) = 12 \<and> (ts_time_slice (p_ts k) = get_num_ticks q \<longleftrightarrow> 120 \<le> q \<and> q < 130))"
proof -
  let ?q = "p_normal_prio (tasks s (rq_curr (rqs s (this_cpu s))))"
  have "\<not> dl_prio ?q" "\<not> rt_prio ?q" using assms(4) by (simp_all add: dl_prio_def rt_prio_def prio_consts)
  then show ?thesis
    using assms get_num_ticks_12[OF assms(4)]
    by (auto simp: sched_fork_def sched_fork_init_def Let_def ts_policy_def class_task_fork_def set_task_cpu_raw_def)
qed

theorem sched_fork_ts_child_witness:
  "\<exists>t. sched_fork quiet_env 5 (upd_rq 0 (\<lambda>r. r\<lparr>rq_curr := 6\<rparr>) sleep_demo) = (None, t) \<and> p_sched_class (tasks t 5) = Ts_class"
proof -
  let ?s = "upd_rq 0 (\<lambda>r. r\<lparr>rq_curr := 6\<rparr>) sleep_demo"
  have "tasks ?s 6 = boot_task" by (simp add: sleep_demo_def boot_rt)
  then show ?thesis
    using sched_fork_ts_child[of ?s 5 quiet_env] by (auto simp: sleep_demo(5,7) boot_task_def Let_def)
qed

text \<open>
  With reset-on-fork the child has neither a real-time nor a deadline policy, a
  priority of nice 0 or worse, no boost, and the flag is cleared; the fork does not fail.  The fair
  class's own fork operation is assumed to change only its scheduling entity.
\<close>

theorem sched_fork_drops_privileges:
  assumes "p_sched_reset_on_fork (tasks s p)" "ts_prio_ok (p_static_prio (tasks s p))"
    and "\<And>u. \<exists>x. tasks (op_task_fork (e_fair e) p u) p = (tasks u p)\<lparr>p_se := x\<rparr>"
  shows "\<exists>t. sched_fork e p s = (None, t) \<and>
    (let k = tasks t p in (p_sched_class k = Fair_class \<or> p_sched_class k = Ts_class \<and> p_policy k = SCHED_TS) \<and>
     \<not> task_has_rt_policy k \<and> \<not> task_has_dl_policy k \<and> 120 \<le> p_prio k \<and> 0 \<le> task_nice k \<and>
     p_normal_prio k = p_prio k \<and> \<not> p_sched_reset_on_fork k)"
proof -
  let ?q = "p_normal_prio (tasks s (rq_curr (rqs s (this_cpu s))))"
  let ?s1 = "upd_task p (\<lambda>t. t\<lparr>p_state := TASK_NEW, p_prio := ?q\<rparr>) (sched_fork_init p s)"
  let ?s2 = "fork_reset e p ?s1"
  have "ts_prio_ok (p_static_prio (tasks ?s1 p))" using assms(2) by (simp add: sched_fork_init_def)
  note K = fork_reset_task[OF this refl, of e]
  have np: "\<not> dl_prio (p_prio (tasks ?s2 p))" "\<not> rt_prio (p_prio (tasks ?s2 p))"
    using K(3,4) by (simp_all add: dl_prio_def rt_prio_def prio_consts)
  let ?c = "if ts_policy (p_policy (tasks ?s2 p)) then Ts_class else Fair_class"
  let ?s3 = "upd_task p (\<lambda>t. t\<lparr>p_sched_class := ?c\<rparr>) ?s2"
  let ?s4 = "set_task_cpu_raw p (this_cpu ?s3) ?s3"
  let ?t = "upd_task p (\<lambda>t. t\<lparr>p_on_cpu := False\<rparr>) (class_task_fork e ?c p ?s4)"
  have "p_sched_reset_on_fork (tasks ?s1 p)" using assms(1) by (simp add: sched_fork_init_def)
  then have e: "sched_fork e p s = (None, ?t)"
    unfolding sched_fork_def Let_def using np by (simp only: if_True if_False)
  obtain x where x: "tasks (class_task_fork e ?c p ?s4) p = (tasks ?s4 p)\<lparr>p_se := x\<rparr>"
  proof (cases "ts_policy (p_policy (tasks ?s2 p))")
    case True
    then show ?thesis using that[of "p_se (tasks ?s4 p)"] by (simp add: class_task_fork_def)
  next
    case False
    then show ?thesis using assms(3)[of ?s4] that by (auto simp: class_task_fork_def)
  qed
  show ?thesis
    using e K x by (auto simp: Let_def task_has_rt_policy_def task_has_dl_policy_def task_nice_def prio_consts
        set_task_cpu_raw_def ts_policy_def)
qed

theorem sched_fork_drops_privileges_witness:
  "\<exists>t. sched_fork quiet_env 5 (upd_task 5 (\<lambda>t. t\<lparr>p_policy := SCHED_FIFO, p_sched_reset_on_fork := True\<rparr>) boot_sys) = (None, t) \<and>
     \<not> task_has_rt_policy (tasks t 5)"
proof -
  let ?s = "upd_task 5 (\<lambda>t. t\<lparr>p_policy := SCHED_FIFO, p_sched_reset_on_fork := True\<rparr>) boot_sys"
  have f: "\<exists>x. tasks (op_task_fork (e_fair quiet_env) 5 u) 5 = (tasks u 5)\<lparr>p_se := x\<rparr>" for u
    by (intro exI[of _ "p_se (tasks u 5)"]) (simp add: quiet_env_def no_ops_def)
  have "p_sched_reset_on_fork (tasks ?s 5)" "ts_prio_ok (p_static_prio (tasks ?s 5))" by (simp_all add: boot_rt boot_task_def)
  from sched_fork_drops_privileges[where e = quiet_env, OF this f] show ?thesis by (auto simp: Let_def)
qed

end
