(* ===== verification/Sched_Rt_Bandwidth.thy ===== *)
theory Sched_Rt_Bandwidth
  imports Sched_Rt_Inv
begin

text \<open>
  Time in the real-time class: the runtime that CPUs of a root domain lend to each other and take
  back, throttling when the runtime of a period is used up, and the round-robin slice.
\<close>

section \<open>Borrowing keeps the total\<close>

abbreviation run :: "sys \<Rightarrow> cpu_id \<Rightarrow> u64" where
  "run s i \<equiv> rt_runtime (rtq s i)"

definition run_total :: "sys \<Rightarrow> cpu_id list \<Rightarrow> u64" where
  "run_total s cs = sum_list (map (run s) cs)"

lemma sum_list_move:
  fixes f :: "'a \<Rightarrow> 'b::ab_group_add"
  assumes "distinct xs" "a \<in> set xs" "b \<in> set xs" "a \<noteq> b"
  shows "sum_list (map (f(a := f a - d, b := f b + d)) xs) = sum_list (map f xs)"
proof -
  have "sum (f(a := f a - d, b := f b + d)) (set xs) = sum f (set xs)"
  proof -
    let ?g = "f(a := f a - d, b := f b + d)"
    have g: "sum ?g (set xs - {a} - {b}) = sum f (set xs - {a} - {b})" by (rule sum.cong) auto
    have "sum ?g (set xs) = ?g a + (?g b + sum ?g (set xs - {a} - {b}))"
      using assms by (subst sum.remove[of _ a]; simp) (subst sum.remove[of _ b]; simp)
    also have "\<dots> = f a + (f b + sum f (set xs - {a} - {b}))" using assms(4) unfolding g by simp
    also have "\<dots> = sum f (set xs)"
      using assms by (subst (2) sum.remove[of _ a]; simp) (subst (2) sum.remove[of _ b]; simp)
    finally show ?thesis .
  qed
  then show ?thesis using assms(1) by (metis sum.distinct_set_conv_list)
qed

text \<open>What one loan does: the borrower gains what the neighbour loses.\<close>

definition loan :: "cpu_id \<Rightarrow> u64 \<Rightarrow> u64 \<Rightarrow> cpu_id \<Rightarrow> sys \<Rightarrow> u64" where
  "loan c w per i s =
     (if i = c \<or> run s i = RUNTIME_INF \<or> \<not> 0 < s64 (run s i - rt_time (rtq s i)) then 0
      else let d = (run s i - rt_time (rtq s i)) div w
           in if run s c + d > per then per - run s c else d)"

lemma balance_one_run:
  "run (fst (balance_one c w per i s)) j =
     (if i = c then run s j else ((run s)(i := run s i - loan c w per i s, c := run s c + loan c w per i s)) j)"
  by (auto simp: balance_one_def loan_def Let_def)

lemma balance_one_time: "rt_time (rtq (fst (balance_one c w per i s)) j) = rt_time (rtq s j)"
  by (auto simp: balance_one_def Let_def)

lemma uint_bound: "unat w < 2 ^ n \<Longrightarrow> uint w < 2 ^ n"
  by (metis of_nat_less_iff of_nat_numeral of_nat_power uint_nat)

lemma s64_unat: "unat w < 2 ^ 63 \<Longrightarrow> s64 w = uint w"
proof -
  assume "unat w < 2 ^ 63"
  then have "uint w < 2 ^ 63" by (rule uint_bound)
  then have "signed_take_bit 63 (uint w) = uint w"
    by (intro signed_take_bit_int_eq_self) (simp_all add: order_trans[OF _ uint_ge_0])
  then show ?thesis by (simp add: s64_def sint_uint)
qed

lemma s64_diff:
  assumes "unat a < 2 ^ 63" "unat b < 2 ^ 63"
  shows "s64 (a - b) = uint a - uint b"
proof -
  have "s64 (a - b) = signed_take_bit 63 (s64 a - s64 b)" by (simp add: s64_def sint_word_ariths)
  also have "\<dots> = s64 a - s64 b"
  proof (rule signed_take_bit_int_eq_self)
    show "- (2 ^ 63) \<le> s64 a - s64 b" "s64 a - s64 b < 2 ^ 63"
      unfolding s64_unat[OF assms(1)] s64_unat[OF assms(2)]
      using uint_bound[OF assms(1)] uint_bound[OF assms(2)] uint_ge_0[of a] uint_ge_0[of b] by linarith+
  qed
  finally show ?thesis using assms by (simp add: s64_unat)
qed

text \<open>The bounds under which none of the u64 computations wraps.\<close>

definition run_bounds :: "cpu_id \<Rightarrow> u64 \<Rightarrow> sys \<Rightarrow> bool" where
  "run_bounds c per s \<longleftrightarrow> unat per < 2 ^ 62 \<and> run s c \<le> per \<and>
     (\<forall>i. unat (rt_time (rtq s i)) < 2 ^ 62 \<and> (run s i = RUNTIME_INF \<or> unat (run s i) < 2 ^ 62))"

lemma loan_bounds:
  assumes "run_bounds c per s" "w \<noteq> 0" "i \<noteq> c"
  shows "unat (loan c w per i s) + unat (run s c) \<le> unat per"
    and "loan c w per i s \<noteq> 0 \<Longrightarrow> unat (rt_time (rtq s i)) + unat (loan c w per i s) \<le> unat (run s i)"
    and "loan c w per i s \<noteq> 0 \<Longrightarrow> unat (run s i) < 2 ^ 62"
proof -
  have per: "unat per < 2 ^ 62" "unat (run s c) \<le> unat per" and t: "unat (rt_time (rtq s i)) < 2 ^ 62"
    using assms(1) by (auto simp: run_bounds_def word_le_nat_alt)
  let ?l = "loan c w per i s"
  have "unat ?l + unat (run s c) \<le> unat per \<and>
     (?l \<noteq> 0 \<longrightarrow> unat (rt_time (rtq s i)) + unat ?l \<le> unat (run s i) \<and> unat (run s i) < 2 ^ 62)"
  proof (cases "run s i = RUNTIME_INF \<or> \<not> 0 < s64 (run s i - rt_time (rtq s i))")
    case True
    then have "?l = 0" by (auto simp: loan_def)
    then show ?thesis using per by simp
  next
    case False
    then have r: "unat (run s i) < 2 ^ 62" using assms(1) by (auto simp: run_bounds_def)
    let ?df = "run s i - rt_time (rtq s i)"
    have le: "unat (rt_time (rtq s i)) \<le> unat (run s i)"
      using False s64_diff[of "run s i" "rt_time (rtq s i)"] r t
      by (simp add: word_le_nat_alt[symmetric] word_le_def)
    then have df: "unat ?df = unat (run s i) - unat (rt_time (rtq s i))"
      by (simp add: unat_sub word_le_nat_alt)
    let ?d = "?df div w"
    have d: "unat ?d \<le> unat ?df" by (simp add: unat_div div_le_dividend)
    have sum: "unat (run s c + ?d) = unat (run s c) + unat ?d"
      using per r d df by (simp add: unat_word_ariths)
    have l: "?l = (if run s c + ?d > per then per - run s c else ?d)"
      using False assms(3) by (simp add: loan_def Let_def)
    show ?thesis
    proof (cases "run s c + ?d > per")
      case True
      then have "unat ?l = unat per - unat (run s c)" "unat ?l < unat ?d"
        using l sum per by (auto simp: unat_sub word_le_nat_alt word_less_nat_alt)
      then show ?thesis using per d df le r by linarith
    next
      case False
      then have "?l = ?d" "unat (run s c) + unat ?d \<le> unat per"
        using l sum by (auto simp: word_less_nat_alt)
      then show ?thesis using d df le r by simp linarith
    qed
  qed
  then show "unat ?l + unat (run s c) \<le> unat per" "?l \<noteq> 0 \<Longrightarrow> unat (rt_time (rtq s i)) + unat ?l \<le> unat (run s i)"
    "?l \<noteq> 0 \<Longrightarrow> unat (run s i) < 2 ^ 62" by blast+
qed


text \<open>The loop keeps the total, only raises the borrower, and takes only spare time.\<close>

definition lent_fairly :: "cpu_id \<Rightarrow> u64 \<Rightarrow> sys \<Rightarrow> sys \<Rightarrow> bool" where
  "lent_fairly c per s s' \<longleftrightarrow> run s c \<le> run s' c \<and> run s' c \<le> per \<and>
     (\<forall>i. rt_time (rtq s' i) = rt_time (rtq s i)) \<and>
     (\<forall>i. i \<noteq> c \<longrightarrow> run s' i \<le> run s i \<and> (run s i = RUNTIME_INF \<longrightarrow> run s' i = RUNTIME_INF) \<and>
        (rt_time (rtq s i) \<le> run s i \<longrightarrow> rt_time (rtq s i) \<le> run s' i))"

lemma balance_one_fair:
  assumes "run_bounds c per s" "w \<noteq> 0"
  shows "lent_fairly c per s (fst (balance_one c w per i s))" "run_bounds c per (fst (balance_one c w per i s))"
proof -
  let ?s' = "fst (balance_one c w per i s)" and ?l = "loan c w per i s"
  have "lent_fairly c per s ?s' \<and> run_bounds c per ?s'"
  proof (cases "i = c \<or> ?l = 0")
    case True
    then have "run ?s' j = run s j" for j by (auto simp: balance_one_run)
    then show ?thesis using assms(1) by (simp add: lent_fairly_def balance_one_time run_bounds_def)
  next
    case False
    note b = loan_bounds[OF assms(1,2), of i]
    have up: "unat (run s c + ?l) = unat (run s c) + unat ?l"
      using b(1) assms(1) False by (simp add: unat_word_ariths run_bounds_def)
    have le: "?l \<le> run s i" using b(2) False by (simp add: word_le_nat_alt)
    have down: "unat (run s i - ?l) = unat (run s i) - unat ?l" using le by (simp add: unat_sub)
    have r: "run ?s' j = (if j = c then run s c + ?l else if j = i then run s i - ?l else run s j)" for j
      using False by (simp add: balance_one_run)
    have c: "run s c \<le> run s c + ?l" "run s c + ?l \<le> per"
      using b(1) False by (simp_all add: word_le_nat_alt up)
    have cb: "unat (run s c + ?l) < 2 ^ 62" using c(2) assms(1) by (simp add: run_bounds_def word_le_nat_alt)
    have i: "run s i - ?l \<le> run s i" "rt_time (rtq s i) \<le> run s i - ?l" "unat (run s i - ?l) < 2 ^ 62"
      using b(2,3) False by (simp_all add: word_le_nat_alt down)
    have ni: "run s i \<noteq> RUNTIME_INF" using False by (auto simp: loan_def)
    show ?thesis
      using c cb i ni assms(1) by (auto simp: lent_fairly_def run_bounds_def r balance_one_time)
  qed
  then show "lent_fairly c per s ?s'" "run_bounds c per ?s'" by blast+
qed

lemma balance_one_total:
  assumes "distinct cs" "c \<in> set cs" "i \<in> set cs"
  shows "run_total (fst (balance_one c w per i s)) cs = run_total s cs"
proof (cases "i = c")
  case True
  then show ?thesis by (simp add: run_total_def balance_one_run cong: map_cong)
next
  case False
  let ?f = "(run s)(i := run s i - loan c w per i s, c := run s c + loan c w per i s)"
  have "map (run (fst (balance_one c w per i s))) cs = map ?f cs"
    using False by (simp add: balance_one_run)
  then have "run_total (fst (balance_one c w per i s)) cs = sum_list (map ?f cs)"
    unfolding run_total_def by (rule arg_cong)
  also have "\<dots> = run_total s cs" unfolding run_total_def
    by (rule sum_list_move[OF assms(1,3,2) False, of "run s"])
  finally show ?thesis .
qed

lemma lent_fairly_trans:
  assumes "lent_fairly c per s t" "lent_fairly c per t u"
  shows "lent_fairly c per s u"
  unfolding lent_fairly_def
proof (intro conjI allI impI)
  show "run s c \<le> run u c" "run u c \<le> per" using assms by (auto simp: lent_fairly_def intro: order_trans)
  fix i
  show "rt_time (rtq u i) = rt_time (rtq s i)" using assms by (simp add: lent_fairly_def)
  assume i: "i \<noteq> c"
  show "run u i \<le> run s i" using assms i by (auto simp: lent_fairly_def intro: order_trans)
  show "run s i = RUNTIME_INF \<Longrightarrow> run u i = RUNTIME_INF" "rt_time (rtq s i) \<le> run s i \<Longrightarrow> rt_time (rtq s i) \<le> run u i"
    using assms i by (auto simp: lent_fairly_def)
qed

lemma balance_loop_fair:
  assumes "run_bounds c per s" "w \<noteq> 0" "distinct cs" "c \<in> set cs" "set is \<subseteq> set cs"
  shows "lent_fairly c per s (balance_loop c w per is s) \<and>
     run_total (balance_loop c w per is s) cs = run_total s cs"
  using assms(1,5)
proof (induction "is" arbitrary: s)
  case Nil
  then show ?case by (simp add: lent_fairly_def run_bounds_def)
next
  case (Cons i "is")
  obtain t stop where t: "balance_one c w per i s = (t, stop)" by (cases "balance_one c w per i s")
  have "lent_fairly c per s t" "run_bounds c per t" "run_total t cs = run_total s cs"
    using balance_one_fair[OF Cons.prems(1) assms(2), of i] balance_one_total[OF assms(3,4), of i w per s] Cons.prems(2)
    by (simp_all add: t)
  then show ?case using Cons.IH[of t] Cons.prems(2) by (auto simp: t intro: lent_fairly_trans)
qed


text \<open>
  C20: A round of borrowing on a CPU of the span moves runtime but creates none: the total
  of the span is unchanged, the borrower ends between its old runtime and the period, and a
  neighbour that had not used up its own runtime still has at least what it has used.
\<close>

theorem do_balance_runtime_conserves:
  assumes "run_bounds c (rt_period (def_rt_bandwidth s)) s" "c < nr_cpu_ids s" "nr_cpu_ids s < 2 ^ 16"
    "rd_span (rds s (rq_rd (rqs s c))) c"
  shows "let s' = do_balance_runtime c s; cs = cpus_of s (rd_span (rds s (rq_rd (rqs s c)))) in
     run_total s' cs = run_total s cs \<and> lent_fairly c (rt_period (def_rt_bandwidth s)) s s'"
proof -
  let ?span = "rd_span (rds s (rq_rd (rqs s c)))"
  let ?cs = "cpus_of s ?span"
  have c: "c \<in> set ?cs" "distinct ?cs" using assms by (simp_all add: cpus_of_def)
  have "length ?cs \<le> nr_cpu_ids s" unfolding cpus_of_def using length_filter_le[of ?span "[0..<nr_cpu_ids s]"] by simp
  moreover have "0 < length ?cs" using c by (cases ?cs) auto
  ultimately have "unat (of_nat (length ?cs) :: u64) \<noteq> 0"
    using assms(3) by (simp add: unat_of_nat)
  then have w: "(of_nat (cpumask_weight s ?span) :: u64) \<noteq> 0"
    by (metis cpumask_weight_def unat_0)
  show ?thesis
    using balance_loop_fair[OF assms(1) w c(2,1) subset_refl]
    by (simp add: do_balance_runtime_def Let_def)
qed

theorem do_balance_runtime_conserves_witness:
  "run_total (do_balance_runtime 0 boot_sys) [0, 1] = run_total boot_sys [0, 1] \<and>
   run (do_balance_runtime 0 boot_sys) 0 \<le> 1000000000"
proof -
  have "cpus_of boot_sys (rd_span (rds boot_sys (rq_rd (rqs boot_sys 0)))) = [0, 1]"
    by (simp add: cpus_of_def boot_sys_def upt_rec)
  moreover have "run_bounds 0 (rt_period (def_rt_bandwidth boot_sys)) boot_sys"
    by (simp add: run_bounds_def boot_rt) (simp add: boot_rt_rq_def boot_sys_def)
  moreover have "0 < nr_cpu_ids boot_sys" "nr_cpu_ids boot_sys < 2 ^ 16" "rd_span (rds boot_sys (rq_rd (rqs boot_sys 0))) 0"
    "rt_period (def_rt_bandwidth boot_sys) = 1000000000"
    by (simp_all add: boot_sys_def)
  ultimately show ?thesis
    using do_balance_runtime_conserves[of 0 boot_sys] by (simp add: Let_def lent_fairly_def)
qed

section \<open>Reclaiming what was lent\<close>

definition others_total :: "cpu_id \<Rightarrow> sys \<Rightarrow> cpu_id list \<Rightarrow> int" where
  "others_total c s cs = sum_list (map (\<lambda>i. if i = c then 0 else uint (run s i)) cs)"

lemma others_total_Cons [simp]:
  "others_total c s [] = 0"
  "others_total c s (i # is) = (if i = c then 0 else uint (run s i)) + others_total c s is"
  by (simp_all add: others_total_def)

lemma others_total_upd:
  "i \<notin> set is \<Longrightarrow> others_total c (upd_rt i f s) is = others_total c s is"
  unfolding others_total_def by (rule arg_cong[where f = sum_list]) (auto intro!: map_cong)

lemma uint_sub_bounds:
  fixes a d :: u64
  assumes "0 \<le> uint a - s64 d" "uint a - s64 d < 2 ^ 64"
  shows "uint (a - d) = uint a - s64 d"
proof -
  have "uint (a - d) = (uint a - uint d) mod 2 ^ 64" by (simp add: uint_word_ariths)
  also have "\<dots> = (uint a - s64 d) mod 2 ^ 64"
  proof -
    have "uint d = s64 d mod 2 ^ 64" using uint_sint[of d] by (simp add: s64_def take_bit_eq_mod)
    then show ?thesis by (metis mod_diff_right_eq)
  qed
  also have "\<dots> = uint a - s64 d" using assms by (simp add: mod_pos_pos_trivial)
  finally show ?thesis .
qed

lemma s64_sub_bounds:
  fixes a d :: u64
  assumes "- (2 ^ 63) \<le> s64 a - s64 d" "s64 a - s64 d < 2 ^ 63"
  shows "s64 (a - d) = s64 a - s64 d"
proof -
  have "s64 (a - d) = signed_take_bit 63 (s64 a - s64 d)" by (simp add: s64_def sint_word_ariths)
  also have "\<dots> = s64 a - s64 d" using assms by (rule signed_take_bit_int_eq_self)
  finally show ?thesis .
qed

lemma s64_uint: "uint w < 2 ^ 63 \<Longrightarrow> s64 w = uint w"
  by (simp add: s64_def sint_uint signed_take_bit_int_eq_self order_trans[OF _ uint_ge_0])

lemma s64_zero: "s64 w = 0 \<longleftrightarrow> w = 0"
  unfolding s64_def by (metis signed_0 signed_word_eqI)

lemma reclaim_loop_effect:
  assumes "distinct is" "\<forall>i\<in>set is. i \<noteq> c \<longrightarrow> run s i \<noteq> RUNTIME_INF \<and> uint (run s i) < 2 ^ 62"
    and "\<bar>s64 want\<bar> < 2 ^ 62" "s64 want \<le> others_total c s is"
    and "s64 want < 0 \<longrightarrow> (\<exists>i\<in>set is. i \<noteq> c)"
  shows "fst (reclaim_loop c is want s) = 0 \<and>
     others_total c (snd (reclaim_loop c is want s)) is = others_total c s is - s64 want \<and>
     fault (snd (reclaim_loop c is want s)) = fault s \<and>
     (\<forall>j. j \<notin> set is \<or> j = c \<longrightarrow> rqs (snd (reclaim_loop c is want s)) j = rqs s j)"
  using assms
proof (induction "is" arbitrary: want s)
  case Nil
  then have "s64 want = 0" by simp
  then show ?case by (simp add: s64_zero)
next
  case (Cons i "is")
  show ?case
  proof (cases "i = c")
    case True
    with Cons.prems show ?thesis using Cons.IH[of s want] by auto
  next
    case False
    then have fin: "run s i \<noteq> RUNTIME_INF" "uint (run s i) < 2 ^ 62" using Cons.prems(2) by auto
    let ?R = "run s i"
    let ?d = "if 0 < s64 want then (if s64 ?R < s64 want then ?R else want) else want"
    let ?s1 = "upd_rt i (\<lambda>r. r\<lparr>rt_runtime := rt_runtime r - ?d\<rparr>) s"
    have R: "s64 ?R = uint ?R" "0 \<le> uint ?R" using fin(2) by (simp_all add: s64_uint)
    have D: "s64 ?d = (if 0 < s64 want then min (uint ?R) (s64 want) else s64 want)"
      using R by simp
    obtain r where r: "uint ?R = r" "0 \<le> r" "r < 2 ^ 62" using R fin(2) by blast
    have r1: "uint (?R - ?d) = uint ?R - s64 ?d"
      using r(2,3) Cons.prems(3) by (intro uint_sub_bounds) (auto simp: D r(1) min_def)
    have w1: "s64 (want - ?d) = s64 want - s64 ?d"
      using r(2,3) Cons.prems(3) by (intro s64_sub_bounds) (auto simp: D r(1) min_def)
    have loop: "reclaim_loop c (i # is) want s =
        (if want - ?d = 0 then (want - ?d, ?s1) else reclaim_loop c is (want - ?d) ?s1)"
      using False fin(1) by (simp add: Let_def)
    have rest: "others_total c ?s1 is = others_total c s is" using Cons.prems(1) by (simp add: others_total_upd)
    have here: "uint (run ?s1 i) = uint ?R - s64 ?d" using r1 by simp
    show ?thesis
    proof (cases "want - ?d = 0")
      case True
      then have eq: "s64 ?d = s64 want" using w1 by (simp add: s64_def)
      show ?thesis
        unfolding loop if_P[OF True] others_total_Cons if_not_P[OF False] fst_conv snd_conv here rest
        using True Cons.prems(1) False by (simp add: eq del: right_minus_eq)
    next
      case ne: False
      then have pos: "0 < s64 want" "s64 ?d = uint ?R" "uint ?R < s64 want"
        using D R by (auto simp: min_def split: if_splits)
      have ih: "fst (reclaim_loop c is (want - ?d) ?s1) = 0 \<and>
         others_total c (snd (reclaim_loop c is (want - ?d) ?s1)) is = others_total c ?s1 is - s64 (want - ?d) \<and>
         fault (snd (reclaim_loop c is (want - ?d) ?s1)) = fault ?s1 \<and>
         (\<forall>j. j \<notin> set is \<or> j = c \<longrightarrow> rqs (snd (reclaim_loop c is (want - ?d) ?s1)) j = rqs ?s1 j)"
      proof (rule Cons.IH)
        show "distinct is" using Cons.prems(1) by simp
        show "\<forall>j\<in>set is. j \<noteq> c \<longrightarrow> run ?s1 j \<noteq> RUNTIME_INF \<and> uint (run ?s1 j) < 2 ^ 62"
          using Cons.prems(1,2) by auto
        show "\<bar>s64 (want - ?d)\<bar> < 2 ^ 62" "s64 (want - ?d) < 0 \<longrightarrow> (\<exists>i\<in>set is. i \<noteq> c)"
          "s64 (want - ?d) \<le> others_total c ?s1 is"
          unfolding w1 rest using pos[unfolded r(1)] r Cons.prems(3,4) False by auto
      qed
      then have i': "run (snd (reclaim_loop c is (want - ?d) ?s1)) i = run ?s1 i" using Cons.prems(1) by simp
      show ?thesis
        unfolding loop if_not_P[OF ne] others_total_Cons if_not_P[OF False] i' here
        using ih False rest w1 by (auto simp: fun_upd_def)
    qed
  qed
qed


lemma s64_sub_uint:
  assumes "uint a < 2 ^ 62" "uint b < 2 ^ 62"
  shows "s64 (a - b) = uint a - uint b" "\<bar>uint a - uint b\<bar> < 2 ^ 62"
proof -
  obtain x y where xy: "uint a = x" "uint b = y" "0 \<le> x" "0 \<le> y" using uint_ge_0 by blast
  have "s64 a = x" "s64 b = y" using assms xy by (simp_all add: s64_uint)
  then show "s64 (a - b) = uint a - uint b" "\<bar>uint a - uint b\<bar> < 2 ^ 62"
    using s64_sub_bounds[of a b] assms xy by auto
qed

lemma sched_rt_rq_enqueue_run [simp]:
  "run (sched_rt_rq_enqueue c s) i = run s i" "fault (sched_rt_rq_enqueue c s) = fault s"
  "rt_throttled (rtq (sched_rt_rq_enqueue c s) i) = rt_throttled (rtq s i)"
  by (simp_all add: sched_rt_rq_enqueue_def top_in_def)

text \<open>
  Taking a CPU's runtime out of play never trips the BUG\_ON: when every CPU of the span has a
  finite runtime and together they hold the configured amount per CPU, the CPU ends with unlimited
  runtime and unthrottled, and the others hold exactly their configured amounts between them.
\<close>

theorem disable_runtime_reclaims:
  fixes s c
  defines "R \<equiv> rtb_runtime (def_rt_bandwidth s)"
    and "cs \<equiv> cpus_of s (rd_span (rds s (rq_rd (rqs s c))))"
  assumes "c \<in> set cs" "\<forall>i\<in>set cs. run s i \<noteq> RUNTIME_INF \<and> uint (run s i) < 2 ^ 62" "uint R < 2 ^ 62"
    and "sum_list (map (\<lambda>i. uint (run s i)) cs) = int (length cs) * uint R"
  shows "let s' = disable_runtime True c s in
     fault s' = fault s \<and> run s' c = RUNTIME_INF \<and> \<not> rt_throttled (rtq s' c) \<and>
     others_total c s' cs = int (length cs - 1) * uint R"
proof -
  let ?want = "R - run s c"
  have dist: "distinct cs" by (simp add: cs_def cpus_of_def)
  have split: "sum_list (map (\<lambda>i. uint (run s i)) cs) = uint (run s c) + others_total c s cs"
  proof -
    have "sum (\<lambda>i. uint (run s i)) (set cs) = uint (run s c) + sum (\<lambda>i. if i = c then 0 else uint (run s i)) (set cs)"
      using assms(3) by (subst sum.remove[of _ c], simp, simp, subst (2) sum.remove[of _ c], simp_all)
    then show ?thesis unfolding others_total_def by (simp add: sum_list_distinct_conv_sum_set[OF dist])
  qed
  have b: "uint (run s c) < 2 ^ 62" "0 < length cs" using assms(3,4) by (auto intro: length_pos_if_in_set)
  note sw = s64_sub_uint[OF assms(5) b(1)]
  have tot: "others_total c s cs = int (length cs - 1) * uint R + s64 ?want"
  proof -
    have "int (length cs - 1) = int (length cs) - 1" using b(2) by linarith
    then show ?thesis using split assms(6) by (simp add: sw left_diff_distrib)
  qed
  have nn: "0 \<le> int (length cs - 1) * uint R" "0 \<le> others_total c s cs"
    unfolding others_total_def by (auto intro: sum_list_nonneg)
  let ?s1 = "if run s c = RUNTIME_INF \<or> run s c = R then s else snd (reclaim_loop c cs ?want s)"
  have s1: "fault ?s1 = fault s \<and> others_total c ?s1 cs = int (length cs - 1) * uint R \<and>
      (run s c = R \<or> fst (reclaim_loop c cs ?want s) = 0)"
  proof (cases "run s c = R")
    case True
    then show ?thesis using tot by (simp add: s64_zero)
  next
    case False
    have "\<exists>i\<in>set cs. i \<noteq> c" if "s64 ?want < 0"
    proof (rule ccontr)
      assume "\<not> ?thesis"
      then have "set cs = {c}" using assms(3) by blast
      then have "length cs = 1" using distinct_card[OF dist] by simp
      then show False using tot nn(2) that by simp
    qed
    then have "fst (reclaim_loop c cs ?want s) = 0 \<and>
       others_total c (snd (reclaim_loop c cs ?want s)) cs = others_total c s cs - s64 ?want \<and>
       fault (snd (reclaim_loop c cs ?want s)) = fault s"
      using reclaim_loop_effect[OF dist, of c s ?want] assms(4) sw tot nn(1) by simp
    moreover have "run s c \<noteq> RUNTIME_INF" using assms(3,4) by blast
    ultimately show ?thesis using False tot by simp
  qed
  have "disable_runtime True c s =
      sched_rt_rq_enqueue c (upd_rt c (\<lambda>r. r\<lparr>rt_runtime := RUNTIME_INF, rt_throttled := False\<rparr>) ?s1)"
    using s1 by (auto simp: disable_runtime_def Let_def R_def[symmetric] cs_def[symmetric] split: prod.split)
  moreover have "others_total c (sched_rt_rq_enqueue c (upd_rt c f t)) cs = others_total c t cs" for f t
    unfolding others_total_def by (rule arg_cong[where f = sum_list]) (simp cong: if_cong)
  ultimately show ?thesis using conjunct1[OF s1] conjunct1[OF conjunct2[OF s1]] unfolding Let_def
    by (simp only: sched_rt_rq_enqueue_run upd_rt_frame) simp
qed

theorem disable_runtime_reclaims_witness:
  "run (disable_runtime True 0 boot_sys) 0 = RUNTIME_INF \<and> fault (disable_runtime True 0 boot_sys) = None"
proof -
  have cs: "cpus_of boot_sys (rd_span (rds boot_sys (rq_rd (rqs boot_sys 0)))) = [0, 1]"
    by (simp add: cpus_of_def boot_sys_def upt_rec)
  have R: "rtb_runtime (def_rt_bandwidth boot_sys) = 950000000" "run boot_sys i = 950000000" for i
    by (simp_all add: boot_sys_def boot_rq_def boot_rt_rq_def)
  show ?thesis
    using disable_runtime_reclaims[of 0 boot_sys] boot_rt(5)
    by (simp add: cs R RUNTIME_INF_def Let_def)
qed

section \<open>Throttling and the end of the period\<close>

lemma upd_sys_frame [simp, frame_simps]:
  "feat_rt_runtime_share (upd_rt c f s) = feat_rt_runtime_share s"
  "def_rt_bandwidth (upd_rt c f s) = def_rt_bandwidth s"
  "sched_rr_timeslice (upd_rt c f s) = sched_rr_timeslice s"
  "sched_rr_timeslice (upd_task p g s) = sched_rr_timeslice s"
  "sched_rr_timeslice (upd_rte p h s) = sched_rr_timeslice s"
  by (simp_all add: upd_rt_def upd_rq_def upd_task_def upd_rte_def)

lemma update_rq_clock_sys [simp, frame_simps]:
  "feat_rt_runtime_share (update_rq_clock c s) = feat_rt_runtime_share s"
  "sched_rr_timeslice (update_rq_clock c s) = sched_rr_timeslice s"
  by (simp_all add: update_rq_clock_def update_rq_clock_task_def Let_def upd_rq_def)

lemma dequeue_top_sys [simp]:
  "feat_rt_runtime_share (dequeue_top_rt_rq c s) = feat_rt_runtime_share s"
  "def_rt_bandwidth (dequeue_top_rt_rq c s) = def_rt_bandwidth s"
  "sched_rr_timeslice (dequeue_top_rt_rq c s) = sched_rr_timeslice s"
  by (simp_all add: dequeue_top_rt_rq_def Let_def raise_fault_def sub_nr_running_def upd_rq_def split: option.split)




section \<open>Round robin among equals\<close>

text \<open>Charging the current task and the watchdog touch neither slices nor the tick constants.\<close>

definition slice_frame :: "sys \<Rightarrow> sys \<Rightarrow> bool" where
  "slice_frame s s' \<longleftrightarrow> sched_rr_timeslice s' = sched_rr_timeslice s \<and>
     (\<forall>p. rte_time_slice (p_rt (tasks s' p)) = rte_time_slice (p_rt (tasks s p))) \<and>
     (\<forall>c. rq_curr (rqs s' c) = rq_curr (rqs s c))"

lemma slice_frame_refl [simp]: "slice_frame s s" by (simp add: slice_frame_def)

lemma slice_frame_trans: "slice_frame s t \<Longrightarrow> slice_frame t u \<Longrightarrow> slice_frame s u"
  by (simp add: slice_frame_def)

lemma slice_frame_upd_rt: "slice_frame s (upd_rt c f s)"
  by (simp add: slice_frame_def)

lemma slice_frame_balance: "slice_frame s (balance_runtime c s)"
proof -
  have one: "slice_frame s (fst (balance_one c w per i s))" for w per i s
    unfolding balance_one_def Let_def
    by (auto intro: slice_frame_trans[OF slice_frame_upd_rt slice_frame_upd_rt])
  have "slice_frame s (balance_loop c w per is s)" for w per "is" s
  proof (induction "is" arbitrary: s)
    case (Cons i "is")
    obtain t stop where t: "balance_one c w per i s = (t, stop)" by (cases "balance_one c w per i s")
    then show ?case using Cons[of t] one[where w = w and per = per and i = i and s = s]
      by (auto intro: slice_frame_trans)
  qed simp
  then show ?thesis by (simp add: balance_runtime_def do_balance_runtime_def Let_def)
qed

lemma slice_frame_exceeded: "slice_frame s (snd (sched_rt_runtime_exceeded c s))"
proof -
  have deq: "slice_frame t (sched_rt_rq_dequeue c t)" for t
    by (simp add: slice_frame_def sched_rt_rq_dequeue_def top_out_def)
  let ?b = "balance_runtime c s"
  have b: "slice_frame s ?b" by (rule slice_frame_balance)
  have u: "slice_frame s (upd_rt c f ?b)" for f by (rule slice_frame_trans[OF b slice_frame_upd_rt])
  have d: "slice_frame s (sched_rt_rq_dequeue c (upd_rt c f ?b))" for f by (rule slice_frame_trans[OF u deq])
  show ?thesis using b u d by (simp add: sched_rt_runtime_exceeded_def Let_def)
qed

lemma slice_frame_resched: "slice_frame s (resched_curr c s)"
  by (simp add: slice_frame_def resched_curr_def Let_def set_nr_and_not_polling_def smp_send_reschedule_def
      set_preempt_need_resched_def set_tsk_need_resched_def upd_task_def)

lemma slice_frame_update_curr: "slice_frame s (update_curr_rt c s)"
proof -
  have e: "slice_frame t s3" if "sched_rt_runtime_exceeded d t = (ex, s3)" for d t ex s3
    using slice_frame_exceeded[of t d] that by simp
  let ?curr = "rq_curr (rqs s c)" and ?now = "rq_clock_task (rqs s c)"
  let ?s1 = "\<lambda>d. upd_task ?curr (\<lambda>t. t\<lparr>p_se := (p_se t)\<lparr>
     se_sum_exec_runtime := se_sum_exec_runtime (p_se t) + d, se_exec_start := ?now\<rparr>\<rparr>) s"
  have 1: "slice_frame s (?s1 d)" for d by (simp add: slice_frame_def)
  have 2: "slice_frame s (upd_rt k f (?s1 d))" for k f d by (rule slice_frame_trans[OF 1 slice_frame_upd_rt])
  have 3: "slice_frame s s3" "slice_frame s (resched_curr c s3)"
    if "sched_rt_runtime_exceeded k (upd_rt k f (?s1 d)) = (ex, s3)" for k f d ex s3
    using slice_frame_trans[OF 2 e[OF that]] slice_frame_trans[OF _ slice_frame_resched] by blast+
  show ?thesis
    unfolding update_curr_rt_def Let_def
    by (split if_split prod.split | rule conjI impI allI slice_frame_refl 1 | erule 3)+
qed

lemma slice_frame_watchdog: "slice_frame s (watchdog soft hard hz p s)"
  by (simp add: slice_frame_def watchdog_def Let_def)


lemma alone_on_queue_level:
  assumes "rt_inv s" "rte_on_list (p_rt (tasks s p))"
  shows "alone_on_queue s p \<longleftrightarrow> queue (active (rtq s (p_cpu (tasks s p)))) ! nat (p_prio (tasks s p)) = [p]"
proof -
  note I = rt_inv_parts[OF assms(1)]
  let ?qs = "queue (active (rtq s (p_cpu (tasks s p))))" and ?i = "nat (p_prio (tasks s p))"
  note idx = listed_index[OF I(1) assms(2)]
  have mem: "p \<in> set (?qs ! ?i)" using assms(2) by (simp only: in_level[OF I(1) idx(1)] idx(2) simp_thms)
  have len: "length ?qs = 100" "distinct (concat ?qs)" using I(5) by (simp_all add: rt_array_ok_def)
  have "p \<in> set (?qs ! j) \<longleftrightarrow> j = ?i" if "j < 100" for j
    using distinct_concat_unique[OF len(2), of ?i j p] mem len(1) idx(1) that by auto
  then show ?thesis using idx(1) len(1) by (auto simp: alone_on_queue_def list_all_length)
qed

lemma requeue_tail_level:
  assumes "rt_inv s" "rte_on_list (p_rt (tasks s p))"
  shows "queue (active (rtq (requeue_task_rt p False s) (p_cpu (tasks s p)))) ! nat (p_prio (tasks s p)) =
     removeAll p (queue (active (rtq s (p_cpu (tasks s p)))) ! nat (p_prio (tasks s p))) @ [p]"
    and "tasks (requeue_task_rt p False s) = tasks s" "rq_curr (rqs (requeue_task_rt p False s) k) = rq_curr (rqs s k)"
proof -
  note I = rt_inv_parts[OF assms(1)]
  note idx = listed_index[OF I(1) assms(2)]
  have mem: "p \<in> set (queue (active (rtq s (p_cpu (tasks s p)))) ! nat (p_prio (tasks s p)))"
    using assms(2) by (simp only: in_level[OF I(1) idx(1)] idx(2) simp_thms)
  have "length (queue (active (rtq s (p_cpu (tasks s p))))) = 100" using I(5) by (simp add: rt_array_ok_def)
  then show "queue (active (rtq (requeue_task_rt p False s) (p_cpu (tasks s p)))) ! nat (p_prio (tasks s p)) =
     removeAll p (queue (active (rtq s (p_cpu (tasks s p)))) ! nat (p_prio (tasks s p))) @ [p]"
    and "tasks (requeue_task_rt p False s) = tasks s" "rq_curr (rqs (requeue_task_rt p False s) k) = rq_curr (rqs s k)"
    using assms(2) I(7)[of p] idx array_move_ok(1)[OF I(5) idx(1) mem, of False]
    by (simp_all add: requeue_task_rt_def requeue_rt_entity_def on_rt_rq_def rt_se_prio_def check_rt_index_def)
qed

text \<open>
  A tick of a queued SCHED\_RR task counts its slice down and leaves its list alone; the
  tick that ends the slice refills it and moves the task to the tail of its list, asking for a
  reschedule when anyone else waits there.  The list of a task of any other policy never moves.
\<close>

theorem task_tick_rt_round_robin:
  assumes "rt_inv s" "rte_on_list (p_rt (tasks s p))"
  shows "let s' = task_tick_rt soft hard hz k p queued s;
             lvl = (\<lambda>s. queue (active (rtq s (p_cpu (tasks s p)))) ! nat (p_prio (tasks s p)));
             slice = (\<lambda>s. rte_time_slice (p_rt (tasks s p))) in
     (p_policy (tasks s p) = SCHED_RR \<and> slice s = 1 \<longrightarrow>
        slice s' = sched_rr_timeslice s \<and> lvl s' = removeAll p (lvl s) @ [p] \<and>
        (lvl s \<noteq> [p] \<longrightarrow> p_need_resched (tasks s' (rq_curr (rqs s k))))) \<and>
     (p_policy (tasks s p) = SCHED_RR \<and> slice s \<noteq> 1 \<longrightarrow> slice s' = slice s - 1 \<and> lvl s' = lvl s) \<and>
     (p_policy (tasks s p) \<noteq> SCHED_RR \<longrightarrow> slice s' = slice s \<and> lvl s' = lvl s)"
proof -
  let ?s1 = "watchdog soft hard hz p (update_curr_rt k s)"
  let ?s2 = "upd_rte p (\<lambda>e. e\<lparr>rte_time_slice := rte_time_slice e - 1\<rparr>) ?s1"
  let ?s3 = "upd_rte p (\<lambda>e. e\<lparr>rte_time_slice := sched_rr_timeslice ?s2\<rparr>) ?s2"
  let ?lvl = "\<lambda>s. queue (active (rtq s (p_cpu (tasks s p)))) ! nat (p_prio (tasks s p))"
  let ?slice = "\<lambda>s. rte_time_slice (p_rt (tasks s p))"
  have q: "rt_quiet s ?s1" by (rule rt_quiet_trans[OF quiet_update_curr_rt quiet_watchdog])
  have f: "slice_frame s ?s1" by (rule slice_frame_trans[OF slice_frame_update_curr slice_frame_watchdog])
  have k1: "task_key (tasks ?s1 p) = task_key (tasks s p)" "\<And>c. active (rtq ?s1 c) = active (rtq s c)"
    using q by (simp_all only: rt_quiet_def rt_key_def prod.inject)
  then have t1: "p_policy (tasks ?s1 p) = p_policy (tasks s p)" "?lvl ?s1 = ?lvl s" "?slice ?s1 = ?slice s"
    "sched_rr_timeslice ?s1 = sched_rr_timeslice s" "rq_curr (rqs ?s1 k) = rq_curr (rqs s k)"
    using f by (simp_all add: task_key_def slice_frame_def)
  have q3: "rt_quiet ?s1 ?s3" by (rule rt_quiet_trans[OF quiet_upd_rte quiet_upd_rte]) simp_all
  have I3: "rt_inv ?s3" by (rule rt_quiet_inv(1)[OF assms(1) rt_quiet_trans[OF q q3]])
  have on3: "rte_on_list (p_rt (tasks ?s3 p))" using k1(1) assms(2) by (simp add: task_key_def)
  have l3: "?lvl ?s3 = ?lvl s" "?lvl ?s2 = ?lvl s" using t1(2) by simp_all
  note al = alone_on_queue_level[OF I3 on3] and rq = requeue_tail_level[OF I3 on3]
  let ?s4 = "resched_curr k (requeue_task_rt p False ?s3)"
  have s4: "?lvl ?s4 = removeAll p (?lvl s) @ [p]" "?slice ?s4 = sched_rr_timeslice s"
    "p_need_resched (tasks ?s4 (rq_curr (rqs s k)))"
  proof -
    have fr: "?lvl (resched_curr k t) = ?lvl t" "?slice (resched_curr k t) = ?slice t" for t by simp_all
    have nr: "p_need_resched (tasks (resched_curr k t) (rq_curr (rqs t k)))" for t by (simp add: resched_curr_tasks)
    have c3: "rq_curr (rqs ?s3 k) = rq_curr (rqs s k)" using t1(5) by simp
    show "?lvl ?s4 = removeAll p (?lvl s) @ [p]" unfolding fr rq(2) rq(1) l3(1) by (rule refl)
    show "?slice ?s4 = sched_rr_timeslice s" unfolding fr rq(2) using t1(4) by simp
    show "p_need_resched (tasks ?s4 (rq_curr (rqs s k)))"
      using nr[of "requeue_task_rt p False ?s3"] unfolding rq(3) c3 .
  qed
  have tick: "task_tick_rt soft hard hz k p queued s =
     (if p_policy (tasks s p) \<noteq> SCHED_RR then ?s1 else if ?slice s \<noteq> 1 then ?s2
      else if ?lvl s \<noteq> [p] then ?s4 else ?s3)"
    unfolding task_tick_rt_def Let_def al l3(1) using t1(1,3) by simp
  show ?thesis unfolding Let_def tick using t1 l3 s4 by simp
qed

theorem task_tick_rt_round_robin_witness:
  "rte_time_slice (p_rt (tasks (task_tick_rt 0 0 1000 0 5 False (enqueue_task_rt 0 5 ENQUEUE_WAKEUP rt_demo)) 5)) = 99"
  using task_tick_rt_round_robin[OF rt_demo_queued(1), of 5 0 0 1000 0 False] rt_demo_queued(2-)
  unfolding Let_def by simp

end
