(* ===== verification/Sched_Rt_Hier.thy ===== *)
theory Sched_Rt_Hier
  imports Sched_Rt
begin

text \<open>
  The hierarchy of real-time queues of one CPU (\<open>kernel/sched/rt.c\<close> with \<open>CONFIG_RT_GROUP_SCHED\<close>): every task group has
  a queue of its own and an entity that stands for it on the queue of the group above.  The state is that of one
  CPU; the lists of tasks that can be pushed to other CPUs and the priorities published for them are those of
  the theory of the class without groups.
\<close>

section \<open>Entities and queues of one CPU\<close>

text \<open>
  An entity is a task or a group, given by its number; the queue of a group on this CPU has the number of the
  group, and 0 is the root group, whose queue is \<open>rq->rt\<close>.  \<open>ge_my_q\<close> is \<open>NULL\<close> for a task.
\<close>

record group_se =
  ge_on_rq :: bool
  ge_on_list :: bool
  ge_parent :: "nat option"
  ge_rt_rq :: nat
  ge_my_q :: "nat option"

text \<open>
  The counters count tasks of the machine, which are fewer than \<open>PID_MAX_LIMIT\<close>, and so they do not wrap around.
\<close>

record group_rq =
  gr_active :: rt_prio_array
  gr_nr_running :: nat
  gr_rr_nr_running :: nat
  gr_highest :: int
  gr_nr_boosted :: nat
  gr_queued :: bool
  gr_throttled :: bool
  gr_time :: u64
  gr_runtime :: u64

text \<open>
  What the operations see of one CPU: entities and queues, the entity and the bandwidth of each group,
  priority and policy of the task an entity belongs to, \<open>rq->nr_running\<close>, the current task, whether it is to be
  rescheduled, and a bound on the depth of the hierarchy.
\<close>

record hier =
  h_se :: "nat \<Rightarrow> group_se"
  h_q :: "nat \<Rightarrow> group_rq"
  h_tg_se :: "nat \<Rightarrow> nat option"
  h_tg_bw :: "nat \<Rightarrow> rt_bandwidth"
  h_prio :: "nat \<Rightarrow> int"
  h_normal_prio :: "nat \<Rightarrow> int"
  h_policy :: "nat \<Rightarrow> int"
  h_rq_nr_running :: nat
  h_curr :: nat
  h_resched :: bool
  h_bandwidth_enabled :: bool
  h_depth :: nat
  h_fault :: "kfault option"

definition upd_se :: "nat \<Rightarrow> (group_se \<Rightarrow> group_se) \<Rightarrow> hier \<Rightarrow> hier" where
  "upd_se e f h = h\<lparr>h_se := (h_se h)(e := f (h_se h e))\<rparr>"

definition upd_gq :: "nat \<Rightarrow> (group_rq \<Rightarrow> group_rq) \<Rightarrow> hier \<Rightarrow> hier" where
  "upd_gq q f h = h\<lparr>h_q := (h_q h)(q := f (h_q h q))\<rparr>"

definition hier_fault :: "kfault \<Rightarrow> hier \<Rightarrow> hier" where
  "hier_fault x h = (case h_fault h of None \<Rightarrow> h\<lparr>h_fault := Some x\<rparr> | Some _ \<Rightarrow> h)"

section \<open>What an entity is worth\<close>

definition group_throttled :: "hier \<Rightarrow> nat \<Rightarrow> bool" where
  "group_throttled h q \<longleftrightarrow> gr_throttled (h_q h q) \<and> gr_nr_boosted (h_q h q) = 0"

definition rt_se_boosted :: "hier \<Rightarrow> nat \<Rightarrow> bool" where
  "rt_se_boosted h e = (case ge_my_q (h_se h e) of
     Some q \<Rightarrow> gr_nr_boosted (h_q h q) \<noteq> 0 | None \<Rightarrow> h_prio h e \<noteq> h_normal_prio h e)"

definition group_se_prio :: "hier \<Rightarrow> nat \<Rightarrow> int" where
  "group_se_prio h e = (case ge_my_q (h_se h e) of Some q \<Rightarrow> gr_highest (h_q h q) | None \<Rightarrow> h_prio h e)"

definition rt_se_nr_running :: "hier \<Rightarrow> nat \<Rightarrow> nat" where
  "rt_se_nr_running h e = (case ge_my_q (h_se h e) of Some q \<Rightarrow> gr_nr_running (h_q h q) | None \<Rightarrow> 1)"

definition group_se_rr :: "hier \<Rightarrow> nat \<Rightarrow> nat" where
  "group_se_rr h e = (case ge_my_q (h_se h e) of
     Some q \<Rightarrow> gr_rr_nr_running (h_q h q) | None \<Rightarrow> if h_policy h e = SCHED_RR then 1 else 0)"

section \<open>Counting\<close>

definition start_group_bandwidth :: "nat \<Rightarrow> hier \<Rightarrow> hier" where
  "start_group_bandwidth q h =
     (if \<not> h_bandwidth_enabled h \<or> rtb_runtime (h_tg_bw h q) = RUNTIME_INF then h
      else h\<lparr>h_tg_bw := (h_tg_bw h)(q := (h_tg_bw h q)\<lparr>rt_period_active := True\<rparr>)\<rparr>)"

definition inc_rt_group :: "nat \<Rightarrow> nat \<Rightarrow> hier \<Rightarrow> hier" where
  "inc_rt_group e q h = start_group_bandwidth q
     (if rt_se_boosted h e then upd_gq q (\<lambda>r. r\<lparr>gr_nr_boosted := gr_nr_boosted r + 1\<rparr>) h else h)"

definition dec_rt_group :: "nat \<Rightarrow> nat \<Rightarrow> hier \<Rightarrow> hier" where
  "dec_rt_group e q h = (if rt_se_boosted h e then upd_gq q (\<lambda>r. r\<lparr>gr_nr_boosted := gr_nr_boosted r - 1\<rparr>) h else h)"

definition group_inc_tasks :: "nat \<Rightarrow> nat \<Rightarrow> hier \<Rightarrow> hier" where
  "group_inc_tasks e q h =
     (let prio = group_se_prio h e
      in inc_rt_group e q (upd_gq q (\<lambda>r. r\<lparr>
           gr_nr_running := gr_nr_running r + rt_se_nr_running h e,
           gr_rr_nr_running := gr_rr_nr_running r + group_se_rr h e,
           gr_highest := (if prio < gr_highest r then prio else gr_highest r)\<rparr>) h))"

definition group_dec_prio :: "int \<Rightarrow> group_rq \<Rightarrow> group_rq" where
  "group_dec_prio prio r = r\<lparr>gr_highest :=
     (if gr_nr_running r \<noteq> 0
      then (if prio = gr_highest r then int (sched_find_first_bit (bitmap (gr_active r))) else gr_highest r)
      else MAX_RT_PRIO)\<rparr>"

definition group_dec_tasks :: "nat \<Rightarrow> nat \<Rightarrow> hier \<Rightarrow> hier" where
  "group_dec_tasks e q h =
     dec_rt_group e q (upd_gq q (\<lambda>r. group_dec_prio (group_se_prio h e) (r\<lparr>
       gr_nr_running := gr_nr_running r - rt_se_nr_running h e,
       gr_rr_nr_running := gr_rr_nr_running r - group_se_rr h e\<rparr>)) h)"

section \<open>One entity on one queue\<close>

definition group_delist :: "nat \<Rightarrow> hier \<Rightarrow> hier" where
  "group_delist e h =
     (if \<not> rt_index_ok (group_se_prio h e) then hier_fault Index_out_of_range h
      else upd_se e (\<lambda>x. x\<lparr>ge_on_list := False\<rparr>)
        (upd_gq (ge_rt_rq (h_se h e)) (\<lambda>r. r\<lparr>gr_active := array_delist e (nat (group_se_prio h e)) (gr_active r)\<rparr>) h))"

definition group_enlist :: "nat \<Rightarrow> bool \<Rightarrow> hier \<Rightarrow> hier" where
  "group_enlist e head h =
     (if \<not> rt_index_ok (group_se_prio h e) then hier_fault Index_out_of_range h
      else upd_se e (\<lambda>x. x\<lparr>ge_on_list := True\<rparr>)
        (upd_gq (ge_rt_rq (h_se h e)) (\<lambda>r. r\<lparr>gr_active := array_add e (nat (group_se_prio h e)) head (gr_active r)\<rparr>) h))"

text \<open>A group that is throttled or empty is not queued.\<close>

definition group_idle :: "hier \<Rightarrow> nat \<Rightarrow> bool" where
  "group_idle h e = (case ge_my_q (h_se h e) of
     Some g \<Rightarrow> group_throttled h g \<or> gr_nr_running (h_q h g) = 0 | None \<Rightarrow> False)"

definition group_enqueue_entity :: "nat \<Rightarrow> u32 \<Rightarrow> hier \<Rightarrow> hier" where
  "group_enqueue_entity e flags h =
     (if group_idle h e then (if ge_on_list (h_se h e) then group_delist e h else h)
      else
        let h1 = (if move_entity flags then group_enlist e (flag_set flags ENQUEUE_HEAD) h else h);
            h2 = upd_se e (\<lambda>x. x\<lparr>ge_on_rq := True\<rparr>) h1
        in group_inc_tasks e (ge_rt_rq (h_se h2 e)) h2)"

definition group_dequeue_entity :: "nat \<Rightarrow> u32 \<Rightarrow> hier \<Rightarrow> hier" where
  "group_dequeue_entity e flags h =
     (let h1 = (if move_entity flags then group_delist e h else h);
          h2 = upd_se e (\<lambda>x. x\<lparr>ge_on_rq := False\<rparr>) h1
      in group_dec_tasks e (ge_rt_rq (h_se h2 e)) h2)"

section \<open>From an entity up to the root\<close>

text \<open>\<open>for_each_sched_rt_entity\<close>: the entity, the group it is in, and so on.\<close>

primrec chain :: "hier \<Rightarrow> nat \<Rightarrow> nat \<Rightarrow> nat list" where
  "chain h 0 e = [e]"
| "chain h (Suc n) e = e # (case ge_parent (h_se h e) of None \<Rightarrow> [] | Some p \<Rightarrow> chain h n p)"

abbreviation se_chain :: "hier \<Rightarrow> nat \<Rightarrow> nat list" where
  "se_chain h e \<equiv> chain h (h_depth h) e"

definition dequeue_top_group :: "nat \<Rightarrow> hier \<Rightarrow> hier" where
  "dequeue_top_group q h =
     (if q \<noteq> 0 then hier_fault Bug_on h
      else if \<not> gr_queued (h_q h 0) then h
      else if h_rq_nr_running h = 0 then hier_fault Bug_on h
      else upd_gq 0 (\<lambda>r. r\<lparr>gr_queued := False\<rparr>) (h\<lparr>h_rq_nr_running := h_rq_nr_running h - gr_nr_running (h_q h 0)\<rparr>))"

definition enqueue_top_group :: "hier \<Rightarrow> hier" where
  "enqueue_top_group h =
     (if gr_queued (h_q h 0) then h
      else if group_throttled h 0 then h
      else if gr_nr_running (h_q h 0) \<noteq> 0
        then upd_gq 0 (\<lambda>r. r\<lparr>gr_queued := True\<rparr>) (h\<lparr>h_rq_nr_running := h_rq_nr_running h + gr_nr_running (h_q h 0)\<rparr>)
      else h)"

text \<open>The stack is taken off from the top, since the priority of a group depends on what is below it.\<close>

definition group_dequeue_stack :: "nat \<Rightarrow> u32 \<Rightarrow> hier \<Rightarrow> hier" where
  "group_dequeue_stack e flags h =
     fold (\<lambda>x h. if ge_on_rq (h_se h x) then group_dequeue_entity x flags h else h) (rev (se_chain h e))
       (dequeue_top_group (ge_rt_rq (h_se h (last (se_chain h e)))) h)"

definition group_enqueue :: "nat \<Rightarrow> u32 \<Rightarrow> hier \<Rightarrow> hier" where
  "group_enqueue e flags h =
     enqueue_top_group (fold (\<lambda>x. group_enqueue_entity x flags) (se_chain h e) (group_dequeue_stack e flags h))"

definition group_requeue_up :: "u32 \<Rightarrow> nat \<Rightarrow> hier \<Rightarrow> hier" where
  "group_requeue_up flags x h = (case ge_my_q (h_se h x) of
     None \<Rightarrow> h | Some g \<Rightarrow> if gr_nr_running (h_q h g) \<noteq> 0 then group_enqueue_entity x flags h else h)"

definition group_dequeue :: "nat \<Rightarrow> u32 \<Rightarrow> hier \<Rightarrow> hier" where
  "group_dequeue e flags h =
     enqueue_top_group (fold (group_requeue_up flags) (se_chain h e) (group_dequeue_stack e flags h))"

definition group_requeue_entity :: "bool \<Rightarrow> nat \<Rightarrow> hier \<Rightarrow> hier" where
  "group_requeue_entity head e h =
     (if ge_on_rq (h_se h e) then
        if \<not> rt_index_ok (group_se_prio h e) then hier_fault Index_out_of_range h
        else upd_gq (ge_rt_rq (h_se h e)) (\<lambda>r. r\<lparr>gr_active := array_move e (nat (group_se_prio h e)) head (gr_active r)\<rparr>) h
      else h)"

definition group_requeue_task :: "nat \<Rightarrow> bool \<Rightarrow> hier \<Rightarrow> hier" where
  "group_requeue_task p head h = fold (group_requeue_entity head) (se_chain h p) h"

text \<open>The end of \<open>task_tick_rt\<close>, when a time slice is over.  \<open>run_list.prev\<close> and \<open>run_list.next\<close> are the same when the
  entity is alone on its list or on none.\<close>

definition group_alone :: "hier \<Rightarrow> nat \<Rightarrow> bool" where
  "group_alone h e \<longleftrightarrow> \<not> ge_on_list (h_se h e)
     \<or> length (queue (gr_active (h_q h (ge_rt_rq (h_se h e)))) ! nat (group_se_prio h e)) \<le> 1"

definition group_slice_over :: "nat \<Rightarrow> hier \<Rightarrow> hier" where
  "group_slice_over p h =
     (if list_ex (\<lambda>x. \<not> group_alone h x) (se_chain h p) then (group_requeue_task p False h)\<lparr>h_resched := True\<rparr> else h)"

section \<open>Throttling\<close>

definition group_rq_enqueue :: "nat \<Rightarrow> hier \<Rightarrow> hier" where
  "group_rq_enqueue q h =
     (if gr_nr_running (h_q h q) \<noteq> 0 then
        let h1 = (case h_tg_se h q of
                    None \<Rightarrow> if q \<noteq> 0 then hier_fault Bug_on h else enqueue_top_group h
                  | Some e \<Rightarrow> if \<not> ge_on_rq (h_se h e) then group_enqueue e 0 h else h)
        in if gr_highest (h_q h1 q) < h_prio h1 (h_curr h1) then h1\<lparr>h_resched := True\<rparr> else h1
      else h)"

definition group_rq_dequeue :: "nat \<Rightarrow> hier \<Rightarrow> hier" where
  "group_rq_dequeue q h = (case h_tg_se h q of
     None \<Rightarrow> dequeue_top_group q h
   | Some e \<Rightarrow> if ge_on_rq (h_se h e) then group_dequeue e 0 h else h)"

text \<open>\<open>balance_runtime\<close> for queue \<open>q\<close>: \<open>lent q\<close> is what the queues of the group on other CPUs lend it, which are not part
  of this state; \<open>share\<close> is the feature \<open>RT_RUNTIME_SHARE\<close>.\<close>

definition group_balance :: "bool \<Rightarrow> (nat \<Rightarrow> u64) \<Rightarrow> nat \<Rightarrow> hier \<Rightarrow> hier" where
  "group_balance share lent q h =
     (if \<not> share then h
      else if gr_time (h_q h q) > gr_runtime (h_q h q) then upd_gq q (\<lambda>r. r\<lparr>gr_runtime := gr_runtime r + lent q\<rparr>) h
      else h)"

definition group_runtime_exceeded :: "bool \<Rightarrow> (nat \<Rightarrow> u64) \<Rightarrow> nat \<Rightarrow> hier \<Rightarrow> bool \<times> hier" where
  "group_runtime_exceeded share lent q h =
     (if gr_throttled (h_q h q) then (group_throttled h q, h)
      else if gr_runtime (h_q h q) \<ge> rt_period (h_tg_bw h q) then (False, h)
      else
        let h1 = group_balance share lent q h; runtime = gr_runtime (h_q h1 q)
        in if runtime = RUNTIME_INF then (False, h1)
           else if gr_time (h_q h1 q) > runtime then
             let h2 = (if rtb_runtime (h_tg_bw h1 q) \<noteq> 0 then upd_gq q (\<lambda>r. r\<lparr>gr_throttled := True\<rparr>) h1
                       else upd_gq q (\<lambda>r. r\<lparr>gr_time := 0\<rparr>) h1)
             in if group_throttled h2 q then (True, group_rq_dequeue q h2) else (False, h2)
           else (False, h1))"

text \<open>The accounting loop of \<open>update_curr_rt\<close>.\<close>

definition account_one :: "bool \<Rightarrow> (nat \<Rightarrow> u64) \<Rightarrow> u64 \<Rightarrow> nat \<Rightarrow> hier \<Rightarrow> hier" where
  "account_one share lent delta e h =
     (let q = ge_rt_rq (h_se h e)
      in if gr_runtime (h_q h q) = RUNTIME_INF then h
         else case group_runtime_exceeded share lent q (upd_gq q (\<lambda>r. r\<lparr>gr_time := gr_time r + delta\<rparr>) h) of
           (exceeded, h1) \<Rightarrow> if exceeded then h1\<lparr>h_resched := True\<rparr> else h1)"

definition group_update_curr :: "bool \<Rightarrow> (nat \<Rightarrow> u64) \<Rightarrow> u64 \<Rightarrow> hier \<Rightarrow> hier" where
  "group_update_curr share lent delta h =
     (if \<not> h_bandwidth_enabled h then h else fold (account_one share lent delta) (se_chain h (h_curr h)) h)"

text \<open>The period timer of group \<open>q\<close> on this CPU.\<close>

definition group_period_timer :: "bool \<Rightarrow> (nat \<Rightarrow> u64) \<Rightarrow> u64 \<Rightarrow> nat \<Rightarrow> hier \<Rightarrow> hier" where
  "group_period_timer share lent overrun q h0 =
     (let h = (if \<not> share \<and> gr_runtime (h_q h0 q) \<noteq> RUNTIME_INF
               then upd_gq q (\<lambda>r. r\<lparr>gr_runtime := rtb_runtime (h_tg_bw h0 q)\<rparr>) h0 else h0)
      in if gr_time (h_q h q) = 0 \<and> gr_nr_running (h_q h q) = 0 then h
         else if gr_time (h_q h q) \<noteq> 0 then
           let h1 = (if gr_throttled (h_q h q) then group_balance share lent q h else h);
               runtime = gr_runtime (h_q h1 q);
               h2 = upd_gq q (\<lambda>r. r\<lparr>gr_time := gr_time r - min (gr_time r) (overrun * runtime)\<rparr>) h1
           in if gr_throttled (h_q h2 q) \<and> gr_time (h_q h2 q) < runtime
              then group_rq_enqueue q (upd_gq q (\<lambda>r. r\<lparr>gr_throttled := False\<rparr>) h2) else h2
         else if \<not> group_throttled h q then group_rq_enqueue q h
         else h)"

section \<open>Picking a task\<close>

definition group_first :: "hier \<Rightarrow> nat \<Rightarrow> nat option" where
  "group_first h q =
     (let a = gr_active (h_q h q); idx = sched_find_first_bit (bitmap a)
      in if int idx \<ge> MAX_RT_PRIO then None else case queue a ! idx of [] \<Rightarrow> None | e # _ \<Rightarrow> Some e)"

text \<open>The loop of \<open>_pick_next_task_rt\<close>; \<open>None\<close> is a bug.\<close>

fun group_pick :: "nat \<Rightarrow> hier \<Rightarrow> nat \<Rightarrow> nat option" where
  "group_pick 0 h q = None"
| "group_pick (Suc n) h q = (case group_first h q of
     None \<Rightarrow> None
   | Some e \<Rightarrow> (case ge_my_q (h_se h e) of None \<Rightarrow> Some e | Some g \<Rightarrow> group_pick n h g))"

definition group_pick_task :: "hier \<Rightarrow> nat option" where
  "group_pick_task h = (if \<not> gr_queued (h_q h 0) then None else group_pick (Suc (h_depth h)) h 0)"

section \<open>Groups and their tasks\<close>

text \<open>A new group \<open>q\<close> with the entity \<open>e\<close>; \<open>parent\<close> is the entity of the group it is in.\<close>

definition init_tg_rt_entry :: "nat \<Rightarrow> nat option \<Rightarrow> nat option \<Rightarrow> hier \<Rightarrow> hier" where
  "init_tg_rt_entry q rt_se parent h =
     (let h1 = upd_gq q (\<lambda>r. r\<lparr>gr_highest := MAX_RT_PRIO, gr_nr_boosted := 0\<rparr>) h;
          h2 = h1\<lparr>h_tg_se := (h_tg_se h1)(q := rt_se)\<rparr>
      in case rt_se of
           None \<Rightarrow> h2
         | Some e \<Rightarrow> upd_se e (\<lambda>x. x\<lparr>
             ge_rt_rq := (case parent of None \<Rightarrow> 0 | Some p \<Rightarrow> (case ge_my_q (h_se h2 p) of None \<Rightarrow> 0 | Some g \<Rightarrow> g)),
             ge_my_q := Some q, ge_parent := parent, ge_on_list := False\<rparr>) h2)"

text \<open>The part of \<open>alloc_rt_sched_group\<close> for this CPU, whose memory is zero.\<close>

definition zero_queue :: group_rq where
  "zero_queue = \<lparr>gr_active = \<lparr>bitmap = replicate 101 False, queue = replicate 100 []\<rparr>, gr_nr_running = 0, gr_rr_nr_running = 0,
     gr_highest = 0, gr_nr_boosted = 0, gr_queued = False, gr_throttled = False, gr_time = 0, gr_runtime = 0\<rparr>"

definition init_group_rq :: "group_rq \<Rightarrow> group_rq" where
  "init_group_rq r = r\<lparr>gr_active := \<lparr>bitmap = replicate (nat MAX_RT_PRIO) False @ [True], queue = replicate (nat MAX_RT_PRIO) []\<rparr>,
     gr_highest := MAX_RT_PRIO, gr_queued := False, gr_time := 0, gr_throttled := False, gr_runtime := 0\<rparr>"

definition alloc_group_cpu :: "nat \<Rightarrow> nat \<Rightarrow> nat \<Rightarrow> u64 \<Rightarrow> hier \<Rightarrow> hier" where
  "alloc_group_cpu q e parent_group def_period h =
     (let h1 = h\<lparr>h_tg_bw := (h_tg_bw h)(q := init_rt_bandwidth def_period 0 (h_tg_bw h q))\<rparr>;
          h2 = upd_gq q (\<lambda>_. (init_group_rq zero_queue)\<lparr>gr_runtime := rtb_runtime (h_tg_bw h1 q)\<rparr>) h1;
          h3 = upd_se e (\<lambda>_. \<lparr>ge_on_rq = False, ge_on_list = False, ge_parent = None, ge_rt_rq = 0, ge_my_q = None\<rparr>) h2
      in init_tg_rt_entry q (Some e) (h_tg_se h parent_group) h3)"

text \<open>\<open>set_task_rq\<close>: the task is put into group \<open>q\<close>.\<close>

definition group_set_task_rq :: "nat \<Rightarrow> nat \<Rightarrow> hier \<Rightarrow> hier" where
  "group_set_task_rq p q h = upd_se p (\<lambda>x. x\<lparr>ge_rt_rq := q, ge_parent := h_tg_se h q\<rparr>) h"

end
