(* ===== verification/Sched_Rt_Hier_Queue.thy ===== *)
theory Sched_Rt_Hier_Queue
  imports Sched_Rt_Hier Sched_Rt_Queue
begin

text \<open>
  What one queue of the hierarchy holds: its array, its counters and its best priority agree with the entities on it.
  An entity goes on and off its queue while the group above is off; the whole way up is taken off from the top and
  put back from below, and then every group is queued exactly when it has tasks and is not throttled.
\<close>

section \<open>The shape of a hierarchy\<close>

abbreviation on_rq :: "hier \<Rightarrow> nat \<Rightarrow> bool" where
  "on_rq h e \<equiv> ge_on_rq (h_se h e)"

abbreviation rt_of :: "hier \<Rightarrow> nat \<Rightarrow> nat" where
  "rt_of h e \<equiv> ge_rt_rq (h_se h e)"

abbreviation my_q :: "hier \<Rightarrow> nat \<Rightarrow> nat option" where
  "my_q h e \<equiv> ge_my_q (h_se h e)"

text \<open>Every group has its entity, and the groups lie in levels.\<close>

definition levels :: "(nat \<Rightarrow> nat) \<Rightarrow> hier \<Rightarrow> bool" where
  "levels lv h \<longleftrightarrow> (\<forall>e q. my_q h e = Some q \<longleftrightarrow> h_tg_se h q = Some e) \<and> (\<forall>e. ge_parent (h_se h e) = h_tg_se h (rt_of h e))
     \<and> h_tg_se h 0 = None \<and> (\<forall>e. h_tg_se h (rt_of h e) = None \<longrightarrow> rt_of h e = 0)
     \<and> (\<forall>q e. h_tg_se h q = Some e \<longrightarrow> lv q = Suc (lv (rt_of h e))) \<and> (\<forall>q. lv q \<le> h_depth h)"

lemma levelsD:
  assumes "levels lv h"
  shows "my_q h e = Some q \<longleftrightarrow> h_tg_se h q = Some e" "ge_parent (h_se h e) = h_tg_se h (rt_of h e)" "h_tg_se h 0 = None"
    "h_tg_se h (rt_of h e) = None \<Longrightarrow> rt_of h e = 0" "h_tg_se h q = Some e \<Longrightarrow> lv q = Suc (lv (rt_of h e))" "lv q \<le> h_depth h"
  using assms unfolding levels_def by blast+

definition same_shape :: "hier \<Rightarrow> hier \<Rightarrow> bool" where
  "same_shape h h' \<longleftrightarrow> h_tg_se h' = h_tg_se h \<and> h_prio h' = h_prio h \<and> h_normal_prio h' = h_normal_prio h \<and> h_policy h' = h_policy h
     \<and> h_depth h' = h_depth h
     \<and> (\<forall>e. my_q h' e = my_q h e \<and> ge_parent (h_se h' e) = ge_parent (h_se h e) \<and> rt_of h' e = rt_of h e)"

definition quiet :: "hier \<Rightarrow> hier \<Rightarrow> bool" where
  "quiet h h' \<longleftrightarrow> same_shape h h' \<and> (\<forall>q. gr_queued (h_q h' q) = gr_queued (h_q h q)) \<and> h_rq_nr_running h' = h_rq_nr_running h
     \<and> h_fault h' = h_fault h"

lemma same_shape_refl [simp]: "same_shape h h"
  by (simp add: same_shape_def)

lemma same_shape_trans: "same_shape h h' \<Longrightarrow> same_shape h' h'' \<Longrightarrow> same_shape h h''"
  by (simp add: same_shape_def)

lemma quiet_refl [simp]: "quiet h h"
  by (simp add: quiet_def)

lemma quiet_trans: "quiet h h' \<Longrightarrow> quiet h' h'' \<Longrightarrow> quiet h h''"
  unfolding quiet_def using same_shape_trans by auto

lemma levels_shape: "levels lv h \<Longrightarrow> same_shape h h' \<Longrightarrow> levels lv h'"
  by (simp add: levels_def same_shape_def)

section \<open>What is on a queue\<close>

definition on_q :: "hier \<Rightarrow> nat \<Rightarrow> nat set" where
  "on_q h q = {e. ge_on_list (h_se h e) \<and> rt_of h e = q}"

definition boost_one :: "hier \<Rightarrow> nat \<Rightarrow> nat" where
  "boost_one h e = (if rt_se_boosted h e then 1 else 0)"

definition is_best :: "(nat \<Rightarrow> int) \<Rightarrow> nat set \<Rightarrow> int \<Rightarrow> bool" where
  "is_best f S m \<longleftrightarrow> (\<forall>e \<in> S. m \<le> f e) \<and> (if S = {} then m = 100 else \<exists>e \<in> S. f e = m)"

definition levels_hold :: "rt_prio_array \<Rightarrow> (nat \<Rightarrow> int) \<Rightarrow> nat set \<Rightarrow> bool" where
  "levels_hold a f S \<longleftrightarrow> rt_array_ok a \<and> (\<forall>i < 100. set (queue a ! i) = {e \<in> S. f e = int i}) \<and> (\<forall>e \<in> S. rt_index_ok (f e))"

definition queue_ok :: "hier \<Rightarrow> nat \<Rightarrow> bool" where
  "queue_ok h q \<longleftrightarrow> levels_hold (gr_active (h_q h q)) (group_se_prio h) (on_q h q)
     \<and> gr_nr_running (h_q h q) = (\<Sum>e \<in> on_q h q. rt_se_nr_running h e)
     \<and> gr_rr_nr_running (h_q h q) = (\<Sum>e \<in> on_q h q. group_se_rr h e)
     \<and> gr_nr_boosted (h_q h q) = (\<Sum>e \<in> on_q h q. boost_one h e)
     \<and> is_best (group_se_prio h) (on_q h q) (gr_highest (h_q h q))"

definition core :: "hier \<Rightarrow> bool" where
  "core h \<longleftrightarrow> (\<forall>q. queue_ok h q) \<and> (\<forall>e. ge_on_list (h_se h e) = on_rq h e) \<and> (\<forall>e. on_rq h e \<longrightarrow> rt_se_nr_running h e \<noteq> 0)"

text \<open>A group is queued exactly when it has tasks and may run, except those in \<open>X\<close>.\<close>

definition live :: "hier \<Rightarrow> nat \<Rightarrow> bool" where
  "live h q \<longleftrightarrow> gr_nr_running (h_q h q) \<noteq> 0 \<and> \<not> group_throttled h q"

definition groups_queued :: "nat set \<Rightarrow> hier \<Rightarrow> bool" where
  "groups_queued X h \<longleftrightarrow> (\<forall>e q. my_q h e = Some q \<longrightarrow> e \<notin> X \<longrightarrow> on_rq h e = live h q)"

lemma levels_hold_set:
  assumes "levels_hold a f S"
  shows "S = set (concat (queue a))" "finite S"
proof -
  have l: "length (queue a) = 100" using assms by (simp add: levels_hold_def rt_array_ok_def)
  show e: "S = set (concat (queue a))"
  proof
    show "S \<subseteq> set (concat (queue a))"
    proof
      fix x assume x: "x \<in> S"
      then have i: "0 \<le> f x" "f x < 100" using assms by (auto simp: levels_hold_def rt_index_ok_def MAX_RT_PRIO_def)
      then have "nat (f x) < 100" by simp
      then have "x \<in> set (queue a ! nat (f x))" using assms x i unfolding levels_hold_def by auto
      then show "x \<in> set (concat (queue a))" using nth_in_concat[of "nat (f x)" "queue a" x] l i by simp
    qed
    show "set (concat (queue a)) \<subseteq> S" using assms l by (auto simp: levels_hold_def in_set_conv_nth[of _ "queue a"])
  qed
  show "finite S" unfolding e by (rule finite_set)
qed

lemma first_bit_best:
  assumes "levels_hold a f S"
  shows "is_best f S (int (sched_find_first_bit (bitmap a)))"
proof -
  have a: "rt_array_ok a" and l: "length (queue a) = 100" using assms by (simp_all add: levels_hold_def rt_array_ok_def)
  note S = levels_hold_set(1)[OF assms]
  have lev: "e \<in> S \<Longrightarrow> \<exists>i < 100. f e = int i \<and> e \<in> set (queue a ! i)" for e
  proof -
    assume e: "e \<in> S"
    then have "rt_index_ok (f e)" using assms by (simp add: levels_hold_def)
    then have "nat (f e) < 100" "f e = int (nat (f e))" by (auto simp: rt_index_ok_def MAX_RT_PRIO_def)
    then show ?thesis using e assms unfolding levels_hold_def by (metis (mono_tags, lifting) mem_Collect_eq)
  qed
  show ?thesis
  proof (cases "find_index (\<lambda>l. l \<noteq> []) (queue a)")
    case None
    then have "S = {}" unfolding S by (auto simp: find_index_None)
    then show ?thesis using None by (simp add: find_first_bit_levels[OF a] is_best_def)
  next
    case (Some i)
    then have i: "i < 100" "queue a ! i \<noteq> []" "\<And>j. j < i \<Longrightarrow> queue a ! j = []" using l by (auto simp: find_index_Some)
    obtain e where e: "e \<in> S" "f e = int i" using i(1,2) assms unfolding levels_hold_def by (cases "queue a ! i") fastforce+
    have "int i \<le> f x" if "x \<in> S" for x using lev[OF that] i(3) by (metis empty_iff linorder_not_le list.set(1) nat_int of_nat_le_iff)
    then show ?thesis using Some e by (auto simp: find_first_bit_levels[OF a] is_best_def)
  qed
qed

lemma is_best_unique: "is_best f S m \<Longrightarrow> is_best f S n \<Longrightarrow> m = n"
  unfolding is_best_def by (metis order_antisym)

lemma levels_hold_add:
  assumes "levels_hold a f S" "e \<notin> S" "rt_index_ok (f e)"
  shows "levels_hold (array_add e (nat (f e)) head a) f (insert e S)"
proof -
  have i: "nat (f e) < 100" "int (nat (f e)) = f e" using assms(3) by (auto simp: rt_index_ok_def MAX_RT_PRIO_def)
  have a: "rt_array_ok a" "length (queue a) = 100" using assms(1) by (simp_all add: levels_hold_def rt_array_ok_def)
  have n: "e \<notin> set (concat (queue a))" using assms(2) levels_hold_set(1)[OF assms(1)] by simp
  note ok = array_add_ok[OF a(1) i(1) n, of head]
  have "set (queue (array_add e (nat (f e)) head a) ! j) = {x \<in> insert e S. f x = int j}" if "j < 100" for j
    using assms(1,2) that i a(2) unfolding ok(1) levels_hold_def by (auto simp: nth_list_update)
  then show ?thesis using ok(2) assms(1,3) by (simp add: levels_hold_def)
qed

lemma levels_hold_delist:
  assumes "levels_hold a f S" "e \<in> S"
  shows "levels_hold (array_delist e (nat (f e)) a) f (S - {e})"
proof -
  have "rt_index_ok (f e)" using assms by (simp add: levels_hold_def)
  then have i: "nat (f e) < 100" "int (nat (f e)) = f e" by (auto simp: rt_index_ok_def MAX_RT_PRIO_def)
  have a: "rt_array_ok a" "length (queue a) = 100" using assms(1) by (simp_all add: levels_hold_def rt_array_ok_def)
  have m: "e \<in> set (queue a ! nat (f e))" using assms i unfolding levels_hold_def by auto
  note ok = array_delist_ok[OF a(1) i(1) m]
  have "set (queue (array_delist e (nat (f e)) a) ! j) = {x \<in> S - {e}. f x = int j}" if "j < 100" for j
    using assms that i a(2) unfolding ok(1) levels_hold_def by (auto simp: nth_list_update)
  then show ?thesis using ok(2) assms(1) by (simp add: levels_hold_def)
qed

lemma levels_hold_cong: "(\<And>e. e \<in> S \<Longrightarrow> g e = f e) \<Longrightarrow> levels_hold a g S = levels_hold a f S"
  by (auto simp: levels_hold_def)

lemma is_best_cong: "(\<And>e. e \<in> S \<Longrightarrow> g e = f e) \<Longrightarrow> is_best g S m = is_best f S m"
  by (auto simp: is_best_def)

text \<open>Two states agree on an entity when it is worth the same in both.\<close>

definition same_worth :: "hier \<Rightarrow> hier \<Rightarrow> nat \<Rightarrow> bool" where
  "same_worth h h' e \<longleftrightarrow> group_se_prio h' e = group_se_prio h e \<and> rt_se_nr_running h' e = rt_se_nr_running h e
     \<and> group_se_rr h' e = group_se_rr h e \<and> boost_one h' e = boost_one h e"

lemma queue_ok_cong:
  assumes "h_q h' q = h_q h q" "on_q h' q = on_q h q" "\<And>e. e \<in> on_q h q \<Longrightarrow> same_worth h h' e"
  shows "queue_ok h' q = queue_ok h q"
proof -
  have "levels_hold a (group_se_prio h') (on_q h q) = levels_hold a (group_se_prio h) (on_q h q)" for a
    using assms(3) by (intro levels_hold_cong) (simp add: same_worth_def)
  moreover have "is_best (group_se_prio h') (on_q h q) m = is_best (group_se_prio h) (on_q h q) m" for m
    using assms(3) by (intro is_best_cong) (simp add: same_worth_def)
  moreover have "(\<Sum>e \<in> on_q h q. rt_se_nr_running h' e) = (\<Sum>e \<in> on_q h q. rt_se_nr_running h e)"
    "(\<Sum>e \<in> on_q h q. group_se_rr h' e) = (\<Sum>e \<in> on_q h q. group_se_rr h e)"
    "(\<Sum>e \<in> on_q h q. boost_one h' e) = (\<Sum>e \<in> on_q h q. boost_one h e)"
    using assms(3) by (auto intro!: sum.cong simp: same_worth_def)
  ultimately show ?thesis by (simp add: queue_ok_def assms(1,2))
qed

section \<open>One entity on or off its queue\<close>

lemma not_own: "levels lv h \<Longrightarrow> my_q h e \<noteq> Some (rt_of h e)"
  using levelsD(1,5)[of lv h] by (metis n_not_Suc_n)

lemma worth_off:
  assumes "my_q h e \<noteq> Some q" "same_shape h h'" "\<And>x. x \<noteq> q \<Longrightarrow> h_q h' x = h_q h x"
  shows "same_worth h h' e"
  using assms
  by (auto simp: same_worth_def same_shape_def group_se_prio_def rt_se_nr_running_def group_se_rr_def boost_one_def rt_se_boosted_def split: option.splits)

lemma on_q_member: "e \<in> on_q h q \<longleftrightarrow> ge_on_list (h_se h e) \<and> rt_of h e = q"
  by (simp add: on_q_def)

text \<open>An entity may change on its queue as long as the group the queue belongs to is not queued itself.\<close>

lemma core_change:
  assumes lv: "levels lv h" and c: "core h" and sh: "same_shape h h'" and q: "\<And>x. x \<noteq> rt_of h e \<Longrightarrow> h_q h' x = h_q h x"
    and se: "\<And>f. f \<noteq> e \<Longrightarrow> h_se h' f = h_se h f" and owner: "\<And>p. h_tg_se h (rt_of h e) = Some p \<Longrightarrow> \<not> on_rq h p"
    and ok: "queue_ok h' (rt_of h e)" and l: "ge_on_list (h_se h' e) = on_rq h' e" and n: "on_rq h' e \<Longrightarrow> rt_se_nr_running h e \<noteq> 0"
  shows "core h'"
proof -
  have w: "same_worth h h' f" if "my_q h f \<noteq> Some (rt_of h e)" for f by (rule worth_off[OF that sh q])
  have wo: "same_worth h h' f" if "f \<noteq> e" "on_rq h f" for f using w[of f] owner that levelsD(1)[OF lv] by blast
  have we: "same_worth h h' e" by (rule w) (rule not_own[OF lv])
  have on: "on_q h' x = on_q h x" if "x \<noteq> rt_of h e" for x
    using that se sh by (auto simp: on_q_def same_shape_def) metis+
  have "queue_ok h' x" if x: "x \<noteq> rt_of h e" for x
  proof -
    have "same_worth h h' f" if "f \<in> on_q h x" for f
      using that x c wo[of f] by (auto simp: on_q_def core_def)
    then show ?thesis using queue_ok_cong[OF q[OF x] on[OF x]] c by (simp add: core_def)
  qed
  then have "queue_ok h' x" for x using ok by (cases "x = rt_of h e") simp_all
  moreover have "ge_on_list (h_se h' f) = on_rq h' f" for f using l se[of f] c by (cases "f = e") (simp_all add: core_def)
  moreover have "rt_se_nr_running h' f \<noteq> 0" if "on_rq h' f" for f
    using that n se[of f] c wo[of f] we by (cases "f = e") (auto simp: core_def same_worth_def)
  ultimately show ?thesis by (simp add: core_def)
qed

text \<open>What one entity takes from its queue and brings to it.\<close>

definition queue_without :: "hier \<Rightarrow> nat \<Rightarrow> group_rq \<Rightarrow> group_rq" where
  "queue_without h e r = (group_dec_prio (group_se_prio h e) (r\<lparr>
     gr_active := array_delist e (nat (group_se_prio h e)) (gr_active r),
     gr_nr_running := gr_nr_running r - rt_se_nr_running h e, gr_rr_nr_running := gr_rr_nr_running r - group_se_rr h e\<rparr>))
   \<lparr>gr_nr_boosted := gr_nr_boosted r - boost_one h e\<rparr>"

definition queue_with :: "hier \<Rightarrow> nat \<Rightarrow> bool \<Rightarrow> group_rq \<Rightarrow> group_rq" where
  "queue_with h e head r = r\<lparr>
     gr_active := array_add e (nat (group_se_prio h e)) head (gr_active r),
     gr_nr_running := gr_nr_running r + rt_se_nr_running h e, gr_rr_nr_running := gr_rr_nr_running r + group_se_rr h e,
     gr_highest := (if group_se_prio h e < gr_highest r then group_se_prio h e else gr_highest r), gr_nr_boosted := gr_nr_boosted r + boost_one h e\<rparr>"

lemma worth_upd_se:
  assumes "\<And>x. ge_my_q (f x) = ge_my_q x"
  shows "group_se_prio (upd_se e f h) = group_se_prio h" "rt_se_nr_running (upd_se e f h) = rt_se_nr_running h"
    "group_se_rr (upd_se e f h) = group_se_rr h" "rt_se_boosted (upd_se e f h) = rt_se_boosted h"
  using assms by (auto simp: fun_eq_iff upd_se_def group_se_prio_def rt_se_nr_running_def group_se_rr_def rt_se_boosted_def split: option.splits)

lemma worth_upd_gq:
  assumes "my_q h e \<noteq> Some q"
  shows "group_se_prio (upd_gq q f h) e = group_se_prio h e" "rt_se_nr_running (upd_gq q f h) e = rt_se_nr_running h e"
    "group_se_rr (upd_gq q f h) e = group_se_rr h e" "rt_se_boosted (upd_gq q f h) e = rt_se_boosted h e"
  using assms by (auto simp: upd_gq_def group_se_prio_def rt_se_nr_running_def group_se_rr_def rt_se_boosted_def split: option.splits)

lemma upd_fields [simp]:
  "h_se (upd_gq q f h) = h_se h" "h_q (upd_se e g h) = h_q h" "h_tg_se (upd_gq q f h) = h_tg_se h" "h_tg_se (upd_se e g h) = h_tg_se h"
  "h_se (upd_se e g h) = (h_se h)(e := g (h_se h e))" "h_q (upd_gq q f h) = (h_q h)(q := f (h_q h q))"
  "h_rq_nr_running (upd_gq q f h) = h_rq_nr_running h" "h_rq_nr_running (upd_se e g h) = h_rq_nr_running h"
  "h_fault (upd_gq q f h) = h_fault h" "h_fault (upd_se e g h) = h_fault h"
  "h_depth (upd_gq q f h) = h_depth h" "h_depth (upd_se e g h) = h_depth h"
  "h_prio (upd_gq q f h) = h_prio h" "h_prio (upd_se e g h) = h_prio h"
  "h_normal_prio (upd_gq q f h) = h_normal_prio h" "h_normal_prio (upd_se e g h) = h_normal_prio h"
  "h_policy (upd_gq q f h) = h_policy h" "h_policy (upd_se e g h) = h_policy h"
  "h_curr (upd_gq q f h) = h_curr h" "h_curr (upd_se e g h) = h_curr h"
  by (simp_all add: upd_gq_def upd_se_def)

lemma upd_upd:
  "upd_gq q f (upd_gq q g h) = upd_gq q (\<lambda>r. f (g r)) h" "upd_se e f' (upd_se e g' h) = upd_se e (\<lambda>r. f' (g' r)) h"
  "upd_gq q f (upd_se e g' h) = upd_se e g' (upd_gq q f h)"
  by (simp_all add: upd_gq_def upd_se_def)

lemma dequeue_entity_effect:
  assumes "my_q h e \<noteq> Some (rt_of h e)" "move_entity flags" "rt_index_ok (group_se_prio h e)"
  shows "group_dequeue_entity e flags h = upd_se e (\<lambda>x. x\<lparr>ge_on_list := False, ge_on_rq := False\<rparr>) (upd_gq (rt_of h e) (queue_without h e) h)"
  using assms
    by (cases "rt_se_boosted h e") (simp_all add: group_dequeue_entity_def group_delist_def group_dec_tasks_def dec_rt_group_def Let_def
      worth_upd_se worth_upd_gq upd_upd queue_without_def[abs_def] boost_one_def group_dec_prio_def cong: if_cong)

lemma enqueue_entity_effect:
  assumes "my_q h e \<noteq> Some (rt_of h e)" "move_entity flags" "rt_index_ok (group_se_prio h e)" "\<not> group_idle h e"
  shows "group_enqueue_entity e flags h = start_group_bandwidth (rt_of h e) (upd_se e (\<lambda>x. x\<lparr>ge_on_list := True, ge_on_rq := True\<rparr>)
    (upd_gq (rt_of h e) (queue_with h e (flag_set flags ENQUEUE_HEAD)) h))"
  using assms
  by (cases "rt_se_boosted h e") (simp_all add: group_enqueue_entity_def group_enlist_def group_inc_tasks_def inc_rt_group_def Let_def
      worth_upd_se worth_upd_gq upd_upd queue_with_def[abs_def] boost_one_def cong: if_cong)

lemma group_dec_prio_fields [simp]:
  "gr_active (group_dec_prio p r) = gr_active r" "gr_nr_running (group_dec_prio p r) = gr_nr_running r"
  "gr_rr_nr_running (group_dec_prio p r) = gr_rr_nr_running r" "gr_nr_boosted (group_dec_prio p r) = gr_nr_boosted r"
  "gr_queued (group_dec_prio p r) = gr_queued r" "gr_throttled (group_dec_prio p r) = gr_throttled r"
  by (simp_all add: group_dec_prio_def)

lemma start_bandwidth_fields [simp]:
  "h_se (start_group_bandwidth q h) = h_se h" "h_q (start_group_bandwidth q h) = h_q h" "h_tg_se (start_group_bandwidth q h) = h_tg_se h"
  "h_rq_nr_running (start_group_bandwidth q h) = h_rq_nr_running h" "h_fault (start_group_bandwidth q h) = h_fault h"
  "h_prio (start_group_bandwidth q h) = h_prio h" "h_normal_prio (start_group_bandwidth q h) = h_normal_prio h"
  "h_policy (start_group_bandwidth q h) = h_policy h" "h_depth (start_group_bandwidth q h) = h_depth h"
  "h_curr (start_group_bandwidth q h) = h_curr h"
  by (simp_all add: start_group_bandwidth_def)

lemma is_best_min:
  assumes "is_best f S m" "f e \<le> 100"
  shows "is_best f (insert e S) (if f e < m then f e else m)"
  using assms unfolding is_best_def by (cases "S = {}") force+

lemma is_best_other:
  assumes "is_best f S m" "e \<in> S" "f e \<noteq> m"
  shows "is_best f (S - {e}) m"
  using assms unfolding is_best_def by (metis Diff_iff empty_iff insert_Diff insert_iff)

text \<open>A queue is correct for given values of its entities.\<close>

lemma queue_ok_move:
  assumes q: "queue_ok h q" and w: "\<And>f. f \<in> on_q h q \<or> f = e \<Longrightarrow> same_worth h h' f" and e: "rt_of h e = q"
  shows "e \<in> on_q h q \<Longrightarrow> on_q h' q = on_q h q - {e} \<Longrightarrow> rt_se_nr_running h e \<noteq> 0 \<Longrightarrow> h_q h' q = queue_without h e (h_q h q)
      \<Longrightarrow> \<forall>f \<in> on_q h q. rt_se_nr_running h f \<noteq> 0 \<Longrightarrow> queue_ok h' q"
    and "e \<notin> on_q h q \<Longrightarrow> on_q h' q = insert e (on_q h q) \<Longrightarrow> rt_index_ok (group_se_prio h e) \<Longrightarrow> h_q h' q = queue_with h e head (h_q h q) \<Longrightarrow> queue_ok h' q"
proof -
  let ?S = "on_q h q" and ?r = "h_q h q"
  have lh: "levels_hold (gr_active ?r) (group_se_prio h) ?S" and fin: "finite ?S"
    and best: "is_best (group_se_prio h) ?S (gr_highest ?r)"
    and sums: "gr_nr_running ?r = (\<Sum>f \<in> ?S. rt_se_nr_running h f)" "gr_rr_nr_running ?r = (\<Sum>f \<in> ?S. group_se_rr h f)"
      "gr_nr_boosted ?r = (\<Sum>f \<in> ?S. boost_one h f)"
    using q levels_hold_set(2) by (auto simp: queue_ok_def)
  have cong: "levels_hold a (group_se_prio h') T = levels_hold a (group_se_prio h) T"
    "is_best (group_se_prio h') T m = is_best (group_se_prio h) T m"
    "(\<Sum>f \<in> T. rt_se_nr_running h' f) = (\<Sum>f \<in> T. rt_se_nr_running h f)"
    "(\<Sum>f \<in> T. group_se_rr h' f) = (\<Sum>f \<in> T. group_se_rr h f)" "(\<Sum>f \<in> T. boost_one h' f) = (\<Sum>f \<in> T. boost_one h f)"
    if T: "T \<subseteq> insert e ?S" for a m T
    using w T by (auto intro!: levels_hold_cong is_best_cong sum.cong simp: same_worth_def subset_iff)
  show "queue_ok h' q" if S: "on_q h' q = ?S - {e}" and r: "h_q h' q = queue_without h e ?r" and in_S: "e \<in> ?S"
    and n: "rt_se_nr_running h e \<noteq> 0" "\<forall>f \<in> ?S. rt_se_nr_running h f \<noteq> 0"
  proof -
    let ?a = "array_delist e (nat (group_se_prio h e)) (gr_active ?r)"
    have sub: "?S - {e} \<subseteq> insert e ?S" by blast
    note c = cong[OF sub]
    have lh': "levels_hold ?a (group_se_prio h) (?S - {e})" by (rule levels_hold_delist[OF lh in_S])
    have rem: "sum g ?S = g e + sum g (?S - {e})" for g :: "nat \<Rightarrow> nat" by (rule sum.remove[OF fin in_S])
    have none: "(\<forall>f \<in> ?S - {e}. rt_se_nr_running h f = 0) \<longleftrightarrow> ?S - {e} = {}" using n(2) by (metis DiffD1 all_not_in_conv)
    have nz: "gr_nr_running ?r - rt_se_nr_running h e = 0 \<longleftrightarrow> ?S - {e} = {}"
      unfolding none[symmetric] using fin by (simp add: sums rem)
    have "is_best (group_se_prio h) (?S - {e}) (gr_highest (queue_without h e ?r))"
    proof (cases "?S - {e} = {}")
      case True
      then have "gr_highest (queue_without h e ?r) = 100" using nz by (simp add: queue_without_def group_dec_prio_def MAX_RT_PRIO_def)
      then show ?thesis unfolding True by (simp add: is_best_def)
    next
      case False
      then have "gr_highest (queue_without h e ?r) = (if group_se_prio h e = gr_highest ?r then int (sched_find_first_bit (bitmap ?a)) else gr_highest ?r)"
        using nz by (simp add: queue_without_def group_dec_prio_def)
      then show ?thesis using is_best_other[OF best in_S] first_bit_best[OF lh'] by auto
    qed
    then show ?thesis using lh' unfolding queue_ok_def S r c by (simp add: queue_without_def sums rem)
  qed
  show "queue_ok h' q" if S: "on_q h' q = insert e ?S" and r: "h_q h' q = queue_with h e head ?r" and out: "e \<notin> ?S"
    and i: "rt_index_ok (group_se_prio h e)"
  proof -
    note c = cong[OF subset_refl]
    have "is_best (group_se_prio h) (insert e ?S) (gr_highest (queue_with h e head ?r))"
      using is_best_min[OF best, of e] i by (simp add: queue_with_def rt_index_ok_def MAX_RT_PRIO_def)
    then show ?thesis using levels_hold_add[OF lh out i, of head] fin out unfolding queue_ok_def S r c
      by (simp add: queue_with_def sums)
  qed
qed

lemma dequeue_entity_core:
  assumes lv: "levels lv h" and c: "core h" and on: "on_rq h e" and owner: "\<And>p. h_tg_se h (rt_of h e) = Some p \<Longrightarrow> \<not> on_rq h p"
    and m: "move_entity flags"
  defines "h' \<equiv> group_dequeue_entity e flags h"
  shows "core h'" "quiet h h'" "\<not> on_rq h' e" "f \<noteq> e \<Longrightarrow> h_se h' f = h_se h f" "x \<noteq> rt_of h e \<Longrightarrow> h_q h' x = h_q h x"
proof -
  note own = not_own[OF lv, of e]
  have in_S: "e \<in> on_q h (rt_of h e)" using on c by (simp add: on_q_def core_def)
  have ok: "queue_ok h (rt_of h e)" using c by (simp add: core_def)
  have i: "rt_index_ok (group_se_prio h e)" using ok in_S by (simp add: queue_ok_def levels_hold_def)
  note h' = dequeue_entity_effect[OF own m i, folded h'_def]
  have se: "h_se h' f = h_se h f" if "f \<noteq> e" for f using that by (simp add: h')
  have q: "h_q h' x = h_q h x" if "x \<noteq> rt_of h e" for x using that by (simp add: h')
  have sh: "same_shape h h'" by (simp add: h' same_shape_def queue_without_def)
  have w: "same_worth h h' f" if "f \<in> on_q h (rt_of h e) \<or> f = e" for f
    using that worth_off[OF _ sh q, of f] not_own[OF lv, of f] own by (auto simp: on_q_def)
  have S: "on_q h' (rt_of h e) = on_q h (rt_of h e) - {e}" by (auto simp: on_q_def h')
  have nz: "\<forall>f. on_rq h f \<longrightarrow> rt_se_nr_running h f \<noteq> 0" "\<And>f. ge_on_list (h_se h f) = on_rq h f" using c by (simp_all add: core_def)
  have "queue_ok h' (rt_of h e)"
    by (rule queue_ok_move(1)[OF ok w refl in_S S]) (use nz on in \<open>auto simp: h' on_q_def\<close>)
  then show "core h'" by (rule core_change[OF lv c sh q se owner, rotated -3]) (simp_all add: h')
  show "quiet h h'" using sh by (simp add: quiet_def h' queue_without_def)
  show "\<not> on_rq h' e" by (simp add: h')
  show "f \<noteq> e \<Longrightarrow> h_se h' f = h_se h f" by (rule se)
  show "x \<noteq> rt_of h e \<Longrightarrow> h_q h' x = h_q h x" by (rule q)
qed

lemma enqueue_entity_core:
  assumes lv: "levels lv h" and c: "core h" and off: "\<not> on_rq h e" and owner: "\<And>p. h_tg_se h (rt_of h e) = Some p \<Longrightarrow> \<not> on_rq h p"
    and m: "move_entity flags" and i: "rt_index_ok (group_se_prio h e)" and g: "\<not> group_idle h e"
  defines "h' \<equiv> group_enqueue_entity e flags h"
  shows "core h'" "quiet h h'" "on_rq h' e" "f \<noteq> e \<Longrightarrow> h_se h' f = h_se h f" "x \<noteq> rt_of h e \<Longrightarrow> h_q h' x = h_q h x"
proof -
  note own = not_own[OF lv, of e]
  have out: "e \<notin> on_q h (rt_of h e)" using off c by (simp add: on_q_def core_def)
  have ok: "queue_ok h (rt_of h e)" using c by (simp add: core_def)
  note h' = enqueue_entity_effect[OF own m i g, folded h'_def]
  have se: "h_se h' f = h_se h f" if "f \<noteq> e" for f using that by (simp add: h')
  have q: "h_q h' x = h_q h x" if "x \<noteq> rt_of h e" for x using that by (simp add: h')
  have sh: "same_shape h h'" by (simp add: h' same_shape_def queue_with_def)
  have w: "same_worth h h' f" if "f \<in> on_q h (rt_of h e) \<or> f = e" for f
    using that worth_off[OF _ sh q, of f] not_own[OF lv, of f] own by (auto simp: on_q_def)
  have S: "on_q h' (rt_of h e) = insert e (on_q h (rt_of h e))" by (auto simp: on_q_def h')
  have nz: "rt_se_nr_running h e \<noteq> 0" using g by (auto simp: group_idle_def rt_se_nr_running_def split: option.splits)
  have "queue_ok h' (rt_of h e)"
    by (rule queue_ok_move(2)[OF ok w refl out S i]) (simp_all add: h')
  then show "core h'" by (rule core_change[OF lv c sh q se owner, rotated -3]) (simp_all add: h' nz)
  show "quiet h h'" using sh by (simp add: quiet_def h' queue_with_def)
  show "on_rq h' e" by (simp add: h')
  show "f \<noteq> e \<Longrightarrow> h_se h' f = h_se h f" by (rule se)
  show "x \<noteq> rt_of h e \<Longrightarrow> h_q h' x = h_q h x" by (rule q)
qed

section \<open>The way up\<close>

fun upward :: "hier \<Rightarrow> nat list \<Rightarrow> bool" where
  "upward h [] = True"
| "upward h [e] = (h_tg_se h (rt_of h e) = None)"
| "upward h (e # p # es) = (h_tg_se h (rt_of h e) = Some p \<and> upward h (p # es))"

lemma upward_Cons: "upward h (e # es) \<longleftrightarrow> h_tg_se h (rt_of h e) = (case es of [] \<Rightarrow> None | p # _ \<Rightarrow> Some p) \<and> upward h es"
  by (cases es) simp_all

lemma upward_shape: "same_shape h h' \<Longrightarrow> upward h' es = upward h es"
  by (induction es) (simp_all add: upward_Cons same_shape_def)

lemma upward_chain:
  assumes "levels lv h"
  shows "lv (rt_of h e) \<le> n \<Longrightarrow> upward h (chain h n e) \<and> hd (chain h n e) = e \<and> chain h n e \<noteq> []"
proof (induction n arbitrary: e)
  case 0
  then show ?case using levelsD(5)[OF assms, of "rt_of h e"] by (cases "h_tg_se h (rt_of h e)") auto
next
  case (Suc n)
  note par = levelsD(2)[OF assms, of e]
  show ?case
  proof (cases "h_tg_se h (rt_of h e)")
    case None
    then show ?thesis using par by (simp add: upward_Cons)
  next
    case (Some p)
    then have "lv (rt_of h p) \<le> n" using levelsD(5)[OF assms Some] Suc.prems by simp
    note ih = Suc.IH[OF this]
    have "upward h (e # chain h n p)" unfolding upward_Cons using ih Some by (cases "chain h n p") auto
    then show ?thesis using par Some by simp
  qed
qed

lemma upward_se_chain:
  assumes "levels lv h"
  obtains es where "se_chain h e = e # es" "upward h (e # es)"
  using upward_chain[OF assms levelsD(6)[OF assms]] by (metis list.collapse)

lemma upward_unique: "upward h (e # es) \<Longrightarrow> upward h (e # es') \<Longrightarrow> es = es'"
proof (induction es arbitrary: e es')
  case Nil
  then show ?case by (auto simp: upward_Cons split: list.splits)
next
  case (Cons p es)
  then show ?case by (cases es') (auto simp: upward_Cons)
qed

lemma upward_lv:
  assumes "levels lv h"
  shows "upward h (e # es) \<Longrightarrow> x \<in> set es \<Longrightarrow> lv (rt_of h x) < lv (rt_of h e)"
proof (induction es arbitrary: e)
  case (Cons p es)
  have "lv (rt_of h e) = Suc (lv (rt_of h p))" using Cons.prems(1) levelsD(5)[OF assms] by simp
  then show ?case using Cons by (cases "x = p") force+
qed simp

lemma upward_distinct:
  assumes "levels lv h" "upward h (e # es)"
  shows "e \<notin> set es"
  using upward_lv[OF assms] by blast

lemma upward_last:
  assumes "levels lv h"
  shows "upward h es \<Longrightarrow> es \<noteq> [] \<Longrightarrow> rt_of h (last es) = 0"
proof (induction es)
  case (Cons e es)
  then show ?case using levelsD(4)[OF assms, of e] by (cases es) auto
qed simp

lemma upward_owner: "upward h es \<Longrightarrow> y \<in> set es \<Longrightarrow> h_tg_se h (rt_of h y) = Some x \<Longrightarrow> x \<in> set es"
proof (induction es)
  case (Cons e es)
  then show ?case by (cases es) (auto simp: upward_Cons)
qed simp

section \<open>The stack is taken off\<close>

lemma same_shape_levels_fields: "same_shape h h' \<Longrightarrow> h_tg_se h' = h_tg_se h \<and> rt_of h' e = rt_of h e \<and> my_q h' e = my_q h e \<and> h_depth h' = h_depth h"
  by (simp add: same_shape_def)

lemma quiet_shape: "quiet h h' \<Longrightarrow> same_shape h h'"
  by (simp add: quiet_def)

text \<open>All of \<open>es\<close> is off the queues in \<open>h'\<close>, and nothing else has changed since \<open>h\<close>.\<close>

definition taken_off :: "hier \<Rightarrow> nat list \<Rightarrow> hier \<Rightarrow> bool" where
  "taken_off h es h' \<longleftrightarrow> core h' \<and> quiet h h' \<and> (\<forall>x \<in> set es. \<not> on_rq h' x) \<and> (\<forall>x. x \<notin> set es \<longrightarrow> h_se h' x = h_se h x)
     \<and> (\<forall>q. q \<notin> rt_of h ` set es \<longrightarrow> h_q h' q = h_q h q)"

abbreviation take_off :: "u32 \<Rightarrow> nat \<Rightarrow> hier \<Rightarrow> hier" where
  "take_off flags \<equiv> \<lambda>x h. if on_rq h x then group_dequeue_entity x flags h else h"

lemma taken_off_step:
  assumes lv: "levels lv h" and up: "upward h (e # es)" and m: "move_entity flags" and t: "taken_off h es h1"
  shows "taken_off h (e # es) (take_off flags e h1)"
proof -
  have sh: "same_shape h h1" using t by (simp add: taken_off_def quiet_def)
  note f = same_shape_levels_fields[OF sh]
  have owner: "\<not> on_rq h1 p" if "h_tg_se h1 (rt_of h1 e) = Some p" for p
    using that t up f by (auto simp: taken_off_def upward_Cons split: list.splits)
  show ?thesis
  proof (cases "on_rq h1 e")
    case False
    then show ?thesis using t by (simp add: taken_off_def)
  next
    case True
    have c: "core h1" and q: "quiet h h1" using t by (simp_all add: taken_off_def)
    note d = dequeue_entity_core[OF levels_shape[OF lv sh] c True owner m]
    have e: "e \<notin> set es" by (rule upward_distinct[OF lv up])
    have "\<not> on_rq (group_dequeue_entity e flags h1) x" if "x \<in> set (e # es)" for x
      using that d(3) d(4)[of x] t e by (cases "x = e") (simp_all add: taken_off_def)
    moreover have "h_se (group_dequeue_entity e flags h1) x = h_se h x" if "x \<notin> set (e # es)" for x
      using that d(4)[of x] t by (simp add: taken_off_def)
    moreover have "h_q (group_dequeue_entity e flags h1) x = h_q h x" if "x \<notin> rt_of h ` set (e # es)" for x
      using that d(5)[of x] t f by (simp add: taken_off_def)
    ultimately show ?thesis using d(1) quiet_trans[OF q d(2)] True by (simp add: taken_off_def)
  qed
qed

lemma stack_off:
  assumes "levels lv h" "core h" "move_entity flags"
  shows "upward h es \<Longrightarrow> taken_off h es (fold (take_off flags) (rev es) h)"
proof (induction es)
  case Nil
  then show ?case using assms(2) by (simp add: taken_off_def)
next
  case (Cons e es)
  then have "taken_off h es (fold (take_off flags) (rev es) h)" by (simp add: upward_Cons)
  from taken_off_step[OF assms(1) Cons.prems assms(3) this] show ?case by simp
qed

lemma live_cong: "h_q h' q = h_q h q \<Longrightarrow> live h' q = live h q"
  by (simp add: live_def group_throttled_def)

lemma taken_off_groups:
  assumes lv: "levels lv h" and up: "upward h es" and t: "taken_off h es h'" and g: "groups_queued X h"
  shows "groups_queued (X \<union> set es) h'"
  unfolding groups_queued_def
proof (intro allI impI)
  fix e q assume my: "my_q h' e = Some q" and X: "e \<notin> X \<union> set es"
  have sh: "same_shape h h'" using t by (simp add: taken_off_def quiet_def)
  have my': "my_q h e = Some q" using my same_shape_levels_fields[OF sh] by simp
  then have "h_tg_se h q = Some e" using levelsD(1)[OF lv] by simp
  then have "q \<notin> rt_of h ` set es" using upward_owner[OF up] X by auto
  then have "h_q h' q = h_q h q" "h_se h' e = h_se h e" using t X by (simp_all add: taken_off_def)
  then show "on_rq h' e = live h' q" using g my' X live_cong[of h' q h] by (simp add: groups_queued_def)
qed

section \<open>The stack is put back\<close>

text \<open>Going up, an entity is put back unless it is a group that is not live, or the task that leaves.\<close>

definition put_back :: "bool \<Rightarrow> u32 \<Rightarrow> nat \<Rightarrow> hier \<Rightarrow> hier" where
  "put_back ins flags e h = (if (case my_q h e of None \<Rightarrow> ins | Some q \<Rightarrow> live h q) then group_enqueue_entity e flags h else h)"

lemma put_back_steps:
  assumes "core h" "\<not> on_rq h e"
  shows "group_enqueue_entity e flags h = put_back True flags e h" "group_requeue_up flags e h = put_back False flags e h"
  using assms
  by (auto simp: put_back_def group_requeue_up_def group_enqueue_entity_def group_idle_def live_def core_def split: option.splits)

lemma group_prio_ok:
  assumes "core h" "gr_nr_running (h_q h q) \<noteq> 0"
  shows "rt_index_ok (gr_highest (h_q h q))"
proof -
  have ok: "queue_ok h q" using assms(1) by (simp add: core_def)
  then have "on_q h q \<noteq> {}" using assms(2) by (auto simp: queue_ok_def)
  then obtain e where "e \<in> on_q h q" "group_se_prio h e = gr_highest (h_q h q)" using ok by (auto simp: queue_ok_def is_best_def)
  then show ?thesis using ok by (force simp: queue_ok_def levels_hold_def)
qed

text \<open>Half way up: \<open>es\<close> is still off.\<close>

definition half_way :: "hier \<Rightarrow> nat list \<Rightarrow> hier \<Rightarrow> bool" where
  "half_way h es h' \<longleftrightarrow> core h' \<and> quiet h h' \<and> (\<forall>x \<in> set es. \<not> on_rq h' x) \<and> groups_queued (set es) h'"

lemma put_back_step:
  assumes lv: "levels lv h" and up: "upward h (e # es)" and m: "move_entity flags" and t: "half_way h (e # es) h1"
    and p: "my_q h e = None \<Longrightarrow> rt_index_ok (h_prio h e)"
  shows "half_way h es (put_back ins flags e h1)"
    and "my_q h e = None \<Longrightarrow> on_rq (put_back ins flags e h1) e = ins"
    and "x \<noteq> e \<Longrightarrow> h_se (put_back ins flags e h1) x = h_se h1 x"
proof -
  have sh: "same_shape h h1" and c: "core h1" and off: "\<not> on_rq h1 e" and q: "quiet h h1" and gq: "groups_queued (set (e # es)) h1"
    using t by (simp_all add: half_way_def quiet_def)
  note f = same_shape_levels_fields[OF sh]
  have lv1: "levels lv h1" by (rule levels_shape[OF lv sh])
  have owner: "\<not> on_rq h1 x" if "h_tg_se h1 (rt_of h1 e) = Some x" for x
    using that t up f by (auto simp: half_way_def upward_Cons split: list.splits)
  have e: "e \<notin> set es" by (rule upward_distinct[OF lv up])
  have main: "half_way h es (put_back ins flags e h1) \<and> (my_q h e = None \<longrightarrow> on_rq (put_back ins flags e h1) e = ins)
    \<and> (\<forall>x. x \<noteq> e \<longrightarrow> h_se (put_back ins flags e h1) x = h_se h1 x)"
  proof (cases "case my_q h1 e of None \<Rightarrow> ins | Some q \<Rightarrow> live h1 q")
    case False
    then have h': "put_back ins flags e h1 = h1" by (simp add: put_back_def)
    have "\<not> live h1 g" if "my_q h1 e = Some g" for g using False that by simp
    then have "groups_queued (set es) h1" using gq off unfolding groups_queued_def by (metis set_ConsD)
    then show ?thesis using t False off f unfolding h' by (auto simp: half_way_def)
  next
    case True
    define h' where "h' = group_enqueue_entity e flags h1"
    have pb: "put_back ins flags e h1 = h'" using True by (simp add: put_back_def h'_def)
    have idle: "\<not> group_idle h1 e" using True by (auto simp: group_idle_def live_def split: option.splits)
    have i: "rt_index_ok (group_se_prio h1 e)"
      using True p f group_prio_ok[OF c] sh by (auto simp: group_se_prio_def live_def same_shape_def split: option.splits)
    have d: "core h'" "quiet h1 h'" "on_rq h' e" "\<And>x. x \<noteq> e \<Longrightarrow> h_se h' x = h_se h1 x" "\<And>x. x \<noteq> rt_of h1 e \<Longrightarrow> h_q h' x = h_q h1 x"
      using enqueue_entity_core[OF lv1 c off owner m i idle] by (simp_all add: h'_def)
    note f' = same_shape_levels_fields[OF quiet_shape[OF d(2)]]
    have "on_rq h' y = live h' g" if my: "my_q h' y = Some g" and y: "y \<notin> set es" for y g
    proof -
      have tg: "h_tg_se h1 g = Some y" using my f' levelsD(1)[OF lv1] by simp
      have "g \<noteq> rt_of h1 e"
      proof
        assume "g = rt_of h1 e"
        then have "h_tg_se h (rt_of h e) = Some y" using tg f by simp
        then show False using up y by (auto simp: upward_Cons split: list.splits)
      qed
      then have same: "h_q h' g = h_q h1 g" using d(5) by simp
      show ?thesis
      proof (cases "y = e")
        case True
        have "live h1 g" using \<open>case my_q h1 e of None \<Rightarrow> ins | Some q \<Rightarrow> live h1 q\<close> my f' True by simp
        then show ?thesis using True d(3) live_cong[OF same] by simp
      next
        case False
        then have "on_rq h1 y = live h1 g" using gq my f' y by (simp add: groups_queued_def)
        then show ?thesis using d(4)[OF False] live_cong[OF same] by simp
      qed
    qed
    then have "groups_queued (set es) h'" by (simp add: groups_queued_def)
    moreover have "\<not> on_rq h' x" if "x \<in> set es" for x using that e d(4)[of x] t by (cases "x = e") (simp_all add: half_way_def)
    ultimately have "half_way h es h'" using d(1) quiet_trans[OF q d(2)] by (simp add: half_way_def)
    moreover have "my_q h e = None \<longrightarrow> on_rq h' e = ins" using True f d(3) by auto
    ultimately show ?thesis unfolding pb using d(4) by blast
  qed
  then show "half_way h es (put_back ins flags e h1)" "my_q h e = None \<Longrightarrow> on_rq (put_back ins flags e h1) e = ins"
    "x \<noteq> e \<Longrightarrow> h_se (put_back ins flags e h1) x = h_se h1 x"
    by simp_all
qed

end
