(* ===== verification/Sched_Rt_Hier_Inv.thy ===== *)
theory Sched_Rt_Hier_Inv
  imports Sched_Rt_Hier_Queue Sched_Rt_Inv
begin

text \<open>
  Every operation on the hierarchy keeps it good: tasks that come and go, throttling and the period timer, requeueing,
  new groups, and changes of a task that is not queued.
\<close>

lemma upward_groups:
  assumes "levels lv h"
  shows "upward h (e # es) \<Longrightarrow> x \<in> set es \<Longrightarrow> my_q h x \<noteq> None"
proof (induction es arbitrary: e)
  case (Cons p es)
  then have "my_q h p = Some (rt_of h e)" using levelsD(1)[OF assms] by simp
  then show ?case using Cons by (cases "x = p") auto
qed simp

lemma put_back_fold:
  assumes lv: "levels lv h" and m: "move_entity flags"
  shows "upward h es \<Longrightarrow> half_way h es h1 \<Longrightarrow> (\<And>x. x \<in> set es \<Longrightarrow> my_q h x = None \<Longrightarrow> rt_index_ok (h_prio h x))
    \<Longrightarrow> half_way h [] (fold (put_back ins flags) es h1)
      \<and> (\<forall>x. x \<notin> set es \<longrightarrow> h_se (fold (put_back ins flags) es h1) x = h_se h1 x)
      \<and> (\<forall>x \<in> set es. my_q h x = None \<longrightarrow> on_rq (fold (put_back ins flags) es h1) x = ins)"
proof (induction es arbitrary: h1)
  case (Cons e es)
  note s = put_back_step[OF lv Cons.prems(1) m Cons.prems(2) Cons.prems(3)[of e, simplified], where ins = ins]
  define h2 where "h2 = put_back ins flags e h1"
  have up: "upward h es" using Cons.prems(1) by (simp add: upward_Cons)
  have ih: "half_way h [] (fold (put_back ins flags) es h2)"
    "\<And>x. x \<notin> set es \<Longrightarrow> h_se (fold (put_back ins flags) es h2) x = h_se h2 x"
    "\<And>x. x \<in> set es \<Longrightarrow> my_q h x = None \<Longrightarrow> on_rq (fold (put_back ins flags) es h2) x = ins"
    using Cons.IH[OF up, of h2] s(1) Cons.prems(3) by (simp_all add: h2_def)
  have e: "e \<notin> set es" by (rule upward_distinct[OF lv Cons.prems(1)])
  show ?case using ih s(2,3) e by (simp add: h2_def[symmetric])
qed simp

lemma put_back_same:
  assumes lv: "levels lv h" and m: "move_entity flags"
  shows "upward h es \<Longrightarrow> half_way h es h1 \<Longrightarrow> (\<And>x. x \<in> set es \<Longrightarrow> my_q h x = None \<Longrightarrow> rt_index_ok (h_prio h x))
    \<Longrightarrow> fold (\<lambda>x. group_enqueue_entity x flags) es h1 = fold (put_back True flags) es h1
      \<and> fold (group_requeue_up flags) es h1 = fold (put_back False flags) es h1"
proof (induction es arbitrary: h1)
  case (Cons e es)
  have up: "upward h es" using Cons.prems(1) by (simp add: upward_Cons)
  have "core h1" "\<not> on_rq h1 e" using Cons.prems(2) by (simp_all add: half_way_def)
  note st = put_back_steps[OF this, of flags]
  have "half_way h es (put_back ins flags e h1)" for ins
    by (rule put_back_step(1)[OF lv Cons.prems(1) m Cons.prems(2)]) (use Cons.prems(3) in simp)
  then show ?case using Cons.IH[OF up _ Cons.prems(3)] by (simp add: st)
qed simp

section \<open>The root\<close>

definition top_weak :: "nat \<Rightarrow> hier \<Rightarrow> bool" where
  "top_weak n h \<longleftrightarrow> (gr_queued (h_q h 0) \<longrightarrow> gr_nr_running (h_q h 0) \<noteq> 0)
     \<and> h_rq_nr_running h = n + (if gr_queued (h_q h 0) then gr_nr_running (h_q h 0) else 0)"

definition top_ok :: "nat \<Rightarrow> hier \<Rightarrow> bool" where
  "top_ok n h \<longleftrightarrow> gr_queued (h_q h 0) = live h 0 \<and> h_rq_nr_running h = n + (if gr_queued (h_q h 0) then gr_nr_running (h_q h 0) else 0)"

definition top_off :: "nat \<Rightarrow> hier \<Rightarrow> bool" where
  "top_off n h \<longleftrightarrow> \<not> gr_queued (h_q h 0) \<and> h_rq_nr_running h = n"

lemma top_ok_weak: "top_ok n h \<Longrightarrow> top_weak n h"
  by (auto simp: top_ok_def top_weak_def live_def)

text \<open>Two states with the same entities and queues, but for the flag of the root queue and the times of the bandwidth.\<close>

definition same_sums :: "hier \<Rightarrow> hier \<Rightarrow> bool" where
  "same_sums h h' \<longleftrightarrow> same_shape h h' \<and> h_se h' = h_se h \<and> h_fault h' = h_fault h
     \<and> (\<forall>q. gr_active (h_q h' q) = gr_active (h_q h q) \<and> gr_nr_running (h_q h' q) = gr_nr_running (h_q h q)
          \<and> gr_rr_nr_running (h_q h' q) = gr_rr_nr_running (h_q h q) \<and> gr_highest (h_q h' q) = gr_highest (h_q h q)
          \<and> gr_nr_boosted (h_q h' q) = gr_nr_boosted (h_q h q))"

definition same_load :: "hier \<Rightarrow> hier \<Rightarrow> bool" where
  "same_load h h' \<longleftrightarrow> same_sums h h' \<and> (\<forall>q. gr_throttled (h_q h' q) = gr_throttled (h_q h q))"

lemma same_sumsD:
  assumes "same_sums h h'"
  shows "same_shape h h'" "h_se h' = h_se h" "h_fault h' = h_fault h" "core h' = core h"
    "gr_nr_running (h_q h' q) = gr_nr_running (h_q h q)" "gr_nr_boosted (h_q h' q) = gr_nr_boosted (h_q h q)"
proof -
  show sh: "same_shape h h'" and se: "h_se h' = h_se h" and "h_fault h' = h_fault h" using assms by (simp_all add: same_sums_def)
  have q: "gr_active (h_q h' q) = gr_active (h_q h q)" "gr_nr_running (h_q h' q) = gr_nr_running (h_q h q)"
    "gr_rr_nr_running (h_q h' q) = gr_rr_nr_running (h_q h q)" "gr_highest (h_q h' q) = gr_highest (h_q h q)"
    "gr_nr_boosted (h_q h' q) = gr_nr_boosted (h_q h q)" for q
    using assms by (simp_all add: same_sums_def)
  have w: "group_se_prio h' = group_se_prio h" "rt_se_nr_running h' = rt_se_nr_running h" "group_se_rr h' = group_se_rr h" "boost_one h' = boost_one h"
    "on_q h' = on_q h"
    using sh q by (auto simp: fun_eq_iff same_shape_def se on_q_def group_se_prio_def rt_se_nr_running_def group_se_rr_def boost_one_def
        rt_se_boosted_def split: option.splits)
  show "core h' = core h" by (simp add: core_def queue_ok_def[abs_def] w se q)
  show "gr_nr_running (h_q h' q) = gr_nr_running (h_q h q)" "gr_nr_boosted (h_q h' q) = gr_nr_boosted (h_q h q)" by (rule q)+
qed

lemma same_loadD:
  assumes "same_load h h'"
  shows "same_shape h h'" "h_se h' = h_se h" "h_fault h' = h_fault h" "core h' = core h" "groups_queued X h' = groups_queued X h"
    "live h' = live h" "gr_nr_running (h_q h' q) = gr_nr_running (h_q h q)"
proof -
  have c: "same_sums h h'" using assms by (simp add: same_load_def)
  note d = same_sumsD[OF c]
  show "same_shape h h'" "h_se h' = h_se h" "h_fault h' = h_fault h" "core h' = core h" "gr_nr_running (h_q h' q) = gr_nr_running (h_q h q)"
    by (rule d)+
  show l: "live h' = live h" using assms by (simp add: fun_eq_iff live_def group_throttled_def d same_load_def)
  show "groups_queued X h' = groups_queued X h" by (simp add: groups_queued_def l d)
qed

lemmas same_load_defs = same_load_def same_sums_def same_shape_def

lemma root_dequeue_effect:
  assumes "top_weak n h"
  shows "top_off n (dequeue_top_group 0 h)" "same_load h (dequeue_top_group 0 h)"
  using assms by (auto simp: top_weak_def dequeue_top_group_def top_off_def same_load_defs)

lemma root_enqueue_effect:
  assumes "top_off n h"
  shows "top_ok n (enqueue_top_group h)" "same_load h (enqueue_top_group h)"
  using assms by (auto simp: top_off_def enqueue_top_group_def top_ok_def same_load_defs live_def group_throttled_def)

section \<open>Tasks come and go\<close>

definition restack :: "bool \<Rightarrow> u32 \<Rightarrow> nat \<Rightarrow> hier \<Rightarrow> hier" where
  "restack ins flags e h = enqueue_top_group (fold (put_back ins flags) (se_chain h e) (group_dequeue_stack e flags h))"

lemma restack_effect:
  assumes lv: "levels lv h" and c: "core h" and g: "groups_queued X h" and X: "X \<subseteq> set (se_chain h e)" and t: "top_weak n h"
    and m: "move_entity flags" and p: "my_q h e = None \<longrightarrow> rt_index_ok (h_prio h e)"
  shows "group_enqueue e flags h = restack True flags e h" "group_dequeue e flags h = restack False flags e h"
    "same_shape h (restack ins flags e h)" "core (restack ins flags e h)" "groups_queued {} (restack ins flags e h)" "top_ok n (restack ins flags e h)"
    "h_fault (restack ins flags e h) = h_fault h" "my_q h e = None \<Longrightarrow> on_rq (restack ins flags e h) e = ins"
    "my_q h x = None \<Longrightarrow> x \<noteq> e \<Longrightarrow> on_rq (restack ins flags e h) x = on_rq h x"
proof -
  obtain es where ch: "se_chain h e = e # es" and up: "upward h (e # es)" by (rule upward_se_chain[OF lv])
  define h1 where "h1 = dequeue_top_group 0 h"
  note top = root_dequeue_effect[OF t, folded h1_def]
  note l1 = same_loadD[OF top(2)]
  have lv1: "levels lv h1" by (rule levels_shape[OF lv l1(1)])
  have up1: "upward h1 (e # es)" using up upward_shape[OF l1(1)] by simp
  define h2 where "h2 = fold (take_off flags) (rev (e # es)) h1"
  have h2: "group_dequeue_stack e flags h = h2"
    using upward_last[OF lv up] by (simp add: group_dequeue_stack_def ch h1_def h2_def)
  have off: "taken_off h1 (e # es) h2" unfolding h2_def by (rule stack_off[OF lv1 _ m up1]) (simp add: l1 c)
  have "groups_queued (X \<union> set (e # es)) h2" by (rule taken_off_groups[OF lv1 up1 off]) (simp add: l1 g)
  moreover have "X \<union> set (e # es) = set (e # es)" using X unfolding ch by blast
  ultimately have gq: "groups_queued (set (e # es)) h2" by (simp only:)
  have half: "half_way h1 (e # es) h2" using off gq by (simp add: half_way_def taken_off_def)
  have pr: "rt_index_ok (h_prio h1 x)" if "x \<in> set (e # es)" "my_q h1 x = None" for x
    using that p upward_groups[OF lv1 up1, of x] l1(1,2) by (cases "x = e") (auto simp: same_shape_def)
  note same = put_back_same[OF lv1 m up1 half pr]
  show "group_enqueue e flags h = restack True flags e h" "group_dequeue e flags h = restack False flags e h"
    using same unfolding group_enqueue_def group_dequeue_def restack_def h2 ch by simp_all
  define h3 where "h3 = fold (put_back ins flags) (e # es) h2"
  have h3: "half_way h1 [] h3" "\<And>x. x \<notin> set (e # es) \<Longrightarrow> h_se h3 x = h_se h2 x" "my_q h1 e = None \<Longrightarrow> on_rq h3 e = ins"
    using put_back_fold[OF lv1 m up1 half pr, of ins] by (simp_all add: h3_def)
  have res: "restack ins flags e h = enqueue_top_group h3" unfolding restack_def h2 ch h3_def ..
  have q3: "quiet h1 h3" "core h3" "groups_queued {} h3" using h3(1) by (simp_all add: half_way_def)
  have "top_off n h3" using top(1) q3(1) by (simp add: top_off_def quiet_def)
  note top' = root_enqueue_effect[OF this, folded res]
  note l3 = same_loadD[OF top'(2)]
  show "top_ok n (restack ins flags e h)" by (rule top')
  show "same_shape h (restack ins flags e h)" using l1(1) l3(1) quiet_shape[OF q3(1)] same_shape_trans by blast
  show "core (restack ins flags e h)" "groups_queued {} (restack ins flags e h)" using q3 l3 by simp_all
  show "h_fault (restack ins flags e h) = h_fault h" using l1 l3 q3(1) by (simp add: quiet_def)
  show "my_q h e = None \<Longrightarrow> on_rq (restack ins flags e h) e = ins" using h3(3) l1 l3 by simp
  show "on_rq (restack ins flags e h) x = on_rq h x" if "my_q h x = None" "x \<noteq> e"
  proof -
    have "x \<notin> set (e # es)" using that upward_groups[OF lv up, of x] by auto
    then show ?thesis using h3(2) off l1 l3 by (simp add: taken_off_def)
  qed
qed

section \<open>A good hierarchy\<close>

text \<open>\<open>n\<close> is the number of tasks of other classes that \<open>rq->nr_running\<close> counts, \<open>T\<close> the set of the tasks that are queued.\<close>

definition queued_tasks :: "hier \<Rightarrow> nat set" where
  "queued_tasks h = {p. my_q h p = None \<and> on_rq h p}"

definition hier_good :: "nat \<Rightarrow> nat set \<Rightarrow> hier \<Rightarrow> bool" where
  "hier_good n T h \<longleftrightarrow> (\<exists>lv. levels lv h) \<and> core h \<and> groups_queued {} h \<and> top_ok n h \<and> h_fault h = None \<and> queued_tasks h = T"

definition same_top :: "hier \<Rightarrow> hier \<Rightarrow> bool" where
  "same_top h h' \<longleftrightarrow> gr_queued (h_q h' 0) = gr_queued (h_q h 0) \<and> h_rq_nr_running h' = h_rq_nr_running h"

lemma good_load:
  assumes "hier_good n T h" "same_load h h'" "same_top h h'"
  shows "hier_good n T h'"
  using assms same_loadD[OF assms(2)] levels_shape[OF _ same_loadD(1)[OF assms(2)]]
  by (auto simp: hier_good_def top_ok_def same_top_def queued_tasks_def)

lemma restack_good:
  assumes lv: "levels lv h" and c: "core h" and g: "groups_queued X h" and X: "X \<subseteq> set (se_chain h e)" and t: "top_weak n h"
    and f: "h_fault h = None" and m: "move_entity flags" and p: "my_q h e = None \<longrightarrow> rt_index_ok (h_prio h e)"
  shows "hier_good n (if my_q h e = None then insert e (queued_tasks h) else queued_tasks h) (group_enqueue e flags h)"
    "hier_good n (queued_tasks h - {e}) (group_dequeue e flags h)"
proof -
  note r = restack_effect[OF lv c g X t m p]
  have q: "queued_tasks (restack ins flags e h) = (if my_q h e = None \<and> ins then insert e (queued_tasks h) else queued_tasks h - {e})" for ins
  proof -
    have "my_q (restack ins flags e h) x = my_q h x" for x using r(3)[of ins] by (simp add: same_shape_def)
    moreover have "(my_q h x = None \<and> on_rq (restack ins flags e h) x) = (my_q h x = None \<and> (if x = e then ins else on_rq h x))" for x
      using r(8)[of ins] r(9)[of x ins] by (cases "x = e") auto
    ultimately show ?thesis by (auto simp: queued_tasks_def)
  qed
  have "hier_good n (queued_tasks (restack ins flags e h)) (restack ins flags e h)" for ins
    unfolding hier_good_def using r(4-7) f levels_shape[OF lv r(3)[of ins]] by auto
  from this[of True] this[of False]
  show "hier_good n (if my_q h e = None then insert e (queued_tasks h) else queued_tasks h) (group_enqueue e flags h)"
    "hier_good n (queued_tasks h - {e}) (group_dequeue e flags h)"
    unfolding r(1,2) q by (auto simp: queued_tasks_def)
qed

lemma good_restack:
  assumes "hier_good n T h" "move_entity flags" "my_q h e = None" "rt_index_ok (h_prio h e)"
  shows "hier_good n (insert e T) (group_enqueue e flags h)" "hier_good n (T - {e}) (group_dequeue e flags h)"
proof -
  obtain lv where lv: "levels lv h" and c: "core h" and g: "groups_queued {} h" and t: "top_ok n h" and f: "h_fault h = None"
    and T: "queued_tasks h = T"
    using assms(1) by (auto simp: hier_good_def)
  show "hier_good n (insert e T) (group_enqueue e flags h)" "hier_good n (T - {e}) (group_dequeue e flags h)"
    using restack_good[OF lv c g empty_subsetI top_ok_weak[OF t] f assms(2), of e] assms(3,4) T by simp_all
qed

text \<open>The flag of one queue changes, and the group it belongs to is put where it now has to be.\<close>

abbreviation set_throttled :: "bool \<Rightarrow> nat \<Rightarrow> hier \<Rightarrow> hier" where
  "set_throttled b q h \<equiv> upd_gq q (\<lambda>r. r\<lparr>gr_throttled := b\<rparr>) h"

lemma throttled_counts: "same_sums h (set_throttled b q h)"
  by (simp add: same_sums_def same_shape_def)

lemma throttled_groups:
  assumes "levels lv h" "groups_queued {} h"
  shows "h_tg_se h q = Some e \<Longrightarrow> groups_queued {e} (set_throttled b q h)" "h_tg_se h q = None \<Longrightarrow> groups_queued {} (set_throttled b q h)"
  using assms levelsD(1)[OF assms(1)]
  by (auto simp: groups_queued_def live_def group_throttled_def)

lemma throttled_top: "top_ok n h \<Longrightarrow> q \<noteq> 0 \<Longrightarrow> top_ok n (set_throttled b q h)"
  by (simp add: top_ok_def live_def group_throttled_def)

lemma zero_move [simp]: "move_entity 0"
  by (simp add: move_entity_def DEQUEUE_SAVE_def)

lemma chain_head: "e \<in> set (chain h n e)"
  by (cases n) simp_all

lemma my_q_owner: "levels lv h \<Longrightarrow> h_tg_se h q = Some e \<Longrightarrow> my_q h e = Some q"
  using levelsD(1) by blast

lemma restack_group:
  assumes "levels lv h" "core h" "groups_queued {e} h" "top_ok n h" "h_fault h = None" "my_q h e = Some q"
  shows "hier_good n (queued_tasks h) (group_enqueue e 0 h)" "hier_good n (queued_tasks h) (group_dequeue e 0 h)"
proof -
  have "{e} \<subseteq> set (se_chain h e)" using chain_head by simp
  note r = restack_good[OF assms(1-3) this top_ok_weak[OF assms(4)] assms(5) zero_move]
  have "queued_tasks h - {e} = queued_tasks h" using assms(6) by (auto simp: queued_tasks_def)
  then show "hier_good n (queued_tasks h) (group_enqueue e 0 h)" "hier_good n (queued_tasks h) (group_dequeue e 0 h)"
    using r assms(6) by simp_all
qed

lemma good_throttle:
  assumes good: "hier_good n T h" and q: "q = 0 \<or> h_tg_se h q \<noteq> None" and th: "group_throttled (set_throttled True q h) q"
  shows "hier_good n T (group_rq_dequeue q (set_throttled True q h))"
proof -
  obtain lv where lv: "levels lv h" and c: "core h" and g: "groups_queued {} h" and t: "top_ok n h" and f: "h_fault h = None"
    and T: "queued_tasks h = T" using good by (auto simp: hier_good_def)
  define h1 where "h1 = set_throttled True q h"
  note d = same_sumsD[OF throttled_counts[where h = h and b = True and q = q], folded h1_def]
  have T1: "queued_tasks h1 = T" using T d(2) by (simp add: queued_tasks_def)
  have lv1: "levels lv h1" by (rule levels_shape[OF lv d(1)])
  have tg: "h_tg_se h1 = h_tg_se h" by (simp add: h1_def)
  show ?thesis
  proof (cases "h_tg_se h q")
    case None
    then have q0: "q = 0" using q by simp
    have "top_weak n h1" using top_ok_weak[OF t] by (simp add: top_weak_def h1_def q0)
    note e = root_dequeue_effect[OF this]
    note l = same_loadD[OF e(2)]
    have "\<not> live h1 0" using th by (simp add: live_def h1_def q0)
    then have "top_ok n (dequeue_top_group 0 h1)" using e(1) l by (simp add: top_off_def top_ok_def)
    moreover have "groups_queued {} h1" using throttled_groups(2)[OF lv g] None by (simp add: h1_def)
    ultimately show ?thesis using None d f l c T1 levels_shape[OF lv1 l(1)]
      by (auto simp: hier_good_def queued_tasks_def group_rq_dequeue_def q0 h1_def[symmetric, unfolded q0] tg)
  next
    case (Some e)
    have q0: "q \<noteq> 0" using Some levelsD(3)[OF lv] by (metis option.distinct(1))
    have gr: "groups_queued {e} h1" using throttled_groups(1)[OF lv g Some] by (simp add: h1_def)
    have t1: "top_ok n h1" using throttled_top[OF t q0] by (simp add: h1_def)
    have my: "my_q h1 e = Some q" using my_q_owner[OF lv Some] d by simp
    show ?thesis
    proof (cases "on_rq h1 e")
      case True
      have "hier_good n T (group_dequeue e 0 h1)" using restack_group(2)[OF lv1 _ gr t1 _ my] c d f T1 by simp
      then show ?thesis using True Some by (simp add: group_rq_dequeue_def h1_def[symmetric] tg)
    next
      case False
      have "\<not> live h1 q" using th by (simp add: live_def h1_def)
      then have "groups_queued {} h1" using gr False my unfolding groups_queued_def by (metis empty_iff option.inject singletonD)
      then show ?thesis using False Some t1 lv1 c d f T1 by (auto simp: group_rq_dequeue_def hier_good_def h1_def[symmetric] tg)
    qed
  qed
qed

lemma good_unthrottle:
  assumes good: "hier_good n T h" and q: "q = 0 \<or> h_tg_se h q \<noteq> None"
  shows "hier_good n T (group_rq_enqueue q (set_throttled False q h))"
proof -
  obtain lv where lv: "levels lv h" and c: "core h" and g: "groups_queued {} h" and t: "top_ok n h" and f: "h_fault h = None"
    and T: "queued_tasks h = T" using good by (auto simp: hier_good_def)
  define h1 where "h1 = set_throttled False q h"
  note d = same_sumsD[OF throttled_counts[where h = h and b = False and q = q], folded h1_def]
  have T1: "queued_tasks h1 = T" using T d(2) by (simp add: queued_tasks_def)
  have lv1: "levels lv h1" by (rule levels_shape[OF lv d(1)])
  have tg: "h_tg_se h1 = h_tg_se h" by (simp add: h1_def)
  have live: "live h1 q = (gr_nr_running (h_q h1 q) \<noteq> 0)" by (simp add: live_def group_throttled_def h1_def)
  have live0: "live h q \<Longrightarrow> live h1 q" by (simp add: live_def group_throttled_def h1_def)
  have resched: "hier_good n T h2 \<Longrightarrow> hier_good n T (if b then h2\<lparr>h_resched := True\<rparr> else h2)" for h2 b
    by (auto intro: good_load[of n T h2] simp: same_load_defs same_top_def)
  show ?thesis
  proof (cases "h_tg_se h q")
    case None
    then have q0: "q = 0" using q by simp
    have gq: "groups_queued {} h1" using throttled_groups(2)[OF lv g] None by (simp add: h1_def)
    show ?thesis
    proof (cases "gr_queued (h_q h 0) \<or> \<not> live h1 0")
      case True
      then have "top_ok n h1" using t live0 live by (auto simp: top_ok_def q0 h1_def live_def)
      then have good1: "hier_good n T h1" using lv1 c d f gq T1 by (auto simp: hier_good_def)
      have "enqueue_top_group h1 = h1 \<or> gr_nr_running (h_q h1 0) = 0" using True live q0 by (auto simp: enqueue_top_group_def h1_def)
      then show ?thesis using good1 resched[OF good1, of True] None by (auto simp: group_rq_enqueue_def q0 h1_def[symmetric, unfolded q0] tg Let_def)
    next
      case False
      then have "top_off n h1" using t by (simp add: top_off_def top_ok_def h1_def q0)
      note e = root_enqueue_effect[OF this]
      note l = same_loadD[OF e(2)]
      have "hier_good n T (enqueue_top_group h1)" using e(1) l c d f gq T1 levels_shape[OF lv1 l(1)] by (auto simp: hier_good_def queued_tasks_def)
      then show ?thesis using resched False live None by (simp add: group_rq_enqueue_def q0 h1_def[symmetric, unfolded q0] tg Let_def)
    qed
  next
    case (Some e)
    have q0: "q \<noteq> 0" using Some levelsD(3)[OF lv] by (metis option.distinct(1))
    have gr: "groups_queued {e} h1" using throttled_groups(1)[OF lv g Some] by (simp add: h1_def)
    have t1: "top_ok n h1" using throttled_top[OF t q0] by (simp add: h1_def)
    have my: "my_q h1 e = Some q" using my_q_owner[OF lv Some] d by simp
    have good1: "hier_good n T h1" if "on_rq h1 e = live h1 q"
    proof -
      have "groups_queued {} h1" using gr that my unfolding groups_queued_def by (metis option.inject singletonD)
      then show ?thesis using t1 lv1 c d f T1 by (auto simp: hier_good_def)
    qed
    have onl: "on_rq h1 e \<Longrightarrow> live h1 q" using g live0 my d by (simp add: groups_queued_def)
    have "hier_good n T (group_enqueue e 0 h1)" using restack_group(1)[OF lv1 _ gr t1 _ my] c d f T1 by simp
    then have "hier_good n T (if \<not> on_rq h1 e then group_enqueue e 0 h1 else h1)" using good1 onl by auto
    moreover have "hier_good n T h1" if "gr_nr_running (h_q h1 q) = 0" using good1 onl that live by auto
    ultimately show ?thesis using resched Some by (simp add: group_rq_enqueue_def h1_def[symmetric] tg Let_def)
  qed
qed

section \<open>Accounting and the period timer\<close>

lemma good_runtime: "hier_good n T h \<Longrightarrow> hier_good n T (upd_gq q (\<lambda>r. r\<lparr>gr_runtime := f r\<rparr>) h)"
  by (erule good_load) (simp_all add: same_load_defs same_top_def)

lemma good_balance: "hier_good n T h \<Longrightarrow> hier_good n T (group_balance share lent q h)"
  by (simp add: group_balance_def good_runtime)

lemma balance_fields [simp]:
  "h_tg_se (group_balance share lent q h) = h_tg_se h" "gr_throttled (h_q (group_balance share lent q h) x) = gr_throttled (h_q h x)"
  by (simp_all add: group_balance_def)

lemma good_time: "hier_good n T h \<Longrightarrow> hier_good n T (upd_gq q (\<lambda>r. r\<lparr>gr_time := f r\<rparr>) h)"
  by (erule good_load) (simp_all add: same_load_defs same_top_def)

lemma good_resched: "hier_good n T h \<Longrightarrow> hier_good n T (h\<lparr>h_resched := b\<rparr>)"
  by (erule good_load) (simp_all add: same_load_defs same_top_def)

lemma good_boosted_throttle:
  assumes "hier_good n T h" "\<not> group_throttled (set_throttled True q h) q"
  shows "hier_good n T (set_throttled True q h)"
proof -
  note c = throttled_counts[where h = h and b = True and q = q]
  note d = same_sumsD[OF c]
  have l: "live (set_throttled True q h) = live h"
    using assms(2) by (auto simp: fun_eq_iff live_def group_throttled_def)
  show ?thesis using assms(1) d(1,2,3,4) levels_shape[OF _ d(1)]
    by (auto simp: hier_good_def top_ok_def l groups_queued_def queued_tasks_def)
qed

lemma good_exceeded:
  assumes g: "hier_good n T h" and q: "q = 0 \<or> h_tg_se h q \<noteq> None"
  shows "hier_good n T (snd (group_runtime_exceeded share lent q h))"
proof -
  define h1 where "h1 = group_balance share lent q h"
  have g1: "hier_good n T h1" using good_balance[OF g] by (simp add: h1_def)
  have q1: "q = 0 \<or> h_tg_se h1 q \<noteq> None" using q by (simp add: h1_def)
  have "gr_throttled (h_q h1 q) = gr_throttled (h_q h q)" by (simp add: h1_def)
  then show ?thesis
    using g g1 good_throttle[OF g1 q1] good_boosted_throttle[OF g1, of q] good_time[OF g1, of q "\<lambda>_. 0"]
    by (auto simp: group_runtime_exceeded_def h1_def[symmetric] Let_def group_throttled_def)
qed

lemma good_queue:
  assumes "hier_good n T h"
  shows "rt_of h e = 0 \<or> h_tg_se h (rt_of h e) \<noteq> None"
  using assms levelsD(4)[of _ h e] by (auto simp: hier_good_def)

lemma good_account:
  assumes g: "hier_good n T h"
  shows "hier_good n T (account_one share lent delta e h)"
proof -
  define h1 where "h1 = upd_gq (rt_of h e) (\<lambda>r. r\<lparr>gr_time := gr_time r + delta\<rparr>) h"
  have g1: "hier_good n T h1" unfolding h1_def by (rule good_time[OF g])
  have "rt_of h e = 0 \<or> h_tg_se h1 (rt_of h e) \<noteq> None" using good_queue[OF g, of e] by (simp add: h1_def)
  from good_exceeded[OF g1 this] have g2: "hier_good n T (snd (group_runtime_exceeded share lent (rt_of h e) h1))" .
  show ?thesis using g g2 good_resched[OF g2, of True] by (auto simp: account_one_def Let_def h1_def split: prod.splits)
qed

lemma good_update_curr:
  assumes "hier_good n T h"
  shows "hier_good n T (group_update_curr share lent delta h)"
proof -
  have "hier_good n T h \<Longrightarrow> hier_good n T (fold (account_one share lent delta) es h)" for es h
    by (induction es arbitrary: h) (simp_all add: good_account)
  then show ?thesis using assms by (simp add: group_update_curr_def)
qed

lemma good_rq_enqueue:
  assumes g: "hier_good n T h" and q: "q = 0 \<or> h_tg_se h q \<noteq> None" and t: "\<not> group_throttled h q"
  shows "hier_good n T (group_rq_enqueue q h)"
proof (cases "gr_nr_running (h_q h q) = 0")
  case True
  then show ?thesis using g by (simp add: group_rq_enqueue_def)
next
  case False
  then have l: "live h q" using t by (simp add: live_def)
  obtain lv where lv: "levels lv h" using g by (auto simp: hier_good_def)
  have "on_rq h e" if "h_tg_se h q = Some e" for e
    using my_q_owner[OF lv that] g l by (simp add: hier_good_def groups_queued_def)
  moreover have "enqueue_top_group h = h" if "q = 0" using g l that by (simp add: hier_good_def top_ok_def enqueue_top_group_def)
  ultimately show ?thesis using g q False good_resched[OF g, of True] by (auto simp: group_rq_enqueue_def Let_def split: option.splits)
qed

lemma good_period_timer:
  assumes g: "hier_good n T h" and q: "q = 0 \<or> h_tg_se h q \<noteq> None"
  shows "hier_good n T (group_period_timer share lent overrun q h)"
proof -
  define h0 where "h0 = (if \<not> share \<and> gr_runtime (h_q h q) \<noteq> RUNTIME_INF
               then upd_gq q (\<lambda>r. r\<lparr>gr_runtime := rtb_runtime (h_tg_bw h q)\<rparr>) h else h)"
  have g0: "hier_good n T h0" and q0: "q = 0 \<or> h_tg_se h0 q \<noteq> None" using good_runtime[OF g] g q by (simp_all add: h0_def)
  define h1 where "h1 = (if gr_throttled (h_q h0 q) then group_balance share lent q h0 else h0)"
  have g1: "hier_good n T h1" and q1: "q = 0 \<or> h_tg_se h1 q \<noteq> None" using good_balance[OF g0] g0 q0 by (simp_all add: h1_def)
  define h2 where "h2 = upd_gq q (\<lambda>r. r\<lparr>gr_time := gr_time r - min (gr_time r) (overrun * gr_runtime (h_q h1 q))\<rparr>) h1"
  have g2: "hier_good n T h2" and q2: "q = 0 \<or> h_tg_se h2 q \<noteq> None" using good_time[OF g1] q1 by (simp_all add: h2_def)
  show ?thesis
    unfolding group_period_timer_def Let_def h0_def[symmetric] h1_def[symmetric] h2_def[symmetric]
    using g0 g2 good_rq_enqueue[OF g0 q0] good_unthrottle[OF g2 q2] by simp
qed

section \<open>Changes of an entity that is not queued\<close>

lemma core_off:
  assumes c: "core h" and q: "\<And>q. h_q h' q = h_q h q \<or> queue_ok h' q"
    and se: "\<And>e. ge_on_list (h_se h' e) = ge_on_list (h_se h e)" "\<And>e. on_rq h' e = on_rq h e"
    and w: "\<And>e. on_rq h e \<Longrightarrow> rt_of h' e = rt_of h e \<and> same_worth h h' e"
  shows "core h'"
proof -
  have l: "\<And>e. ge_on_list (h_se h e) = on_rq h e" using c by (simp add: core_def)
  have "queue_ok h' x" for x
  proof (cases "h_q h' x = h_q h x")
    case True
    have "on_q h' x = on_q h x" using se w l by (auto simp: on_q_def)
    then show ?thesis using queue_ok_cong[OF True] w l c by (simp add: on_q_def core_def)
  qed (use q in blast)
  then show ?thesis using c se w by (simp add: core_def same_worth_def)
qed

lemma worth_same_q:
  assumes "my_q h' e = my_q h e" "\<And>q. my_q h e = Some q \<Longrightarrow> h_q h' q = h_q h q"
    and "my_q h e = None \<Longrightarrow> h_prio h' e = h_prio h e \<and> h_normal_prio h' e = h_normal_prio h e \<and> h_policy h' e = h_policy h e"
  shows "same_worth h h' e"
  using assms by (auto simp: same_worth_def group_se_prio_def rt_se_nr_running_def group_se_rr_def boost_one_def rt_se_boosted_def split: option.splits)

lemma good_set_prio:
  assumes g: "hier_good n T h" and off: "\<not> on_rq h p"
  shows "hier_good n T (h\<lparr>h_prio := (h_prio h)(p := a), h_normal_prio := (h_normal_prio h)(p := b), h_policy := (h_policy h)(p := c)\<rparr>)"
    (is "hier_good n T ?h")
proof -
  have "core h" using g by (simp add: hier_good_def)
  then have "core ?h" by (rule core_off) (use off in \<open>auto intro!: worth_same_q\<close>)
  then show ?thesis using g by (simp add: hier_good_def queued_tasks_def levels_def groups_queued_def top_ok_def live_def group_throttled_def)
qed

lemma good_set_task_rq:
  assumes g: "hier_good n T h" and off: "\<not> on_rq h p" "my_q h p = None" and q: "q = 0 \<or> h_tg_se h q \<noteq> None"
  shows "hier_good n T (group_set_task_rq p q h)" (is "hier_good n T ?h")
proof -
  have c: "core h" using g by (simp add: hier_good_def)
  then have "core ?h" by (rule core_off) (use off in \<open>auto intro!: worth_same_q simp: group_set_task_rq_def\<close>)
  moreover have "levels lv ?h" if lv: "levels lv h" for lv
  proof -
    have "h_tg_se h x \<noteq> Some p" for x using off(2) levelsD(1)[OF lv, of p] by auto
    then show ?thesis using lv off(2) q by (auto simp: levels_def group_set_task_rq_def)
  qed
  ultimately show ?thesis using g off by (auto simp: hier_good_def queued_tasks_def groups_queued_def top_ok_def live_def group_throttled_def group_set_task_rq_def)
qed

section \<open>Requeueing\<close>

lemma levels_hold_move:
  assumes "levels_hold a f S" "e \<in> S"
  shows "levels_hold (array_move e (nat (f e)) head a) f S"
proof -
  have "rt_index_ok (f e)" using assms by (simp add: levels_hold_def)
  then have i: "nat (f e) < 100" "int (nat (f e)) = f e" by (auto simp: rt_index_ok_def MAX_RT_PRIO_def)
  have a: "rt_array_ok a" "length (queue a) = 100" using assms(1) by (simp_all add: levels_hold_def rt_array_ok_def)
  have m: "e \<in> set (queue a ! nat (f e))" using assms i unfolding levels_hold_def by auto
  note ok = array_move_ok[OF a(1) i(1) m, of head]
  have "set (queue (array_move e (nat (f e)) head a) ! j) = set (queue a ! j)" if "j < 100" for j
    using m that a(2) unfolding ok(1) by (cases "j = nat (f e)") auto
  then show ?thesis using ok(2) assms(1) by (simp add: levels_hold_def)
qed

lemma core_active:
  assumes "core h" "levels_hold a (group_se_prio h) (on_q h q)"
  shows "core (upd_gq q (\<lambda>r. r\<lparr>gr_active := a\<rparr>) h)" (is "core ?h")
proof -
  have w: "group_se_prio ?h = group_se_prio h" "rt_se_nr_running ?h = rt_se_nr_running h" "group_se_rr ?h = group_se_rr h"
    "boost_one ?h = boost_one h" "on_q ?h = on_q h"
    by (auto simp: fun_eq_iff on_q_def group_se_prio_def rt_se_nr_running_def group_se_rr_def boost_one_def rt_se_boosted_def split: option.splits)
  show ?thesis using assms by (auto simp: core_def queue_ok_def w)
qed

lemma good_requeue_entity:
  assumes "hier_good n T h"
  shows "hier_good n T (group_requeue_entity head e h)"
proof (cases "on_rq h e")
  case True
  have c: "core h" using assms by (simp add: hier_good_def)
  then have S: "e \<in> on_q h (rt_of h e)" "levels_hold (gr_active (h_q h (rt_of h e))) (group_se_prio h) (on_q h (rt_of h e))"
    using True by (simp_all add: core_def queue_ok_def on_q_member)
  have i: "rt_index_ok (group_se_prio h e)" using S by (simp add: levels_hold_def)
  define a where "a = array_move e (nat (group_se_prio h e)) head (gr_active (h_q h (rt_of h e)))"
  have "core (upd_gq (rt_of h e) (\<lambda>r. r\<lparr>gr_active := a\<rparr>) h)"
    by (rule core_active[OF c]) (use levels_hold_move[OF S(2,1)] in \<open>simp add: a_def\<close>)
  then have "hier_good n T (upd_gq (rt_of h e) (\<lambda>r. r\<lparr>gr_active := a\<rparr>) h)" using assms
    by (auto simp: hier_good_def queued_tasks_def levels_def groups_queued_def top_ok_def live_def group_throttled_def)
  moreover have "group_requeue_entity head e h = upd_gq (rt_of h e) (\<lambda>r. r\<lparr>gr_active := a\<rparr>) h"
    using True i by (simp add: group_requeue_entity_def a_def upd_gq_def)
  ultimately show ?thesis by simp
qed (simp add: group_requeue_entity_def assms)

lemma good_requeue_task:
  assumes "hier_good n T h"
  shows "hier_good n T (group_requeue_task p head h)"
proof -
  have "hier_good n T h \<Longrightarrow> hier_good n T (fold (group_requeue_entity head) es h)" for es h
    by (induction es arbitrary: h) (simp_all add: good_requeue_entity)
  then show ?thesis using assms by (simp add: group_requeue_task_def)
qed

lemma good_slice_over: "hier_good n T h \<Longrightarrow> hier_good n T (group_slice_over p h)"
  by (simp add: group_slice_over_def good_requeue_task good_resched)

lemma good_bandwidth: "hier_good n T h \<Longrightarrow> hier_good n T (upd_gq q (\<lambda>r. r\<lparr>gr_runtime := u\<rparr>) (h\<lparr>h_tg_bw := (h_tg_bw h)(q := bw)\<rparr>))"
  by (erule good_load) (simp_all add: same_load_defs same_top_def)

section \<open>New groups\<close>

lemma empty_array_ok:
  "levels_hold \<lparr>bitmap = replicate (nat MAX_RT_PRIO) False @ [True], queue = replicate (nat MAX_RT_PRIO) []\<rparr> f {}"
  by (auto simp: levels_hold_def rt_array_ok_def MAX_RT_PRIO_def nth_append)

lemma fresh_queue_ok: "on_q h q = {} \<Longrightarrow> h_q h q = (init_group_rq zero_queue)\<lparr>gr_runtime := u, gr_highest := MAX_RT_PRIO, gr_nr_boosted := 0\<rparr> \<Longrightarrow> queue_ok h q"
  using empty_array_ok by (simp add: queue_ok_def init_group_rq_def zero_queue_def is_best_def MAX_RT_PRIO_def)

lemma good_alloc:
  assumes g: "hier_good n T h" and q: "q \<noteq> 0" "h_tg_se h q = None" and e: "\<not> on_rq h e" "my_q h e = None"
    and par: "pg = 0 \<or> h_tg_se h pg \<noteq> None"
  shows "hier_good n T ((alloc_group_cpu q e pg period h)\<lparr>h_depth := Suc (h_depth h)\<rparr>)" (is "hier_good n T ?h")
proof -
  obtain lv where lv: "levels lv h" and c: "core h" using g by (auto simp: hier_good_def)
  have l: "\<And>x. ge_on_list (h_se h x) = on_rq h x" using c by (simp add: core_def)
  have noq: "my_q h x \<noteq> Some q" "rt_of h x \<noteq> q" "h_tg_se h y \<noteq> Some e" for x y
    using levelsD(1,4)[OF lv] q e(2) by (metis option.distinct(1))+
  have pe: "p \<noteq> e \<and> my_q h p = Some pg" if "h_tg_se h pg = Some p" for p using that levelsD(1)[OF lv, of p pg] e(2) by auto
  have pq: "pg \<noteq> q" using par q by auto
  have se: "h_se ?h = (h_se h)(e := \<lparr>ge_on_rq = False, ge_on_list = False, ge_parent = h_tg_se h pg, ge_rt_rq = pg, ge_my_q = Some q\<rparr>)"
    using par pe levelsD(3)[OF lv]
    by (auto simp: alloc_group_cpu_def init_tg_rt_entry_def Let_def split: option.splits)
  have hq: "h_q ?h = (h_q h)(q := (init_group_rq zero_queue)\<lparr>gr_runtime := rtb_runtime (init_rt_bandwidth period 0 (h_tg_bw h q)), gr_highest := MAX_RT_PRIO, gr_nr_boosted := 0\<rparr>)"
    by (simp add: alloc_group_cpu_def init_tg_rt_entry_def Let_def)
  have rest: "h_tg_se ?h = (h_tg_se h)(q := Some e)" "h_prio ?h = h_prio h" "h_normal_prio ?h = h_normal_prio h" "h_policy ?h = h_policy h"
    "h_rq_nr_running ?h = h_rq_nr_running h" "h_fault ?h = h_fault h" "h_depth ?h = Suc (h_depth h)"
    by (simp_all add: alloc_group_cpu_def init_tg_rt_entry_def Let_def)
  define h' where "h' = ?h"
  note f = se[folded h'_def] hq[folded h'_def] rest[folded h'_def]
  have "on_q h' q = {}" using noq pq l e by (auto simp: on_q_def f)
  then have okq: "queue_ok h' q" by (rule fresh_queue_ok) (simp add: f)
  have "core h'" using c
  proof (rule core_off)
    show "h_q h' x = h_q h x \<or> queue_ok h' x" for x using okq by (cases "x = q") (simp_all add: f)
    show "rt_of h' x = rt_of h x \<and> same_worth h h' x" if "on_rq h x" for x
      using that e noq by (auto simp: f intro!: worth_same_q)
  qed (use e l in \<open>auto simp: f\<close>)
  moreover have "levels (lv(q := Suc (lv pg))) h'"
  proof -
    have "lv x \<le> Suc (h_depth h)" for x using levelsD(6)[OF lv, of x] by simp
    then show ?thesis using lv noq pq par q e(2) by (auto simp: levels_def f)
  qed
  moreover have "groups_queued {} h'" using g noq e q by (auto simp: hier_good_def groups_queued_def live_def group_throttled_def f init_group_rq_def zero_queue_def)
  moreover have "top_ok n h'" using g q(1) by (simp add: hier_good_def top_ok_def live_def group_throttled_def f)
  moreover have "queued_tasks h' = queued_tasks h" using e by (auto simp: queued_tasks_def f)
  ultimately show ?thesis using g by (auto simp: hier_good_def h'_def[symmetric] f)
qed

end
