(* ===== verification/Sched_Rt_Hier_Pick.thy ===== *)
theory Sched_Rt_Hier_Pick
  imports Sched_Rt_Hier_Inv
begin

text \<open>
  Which tasks of the hierarchy may run: the states a CPU can reach, with the set of its queued tasks as the abstract
  state; \<open>rq->nr_running\<close> counts exactly the tasks without a throttled queue above them, and the best of these is picked.
\<close>

section \<open>What runs under a queue\<close>

primrec tasks_under :: "hier \<Rightarrow> nat \<Rightarrow> nat \<Rightarrow> nat set" where
  "tasks_under h 0 q = {}"
| "tasks_under h (Suc k) q = (\<Union>e \<in> on_q h q. case my_q h e of None \<Rightarrow> {e} | Some g \<Rightarrow> tasks_under h k g)"

definition piece :: "hier \<Rightarrow> nat \<Rightarrow> nat \<Rightarrow> nat set" where
  "piece h k e = (case my_q h e of None \<Rightarrow> {e} | Some g \<Rightarrow> tasks_under h k g)"

lemma under_Suc: "tasks_under h (Suc k) q = (\<Union>e \<in> on_q h q. piece h k e)"
  by (simp add: piece_def)

lemma chain_owner:
  assumes "levels lv h" "y \<in> set (se_chain h p)" "h_tg_se h (rt_of h y) = Some x"
  shows "x \<in> set (se_chain h p)"
proof -
  obtain es where "se_chain h p = p # es" "upward h (p # es)" by (rule upward_se_chain[OF assms(1)])
  then show ?thesis using upward_owner[of h "p # es" y x] assms by simp
qed

lemma chain_same_level:
  assumes lv: "levels lv h" and x: "x \<in> set (se_chain h p)" "y \<in> set (se_chain h p)" "lv (rt_of h x) = lv (rt_of h y)"
  shows "x = y"
proof -
  have *: "upward h es \<Longrightarrow> x \<in> set es \<Longrightarrow> y \<in> set es \<Longrightarrow> x = y" for es
  proof (induction es)
    case (Cons e es)
    have "x \<notin> set es" if "y = e" using upward_lv[OF lv Cons.prems(1), of x] x(3) that by auto
    moreover have "y \<notin> set es" if "x = e" using upward_lv[OF lv Cons.prems(1), of y] x(3) that by auto
    moreover have "upward h es" using Cons.prems(1) by (simp add: upward_Cons)
    ultimately show ?case using Cons.IH Cons.prems(2,3) by auto
  qed simp
  obtain es where "se_chain h p = p # es" "upward h (p # es)" by (rule upward_se_chain[OF lv])
  then show ?thesis using *[of "p # es"] x by simp
qed

lemma piece_chain:
  assumes lv: "levels lv h"
  shows "p \<in> piece h k e \<Longrightarrow> e \<in> set (se_chain h p)"
proof (induction k arbitrary: e)
  case 0
  then show ?case using chain_head[of p h "h_depth h"] by (auto simp: piece_def split: option.splits)
next
  case (Suc k)
  show ?case
  proof (cases "my_q h e")
    case None
    then show ?thesis using Suc.prems chain_head[of p h "h_depth h"] by (auto simp: piece_def)
  next
    case (Some g)
    then obtain x where x: "x \<in> on_q h g" "p \<in> piece h k x" using Suc.prems by (auto simp: piece_def)
    have "h_tg_se h (rt_of h x) = Some e" using Some x(1) levelsD(1)[OF lv] by (simp add: on_q_def)
    then show ?thesis using chain_owner[OF lv Suc.IH[OF x(2)]] by simp
  qed
qed

lemma piece_disjoint:
  assumes "levels lv h" "e \<in> on_q h q" "e' \<in> on_q h q" "e \<noteq> e'"
  shows "piece h k e \<inter> piece h k e' = {}"
  using piece_chain[OF assms(1)] chain_same_level[OF assms(1)] assms(2-4) by (fastforce simp: on_q_def)

lemma under_card:
  assumes lv: "levels lv h" and c: "core h"
  shows "h_depth h < k + lv q \<Longrightarrow> finite (tasks_under h k q) \<and> card (tasks_under h k q) = gr_nr_running (h_q h q)"
proof (induction k arbitrary: q)
  case 0
  then show ?case using levelsD(6)[OF lv, of q] by simp
next
  case (Suc k)
  have ok: "queue_ok h q" using c by (simp add: core_def)
  have fin: "finite (on_q h q)" using ok levels_hold_set(2) by (auto simp: queue_ok_def)
  have p: "finite (piece h k e) \<and> card (piece h k e) = rt_se_nr_running h e" if "e \<in> on_q h q" for e
  proof (cases "my_q h e")
    case (Some g)
    then have "lv g = Suc (lv q)" using that levelsD(1,5)[OF lv] by (simp add: on_q_def)
    then show ?thesis using Suc.IH[of g] Suc.prems Some by (simp add: piece_def rt_se_nr_running_def)
  qed (simp add: piece_def rt_se_nr_running_def)
  have "card (\<Union>e \<in> on_q h q. piece h k e) = (\<Sum>e \<in> on_q h q. card (piece h k e))"
    by (rule card_UN_disjoint[OF fin]) (use p piece_disjoint[OF lv] in auto)
  also have "\<dots> = gr_nr_running (h_q h q)" using p ok by (simp add: queue_ok_def)
  finally show ?case using fin p by (simp only: under_Suc) auto
qed

lemma under_best:
  assumes lv: "levels lv h" and c: "core h"
  shows "p \<in> tasks_under h k q \<Longrightarrow> gr_highest (h_q h q) \<le> h_prio h p"
proof (induction k arbitrary: q)
  case (Suc k)
  then obtain e where e: "e \<in> on_q h q" "p \<in> piece h k e" by (auto simp only: under_Suc)
  have "gr_highest (h_q h q) \<le> group_se_prio h e" using e(1) c by (auto simp: core_def queue_ok_def is_best_def)
  also have "\<dots> \<le> h_prio h p" using e(2) Suc.IH by (auto simp: piece_def group_se_prio_def split: option.splits)
  finally show ?case .
qed simp

lemma group_first_best:
  assumes "core h" "gr_nr_running (h_q h q) \<noteq> 0"
  obtains e where "group_first h q = Some e" "e \<in> on_q h q" "group_se_prio h e = gr_highest (h_q h q)"
proof -
  let ?a = "gr_active (h_q h q)" and ?i = "sched_find_first_bit (bitmap (gr_active (h_q h q)))"
  have ok: "queue_ok h q" using assms(1) by (simp add: core_def)
  have lh: "levels_hold ?a (group_se_prio h) (on_q h q)" using ok by (simp add: queue_ok_def)
  have best: "is_best (group_se_prio h) (on_q h q) (gr_highest (h_q h q))" using ok by (simp add: queue_ok_def)
  have i: "int ?i = gr_highest (h_q h q)" using is_best_unique[OF first_bit_best[OF lh] best] .
  have ne: "on_q h q \<noteq> {}" using assms(2) ok by (auto simp: queue_ok_def)
  then obtain x where x: "x \<in> on_q h q" "group_se_prio h x = int ?i" using best i by (auto simp: is_best_def)
  have i100: "?i < 100" using group_prio_ok[OF assms] i by (simp add: rt_index_ok_def MAX_RT_PRIO_def)
  have s: "set (queue ?a ! ?i) = {e \<in> on_q h q. group_se_prio h e = int ?i}" using lh i100 by (simp add: levels_hold_def)
  then obtain e r where er: "queue ?a ! ?i = e # r" using x by (cases "queue ?a ! ?i") auto
  have "e \<in> on_q h q" "group_se_prio h e = gr_highest (h_q h q)" using s er i by auto
  moreover have "group_first h q = Some e" using er i100 by (simp add: group_first_def Let_def MAX_RT_PRIO_def)
  ultimately show ?thesis by (rule that[rotated])
qed

lemma pick_best:
  assumes lv: "levels lv h" and c: "core h"
  shows "h_depth h < k + lv q \<Longrightarrow> gr_nr_running (h_q h q) \<noteq> 0
    \<Longrightarrow> \<exists>p. group_pick k h q = Some p \<and> p \<in> tasks_under h k q \<and> h_prio h p = gr_highest (h_q h q)"
proof (induction k arbitrary: q)
  case 0
  then show ?case using levelsD(6)[OF lv, of q] by simp
next
  case (Suc k)
  obtain e where e: "group_first h q = Some e" "e \<in> on_q h q" "group_se_prio h e = gr_highest (h_q h q)"
    by (rule group_first_best[OF c Suc.prems(2)])
  show ?case
  proof (cases "my_q h e")
    case None
    then show ?thesis using e by (force simp: group_se_prio_def)
  next
    case (Some g)
    then have "lv g = Suc (lv q)" using e(2) levelsD(1,5)[OF lv] by (simp add: on_q_def)
    moreover have "gr_nr_running (h_q h g) \<noteq> 0"
      using e(2) c Some by (auto simp: on_q_def core_def rt_se_nr_running_def split: option.splits)
    ultimately obtain p where "group_pick k h g = Some p" "p \<in> tasks_under h k g" "h_prio h p = gr_highest (h_q h g)"
      using Suc.IH[of g] Suc.prems(1) by auto
    then show ?thesis using e Some by (force simp: group_se_prio_def)
  qed
qed

lemma chain_pred:
  assumes "levels lv h" "x \<in> set (se_chain h p)" "x \<noteq> p"
  obtains y where "y \<in> set (se_chain h p)" "h_tg_se h (rt_of h y) = Some x"
proof -
  have *: "upward h (e # es) \<Longrightarrow> x \<in> set es \<Longrightarrow> \<exists>y \<in> set (e # es). h_tg_se h (rt_of h y) = Some x" for e es
  proof (induction es arbitrary: e)
    case (Cons p es)
    then show ?case by (cases "x = p") (auto simp: upward_Cons)
  qed simp
  obtain es where es: "se_chain h p = p # es" "upward h (p # es)" by (rule upward_se_chain[OF assms(1)])
  then have "x \<in> set es" using assms(2,3) by simp
  then show ?thesis using *[OF es(2)] that es(1) by auto
qed

lemma chain_top:
  assumes lv: "levels lv h"
  obtains x where "x \<in> set (se_chain h p)" "rt_of h x = 0"
proof -
  obtain es where es: "se_chain h p = p # es" "upward h (p # es)" by (rule upward_se_chain[OF lv])
  have "rt_of h (last (p # es)) = 0" by (rule upward_last[OF lv es(2)]) simp
  then show ?thesis using that[of "last (p # es)"] es(1) last_in_set[of "p # es"] by simp
qed

lemma chain_level:
  assumes lv: "levels lv h" and x: "x \<in> set (se_chain h p)"
  shows "lv 0 \<le> lv (rt_of h x)" "lv (rt_of h x) \<le> lv (rt_of h p)"
proof -
  obtain es where es: "se_chain h p = p # es" "upward h (p # es)" by (rule upward_se_chain[OF lv])
  show "lv (rt_of h x) \<le> lv (rt_of h p)" using upward_lv[OF lv es(2), of x] x es(1) by auto
  have "upward h es \<Longrightarrow> x \<in> set es \<Longrightarrow> lv (rt_of h (last es)) \<le> lv (rt_of h x)" for es
  proof (induction es)
    case (Cons e es)
    show ?case
    proof (cases "x = e")
      case True
      then show ?thesis using upward_lv[OF lv Cons.prems(1), of "last es"] by (cases "es = []") auto
    next
      case False
      then show ?thesis using Cons by (cases es) auto
    qed
  qed simp
  from this[OF es(2)] show "lv 0 \<le> lv (rt_of h x)" using x es(1) upward_last[OF lv es(2)] by simp
qed

lemma under_on:
  assumes lv: "levels lv h" and c: "core h"
  shows "p \<in> tasks_under h k q \<Longrightarrow> my_q h p = None \<and> (\<forall>x \<in> set (se_chain h p). lv q \<le> lv (rt_of h x) \<longrightarrow> on_rq h x)"
proof (induction k arbitrary: q)
  case (Suc k)
  then obtain e where e: "e \<in> on_q h q" "p \<in> piece h k e" by (auto simp only: under_Suc)
  have on: "on_rq h e" "rt_of h e = q" using e(1) c by (simp_all add: on_q_def core_def)
  have ce: "e \<in> set (se_chain h p)" by (rule piece_chain[OF lv e(2)])
  show ?case
  proof (cases "my_q h e")
    case None
    then have p: "p = e" using e(2) by (simp add: piece_def)
    have "x = e" if "x \<in> set (se_chain h p)" "lv q \<le> lv (rt_of h x)" for x
      using chain_same_level[OF lv that(1) ce] chain_level(2)[OF lv that(1)] that(2) on(2) p by simp
    then show ?thesis using None p on(1) by blast
  next
    case (Some g)
    then have g: "lv g = Suc (lv q)" using on(2) levelsD(1,5)[OF lv] by simp
    have ih: "my_q h p = None" "\<And>x. x \<in> set (se_chain h p) \<Longrightarrow> lv g \<le> lv (rt_of h x) \<Longrightarrow> on_rq h x"
      using Suc.IH[of g] e(2) Some by (simp_all add: piece_def)
    have "on_rq h x" if x: "x \<in> set (se_chain h p)" "lv q \<le> lv (rt_of h x)" for x
    proof (cases "lv (rt_of h x) = lv q")
      case True
      then show ?thesis using chain_same_level[OF lv x(1) ce] on by simp
    next
      case False
      then show ?thesis using ih(2)[OF x(1)] x(2) g by simp
    qed
    then show ?thesis using ih(1) by blast
  qed
qed simp

lemma on_piece:
  assumes lv: "levels lv h" and l: "\<And>x. ge_on_list (h_se h x) = on_rq h x" and t: "my_q h p = None"
    and on: "\<And>x. x \<in> set (se_chain h p) \<Longrightarrow> on_rq h x"
  shows "x \<in> set (se_chain h p) \<Longrightarrow> h_depth h \<le> k + lv (rt_of h x) \<Longrightarrow> p \<in> piece h k x"
proof (induction k arbitrary: x)
  case 0
  have "x = p"
  proof (rule ccontr)
    assume "x \<noteq> p"
    then obtain y where "h_tg_se h (rt_of h y) = Some x" using chain_pred[OF lv 0(1)] by blast
    then have "lv (rt_of h y) = Suc (lv (rt_of h x))" by (rule levelsD(5)[OF lv])
    then show False using 0(2) levelsD(6)[OF lv, of "rt_of h y"] by simp
  qed
  then show ?case using t by (simp add: piece_def)
next
  case (Suc k)
  show ?case
  proof (cases "x = p")
    case False
    obtain y where y: "y \<in> set (se_chain h p)" "h_tg_se h (rt_of h y) = Some x" by (rule chain_pred[OF lv Suc.prems(1) False])
    have "lv (rt_of h y) = Suc (lv (rt_of h x))" by (rule levelsD(5)[OF lv y(2)])
    then have "p \<in> piece h k y" using Suc.IH[OF y(1)] Suc.prems(2) by simp
    moreover have "y \<in> on_q h (rt_of h y)" using on[OF y(1)] l by (simp add: on_q_def)
    moreover have "my_q h x = Some (rt_of h y)" by (rule my_q_owner[OF lv y(2)])
    ultimately show ?thesis by (auto simp: piece_def)
  qed (simp add: piece_def t)
qed

section \<open>Which tasks may run\<close>

text \<open>A queued task may run when no queue on its way up is throttled.\<close>

definition eligible :: "hier \<Rightarrow> nat \<Rightarrow> bool" where
  "eligible h p \<longleftrightarrow> ge_my_q (h_se h p) = None \<and> ge_on_rq (h_se h p) \<and> (\<forall>x \<in> set (se_chain h p). \<not> group_throttled h (ge_rt_rq (h_se h x)))"

lemma queued_nr:
  assumes "core h" "on_rq h e"
  shows "gr_nr_running (h_q h (rt_of h e)) \<noteq> 0"
proof -
  have e: "e \<in> on_q h (rt_of h e)" using assms by (simp add: core_def on_q_def)
  have ok: "queue_ok h (rt_of h e)" using assms by (simp add: core_def)
  have "finite (on_q h (rt_of h e))" using ok levels_hold_set(2) by (auto simp: queue_ok_def)
  then show ?thesis using e ok assms by (auto simp: queue_ok_def core_def)
qed

lemma way_up_on:
  assumes lv: "levels lv h" and c: "core h" and g: "groups_queued {} h"
  shows "upward h (e # es) \<Longrightarrow> on_rq h e \<Longrightarrow> (\<And>x. x \<in> set (e # es) \<Longrightarrow> \<not> group_throttled h (rt_of h x)) \<Longrightarrow> x \<in> set es \<Longrightarrow> on_rq h x"
proof (induction es arbitrary: e)
  case (Cons p es)
  have o: "h_tg_se h (rt_of h e) = Some p" "upward h (p # es)" using Cons.prems(1) by simp_all
  have "live h (rt_of h e)" using queued_nr[OF c Cons.prems(2)] Cons.prems(3)[of e] by (simp add: live_def)
  then have on: "on_rq h p" using my_q_owner[OF lv o(1)] g by (simp add: groups_queued_def)
  show ?case using Cons.IH[OF o(2) on] Cons.prems(3,4) on by (cases "x = p") simp_all
qed simp

lemma eligible_on:
  assumes lv: "levels lv h" and c: "core h" and g: "groups_queued {} h"
  shows "eligible h p \<longleftrightarrow> my_q h p = None \<and> (\<forall>x \<in> set (se_chain h p). on_rq h x) \<and> \<not> group_throttled h 0"
proof
  assume e: "eligible h p"
  obtain es where es: "se_chain h p = p # es" "upward h (p # es)" by (rule upward_se_chain[OF lv])
  obtain x where "x \<in> set (se_chain h p)" "rt_of h x = 0" by (rule chain_top[OF lv])
  then have "\<not> group_throttled h 0" using e unfolding eligible_def by force
  then show "my_q h p = None \<and> (\<forall>x \<in> set (se_chain h p). on_rq h x) \<and> \<not> group_throttled h 0"
    using e way_up_on[OF lv c g es(2)] unfolding eligible_def es(1) by auto
next
  assume a: "my_q h p = None \<and> (\<forall>x \<in> set (se_chain h p). on_rq h x) \<and> \<not> group_throttled h 0"
  have "\<not> group_throttled h (rt_of h x)" if x: "x \<in> set (se_chain h p)" for x
  proof (cases "h_tg_se h (rt_of h x)")
    case None
    then show ?thesis using levelsD(4)[OF lv None] a by simp
  next
    case (Some y)
    have "on_rq h y" using a chain_owner[OF lv x Some] by blast
    then show ?thesis using my_q_owner[OF lv Some] g by (simp add: groups_queued_def live_def)
  qed
  then show "eligible h p" using a chain_head[of p h "h_depth h"] by (simp add: eligible_def)
qed

lemma eligible_under:
  assumes lv: "levels lv h" and c: "core h" and g: "groups_queued {} h"
  shows "{p. eligible h p} = (if group_throttled h 0 then {} else tasks_under h (Suc (h_depth h)) 0)"
proof -
  have "p \<in> tasks_under h (Suc (h_depth h)) 0 \<longleftrightarrow> my_q h p = None \<and> (\<forall>x \<in> set (se_chain h p). on_rq h x)" for p
  proof
    assume "p \<in> tasks_under h (Suc (h_depth h)) 0"
    from under_on[OF lv c this] show "my_q h p = None \<and> (\<forall>x \<in> set (se_chain h p). on_rq h x)" using chain_level(1)[OF lv] by blast
  next
    assume a: "my_q h p = None \<and> (\<forall>x \<in> set (se_chain h p). on_rq h x)"
    have l: "\<And>x. ge_on_list (h_se h x) = on_rq h x" using c by (simp add: core_def)
    obtain x where x: "x \<in> set (se_chain h p)" "rt_of h x = 0" by (rule chain_top[OF lv])
    have "p \<in> piece h (h_depth h) x" by (rule on_piece[OF lv l]) (use a x in auto)
    moreover have "x \<in> on_q h 0" using x a l by (simp add: on_q_def)
    ultimately show "p \<in> tasks_under h (Suc (h_depth h)) 0" unfolding under_Suc by blast
  qed
  then show ?thesis using eligible_on[OF assms] by auto
qed

section \<open>Every state that can be reached is good\<close>

definition hier_init :: "hier \<Rightarrow> bool" where
  "hier_init h \<longleftrightarrow> h_se h = (\<lambda>_. \<lparr>ge_on_rq = False, ge_on_list = False, ge_parent = None, ge_rt_rq = 0, ge_my_q = None\<rparr>)
     \<and> h_q h = (\<lambda>_. init_group_rq zero_queue) \<and> h_tg_se h = (\<lambda>_. None) \<and> h_rq_nr_running h = 0 \<and> h_fault h = None"

text \<open>
  \<open>hier_reach n h\<close>: the CPU can get to \<open>h\<close>, and \<open>n\<close> tasks of other classes are queued on it.  A queue exists when
  it is the root or belongs to a group; a task is moved or changed only while it is not queued.
\<close>

inductive hier_reach :: "nat \<Rightarrow> nat set \<Rightarrow> hier \<Rightarrow> bool" where
  init: "hier_init h \<Longrightarrow> hier_reach 0 {} h"
| enqueue: "hier_reach n T h \<Longrightarrow> ge_my_q (h_se h p) = None \<Longrightarrow> rt_index_ok (h_prio h p) \<Longrightarrow> move_entity flags
    \<Longrightarrow> hier_reach n (insert p T) (group_enqueue p flags h)"
| dequeue: "hier_reach n T h \<Longrightarrow> p \<in> T \<Longrightarrow> move_entity flags \<Longrightarrow> hier_reach n (T - {p}) (group_dequeue p flags h)"
| requeue: "hier_reach n T h \<Longrightarrow> hier_reach n T (group_requeue_task p head h)"
| slice_over: "hier_reach n T h \<Longrightarrow> hier_reach n T (group_slice_over p h)"
| bandwidth: "hier_reach n T h \<Longrightarrow> hier_reach n T (upd_gq q (\<lambda>r. r\<lparr>gr_runtime := u\<rparr>) (h\<lparr>h_tg_bw := (h_tg_bw h)(q := bw)\<rparr>))"
| update_curr: "hier_reach n T h \<Longrightarrow> hier_reach n T (group_update_curr share lent delta h)"
| timer: "hier_reach n T h \<Longrightarrow> q = 0 \<or> h_tg_se h q \<noteq> None
    \<Longrightarrow> hier_reach n T (group_period_timer share lent overrun q h)"
| new_group: "hier_reach n T h \<Longrightarrow> q \<noteq> 0 \<Longrightarrow> h_tg_se h q = None \<Longrightarrow> ge_my_q (h_se h e) = None \<Longrightarrow> e \<notin> T
    \<Longrightarrow> pg = 0 \<or> h_tg_se h pg \<noteq> None \<Longrightarrow> hier_reach n T ((alloc_group_cpu q e pg period h)\<lparr>h_depth := Suc (h_depth h)\<rparr>)"
| move: "hier_reach n T h \<Longrightarrow> ge_my_q (h_se h p) = None \<Longrightarrow> p \<notin> T \<Longrightarrow> q = 0 \<or> h_tg_se h q \<noteq> None
    \<Longrightarrow> hier_reach n T (group_set_task_rq p q h)"
| set_prio: "hier_reach n T h \<Longrightarrow> ge_my_q (h_se h p) = None \<Longrightarrow> p \<notin> T
    \<Longrightarrow> hier_reach n T (h\<lparr>h_prio := (h_prio h)(p := a), h_normal_prio := (h_normal_prio h)(p := b), h_policy := (h_policy h)(p := c)\<rparr>)"
| switch: "hier_reach n T h \<Longrightarrow> hier_reach n T (h\<lparr>h_curr := p, h_resched := False\<rparr>)"
| other_in: "hier_reach n T h \<Longrightarrow> hier_reach (Suc n) T (h\<lparr>h_rq_nr_running := Suc (h_rq_nr_running h)\<rparr>)"
| other_out: "hier_reach (Suc n) T h \<Longrightarrow> hier_reach n T (h\<lparr>h_rq_nr_running := h_rq_nr_running h - 1\<rparr>)"

lemma good_init: "hier_init h \<Longrightarrow> hier_good 0 {} h"
proof -
  assume i: "hier_init h"
  have "levels (\<lambda>_. 0) h" using i by (simp add: hier_init_def levels_def)
  moreover have "on_q h q = {}" for q using i by (simp add: hier_init_def on_q_def)
  then have "queue_ok h q" for q
    by (rule fresh_queue_ok[where u = 0]) (use i in \<open>simp add: hier_init_def init_group_rq_def zero_queue_def\<close>)
  moreover have "groups_queued {} h" "top_ok 0 h" "queued_tasks h = {}" using i
    by (simp_all add: hier_init_def groups_queued_def top_ok_def live_def init_group_rq_def zero_queue_def queued_tasks_def)
  ultimately show ?thesis using i by (auto simp: hier_good_def core_def hier_init_def)
qed

lemma queued_task:
  assumes "hier_good n T h" "p \<in> T"
  shows "my_q h p = None" "on_rq h p" "rt_index_ok (h_prio h p)"
proof -
  show t: "my_q h p = None" and on: "on_rq h p" using assms by (auto simp: hier_good_def queued_tasks_def)
  have c: "core h" using assms(1) by (simp add: hier_good_def)
  then have "p \<in> on_q h (rt_of h p)" "queue_ok h (rt_of h p)" using on by (simp_all add: core_def on_q_member)
  then have "rt_index_ok (group_se_prio h p)" by (simp add: queue_ok_def levels_hold_def)
  then show "rt_index_ok (h_prio h p)" using t by (simp add: group_se_prio_def)
qed

lemma task_off: "hier_good n T h \<Longrightarrow> my_q h p = None \<Longrightarrow> p \<notin> T \<Longrightarrow> \<not> on_rq h p"
  by (auto simp: hier_good_def queued_tasks_def)

lemma good_others:
  assumes "hier_good n T h" "m + h_rq_nr_running h = n + x"
  shows "hier_good m T (h\<lparr>h_rq_nr_running := x\<rparr>)"
proof -
  have l: "same_load h (h\<lparr>h_rq_nr_running := x\<rparr>)" by (simp add: same_load_defs)
  note d = same_loadD[OF l]
  show ?thesis using assms d levels_shape[OF _ d(1)] by (auto simp: hier_good_def top_ok_def queued_tasks_def)
qed

lemma reach_good: "hier_reach n T h \<Longrightarrow> hier_good n T h"
proof (induction rule: hier_reach.induct)
  case (init h)
  then show ?case by (rule good_init)
next
  case (enqueue n T h p flags)
  then show ?case using good_restack(1) by blast
next
  case (dequeue n T h p flags)
  then show ?case using good_restack(2)[OF dequeue.IH dequeue.hyps(3)] queued_task[OF dequeue.IH dequeue.hyps(2)] by simp
next
  case (requeue n T h p head)
  then show ?case using good_requeue_task by blast
next
  case (slice_over n T h p)
  then show ?case using good_slice_over by blast
next
  case (bandwidth n T h q u bw)
  show ?case by (rule good_bandwidth[OF bandwidth.IH])
next
  case (update_curr n T h share lent delta)
  then show ?case using good_update_curr by blast
next
  case (timer n T h q share lent overrun)
  then show ?case using good_period_timer by blast
next
  case (new_group n T h q e pg period)
  then show ?case using good_alloc task_off by blast
next
  case (move n T h p q)
  then show ?case using good_set_task_rq task_off by blast
next
  case (set_prio n T h p a b c)
  then show ?case using good_set_prio task_off by blast
next
  case (switch n T h p)
  show ?case by (rule good_load[OF switch.IH]) (simp_all add: same_load_defs same_top_def)
next
  case (other_in n T h)
  then show ?case using good_others[OF other_in.IH] by simp
next
  case (other_out n T h)
  have "h_rq_nr_running h \<noteq> 0" using other_out.IH by (simp add: hier_good_def top_ok_def)
  then show ?case using good_others[OF other_out.IH] by simp
qed

section \<open>An example\<close>

text \<open>One group below the root with one task in it, which is queued.\<close>

definition hier_boot :: hier where
  "hier_boot = \<lparr>h_se = \<lambda>_. \<lparr>ge_on_rq = False, ge_on_list = False, ge_parent = None, ge_rt_rq = 0, ge_my_q = None\<rparr>,
     h_q = \<lambda>_. init_group_rq zero_queue, h_tg_se = \<lambda>_. None, h_tg_bw = \<lambda>_. \<lparr>rt_period = 1000000000, rtb_runtime = 950000000, rt_period_active = False\<rparr>,
     h_prio = \<lambda>_. 120, h_normal_prio = \<lambda>_. 120, h_policy = \<lambda>_. 0, h_rq_nr_running = 0, h_curr = 0, h_resched = False,
     h_bandwidth_enabled = True, h_depth = 0, h_fault = None\<rparr>"

definition hier_one_group :: hier where
  "hier_one_group = (alloc_group_cpu 1 7 0 1000000000 hier_boot)\<lparr>h_depth := Suc (h_depth hier_boot)\<rparr>"

definition hier_one_task :: hier where
  "hier_one_task = group_set_task_rq 5 1 (hier_one_group\<lparr>h_prio := (h_prio hier_one_group)(5 := 10),
     h_normal_prio := (h_normal_prio hier_one_group)(5 := 10), h_policy := (h_policy hier_one_group)(5 := SCHED_FIFO)\<rparr>)"

lemma one_group:
  "hier_reach 0 {} hier_one_group" "p \<noteq> 7 \<Longrightarrow> ge_my_q (h_se hier_one_group p) = None" "h_tg_se hier_one_group 1 = Some 7"
proof -
  have 1: "hier_reach 0 {} hier_boot" by (rule hier_reach.init) (simp add: hier_init_def hier_boot_def)
  show "hier_reach 0 {} hier_one_group" unfolding hier_one_group_def by (rule hier_reach.new_group[OF 1]) (simp_all add: hier_boot_def)
  show "p \<noteq> 7 \<Longrightarrow> ge_my_q (h_se hier_one_group p) = None" "h_tg_se hier_one_group 1 = Some 7"
    by (simp_all add: hier_one_group_def hier_boot_def alloc_group_cpu_def init_tg_rt_entry_def Let_def)
qed

lemma one_task_reach: "hier_reach 0 {5} (group_enqueue 5 0 hier_one_task)"
proof -
  have se: "ge_my_q (h_se hier_one_group 5) = None" "h_tg_se hier_one_group 1 = Some 7" using one_group by simp_all
  have 3: "hier_reach 0 {} hier_one_task" unfolding hier_one_task_def
    by (rule hier_reach.move[OF hier_reach.set_prio[OF one_group(1) se(1)]]) (use se in auto)
  have "ge_my_q (h_se hier_one_task 5) = None" "rt_index_ok (h_prio hier_one_task 5)"
    by (simp_all add: hier_one_task_def group_set_task_rq_def se rt_index_ok_def MAX_RT_PRIO_def)
  from hier_reach.enqueue[OF 3 this zero_move] show ?thesis .
qed





end
