(* ===== verification/Sched_Rt_Hier_Save.thy ===== *)
theory Sched_Rt_Hier_Save
  imports Sched_Rt_Hier_Pick
begin

text \<open>
  A task that is taken off and put back with flags that leave the lists alone (\<open>DEQUEUE_SAVE\<close> and \<open>ENQUEUE_RESTORE\<close> without
  \<open>MOVE\<close>, for example when its affinity changes): the hierarchy is as before, unless a group on the way is marked as
  throttled and runs only because the task is boosted.
\<close>

section \<open>Flags that leave the lists alone\<close>

definition counts_without :: "hier \<Rightarrow> nat \<Rightarrow> group_rq \<Rightarrow> group_rq" where
  "counts_without h e r = (group_dec_prio (group_se_prio h e) (r\<lparr>
     gr_nr_running := gr_nr_running r - rt_se_nr_running h e, gr_rr_nr_running := gr_rr_nr_running r - group_se_rr h e\<rparr>))
   \<lparr>gr_nr_boosted := gr_nr_boosted r - boost_one h e\<rparr>"

definition counts_with :: "hier \<Rightarrow> nat \<Rightarrow> group_rq \<Rightarrow> group_rq" where
  "counts_with h e r = r\<lparr>
     gr_nr_running := gr_nr_running r + rt_se_nr_running h e, gr_rr_nr_running := gr_rr_nr_running r + group_se_rr h e,
     gr_highest := (if group_se_prio h e < gr_highest r then group_se_prio h e else gr_highest r), gr_nr_boosted := gr_nr_boosted r + boost_one h e\<rparr>"

lemma dequeue_keeps_list:
  assumes "my_q h e \<noteq> Some (rt_of h e)" "\<not> move_entity flags"
  shows "group_dequeue_entity e flags h = upd_se e (\<lambda>x. x\<lparr>ge_on_rq := False\<rparr>) (upd_gq (rt_of h e) (counts_without h e) h)"
  using assms
  by (cases "rt_se_boosted h e") (simp_all add: group_dequeue_entity_def group_dec_tasks_def dec_rt_group_def Let_def
      worth_upd_se worth_upd_gq upd_upd counts_without_def[abs_def] boost_one_def group_dec_prio_def cong: if_cong)

lemma enqueue_keeps_list:
  assumes "my_q h e \<noteq> Some (rt_of h e)" "\<not> move_entity flags" "\<not> group_idle h e"
  shows "group_enqueue_entity e flags h = start_group_bandwidth (rt_of h e) (upd_se e (\<lambda>x. x\<lparr>ge_on_rq := True\<rparr>)
    (upd_gq (rt_of h e) (counts_with h e) h))"
  using assms
  by (cases "rt_se_boosted h e") (simp_all add: group_enqueue_entity_def group_inc_tasks_def inc_rt_group_def Let_def
      worth_upd_se worth_upd_gq upd_upd counts_with_def[abs_def] boost_one_def cong: if_cong)

text \<open>Two states that differ in the bandwidth timers alone.\<close>

definition but_timers :: "hier \<Rightarrow> hier \<Rightarrow> bool" where
  "but_timers h k \<longleftrightarrow> k = h\<lparr>h_tg_bw := h_tg_bw k\<rparr>"

lemma but_timers_refl [simp]: "but_timers h h"
  by (simp add: but_timers_def)

lemma but_timers_sym: "but_timers h k \<Longrightarrow> but_timers k h"
  unfolding but_timers_def by (cases h, cases k) simp

lemma but_timers_trans: "but_timers h k \<Longrightarrow> but_timers k l \<Longrightarrow> but_timers h l"
  unfolding but_timers_def by (cases h, cases k, cases l) simp

lemma timers_start: "but_timers h (start_group_bandwidth q h)"
  by (simp add: but_timers_def start_group_bandwidth_def)

lemma timers_worth:
  "group_se_prio (h\<lparr>h_tg_bw := b\<rparr>) = group_se_prio h" "rt_se_nr_running (h\<lparr>h_tg_bw := b\<rparr>) = rt_se_nr_running h"
  "group_se_rr (h\<lparr>h_tg_bw := b\<rparr>) = group_se_rr h" "rt_se_boosted (h\<lparr>h_tg_bw := b\<rparr>) = rt_se_boosted h"
  "boost_one (h\<lparr>h_tg_bw := b\<rparr>) = boost_one h" "group_idle (h\<lparr>h_tg_bw := b\<rparr>) = group_idle h"
  "group_throttled (h\<lparr>h_tg_bw := b\<rparr>) = group_throttled h"
  by (simp_all add: fun_eq_iff group_se_prio_def rt_se_nr_running_def group_se_rr_def rt_se_boosted_def boost_one_def group_idle_def
      group_throttled_def split: option.splits)

lemma timers_upd:
  "upd_se e f (h\<lparr>h_tg_bw := b\<rparr>) = (upd_se e f h)\<lparr>h_tg_bw := b\<rparr>" "upd_gq q g (h\<lparr>h_tg_bw := b\<rparr>) = (upd_gq q g h)\<lparr>h_tg_bw := b\<rparr>"
  by (simp_all add: upd_se_def upd_gq_def)

lemma timersE:
  assumes "but_timers h k"
  obtains b where "k = h\<lparr>h_tg_bw := b\<rparr>"
  using assms by (simp add: but_timers_def)

lemma timers_same: "but_timers h (h\<lparr>h_tg_bw := b\<rparr>)"
  by (simp add: but_timers_def)

lemma timers_delist: "group_delist e (h\<lparr>h_tg_bw := b\<rparr>) = (group_delist e h)\<lparr>h_tg_bw := b\<rparr>"
  by (simp add: group_delist_def timers_worth timers_upd hier_fault_def split: option.splits)

lemma timers_enlist: "group_enlist e head (h\<lparr>h_tg_bw := b\<rparr>) = (group_enlist e head h)\<lparr>h_tg_bw := b\<rparr>"
  by (simp add: group_enlist_def timers_worth timers_upd hier_fault_def split: option.splits)

lemma timers_dec: "group_dec_tasks e q (h\<lparr>h_tg_bw := b\<rparr>) = (group_dec_tasks e q h)\<lparr>h_tg_bw := b\<rparr>"
  by (simp add: group_dec_tasks_def dec_rt_group_def timers_worth timers_upd)

lemma timers_inc: "\<exists>b'. group_inc_tasks e q (h\<lparr>h_tg_bw := b\<rparr>) = (group_inc_tasks e q h)\<lparr>h_tg_bw := b'\<rparr>"
proof -
  define u where "u = upd_gq q (\<lambda>r. r\<lparr>gr_nr_running := gr_nr_running r + rt_se_nr_running h e,
     gr_rr_nr_running := gr_rr_nr_running r + group_se_rr h e,
     gr_highest := (if group_se_prio h e < gr_highest r then group_se_prio h e else gr_highest r)\<rparr>) h"
  define v where "v = (if rt_se_boosted u e then upd_gq q (\<lambda>r. r\<lparr>gr_nr_boosted := gr_nr_boosted r + 1\<rparr>) u else u)"
  have "group_inc_tasks e q h = start_group_bandwidth q v" by (simp add: group_inc_tasks_def inc_rt_group_def Let_def u_def v_def)
  moreover have "group_inc_tasks e q (h\<lparr>h_tg_bw := b\<rparr>) = start_group_bandwidth q (v\<lparr>h_tg_bw := b\<rparr>)"
    by (simp add: group_inc_tasks_def inc_rt_group_def Let_def u_def v_def timers_worth timers_upd)
  moreover have "\<exists>b'. start_group_bandwidth q (v\<lparr>h_tg_bw := b\<rparr>) = (start_group_bandwidth q v)\<lparr>h_tg_bw := b'\<rparr>"
    unfolding start_group_bandwidth_def by (cases v) auto
  ultimately show ?thesis by simp
qed

lemma timers_dequeue: "but_timers h k \<Longrightarrow> but_timers (group_dequeue_entity e flags h) (group_dequeue_entity e flags k)"
  by (erule timersE) (simp add: group_dequeue_entity_def Let_def timers_delist timers_upd timers_dec timers_same)

lemma timers_enqueue: "but_timers h k \<Longrightarrow> but_timers (group_enqueue_entity e flags h) (group_enqueue_entity e flags k)"
proof (erule timersE)
  fix b assume k: "k = h\<lparr>h_tg_bw := b\<rparr>"
  define u where "u = upd_se e (\<lambda>x. x\<lparr>ge_on_rq := True\<rparr>) (if move_entity flags then group_enlist e (flag_set flags ENQUEUE_HEAD) h else h)"
  obtain b' where "group_inc_tasks e (rt_of u e) (u\<lparr>h_tg_bw := b\<rparr>) = (group_inc_tasks e (rt_of u e) u)\<lparr>h_tg_bw := b'\<rparr>" using timers_inc by blast
  then show ?thesis
    by (simp add: group_enqueue_entity_def k timers_worth timers_delist timers_enlist timers_upd Let_def timers_same u_def[symmetric] if_distrib)
      (auto simp: u_def timers_same timers_enlist timers_upd)
qed

lemma worth_moved:
  assumes "my_q h e \<noteq> Some q"
  shows "same_worth h (upd_se x (\<lambda>y. y\<lparr>ge_on_rq := b\<rparr>) (upd_gq q f h)) e"
    "group_idle (upd_se x (\<lambda>y. y\<lparr>ge_on_rq := b\<rparr>) (upd_gq q f h)) e = group_idle h e"
  using assms by (auto simp: same_worth_def worth_upd_se worth_upd_gq boost_one_def group_idle_def group_throttled_def split: option.splits)

lemma counts_worth: "same_worth h k e \<Longrightarrow> counts_with k e = counts_with h e \<and> counts_without k e = counts_without h e"
  by (simp add: fun_eq_iff counts_with_def counts_without_def same_worth_def)

text \<open>The counters of a queue fit an entity on it.\<close>

definition fits :: "hier \<Rightarrow> nat \<Rightarrow> group_rq \<Rightarrow> bool" where
  "fits h e r \<longleftrightarrow> rt_se_nr_running h e \<le> gr_nr_running r \<and> group_se_rr h e \<le> gr_rr_nr_running r \<and> boost_one h e \<le> gr_nr_boosted r
     \<and> gr_highest r = int (sched_find_first_bit (bitmap (gr_active r))) \<and> gr_highest r \<le> group_se_prio h e \<and> group_se_prio h e < 100
     \<and> (gr_nr_running r = rt_se_nr_running h e \<longrightarrow> group_se_prio h e = gr_highest r)"

lemma counts_back: "fits h e r \<Longrightarrow> counts_with h e (counts_without h e r) = r"
  by (cases r) (auto simp: fits_def counts_with_def counts_without_def group_dec_prio_def MAX_RT_PRIO_def)

text \<open>The best priority of a queue is the first level in use, or none when nothing runs.\<close>

definition first_or_none :: "group_rq \<Rightarrow> bool" where
  "first_or_none r \<longleftrightarrow> gr_highest r = (if gr_nr_running r = 0 then 100 else int (sched_find_first_bit (bitmap (gr_active r))))"

lemma counts_forth: "first_or_none r \<Longrightarrow> group_se_prio h e < 100 \<Longrightarrow> counts_without h e (counts_with h e r) = r"
  by (cases r; cases "gr_nr_running r = 0") (auto simp: first_or_none_def counts_with_def counts_without_def group_dec_prio_def MAX_RT_PRIO_def)

lemma fits_first: "fits h e r \<Longrightarrow> first_or_none (counts_without h e r)"
  by (auto simp: fits_def first_or_none_def counts_without_def group_dec_prio_def MAX_RT_PRIO_def)

lemma upd_same: "f (h_q h q) = h_q h q \<Longrightarrow> g (h_se h e) = h_se h e \<Longrightarrow> upd_se e g (upd_gq q f h) = h"
  by (cases h) (simp add: upd_se_def upd_gq_def fun_upd_idem)

lemma off_and_on:
  assumes own: "my_q h e \<noteq> Some (rt_of h e)" and m: "\<not> move_entity f" "\<not> move_entity f'" and on: "on_rq h e"
    and g: "\<not> group_idle h e" and fit: "fits h e (h_q h (rt_of h e))"
  shows "but_timers h (group_enqueue_entity e f' (group_dequeue_entity e f h))"
proof -
  let ?q = "rt_of h e"
  define u where "u = group_dequeue_entity e f h"
  have u: "u = upd_se e (\<lambda>x. x\<lparr>ge_on_rq := False\<rparr>) (upd_gq ?q (counts_without h e) h)" unfolding u_def by (rule dequeue_keeps_list[OF own m(1)])
  note w = worth_moved[OF own, of e False "counts_without h e", folded u]
  have f: "my_q u e = my_q h e" "rt_of u e = ?q" by (simp_all add: u)
  have "group_enqueue_entity e f' u = start_group_bandwidth ?q (upd_se e (\<lambda>x. x\<lparr>ge_on_rq := True\<rparr>) (upd_gq ?q (counts_with h e) u))"
    using enqueue_keeps_list[of u e f'] own m(2) g w counts_worth[OF w(1)] f by simp
  also have "upd_se e (\<lambda>x. x\<lparr>ge_on_rq := True\<rparr>) (upd_gq ?q (counts_with h e) u) = h"
    unfolding u upd_upd by (rule upd_same) (use counts_back[OF fit] on in simp_all)
  finally show ?thesis unfolding u_def[symmetric] using timers_start by simp
qed

lemma on_and_off:
  assumes own: "my_q h e \<noteq> Some (rt_of h e)" and m: "\<not> move_entity f" "\<not> move_entity f'" and off: "\<not> on_rq h e"
    and g: "\<not> group_idle h e" and fit: "first_or_none (h_q h (rt_of h e))" "group_se_prio h e < 100"
  shows "but_timers h (group_dequeue_entity e f' (group_enqueue_entity e f h))"
proof -
  let ?q = "rt_of h e"
  define u where "u = upd_se e (\<lambda>x. x\<lparr>ge_on_rq := True\<rparr>) (upd_gq ?q (counts_with h e) h)"
  note w = worth_moved[OF own, of e True "counts_with h e", folded u_def]
  have f: "my_q u e = my_q h e" "rt_of u e = ?q" by (simp_all add: u_def)
  have "group_dequeue_entity e f' u = upd_se e (\<lambda>x. x\<lparr>ge_on_rq := False\<rparr>) (upd_gq ?q (counts_without h e) u)"
    using dequeue_keeps_list[of u e f'] own m(2) f counts_worth[OF w(1)] by simp
  also have "\<dots> = h" unfolding u_def upd_upd by (rule upd_same) (use counts_forth[OF fit] off in simp_all)
  finally have "group_dequeue_entity e f' u = h" .
  moreover have "but_timers u (group_enqueue_entity e f h)"
    using enqueue_keeps_list[OF own m(1) g] timers_start by (simp add: u_def)
  ultimately show ?thesis using timers_dequeue[of u "group_enqueue_entity e f h" e f'] by simp
qed

text \<open>All of \<open>es\<close> is marked as not queued in \<open>k\<close> and no longer counted; the lists have not changed since \<open>h\<close>.\<close>

definition uncounted :: "hier \<Rightarrow> nat list \<Rightarrow> hier \<Rightarrow> bool" where
  "uncounted h es k \<longleftrightarrow> same_shape h k \<and> (\<forall>x \<in> set es. \<not> on_rq k x \<and> h_q k (rt_of h x) = counts_without h x (h_q h (rt_of h x)))
     \<and> (\<forall>x. x \<notin> set es \<longrightarrow> h_se k x = h_se h x) \<and> (\<forall>q. q \<notin> rt_of h ` set es \<longrightarrow> h_q k q = h_q h q)"

lemma worth_same_queue:
  assumes "same_shape h k" "\<And>q. my_q h e = Some q \<Longrightarrow> h_q k q = h_q h q"
  shows "same_worth h k e" "group_idle k e = group_idle h e"
  using assms by (auto simp: same_worth_def same_shape_def group_se_prio_def rt_se_nr_running_def group_se_rr_def boost_one_def rt_se_boosted_def
      group_idle_def group_throttled_def split: option.splits)

lemma upward_below:
  assumes lv: "levels lv h" and up: "upward h (e # es)"
  shows "rt_of h e \<notin> rt_of h ` set es" "my_q h e = Some q \<Longrightarrow> q \<notin> rt_of h ` set es"
proof -
  note l = upward_lv[OF lv up]
  show "rt_of h e \<notin> rt_of h ` set es" using l by fastforce
  show "q \<notin> rt_of h ` set es" if "my_q h e = Some q"
  proof -
    have "lv q = Suc (lv (rt_of h e))" using levelsD(1,5)[OF lv] that by simp
    then show ?thesis using l by fastforce
  qed
qed

lemma uncounted_head:
  assumes lv: "levels lv h" and up: "upward h (e # es)" and k: "uncounted h es k"
  shows "h_se k e = h_se h e" "h_q k (rt_of h e) = h_q h (rt_of h e)" "same_worth h k e" "group_idle k e = group_idle h e" "same_shape h k"
proof -
  note b = upward_below[OF lv up]
  show sh: "same_shape h k" using k by (simp add: uncounted_def)
  show "h_se k e = h_se h e" using k upward_distinct[OF lv up] by (simp add: uncounted_def)
  show "h_q k (rt_of h e) = h_q h (rt_of h e)" using k b(1) by (simp add: uncounted_def)
  show "same_worth h k e" "group_idle k e = group_idle h e" using worth_same_queue[OF sh] k b(2) by (auto simp: uncounted_def)
qed

lemma uncounted_stack:
  assumes lv: "levels lv h" and m: "\<not> move_entity f"
  shows "upward h es \<Longrightarrow> (\<And>x. x \<in> set es \<Longrightarrow> on_rq h x) \<Longrightarrow> uncounted h es (fold (take_off f) (rev es) h)"
proof (induction es)
  case Nil
  then show ?case by (simp add: uncounted_def)
next
  case (Cons e es)
  define v where "v = fold (take_off f) (rev es) h"
  have v: "uncounted h es v" using Cons by (simp add: upward_Cons v_def)
  note hd = uncounted_head[OF lv Cons.prems(1) v]
  have own: "my_q v e \<noteq> Some (rt_of v e)" using not_own[OF lv] hd(1) by simp
  have d: "take_off f e v = upd_se e (\<lambda>x. x\<lparr>ge_on_rq := False\<rparr>) (upd_gq (rt_of h e) (counts_without h e) v)"
    using dequeue_keeps_list[OF own m] Cons.prems(2)[of e] hd(1) counts_worth[OF hd(3)] by simp
  note b = upward_below(1)[OF lv Cons.prems(1)] and ne = upward_distinct[OF lv Cons.prems(1)]
  have "uncounted h (e # es) (take_off f e v)" unfolding d using v hd b ne
    by (auto simp: uncounted_def same_shape_def counts_without_def image_iff)
  moreover have "fold (take_off f) (rev (e # es)) h = take_off f e v" by (simp add: v_def)
  ultimately show ?case by (simp only:)
qed

lemma enqueue_timers: "but_timers a b \<Longrightarrow> but_timers (fold (\<lambda>x. group_enqueue_entity x f) xs a) (fold (\<lambda>x. group_enqueue_entity x f) xs b)"
  by (induction xs arbitrary: a b) (simp_all add: timers_enqueue)

lemma restore_stack:
  assumes lv: "levels lv h" and m: "\<not> move_entity f" "\<not> move_entity f'"
  shows "upward h es \<Longrightarrow> (\<And>x. x \<in> set es \<Longrightarrow> on_rq h x \<and> \<not> group_idle h x \<and> fits h x (h_q h (rt_of h x)))
    \<Longrightarrow> but_timers h (fold (\<lambda>x. group_enqueue_entity x f') es (fold (take_off f) (rev es) h))"
proof (induction es)
  case (Cons e es)
  define v where "v = fold (take_off f) (rev es) h"
  have up: "upward h es" using Cons.prems(1) by (simp add: upward_Cons)
  have v: "uncounted h es v" unfolding v_def by (rule uncounted_stack[OF lv m(1) up]) (use Cons.prems(2) in simp)
  note hd = uncounted_head[OF lv Cons.prems(1) v]
  have on: "on_rq h e" "\<not> group_idle h e" "fits h e (h_q h (rt_of h e))" using Cons.prems(2)[of e] by simp_all
  have own: "my_q v e \<noteq> Some (rt_of v e)" using not_own[OF lv] hd(1) by simp
  have fit: "fits v e (h_q v (rt_of v e))" using on(3) hd by (simp add: fits_def same_worth_def)
  have "but_timers v (group_enqueue_entity e f' (group_dequeue_entity e f v))"
    by (rule off_and_on[OF own m _ _ fit]) (use on hd in simp_all)
  then have 1: "but_timers v (group_enqueue_entity e f' (take_off f e v))" using on(1) hd(1) by simp
  have "but_timers h (fold (\<lambda>x. group_enqueue_entity x f') es v)" using Cons.IH[OF up] Cons.prems(2) by (simp add: v_def)
  from but_timers_trans[OF this enqueue_timers[OF 1]]
  have "but_timers h (fold (\<lambda>x. group_enqueue_entity x f') (e # es) (take_off f e v))" by simp
  moreover have "fold (take_off f) (rev (e # es)) h = take_off f e v" by (simp add: v_def)
  ultimately show ?case by (simp only:)
qed simp

lemma take_off_timers: "but_timers a b \<Longrightarrow> but_timers (fold (take_off f) xs a) (fold (take_off f) xs b)"
proof (induction xs arbitrary: a b)
  case (Cons x xs)
  have "but_timers (take_off f x a) (take_off f x b)" using Cons.prems timers_dequeue[OF Cons.prems]
    by (elim timersE) (auto simp: timers_same)
  then show ?case using Cons.IH by simp
qed simp

text \<open>Groups put back for a moment and taken off again.\<close>

definition small :: "group_rq \<Rightarrow> bool" where
  "small r \<longleftrightarrow> gr_nr_running r \<noteq> 0 \<longrightarrow> gr_highest r < 100"

lemma fits_small: "fits h e r \<Longrightarrow> small (counts_without h e r)"
  by (auto simp: fits_def small_def counts_without_def group_dec_prio_def)

lemma requeue_up_effect:
  assumes own: "my_q h e \<noteq> Some (rt_of h e)" and m: "\<not> move_entity f" "\<not> move_entity f'" and off: "\<not> on_rq h e"
    and th: "\<And>g. my_q h e = Some g \<Longrightarrow> \<not> gr_throttled (h_q h g) \<and> small (h_q h g)"
    and fit: "first_or_none (h_q h (rt_of h e))" "small (h_q h (rt_of h e))"
  defines "k \<equiv> group_requeue_up f e h"
  shows "but_timers h (take_off f' e k)" "same_shape h k" "small (h_q k (rt_of h e))"
    "x \<noteq> e \<Longrightarrow> h_se k x = h_se h x" "q \<noteq> rt_of h e \<Longrightarrow> h_q k q = h_q h q" "gr_throttled (h_q k q') = gr_throttled (h_q h q')"
proof -
  have "but_timers h (take_off f' e k) \<and> same_shape h k \<and> small (h_q k (rt_of h e)) \<and> (\<forall>x. x \<noteq> e \<longrightarrow> h_se k x = h_se h x)
    \<and> (\<forall>q. q \<noteq> rt_of h e \<longrightarrow> h_q k q = h_q h q) \<and> (\<forall>q'. gr_throttled (h_q k q') = gr_throttled (h_q h q'))"
  proof (cases "\<exists>g. my_q h e = Some g \<and> gr_nr_running (h_q h g) \<noteq> 0")
    case False
    then have "k = h" by (auto simp: k_def group_requeue_up_def split: option.splits)
    then show ?thesis using off fit(2) by simp
  next
    case True
    then obtain g where g: "my_q h e = Some g" "gr_nr_running (h_q h g) \<noteq> 0" by blast
    have idle: "\<not> group_idle h e" using g th by (simp add: group_idle_def group_throttled_def)
    have p: "group_se_prio h e < 100" using th[OF g(1)] g by (simp add: group_se_prio_def small_def)
    have k: "k = group_enqueue_entity e f h" using g by (simp add: k_def group_requeue_up_def)
    note e = enqueue_keeps_list[OF own m(1) idle, folded k]
    have "but_timers h (group_dequeue_entity e f' k)" unfolding k by (rule on_and_off[OF own m off idle fit(1) p])
    moreover have "on_rq k e" by (simp add: e)
    ultimately show ?thesis using p by (simp add: e same_shape_def counts_with_def small_def)
  qed
  then show "but_timers h (take_off f' e k)" "same_shape h k" "small (h_q k (rt_of h e))"
    "x \<noteq> e \<Longrightarrow> h_se k x = h_se h x" "q \<noteq> rt_of h e \<Longrightarrow> h_q k q = h_q h q" "gr_throttled (h_q k q') = gr_throttled (h_q h q')"
    by simp_all
qed

lemma undo_stack:
  assumes m: "\<not> move_entity f" "\<not> move_entity f'"
  shows "levels lv h \<Longrightarrow> upward h es
    \<Longrightarrow> (\<And>x. x \<in> set es \<Longrightarrow> \<not> on_rq h x \<and> first_or_none (h_q h (rt_of h x)) \<and> small (h_q h (rt_of h x)))
    \<Longrightarrow> (\<And>x g. x \<in> set es \<Longrightarrow> my_q h x = Some g \<Longrightarrow> \<not> gr_throttled (h_q h g))
    \<Longrightarrow> (\<And>g. es \<noteq> [] \<Longrightarrow> my_q h (hd es) = Some g \<Longrightarrow> small (h_q h g))
    \<Longrightarrow> but_timers h (fold (take_off f') (rev es) (fold (group_requeue_up f) es h))"
proof (induction es arbitrary: h)
  case (Cons e es)
  note lv = Cons.prems(1) and up = Cons.prems(2)
  define k where "k = group_requeue_up f e h"
  note u = requeue_up_effect[OF not_own[OF lv, of e] m, folded k_def]
  have e: "\<not> on_rq h e" "first_or_none (h_q h (rt_of h e))" "small (h_q h (rt_of h e))" using Cons.prems(3)[of e] by simp_all
  have th: "\<not> gr_throttled (h_q h g) \<and> small (h_q h g)" if "my_q h e = Some g" for g using Cons.prems(4)[of e g] Cons.prems(5)[of g] that by simp
  note u = u[OF e(1) th e(2,3)]
  have sh: "same_shape h k" using u(2) by simp
  note f = same_shape_levels_fields[OF sh]
  note b = upward_below(1)[OF lv up] and ne = upward_distinct[OF lv up]
  have up1: "upward k es" using up upward_shape[OF sh] by (simp add: upward_Cons)
  have "but_timers k (fold (take_off f') (rev es) (fold (group_requeue_up f) es k))"
  proof (rule Cons.IH[OF levels_shape[OF lv sh] up1])
    show "\<not> on_rq k x \<and> first_or_none (h_q k (rt_of k x)) \<and> small (h_q k (rt_of k x))" if x: "x \<in> set es" for x
    proof -
      have "x \<noteq> e" "rt_of h x \<noteq> rt_of h e" using x ne b by (auto simp: image_iff)
      then show ?thesis using Cons.prems(3)[of x] x f u(4)[of x] u(5)[of "rt_of h x"] by simp
    qed
    show "\<not> gr_throttled (h_q k g)" if "x \<in> set es" "my_q k x = Some g" for x g
      using that Cons.prems(4)[of x g] f u(6) by simp
    show "small (h_q k g)" if "es \<noteq> []" "my_q k (hd es) = Some g" for g
    proof -
      have "h_tg_se h (rt_of h e) = Some (hd es)" using up that(1) by (cases es) simp_all
      then have "g = rt_of h e" using my_q_owner[OF lv] that(2) f by fastforce
      then show ?thesis using u(3) by simp
    qed
  qed
  then have "but_timers k (fold (take_off f') (rev es) (fold (group_requeue_up f) es k))" .
  from take_off_timers[OF this, of f' "[e]"]
  have "but_timers (take_off f' e k) (fold (take_off f') (rev (e # es)) (fold (group_requeue_up f) (e # es) h))"
    by (simp add: k_def[symmetric] split del: if_split)
  then show ?case using u(1) but_timers_trans by blast
qed simp

definition unmoved :: "hier \<Rightarrow> hier \<Rightarrow> bool" where
  "unmoved h k \<longleftrightarrow> (\<forall>q. gr_queued (h_q k q) = gr_queued (h_q h q)) \<and> (\<forall>x. ge_parent (h_se k x) = ge_parent (h_se h x) \<and> rt_of k x = rt_of h x) \<and> h_depth k = h_depth h"

lemma unmoved_refl [simp]: "unmoved h h"
  by (simp add: unmoved_def)

lemma unmoved_trans: "unmoved h k \<Longrightarrow> unmoved k l \<Longrightarrow> unmoved h l"
  by (simp add: unmoved_def)

lemma unmoved_parts:
  "unmoved h (hier_fault x h)" "unmoved h (group_delist e h)" "unmoved h (group_enlist e b h)" "unmoved h (group_dec_tasks e q h)"
  "unmoved h (group_inc_tasks e q h)" "unmoved h (upd_se e (\<lambda>x. x\<lparr>ge_on_rq := b\<rparr>) h)"
  by (auto simp: unmoved_def hier_fault_def group_delist_def group_enlist_def group_dec_tasks_def dec_rt_group_def group_inc_tasks_def
      inc_rt_group_def Let_def split: option.splits)

lemma unmoved_entity: "unmoved h (group_dequeue_entity e f h)" "unmoved h (group_enqueue_entity e f h)" "unmoved h (group_requeue_up f e h)"
proof -
  have 1: "unmoved h (if b then group_delist e h else h)" "unmoved h (if b then group_enlist e c h else h)" for b c by (simp_all add: unmoved_parts)
  have 2: "unmoved h k \<Longrightarrow> unmoved h (upd_se e (\<lambda>x. x\<lparr>ge_on_rq := b\<rparr>) k)" for k b by (rule unmoved_trans[OF _ unmoved_parts(6)])
  show "unmoved h (group_dequeue_entity e f h)" unfolding group_dequeue_entity_def Let_def
    by (rule unmoved_trans[OF 2[OF 1(1)] unmoved_parts(4)])
  have "unmoved h (group_inc_tasks e q (upd_se e (\<lambda>x. x\<lparr>ge_on_rq := True\<rparr>) (if b then group_enlist e c h else h)))" for b c q
    by (rule unmoved_trans[OF 2[OF 1(2)] unmoved_parts(5)])
  then show e: "unmoved h (group_enqueue_entity e f h)" unfolding group_enqueue_entity_def Let_def by (simp add: unmoved_parts)
  show "unmoved h (group_requeue_up f e h)" using e by (simp add: group_requeue_up_def split: option.splits)
qed

lemma unmoved_folds: "unmoved h (fold (take_off f) es h)" "unmoved h (fold (group_requeue_up f) es h)"
proof -
  show "unmoved h (fold (take_off f) es h)"
  proof (induction es arbitrary: h)
    case (Cons e es)
    have "unmoved h (take_off f e h)" by (simp add: unmoved_entity)
    from unmoved_trans[OF this Cons.IH] show ?case by simp
  qed simp
  show "unmoved h (fold (group_requeue_up f) es h)"
  proof (induction es arbitrary: h)
    case (Cons e es)
    from unmoved_trans[OF unmoved_entity(3) Cons.IH] show ?case by simp
  qed simp
qed

lemma unmoved_chain: "unmoved h k \<Longrightarrow> chain k n e = chain h n e"
  by (induction n arbitrary: e) (simp_all add: unmoved_def split: option.splits)

lemma top_back:
  assumes "\<not> gr_queued (h_q u 0)"
  shows "dequeue_top_group 0 (enqueue_top_group u) = u"
proof -
  have "upd_gq 0 (\<lambda>r. r\<lparr>gr_queued := False\<rparr>) u = u" using assms by (cases u, cases "h_q u 0") (simp add: upd_gq_def fun_upd_idem_iff)
  then show ?thesis using assms by (cases u) (auto simp: enqueue_top_group_def dequeue_top_group_def upd_gq_def)
qed

lemma top_forth:
  assumes "top_ok n h"
  shows "enqueue_top_group (dequeue_top_group 0 h) = h"
proof -
  have "upd_gq 0 (\<lambda>r. r\<lparr>gr_queued := True\<rparr>) h = h" if "gr_queued (h_q h 0)" using that by (cases h, cases "h_q h 0") (simp add: upd_gq_def fun_upd_idem_iff)
  then show ?thesis using assms
    by (cases h) (auto simp: enqueue_top_group_def dequeue_top_group_def upd_gq_def top_ok_def live_def group_throttled_def)
qed

lemma timers_top: "but_timers h k \<Longrightarrow> but_timers (enqueue_top_group h) (enqueue_top_group k)"
  by (erule timersE) (simp add: enqueue_top_group_def timers_worth timers_upd but_timers_def upd_gq_def)

lemma queued_fits:
  assumes c: "core h" and on: "on_rq h e"
  shows "fits h e (h_q h (rt_of h e))"
proof -
  let ?q = "rt_of h e" and ?S = "on_q h (rt_of h e)"
  have ok: "queue_ok h ?q" and e: "e \<in> ?S" using c on by (simp_all add: core_def on_q_member)
  have lh: "levels_hold (gr_active (h_q h ?q)) (group_se_prio h) ?S" using ok by (simp add: queue_ok_def)
  have fin: "finite ?S" by (rule levels_hold_set(2)[OF lh])
  have best: "is_best (group_se_prio h) ?S (gr_highest (h_q h ?q))" using ok by (simp add: queue_ok_def)
  have rem: "sum g ?S = g e + sum g (?S - {e})" for g :: "nat \<Rightarrow> nat" by (rule sum.remove[OF fin e])
  have alone: "group_se_prio h e = gr_highest (h_q h ?q)" if "gr_nr_running (h_q h ?q) = rt_se_nr_running h e"
  proof -
    have "sum (rt_se_nr_running h) (?S - {e}) = 0" using that ok rem[of "rt_se_nr_running h"] by (simp add: queue_ok_def)
    moreover have "rt_se_nr_running h x \<noteq> 0" if "x \<in> ?S" for x using that c by (simp add: on_q_def core_def)
    ultimately have "?S = {e}" using fin e by auto
    then show ?thesis using best by (simp add: is_best_def)
  qed
  have "rt_index_ok (group_se_prio h e)" using lh e by (simp add: levels_hold_def)
  then show ?thesis unfolding fits_def
    using ok rem is_best_unique[OF best first_bit_best[OF lh]] best e alone
    by (auto simp: queue_ok_def is_best_def rt_index_ok_def MAX_RT_PRIO_def)
qed

lemma stack_save_restore:
  assumes lv: "levels lv h" and up: "upward h es" and m: "\<not> move_entity f" "\<not> move_entity f'"
    and on: "\<And>x. x \<in> set es \<Longrightarrow> on_rq h x \<and> \<not> group_idle h x \<and> fits h x (h_q h (rt_of h x))"
    and my: "\<And>x g. x \<in> set es \<Longrightarrow> my_q h x = Some g \<Longrightarrow> \<not> gr_throttled (h_q h g) \<and> (\<exists>y \<in> set es. g = rt_of h y)"
  shows "but_timers h (fold (\<lambda>x. group_enqueue_entity x f') es
    (fold (take_off f') (rev es) (fold (group_requeue_up f) es (fold (take_off f) (rev es) h))))"
proof -
  define d where "d = fold (take_off f) (rev es) h"
  have unc: "uncounted h es d" unfolding d_def by (rule uncounted_stack[OF lv m(1) up]) (use on in simp)
  have sh: "same_shape h d" using unc by (simp add: uncounted_def)
  note s = same_shape_levels_fields[OF sh]
  have q: "h_q d (rt_of h x) = counts_without h x (h_q h (rt_of h x))" "\<not> on_rq d x" if "x \<in> set es" for x
    using unc that by (simp_all add: uncounted_def)
  have "but_timers d (fold (take_off f') (rev es) (fold (group_requeue_up f) es d))"
  proof (rule undo_stack[OF m levels_shape[OF lv sh]])
    show "upward d es" using up upward_shape[OF sh] by simp
    show "\<not> on_rq d x \<and> first_or_none (h_q d (rt_of d x)) \<and> small (h_q d (rt_of d x))" if "x \<in> set es" for x
      using q[OF that] on[OF that] s fits_first[of h x] fits_small[of h x] by simp
    show "\<not> gr_throttled (h_q d g)" if x: "x \<in> set es" "my_q d x = Some g" for x g
    proof -
      obtain y where "y \<in> set es" "g = rt_of h y" "\<not> gr_throttled (h_q h g)" using my x s by auto
      then show ?thesis using q(1)[of y] by (simp add: counts_without_def)
    qed
    show "small (h_q d g)" if x: "es \<noteq> []" "my_q d (hd es) = Some g" for g
    proof -
      obtain y where "y \<in> set es" "g = rt_of h y" using my[of "hd es" g] x s by auto
      then show ?thesis using q(1)[of y] on[of y] fits_small[of h y] by simp
    qed
  qed
  from enqueue_timers[OF this, of f' es] have "but_timers (fold (\<lambda>x. group_enqueue_entity x f') es d)
    (fold (\<lambda>x. group_enqueue_entity x f') es (fold (take_off f') (rev es) (fold (group_requeue_up f) es d)))" .
  moreover have "but_timers h (fold (\<lambda>x. group_enqueue_entity x f') es d)" unfolding d_def by (rule restore_stack[OF lv m up on])
  ultimately show ?thesis unfolding d_def[symmetric] using but_timers_trans by blast
qed

lemma load_fits:
  assumes "same_load h k"
  shows "fits k x (h_q k q) = fits h x (h_q h q)" "group_idle k x = group_idle h x"
proof -
  have w: "group_se_prio k x = group_se_prio h x" "rt_se_nr_running k x = rt_se_nr_running h x" "group_se_rr k x = group_se_rr h x"
    "boost_one k x = boost_one h x" and i: "group_idle k x = group_idle h x"
    using assms by (auto simp: same_load_defs group_se_prio_def rt_se_nr_running_def group_se_rr_def boost_one_def
        rt_se_boosted_def group_idle_def group_throttled_def split: option.splits)
  show "group_idle k x = group_idle h x" by (rule i)
  show "fits k x (h_q k q) = fits h x (h_q h q)" using assms by (simp add: fits_def w same_load_defs)
qed

text \<open>
  C5: Taking a queued task off with \<open>DEQUEUE_SAVE\<close> and putting it back with \<open>ENQUEUE_RESTORE\<close>, both without \<open>MOVE\<close>, as
  a change of its affinity does, leaves the whole hierarchy as it was, when no queue on the way up is
  marked as throttled: every list in its order, every counter, every best priority; only the timers of the
  bandwidth may have been started.
\<close>

theorem hier_save_restore:
  assumes reach: "hier_reach n T h" and p: "p \<in> T" and m: "\<not> move_entity f" "\<not> move_entity f'"
    and th: "\<forall>x \<in> set (se_chain h p). \<not> gr_throttled (h_q h (ge_rt_rq (h_se h x)))"
  shows "(group_enqueue p f' (group_dequeue p f h))\<lparr>h_tg_bw := h_tg_bw h\<rparr> = h"
proof -
  have good: "hier_good n T h" by (rule reach_good[OF reach])
  obtain lv where lv: "levels lv h" and c: "core h" and g: "groups_queued {} h" and t: "top_ok n h"
    using good by (auto simp: hier_good_def)
  obtain xs where ch: "se_chain h p = p # xs" and up: "upward h (p # xs)" by (rule upward_se_chain[OF lv])
  let ?es = "p # xs"
  have pq: "my_q h p = None" "on_rq h p" using queued_task[OF good p] by simp_all
  have nt: "\<not> gr_throttled (h_q h (rt_of h x))" if "x \<in> set ?es" for x using th that unfolding ch by blast
  have on: "on_rq h x" if "x \<in> set ?es" for x
  proof (cases "x = p")
    case False
    then have x: "x \<in> set xs" using that by simp
    have "\<not> group_throttled h (rt_of h y)" if "y \<in> set ?es" for y using nt[OF that] unfolding group_throttled_def by blast
    then show ?thesis by (rule way_up_on[OF lv c g up pq(2) _ x])
  qed (use pq(2) in simp)
  have my: "\<exists>y \<in> set ?es. q = rt_of h y" if "x \<in> set ?es" "my_q h x = Some q" for x q
  proof -
    have x: "x \<in> set (se_chain h p)" "x \<noteq> p" using that pq(1) unfolding ch by auto
    obtain y where y: "y \<in> set (se_chain h p)" "h_tg_se h (rt_of h y) = Some x" by (rule chain_pred[OF lv x])
    have "q = rt_of h y" using my_q_owner[OF lv y(2)] that(2) by simp
    then show ?thesis using y(1) unfolding ch by blast
  qed
  have idle: "\<not> group_idle h x" if x: "x \<in> set ?es" for x
  proof (cases "my_q h x")
    case (Some q)
    then obtain y where y: "y \<in> set ?es" "q = rt_of h y" using my x by blast
    show ?thesis using Some y nt[OF y(1)] queued_nr[OF c on[OF y(1)]] by (simp add: group_idle_def group_throttled_def)
  qed (simp add: group_idle_def)
  have m2: "\<not> gr_throttled (h_q h q) \<and> (\<exists>y \<in> set ?es. q = rt_of h y)" if "x \<in> set ?es" "my_q h x = Some q" for x q
    using my[OF that] nt by blast
  define h0 where "h0 = dequeue_top_group 0 h"
  have load: "same_load h h0" and off: "top_off n h0" using root_dequeue_effect[OF top_ok_weak[OF t]] by (simp_all add: h0_def)
  note l = same_loadD[OF load]
  define u where "u = fold (group_requeue_up f) ?es (fold (take_off f) (rev ?es) h0)"
  have bt: "but_timers h0 (fold (\<lambda>x. group_enqueue_entity x f') ?es (fold (take_off f') (rev ?es) u))"
    unfolding u_def
  proof (rule stack_save_restore[OF levels_shape[OF lv l(1)] _ m])
    show "upward h0 ?es" using up upward_shape[OF l(1)] by simp
    show "on_rq h0 x \<and> \<not> group_idle h0 x \<and> fits h0 x (h_q h0 (rt_of h0 x))" if "x \<in> set ?es" for x
      using on[OF that] idle[OF that] queued_fits[OF c on[OF that]] load_fits[OF load] l(2) by simp
    show "\<not> gr_throttled (h_q h0 q) \<and> (\<exists>y \<in> set ?es. q = rt_of h0 y)" if "x \<in> set ?es" "my_q h0 x = Some q" for x q
      using m2[OF that(1), of q] that(2) l(2) load by (simp add: same_load_def)
  qed
  have last: "rt_of h (last ?es) = 0" by (rule upward_last[OF lv up]) simp
  have um: "unmoved h0 u" unfolding u_def by (rule unmoved_trans[OF unmoved_folds])
  have H1: "group_dequeue p f h = enqueue_top_group u"
    unfolding group_dequeue_def group_dequeue_stack_def ch last h0_def[symmetric] u_def ..
  have uq: "\<not> gr_queued (h_q u 0)" using um off by (simp add: unmoved_def top_off_def)
  have par: "ge_parent (h_se (enqueue_top_group u) x) = ge_parent (h_se h x)" "rt_of (enqueue_top_group u) x = rt_of h x"
    "h_depth (enqueue_top_group u) = h_depth h" for x
    using um l(2) load by (simp_all add: unmoved_def enqueue_top_group_def same_load_defs)
  have "chain (enqueue_top_group u) k x = chain h k x" for k x by (induction k arbitrary: x) (simp_all add: par split: option.splits)
  then have ch1: "se_chain (enqueue_top_group u) p = ?es" using ch par(3) by simp
  have "group_enqueue p f' (group_dequeue p f h) = enqueue_top_group (fold (\<lambda>x. group_enqueue_entity x f') ?es (fold (take_off f') (rev ?es) u))"
    unfolding H1 group_enqueue_def group_dequeue_stack_def ch1 par(2) last top_back[OF uq] ..
  then have "but_timers h (group_enqueue p f' (group_dequeue p f h))"
    using timers_top[OF bt] top_forth[OF t] by (simp add: h0_def)
  then show ?thesis by (rule timersE) simp
qed

section \<open>A boosted task in a throttled group\<close>

text \<open>
  Two tasks are in the group, one of them boosted by the owner of a lock it holds.  The group has used up its time:
  it is marked as throttled, but goes on because of the boosted task.
\<close>

definition hier_group_task :: "nat \<Rightarrow> int \<Rightarrow> int \<Rightarrow> hier \<Rightarrow> hier" where
  "hier_group_task p a b h = group_set_task_rq p 1 (h\<lparr>h_prio := (h_prio h)(p := a), h_normal_prio := (h_normal_prio h)(p := b),
     h_policy := (h_policy h)(p := SCHED_FIFO)\<rparr>)"

definition hier_group_bandwidth :: "nat \<Rightarrow> u64 \<Rightarrow> hier \<Rightarrow> hier" where
  "hier_group_bandwidth q u h = upd_gq q (\<lambda>r. r\<lparr>gr_runtime := u\<rparr>)
     (h\<lparr>h_tg_bw := (h_tg_bw h)(q := \<lparr>rt_period = 1000000, rtb_runtime = u, rt_period_active = False\<rparr>)\<rparr>)"

definition hier_two_tasks :: hier where
  "hier_two_tasks = hier_group_bandwidth 1 1000 (hier_group_bandwidth 0 500000
     (hier_group_task 6 20 20 (hier_group_task 5 10 20 hier_one_group)))"

definition hier_boosted :: hier where
  "hier_boosted = group_update_curr False (\<lambda>_. 0) 2000
     ((group_enqueue 6 0 (group_enqueue 5 0 hier_two_tasks))\<lparr>h_curr := 5, h_resched := False\<rparr>)"

lemma group_task_reach:
  assumes "hier_reach n T h" "ge_my_q (h_se h p) = None" "p \<notin> T" "h_tg_se h 1 = Some e"
  shows "hier_reach n T (hier_group_task p a b h)" "h_tg_se (hier_group_task p a b h) 1 = Some e"
    "ge_my_q (h_se (hier_group_task p a b h) x) = ge_my_q (h_se h x)"
proof -
  have "hier_reach n T (h\<lparr>h_prio := (h_prio h)(p := a), h_normal_prio := (h_normal_prio h)(p := b), h_policy := (h_policy h)(p := SCHED_FIFO)\<rparr>)"
    by (rule hier_reach.set_prio[OF assms(1-3)])
  then show "hier_reach n T (hier_group_task p a b h)" unfolding hier_group_task_def
    by (rule hier_reach.move) (use assms in auto)
  show "h_tg_se (hier_group_task p a b h) 1 = Some e" "ge_my_q (h_se (hier_group_task p a b h) x) = ge_my_q (h_se h x)"
    using assms by (simp_all add: hier_group_task_def group_set_task_rq_def)
qed

lemma boosted_reach: "hier_reach 0 {5, 6} hier_boosted"
proof -
  have se: "ge_my_q (h_se hier_one_group 5) = None" "ge_my_q (h_se hier_one_group 6) = None" using one_group(2) by simp_all
  define h5 where "h5 = hier_group_task 5 10 20 hier_one_group"
  have t5: "hier_reach 0 {} h5" "h_tg_se h5 1 = Some 7" "ge_my_q (h_se h5 6) = None" unfolding h5_def
    using group_task_reach[OF one_group(1) se(1) emptyE[THEN notI] one_group(3)] se(2) by simp_all
  have t6: "hier_reach 0 {} (hier_group_task 6 20 20 h5)" by (rule group_task_reach(1)[OF t5(1,3) _ t5(2)]) simp
  have 1: "hier_reach 0 {} hier_two_tasks" unfolding hier_two_tasks_def hier_group_bandwidth_def
    by (rule hier_reach.bandwidth[OF hier_reach.bandwidth[OF t6[unfolded h5_def]]])
  have "hier_reach 0 {5} (group_enqueue 5 0 hier_two_tasks)"
    by (rule hier_reach.enqueue[OF 1 _ _ zero_move]) code_simp+
  then have "hier_reach 0 {6, 5} (group_enqueue 6 0 (group_enqueue 5 0 hier_two_tasks))"
    by (rule hier_reach.enqueue[OF _ _ _ zero_move]) code_simp+
  from hier_reach.update_curr[OF hier_reach.switch[OF this]] show ?thesis unfolding hier_boosted_def by (simp add: insert_commute)
qed

text \<open>
  When the affinity of the boosted task is changed now, the group is taken off its list while the task is off, and
  not put back on it: it is counted, its task may run, but no queue leads to it, and the next pick hits a \<open>BUG\<close>.
\<close>

theorem restore_loses_boosted_group:
  "hier_reach 0 {5, 6} hier_boosted
    \<and> group_pick_task hier_boosted = Some 5
    \<and> gr_queued (h_q (group_enqueue 5 ENQUEUE_RESTORE (group_dequeue 5 DEQUEUE_SAVE hier_boosted)) 0)
    \<and> eligible (group_enqueue 5 ENQUEUE_RESTORE (group_dequeue 5 DEQUEUE_SAVE hier_boosted)) 5
    \<and> group_pick_task (group_enqueue 5 ENQUEUE_RESTORE (group_dequeue 5 DEQUEUE_SAVE hier_boosted)) = None"
proof (intro conjI)
  show "hier_reach 0 {5, 6} hier_boosted" by (rule boosted_reach)
qed (code_simp+)

theorem hier_save_restore_witness:
  "hier_reach 0 {5} (group_enqueue 5 0 hier_one_task)
    \<and> (group_enqueue 5 ENQUEUE_RESTORE (group_dequeue 5 DEQUEUE_SAVE (group_enqueue 5 0 hier_one_task)))
        \<lparr>h_tg_bw := h_tg_bw (group_enqueue 5 0 hier_one_task)\<rparr> = group_enqueue 5 0 hier_one_task"
proof
  show "hier_reach 0 {5} (group_enqueue 5 0 hier_one_task)" by (rule one_task_reach)
  have "\<forall>x \<in> set (se_chain (group_enqueue 5 0 hier_one_task) 5).
    \<not> gr_throttled (h_q (group_enqueue 5 0 hier_one_task) (ge_rt_rq (h_se (group_enqueue 5 0 hier_one_task) x)))" by code_simp
  then show "(group_enqueue 5 ENQUEUE_RESTORE (group_dequeue 5 DEQUEUE_SAVE (group_enqueue 5 0 hier_one_task)))
        \<lparr>h_tg_bw := h_tg_bw (group_enqueue 5 0 hier_one_task)\<rparr> = group_enqueue 5 0 hier_one_task"
    by (rule hier_save_restore[OF one_task_reach, rotated -1]) (code_simp+)
qed

end
