(* ===== verification/Sched_Params.thy ===== *)
theory Sched_Params
  imports Sched_Core
begin

text \<open>
  Changing the scheduling parameters of a task (\<open>kernel/sched/core.c\<close>): nice values, priority
  inheritance, \<open>__sched_setscheduler\<close> with its permission checks, the system calls built on it, the
  queries, and the affinity calls.
\<close>

section \<open>What the checks depend on\<close>

text \<open>\<open>struct sched_attr\<close> of the user interface; a negative policy is SETPARAM\_POLICY.\<close>

record sched_attr =
  a_policy :: int
  a_flags :: u64
  a_nice :: int
  a_priority :: u32
  a_runtime :: u64
  a_deadline :: u64
  a_period :: u64

text \<open>
  The caller's rights and the code of the deadline class, the security modules, rt-mutexes and
  cpusets that the calls consult.  \<open>x_lock\<close> is what other CPUs may do to the state before the
  run-queue lock is taken.
\<close>

record params_env =
  x_capable :: bool
  x_ns_capable :: "task_id \<Rightarrow> bool"
  x_euid :: nat
  x_task_euid :: "task_id \<Rightarrow> nat"
  x_task_uid :: "task_id \<Rightarrow> nat"
  x_rlimit_nice :: "task_id \<Rightarrow> int"
  x_rlimit_rtprio :: "task_id \<Rightarrow> nat"
  x_sec_setscheduler :: "task_id \<Rightarrow> errno option"
  x_sec_getscheduler :: "task_id \<Rightarrow> errno option"
  x_sec_setnice :: "task_id \<Rightarrow> int \<Rightarrow> errno option"
  x_checkparam_dl :: "sched_attr \<Rightarrow> bool"
  x_setparam_dl :: "task_id \<Rightarrow> sched_attr \<Rightarrow> sys \<Rightarrow> sys"
  x_getparam_dl :: "sys \<Rightarrow> task_id \<Rightarrow> sched_attr \<Rightarrow> sched_attr"
  x_dl_param_changed :: "sys \<Rightarrow> task_id \<Rightarrow> sched_attr \<Rightarrow> bool"
  x_dl_overflow :: "sys \<Rightarrow> task_id \<Rightarrow> int \<Rightarrow> sched_attr \<Rightarrow> bool"
  x_dl_entity_preempt :: "sys \<Rightarrow> task_id \<Rightarrow> task_id \<Rightarrow> bool"
  x_dl_bw :: "nat \<Rightarrow> u64"
  x_adjust_pi :: "task_id \<Rightarrow> sys \<Rightarrow> sys"
  x_find_task :: "sys \<Rightarrow> int \<Rightarrow> task_id option"
  x_lock :: "task_id \<Rightarrow> sys \<Rightarrow> sys"
  x_in_interrupt :: bool
  x_cpuset_allowed :: "sys \<Rightarrow> task_id \<Rightarrow> cpumask"

abbreviation current :: "sys \<Rightarrow> task_id" where
  "current s \<equiv> rq_curr (rqs s (this_cpu s))"

definition SETPARAM_POLICY :: int where "SETPARAM_POLICY = - 1"

section \<open>Priority inheritance\<close>

definition rt_effective_prio_of :: "sys \<Rightarrow> task_id option \<Rightarrow> int \<Rightarrow> int" where
  "rt_effective_prio_of s pi_task prio =
     (case pi_task of None \<Rightarrow> prio | Some t \<Rightarrow> min prio (p_prio (tasks s t)))"

definition rt_effective_prio :: "sys \<Rightarrow> task_id \<Rightarrow> int \<Rightarrow> int" where
  "rt_effective_prio s p prio = rt_effective_prio_of s (p_pi_top_task (tasks s p)) prio"

text \<open>
  The class, deadline-boost and enqueue-flag decisions of \<open>rt_mutex_setprio\<close>, made between dequeue
  and enqueue.
\<close>

definition setprio_class :: "params_env \<Rightarrow> task_id \<Rightarrow> task_id option \<Rightarrow> int \<Rightarrow> int \<Rightarrow> u32 \<Rightarrow> sys \<Rightarrow> u32 \<times> sys" where
  "setprio_class x p pi_task prio oldprio queue_flag s =
     (if dl_prio prio then
        let boost = (\<not> dl_prio (p_normal_prio (tasks s p)) \<or>
              (case pi_task of None \<Rightarrow> False
               | Some t \<Rightarrow> dl_prio (p_prio (tasks s t)) \<and> x_dl_entity_preempt x s t p))
        in (if boost then queue_flag OR ENQUEUE_REPLENISH else queue_flag,
            upd_task p (\<lambda>t. t\<lparr>p_dl_boosted := boost, p_sched_class := Dl_class\<rparr>) s)
      else if rt_prio prio then
        (if oldprio < prio then queue_flag OR ENQUEUE_HEAD else queue_flag,
         upd_task p (\<lambda>t. t\<lparr>p_dl_boosted := (if dl_prio oldprio then False else p_dl_boosted t),
                           p_sched_class := Rt_class\<rparr>) s)
      else
        (queue_flag,
         upd_task p (\<lambda>t. t\<lparr>p_dl_boosted := (if dl_prio oldprio then False else p_dl_boosted t),
                           p_rt := (if rt_prio oldprio then (p_rt t)\<lparr>rte_timeout := 0\<rparr> else p_rt t),
                           p_sched_class := Fair_class\<rparr>) s))"

definition rt_mutex_setprio :: "kenv \<Rightarrow> params_env \<Rightarrow> task_id \<Rightarrow> task_id option \<Rightarrow> sys \<Rightarrow> sys" where
  "rt_mutex_setprio e x p pi_task s =
     (let prio = rt_effective_prio_of s pi_task (p_normal_prio (tasks s p))
      in if p_pi_top_task (tasks s p) = pi_task \<and> prio = p_prio (tasks s p) \<and> \<not> dl_prio prio then s
         else
           let c = p_cpu (tasks s p);
               s1 = upd_task p (\<lambda>t. t\<lparr>p_pi_top_task := pi_task\<rparr>) (update_rq_clock c s)
           in if (prio = p_prio (tasks s1 p) \<and> \<not> dl_prio prio) \<or> p = rq_idle (rqs s1 c)
                then balance_callback e c s1
              else
                let oldprio = p_prio (tasks s1 p);
                    queue_flag = DEQUEUE_SAVE OR DEQUEUE_NOCLOCK OR (if oldprio = prio then 0 else DEQUEUE_MOVE);
                    prev_class = p_sched_class (tasks s1 p);
                    queued = task_on_rq_queued s1 p;
                    running = task_current s1 c p;
                    s2 = (if queued then dequeue_task e c p queue_flag s1 else s1);
                    s3 = (if running then put_prev_task e c p s2 else s2);
                    (flags, s4) = setprio_class x p pi_task prio oldprio queue_flag s3;
                    s5 = upd_task p (\<lambda>t. t\<lparr>p_prio := prio\<rparr>) s4;
                    s6 = (if queued then enqueue_task e c p flags s5 else s5);
                    s7 = (if running then set_curr_task e c p s6 else s6)
                in balance_callback e c (check_class_changed e c p prev_class oldprio s7))"

section \<open>Nice values\<close>

definition set_user_nice :: "kenv \<Rightarrow> task_id \<Rightarrow> int \<Rightarrow> sys \<Rightarrow> sys" where
  "set_user_nice e p nice s =
     (if task_nice (tasks s p) = nice \<or> nice < MIN_NICE \<or> nice > MAX_NICE then s
      else
        let c = p_cpu (tasks s p);
            s1 = update_rq_clock c s
        in if task_has_dl_policy (tasks s1 p) \<or> task_has_rt_policy (tasks s1 p)
             then upd_task p (\<lambda>t. t\<lparr>p_static_prio := NICE_TO_PRIO nice\<rparr>) s1
           else
             let queued = task_on_rq_queued s1 p;
                 running = task_current s1 c p;
                 s2 = (if queued then dequeue_task e c p (DEQUEUE_SAVE OR DEQUEUE_NOCLOCK) s1 else s1);
                 s3 = (if running then put_prev_task e c p s2 else s2);
                 s4 = set_load_weight e p True (upd_task p (\<lambda>t. t\<lparr>p_static_prio := NICE_TO_PRIO nice\<rparr>) s3);
                 old_prio = p_prio (tasks s4 p);
                 (new_prio, s5) = effective_prio p s4;
                 s6 = upd_task p (\<lambda>t. t\<lparr>p_prio := new_prio\<rparr>) s5;
                 delta = new_prio - old_prio;
                 s7 = (if queued then
                         let s6a = enqueue_task e c p (ENQUEUE_RESTORE OR ENQUEUE_NOCLOCK) s6
                         in if delta < 0 \<or> (delta > 0 \<and> task_running s6a p) then resched_curr c s6a else s6a
                       else s6)
             in if running then set_curr_task e c p s7 else s7)"

definition nice_to_rlimit :: "int \<Rightarrow> int" where
  "nice_to_rlimit nice = MAX_NICE - nice + 1"

definition can_nice :: "params_env \<Rightarrow> task_id \<Rightarrow> int \<Rightarrow> bool" where
  "can_nice x p nice \<longleftrightarrow> nice_to_rlimit nice \<le> x_rlimit_nice x p \<or> x_capable x"

definition clamp :: "int \<Rightarrow> int \<Rightarrow> int \<Rightarrow> int" where
  "clamp v lo hi = min (max v lo) hi"

definition sys_nice :: "kenv \<Rightarrow> params_env \<Rightarrow> int \<Rightarrow> sys \<Rightarrow> errno option \<times> sys" where
  "sys_nice e x increment s =
     (let inc = clamp increment (- NICE_WIDTH) NICE_WIDTH;
          nice = clamp (task_nice (tasks s (current s)) + inc) MIN_NICE MAX_NICE
      in if inc < 0 \<and> \<not> can_nice x (current s) nice then (Some EPERM, s)
         else case x_sec_setnice x (current s) nice of
           Some err \<Rightarrow> (Some err, s)
         | None \<Rightarrow> (None, set_user_nice e (current s) nice s))"

definition task_prio :: "task_struct \<Rightarrow> int" where
  "task_prio p = p_prio p - MAX_RT_PRIO"

section \<open>Scheduling policies\<close>

definition setscheduler_params :: "kenv \<Rightarrow> params_env \<Rightarrow> task_id \<Rightarrow> sched_attr \<Rightarrow> sys \<Rightarrow> sys" where
  "setscheduler_params e x p attr s =
     (let policy = (if a_policy attr = SETPARAM_POLICY then p_policy (tasks s p) else a_policy attr);
          s1 = upd_task p (\<lambda>t. t\<lparr>p_policy := policy\<rparr>) s;
          s2 = (if dl_policy policy then x_setparam_dl x p attr s1
                else if fair_policy policy then upd_task p (\<lambda>t. t\<lparr>p_static_prio := NICE_TO_PRIO (a_nice attr)\<rparr>) s1
                else s1);
          s3 = upd_task p (\<lambda>t. t\<lparr>p_rt_priority := a_priority attr\<rparr>) s2;
          s4 = upd_task p (\<lambda>t. t\<lparr>p_normal_prio := normal_prio t\<rparr>) s3
      in set_load_weight e p True s4)"

definition setscheduler_class :: "task_struct \<Rightarrow> sched_class" where
  "setscheduler_class t =
     (if dl_prio (p_prio t) then Dl_class
      else if rt_prio (p_prio t) then Rt_class
      else if ts_policy (p_policy t) then Ts_class
      else Fair_class)"

definition setscheduler :: "kenv \<Rightarrow> params_env \<Rightarrow> task_id \<Rightarrow> sched_attr \<Rightarrow> bool \<Rightarrow> sys \<Rightarrow> sys" where
  "setscheduler e x p attr keep_boost s =
     (let s1 = setscheduler_params e x p attr s;
          prio = normal_prio (tasks s1 p);
          prio1 = (if keep_boost then rt_effective_prio s1 p prio else prio);
          s2 = upd_task p (\<lambda>t. t\<lparr>p_prio := prio1\<rparr>) s1
      in upd_task p (\<lambda>t. t\<lparr>p_sched_class := setscheduler_class t\<rparr>) s2)"

definition check_same_owner :: "params_env \<Rightarrow> task_id \<Rightarrow> bool" where
  "check_same_owner x p \<longleftrightarrow> x_euid x = x_task_euid x p \<or> x_euid x = x_task_uid x p"

text \<open>The checks a caller without CAP\_SYS\_NICE has to pass.\<close>

definition unprivileged_ok :: "params_env \<Rightarrow> sys \<Rightarrow> task_id \<Rightarrow> sched_attr \<Rightarrow> int \<Rightarrow> bool \<Rightarrow> bool" where
  "unprivileged_ok x s p attr policy reset_on_fork \<longleftrightarrow>
     (let t = tasks s p in
      \<not> (fair_policy policy \<and> a_nice attr < task_nice t \<and> \<not> can_nice x p (a_nice attr)) \<and>
      \<not> (rt_policy policy \<and> policy \<noteq> p_policy t \<and> x_rlimit_rtprio x p = 0) \<and>
      \<not> (rt_policy policy \<and> a_priority attr > p_rt_priority t \<and> unat (a_priority attr) > x_rlimit_rtprio x p) \<and>
      \<not> dl_policy policy \<and>
      \<not> (idle_policy (p_policy t) \<and> \<not> idle_policy policy \<and> \<not> can_nice x p (task_nice t)) \<and>
      check_same_owner x p \<and>
      \<not> (p_sched_reset_on_fork t \<and> \<not> reset_on_fork))"

text \<open>Whether a request that keeps the policy changes anything.\<close>

definition same_policy_change :: "params_env \<Rightarrow> sys \<Rightarrow> task_id \<Rightarrow> sched_attr \<Rightarrow> int \<Rightarrow> bool" where
  "same_policy_change x s p attr policy \<longleftrightarrow>
     (fair_policy policy \<and> a_nice attr \<noteq> task_nice (tasks s p)) \<or>
     (rt_policy policy \<and> a_priority attr \<noteq> p_rt_priority (tasks s p)) \<or>
     (dl_policy policy \<and> x_dl_param_changed x s p attr)"

text \<open>From the label \<open>change\<close> once every check has passed.\<close>

definition apply_setscheduler ::
  "kenv \<Rightarrow> params_env \<Rightarrow> task_id \<Rightarrow> sched_attr \<Rightarrow> bool \<Rightarrow> bool \<Rightarrow> sys \<Rightarrow> sys" where
  "apply_setscheduler e x p attr pi reset_on_fork s =
     (let c = p_cpu (tasks s p);
          s1 = upd_task p (\<lambda>t. t\<lparr>p_sched_reset_on_fork := reset_on_fork\<rparr>) s;
          oldprio = p_prio (tasks s1 p);
          newprio = (if dl_policy (a_policy attr) then MAX_DL_PRIO - 1
                     else MAX_RT_PRIO - 1 - sint (a_priority attr));
          keep_place = (pi \<and> rt_effective_prio s1 p newprio = oldprio);
          queue_flags = DEQUEUE_SAVE OR DEQUEUE_NOCLOCK OR (if keep_place then 0 else DEQUEUE_MOVE);
          queued = task_on_rq_queued s1 p;
          running = task_current s1 c p;
          s2 = (if queued then dequeue_task e c p queue_flags s1 else s1);
          s3 = (if running then put_prev_task e c p s2 else s2);
          prev_class = p_sched_class (tasks s3 p);
          s4 = setscheduler e x p attr pi s3;
          s5 = (if queued
                then enqueue_task e c p
                       (if oldprio < p_prio (tasks s4 p) then queue_flags OR ENQUEUE_HEAD else queue_flags) s4
                else s4);
          s6 = (if running then set_curr_task e c p s5 else s5);
          s7 = check_class_changed e c p prev_class oldprio s6;
          s8 = (if pi then x_adjust_pi x p s7 else s7)
      in balance_callback e c s8)"

text \<open>
  The checks before the run-queue lock, in the order of the code: the error they refuse with, if any.
\<close>

definition setscheduler_refused ::
  "params_env \<Rightarrow> sys \<Rightarrow> task_id \<Rightarrow> sched_attr \<Rightarrow> bool \<Rightarrow> bool \<Rightarrow> int \<Rightarrow> bool \<Rightarrow> errno option" where
  "setscheduler_refused x s p attr user keep policy reset_on_fork =
     (if \<not> keep \<and> \<not> valid_policy policy then Some EINVAL
      else if a_flags attr AND NOT (SCHED_FLAG_ALL OR SCHED_FLAG_SUGOV) \<noteq> 0 then Some EINVAL
      else if (p_mm (tasks s p) \<noteq> None \<and> int (unat (a_priority attr)) > MAX_USER_RT_PRIO - 1) \<or>
              (p_mm (tasks s p) = None \<and> int (unat (a_priority attr)) > MAX_RT_PRIO - 1) then Some EINVAL
      else if (dl_policy policy \<and> \<not> x_checkparam_dl x attr) \<or>
              (rt_policy policy \<noteq> (a_priority attr \<noteq> 0)) then Some EINVAL
      else if user \<and> \<not> x_capable x \<and> \<not> unprivileged_ok x s p attr policy reset_on_fork then Some EPERM
      else if user \<and> flag_set (a_flags attr) SCHED_FLAG_SUGOV then Some EINVAL
      else if user then x_sec_setscheduler x p
      else None)"

text \<open>What is decided once the lock is held.\<close>

datatype locked_decision = Refuse errno | Unchanged | Recheck | Change

definition setscheduler_locked ::
  "params_env \<Rightarrow> sys \<Rightarrow> task_id \<Rightarrow> sched_attr \<Rightarrow> bool \<Rightarrow> bool \<Rightarrow> int \<Rightarrow> locked_decision" where
  "setscheduler_locked x s p attr user keep policy =
     (let c = p_cpu (tasks s p) in
      if Some p = rq_stop (rqs s c) then Refuse EINVAL
      else if policy = p_policy (tasks s p) \<and> \<not> same_policy_change x s p attr policy then Unchanged
      else if user \<and> dl_bandwidth_enabled s \<and> dl_policy policy \<and>
          \<not> flag_set (a_flags attr) SCHED_FLAG_SUGOV \<and>
          (\<not> cpumask_subset s (rd_span (rds s (rq_rd (rqs s c)))) (p_cpus_allowed (tasks s p)) \<or>
           x_dl_bw x (rq_rd (rqs s c)) = 0)
        then Refuse EPERM
      else if keep \<and> policy \<noteq> p_policy (tasks s p) then Recheck
      else if (dl_policy policy \<or> dl_task (tasks s p)) \<and> x_dl_overflow x s p policy attr then Refuse EBUSY
      else Change)"

text \<open>
  \<open>__sched_setscheduler\<close>.  A negative \<open>policy0\<close> keeps the task's policy, which is read before the
  lock is taken; when the policy changed meanwhile, everything is checked again, at most \<open>e_fuel\<close>
  times.  The source initialises \<open>oldpolicy\<close> once: after a recheck it always keeps the policy.
\<close>

primrec setscheduler_checked ::
  "nat \<Rightarrow> kenv \<Rightarrow> params_env \<Rightarrow> task_id \<Rightarrow> sched_attr \<Rightarrow> bool \<Rightarrow> bool \<Rightarrow> int \<Rightarrow> sys \<Rightarrow> errno option \<times> sys" where
  "setscheduler_checked 0 e x p attr user pi policy0 s = (None, raise_fault No_progress s)"
| "setscheduler_checked (Suc n) e x p attr user pi policy0 s =
     (let keep = (policy0 < 0);
          reset_on_fork = (if keep then p_sched_reset_on_fork (tasks s p)
                           else flag_set (a_flags attr) SCHED_FLAG_RESET_ON_FORK);
          policy = (if keep then p_policy (tasks s p) else policy0)
      in case setscheduler_refused x s p attr user keep policy reset_on_fork of
           Some err \<Rightarrow> (Some err, s)
         | None \<Rightarrow>
             let s1 = x_lock x p s;
                 s2 = update_rq_clock (p_cpu (tasks s1 p)) s1
             in case setscheduler_locked x s2 p attr user keep policy of
                  Refuse err \<Rightarrow> (Some err, s2)
                | Unchanged \<Rightarrow> (None, upd_task p (\<lambda>t. t\<lparr>p_sched_reset_on_fork := reset_on_fork\<rparr>) s2)
                | Recheck \<Rightarrow> setscheduler_checked n e x p attr user pi (- 1) s2
                | Change \<Rightarrow> (None, apply_setscheduler e x p attr pi reset_on_fork s2))"

definition sched_setscheduler_attr ::
  "kenv \<Rightarrow> params_env \<Rightarrow> task_id \<Rightarrow> sched_attr \<Rightarrow> bool \<Rightarrow> bool \<Rightarrow> sys \<Rightarrow> errno option \<times> sys" where
  "sched_setscheduler_attr e x p attr user pi s =
     setscheduler_checked (e_fuel e) e x p attr user pi (a_policy attr)
       (if pi \<and> x_in_interrupt x then raise_fault Bug_on s else s)"

definition sched_setscheduler_common ::
  "kenv \<Rightarrow> params_env \<Rightarrow> task_id \<Rightarrow> int \<Rightarrow> u32 \<Rightarrow> bool \<Rightarrow> sys \<Rightarrow> errno option \<times> sys" where
  "sched_setscheduler_common e x p policy priority check s =
     (let legacy = (policy \<noteq> SETPARAM_POLICY \<and> flag_set (word_of_int policy :: u32) SCHED_RESET_ON_FORK);
          attr = \<lparr>a_policy = (if legacy then sint ((word_of_int policy :: u32) AND NOT SCHED_RESET_ON_FORK) else policy),
                  a_flags = (if legacy then SCHED_FLAG_RESET_ON_FORK else 0),
                  a_nice = PRIO_TO_NICE (p_static_prio (tasks s p)), a_priority = priority,
                  a_runtime = 0, a_deadline = 0, a_period = 0\<rparr>
      in sched_setscheduler_attr e x p attr check True s)"

definition sched_setscheduler :: "kenv \<Rightarrow> params_env \<Rightarrow> task_id \<Rightarrow> int \<Rightarrow> u32 \<Rightarrow> sys \<Rightarrow> errno option \<times> sys" where
  "sched_setscheduler e x p policy priority s = sched_setscheduler_common e x p policy priority True s"

definition sched_setscheduler_nocheck :: "kenv \<Rightarrow> params_env \<Rightarrow> task_id \<Rightarrow> int \<Rightarrow> u32 \<Rightarrow> sys \<Rightarrow> errno option \<times> sys" where
  "sched_setscheduler_nocheck e x p policy priority s = sched_setscheduler_common e x p policy priority False s"

definition sched_setattr :: "kenv \<Rightarrow> params_env \<Rightarrow> task_id \<Rightarrow> sched_attr \<Rightarrow> sys \<Rightarrow> errno option \<times> sys" where
  "sched_setattr e x p attr s = sched_setscheduler_attr e x p attr True True s"

definition sched_setattr_nocheck :: "kenv \<Rightarrow> params_env \<Rightarrow> task_id \<Rightarrow> sched_attr \<Rightarrow> sys \<Rightarrow> errno option \<times> sys" where
  "sched_setattr_nocheck e x p attr s = sched_setscheduler_attr e x p attr False True s"

definition sched_set_stop_task :: "kenv \<Rightarrow> params_env \<Rightarrow> cpu_id \<Rightarrow> task_id option \<Rightarrow> sys \<Rightarrow> sys" where
  "sched_set_stop_task e x c stop s =
     (let old_stop = rq_stop (rqs s c);
          s1 = (case stop of None \<Rightarrow> s
                | Some t \<Rightarrow> upd_task t (\<lambda>k. k\<lparr>p_sched_class := Stop_class\<rparr>)
                    (snd (sched_setscheduler_nocheck e x t SCHED_FIFO (word_of_int (MAX_RT_PRIO - 1)) s)));
          s2 = upd_rq c (\<lambda>rq. rq\<lparr>rq_stop := stop\<rparr>) s1
      in case old_stop of None \<Rightarrow> s2 | Some t \<Rightarrow> upd_task t (\<lambda>k. k\<lparr>p_sched_class := Rt_class\<rparr>) s2)"

section \<open>System calls\<close>

definition find_process_by_pid :: "params_env \<Rightarrow> sys \<Rightarrow> int \<Rightarrow> task_id option" where
  "find_process_by_pid x s pid = (if pid \<noteq> 0 then x_find_task x s pid else Some (current s))"

text \<open>The user's \<open>struct sched_param\<close>: \<open>None\<close> for a null pointer, \<open>Some None\<close> for one that faults.\<close>

definition do_sched_setscheduler ::
  "kenv \<Rightarrow> params_env \<Rightarrow> int \<Rightarrow> int \<Rightarrow> u32 option option \<Rightarrow> sys \<Rightarrow> errno option \<times> sys" where
  "do_sched_setscheduler e x pid policy param s =
     (case param of
        None \<Rightarrow> (Some EINVAL, s)
      | Some buf \<Rightarrow>
          if pid < 0 then (Some EINVAL, s)
          else case buf of
            None \<Rightarrow> (Some EFAULT, s)
          | Some priority \<Rightarrow>
              (case find_process_by_pid x s pid of
                 None \<Rightarrow> (Some ESRCH, s)
               | Some p \<Rightarrow> sched_setscheduler e x p policy priority s))"

definition sys_sched_setscheduler ::
  "kenv \<Rightarrow> params_env \<Rightarrow> int \<Rightarrow> int \<Rightarrow> u32 option option \<Rightarrow> sys \<Rightarrow> errno option \<times> sys" where
  "sys_sched_setscheduler e x pid policy param s =
     (if policy < 0 then (Some EINVAL, s) else do_sched_setscheduler e x pid policy param s)"

definition sys_sched_setparam :: "kenv \<Rightarrow> params_env \<Rightarrow> int \<Rightarrow> u32 option option \<Rightarrow> sys \<Rightarrow> errno option \<times> sys" where
  "sys_sched_setparam e x pid param s = do_sched_setscheduler e x pid SETPARAM_POLICY param s"

text \<open>A call that returns a number or an error.\<close>

definition sys_sched_getscheduler :: "params_env \<Rightarrow> int \<Rightarrow> sys \<Rightarrow> errno + int" where
  "sys_sched_getscheduler x pid s =
     (if pid < 0 then Inl EINVAL
      else case find_process_by_pid x s pid of
        None \<Rightarrow> Inl ESRCH
      | Some p \<Rightarrow>
          (case x_sec_getscheduler x p of
             Some err \<Rightarrow> Inl err
           | None \<Rightarrow> Inr (sint ((word_of_int (p_policy (tasks s p)) :: u32) OR
                               (if p_sched_reset_on_fork (tasks s p) then SCHED_RESET_ON_FORK else 0)))))"

definition sys_sched_getparam :: "params_env \<Rightarrow> int \<Rightarrow> bool \<Rightarrow> sys \<Rightarrow> errno + u32" where
  "sys_sched_getparam x pid param s =
     (if \<not> param \<or> pid < 0 then Inl EINVAL
      else case find_process_by_pid x s pid of
        None \<Rightarrow> Inl ESRCH
      | Some p \<Rightarrow>
          (case x_sec_getscheduler x p of
             Some err \<Rightarrow> Inl err
           | None \<Rightarrow> Inr (if task_has_rt_policy (tasks s p) then p_rt_priority (tasks s p) else 0)))"

definition getattr_of :: "params_env \<Rightarrow> sys \<Rightarrow> task_id \<Rightarrow> sched_attr" where
  "getattr_of x s p =
     (let t = tasks s p;
          attr = \<lparr>a_policy = p_policy t,
                  a_flags = (if p_sched_reset_on_fork t then SCHED_FLAG_RESET_ON_FORK else 0),
                  a_nice = 0, a_priority = 0, a_runtime = 0, a_deadline = 0, a_period = 0\<rparr>
      in if task_has_dl_policy t then x_getparam_dl x s p attr
         else if task_has_rt_policy t then attr\<lparr>a_priority := p_rt_priority t\<rparr>
         else attr\<lparr>a_nice := task_nice t\<rparr>)"

definition sys_sched_get_priority_max :: "int \<Rightarrow> errno + int" where
  "sys_sched_get_priority_max policy =
     (if policy = SCHED_FIFO \<or> policy = SCHED_RR then Inr (MAX_USER_RT_PRIO - 1)
      else if policy = SCHED_DEADLINE \<or> policy = SCHED_NORMAL \<or> policy = SCHED_BATCH \<or> policy = SCHED_IDLE
        then Inr 0
      else Inl EINVAL)"

definition sys_sched_get_priority_min :: "int \<Rightarrow> errno + int" where
  "sys_sched_get_priority_min policy =
     (if policy = SCHED_FIFO \<or> policy = SCHED_RR then Inr 1
      else if policy = SCHED_DEADLINE \<or> policy = SCHED_NORMAL \<or> policy = SCHED_BATCH \<or> policy = SCHED_IDLE
        then Inr 0
      else Inl EINVAL)"

definition class_get_rr_interval :: "kenv \<Rightarrow> sched_class \<Rightarrow> cpu_id \<Rightarrow> task_id \<Rightarrow> sys \<Rightarrow> u32" where
  "class_get_rr_interval e k c p s = (case k of
     Stop_class \<Rightarrow> op_get_rr_interval (e_stop e) c p s | Dl_class \<Rightarrow> op_get_rr_interval (e_dl e) c p s
   | Rt_class \<Rightarrow> get_rr_interval_rt c p s | Ts_class \<Rightarrow> get_rr_interval_ts c p s
   | Fair_class \<Rightarrow> op_get_rr_interval (e_fair e) c p s | Idle_class \<Rightarrow> op_get_rr_interval (e_idle e) c p s)"

definition sched_rr_get_interval :: "kenv \<Rightarrow> params_env \<Rightarrow> int \<Rightarrow> sys \<Rightarrow> errno + u32" where
  "sched_rr_get_interval e x pid s =
     (if pid < 0 then Inl EINVAL
      else case find_process_by_pid x s pid of
        None \<Rightarrow> Inl ESRCH
      | Some p \<Rightarrow>
          (case x_sec_getscheduler x p of
             Some err \<Rightarrow> Inl err
           | None \<Rightarrow> Inr (class_get_rr_interval e (p_sched_class (tasks s p)) (p_cpu (tasks s p)) p s)))"

section \<open>Affinity\<close>

text \<open>The loop that narrows the mask again when the cpuset changed under the call.\<close>

fun setaffinity_again ::
  "kenv \<Rightarrow> params_env \<Rightarrow> nat \<Rightarrow> task_id \<Rightarrow> cpumask \<Rightarrow> sys \<Rightarrow> errno option \<times> sys" where
  "setaffinity_again e x 0 p m s = (None, raise_fault No_progress s)"
| "setaffinity_again e x (Suc n) p m s =
     (case set_cpus_allowed_ptr e (sched_ttwu_pending e) p m True s of
        (Some err, s1) \<Rightarrow> (Some err, s1)
      | (None, s1) \<Rightarrow>
          let cpus_allowed = x_cpuset_allowed x s1 p
          in if \<not> cpumask_subset s1 m cpus_allowed then setaffinity_again e x n p cpus_allowed s1
             else (None, s1))"

definition sched_setaffinity ::
  "kenv \<Rightarrow> params_env \<Rightarrow> int \<Rightarrow> cpumask \<Rightarrow> sys \<Rightarrow> errno option \<times> sys" where
  "sched_setaffinity e x pid in_mask s =
     (case find_process_by_pid x s pid of
        None \<Rightarrow> (Some ESRCH, s)
      | Some p \<Rightarrow>
          if flag_set (p_flags (tasks s p)) PF_NO_SETAFFINITY then (Some EINVAL, s)
          else if \<not> check_same_owner x p \<and> \<not> x_ns_capable x p then (Some EPERM, s)
          else case x_sec_setscheduler x p of
            Some err \<Rightarrow> (Some err, s)
          | None \<Rightarrow>
              let new_mask = (\<lambda>c. in_mask c \<and> x_cpuset_allowed x s p c)
              in if task_has_dl_policy (tasks s p) \<and> dl_bandwidth_enabled s \<and>
                    \<not> cpumask_subset s (rd_span (rds s (rq_rd (rqs s (p_cpu (tasks s p)))))) new_mask
                 then (Some EBUSY, s)
                 else setaffinity_again e x (e_fuel e) p new_mask s)"

definition sched_getaffinity :: "params_env \<Rightarrow> int \<Rightarrow> sys \<Rightarrow> errno + cpumask" where
  "sched_getaffinity x pid s =
     (case find_process_by_pid x s pid of
        None \<Rightarrow> Inl ESRCH
      | Some p \<Rightarrow>
          (case x_sec_getscheduler x p of
             Some err \<Rightarrow> Inl err
           | None \<Rightarrow> Inr (\<lambda>c. p_cpus_allowed (tasks s p) c \<and> cpu_active_mask s c)))"

end
