(* ===== verification/Sched_Policy.thy ===== *)
theory Sched_Policy
  imports Sched_Params Sched_Ttwu
begin

text \<open>
  Properties of the calls of \<open>Sched_Params\<close> and of the tables of \<open>Sched_Prio\<close>: permissions, errors,
  and what the queries return after a change.  The changes are followed for tasks that sleep
  (\<open>dormant\<close>), where no queue has to be rebuilt.
\<close>

section \<open>Permission checks\<close>

lemma if_Some_None: "(if P then Some a else r) = None \<longleftrightarrow> \<not> P \<and> r = None"
  by simp

lemma if_chain:
  "(if P then Some a else r) = Some b \<Longrightarrow> b = a \<or> r = Some b"
  "(if P then d else d') = k \<Longrightarrow> d = k \<or> d' = k"
  by (simp_all split: if_splits)

lemma refused_error:
  assumes "setscheduler_refused x s p attr user keep policy r = Some err"
  shows "err = EINVAL \<or> err = EPERM \<or> x_sec_setscheduler x p = Some err"
  using assms unfolding setscheduler_refused_def by (elim disjE[OF if_chain(1)]) (simp_all split: if_splits)

lemma locked_error:
  assumes "setscheduler_locked x s p attr user keep policy = Refuse err"
  shows "err = EINVAL \<or> err = EPERM \<or> err = EBUSY"
  using assms unfolding setscheduler_locked_def Let_def by (elim disjE[OF if_chain(2)]) simp_all

text \<open>When nobody interferes before the lock is taken, the policy read before is the one found after.\<close>

lemma setscheduler_no_recheck:
  assumes "\<And>u. x_lock x p u = u"
  shows "setscheduler_checked (Suc n) e x p attr user pi policy0 s =
    (let keep = (policy0 < 0);
         reset_on_fork = (if keep then p_sched_reset_on_fork (tasks s p) else flag_set (a_flags attr) SCHED_FLAG_RESET_ON_FORK);
         policy = (if keep then p_policy (tasks s p) else policy0);
         s2 = update_rq_clock (p_cpu (tasks s p)) s
     in case setscheduler_refused x s p attr user keep policy reset_on_fork of
          Some err \<Rightarrow> (Some err, s)
        | None \<Rightarrow> (case setscheduler_locked x s2 p attr user keep policy of
              Refuse err \<Rightarrow> (Some err, s2)
            | Unchanged \<Rightarrow> (None, upd_task p (\<lambda>t. t\<lparr>p_sched_reset_on_fork := reset_on_fork\<rparr>) s2)
            | Recheck \<Rightarrow> (None, s2)
            | Change \<Rightarrow> (None, apply_setscheduler e x p attr pi reset_on_fork s2)))"
proof -
  let ?s2 = "update_rq_clock (p_cpu (tasks s p)) s"
  let ?k = "policy0 < 0" and ?p = "if policy0 < 0 then p_policy (tasks s p) else policy0"
  let ?r = "if policy0 < 0 then p_sched_reset_on_fork (tasks s p) else flag_set (a_flags attr) SCHED_FLAG_RESET_ON_FORK"
  have nr: "setscheduler_locked x ?s2 p attr user ?k ?p \<noteq> Recheck"
    by (simp add: setscheduler_locked_def Let_def)
  show ?thesis
  proof (cases "setscheduler_refused x s p attr user ?k ?p ?r")
    case None
    then show ?thesis
      unfolding setscheduler_checked.simps Let_def assms None option.case
      using nr by (cases "setscheduler_locked x ?s2 p attr user ?k ?p") (simp_all only: locked_decision.case simp_thms)
  next
    case (Some err)
    show ?thesis unfolding setscheduler_checked.simps Let_def Some option.case ..
  qed
qed

lemma setscheduler_attr_unfold:
  assumes "\<And>u. x_lock x p u = u" "0 < e_fuel e" "\<not> x_in_interrupt x"
  obtains n where "e_fuel e = Suc n" "sched_setscheduler_attr e x p attr user pi s =
     setscheduler_checked (Suc n) e x p attr user pi (a_policy attr) s"
  using assms(2,3) gr0_implies_Suc[OF assms(2)] by (auto simp: sched_setscheduler_attr_def)

lemma setscheduler_passed_checks:
  assumes "\<And>u. x_lock x p u = u" "0 < e_fuel e" "\<not> x_in_interrupt x" "sched_setscheduler_attr e x p attr user pi s = (None, t)"
  shows "setscheduler_refused x s p attr user (a_policy attr < 0) (if a_policy attr < 0 then p_policy (tasks s p) else a_policy attr)
     (if a_policy attr < 0 then p_sched_reset_on_fork (tasks s p) else flag_set (a_flags attr) SCHED_FLAG_RESET_ON_FORK) = None"
proof -
  obtain n where n: "sched_setscheduler_attr e x p attr user pi s = setscheduler_checked (Suc n) e x p attr user pi (a_policy attr) s"
    using setscheduler_attr_unfold[OF assms(1-3)] by metis
  show ?thesis
    using assms(4) unfolding n setscheduler_no_recheck[OF assms(1)] Let_def
    by (cases "setscheduler_refused x s p attr user (a_policy attr < 0) (if a_policy attr < 0 then p_policy (tasks s p) else a_policy attr)
     (if a_policy attr < 0 then p_sched_reset_on_fork (tasks s p) else flag_set (a_flags attr) SCHED_FLAG_RESET_ON_FORK)") simp_all
qed

lemma unprivileged_okD:
  assumes "unprivileged_ok x s p attr policy reset"
  shows "check_same_owner x p" "\<not> dl_policy policy"
    "fair_policy policy \<Longrightarrow> task_nice (tasks s p) \<le> a_nice attr \<or> can_nice x p (a_nice attr)"
    "rt_policy policy \<Longrightarrow> unat (a_priority attr) \<le> max (unat (p_rt_priority (tasks s p))) (x_rlimit_rtprio x p)"
    "idle_policy (p_policy (tasks s p)) \<Longrightarrow> \<not> idle_policy policy \<Longrightarrow> can_nice x p (task_nice (tasks s p))"
    "p_sched_reset_on_fork (tasks s p) \<Longrightarrow> reset"
  using assms unfolding unprivileged_ok_def Let_def word_less_nat_alt by (blast | linarith)+

section \<open>Changing the policy of a sleeping task\<close>

lemma set_load_weight_se:
  assumes "ts_prio_ok (p_static_prio (tasks s p))" "p_sched_class (tasks s p) \<noteq> Fair_class"
  shows "\<exists>l. set_load_weight e p b s = upd_task p (\<lambda>t. t\<lparr>p_se := (p_se t)\<lparr>se_load := l\<rparr>\<rparr>) s"
  using assms by (auto simp: set_load_weight_def Let_def prio_consts)

text \<open>Asleep on its CPU, without a pending balance callback or a priority donor.\<close>

definition dormant :: "sys \<Rightarrow> task_id \<Rightarrow> bool" where
  "dormant s p \<longleftrightarrow> p_on_rq (tasks s p) = 0 \<and> rq_curr (rqs s (p_cpu (tasks s p))) \<noteq> p \<and>
     rq_balance_callback (rqs s (p_cpu (tasks s p))) = [] \<and> p_pi_top_task (tasks s p) = None \<and>
     Some p \<noteq> rq_stop (rqs s (p_cpu (tasks s p)))"

lemma update_rq_clock_stop [simp]: "rq_stop (rqs (update_rq_clock c s) k) = rq_stop (rqs s k)"
  by (simp add: update_rq_clock_def update_rq_clock_task_def Let_def)

lemma dormant_clock: "dormant (update_rq_clock c s) p = dormant s p"
  by (simp add: dormant_def)

lemma upd_task_twice [simp]: "upd_task p g (upd_task p f s) = upd_task p (\<lambda>t. g (f t)) s"
  by (simp add: upd_task_def)

text \<open>The task as \<open>__setscheduler\<close> leaves it, for a policy of the real-time or time-sharing class.\<close>

lemma setscheduler_task:
  assumes "ts_prio_ok (p_static_prio (tasks s p))" "p_sched_class (tasks s p) \<noteq> Fair_class" "p_pi_top_task (tasks s p) = None"
    and "rt_policy (a_policy attr) \<and> 1 \<le> sint (a_priority attr) \<and> sint (a_priority attr) \<le> 99 \<or> a_policy attr = SCHED_TS"
  obtains l where "setscheduler e x p attr b s = upd_task p (\<lambda>_. (tasks s p)\<lparr>p_policy := a_policy attr, p_rt_priority := a_priority attr,
      p_normal_prio := (if a_policy attr = SCHED_TS then p_static_prio (tasks s p) else 99 - sint (a_priority attr)), p_se := l,
      p_prio := (if a_policy attr = SCHED_TS then p_static_prio (tasks s p) else 99 - sint (a_priority attr)),
      p_sched_class := (if a_policy attr = SCHED_TS then Ts_class else Rt_class)\<rparr>) s"
proof -
  have np: "a_policy attr \<noteq> SETPARAM_POLICY" "\<not> dl_policy (a_policy attr)" "\<not> fair_policy (a_policy attr)"
    "rt_policy (a_policy attr) \<longleftrightarrow> a_policy attr \<noteq> SCHED_TS"
    using assms(4) by (auto simp: SETPARAM_POLICY_def policy_defs)
  let ?t = "(tasks s p)\<lparr>p_policy := a_policy attr, p_rt_priority := a_priority attr\<rparr>"
  have n: "normal_prio ?t = (if a_policy attr = SCHED_TS then p_static_prio (tasks s p) else 99 - sint (a_priority attr))"
    using np by (simp add: normal_prio_def normal_prio_static_def task_has_dl_policy_def task_has_rt_policy_def prio_consts)
  let ?s1 = "upd_task p (\<lambda>_. ?t\<lparr>p_normal_prio := normal_prio ?t\<rparr>) s"
  obtain l where l: "set_load_weight e p True ?s1 = upd_task p (\<lambda>t. t\<lparr>p_se := (p_se t)\<lparr>se_load := l\<rparr>\<rparr>) ?s1"
    using set_load_weight_se[of ?s1 p e True] assms(1,2) by auto
  have up: "upd_task p f s = upd_task p (\<lambda>_. f (tasks s p)) s" for f by (simp add: upd_task_def)
  let ?u = "?t\<lparr>p_normal_prio := normal_prio ?t, p_se := (p_se (tasks s p))\<lparr>se_load := l\<rparr>\<rparr>"
  have "setscheduler_params e x p attr s = set_load_weight e p True ?s1"
    unfolding setscheduler_params_def Let_def using np(1-3) up[of "\<lambda>t. _ t"] by (simp add: upd_task_def)
  then have sp: "setscheduler_params e x p attr s = upd_task p (\<lambda>_. ?u) s" unfolding l by simp
  have npu: "normal_prio ?u = normal_prio ?t" by (simp add: normal_prio_def normal_prio_static_def task_has_dl_policy_def task_has_rt_policy_def)
  have ep: "rt_effective_prio (upd_task p (\<lambda>_. ?u) s) p q = q" for q
    using assms(3) by (simp add: rt_effective_prio_def rt_effective_prio_of_def)
  have cl: "setscheduler_class (?u\<lparr>p_prio := normal_prio ?t\<rparr>) = (if a_policy attr = SCHED_TS then Ts_class else Rt_class)"
    using assms(1,4) n by (auto simp: setscheduler_class_def dl_prio_def rt_prio_def prio_consts ts_policy_def)
  have E: "setscheduler e x p attr b s = upd_task p (\<lambda>_. ?u\<lparr>p_prio := normal_prio ?t,
      p_sched_class := setscheduler_class (?u\<lparr>p_prio := normal_prio ?t\<rparr>)\<rparr>) s"
    unfolding setscheduler_def Let_def sp ep by (simp add: npu)
  show ?thesis
    by (rule that[of "(p_se (tasks s p))\<lparr>se_load := l\<rparr>"]) (unfold E cl, unfold n, simp)
qed

lemma check_class_changed_off_queue:
  assumes "p_on_rq (tasks s p) = 0" "k = Rt_class \<or> k = Ts_class" "p_sched_class (tasks s p) = Rt_class \<or> p_sched_class (tasks s p) = Ts_class"
  shows "check_class_changed e c p k oldprio s = s"
proof -
  have nq: "\<not> task_on_rq_queued s p" using assms(1) by (simp add: task_on_rq_queued_def TASK_ON_RQ_QUEUED_def)
  have "class_switched_from e k c p s = s" "class_switched_to e (p_sched_class (tasks s p)) c p s = s"
    "class_prio_changed e (p_sched_class (tasks s p)) c p oldprio s = s"
    using assms(2,3) nq
    by (auto simp: class_switched_from_def class_switched_to_def class_prio_changed_def switched_from_rt_def
        switched_to_rt_def switched_to_ts_def prio_changed_rt_def prio_changed_ts_def)
  then show ?thesis by (simp add: check_class_changed_def)
qed

lemma apply_setscheduler_dormant:
  assumes "dormant s p" "ts_prio_ok (p_static_prio (tasks s p))"
    and cls: "p_sched_class (tasks s p) = Rt_class \<or> p_sched_class (tasks s p) = Ts_class"
    and pol: "rt_policy (a_policy attr) \<and> 1 \<le> sint (a_priority attr) \<and> sint (a_priority attr) \<le> 99 \<or> a_policy attr = SCHED_TS"
    and "\<And>u. x_adjust_pi x p u = u"
  obtains l where "apply_setscheduler e x p attr pi reset s = upd_task p (\<lambda>_. (tasks s p)\<lparr>p_sched_reset_on_fork := reset,
      p_policy := a_policy attr, p_rt_priority := a_priority attr,
      p_normal_prio := (if a_policy attr = SCHED_TS then p_static_prio (tasks s p) else 99 - sint (a_priority attr)), p_se := l,
      p_prio := (if a_policy attr = SCHED_TS then p_static_prio (tasks s p) else 99 - sint (a_priority attr)),
      p_sched_class := (if a_policy attr = SCHED_TS then Ts_class else Rt_class)\<rparr>) s"
proof -
  let ?c = "p_cpu (tasks s p)"
  let ?s1 = "upd_task p (\<lambda>t. t\<lparr>p_sched_reset_on_fork := reset\<rparr>) s"
  have d: "p_on_rq (tasks s p) = 0" "rq_curr (rqs s ?c) \<noteq> p" "rq_balance_callback (rqs s ?c) = []" "p_pi_top_task (tasks s p) = None"
    using assms(1) by (simp_all add: dormant_def)
  have q: "\<not> task_on_rq_queued ?s1 p" "\<not> task_current ?s1 ?c p"
    using d(1,2) by (simp_all add: task_on_rq_queued_def task_current_def TASK_ON_RQ_QUEUED_def)
  have pre: "ts_prio_ok (p_static_prio (tasks ?s1 p))" "p_sched_class (tasks ?s1 p) \<noteq> Fair_class" "p_pi_top_task (tasks ?s1 p) = None"
    using assms(2) cls d(4) by auto
  obtain l where l: "setscheduler e x p attr pi ?s1 = upd_task p (\<lambda>_. (tasks ?s1 p)\<lparr>p_policy := a_policy attr, p_rt_priority := a_priority attr,
      p_normal_prio := (if a_policy attr = SCHED_TS then p_static_prio (tasks ?s1 p) else 99 - sint (a_priority attr)), p_se := l,
      p_prio := (if a_policy attr = SCHED_TS then p_static_prio (tasks ?s1 p) else 99 - sint (a_priority attr)),
      p_sched_class := (if a_policy attr = SCHED_TS then Ts_class else Rt_class)\<rparr>) ?s1"
    by (rule setscheduler_task[OF pre pol])
  let ?s4 = "setscheduler e x p attr pi ?s1"
  have "check_class_changed e ?c p (p_sched_class (tasks ?s1 p)) oldprio ?s4 = ?s4" for oldprio
    by (rule check_class_changed_off_queue) (use d(1) cls in \<open>simp_all add: l\<close>)
  moreover have "balance_callback e ?c ?s4 = ?s4" using d(3) by (simp add: l)
  ultimately have "apply_setscheduler e x p attr pi reset s = ?s4"
    using q assms(5) by (cases pi) (simp_all add: apply_setscheduler_def Let_def if_not_P)
  then show ?thesis unfolding l by (intro that[of l]) simp
qed

definition policy_request :: "int \<Rightarrow> u32 \<Rightarrow> bool" where
  "policy_request policy prio \<longleftrightarrow>
     (policy = SCHED_FIFO \<or> policy = SCHED_RR) \<and> 1 \<le> prio \<and> prio \<le> 99 \<or> policy = SCHED_TS \<and> prio = 0"

lemma policy_requestD:
  assumes "policy_request policy prio"
  shows "valid_policy policy" "\<not> dl_policy policy" "\<not> fair_policy policy" "rt_policy policy \<longleftrightarrow> prio \<noteq> 0"
    "0 \<le> policy" "sint (word_of_int policy :: u32) = policy" "\<not> flag_set (word_of_int policy :: u32) SCHED_RESET_ON_FORK"
    "policy \<noteq> SETPARAM_POLICY" "int (unat prio) \<le> 99" "sint prio = int (unat prio)"
    "rt_policy policy \<and> 1 \<le> sint prio \<and> sint prio \<le> 99 \<or> policy = SCHED_TS"
proof -
  show "valid_policy policy" "\<not> dl_policy policy" "\<not> fair_policy policy" "rt_policy policy \<longleftrightarrow> prio \<noteq> 0"
    "0 \<le> policy" "policy \<noteq> SETPARAM_POLICY" 
    using assms by (auto simp: policy_request_def valid_policy_def policy_defs SETPARAM_POLICY_def)
  show "sint (word_of_int policy :: u32) = policy" "\<not> flag_set (word_of_int policy :: u32) SCHED_RESET_ON_FORK"
    using assms by (auto simp: policy_request_def policy_consts flag_set_def SCHED_RESET_ON_FORK_def)
  have "unat prio \<le> 99" using assms by (auto simp: policy_request_def word_le_nat_alt)
  then show u: "int (unat prio) \<le> 99" by linarith
  show si: "sint prio = int (unat prio)"
  proof -
    have "uint prio \<le> 99" using u by simp
    moreover have "- (2 ^ 31) \<le> uint prio" by (rule order_trans[OF _ uint_ge_0]) simp
    ultimately show ?thesis by (simp add: sint_uint signed_take_bit_int_eq_self)
  qed
  show "rt_policy policy \<and> 1 \<le> sint prio \<and> sint prio \<le> 99 \<or> policy = SCHED_TS"
  proof (cases "policy = SCHED_TS")
    case False
    then have "1 \<le> unat prio" "unat prio \<le> 99" "rt_policy policy"
      using assms by (auto simp: policy_request_def word_le_nat_alt policy_defs)
    then show ?thesis unfolding si by linarith
  qed simp
qed

lemma setscheduler_dormant:
  assumes "dormant s p" "ts_prio_ok (p_static_prio (tasks s p))" "0 \<le> p_prio (tasks s p)"
    and cls: "p_sched_class (tasks s p) = Rt_class \<or> p_sched_class (tasks s p) = Ts_class"
    and pol: "policy_request policy prio" "policy \<noteq> p_policy (tasks s p)"
    and x: "x_capable x" "x_sec_setscheduler x p = None" "\<And>u. x_lock x p u = u" "\<And>u. x_adjust_pi x p u = u"
      "\<not> x_in_interrupt x" "0 < e_fuel e"
  obtains l where "sched_setscheduler e x p policy prio s = (None, upd_task p (\<lambda>_. (tasks s p)\<lparr>p_sched_reset_on_fork := False,
      p_policy := policy, p_rt_priority := prio,
      p_normal_prio := (if policy = SCHED_TS then p_static_prio (tasks s p) else 99 - sint prio), p_se := l,
      p_prio := (if policy = SCHED_TS then p_static_prio (tasks s p) else 99 - sint prio),
      p_sched_class := (if policy = SCHED_TS then Ts_class else Rt_class)\<rparr>) (update_rq_clock (p_cpu (tasks s p)) s))"
proof -
  let ?a = "\<lparr>a_policy = policy, a_flags = 0, a_nice = PRIO_TO_NICE (p_static_prio (tasks s p)), a_priority = prio,
                  a_runtime = 0, a_deadline = 0, a_period = 0\<rparr>"
  let ?s2 = "update_rq_clock (p_cpu (tasks s p)) s"
  note P = policy_requestD[OF pol(1)]
  have ref: "setscheduler_refused x s p ?a True False policy r = None" for r
    using P(1,2,4,9) x(1,2) by (simp add: setscheduler_refused_def prio_consts flag_set_def)
  have lk: "setscheduler_locked x ?s2 p ?a True False policy = Change"
    using assms(1,3) pol(2) P(2) by (simp add: setscheduler_locked_def dormant_def dl_task_def dl_prio_def prio_consts)
  obtain n where n: "sched_setscheduler_attr e x p ?a True True s = setscheduler_checked (Suc n) e x p ?a True True (a_policy ?a) s"
    using setscheduler_attr_unfold[OF x(3,6,5)] by metis
  have d: "dormant ?s2 p" using assms(1) by (simp add: dormant_clock)
  have pre: "ts_prio_ok (p_static_prio (tasks ?s2 p))" "p_sched_class (tasks ?s2 p) = Rt_class \<or> p_sched_class (tasks ?s2 p) = Ts_class"
    "rt_policy (a_policy ?a) \<and> 1 \<le> sint (a_priority ?a) \<and> sint (a_priority ?a) \<le> 99 \<or> a_policy ?a = SCHED_TS"
    using assms(2) cls P(11) by auto
  obtain l where l: "apply_setscheduler e x p ?a True False ?s2 = upd_task p (\<lambda>_. (tasks ?s2 p)\<lparr>p_sched_reset_on_fork := False,
      p_policy := a_policy ?a, p_rt_priority := a_priority ?a,
      p_normal_prio := (if a_policy ?a = SCHED_TS then p_static_prio (tasks ?s2 p) else 99 - sint (a_priority ?a)), p_se := l,
      p_prio := (if a_policy ?a = SCHED_TS then p_static_prio (tasks ?s2 p) else 99 - sint (a_priority ?a)),
      p_sched_class := (if a_policy ?a = SCHED_TS then Ts_class else Rt_class)\<rparr>) ?s2"
    by (rule apply_setscheduler_dormant[OF d pre x(4), of e True False])
  have "\<not> policy < 0" using P(5) by simp
  then have "sched_setscheduler_attr e x p ?a True True s = (None, apply_setscheduler e x p ?a True False ?s2)"
    unfolding n setscheduler_no_recheck[OF x(3)] Let_def using ref lk
    by (simp add: flag_set_def)
  then have "sched_setscheduler e x p policy prio s = (None, apply_setscheduler e x p ?a True False ?s2)"
    using P(7) by (simp add: sched_setscheduler_def sched_setscheduler_common_def)
  then show ?thesis unfolding l by (intro that[of l]) simp
qed

text \<open>A caller allowed to change anything, nobody else acting.\<close>

definition root_caller :: params_env where
  "root_caller = \<lparr>x_capable = True, x_ns_capable = (\<lambda>_. True), x_euid = 0, x_task_euid = (\<lambda>_. 0), x_task_uid = (\<lambda>_. 0),
     x_rlimit_nice = (\<lambda>_. 0), x_rlimit_rtprio = (\<lambda>_. 0), x_sec_setscheduler = (\<lambda>_. None), x_sec_getscheduler = (\<lambda>_. None),
     x_sec_setnice = (\<lambda>_ _. None), x_checkparam_dl = (\<lambda>_. True), x_setparam_dl = (\<lambda>_ _ u. u), x_getparam_dl = (\<lambda>_ _ a. a),
     x_dl_param_changed = (\<lambda>_ _ _. False), x_dl_overflow = (\<lambda>_ _ _ _. False), x_dl_entity_preempt = (\<lambda>_ _ _. False),
     x_dl_bw = (\<lambda>_. 0), x_adjust_pi = (\<lambda>_ u. u), x_find_task = (\<lambda>_ pid. Some (nat pid)), x_lock = (\<lambda>_ u. u),
     x_in_interrupt = False, x_cpuset_allowed = (\<lambda>_ _ _. True)\<rparr>"

lemma sleep_demo_dormant: "dormant sleep_demo 5"
  by (simp add: dormant_def sleep_demo boot_task_def boot_rq_def)

section \<open>Priority inheritance\<close>

text \<open>A sleeping time-sharing task gets a real-time donor: it becomes a real-time task of the donor's priority.\<close>

lemma setprio_boost:
  assumes "dormant s p" "rq_idle (rqs s (p_cpu (tasks s p))) \<noteq> p"
    and cls: "p_sched_class (tasks s p) = Ts_class" "ts_prio_ok (p_normal_prio (tasks s p))" "p_prio (tasks s p) = p_normal_prio (tasks s p)"
    and boost: "0 \<le> p_prio (tasks s d)" "p_prio (tasks s d) < 100"
  shows "rt_mutex_setprio e x p (Some d) s = upd_task p (\<lambda>t. t\<lparr>p_pi_top_task := Some d,
     p_sched_class := Rt_class, p_prio := p_prio (tasks s d)\<rparr>) (update_rq_clock (p_cpu (tasks s p)) s)" (is "_ = ?t")
proof -
  let ?c = "p_cpu (tasks s p)"
  let ?s1 = "upd_task p (\<lambda>t. t\<lparr>p_pi_top_task := Some d\<rparr>) (update_rq_clock ?c s)"
  let ?q = "p_prio (tasks s d)"
  have pr: "rt_effective_prio_of s (Some d) (p_normal_prio (tasks s p)) = ?q" "?q \<noteq> p_prio (tasks s p)"
    using cls boost by (auto simp: rt_effective_prio_of_def)
  have np: "\<not> dl_prio ?q" "rt_prio ?q" "\<not> dl_prio (p_prio (tasks s p))" "\<not> p_prio (tasks s p) < ?q" using cls boost by (auto simp: dl_prio_def rt_prio_def prio_consts)
  have d: "p_on_rq (tasks s p) = 0" "rq_curr (rqs s ?c) \<noteq> p" "rq_balance_callback (rqs s ?c) = []"
    using assms(1) by (simp_all add: dormant_def)
  have q: "\<not> task_on_rq_queued ?s1 p" "\<not> task_current ?s1 ?c p"
    using d(1,2) by (simp_all add: task_on_rq_queued_def task_current_def TASK_ON_RQ_QUEUED_def)
  have cc: "check_class_changed e ?c p (p_sched_class (tasks ?s1 p)) old ?t = ?t" for old
    by (rule check_class_changed_off_queue) (use d(1) cls in simp_all)
  have bc: "balance_callback e ?c ?t = ?t" using d(3) by (simp add: balance_callback_def Let_def)
  have sp: "snd (setprio_class x p (Some d) ?q (p_prio (tasks s p)) fl ?s1) = upd_task p (\<lambda>t. t\<lparr>p_sched_class := Rt_class\<rparr>) ?s1" for fl
    using np by (simp add: setprio_class_def)
  have "(case setprio_class x p (Some d) ?q (p_prio (tasks s p)) fl ?s1 of (fl, u) \<Rightarrow> upd_task p (\<lambda>t. t\<lparr>p_prio := ?q\<rparr>) u) = ?t" for fl
    unfolding case_prod_beta sp by simp
  then show ?thesis
    unfolding rt_mutex_setprio_def Let_def pr(1)
    using pr(2) np(1,2,3,4) q cc bc assms(2) by (simp add: setprio_class_def)
qed

text \<open>The donor leaves again: whatever the policy, the task is handed to the fair class.\<close>

lemma setprio_deboost:
  assumes "dormant (upd_task p (\<lambda>t. t\<lparr>p_pi_top_task := None\<rparr>) s) p" "rq_idle (rqs s (p_cpu (tasks s p))) \<noteq> p"
    and cls: "p_sched_class (tasks s p) = Rt_class" "ts_prio_ok (p_normal_prio (tasks s p))"
    and boost: "p_pi_top_task (tasks s p) = Some d" "0 \<le> p_prio (tasks s p)" "p_prio (tasks s p) < 100"
    and fair: "\<And>c u. op_switched_to (e_fair e) c p u = u"
  shows "rt_mutex_setprio e x p None s = upd_task p (\<lambda>t. t\<lparr>p_pi_top_task := None, p_rt := (p_rt t)\<lparr>rte_timeout := 0\<rparr>,
     p_sched_class := Fair_class, p_prio := p_normal_prio (tasks s p)\<rparr>) (update_rq_clock (p_cpu (tasks s p)) s)" (is "_ = ?t")
proof -
  let ?c = "p_cpu (tasks s p)"
  let ?s1 = "upd_task p (\<lambda>t. t\<lparr>p_pi_top_task := None\<rparr>) (update_rq_clock ?c s)"
  let ?q = "p_normal_prio (tasks s p)"
  have pr: "rt_effective_prio_of s None ?q = ?q" "?q \<noteq> p_prio (tasks s p)"
    using cls boost by (auto simp: rt_effective_prio_of_def)
  have np: "\<not> dl_prio ?q" "\<not> rt_prio ?q" "\<not> dl_prio (p_prio (tasks s p))" "rt_prio (p_prio (tasks s p))" using cls boost by (auto simp: dl_prio_def rt_prio_def prio_consts)
  have d: "p_on_rq (tasks s p) = 0" "rq_curr (rqs s ?c) \<noteq> p" "rq_balance_callback (rqs s ?c) = []"
    using assms(1) by (simp_all add: dormant_def)
  have q: "\<not> task_on_rq_queued ?s1 p" "\<not> task_current ?s1 ?c p"
    using d(1,2) by (simp_all add: task_on_rq_queued_def task_current_def TASK_ON_RQ_QUEUED_def)
  have nq: "\<not> task_on_rq_queued ?t p" using d(1) by (simp add: task_on_rq_queued_def TASK_ON_RQ_QUEUED_def)
  have sf: "class_switched_from e Rt_class ?c p ?t = ?t" using nq by (simp add: class_switched_from_def switched_from_rt_def)
  have cc: "check_class_changed e ?c p (p_sched_class (tasks ?s1 p)) old ?t = ?t" for old
    using sf fair cls(1) by (simp add: check_class_changed_def class_switched_to_def Let_def)
  have bc: "balance_callback e ?c ?t = ?t" using d(3) by (simp add: balance_callback_def Let_def)
  show ?thesis
    unfolding rt_mutex_setprio_def Let_def pr(1)
    using pr(2) np q cc bc assms(2) boost(1) by (simp add: setprio_class_def)
qed

section \<open>Affinity\<close>

lemma do_set_cpus_allowed_dormant:
  assumes "dormant s p" "p_sched_class (tasks s p) = Rt_class \<or> p_sched_class (tasks s p) = Ts_class"
  shows "do_set_cpus_allowed e p m s = set_cpus_allowed_common p m s"
proof -
  have "\<not> task_on_rq_queued s p" "\<not> task_current s (p_cpu (tasks s p)) p"
    using assms(1) by (simp_all add: dormant_def task_on_rq_queued_def task_current_def TASK_ON_RQ_QUEUED_def)
  then show ?thesis using assms(2) by (auto simp: do_set_cpus_allowed_def Let_def class_set_cpus_allowed_def)
qed

lemma masks_clock [simp]: "nr_cpu_ids (update_rq_clock c s) = nr_cpu_ids s" "cpu_active_mask (update_rq_clock c s) = cpu_active_mask s"
  "cpus_of (update_rq_clock c s) m = cpus_of s m"
  "cpumask_equal (update_rq_clock c s) m m' = cpumask_equal s m m'" "cpumask_any_and (update_rq_clock c s) m m' = cpumask_any_and s m m'"
proof -
  show nr: "nr_cpu_ids (update_rq_clock c s) = nr_cpu_ids s" "cpu_active_mask (update_rq_clock c s) = cpu_active_mask s"
    by (simp_all add: update_rq_clock_def update_rq_clock_task_def upd_rq_def Let_def)
  show co: "cpus_of (update_rq_clock c s) m = cpus_of s m" for m by (simp add: cpus_of_def nr)
  show "cpumask_equal (update_rq_clock c s) m m' = cpumask_equal s m m'" "cpumask_any_and (update_rq_clock c s) m m' = cpumask_any_and s m m'"
    unfolding cpumask_equal_def cpumask_any_and_def cpumask_first_def co nr by (rule refl)+
qed

lemma set_cpus_allowed_dormant:
  assumes "dormant s p" "p_sched_class (tasks s p) = Rt_class \<or> p_sched_class (tasks s p) = Ts_class"
    and "\<not> p_on_cpu (tasks s p)" "p_state (tasks s p) \<noteq> TASK_WAKING"
    and "\<not> flag_set (p_flags (tasks s p)) PF_NO_SETAFFINITY" "\<not> flag_set (p_flags (tasks s p)) PF_KTHREAD"
  shows "set_cpus_allowed_ptr e pending p m check s =
    (let s0 = update_rq_clock (p_cpu (tasks s p)) s in
     if cpumask_equal s (p_cpus_allowed (tasks s p)) m then (None, s0)
     else if cpumask_any_and s (cpu_active_mask s) m \<ge> nr_cpu_ids s then (Some EINVAL, s0)
     else (None, set_cpus_allowed_common p m s0))"
proof -
  let ?s0 = "update_rq_clock (p_cpu (tasks s p)) s"
  have d: "do_set_cpus_allowed e p m ?s0 = set_cpus_allowed_common p m ?s0"
    by (rule do_set_cpus_allowed_dormant) (use assms(1,2) in \<open>simp_all add: dormant_clock\<close>)
  have "\<not> task_running (set_cpus_allowed_common p m ?s0) p" "\<not> task_on_rq_queued (set_cpus_allowed_common p m ?s0) p"
    using assms(1,3) by (simp_all add: dormant_def set_cpus_allowed_common_def task_running_def task_on_rq_queued_def TASK_ON_RQ_QUEUED_def)
  then show ?thesis
    using assms(4-6) by (simp add: set_cpus_allowed_ptr_def d Let_def set_cpus_allowed_common_def)
qed


lemma cpumask_equal_iff: "cpumask_equal s m m' \<longleftrightarrow> (\<forall>c<nr_cpu_ids s. m c = m' c)"
proof
  assume "cpumask_equal s m m'"
  then have "set (cpus_of s m) = set (cpus_of s m')" by (simp add: cpumask_equal_def)
  then show "\<forall>c<nr_cpu_ids s. m c = m' c" by (auto simp: cpus_of_def)
qed (auto simp: cpumask_equal_def cpus_of_def intro: filter_cong)

lemma any_and_none: "nr_cpu_ids s \<le> cpumask_any_and s m m' \<longleftrightarrow> (\<forall>c<nr_cpu_ids s. \<not> (m c \<and> m' c))"
proof -
  have "cpumask_first s k \<le> nr_cpu_ids s" for k
  proof (cases "cpus_of s k")
    case (Cons c cs)
    then have "c \<in> set (cpus_of s k)" by simp
    then show ?thesis using Cons by (simp add: cpumask_first_def cpus_of_def)
  qed (simp add: cpumask_first_def)
  then show ?thesis using cpumask_first_none[of s "\<lambda>c. m c \<and> m' c"] by (metis cpumask_any_and_def order_antisym order_refl)
qed

lemma setaffinity_dormant:
  assumes "dormant s p" "p_sched_class (tasks s p) = Rt_class \<or> p_sched_class (tasks s p) = Ts_class"
    and "\<not> p_on_cpu (tasks s p)" "p_state (tasks s p) \<noteq> TASK_WAKING"
    and "\<not> flag_set (p_flags (tasks s p)) PF_NO_SETAFFINITY" "\<not> flag_set (p_flags (tasks s p)) PF_KTHREAD"
    and "\<And>u. x_cpuset_allowed x u p = cs" "\<And>c. m c \<Longrightarrow> cs c"
  shows "setaffinity_again e x (Suc n) p m s = set_cpus_allowed_ptr e (sched_ttwu_pending e) p m True s"
proof -
  have "cpumask_subset u m (x_cpuset_allowed x u p)" for u
    using assms(7,8) by (auto simp: cpumask_subset_def cpus_of_def list_all_iff)
  then show ?thesis by (auto split: prod.splits option.splits simp: Let_def)
qed

section \<open>Properties\<close>





text \<open>
  C38: When \<open>sched_setattr\<close> fails, it fails with one of the errors of its checks (or the
  security module's), and leaves every task, the queues of both classes, the running tasks and the
  counters as they were.
\<close>

theorem setattr_error_keeps_state:
  assumes "\<And>u. x_lock x p u = u" "\<not> x_in_interrupt x" "0 < e_fuel e" "sched_setattr e x p attr s = (Some err, t)"
  shows "tasks t = tasks s \<and> fault t = fault s \<and>
    (\<forall>c. rq_rt (rqs t c) = rq_rt (rqs s c) \<and> rq_ts (rqs t c) = rq_ts (rqs s c) \<and> rq_curr (rqs t c) = rq_curr (rqs s c) \<and>
       rq_nr_running (rqs t c) = rq_nr_running (rqs s c)) \<and>
    (err = EINVAL \<or> err = EPERM \<or> err = EBUSY \<or> x_sec_setscheduler x p = Some err)"
proof -
  obtain n where n: "sched_setattr e x p attr s = setscheduler_checked (Suc n) e x p attr True True (a_policy attr) s"
    using setscheduler_attr_unfold[OF assms(1,3,2)] by (metis sched_setattr_def)
  let ?k = "a_policy attr < 0" and ?p = "if a_policy attr < 0 then p_policy (tasks s p) else a_policy attr"
  let ?r = "if a_policy attr < 0 then p_sched_reset_on_fork (tasks s p) else flag_set (a_flags attr) SCHED_FLAG_RESET_ON_FORK"
  let ?s2 = "update_rq_clock (p_cpu (tasks s p)) s"
  note U = assms(4)[unfolded n setscheduler_no_recheck[OF assms(1)] Let_def]
  show ?thesis
  proof (cases "setscheduler_refused x s p attr True ?k ?p ?r")
    case None
    note V = U[unfolded None option.case]
    show ?thesis
    proof (cases "setscheduler_locked x ?s2 p attr True ?k ?p")
      case (Refuse err')
      then have "err' = err" "t = ?s2" using V by simp_all
      then show ?thesis using locked_error[OF Refuse] by auto
    qed (use V in simp_all)
  next
    case (Some err')
    then have "err' = err" "t = s" using U by simp_all
    then show ?thesis using refused_error[OF Some] by auto
  qed
qed

theorem setattr_error_keeps_state_witness:
  "\<exists>t. sched_setattr quiet_env root_caller 5 \<lparr>a_policy = SCHED_TS, a_flags = 0, a_nice = 0, a_priority = 7,
     a_runtime = 0, a_deadline = 0, a_period = 0\<rparr> sleep_demo = (Some EINVAL, t) \<and> tasks t = tasks sleep_demo"
proof -
  let ?a = "\<lparr>a_policy = SCHED_TS, a_flags = 0, a_nice = 0, a_priority = 7, a_runtime = 0, a_deadline = 0, a_period = 0\<rparr>"
  have "fst (sched_setattr quiet_env root_caller 5 ?a sleep_demo) = Some EINVAL"
    by code_simp
  then obtain t where t: "sched_setattr quiet_env root_caller 5 ?a sleep_demo = (Some EINVAL, t)"
    by (cases "sched_setattr quiet_env root_caller 5 ?a sleep_demo") simp
  show ?thesis
    using setattr_error_keeps_state[OF _ _ _ t] t by (simp add: root_caller_def quiet_env_def)
qed

text \<open>
  The affinity round trip of a sleeping task: if the mask, narrowed to its cpuset, contains an
  active CPU or is the mask it already has, the call succeeds and the query returns the narrowed
  mask restricted to the active CPUs; otherwise it fails with EINVAL and the query returns what it
  did before.  No other task changes.
\<close>

theorem setaffinity_roundtrip:
  assumes "dormant s p" "p_sched_class (tasks s p) = Rt_class \<or> p_sched_class (tasks s p) = Ts_class" "\<not> task_has_dl_policy (tasks s p)"
    and "\<not> p_on_cpu (tasks s p)" "p_state (tasks s p) \<noteq> TASK_WAKING"
    and "\<not> flag_set (p_flags (tasks s p)) PF_NO_SETAFFINITY" "\<not> flag_set (p_flags (tasks s p)) PF_KTHREAD"
    and "\<And>u. x_find_task x u pid = Some p" "\<And>u. x_cpuset_allowed x u p = cs" "0 < pid" "0 < e_fuel e"
    and "check_same_owner x p \<or> x_ns_capable x p" "x_sec_setscheduler x p = None" "x_sec_getscheduler x p = None"
    and t: "sched_setaffinity e x pid m s = (r, t)"
  shows "(if (\<exists>c<nr_cpu_ids s. m c \<and> cs c \<and> cpu_active_mask s c) \<or> cpumask_equal s (p_cpus_allowed (tasks s p)) (\<lambda>c. m c \<and> cs c)
     then r = None \<and> (\<exists>got. sched_getaffinity x pid t = Inr got \<and>
            (\<forall>c<nr_cpu_ids s. got c \<longleftrightarrow> m c \<and> cs c \<and> cpu_active_mask s c))
     else r = Some EINVAL \<and> sched_getaffinity x pid t = sched_getaffinity x pid s) \<and>
    (\<forall>q. q \<noteq> p \<longrightarrow> tasks t q = tasks s q) \<and> fault t = fault s"
proof -
  let ?m = "\<lambda>c. m c \<and> cs c"
  let ?s0 = "update_rq_clock (p_cpu (tasks s p)) s"
  obtain n where n: "e_fuel e = Suc n" using assms(11) gr0_implies_Suc by blast
  have "sched_setaffinity e x pid m s = set_cpus_allowed_ptr e (sched_ttwu_pending e) p ?m True s"
    using setaffinity_dormant[OF assms(1,2,4-7,9), of ?m e n] assms(3,6,8-14)
    by (auto simp: sched_setaffinity_def find_process_by_pid_def n)
  then have rt: "(r, t) = (if cpumask_equal s (p_cpus_allowed (tasks s p)) ?m then (None, ?s0)
     else if cpumask_any_and s (cpu_active_mask s) ?m \<ge> nr_cpu_ids s then (Some EINVAL, ?s0)
     else (None, set_cpus_allowed_common p ?m ?s0))"
    using t set_cpus_allowed_dormant[OF assms(1,2,4-7)] by (simp add: Let_def)
  have get: "sched_getaffinity x pid u = Inr (\<lambda>c. p_cpus_allowed (tasks u p) c \<and> cpu_active_mask u c)" for u
    using assms(8,10,14) by (simp add: sched_getaffinity_def find_process_by_pid_def)
  consider (same) "cpumask_equal s (p_cpus_allowed (tasks s p)) ?m" "r = None" "t = ?s0"
    | (none) "\<not> cpumask_equal s (p_cpus_allowed (tasks s p)) ?m" "\<forall>c<nr_cpu_ids s. \<not> (cpu_active_mask s c \<and> ?m c)" "r = Some EINVAL" "t = ?s0"
    | (set) "\<not> cpumask_equal s (p_cpus_allowed (tasks s p)) ?m" "\<not> (\<forall>c<nr_cpu_ids s. \<not> (cpu_active_mask s c \<and> ?m c))" "r = None" "t = set_cpus_allowed_common p ?m ?s0"
    using rt unfolding any_and_none by (auto split: if_splits)
  then show ?thesis
  proof cases
    case same
    then show ?thesis unfolding get cpumask_equal_iff by auto
  next
    case none
    then show ?thesis unfolding get by auto
  next
    case set
    then show ?thesis unfolding get by (auto simp: set_cpus_allowed_common_def upd_task_def)
  qed
qed

theorem setaffinity_roundtrip_witness:
  "\<exists>t got. sched_setaffinity quiet_env root_caller 5 (\<lambda>c. c = 1) sleep_demo = (None, t) \<and>
     sched_getaffinity root_caller 5 t = Inr got \<and> \<not> got 0 \<and> got 1"
proof -
  obtain r t where t: "sched_setaffinity quiet_env root_caller 5 (\<lambda>c. c = 1) sleep_demo = (r, t)" by fastforce
  have m: "nr_cpu_ids sleep_demo = 2" "cpu_active_mask sleep_demo = (\<lambda>c. c < 2)" by (simp_all add: sleep_demo_def boot_sys_def upd_task_def)
  show ?thesis
    using setaffinity_roundtrip[OF sleep_demo_dormant _ _ _ _ _ _ _ _ _ _ _ _ _ t, of "\<lambda>_. True"] t
    by (fastforce simp: m sleep_demo boot_task_def root_caller_def quiet_env_def task_has_dl_policy_def policy_consts policy_defs
       TASK_INTERRUPTIBLE_def TASK_WAKING_def flag_set_def)
qed

text \<open>
  Priority inheritance and the time-sharing class: while a sleeping time-sharing task has a
  real-time donor it is a real-time task of the donor's priority; when the donor is gone it has its
  old priority and still the policy SCHED\_TS, but \<open>rt_mutex_setprio\<close>, which knows no third
  class, leaves it in the fair class and not in the class of its policy.
\<close>

theorem deboost_loses_ts_class:
  assumes "dormant s p" "rq_idle (rqs s (p_cpu (tasks s p))) \<noteq> p" "d \<noteq> p"
    and "p_sched_class (tasks s p) = Ts_class" "p_policy (tasks s p) = SCHED_TS" "ts_prio_ok (p_prio (tasks s p))" "p_normal_prio (tasks s p) = p_prio (tasks s p)"
    and "0 \<le> p_prio (tasks s d)" "p_prio (tasks s d) < 100"
    and "\<And>c u. op_switched_to (e_fair e) c p u = u"
  shows "let s1 = rt_mutex_setprio e x p (Some d) s; s2 = rt_mutex_setprio e x p None s1 in
    p_prio (tasks s1 p) = p_prio (tasks s d) \<and> p_sched_class (tasks s1 p) = Rt_class \<and> p_policy (tasks s1 p) = SCHED_TS \<and>
    p_prio (tasks s2 p) = p_prio (tasks s p) \<and> p_policy (tasks s2 p) = SCHED_TS \<and> p_pi_top_task (tasks s2 p) = None \<and>
    p_sched_class (tasks s2 p) = Fair_class \<and> setscheduler_class (tasks s2 p) = Ts_class"
proof -
  let ?c = "p_cpu (tasks s p)" and ?s1 = "rt_mutex_setprio e x p (Some d) s"
  have b: "?s1 = upd_task p (\<lambda>t. t\<lparr>p_pi_top_task := Some d,
     p_sched_class := Rt_class, p_prio := p_prio (tasks s d)\<rparr>) (update_rq_clock ?c s)"
    by (rule setprio_boost) (use assms in auto)
  have "dormant (upd_task p (\<lambda>t. t\<lparr>p_pi_top_task := None\<rparr>) ?s1) p"
    using assms(1) unfolding b by (simp add: dormant_def)
  then have "rt_mutex_setprio e x p None ?s1 = upd_task p (\<lambda>t. t\<lparr>p_pi_top_task := None, p_rt := (p_rt t)\<lparr>rte_timeout := 0\<rparr>,
     p_sched_class := Fair_class, p_prio := p_normal_prio (tasks ?s1 p)\<rparr>) (update_rq_clock (p_cpu (tasks ?s1 p)) ?s1)"
    by (rule setprio_deboost) (use assms in \<open>simp_all add: b\<close>)
  then show ?thesis
    using assms(5-7) b by (simp add: Let_def setscheduler_class_def dl_prio_def rt_prio_def prio_consts ts_policy_def)
qed

theorem deboost_loses_ts_class_witness:
  "p_sched_class (tasks (rt_mutex_setprio quiet_env root_caller 5 None
     (rt_mutex_setprio quiet_env root_caller 5 (Some 6) (upd_task 6 (\<lambda>t. t\<lparr>p_prio := 40\<rparr>) sleep_demo))) 5) = Fair_class"
proof -
  let ?s = "upd_task 6 (\<lambda>t. t\<lparr>p_prio := 40\<rparr>) sleep_demo"
  have "dormant ?s 5" using sleep_demo_dormant by (simp add: dormant_def)
  then show ?thesis
    using deboost_loses_ts_class[of ?s 5 6 quiet_env root_caller]
    by (simp add: sleep_demo boot_task_def boot_rq_def quiet_env_def no_ops_def Let_def)
qed

text \<open>
  The priority ranges the kernel reports: SCHED\_TS is a valid policy, but both queries refuse
  it as they refuse an unknown one; every other valid policy has a range within the real-time
  priorities, which starts above 0 exactly for the real-time policies.
\<close>

theorem priority_range_of_policies:
  "valid_policy SCHED_TS \<and> sys_sched_get_priority_max SCHED_TS = Inl EINVAL \<and> sys_sched_get_priority_min SCHED_TS = Inl EINVAL \<and>
   (\<forall>policy. valid_policy policy \<and> policy \<noteq> SCHED_TS \<longrightarrow>
      (\<exists>lo hi. sys_sched_get_priority_min policy = Inr lo \<and> sys_sched_get_priority_max policy = Inr hi \<and>
         0 \<le> lo \<and> lo \<le> hi \<and> hi < MAX_RT_PRIO \<and> (lo = 0 \<longleftrightarrow> \<not> rt_policy policy))) \<and>
   (\<forall>policy. \<not> valid_policy policy \<longrightarrow> sys_sched_get_priority_max policy = Inl EINVAL)"
  by (auto simp: valid_policy_def policy_defs sys_sched_get_priority_max_def sys_sched_get_priority_min_def prio_consts)

theorem priority_range_of_policies_witness:
  "sys_sched_get_priority_min SCHED_RR = Inr 1 \<and> sys_sched_get_priority_max SCHED_RR = Inr 99"
  using priority_range_of_policies by (simp add: sys_sched_get_priority_max_def sys_sched_get_priority_min_def prio_consts policy_consts)

text \<open>
  The nice-to-weight tables: both have 40 entries; each inverse is the quotient of 2 to the 32 by its
  weight, off by less than one; each nice step lowers the weight by a factor of 1.2 to 1.279; and
  nice 0 weighs 1024.
\<close>

theorem weight_tables:
  "length sched_prio_to_weight = 40 \<and> length sched_prio_to_wmult = 40 \<and>
   list_all2 (\<lambda>w m. \<bar>uint m * w - 2 ^ 32\<bar> < w) sched_prio_to_weight sched_prio_to_wmult \<and>
   list_all2 (\<lambda>w v. 6 * v \<le> 5 * w \<and> 1000 * w \<le> 1279 * v) (butlast sched_prio_to_weight) (tl sched_prio_to_weight) \<and>
   sched_prio_to_weight ! nat (NICE_TO_PRIO 0 - MAX_RT_PRIO) = 1024"
  by code_simp

end
