(* ===== verification/C_Text.thy ===== *)
theory C_Text
  imports Prelude
begin

text \<open>
  The C library on text that the user programs share: character constants, strings in buffers,
  \<open>strtok\<close>, decimal output and the readers \<open>atoi\<close>, \<open>strtoul\<close> and \<open>scanf\<close> of numbers, with the fact that
  reading undoes writing.
\<close>

section \<open>Characters and buffers\<close>

definition NUL :: char where "NUL = CHR 0x00"
definition TAB :: char where "TAB = CHR 0x09"
definition NEWLINE :: char where "NEWLINE = CHR 0x0A"
definition SQUOTE :: char where "SQUOTE = CHR 0x27"
definition DQUOTE :: char where "DQUOTE = CHR 0x22"

definition c_str :: "string \<Rightarrow> string" where
  "c_str buf = takeWhile (\<lambda>c. c \<noteq> NUL) buf"

abbreviation strlen :: "string \<Rightarrow> nat" where
  "strlen buf \<equiv> length (c_str buf)"

text \<open>\<open>strtok\<close> with one delimiter: the pieces between runs of it.\<close>

function strtok :: "char \<Rightarrow> string \<Rightarrow> string list" where
  "strtok delim xs =
     (let ys = dropWhile (\<lambda>c. c = delim) xs
      in if ys = [] then []
         else takeWhile (\<lambda>c. c \<noteq> delim) ys # strtok delim (dropWhile (\<lambda>c. c \<noteq> delim) ys))"
  by auto
termination
proof (relation "measure (length \<circ> snd)")
  fix delim :: char and xs ys :: string
  assume y: "ys = dropWhile (\<lambda>c. c = delim) xs" "ys \<noteq> []"
  have "hd ys \<noteq> delim" using hd_dropWhile[of "\<lambda>c. c = delim" xs] y by simp
  then obtain a as where a: "ys = a # as" "a \<noteq> delim" using y(2) by (cases ys) simp_all
  then have "length (dropWhile (\<lambda>c. c \<noteq> delim) ys) \<le> length as" by (simp add: length_dropWhile_le)
  also have "\<dots> < length ys" using a by simp
  also have "\<dots> \<le> length xs" unfolding y(1) by (rule length_dropWhile_le)
  finally show "((delim, dropWhile (\<lambda>c. c \<noteq> delim) ys), delim, xs) \<in> measure (length \<circ> snd)" by simp
qed simp

declare strtok.simps [simp del]

section \<open>Numbers\<close>

text \<open>\<open>sprintf\<close> with the format \<open>%d\<close>.\<close>

fun show_nat :: "nat \<Rightarrow> string" where
  "show_nat n = (if n < 10 then [char_of (48 + n)] else show_nat (n div 10) @ [char_of (48 + n mod 10)])"

declare show_nat.simps [simp del]

definition show_int :: "int \<Rightarrow> string" where
  "show_int n = (if n < 0 then CHR ''-'' # show_nat (nat (- n)) else show_nat (nat n))"

definition is_digit :: "char \<Rightarrow> bool" where
  "is_digit c \<longleftrightarrow> 48 \<le> (of_char c :: nat) \<and> (of_char c :: nat) \<le> 57"

definition is_space :: "char \<Rightarrow> bool" where
  "is_space c \<longleftrightarrow> c = CHR '' '' \<or> (9 \<le> (of_char c :: nat) \<and> (of_char c :: nat) \<le> 13)"

definition leading_nat :: "string \<Rightarrow> nat" where
  "leading_nat cs = foldl (\<lambda>n c. 10 * n + (of_char c - 48)) 0 (takeWhile is_digit cs)"

text \<open>A number as \<open>scanf\<close> reads it: white space, a sign, digits; the answer has the rest of the text.\<close>

definition scan_int :: "string \<Rightarrow> (int \<times> string) option" where
  "scan_int cs =
     (let ds = dropWhile is_space cs;
          neg = (case ds of [] \<Rightarrow> False | c # xs \<Rightarrow> c = CHR ''-'');
          es = (case ds of [] \<Rightarrow> [] | c # xs \<Rightarrow> if c = CHR ''-'' \<or> c = CHR ''+'' then xs else ds)
      in if es = [] \<or> \<not> is_digit (hd es) then None
         else Some ((if neg then - int (leading_nat es) else int (leading_nat es)), dropWhile is_digit es))"

definition atoi :: "string \<Rightarrow> int" where
  "atoi cs = (case scan_int cs of None \<Rightarrow> 0 | Some (n, rest) \<Rightarrow> n)"

text \<open>\<open>strtoul\<close> in base ten: the largest value when the number does not fit.\<close>

definition strtoul :: "string \<Rightarrow> u64" where
  "strtoul cs = (case scan_int cs of None \<Rightarrow> 0 | Some (n, rest) \<Rightarrow> if 2 ^ 64 \<le> \<bar>n\<bar> then - 1 else word_of_int n)"

lemma digit_char:
  assumes "n < 10"
  shows "(of_char (char_of (48 + n)) :: nat) = 48 + n" "is_digit (char_of (48 + n))" "\<not> is_space (char_of (48 + n))"
    "char_of (48 + n) \<noteq> CHR ''-''" "char_of (48 + n) \<noteq> CHR ''+''"
proof -
  show o: "(of_char (char_of (48 + n)) :: nat) = 48 + n" using assms by (simp add: of_char_of)
  then show "is_digit (char_of (48 + n))" using assms by (simp add: is_digit_def)
  have ne: "char_of (48 + n) \<noteq> c" if "(of_char c :: nat) < 48" for c
    using o that by (metis not_add_less1)
  show "\<not> is_space (char_of (48 + n))" using o ne[of "CHR '' ''"] by (simp add: is_space_def)
  show "char_of (48 + n) \<noteq> CHR ''-''" "char_of (48 + n) \<noteq> CHR ''+''" using ne by simp_all
qed

lemma show_nat_digits: "list_all is_digit (show_nat n)" "show_nat n \<noteq> []"
proof (induction n rule: show_nat.induct)
  case (1 n)
  {
    case 1
    show ?case using "1.IH"(1) digit_char(2) by (subst show_nat.simps) simp
  next
    case 2
    show ?case by (subst show_nat.simps) simp
  }
qed

lemma leading_show_nat: "foldl (\<lambda>n c. 10 * n + (of_char c - 48)) 0 (show_nat n) = n"
proof (induction n rule: show_nat.induct)
  case (1 n)
  show ?case using 1 digit_char(1)[of "n mod 10"] digit_char(1)[of n] by (subst show_nat.simps) simp
qed

lemma show_nat_head: "is_digit (hd (show_nat n))" "\<not> is_space (hd (show_nat n))" "hd (show_nat n) \<noteq> CHR ''-''"
  "hd (show_nat n) \<noteq> CHR ''+''"
proof -
  have d: "is_digit (hd (show_nat n))" using show_nat_digits[of n] by (cases "show_nat n") simp_all
  then show "is_digit (hd (show_nat n))" .
  then show "\<not> is_space (hd (show_nat n))" by (auto simp: is_digit_def is_space_def)
  show "hd (show_nat n) \<noteq> CHR ''-''" "hd (show_nat n) \<noteq> CHR ''+''" using d by (auto simp: is_digit_def)
qed

lemma scan_show_nat:
  assumes "rest = [] \<or> \<not> is_digit (hd rest)"
  shows "scan_int (show_nat n @ rest) = Some (int n, rest)"
proof -
  obtain c cs where s: "show_nat n = c # cs" using show_nat_digits(2)[of n] by (cases "show_nat n") simp_all
  have h: "is_digit c" "\<not> is_space c" "c \<noteq> CHR ''-''" "c \<noteq> CHR ''+''" using show_nat_head[of n] s by simp_all
  have t: "takeWhile is_digit rest = []" "dropWhile is_digit rest = rest" using assms by (cases rest; simp)+
  have d: "\<forall>x \<in> set (show_nat n). is_digit x" using show_nat_digits(1)[of n] by (simp add: list_all_iff)
  have "takeWhile is_digit (show_nat n @ rest) = show_nat n" "dropWhile is_digit (show_nat n @ rest) = rest"
    using d t by (simp_all add: takeWhile_append2 dropWhile_append2)
  then show ?thesis using h leading_show_nat[of n] unfolding scan_int_def leading_nat_def s by simp
qed

lemma scan_show_nat_blank: "is_space b \<Longrightarrow> scan_int (b # cs) = scan_int cs"
  by (simp add: scan_int_def)

lemma strtoul_show_nat [simp]: "strtoul (show_nat (unat v)) = v"
proof -
  have "int (unat v) < 2 ^ 64" using unsigned_less[of v] by simp
  then show ?thesis using scan_show_nat[of "[]" "unat v"] by (simp add: strtoul_def)
qed

end
