(* ===== verification/Sched_Group.thy ===== *)
theory Sched_Group
  imports Sched_Prio Sched_Balance C_Text
begin

text \<open>
  Task groups (\<open>kernel/sched/core.c\<close> from \<open>sched_create_group\<close> on, and the group part of
  \<open>kernel/sched/rt.c\<close>): the tree of groups and the walk over it, the admission of real-time and fair
  bandwidth, the control files, and the life of a group.  The functions of \<open>fair.c\<close>, which is not in
  the tree, are the fields of \<open>group_env\<close>.
\<close>

section \<open>State\<close>

type_synonym tg_id = nat

text \<open>\<open>hierarchical_quota\<close> is an \<open>s64\<close>, read with \<open>sint\<close>.\<close>

record cfs_bandwidth =
  cb_period :: u64
  cb_quota :: u64
  cb_runtime :: u64
  cb_hierarchical_quota :: u64

record task_group =
  tg_shares :: u64
  tg_rt_bandwidth :: rt_bandwidth
  tg_cfs_bandwidth :: cfs_bandwidth
  tg_parent :: "tg_id option"
  tg_children :: "tg_id list"
  tg_autogroup :: bool
  tg_rt_rq_runtime :: "cpu_id \<Rightarrow> u64"
  tg_cfs_runtime_enabled :: "cpu_id \<Rightarrow> bool"
  tg_cfs_runtime_remaining :: "cpu_id \<Rightarrow> int"
  tg_cfs_throttled :: "cpu_id \<Rightarrow> bool"

text \<open>
  The machine, the groups, the list \<open>task_groups\<close>, the group of each task, the tasks there are, whether
  the controller is on the default (version 2) hierarchy, and the count of groups with a quota.
\<close>

record groups =
  g_sys :: sys
  g_tg :: "tg_id \<Rightarrow> task_group"
  g_list :: "tg_id list"
  g_task_group :: "task_id \<Rightarrow> tg_id"
  g_procs :: "task_id list"
  g_on_dfl :: bool
  g_cfs_bandwidth_used :: int

definition root_task_group :: tg_id where "root_task_group = 0"

definition upd_tg :: "tg_id \<Rightarrow> (task_group \<Rightarrow> task_group) \<Rightarrow> groups \<Rightarrow> groups" where
  "upd_tg t f g = g\<lparr>g_tg := (g_tg g)(t := f (g_tg g t))\<rparr>"

record group_env =
  ge_refill :: "tg_id \<Rightarrow> groups \<Rightarrow> groups"
  ge_start_cfs :: "tg_id \<Rightarrow> groups \<Rightarrow> groups"
  ge_unthrottle :: "tg_id \<Rightarrow> cpu_id \<Rightarrow> groups \<Rightarrow> groups"
  ge_set_shares :: "tg_id \<Rightarrow> u64 \<Rightarrow> groups \<Rightarrow> int \<times> groups"
  ge_online_fair :: "tg_id \<Rightarrow> groups \<Rightarrow> groups"
  ge_unregister_fair :: "tg_id \<Rightarrow> groups \<Rightarrow> groups"
  ge_memory :: bool
  ge_alloc_fair :: bool
  ge_change_group :: "task_id \<Rightarrow> groups \<Rightarrow> groups"
  ge_css :: "task_id \<Rightarrow> tg_id"

section \<open>Walking the tree\<close>

type_synonym tg_visitor = "tg_id \<Rightarrow> groups \<Rightarrow> int \<times> groups"

text \<open>
  The two labels of \<open>walk_tg_tree_from\<close>: entering a group, and leaving it after its children.  The
  fuel is the number of times a label is reached.
\<close>

datatype walk_label = Down tg_id | Up tg_id

fun walk :: "nat \<Rightarrow> tg_visitor \<Rightarrow> tg_visitor \<Rightarrow> tg_id \<Rightarrow> walk_label \<Rightarrow> groups \<Rightarrow> (int \<times> groups) option" where
  "walk 0 down up start l g = None"
| "walk (Suc n) down up start (Down parent) g =
     (case down parent g of (ret, g1) \<Rightarrow>
        if ret \<noteq> 0 then Some (ret, g1)
        else (case tg_children (g_tg g1 parent) of
            [] \<Rightarrow> walk n down up start (Up parent) g1
          | child # _ \<Rightarrow> walk n down up start (Down child) g1))"
| "walk (Suc n) down up start (Up parent) g =
     (case up parent g of (ret, g1) \<Rightarrow>
        if ret \<noteq> 0 \<or> parent = start then Some (ret, g1)
        else (case tg_parent (g_tg g1 parent) of
            None \<Rightarrow> Some (ret, g1)
          | Some p \<Rightarrow>
              (case next_of parent (tg_children (g_tg g1 p)) of
                 None \<Rightarrow> walk n down up start (Up p) g1
               | Some child \<Rightarrow> walk n down up start (Down child) g1)))"

definition walk_tg_tree_from :: "nat \<Rightarrow> tg_visitor \<Rightarrow> tg_visitor \<Rightarrow> tg_id \<Rightarrow> groups \<Rightarrow> (int \<times> groups) option" where
  "walk_tg_tree_from n down up start g = walk n down up start (Down start) g"

definition walk_tg_tree :: "nat \<Rightarrow> tg_visitor \<Rightarrow> tg_visitor \<Rightarrow> groups \<Rightarrow> (int \<times> groups) option" where
  "walk_tg_tree n down up g = walk_tg_tree_from n down up root_task_group g"

definition tg_nop :: tg_visitor where
  "tg_nop t g = (0, g)"

text \<open>Every group is entered and left once: twice the number of groups, and one more, is enough fuel.\<close>

definition walk_fuel :: "groups \<Rightarrow> nat" where
  "walk_fuel g = 2 * length (g_list g) + 1"

section \<open>Real-time bandwidth of groups\<close>

definition tg_has_rt_tasks :: "groups \<Rightarrow> tg_id \<Rightarrow> bool" where
  "tg_has_rt_tasks g t \<longleftrightarrow>
     \<not> tg_autogroup (g_tg g t) \<and> list_ex (\<lambda>p. rt_task (tasks (g_sys g) p) \<and> g_task_group g p = t) (g_procs g)"

text \<open>\<open>struct rt_schedulable_data\<close>: the group that is to change, and its new period and runtime.\<close>

record rt_schedulable_data =
  rd_tg :: "tg_id option"
  rd_period :: u64
  rd_runtime :: u64

definition rt_setting :: "rt_schedulable_data \<Rightarrow> groups \<Rightarrow> tg_id \<Rightarrow> u64 \<times> u64" where
  "rt_setting d g t =
     (if rd_tg d = Some t then (rd_period d, rd_runtime d)
      else (rt_period (tg_rt_bandwidth (g_tg g t)), rtb_runtime (tg_rt_bandwidth (g_tg g t))))"

definition tg_rt_schedulable :: "rt_schedulable_data \<Rightarrow> tg_visitor" where
  "tg_rt_schedulable d t g =
     (case rt_setting d g t of (period, runtime) \<Rightarrow>
        if runtime > period \<and> runtime \<noteq> RUNTIME_INF then (- errno_val EINVAL, g)
        else if rt_bandwidth_enabled (g_sys g) \<and> runtime = 0 \<and> tg_has_rt_tasks g t then (- errno_val EBUSY, g)
        else
          let total = to_ratio period runtime;
              limit = to_ratio (global_rt_period (g_sys g)) (global_rt_runtime (g_sys g));
              sum = sum_list (map (\<lambda>child. case rt_setting d g child of (p, r) \<Rightarrow> to_ratio p r) (tg_children (g_tg g t)))
          in if total > limit then (- errno_val EINVAL, g)
             else if sum > total then (- errno_val EINVAL, g)
             else (0, g))"

definition rt_schedulable :: "tg_id option \<Rightarrow> u64 \<Rightarrow> u64 \<Rightarrow> groups \<Rightarrow> (int \<times> groups) option" where
  "rt_schedulable t period runtime g =
     walk_tg_tree (walk_fuel g) (tg_rt_schedulable \<lparr>rd_tg = t, rd_period = period, rd_runtime = runtime\<rparr>) tg_nop g"

text \<open>The run queues of the group get the runtime on every possible CPU.\<close>

definition tg_set_rt_bandwidth :: "tg_id \<Rightarrow> u64 \<Rightarrow> u64 \<Rightarrow> groups \<Rightarrow> (int \<times> groups) option" where
  "tg_set_rt_bandwidth t period runtime g =
     (if t = root_task_group \<and> runtime = 0 then Some (- errno_val EINVAL, g)
      else if period = 0 then Some (- errno_val EINVAL, g)
      else case rt_schedulable (Some t) period runtime g of
        None \<Rightarrow> None
      | Some (err, g1) \<Rightarrow>
          if err \<noteq> 0 then Some (err, g1)
          else Some (0, upd_tg t (\<lambda>x. x\<lparr>
                 tg_rt_bandwidth := (tg_rt_bandwidth x)\<lparr>rt_period := period, rtb_runtime := runtime\<rparr>,
                 tg_rt_rq_runtime := (\<lambda>i. if cpu_possible_mask (g_sys g1) i then runtime else tg_rt_rq_runtime x i)\<rparr>) g1))"

definition U64_MAX :: u64 where "U64_MAX = NOT 0"

text \<open>The argument is a \<open>long\<close>.\<close>

definition sched_group_set_rt_runtime :: "tg_id \<Rightarrow> u64 \<Rightarrow> groups \<Rightarrow> (int \<times> groups) option" where
  "sched_group_set_rt_runtime t rt_runtime_us g =
     (let period = rt_period (tg_rt_bandwidth (g_tg g t))
      in if sint rt_runtime_us < 0 then tg_set_rt_bandwidth t period RUNTIME_INF g
         else if rt_runtime_us > U64_MAX div NSEC_PER_USEC then Some (- errno_val EINVAL, g)
         else tg_set_rt_bandwidth t period (rt_runtime_us * NSEC_PER_USEC) g)"

definition sched_group_rt_runtime :: "tg_id \<Rightarrow> groups \<Rightarrow> int" where
  "sched_group_rt_runtime t g =
     (if rtb_runtime (tg_rt_bandwidth (g_tg g t)) = RUNTIME_INF then - 1
      else sint (rtb_runtime (tg_rt_bandwidth (g_tg g t)) div NSEC_PER_USEC))"

definition sched_group_set_rt_period :: "tg_id \<Rightarrow> u64 \<Rightarrow> groups \<Rightarrow> (int \<times> groups) option" where
  "sched_group_set_rt_period t rt_period_us g =
     (if rt_period_us > U64_MAX div NSEC_PER_USEC then Some (- errno_val EINVAL, g)
      else tg_set_rt_bandwidth t (rt_period_us * NSEC_PER_USEC) (rtb_runtime (tg_rt_bandwidth (g_tg g t))) g)"

definition sched_group_rt_period :: "tg_id \<Rightarrow> groups \<Rightarrow> int" where
  "sched_group_rt_period t g = sint (rt_period (tg_rt_bandwidth (g_tg g t)) div NSEC_PER_USEC)"

definition sched_rt_group_constraints :: "groups \<Rightarrow> (int \<times> groups) option" where
  "sched_rt_group_constraints g = rt_schedulable None 0 0 g"

definition sched_rt_can_attach :: "tg_id \<Rightarrow> task_id \<Rightarrow> groups \<Rightarrow> bool" where
  "sched_rt_can_attach t p g \<longleftrightarrow>
     \<not> (rt_task (tasks (g_sys g) p) \<and> rtb_runtime (tg_rt_bandwidth (g_tg g t)) = 0)"

section \<open>Fair bandwidth of groups\<close>

definition max_cfs_quota_period :: u64 where "max_cfs_quota_period = 1000000000"
definition min_cfs_quota_period :: u64 where "min_cfs_quota_period = 1000000"

definition tg_get_cfs_quota :: "tg_id \<Rightarrow> groups \<Rightarrow> u64" where
  "tg_get_cfs_quota t g =
     (if cb_quota (tg_cfs_bandwidth (g_tg g t)) = RUNTIME_INF then - 1
      else cb_quota (tg_cfs_bandwidth (g_tg g t)) div NSEC_PER_USEC)"

definition tg_get_cfs_period :: "tg_id \<Rightarrow> groups \<Rightarrow> u64" where
  "tg_get_cfs_period t g = cb_period (tg_cfs_bandwidth (g_tg g t)) div NSEC_PER_USEC"

record cfs_schedulable_data =
  cd_tg :: tg_id
  cd_period :: u64
  cd_quota :: u64

definition normalize_cfs_quota :: "cfs_schedulable_data \<Rightarrow> groups \<Rightarrow> tg_id \<Rightarrow> u64" where
  "normalize_cfs_quota d g t =
     (let period = (if t = cd_tg d then cd_period d else tg_get_cfs_period t g);
          quota = (if t = cd_tg d then cd_quota d else tg_get_cfs_quota t g)
      in if quota = RUNTIME_INF \<or> quota = - 1 then RUNTIME_INF else to_ratio period quota)"

text \<open>
  On the default hierarchy the smaller of the two quotas as \<open>s64\<close> is taken, where no limit is -1; on
  the old one a group without limit inherits and a group above its parent is refused.
\<close>

definition tg_cfs_schedulable_down :: "cfs_schedulable_data \<Rightarrow> tg_visitor" where
  "tg_cfs_schedulable_down d t g =
     (let put = (\<lambda>q. upd_tg t (\<lambda>x. x\<lparr>tg_cfs_bandwidth := (tg_cfs_bandwidth x)\<lparr>cb_hierarchical_quota := q\<rparr>\<rparr>) g)
      in case tg_parent (g_tg g t) of
           None \<Rightarrow> (0, put RUNTIME_INF)
         | Some p \<Rightarrow>
             let quota = normalize_cfs_quota d g t;
                 parent_quota = cb_hierarchical_quota (tg_cfs_bandwidth (g_tg g p))
             in if g_on_dfl g then (0, put (if sint parent_quota < sint quota then parent_quota else quota))
                else if quota = RUNTIME_INF then (0, put parent_quota)
                else if parent_quota \<noteq> RUNTIME_INF \<and> sint quota > sint parent_quota then (- errno_val EINVAL, g)
                else (0, put quota))"

definition cfs_schedulable :: "tg_id \<Rightarrow> u64 \<Rightarrow> u64 \<Rightarrow> groups \<Rightarrow> (int \<times> groups) option" where
  "cfs_schedulable t period quota g =
     (let d = (if quota \<noteq> RUNTIME_INF
               then \<lparr>cd_tg = t, cd_period = period div NSEC_PER_USEC, cd_quota = quota div NSEC_PER_USEC\<rparr>
               else \<lparr>cd_tg = t, cd_period = period, cd_quota = quota\<rparr>)
      in walk_tg_tree (walk_fuel g) (tg_cfs_schedulable_down d) tg_nop g)"

text \<open>The loop over the online CPUs: switch the limit of the group's queue on or off and let it run again.\<close>

fun cfs_rqs_loop :: "group_env \<Rightarrow> tg_id \<Rightarrow> bool \<Rightarrow> cpu_id list \<Rightarrow> groups \<Rightarrow> groups" where
  "cfs_rqs_loop e t enabled [] g = g"
| "cfs_rqs_loop e t enabled (i # is) g =
     (let g1 = upd_tg t (\<lambda>x. x\<lparr>tg_cfs_runtime_enabled := (tg_cfs_runtime_enabled x)(i := enabled),
                               tg_cfs_runtime_remaining := (tg_cfs_runtime_remaining x)(i := 0)\<rparr>) g;
          g2 = (if tg_cfs_throttled (g_tg g1 t) i then ge_unthrottle e t i g1 else g1)
      in cfs_rqs_loop e t enabled is g2)"

definition tg_set_cfs_bandwidth :: "group_env \<Rightarrow> tg_id \<Rightarrow> u64 \<Rightarrow> u64 \<Rightarrow> groups \<Rightarrow> (int \<times> groups) option" where
  "tg_set_cfs_bandwidth e t period quota g =
     (if t = root_task_group then Some (- errno_val EINVAL, g)
      else if quota < min_cfs_quota_period \<or> period < min_cfs_quota_period then Some (- errno_val EINVAL, g)
      else if period > max_cfs_quota_period then Some (- errno_val EINVAL, g)
      else case cfs_schedulable t period quota g of
        None \<Rightarrow> None
      | Some (ret, g1) \<Rightarrow>
          if ret \<noteq> 0 then Some (ret, g1)
          else
            let runtime_enabled = (quota \<noteq> RUNTIME_INF);
                runtime_was_enabled = (cb_quota (tg_cfs_bandwidth (g_tg g1 t)) \<noteq> RUNTIME_INF);
                g2 = (if runtime_enabled \<and> \<not> runtime_was_enabled
                      then g1\<lparr>g_cfs_bandwidth_used := g_cfs_bandwidth_used g1 + 1\<rparr> else g1);
                g3 = ge_refill e t (upd_tg t (\<lambda>x. x\<lparr>tg_cfs_bandwidth :=
                       (tg_cfs_bandwidth x)\<lparr>cb_period := period, cb_quota := quota\<rparr>\<rparr>) g2);
                g4 = (if runtime_enabled then ge_start_cfs e t g3 else g3);
                g5 = cfs_rqs_loop e t runtime_enabled (filter (cpu_online_mask (g_sys g4)) [0..<nr_cpu_ids (g_sys g4)]) g4
            in Some (0, if runtime_was_enabled \<and> \<not> runtime_enabled
                        then g5\<lparr>g_cfs_bandwidth_used := g_cfs_bandwidth_used g5 - 1\<rparr> else g5))"

definition tg_set_cfs_quota :: "group_env \<Rightarrow> tg_id \<Rightarrow> u64 \<Rightarrow> groups \<Rightarrow> (int \<times> groups) option" where
  "tg_set_cfs_quota e t cfs_quota_us g =
     (let period = cb_period (tg_cfs_bandwidth (g_tg g t))
      in if sint cfs_quota_us < 0 then tg_set_cfs_bandwidth e t period RUNTIME_INF g
         else if cfs_quota_us \<le> U64_MAX div NSEC_PER_USEC
           then tg_set_cfs_bandwidth e t period (cfs_quota_us * NSEC_PER_USEC) g
         else Some (- errno_val EINVAL, g))"

definition tg_set_cfs_period :: "group_env \<Rightarrow> tg_id \<Rightarrow> u64 \<Rightarrow> groups \<Rightarrow> (int \<times> groups) option" where
  "tg_set_cfs_period e t cfs_period_us g =
     (if cfs_period_us > U64_MAX div NSEC_PER_USEC then Some (- errno_val EINVAL, g)
      else tg_set_cfs_bandwidth e t (cfs_period_us * NSEC_PER_USEC) (cb_quota (tg_cfs_bandwidth (g_tg g t))) g)"

section \<open>Control files\<close>

definition MIN_SHARES :: u64 where "MIN_SHARES = push_bit 1 1"
definition MAX_SHARES :: u64 where "MAX_SHARES = push_bit 18 1"
definition CGROUP_WEIGHT_MIN :: u64 where "CGROUP_WEIGHT_MIN = 1"
definition CGROUP_WEIGHT_DFL :: u64 where "CGROUP_WEIGHT_DFL = 100"
definition CGROUP_WEIGHT_MAX :: u64 where "CGROUP_WEIGHT_MAX = 10000"

definition cpu_shares_write_u64 :: "group_env \<Rightarrow> tg_id \<Rightarrow> u64 \<Rightarrow> groups \<Rightarrow> int \<times> groups" where
  "cpu_shares_write_u64 e t shareval g =
     ge_set_shares e t (scale_load (if shareval > scale_load_down (- 1) then MAX_SHARES else shareval)) g"

definition cpu_shares_read_u64 :: "tg_id \<Rightarrow> groups \<Rightarrow> u64" where
  "cpu_shares_read_u64 t g = scale_load_down (tg_shares (g_tg g t))"

definition DIV_ROUND_CLOSEST_ULL :: "u64 \<Rightarrow> u64 \<Rightarrow> u64" where
  "DIV_ROUND_CLOSEST_ULL x divisor = (x + divisor div 2) div divisor"

definition cpu_weight_read_u64 :: "tg_id \<Rightarrow> groups \<Rightarrow> u64" where
  "cpu_weight_read_u64 t g = DIV_ROUND_CLOSEST_ULL (scale_load_down (tg_shares (g_tg g t)) * CGROUP_WEIGHT_DFL) 1024"

definition cpu_weight_write_u64 :: "group_env \<Rightarrow> tg_id \<Rightarrow> u64 \<Rightarrow> groups \<Rightarrow> int \<times> groups" where
  "cpu_weight_write_u64 e t weight g =
     (if weight < CGROUP_WEIGHT_MIN \<or> weight > CGROUP_WEIGHT_MAX then (- errno_val ERANGE, g)
      else ge_set_shares e t (scale_load (DIV_ROUND_CLOSEST_ULL (weight * 1024) CGROUP_WEIGHT_DFL)) g)"

text \<open>The loop over the table of weights: it stops where the distance no longer shrinks.\<close>

fun nice_loop :: "int list \<Rightarrow> int \<Rightarrow> int \<Rightarrow> int \<Rightarrow> int" where
  "nice_loop [] weight prio last_delta = prio"
| "nice_loop (w # ws) weight prio last_delta =
     (let delta = \<bar>w - weight\<bar> in if delta \<ge> last_delta then prio else nice_loop ws weight (prio + 1) delta)"

definition cpu_weight_nice_read_s64 :: "tg_id \<Rightarrow> groups \<Rightarrow> int" where
  "cpu_weight_nice_read_s64 t g =
     (let weight = uint (scale_load_down (tg_shares (g_tg g t)));
          prio = nice_loop sched_prio_to_weight weight 0 (2 ^ 31 - 1)
      in PRIO_TO_NICE (prio - 1 + MAX_RT_PRIO))"

definition cpu_weight_nice_write_s64 :: "group_env \<Rightarrow> tg_id \<Rightarrow> int \<Rightarrow> groups \<Rightarrow> int \<times> groups" where
  "cpu_weight_nice_write_s64 e t nice g =
     (if nice < MIN_NICE \<or> nice > MAX_NICE then (- errno_val ERANGE, g)
      else
        let idx = NICE_TO_PRIO nice - MAX_RT_PRIO
        in ge_set_shares e t (scale_load (word_of_int (sched_prio_to_weight ! nat idx))) g)"

definition cpu_period_quota_print :: "int \<Rightarrow> int \<Rightarrow> string" where
  "cpu_period_quota_print period quota =
     (if quota < 0 then ''max'' else show_int quota) @ '' '' @ show_int period @ [NEWLINE]"

text \<open>
  \<open>sscanf\<close> with \<open>%llu\<close> wraps around at 64 bits; \<open>%20s\<close> takes at most twenty characters up to the next
  white space.
\<close>

definition scan_u64 :: "string \<Rightarrow> u64 option" where
  "scan_u64 cs =
     (let ds = dropWhile is_space cs
      in if ds = [] \<or> \<not> is_digit (hd ds) then None else Some (of_nat (leading_nat ds)))"

definition cpu_period_quota_parse :: "string \<Rightarrow> u64 \<Rightarrow> int \<times> u64 \<times> u64" where
  "cpu_period_quota_parse buf period =
     (let cs = dropWhile is_space buf;
          tok = take 20 (takeWhile (\<lambda>c. \<not> is_space c) cs);
          rest = drop (length tok) cs
      in if tok = [] then (- errno_val EINVAL, period, 0)
         else
           let period1 = (case scan_u64 rest of None \<Rightarrow> period | Some v \<Rightarrow> v) * NSEC_PER_USEC
           in case scan_u64 tok of
                Some q \<Rightarrow> (0, period1, q * NSEC_PER_USEC)
              | None \<Rightarrow> if tok = ''max'' then (0, period1, RUNTIME_INF) else (- errno_val EINVAL, period1, 0))"

definition cpu_max_show :: "tg_id \<Rightarrow> groups \<Rightarrow> string" where
  "cpu_max_show t g = cpu_period_quota_print (sint (tg_get_cfs_period t g)) (sint (tg_get_cfs_quota t g))"

definition cpu_max_write :: "group_env \<Rightarrow> tg_id \<Rightarrow> string \<Rightarrow> groups \<Rightarrow> (int \<times> groups) option" where
  "cpu_max_write e t buf g =
     (case cpu_period_quota_parse buf (tg_get_cfs_period t g) of (ret, period, quota) \<Rightarrow>
        if ret \<noteq> 0 then Some (ret, g)
        else map_option (\<lambda>(r, g1). (if r \<noteq> 0 then r else int (length buf), g1)) (tg_set_cfs_bandwidth e t period quota g))"

section \<open>The life of a group\<close>

text \<open>A new group has the period of the system and no real-time runtime.\<close>

definition alloc_rt_sched_group :: "group_env \<Rightarrow> tg_id \<Rightarrow> groups \<Rightarrow> bool \<times> groups" where
  "alloc_rt_sched_group e t g =
     (if \<not> ge_memory e then (False, g)
      else (True, upd_tg t (\<lambda>x. x\<lparr>
          tg_rt_bandwidth := init_rt_bandwidth (rt_period (def_rt_bandwidth (g_sys g))) 0 (tg_rt_bandwidth x),
          tg_rt_rq_runtime := (\<lambda>i. if cpu_possible_mask (g_sys g) i then 0 else tg_rt_rq_runtime x i)\<rparr>) g))"

text \<open>\<open>t\<close> is the memory the allocator hands out; the fields of a group are zero at first.\<close>

definition zero_group :: task_group where
  "zero_group = \<lparr>tg_shares = 0, tg_rt_bandwidth = \<lparr>rt_period = 0, rtb_runtime = 0, rt_period_active = False\<rparr>,
     tg_cfs_bandwidth = \<lparr>cb_period = 0, cb_quota = 0, cb_runtime = 0, cb_hierarchical_quota = 0\<rparr>,
     tg_parent = None, tg_children = [], tg_autogroup = False, tg_rt_rq_runtime = (\<lambda>_. 0),
     tg_cfs_runtime_enabled = (\<lambda>_. False), tg_cfs_runtime_remaining = (\<lambda>_. 0), tg_cfs_throttled = (\<lambda>_. False)\<rparr>"

definition sched_create_group :: "group_env \<Rightarrow> (tg_id \<Rightarrow> groups \<Rightarrow> groups) \<Rightarrow> tg_id option \<Rightarrow> groups \<Rightarrow> tg_id option \<times> groups" where
  "sched_create_group e init_fair mem g =
     (case mem of
        None \<Rightarrow> (None, g)
      | Some t \<Rightarrow>
          let g1 = upd_tg t (\<lambda>_. zero_group) g
          in if \<not> ge_alloc_fair e then (None, g1)
             else (case alloc_rt_sched_group e t (init_fair t g1) of
                 (False, g2) \<Rightarrow> (None, g2)
               | (True, g2) \<Rightarrow> (Some t, g2)))"

definition sched_online_group :: "group_env \<Rightarrow> tg_id \<Rightarrow> tg_id \<Rightarrow> groups \<Rightarrow> groups" where
  "sched_online_group e t parent g =
     (let g1 = g\<lparr>g_list := t # g_list g\<rparr>;
          g2 = upd_tg t (\<lambda>x. x\<lparr>tg_parent := Some parent, tg_children := []\<rparr>) g1;
          g3 = upd_tg parent (\<lambda>x. x\<lparr>tg_children := t # tg_children x\<rparr>) g2
      in ge_online_fair e t g3)"

definition sched_offline_group :: "group_env \<Rightarrow> tg_id \<Rightarrow> groups \<Rightarrow> groups" where
  "sched_offline_group e t g =
     (let g1 = ge_unregister_fair e t g;
          g2 = g1\<lparr>g_list := remove1 t (g_list g1)\<rparr>
      in case tg_parent (g_tg g2 t) of
           None \<Rightarrow> g2
         | Some p \<Rightarrow> upd_tg p (\<lambda>x. x\<lparr>tg_children := remove1 t (tg_children x)\<rparr>) g2)"

text \<open>The group of a task is the one of its control group; the fair class moves its entity.\<close>

definition sched_change_group :: "group_env \<Rightarrow> task_id \<Rightarrow> groups \<Rightarrow> groups" where
  "sched_change_group e p g = ge_change_group e p (g\<lparr>g_task_group := (g_task_group g)(p := ge_css e p)\<rparr>)"

definition sched_move_task :: "kenv \<Rightarrow> group_env \<Rightarrow> task_id \<Rightarrow> groups \<Rightarrow> groups" where
  "sched_move_task k e p g =
     (let c = p_cpu (tasks (g_sys g) p);
          on_sys = (\<lambda>f g. g\<lparr>g_sys := f (g_sys g)\<rparr>);
          flags = DEQUEUE_SAVE OR DEQUEUE_MOVE OR DEQUEUE_NOCLOCK;
          g1 = on_sys (update_rq_clock c) g;
          running = task_current (g_sys g1) c p;
          queued = task_on_rq_queued (g_sys g1) p;
          g2 = (if queued then on_sys (dequeue_task k c p flags) g1 else g1);
          g3 = (if running then on_sys (put_prev_task k c p) g2 else g2);
          g4 = sched_change_group e p g3;
          g5 = (if queued then on_sys (enqueue_task k c p flags) g4 else g4)
      in if running then on_sys (set_curr_task k c p) g5 else g5)"

definition cpu_cgroup_fork :: "group_env \<Rightarrow> task_id \<Rightarrow> groups \<Rightarrow> groups" where
  "cpu_cgroup_fork e p g =
     sched_change_group e p (g\<lparr>g_sys := update_rq_clock (p_cpu (tasks (g_sys g) p)) (g_sys g)\<rparr>)"

fun cpu_cgroup_can_attach :: "(task_id \<times> tg_id) list \<Rightarrow> groups \<Rightarrow> int" where
  "cpu_cgroup_can_attach [] g = 0"
| "cpu_cgroup_can_attach ((p, t) # tset) g =
     (if \<not> sched_rt_can_attach t p g then - errno_val EINVAL
      else if p_state (tasks (g_sys g) p) = TASK_NEW then - errno_val EINVAL
      else cpu_cgroup_can_attach tset g)"

definition cpu_cgroup_attach :: "kenv \<Rightarrow> group_env \<Rightarrow> (task_id \<times> tg_id) list \<Rightarrow> groups \<Rightarrow> groups" where
  "cpu_cgroup_attach k e tset g = fold (\<lambda>(p, t). sched_move_task k e p) tset g"

section \<open>The global limits\<close>

text \<open>
  The runtime is an \<open>int\<close>: compared with \<open>RUNTIME_INF\<close> it is sign-extended, compared with the period, an
  \<open>unsigned int\<close>, it is converted to one.
\<close>

definition sched_rt_global_validate :: "sys \<Rightarrow> int" where
  "sched_rt_global_validate s =
     (if sysctl_sched_rt_period s = 0 then - errno_val EINVAL
      else if (scast (sysctl_sched_rt_runtime s) :: u64) \<noteq> RUNTIME_INF \<and> sysctl_sched_rt_runtime s > sysctl_sched_rt_period s
        then - errno_val EINVAL
      else 0)"

definition sched_rt_do_global :: "sys \<Rightarrow> sys" where
  "sched_rt_do_global s =
     s\<lparr>def_rt_bandwidth := (def_rt_bandwidth s)\<lparr>rtb_runtime := global_rt_runtime s, rt_period := global_rt_period s\<rparr>\<rparr>"

text \<open>Without real-time groups every run queue gets the global runtime.\<close>

definition sched_rt_global_constraints :: "sys \<Rightarrow> int \<times> sys" where
  "sched_rt_global_constraints s =
     (0, fold (\<lambda>i. if cpu_possible_mask s i then upd_rt i (\<lambda>r. r\<lparr>rt_runtime := global_rt_runtime s\<rparr>) else id) [0..<nr_cpu_ids s] s)"

text \<open>
  A write to the files \<open>sched_rt_period_us\<close> and \<open>sched_rt_runtime_us\<close>: \<open>dointvec\<close> is what \<open>proc_dointvec\<close>
  answers and stores, \<open>dl_validate\<close> and \<open>dl_do_global\<close> belong to the deadline class.
\<close>

definition sched_rt_handler ::
  "(sys \<Rightarrow> int \<times> sys) \<Rightarrow> (sys \<Rightarrow> int) \<Rightarrow> (sys \<Rightarrow> sys) \<Rightarrow> bool \<Rightarrow> sys \<Rightarrow> int \<times> sys" where
  "sched_rt_handler dointvec dl_validate dl_do_global write s =
     (let undo = (\<lambda>s'. s'\<lparr>sysctl_sched_rt_period := sysctl_sched_rt_period s, sysctl_sched_rt_runtime := sysctl_sched_rt_runtime s\<rparr>)
      in case dointvec s of (ret, s1) \<Rightarrow>
           if ret \<noteq> 0 \<or> \<not> write then (ret, s1)
           else if sched_rt_global_validate s1 \<noteq> 0 then (sched_rt_global_validate s1, undo s1)
           else if dl_validate s1 \<noteq> 0 then (dl_validate s1, undo s1)
           else (case sched_rt_global_constraints s1 of (ret2, s2) \<Rightarrow>
               if ret2 \<noteq> 0 then (ret2, undo s2) else (0, dl_do_global (sched_rt_do_global s2))))"

definition RR_TIMESLICE :: "u64 \<Rightarrow> u32" where
  "RR_TIMESLICE hz = ucast (100 * hz div 1000)"

text \<open>The slice of round-robin tasks is kept in ticks; a value that is not positive restores the default.\<close>

definition sched_rr_handler :: "u64 \<Rightarrow> (u32 \<Rightarrow> u32) \<Rightarrow> (sys \<Rightarrow> int \<times> u32 \<times> sys) \<Rightarrow> bool \<Rightarrow> sys \<Rightarrow> int \<times> sys" where
  "sched_rr_handler hz msecs_to_jiffies dointvec write s =
     (case dointvec s of (ret, sysctl_sched_rr_timeslice, s1) \<Rightarrow>
        if ret \<noteq> 0 \<or> \<not> write then (ret, s1)
        else (ret, s1\<lparr>sched_rr_timeslice :=
               (if sint sysctl_sched_rr_timeslice \<le> 0 then RR_TIMESLICE hz else msecs_to_jiffies sysctl_sched_rr_timeslice)\<rparr>))"

end
