(* ===== verification/Sched_Group_Tree.thy ===== *)
theory Sched_Group_Tree
  imports Sched_Group "HOL-Library.Multiset"
begin

text \<open>
  The tree that the pointers \<open>parent\<close>, \<open>children\<close> and \<open>siblings\<close> of the task groups form, the walk over it
  (\<open>walk_tg_tree_from\<close> in \<open>kernel/sched/core.c\<close>) as a recursion, and the interface \<open>tree_visitor\<close> of the
  functions that are called on the way: they keep the links.
\<close>

section \<open>The tree behind the pointers\<close>

datatype tg_tree = Tg tg_id "tg_tree list"

primrec root_of :: "tg_tree \<Rightarrow> tg_id" where
  "root_of (Tg t ts) = t"

primrec ids :: "tg_tree \<Rightarrow> tg_id list" where
  "ids (Tg t ts) = t # concat (map ids ts)"

definition links :: "groups \<Rightarrow> tg_id \<Rightarrow> tg_id option \<times> tg_id list" where
  "links g t = (tg_parent (g_tg g t), tg_children (g_tg g t))"

fun tree_in :: "(tg_id \<Rightarrow> tg_id option \<times> tg_id list) \<Rightarrow> tg_tree \<Rightarrow> bool" where
  "tree_in l (Tg t ts) \<longleftrightarrow> snd (l t) = map root_of ts \<and> (\<forall>c \<in> set ts. fst (l (root_of c)) = Some t \<and> tree_in l c)"

text \<open>Walking a tree by recursion: the reference for \<open>walk_tg_tree_from\<close>.\<close>

fun visit :: "tg_visitor \<Rightarrow> tg_visitor \<Rightarrow> tg_tree \<Rightarrow> groups \<Rightarrow> int \<times> groups"
and visits :: "tg_visitor \<Rightarrow> tg_visitor \<Rightarrow> tg_tree list \<Rightarrow> groups \<Rightarrow> int \<times> groups" where
  "visit down up (Tg t ts) g =
     (case down t g of (r, g1) \<Rightarrow>
        if r \<noteq> 0 then (r, g1)
        else (case visits down up ts g1 of (r2, g2) \<Rightarrow> if r2 \<noteq> 0 then (r2, g2) else up t g2))"
| "visits down up [] g = (0, g)"
| "visits down up (t # ts) g =
     (case visit down up t g of (r, g1) \<Rightarrow> if r \<noteq> 0 then (r, g1) else visits down up ts g1)"

lemma root_in_ids [simp]: "root_of t \<in> set (ids t)"
  by (cases t) simp

lemma roots_in_ids: "c \<in> set ts \<Longrightarrow> root_of c \<in> set (concat (map ids ts))"
  by (simp, rule bexI[of _ c]) simp_all

lemma distinct_roots: "distinct (concat (map ids ts)) \<Longrightarrow> distinct (map root_of ts)"
proof (induction ts)
  case (Cons c ts)
  have "root_of c \<notin> root_of ` set ts"
  proof
    assume "root_of c \<in> root_of ` set ts"
    then obtain d where "d \<in> set ts" "root_of c = root_of d" by auto
    then have "root_of c \<in> set (concat (map ids ts))" using roots_in_ids[of d ts] by metis
    moreover have "set (ids c) \<inter> set (concat (map ids ts)) = {}" using Cons.prems by auto
    ultimately show False using root_in_ids[of c] by blast
  qed
  then show ?case using Cons by simp
qed simp

text \<open>What happens after a group has been left.\<close>

definition leave :: "nat \<Rightarrow> tg_visitor \<Rightarrow> tg_visitor \<Rightarrow> tg_id \<Rightarrow> tg_id \<Rightarrow> int \<Rightarrow> groups \<Rightarrow> (int \<times> groups) option" where
  "leave n down up start parent ret g =
     (if ret \<noteq> 0 \<or> parent = start then Some (ret, g)
      else (case tg_parent (g_tg g parent) of
          None \<Rightarrow> Some (ret, g)
        | Some p \<Rightarrow> (case next_of parent (tg_children (g_tg g p)) of
              None \<Rightarrow> walk n down up start (Up p) g
            | Some child \<Rightarrow> walk n down up start (Down child) g)))"

lemma walk_Up: "walk (Suc n) down up start (Up parent) g = (case up parent g of (r, g1) \<Rightarrow> leave n down up start parent r g1)"
  by (simp add: leave_def split: prod.split)

text \<open>Visitors may change what a group holds, not how the groups are linked.\<close>

locale tree_visitor =
  fixes down up :: tg_visitor
  assumes down_links: "links (snd (down t g)) = links g"
    and up_links: "links (snd (up t g)) = links g"
begin

lemma visits_links_step:
  assumes "\<And>t g. t \<in> set ts \<Longrightarrow> links (snd (visit down up t g)) = links g"
  shows "links (snd (visits down up ts g)) = links g"
  using assms
proof (induction ts arbitrary: g)
  case (Cons t ts)
  have "links (snd (visit down up t g)) = links g" using Cons.prems by simp
  moreover have "links (snd (visits down up ts h)) = links h" for h using Cons by simp
  ultimately show ?case by (auto split: prod.split)
qed simp

lemma visit_links: "links (snd (visit down up tr g)) = links g"
proof (induction tr arbitrary: g)
  case (Tg t ts)
  have v: "links (snd (visits down up ts h)) = links h" for h using Tg.IH by (rule visits_links_step)
  obtain r g1 where d: "down t g = (r, g1)" by (cases "down t g")
  obtain r2 g2 where w: "visits down up ts g1 = (r2, g2)" by (cases "visits down up ts g1")
  have "links g1 = links g" "links g2 = links g1" using down_links[of t g] v[of g1] d w by simp_all
  then show ?case using d w up_links[of t g2] by simp
qed

lemma visits_links: "links (snd (visits down up ts g)) = links g"
  by (rule visits_links_step) (rule visit_links)

lemma walk_children:
  assumes walk_child: "\<And>c n g. c \<in> set ts \<Longrightarrow> tree_in (links g) c \<Longrightarrow>
      walk (n + 2 * length (ids c)) down up start (Down (root_of c)) g
        = (case visit down up c g of (r, g1) \<Rightarrow> leave n down up start (root_of c) r g1)"
    and ch: "snd (links g t) = map root_of (pre @ ts)" "distinct (map root_of (pre @ ts))"
    and par: "\<forall>c \<in> set ts. fst (links g (root_of c)) = Some t \<and> tree_in (links g) c \<and> root_of c \<noteq> start" and ne: "ts \<noteq> []"
  shows "walk (n + 2 * length (concat (map ids ts))) down up start (Down (root_of (hd ts))) g
    = (case visits down up ts g of (r, g1) \<Rightarrow> if r \<noteq> 0 then Some (r, g1) else walk n down up start (Up t) g1)"
  using assms
proof (induction ts arbitrary: pre g)
  case (Cons c cs)
  let ?m = "n + 2 * length (concat (map ids cs))"
  obtain r g1 where v: "visit down up c g = (r, g1)" by (cases "visit down up c g")
  have l: "links g1 = links g" using visit_links[of c g] v by simp
  have f: "n + 2 * length (concat (map ids (c # cs))) = ?m + 2 * length (ids c)" by simp
  have w: "walk (?m + 2 * length (ids c)) down up start (Down (root_of c)) g = leave ?m down up start (root_of c) r g1"
    using Cons.prems(1)[of c g ?m] Cons.prems(4) v by simp
  show ?case
  proof (cases "r = 0")
    case False
    then show ?thesis using w v unfolding f by (simp add: leave_def)
  next
    case True
    have p: "tg_parent (g_tg g1 (root_of c)) = Some t" "root_of c \<noteq> start" using Cons.prems(4) l by (auto simp: links_def fun_eq_iff)
    have k: "tg_children (g_tg g1 t) = map root_of pre @ root_of c # map root_of cs"
      using Cons.prems(2) l by (auto simp: links_def fun_eq_iff)
    have "root_of c \<notin> set (map root_of pre)" using Cons.prems(3) by auto
    then have nx: "next_of (root_of c) (tg_children (g_tg g1 t)) = (case map root_of cs of [] \<Rightarrow> None | y # zs \<Rightarrow> Some y)"
      unfolding k by (rule next_of_split)
    show ?thesis
    proof (cases cs)
      case Nil
      then show ?thesis using w v True p nx unfolding f by (simp add: leave_def)
    next
      case (Cons d ds)
      have "walk ?m down up start (Down (root_of (hd cs))) g1
          = (case visits down up cs g1 of (r, g2) \<Rightarrow> if r \<noteq> 0 then Some (r, g2) else walk n down up start (Up t) g2)"
        using Cons.prems l Cons by (intro Cons.IH[where pre = "pre @ [c]"]) auto
      then show ?thesis using w v True p nx Cons unfolding f by (simp add: leave_def)
    qed
  qed
qed simp

lemma walk_visits:
  assumes "tree_in (links g) tr" "distinct (ids tr)" "start \<notin> set (tl (ids tr))"
  shows "walk (n + 2 * length (ids tr)) down up start (Down (root_of tr)) g
    = (case visit down up tr g of (r, g1) \<Rightarrow> leave n down up start (root_of tr) r g1)"
  using assms
proof (induction tr arbitrary: n g)
  case (Tg t ts)
  obtain r g1 where d: "down t g = (r, g1)" by (cases "down t g")
  have l: "links g1 = links g" using down_links[of t g] d by simp
  show ?case
  proof (cases "r = 0")
    case False
    then show ?thesis using d by (simp add: leave_def)
  next
    case True
    have ch: "tg_children (g_tg g1 t) = map root_of ts" using Tg.prems(1) l by (auto simp: links_def fun_eq_iff)
    show ?thesis
    proof (cases "ts = []")
      case True
      then show ?thesis using d ch \<open>r = 0\<close> by (simp add: walk_Up del: walk.simps(3))
    next
      case False
      have dis: "distinct (map root_of ts)" using Tg.prems(2) by (simp add: distinct_roots)
      have "walk (Suc n + 2 * length (concat (map ids ts))) down up start (Down (root_of (hd ts))) g1
          = (case visits down up ts g1 of (r, g1) \<Rightarrow> if r \<noteq> 0 then Some (r, g1) else walk (Suc n) down up start (Up t) g1)"
      proof (rule walk_children[where pre = "[]"])
        fix c m h assume c: "c \<in> set ts" "tree_in (links h) c"
        have "set (ids c) \<subseteq> set (concat (map ids ts))" "distinct (ids c)" using c(1) Tg.prems(2) by (auto simp: distinct_concat_iff)
        moreover have "set (tl (ids c)) \<subseteq> set (ids c)" by (cases c) auto
        ultimately show "walk (m + 2 * length (ids c)) down up start (Down (root_of c)) h
            = (case visit down up c h of (r, g1) \<Rightarrow> leave m down up start (root_of c) r g1)"
          using c Tg.prems(3) by (intro Tg.IH) auto
      next
        show "\<forall>c \<in> set ts. fst (links g1 (root_of c)) = Some t \<and> tree_in (links g1) c \<and> root_of c \<noteq> start"
          using Tg.prems(1,3) l roots_in_ids[of _ ts] by auto
      qed (use ch dis False in \<open>simp_all add: links_def\<close>)
      then show ?thesis using d ch True False
        by (cases ts) (simp_all add: walk_Up del: walk.simps(3) split: prod.splits, simp add: leave_def)
    qed
  qed
qed

end

definition group_tree :: "groups \<Rightarrow> tg_tree \<Rightarrow> bool" where
  "group_tree g tr \<longleftrightarrow> root_of tr = root_task_group \<and> tree_in (links g) tr \<and> distinct (ids tr)
     \<and> set (ids tr) = set (g_list g) \<and> distinct (g_list g) \<and> tg_parent (g_tg g root_task_group) = None"

context tree_visitor
begin

lemma walk_tree:
  assumes "group_tree g tr"
  shows "walk_tg_tree (walk_fuel g) down up g = Some (visit down up tr g)"
proof -
  have t: "root_of tr = root_task_group" "tree_in (links g) tr" "distinct (ids tr)" "set (ids tr) = set (g_list g)" "distinct (g_list g)"
    using assms by (simp_all add: group_tree_def)
  have "length (ids tr) = length (g_list g)" using t distinct_card by metis
  then have f: "walk_fuel g = 1 + 2 * length (ids tr)" by (simp add: walk_fuel_def)
  have "root_task_group \<notin> set (tl (ids tr))" using t(1,3) by (cases tr) auto
  then show ?thesis
    unfolding walk_tg_tree_def walk_tg_tree_from_def f using walk_visits[OF t(2,3), of root_task_group 1] t(1)
    by (simp add: leave_def split: prod.splits)
qed

end

text \<open>A visitor that only checks stops at the first group, parents before children, that fails.\<close>

lemma visits_check_step:
  assumes "\<And>t. t \<in> set ts \<Longrightarrow> snd (visit down tg_nop t g) = g \<and> (fst (visit down tg_nop t g) = 0 \<longleftrightarrow> (\<forall>x \<in> set (ids t). fst (down x g) = 0))"
  shows "snd (visits down tg_nop ts g) = g \<and> (fst (visits down tg_nop ts g) = 0 \<longleftrightarrow> (\<forall>x \<in> set (concat (map ids ts)). fst (down x g) = 0))"
  using assms
proof (induction ts)
  case (Cons t ts)
  obtain r g1 where v: "visit down tg_nop t g = (r, g1)" by (cases "visit down tg_nop t g")
  have "g1 = g" "r = 0 \<longleftrightarrow> (\<forall>x \<in> set (ids t). fst (down x g) = 0)" using Cons.prems[of t] v by auto
  moreover have "snd (visits down tg_nop ts g) = g \<and> (fst (visits down tg_nop ts g) = 0 \<longleftrightarrow> (\<forall>x \<in> set (concat (map ids ts)). fst (down x g) = 0))"
    using Cons by simp
  ultimately show ?case using v by auto
qed simp

lemma visit_check:
  assumes "\<And>t. snd (down t g) = g"
  shows "snd (visit down tg_nop tr g) = g \<and> (fst (visit down tg_nop tr g) = 0 \<longleftrightarrow> (\<forall>t \<in> set (ids tr). fst (down t g) = 0))"
proof (induction tr)
  case (Tg t ts)
  obtain r g1 where d: "down t g = (r, g1)" by (cases "down t g")
  then have "g1 = g" using assms[of t] by simp
  moreover obtain r2 g2 where v: "visits down tg_nop ts g = (r2, g2)" by (cases "visits down tg_nop ts g")
  moreover have "g2 = g" "r2 = 0 \<longleftrightarrow> (\<forall>x \<in> set (concat (map ids ts)). fst (down x g) = 0)"
    using visits_check_step[of ts down g, OF Tg.IH] v by simp_all
  moreover have "tg_nop t g = (0, g)" by (simp add: tg_nop_def)
  ultimately show ?case using d by auto
qed

lemma tree_in_children:
  assumes "tree_in l tr" "distinct (ids tr)" "t \<in> set (ids tr)"
  shows "set (snd (l t)) \<subseteq> set (ids tr) \<and> distinct (snd (l t)) \<and> (\<forall>c \<in> set (snd (l t)). fst (l c) = Some t)"
  using assms
proof (induction tr)
  case (Tg r ts)
  show ?case
  proof (cases "t = r")
    case True
    then show ?thesis using Tg.prems distinct_roots[of ts] roots_in_ids[of _ ts] by auto
  next
    case False
    then obtain c where c: "c \<in> set ts" "t \<in> set (ids c)" using Tg.prems(3) by auto
    moreover have "distinct (ids c)" "tree_in l c" "set (ids c) \<subseteq> set (ids (Tg r ts))"
      using c(1) Tg.prems by (auto simp: distinct_concat_iff)
    ultimately show ?thesis using Tg.IH[OF c(1)] by blast
  qed
qed

lemma tree_children:
  assumes "group_tree g tr" "t \<in> set (g_list g)"
  shows "set (tg_children (g_tg g t)) \<subseteq> set (g_list g)" "distinct (tg_children (g_tg g t))"
    "c \<in> set (tg_children (g_tg g t)) \<Longrightarrow> tg_parent (g_tg g c) = Some t"
  using assms tree_in_children[of "links g" tr t] by (auto simp: group_tree_def links_def)

end
