(* ===== verification/Sched_Group_Rt.thy ===== *)
theory Sched_Group_Rt
  imports Sched_Group_Tree
begin

text \<open>
  Real-time bandwidth of task groups: the admission test of \<open>kernel/sched/rt.c\<close> says that every group fits,
  and the operations on groups keep it so.
\<close>

section \<open>Real-time bandwidth\<close>

definition rt_load :: "groups \<Rightarrow> tg_id \<Rightarrow> nat" where
  "rt_load g t = unat (to_ratio (rt_period (tg_rt_bandwidth (g_tg g t))) (rtb_runtime (tg_rt_bandwidth (g_tg g t))))"

definition rt_limit :: "sys \<Rightarrow> u64" where
  "rt_limit s = to_ratio (global_rt_period s) (global_rt_runtime s)"

text \<open>
  What the admission test is for: no group has more than the whole, the children of a group share what
  it has, and a group with real-time tasks has some runtime.
\<close>

definition rt_fits :: "groups \<Rightarrow> tg_id \<Rightarrow> bool" where
  "rt_fits g t \<longleftrightarrow>
     rt_load g t \<le> unat (rt_limit (g_sys g)) \<and>
     sum_list (map (rt_load g) (tg_children (g_tg g t))) \<le> rt_load g t \<and>
     (rtb_runtime (tg_rt_bandwidth (g_tg g t)) = RUNTIME_INF
        \<or> rtb_runtime (tg_rt_bandwidth (g_tg g t)) \<le> rt_period (tg_rt_bandwidth (g_tg g t))) \<and>
     (rt_bandwidth_enabled (g_sys g) \<longrightarrow> tg_has_rt_tasks g t \<longrightarrow> rtb_runtime (tg_rt_bandwidth (g_tg g t)) \<noteq> 0)"

abbreviation no_change :: rt_schedulable_data where
  "no_change \<equiv> \<lparr>rd_tg = None, rd_period = 0, rd_runtime = 0\<rparr>"

lemma rt_setting_none [simp]: "rt_setting no_change g t = (rt_period (tg_rt_bandwidth (g_tg g t)), rtb_runtime (tg_rt_bandwidth (g_tg g t)))"
  by (simp add: rt_setting_def)

lemma unat_sum_list:
  fixes ws :: "u64 list"
  assumes "sum_list (map unat ws) < 2 ^ 64"
  shows "unat (sum_list ws) = sum_list (map unat ws)"
  using assms
proof (induction ws)
  case (Cons w ws)
  have "unat (sum_list ws) = sum_list (map unat ws)" using Cons by simp
  then show ?case using Cons.prems by (simp add: unat_word_ariths)
qed simp

lemma sum_list_bound: "(\<And>x. x \<in> set xs \<Longrightarrow> f x \<le> (b :: nat)) \<Longrightarrow> sum_list (map f xs) \<le> length xs * b"
  by (induction xs) (simp_all add: add_mono)

lemma RUNTIME_INF_max: "unat RUNTIME_INF = 2 ^ 64 - 1"
  by (simp add: RUNTIME_INF_def unsigned_minus_1_eq_mask mask_eq_exp_minus_1)

lemma to_ratio_small:
  assumes "r \<le> p" "p < 2 ^ 44" "0 < p"
  shows "unat (to_ratio (of_nat p) (of_nat r)) = 2 ^ 20 * r div p"
proof -
  have b: "r < 2 ^ 44" using assms by simp
  have u: "unat (of_nat p :: u64) = p" "unat (of_nat r :: u64) = r" using assms b by (simp_all add: unat_of_nat)
  have "(of_nat r :: u64) \<noteq> RUNTIME_INF" using u(2) b RUNTIME_INF_max by auto
  moreover have "(of_nat p :: u64) \<noteq> 0" using u(1) assms(3) by auto
  moreover have "unat (push_bit 20 (of_nat r :: u64)) = 2 ^ 20 * r"
    using b u(2) by (simp add: push_bit_eq_mult unat_word_ariths)
  ultimately show ?thesis using u by (simp add: to_ratio_def BW_SHIFT_def unat_div)
qed

lemma rt_limit_bound:
  assumes "sched_rt_global_validate s = 0"
  shows "unat (rt_limit s) \<le> 2 ^ 20"
proof (cases "sint (sysctl_sched_rt_runtime s) < 0")
  case True
  then show ?thesis by (simp add: rt_limit_def global_rt_runtime_def to_ratio_def BW_UNIT_def BW_SHIFT_def)
next
  case False
  let ?r = "unat (sysctl_sched_rt_runtime s)" and ?p = "unat (sysctl_sched_rt_period s)"
  have "(scast (sysctl_sched_rt_runtime s) :: u64) \<noteq> RUNTIME_INF"
  proof
    assume "(scast (sysctl_sched_rt_runtime s) :: u64) = RUNTIME_INF"
    then have "sint (scast (sysctl_sched_rt_runtime s) :: u64) = - 1" by (simp add: RUNTIME_INF_def)
    then show False using False by (simp add: sint_up_scast is_up)
  qed
  then have v: "sysctl_sched_rt_period s \<noteq> 0" "sysctl_sched_rt_runtime s \<le> sysctl_sched_rt_period s"
    using assms by (simp_all add: sched_rt_global_validate_def split: if_splits)
  have "?p < 2 ^ 32" by (rule order_less_le_trans[OF unsigned_less]) simp
  then have b: "?r * 1000 \<le> ?p * 1000" "?p * 1000 < 2 ^ 44" "0 < ?p * 1000"
    using v by (simp_all add: word_le_nat_alt unat_gt_0)
  have "global_rt_period s = of_nat (?p * 1000)" "global_rt_runtime s = of_nat (?r * 1000)"
    using False by (simp_all add: global_rt_period_def global_rt_runtime_def NSEC_PER_USEC_def)
  then have "unat (rt_limit s) = 2 ^ 20 * (?r * 1000) div (?p * 1000)"
    unfolding rt_limit_def using to_ratio_small[OF b] by simp
  also have "\<dots> \<le> 2 ^ 20 * (?p * 1000) div (?p * 1000)" using b(1) by (intro div_le_mono) simp
  also have "\<dots> = 2 ^ 20" using b(3) by simp
  finally show ?thesis .
qed

lemma rt_check_state: "snd (tg_rt_schedulable d t g) = g"
  by (simp add: tg_rt_schedulable_def Let_def split: prod.split)

lemma upd_tg_simps [simp]:
  "g_sys (upd_tg t f g) = g_sys g" "g_list (upd_tg t f g) = g_list g" "g_task_group (upd_tg t f g) = g_task_group g"
  "g_procs (upd_tg t f g) = g_procs g" "g_on_dfl (upd_tg t f g) = g_on_dfl g"
  "g_tg (upd_tg t f g) u = (if u = t then f (g_tg g t) else g_tg g u)"
  by (simp_all add: upd_tg_def)

interpretation rt_walk: tree_visitor "tg_rt_schedulable d" tg_nop
  by unfold_locales (simp_all add: rt_check_state tg_nop_def)

text \<open>The admission test is the test of every group.\<close>

lemma rt_schedulable_all:
  assumes "group_tree g tr"
  shows "\<exists>r. rt_schedulable t period runtime g = Some (r, g)
    \<and> (r = 0 \<longleftrightarrow> (\<forall>u \<in> set (g_list g). fst (tg_rt_schedulable \<lparr>rd_tg = t, rd_period = period, rd_runtime = runtime\<rparr> u g) = 0))"
proof -
  let ?down = "tg_rt_schedulable \<lparr>rd_tg = t, rd_period = period, rd_runtime = runtime\<rparr>"
  have "rt_schedulable t period runtime g = Some (visit ?down tg_nop tr g)"
    unfolding rt_schedulable_def using assms by (rule rt_walk.walk_tree)
  moreover have "set (ids tr) = set (g_list g)" using assms by (simp add: group_tree_def)
  moreover obtain r g1 where "visit ?down tg_nop tr g = (r, g1)" by (cases "visit ?down tg_nop tr g")
  ultimately show ?thesis using visit_check[of ?down g tr, OF rt_check_state] by simp
qed

text \<open>The group with its new values.\<close>

definition set_rt :: "tg_id \<Rightarrow> u64 \<Rightarrow> u64 \<Rightarrow> groups \<Rightarrow> groups" where
  "set_rt t period runtime g = upd_tg t (\<lambda>x. x\<lparr>
     tg_rt_bandwidth := (tg_rt_bandwidth x)\<lparr>rt_period := period, rtb_runtime := runtime\<rparr>,
     tg_rt_rq_runtime := (\<lambda>i. if cpu_possible_mask (g_sys g) i then runtime else tg_rt_rq_runtime x i)\<rparr>) g"

lemma set_rt_links [simp]: "links (set_rt t period runtime g) = links g"
  by (auto simp: links_def set_rt_def)

lemma set_rt_simps [simp]: "g_sys (set_rt t p r g) = g_sys g" "g_list (set_rt t p r g) = g_list g"
  "tg_children (g_tg (set_rt t p r g) u) = tg_children (g_tg g u)"
  "tg_parent (g_tg (set_rt t p r g) u) = tg_parent (g_tg g u)"
  by (simp_all add: set_rt_def)

lemma check_after_set:
  "fst (tg_rt_schedulable no_change u (set_rt t period runtime g))
   = fst (tg_rt_schedulable \<lparr>rd_tg = Some t, rd_period = period, rd_runtime = runtime\<rparr> u g)"
proof -
  let ?d = "\<lparr>rd_tg = Some t, rd_period = period, rd_runtime = runtime\<rparr>"
  have s: "rt_setting no_change (set_rt t period runtime g) v = rt_setting ?d g v" for v
    by (simp add: rt_setting_def set_rt_def)
  have h: "tg_has_rt_tasks (set_rt t period runtime g) v = tg_has_rt_tasks g v" for v
    by (simp add: tg_has_rt_tasks_def set_rt_def)
  show ?thesis unfolding tg_rt_schedulable_def s h by (simp add: Let_def split: prod.split)
qed

text \<open>Passing the test everywhere means fitting everywhere: the sums do not wrap around.\<close>

lemma checks_fit:
  assumes tr: "group_tree g tr" and lim: "unat (rt_limit (g_sys g)) \<le> 2 ^ 20" and n: "length (g_list g) < 2 ^ 44"
    and ok: "\<forall>u \<in> set (g_list g). fst (tg_rt_schedulable no_change u g) = 0" and t: "t \<in> set (g_list g)"
  shows "rt_fits g t"
proof -
  have le: "rt_load g u \<le> unat (rt_limit (g_sys g))" if "u \<in> set (g_list g)" for u
    using bspec[OF ok that] by (simp add: tg_rt_schedulable_def rt_load_def rt_limit_def Let_def word_le_nat_alt not_less split: if_splits)
  have ch: "set (tg_children (g_tg g t)) \<subseteq> set (g_list g)" "distinct (tg_children (g_tg g t))"
    using tree_children[OF tr t] by simp_all
  let ?ws = "map (\<lambda>c. to_ratio (rt_period (tg_rt_bandwidth (g_tg g c))) (rtb_runtime (tg_rt_bandwidth (g_tg g c)))) (tg_children (g_tg g t))"
  have m: "map unat ?ws = map (rt_load g) (tg_children (g_tg g t))" by (simp add: rt_load_def)
  have "length (tg_children (g_tg g t)) \<le> length (g_list g)"
    using card_mono[OF finite_set ch(1)] card_length[of "g_list g"] distinct_card[OF ch(2)] by simp
  then have "length (tg_children (g_tg g t)) * 2 ^ 20 < 2 ^ 64" using n by simp
  moreover have "sum_list (map (rt_load g) (tg_children (g_tg g t))) \<le> length (tg_children (g_tg g t)) * 2 ^ 20"
    using le lim ch(1) by (intro sum_list_bound) (meson le_trans subsetD)
  ultimately have "sum_list (map unat ?ws) < 2 ^ 64" unfolding m by linarith
  then have "unat (sum_list ?ws) = sum_list (map (rt_load g) (tg_children (g_tg g t)))" unfolding m[symmetric] by (rule unat_sum_list)
  then show ?thesis using bspec[OF ok t] le[OF t]
    by (auto simp: rt_fits_def tg_rt_schedulable_def rt_load_def Let_def word_le_nat_alt not_less split: if_splits)
qed

lemma set_rt_tree: "group_tree (set_rt t p r g) tr \<longleftrightarrow> group_tree g tr"
  by (simp add: group_tree_def)

definition hier_ok :: "groups \<Rightarrow> bool" where
  "hier_ok g \<longleftrightarrow> (\<exists>tr. group_tree g tr) \<and> (\<forall>t \<in> set (g_list g). rt_fits g t)"

definition limits_ok :: "groups \<Rightarrow> bool" where
  "limits_ok g \<longleftrightarrow> sched_rt_global_validate (g_sys g) = 0 \<and> length (g_list g) < 2 ^ 44"

lemma tg_set_rt_bandwidth_effect:
  assumes tr: "group_tree g tr" and lim: "limits_ok g"
  shows "\<exists>r g'. tg_set_rt_bandwidth t period runtime g = Some (r, g') \<and>
    (if r = 0 then g' = set_rt t period runtime g \<and> group_tree g' tr \<and> (\<forall>u \<in> set (g_list g'). rt_fits g' u) else g' = g)"
proof (cases "t = root_task_group \<and> runtime = 0 \<or> period = 0")
  case True
  then show ?thesis by (auto simp: tg_set_rt_bandwidth_def)
next
  case False
  let ?g' = "set_rt t period runtime g"
  obtain r where r: "rt_schedulable (Some t) period runtime g = Some (r, g)"
    and all: "r = 0 \<longleftrightarrow> (\<forall>u \<in> set (g_list g). fst (tg_rt_schedulable \<lparr>rd_tg = Some t, rd_period = period, rd_runtime = runtime\<rparr> u g) = 0)"
    using rt_schedulable_all[OF tr, of "Some t" period runtime] by blast
  have e: "tg_set_rt_bandwidth t period runtime g = Some (if r = 0 then (0, ?g') else (r, g))"
    using r False by (auto simp: tg_set_rt_bandwidth_def set_rt_def)
  show ?thesis
  proof (cases "r = 0")
    case True
    have tr': "group_tree ?g' tr" using tr by (simp add: set_rt_tree)
    have "rt_fits ?g' u" if "u \<in> set (g_list ?g')" for u
      using lim all True that rt_limit_bound[of "g_sys g"]
      by (intro checks_fit[OF tr']) (auto simp: limits_ok_def check_after_set)
    then show ?thesis using e True tr' by auto
  next
    case False
    then show ?thesis using e by auto
  qed
qed

text \<open>The leaves of the tree share what the root has.\<close>

primrec leaf_load :: "groups \<Rightarrow> tg_tree \<Rightarrow> nat" where
  "leaf_load g (Tg t ts) = (if ts = [] then rt_load g t else sum_list (map (leaf_load g) ts))"

lemma leaf_load_le:
  assumes "tree_in (links g) tr" "\<forall>t \<in> set (ids tr). rt_fits g t"
  shows "leaf_load g tr \<le> rt_load g (root_of tr)"
  using assms
proof (induction tr)
  case (Tg t ts)
  have "leaf_load g c \<le> rt_load g (root_of c)" if "c \<in> set ts" for c
    using Tg.IH[OF that] Tg.prems that by auto
  then have "sum_list (map (leaf_load g) ts) \<le> sum_list (map (rt_load g \<circ> root_of) ts)"
    by (intro sum_list_mono) simp
  also have "\<dots> = sum_list (map (rt_load g) (tg_children (g_tg g t)))" using Tg.prems(1) by (simp add: links_def)
  also have "\<dots> \<le> rt_load g t" using Tg.prems(2) by (simp add: rt_fits_def)
  finally show ?case by simp
qed

section \<open>Groups that come and go\<close>

fun graft :: "tg_id \<Rightarrow> tg_id \<Rightarrow> tg_tree \<Rightarrow> tg_tree" where
  "graft p c (Tg t ts) = Tg t ((if t = p then [Tg c []] else []) @ map (graft p c) ts)"

fun prune :: "tg_id \<Rightarrow> tg_tree \<Rightarrow> tg_tree" where
  "prune c (Tg t ts) = Tg t (map (prune c) (filter (\<lambda>x. root_of x \<noteq> c) ts))"

lemma root_graft [simp]: "root_of (graft p c tr) = root_of tr"
  by (cases tr) simp

lemma root_prune [simp]: "root_of (prune c tr) = root_of tr"
  by (cases tr) simp

lemma mset_concat_map: "mset (concat (map f ts)) = sum_list (map (\<lambda>x. mset (f x)) ts)"
  by (induction ts) simp_all

lemma replicate_mset_add: "replicate_mset (m + n) x = replicate_mset m x + replicate_mset n x"
  by (induction m) simp_all

lemma mset_ids_graft: "mset (ids (graft p c tr)) = mset (ids tr) + replicate_mset (count (mset (ids tr)) p) c"
proof (induction tr)
  case (Tg t ts)
  have "sum_list (map (\<lambda>x. mset (ids (graft p c x))) ts)
      = sum_list (map (\<lambda>x. mset (ids x)) ts) + replicate_mset (count (sum_list (map (\<lambda>x. mset (ids x)) ts)) p) c"
    using Tg.IH by (induction ts) (simp_all add: replicate_mset_add add.assoc add.left_commute add.commute)
  then show ?case by (simp add: mset_concat_map comp_def add.commute)
qed

lemma leaf_ids:
  assumes "tree_in l x" "snd (l (root_of x)) = []"
  shows "ids x = [root_of x]"
  using assms by (cases x) simp

lemma mset_ids_prune:
  assumes "tree_in l tr" "snd (l c) = []" "root_of tr \<noteq> c"
  shows "mset (ids (prune c tr)) = filter_mset (\<lambda>x. x \<noteq> c) (mset (ids tr))"
  using assms
proof (induction tr)
  case (Tg t ts)
  have "mset (concat (map (\<lambda>x. ids (prune c x)) (filter (\<lambda>x. root_of x \<noteq> c) ts)))
      = filter_mset (\<lambda>x. x \<noteq> c) (mset (concat (map ids ts)))" if "\<forall>x \<in> set ts. tree_in l x"
    using Tg.IH that
  proof (induction ts)
    case (Cons x ts)
    show ?case
    proof (cases "root_of x = c")
      case True
      then have "ids x = [c]" using leaf_ids[of l x] Cons.prems(2) Tg.prems(2) by simp
      then show ?thesis using True Cons by simp
    next
      case False
      then have "mset (ids (prune c x)) = filter_mset (\<lambda>x. x \<noteq> c) (mset (ids x))" using Cons.prems Tg.prems(2) by simp
      then show ?thesis using False Cons by simp
    qed
  qed simp
  then show ?case using Tg.prems by (simp add: comp_def)
qed

lemma tree_in_cong:
  assumes "\<And>t. t \<in> set (ids tr) \<Longrightarrow> l t = l' t"
  shows "tree_in l tr \<longleftrightarrow> tree_in l' tr"
  using assms
proof (induction tr)
  case (Tg t ts)
  have "tree_in l c \<longleftrightarrow> tree_in l' c" if "c \<in> set ts" for c using Tg.IH[OF that] Tg.prems that by auto
  moreover have "l (root_of c) = l' (root_of c)" if "c \<in> set ts" for c
    using Tg.prems roots_in_ids[OF that] by simp
  ultimately show ?case using Tg.prems[of t] by simp
qed

lemma graft_id: "p \<notin> set (ids tr) \<Longrightarrow> graft p c tr = tr"
  by (induction tr) (auto intro: map_idI)

lemma tree_in_graft:
  assumes "tree_in l tr" "c \<notin> set (ids tr)" "\<And>t. t \<noteq> c \<Longrightarrow> t \<noteq> p \<Longrightarrow> l' t = l t" "p \<noteq> c"
    "l' c = (Some p, [])" "l' p = (fst (l p), c # snd (l p))"
  shows "tree_in l' (graft p c tr)"
  using assms
proof (induction tr)
  case (Tg t ts)
  have k: "tree_in l' (graft p c x)" if "x \<in> set ts" for x using Tg.IH[OF that] Tg.prems that by auto
  have f: "fst (l' (root_of x)) = Some t" if "x \<in> set ts" for x
  proof -
    have "root_of x \<noteq> c" using roots_in_ids[OF that] Tg.prems(2) by auto
    then show ?thesis using Tg.prems that by (cases "root_of x = p") auto
  qed
  have "t \<noteq> c" using Tg.prems(2) by simp
  then show ?case using k f Tg.prems by (cases "t = p") auto
qed

lemma remove1_roots:
  assumes "distinct (map root_of ts)"
  shows "remove1 c (map root_of ts) = map root_of (filter (\<lambda>x. root_of x \<noteq> c) ts)"
  using assms
proof (induction ts)
  case (Cons x ts)
  show ?case
  proof (cases "root_of x = c")
    case True
    then have "\<forall>y \<in> set ts. root_of y \<noteq> c" using Cons.prems by (simp add: image_iff) metis
    then have "filter (\<lambda>x. root_of x \<noteq> c) ts = ts" by (simp add: filter_id_conv)
    then show ?thesis using True by simp
  qed (use Cons in auto)
qed simp

lemma tree_in_prune:
  assumes "tree_in l tr" "distinct (ids tr)" "root_of tr \<noteq> c" "snd (l c) = []" "\<And>t. t \<noteq> c \<Longrightarrow> t \<noteq> p \<Longrightarrow> l' t = l t"
    "l' p = (fst (l p), remove1 c (snd (l p)))" "fst (l c) = Some p" "p \<noteq> c"
  shows "tree_in l' (prune c tr)"
  using assms
proof (induction tr)
  case (Tg t ts)
  let ?ts = "filter (\<lambda>x. root_of x \<noteq> c) ts"
  have k: "tree_in l' (prune c x)" if "x \<in> set ?ts" for x
    using Tg.IH[of x] Tg.prems that by (auto simp: distinct_concat_iff)
  have f: "fst (l' (root_of x)) = Some t" if "x \<in> set ?ts" for x
    using Tg.prems that by (cases "root_of x = p") auto
  have d: "distinct (map root_of ts)" using Tg.prems(2) by (simp add: distinct_roots)
  have "snd (l' t) = map root_of ?ts"
  proof (cases "t = p")
    case True
    then show ?thesis using Tg.prems(1,6) remove1_roots[OF d] by simp
  next
    case False
    then have "\<forall>x \<in> set ts. root_of x \<noteq> c" using Tg.prems(1,7) by auto
    then have "?ts = ts" by (simp add: filter_id_conv)
    then show ?thesis using False Tg.prems(1,3,5) by simp
  qed
  then show ?case using k f by (auto simp: comp_def)
qed

text \<open>Two states that agree on the links and the real-time side of the groups in use.\<close>

definition same_rt :: "tg_id set \<Rightarrow> groups \<Rightarrow> groups \<Rightarrow> bool" where
  "same_rt A g g' \<longleftrightarrow> g_sys g' = g_sys g \<and> g_list g' = g_list g \<and> g_task_group g' = g_task_group g \<and> g_procs g' = g_procs g \<and>
     (\<forall>t \<in> A. links g' t = links g t \<and> tg_rt_bandwidth (g_tg g' t) = tg_rt_bandwidth (g_tg g t)
        \<and> tg_autogroup (g_tg g' t) = tg_autogroup (g_tg g t))"

lemma same_rt_mono: "same_rt A g g' \<Longrightarrow> B \<subseteq> A \<Longrightarrow> same_rt B g g'"
  by (auto simp: same_rt_def)

lemma same_rt_tree:
  assumes "same_rt (set (g_list g)) g g'" "group_tree g tr"
  shows "group_tree g' tr"
proof -
  have l: "links g' t = links g t" if "t \<in> set (ids tr)" for t using assms that by (simp add: same_rt_def group_tree_def)
  have "links g' (root_of tr) = links g (root_of tr)" by (rule l) simp
  then have "links g' root_task_group = links g root_task_group" using assms(2) by (simp add: group_tree_def)
  moreover have "tree_in (links g') tr" using tree_in_cong[of tr "links g'" "links g"] l assms(2) by (simp add: group_tree_def)
  ultimately show ?thesis using assms by (simp add: same_rt_def group_tree_def links_def)
qed

lemma same_rt_fits:
  assumes "same_rt (set (g_list g)) g g'" "t \<in> set (g_list g)" "set (tg_children (g_tg g t)) \<subseteq> set (g_list g)"
  shows "rt_fits g' t \<longleftrightarrow> rt_fits g t"
proof -
  have l: "rt_load g' u = rt_load g u" if "u \<in> set (g_list g)" for u using assms(1) that by (simp add: same_rt_def rt_load_def)
  have c: "tg_children (g_tg g' t) = tg_children (g_tg g t)" using assms(1,2) by (simp add: same_rt_def links_def)
  have "sum_list (map (rt_load g') (tg_children (g_tg g t))) = sum_list (map (rt_load g) (tg_children (g_tg g t)))"
    using l assms(3) by (intro arg_cong[of _ _ sum_list] map_cong) auto
  moreover have "tg_has_rt_tasks g' t = tg_has_rt_tasks g t" using assms(1,2) by (simp add: same_rt_def tg_has_rt_tasks_def)
  ultimately show ?thesis using l[OF assms(2)] c assms(1,2) unfolding rt_fits_def by (simp add: same_rt_def)
qed

lemma same_rt_hier:
  assumes "same_rt (set (g_list g)) g g'" "hier_ok g"
  shows "hier_ok g'"
proof -
  obtain tr where tr: "group_tree g tr" using assms(2) by (auto simp: hier_ok_def)
  have "rt_fits g' t" if "t \<in> set (g_list g)" for t
    using same_rt_fits[OF assms(1) that tree_children(1)[OF tr that]] assms(2) that by (simp add: hier_ok_def)
  moreover have "g_list g' = g_list g" using assms(1) by (simp add: same_rt_def)
  ultimately show ?thesis using same_rt_tree[OF assms(1) tr] by (auto simp: hier_ok_def)
qed

text \<open>The functions of the fair class leave all of that alone.\<close>

definition fair_frame :: "group_env \<Rightarrow> bool" where
  "fair_frame e \<longleftrightarrow> (\<forall>t g. same_rt UNIV g (ge_online_fair e t g)) \<and> (\<forall>t g. same_rt UNIV g (ge_unregister_fair e t g))"

lemma to_ratio_zero [simp]: "to_ratio p 0 = 0"
  by (simp add: to_ratio_def RUNTIME_INF_def)

definition link_child :: "tg_id \<Rightarrow> tg_id \<Rightarrow> groups \<Rightarrow> groups" where
  "link_child t parent g =
     upd_tg parent (\<lambda>x. x\<lparr>tg_children := t # tg_children x\<rparr>)
       (upd_tg t (\<lambda>x. x\<lparr>tg_parent := Some parent, tg_children := []\<rparr>) (g\<lparr>g_list := t # g_list g\<rparr>))"

lemma link_child_tree:
  assumes tr: "group_tree g tr" and t: "t \<notin> set (g_list g)" and p: "parent \<in> set (g_list g)"
  shows "group_tree (link_child t parent g) (graft parent t tr)"
proof -
  have T: "root_of tr = root_task_group" "tree_in (links g) tr" "distinct (ids tr)" "set (ids tr) = set (g_list g)"
    "distinct (g_list g)" "tg_parent (g_tg g root_task_group) = None" using tr by (simp_all add: group_tree_def)
  have ne: "parent \<noteq> t" "t \<noteq> root_task_group" using t p T(1,4) root_in_ids[of tr] by auto
  have "tree_in (links (link_child t parent g)) (graft parent t tr)"
    using T t ne by (intro tree_in_graft[OF T(2)]) (auto simp: links_def link_child_def)
  moreover have m: "mset (ids (graft parent t tr)) = add_mset t (mset (ids tr))"
    using mset_ids_graft[of parent t tr] T(3,4) p by (simp add: distinct_count_atmost_1)
  moreover have "distinct (ids (graft parent t tr))"
    using m T(3,4) t by (metis distinct.simps(2) mset.simps(2) mset_eq_imp_distinct_iff)
  moreover have "set (ids (graft parent t tr)) = insert t (set (ids tr))"
    using arg_cong[OF m, of set_mset] by simp
  ultimately show ?thesis using T t ne by (simp add: group_tree_def link_child_def)
qed

lemma link_child_fits:
  assumes tr: "group_tree g tr" and t: "t \<notin> set (g_list g)" and p: "parent \<in> set (g_list g)"
    and z: "rtb_runtime (tg_rt_bandwidth (g_tg g t)) = 0" and no: "\<forall>q \<in> set (g_procs g). g_task_group g q \<noteq> t"
    and fit: "\<forall>u \<in> set (g_list g). rt_fits g u" and u: "u \<in> set (t # g_list g)"
  shows "rt_fits (link_child t parent g) u"
proof -
  let ?g = "link_child t parent g"
  have l: "rt_load ?g = rt_load g" by (auto simp: rt_load_def link_child_def)
  have h: "tg_has_rt_tasks ?g = tg_has_rt_tasks g" by (auto simp: fun_eq_iff tg_has_rt_tasks_def link_child_def)
  have b: "tg_rt_bandwidth (g_tg ?g v) = tg_rt_bandwidth (g_tg g v)" "g_sys ?g = g_sys g" for v by (simp_all add: link_child_def)
  have zero: "rt_load g t = 0" using z by (simp add: rt_load_def)
  have ne: "parent \<noteq> t" using t p by auto
  have ch: "tg_children (g_tg ?g v) = (if v = t then [] else if v = parent then t # tg_children (g_tg g v) else tg_children (g_tg g v))" for v
    using ne by (simp add: link_child_def)
  have "\<not> tg_has_rt_tasks g t" using no by (auto simp: tg_has_rt_tasks_def list_ex_iff)
  then show ?thesis using fit u z zero t unfolding rt_fits_def l h b ch by (auto simp: rt_load_def)
qed

lemma sched_online_group_ok:
  assumes "hier_ok g" "fair_frame e" "t \<notin> set (g_list g)" "parent \<in> set (g_list g)"
    "rtb_runtime (tg_rt_bandwidth (g_tg g t)) = 0" "\<forall>q \<in> set (g_procs g). g_task_group g q \<noteq> t"
  shows "hier_ok (sched_online_group e t parent g)"
proof -
  obtain tr where tr: "group_tree g tr" using assms(1) by (auto simp: hier_ok_def)
  have "hier_ok (link_child t parent g)"
    using link_child_tree[OF tr assms(3,4)] link_child_fits[OF tr assms(3-6)] assms(1)
    by (auto simp: hier_ok_def) (auto simp: link_child_def)
  moreover have "sched_online_group e t parent g = ge_online_fair e t (link_child t parent g)"
    by (simp add: sched_online_group_def link_child_def)
  moreover have "same_rt (set (g_list (link_child t parent g))) (link_child t parent g) (ge_online_fair e t (link_child t parent g))"
    using assms(2) by (auto simp: fair_frame_def intro: same_rt_mono)
  ultimately show ?thesis using same_rt_hier by metis
qed

definition unlink_child :: "tg_id \<Rightarrow> tg_id \<Rightarrow> groups \<Rightarrow> groups" where
  "unlink_child t parent g = upd_tg parent (\<lambda>x. x\<lparr>tg_children := remove1 t (tg_children x)\<rparr>) (g\<lparr>g_list := remove1 t (g_list g)\<rparr>)"

lemma unlink_child_tree:
  assumes tr: "group_tree g tr" and t: "t \<noteq> root_task_group" "tg_children (g_tg g t) = []" and p: "tg_parent (g_tg g t) = Some parent" "parent \<noteq> t"
  shows "group_tree (unlink_child t parent g) (prune t tr)"
proof -
  have T: "root_of tr = root_task_group" "tree_in (links g) tr" "distinct (ids tr)" "set (ids tr) = set (g_list g)"
    "distinct (g_list g)" "tg_parent (g_tg g root_task_group) = None" using tr by (simp_all add: group_tree_def)
  have r: "root_of tr \<noteq> t" using T(1) t(1) by simp
  have "tree_in (links (unlink_child t parent g)) (prune t tr)"
    using T t p r by (intro tree_in_prune[OF T(2,3) r]) (auto simp: links_def unlink_child_def)
  moreover have m: "mset (ids (prune t tr)) = filter_mset (\<lambda>x. x \<noteq> t) (mset (ids tr))"
    using T(2) t(2) r by (intro mset_ids_prune) (auto simp: links_def)
  moreover have "distinct (ids (prune t tr))"
    using m T(3) by (metis distinct_filter mset_eq_imp_distinct_iff mset_filter)
  moreover have "set (ids (prune t tr)) = set (ids tr) - {t}"
    using arg_cong[OF m, of set_mset] by auto
  ultimately show ?thesis using T t p by (simp add: group_tree_def unlink_child_def)
qed

lemma sum_list_remove1_le: "sum_list (map f (remove1 x xs)) \<le> sum_list (map (f :: _ \<Rightarrow> nat) xs)"
  by (induction xs) simp_all

lemma unlink_child_fits:
  assumes "rt_fits g u"
  shows "rt_fits (unlink_child t parent g) u"
proof -
  let ?g = "unlink_child t parent g"
  have l: "rt_load ?g = rt_load g" by (auto simp: fun_eq_iff rt_load_def unlink_child_def)
  have h: "tg_has_rt_tasks ?g = tg_has_rt_tasks g" by (auto simp: fun_eq_iff tg_has_rt_tasks_def unlink_child_def)
  have b: "tg_rt_bandwidth (g_tg ?g v) = tg_rt_bandwidth (g_tg g v)" "g_sys ?g = g_sys g" for v by (simp_all add: unlink_child_def)
  have "sum_list (map (rt_load g) (tg_children (g_tg ?g u))) \<le> sum_list (map (rt_load g) (tg_children (g_tg g u)))"
    by (simp add: unlink_child_def sum_list_remove1_le)
  then show ?thesis using assms unfolding rt_fits_def l h b by linarith
qed

lemma tree_parent:
  assumes "tree_in l tr" "t \<in> set (ids tr)" "t \<noteq> root_of tr"
  shows "\<exists>p \<in> set (ids tr). fst (l t) = Some p \<and> t \<in> set (snd (l p))"
  using assms
proof (induction tr)
  case (Tg r ts)
  then obtain c where c: "c \<in> set ts" "t \<in> set (ids c)" by auto
  show ?case
  proof (cases "t = root_of c")
    case True
    then show ?thesis using Tg.prems(1) c(1) by auto
  next
    case False
    then show ?thesis using Tg.IH[OF c(1)] Tg.prems(1) c by auto
  qed
qed

lemma sched_offline_group_ok:
  assumes ok: "hier_ok g" and e: "fair_frame e" and t: "t \<in> set (g_list g)" "t \<noteq> root_task_group" "tg_children (g_tg g t) = []"
  shows "hier_ok (sched_offline_group e t g)"
proof -
  let ?g = "ge_unregister_fair e t g"
  have s: "same_rt UNIV g ?g" using e by (simp add: fair_frame_def)
  then have ok': "hier_ok ?g" using same_rt_hier[OF same_rt_mono[OF s] ok] by simp
  then obtain tr where tr: "group_tree ?g tr" by (auto simp: hier_ok_def)
  have t': "t \<in> set (ids tr)" "tg_children (g_tg ?g t) = []" using s t tr by (auto simp: same_rt_def group_tree_def links_def)
  obtain p where p: "p \<in> set (ids tr)" "tg_parent (g_tg ?g t) = Some p" "t \<in> set (tg_children (g_tg ?g p))"
    using tree_parent[of "links ?g" tr t] tr t' t(2) by (auto simp: group_tree_def links_def)
  have "p \<noteq> t" using p(3) t'(2) by auto
  then have "group_tree (unlink_child t p ?g) (prune t tr)" using unlink_child_tree[OF tr t(2) t'(2) p(2)] by simp
  moreover have "\<forall>u \<in> set (g_list (unlink_child t p ?g)). rt_fits (unlink_child t p ?g) u"
  proof
    fix u assume "u \<in> set (g_list (unlink_child t p ?g))"
    then have "u \<in> set (g_list ?g)" using set_remove1_subset[of t "g_list ?g"] by (auto simp: unlink_child_def)
    then show "rt_fits (unlink_child t p ?g) u" using ok' by (intro unlink_child_fits) (simp add: hier_ok_def)
  qed
  moreover have "sched_offline_group e t g = unlink_child t p ?g"
    using p(2) by (simp add: sched_offline_group_def unlink_child_def Let_def)
  ultimately show ?thesis by (auto simp: hier_ok_def)
qed

lemma same_rt_trans: "same_rt A g h \<Longrightarrow> same_rt A h k \<Longrightarrow> same_rt A g k"
  by (simp add: same_rt_def)

lemma same_rt_refl: "same_rt A g g"
  by (simp add: same_rt_def)

lemma same_rt_upd: "t \<notin> A \<Longrightarrow> same_rt A g (upd_tg t f g)"
  by (auto simp: same_rt_def links_def)

lemma alloc_rt_same: "t \<notin> A \<Longrightarrow> same_rt A g (snd (alloc_rt_sched_group e t g))"
  using same_rt_upd[of t A g] by (cases "ge_memory e") (simp_all add: alloc_rt_sched_group_def same_rt_refl)

lemma alloc_rt_runtime: "fst (alloc_rt_sched_group e t g) \<Longrightarrow> rtb_runtime (tg_rt_bandwidth (g_tg (snd (alloc_rt_sched_group e t g)) t)) = 0"
  by (simp add: alloc_rt_sched_group_def init_rt_bandwidth_def split: if_splits)

lemma sched_create_group_ok:
  assumes ok: "hier_ok g" and c: "sched_create_group e init_fair (Some t) g = (r, g1)" and t: "t \<notin> set (g_list g)"
    and f: "\<And>t g. same_rt UNIV g (init_fair t g)"
  shows "hier_ok g1 \<and> g_list g1 = g_list g \<and> g_procs g1 = g_procs g \<and> g_task_group g1 = g_task_group g
    \<and> (\<forall>u. r = Some u \<longrightarrow> u = t \<and> rtb_runtime (tg_rt_bandwidth (g_tg g1 t)) = 0)"
proof -
  let ?g0 = "upd_tg t (\<lambda>_. zero_group) g" and ?A = "set (g_list g)"
  let ?a = "alloc_rt_sched_group e t (init_fair t ?g0)"
  have r: "(r, g1) = (if ge_alloc_fair e then (if fst ?a then Some t else None, snd ?a) else (None, ?g0))"
    using c by (cases ?a) (simp add: sched_create_group_def Let_def split: bool.splits if_splits)
  have "same_rt ?A g ?g0" using t by (rule same_rt_upd)
  moreover have "same_rt ?A ?g0 (init_fair t ?g0)" using f by (rule same_rt_mono) simp
  moreover have "same_rt ?A (init_fair t ?g0) (snd ?a)" using t by (rule alloc_rt_same)
  ultimately have s: "same_rt ?A g g1" using r by (cases "ge_alloc_fair e") (auto intro: same_rt_trans)
  have "rtb_runtime (tg_rt_bandwidth (g_tg g1 t)) = 0" if "r = Some u" for u
    using r that alloc_rt_runtime[of e t "init_fair t ?g0"] by (simp split: if_splits)
  moreover have "r = Some u \<Longrightarrow> u = t" for u using r by (simp split: if_splits)
  moreover have "hier_ok g1" using same_rt_hier[OF s ok] .
  ultimately show ?thesis using s by (simp add: same_rt_def)
qed

section \<open>Every hierarchy the operations build\<close>

inductive group_reach :: "group_env \<Rightarrow> (tg_id \<Rightarrow> groups \<Rightarrow> groups) \<Rightarrow> groups \<Rightarrow> bool" for e init_fair where
  boot: "g_list g = [root_task_group] \<Longrightarrow> links g root_task_group = (None, []) \<Longrightarrow> rt_fits g root_task_group \<Longrightarrow> group_reach e init_fair g"
| bandwidth: "group_reach e init_fair g \<Longrightarrow> limits_ok g \<Longrightarrow>
    tg_set_rt_bandwidth t period runtime g = Some (r, g') \<Longrightarrow> group_reach e init_fair g'"
| create: "group_reach e init_fair g \<Longrightarrow> t \<notin> set (g_list g) \<Longrightarrow> \<forall>q \<in> set (g_procs g). g_task_group g q \<noteq> t \<Longrightarrow>
    parent \<in> set (g_list g) \<Longrightarrow> sched_create_group e init_fair (Some t) g = (Some t, g1) \<Longrightarrow>
    group_reach e init_fair (sched_online_group e t parent g1)"
| offline: "group_reach e init_fair g \<Longrightarrow> t \<in> set (g_list g) \<Longrightarrow> t \<noteq> root_task_group \<Longrightarrow> tg_children (g_tg g t) = [] \<Longrightarrow>
    group_reach e init_fair (sched_offline_group e t g)"

lemma reach_hier_ok:
  assumes "group_reach e init_fair g" "fair_frame e" "\<And>t g. same_rt UNIV g (init_fair t g)"
  shows "hier_ok g"
  using assms(1)
proof induction
  case (boot g)
  have "group_tree g (Tg root_task_group [])" using boot by (simp add: group_tree_def links_def)
  then show ?case using boot by (auto simp: hier_ok_def)
next
  case (bandwidth g t period runtime r g')
  obtain tr where tr: "group_tree g tr" using bandwidth.IH by (auto simp: hier_ok_def)
  show ?case using tg_set_rt_bandwidth_effect[OF tr bandwidth.hyps(2), of t period runtime] bandwidth.hyps(3) bandwidth.IH
    by (cases "r = 0") (auto simp: hier_ok_def)
next
  case (create g t parent g1)
  then show ?case using sched_create_group_ok[OF create.IH create.hyps(5,2) assms(3)]
    by (intro sched_online_group_ok assms(2)) auto
next
  case (offline g t)
  then show ?case by (intro sched_offline_group_ok assms(2)) auto
qed

definition free_env :: group_env where
  "free_env = \<lparr>ge_refill = (\<lambda>_ g. g), ge_start_cfs = (\<lambda>_ g. g), ge_unthrottle = (\<lambda>_ _ g. g),
     ge_set_shares = (\<lambda>t v g. (0, upd_tg t (\<lambda>x. x\<lparr>tg_shares := max (scale_load MIN_SHARES) (min v (scale_load MAX_SHARES))\<rparr>) g)),
     ge_online_fair = (\<lambda>_ g. g), ge_unregister_fair = (\<lambda>_ g. g), ge_memory = True, ge_alloc_fair = True,
     ge_change_group = (\<lambda>_ g. g), ge_css = (\<lambda>_. 0)\<rparr>"

definition boot_groups :: groups where
  "boot_groups = \<lparr>g_sys = boot_sys, g_tg = (\<lambda>_. zero_group\<lparr>tg_rt_bandwidth := \<lparr>rt_period = 1000000000, rtb_runtime = 950000000, rt_period_active = False\<rparr>\<rparr>),
     g_list = [root_task_group], g_task_group = (\<lambda>_. 0), g_procs = [], g_on_dfl = False, g_cfs_bandwidth_used = 0\<rparr>"

definition one_group :: groups where
  "one_group = sched_online_group free_env 1 0 (snd (sched_create_group free_env (\<lambda>_ g. g) (Some 1) boot_groups))"

definition limited_group :: groups where
  "limited_group = set_rt 1 1000000000 400000000 one_group"

lemma free_frame: "fair_frame free_env"
  by (simp add: fair_frame_def free_env_def same_rt_refl)

lemma boot_limits [simp]: "global_rt_period boot_sys = 1000000000" "global_rt_runtime boot_sys = 950000000" "rt_limit boot_sys = 996147"
  "sched_rt_global_validate boot_sys = 0"
  by (simp_all add: boot_sys_def global_rt_period_def global_rt_runtime_def rt_limit_def to_ratio_def RUNTIME_INF_def NSEC_PER_USEC_def
      BW_SHIFT_def sched_rt_global_validate_def)

lemma boot_groups_reach: "group_reach free_env (\<lambda>_ g. g) boot_groups"
  by (rule group_reach.boot)
    (simp_all add: boot_groups_def links_def zero_group_def root_task_group_def rt_fits_def rt_load_def to_ratio_def RUNTIME_INF_def BW_SHIFT_def)

lemma create_one: "sched_create_group free_env (\<lambda>_ g. g) (Some 1) boot_groups
    = (Some 1, snd (sched_create_group free_env (\<lambda>_ g. g) (Some 1) boot_groups))"
  by (simp add: sched_create_group_def free_env_def alloc_rt_sched_group_def)

lemma one_group_reach: "group_reach free_env (\<lambda>_ g. g) one_group"
  unfolding one_group_def
  by (rule group_reach.create[OF boot_groups_reach _ _ _ create_one]) (simp_all add: boot_groups_def root_task_group_def)

lemma one_group_tg:
  "g_list one_group = [1, 0]" "g_sys one_group = boot_sys" "g_procs one_group = []" "g_on_dfl one_group = False"
  "links one_group 0 = (None, [1])" "links one_group 1 = (Some 0, [])"
  "rt_period (tg_rt_bandwidth (g_tg one_group 0)) = 1000000000" "rtb_runtime (tg_rt_bandwidth (g_tg one_group 0)) = 950000000"
  "rt_period (tg_rt_bandwidth (g_tg one_group 1)) = 1000000000" "rtb_runtime (tg_rt_bandwidth (g_tg one_group 1)) = 0"
  by (simp_all add: one_group_def sched_online_group_def sched_create_group_def free_env_def alloc_rt_sched_group_def
      boot_groups_def links_def zero_group_def root_task_group_def init_rt_bandwidth_def boot_sys_def)

lemma one_group_links: "tg_parent (g_tg one_group 0) = None" "tg_children (g_tg one_group 0) = [1]"
  "tg_parent (g_tg one_group 1) = Some 0" "tg_children (g_tg one_group 1) = []"
  using one_group_tg(5,6) by (simp_all add: links_def)

lemmas one_group_facts = one_group_tg one_group_links

lemma one_group_fuel: "walk_fuel one_group = Suc (Suc (Suc (Suc (Suc 0))))"
  by (simp add: walk_fuel_def one_group_tg)

lemma one_group_set:
  "tg_set_rt_bandwidth 1 1000000000 400000000 one_group = Some (0, limited_group)"
  "tg_set_rt_bandwidth 1 1000000000 980000000 one_group = Some (- errno_val EINVAL, one_group)"
  unfolding tg_set_rt_bandwidth_def rt_schedulable_def walk_tg_tree_def walk_tg_tree_from_def one_group_fuel limited_group_def set_rt_def
  by (simp_all add: root_task_group_def tg_rt_schedulable_def rt_setting_def tg_nop_def to_ratio_def RUNTIME_INF_def BW_SHIFT_def BW_UNIT_def
     tg_has_rt_tasks_def one_group_facts[unfolded One_nat_def])

text \<open>
  C14: on every tree of groups \<open>walk_tg_tree\<close> ends within its fuel and does what a recursive walk does: it
  enters a group, walks its children in order, leaves it, and stops at the first visitor that answers an
  error - whatever the visitors change, as long as they keep the links.
\<close>

theorem walk_tg_tree_recursive:
  assumes "tree_visitor down up" "group_tree g tr"
  shows "walk_tg_tree (walk_fuel g) down up g = Some (visit down up tr g)"
  using assms by (rule tree_visitor.walk_tree)

theorem walk_tg_tree_recursive_witness:
  "walk_tg_tree 5 (\<lambda>t g. (0, g\<lparr>g_procs := t # g_procs g\<rparr>)) (\<lambda>t g. (0, g\<lparr>g_procs := (t + 10) # g_procs g\<rparr>)) one_group
    = Some (0, one_group\<lparr>g_procs := [10, 11, 1, 0]\<rparr>)"
proof -
  have v: "tree_visitor (\<lambda>t g. (0, g\<lparr>g_procs := t # g_procs g\<rparr>)) (\<lambda>t g. (0, g\<lparr>g_procs := (t + 10) # g_procs g\<rparr>))"
    by unfold_locales (auto simp: links_def)
  have "group_tree one_group (Tg 0 [Tg 1 []])"
    by (simp add: group_tree_def one_group_tg(1) root_task_group_def one_group_tg(5,6)[unfolded One_nat_def] one_group_links insert_commute)
  from walk_tg_tree_recursive[OF v this] show ?thesis
    by (simp add: walk_fuel_def one_group_tg)
qed

lemma set_rt_values: "rt_period (tg_rt_bandwidth (g_tg (set_rt t period runtime g) t)) = period
    \<and> rtb_runtime (tg_rt_bandwidth (g_tg (set_rt t period runtime g) t)) = runtime"
  by (simp add: set_rt_def)

text \<open>
  C13: in every hierarchy that \<open>sched_create_group\<close>, \<open>sched_online_group\<close>, \<open>sched_offline_group\<close> and
  \<open>tg_set_rt_bandwidth\<close> build from the root, the children of each group share at most the real-time
  bandwidth of the group, all groups without children together have at most the global limit, and a group
  with real-time tasks has some runtime.  A change of bandwidth is answered: refused, with nothing changed,
  or stored.
\<close>

theorem rt_groups_fit:
  assumes reach: "group_reach e init_fair g" and frame: "fair_frame e" "\<And>t g. same_rt UNIV g (init_fair t g)"
  shows "(\<forall>t \<in> set (g_list g). rt_fits g t)
    \<and> (\<exists>tr. group_tree g tr \<and> leaf_load g tr \<le> unat (rt_limit (g_sys g)))
    \<and> (limits_ok g \<longrightarrow> (\<exists>r g'. tg_set_rt_bandwidth t period runtime g = Some (r, g') \<and> (r \<noteq> 0 \<longrightarrow> g' = g)
          \<and> (r = 0 \<longrightarrow> rt_period (tg_rt_bandwidth (g_tg g' t)) = period \<and> rtb_runtime (tg_rt_bandwidth (g_tg g' t)) = runtime)))"
proof -
  have ok: "hier_ok g" using reach frame by (rule reach_hier_ok)
  then obtain tr where tr: "group_tree g tr" and fits: "\<forall>t \<in> set (g_list g). rt_fits g t" by (auto simp: hier_ok_def)
  have "leaf_load g tr \<le> rt_load g (root_of tr)" using tr fits by (intro leaf_load_le) (simp_all add: group_tree_def)
  moreover have "root_of tr \<in> set (g_list g)" using tr root_in_ids[of tr] by (simp add: group_tree_def)
  ultimately have "leaf_load g tr \<le> unat (rt_limit (g_sys g))" using fits by (force simp: rt_fits_def)
  moreover have "\<exists>r g'. tg_set_rt_bandwidth t period runtime g = Some (r, g') \<and> (r \<noteq> 0 \<longrightarrow> g' = g)
      \<and> (r = 0 \<longrightarrow> rt_period (tg_rt_bandwidth (g_tg g' t)) = period \<and> rtb_runtime (tg_rt_bandwidth (g_tg g' t)) = runtime)" if "limits_ok g"
    using tg_set_rt_bandwidth_effect[OF tr that, of t period runtime] set_rt_values[of t period runtime g] by metis
  ultimately show ?thesis using tr fits by blast
qed

theorem rt_groups_fit_witness:
  "tg_set_rt_bandwidth 1 1000000000 400000000 one_group = Some (0, limited_group)
   \<and> sum_list (map (rt_load limited_group) [1]) \<le> rt_load limited_group 0 \<and> rt_load limited_group 1 = 419430"
proof -
  have lim: "limits_ok one_group" by (simp add: limits_ok_def one_group_tg)
  have reach: "group_reach free_env (\<lambda>_ g. g) limited_group"
    using one_group_set(1) by (rule group_reach.bandwidth[OF one_group_reach lim])
  have f: "g_list limited_group = [1, 0]" "tg_children (g_tg limited_group 0) = [1]" "rt_load limited_group 1 = 419430"
    by (simp_all add: limited_group_def one_group_facts rt_load_def)
      (simp add: set_rt_def to_ratio_def RUNTIME_INF_def BW_SHIFT_def)
  then have "rt_fits limited_group 0" using rt_groups_fit[OF reach free_frame same_rt_refl] by simp
  then show ?thesis using f one_group_set(1) by (simp add: rt_fits_def)
qed

end
