(* ===== verification/Sched_Group_Cfs.thy ===== *)
theory Sched_Group_Cfs
  imports Sched_Group_Rt
begin

text \<open>
  Fair bandwidth of task groups (\<open>tg_cfs_schedulable_down\<close> and \<open>__cfs_schedulable\<close> in
  \<open>kernel/sched/core.c\<close>): the effective quotas that the walk computes, on the old and on the default
  hierarchy.
\<close>

section \<open>Fair bandwidth\<close>

definition hq :: "groups \<Rightarrow> tg_id \<Rightarrow> u64" where
  "hq g t = cb_hierarchical_quota (tg_cfs_bandwidth (g_tg g t))"

text \<open>The walk changes nothing but the effective quotas.\<close>

definition with_hq :: "(tg_id \<Rightarrow> u64) \<Rightarrow> groups \<Rightarrow> groups" where
  "with_hq h g = g\<lparr>g_tg := \<lambda>t. (g_tg g t)\<lparr>tg_cfs_bandwidth := (tg_cfs_bandwidth (g_tg g t))\<lparr>cb_hierarchical_quota := h t\<rparr>\<rparr>\<rparr>"

text \<open>The effective quota of a group below one with effective quota \<open>pq\<close>, when there is one.\<close>

definition effective :: "cfs_schedulable_data \<Rightarrow> groups \<Rightarrow> tg_id \<Rightarrow> u64 \<Rightarrow> u64 option" where
  "effective d g t pq =
     (let q = normalize_cfs_quota d g t
      in if g_on_dfl g then Some (if sint pq < sint q then pq else q)
         else if q = RUNTIME_INF then Some pq
         else if pq \<noteq> RUNTIME_INF \<and> sint q > sint pq then None
         else Some q)"

definition consistent_quota :: "cfs_schedulable_data \<Rightarrow> groups \<Rightarrow> (tg_id \<Rightarrow> u64) \<Rightarrow> tg_id \<Rightarrow> bool" where
  "consistent_quota d g f t \<longleftrightarrow>
     (case tg_parent (g_tg g t) of None \<Rightarrow> f t = RUNTIME_INF | Some p \<Rightarrow> effective d g t (f p) = Some (f t))"

lemma fst_links: "fst (links g t) = tg_parent (g_tg g t)"
  by (simp add: links_def)

lemma with_hq_self: "with_hq (hq g) g = g"
  by (simp add: with_hq_def hq_def)

lemma with_hq_simps [simp]:
  "links (with_hq h g) = links g" "tg_parent (g_tg (with_hq h g) t) = tg_parent (g_tg g t)" "hq (with_hq h g) = h"
  "normalize_cfs_quota d (with_hq h g) t = normalize_cfs_quota d g t" "g_on_dfl (with_hq h g) = g_on_dfl g"
  by (simp_all add: with_hq_def links_def hq_def fun_eq_iff normalize_cfs_quota_def tg_get_cfs_period_def tg_get_cfs_quota_def Let_def)

lemma upd_with_hq: "upd_tg t (\<lambda>x. x\<lparr>tg_cfs_bandwidth := (tg_cfs_bandwidth x)\<lparr>cb_hierarchical_quota := q\<rparr>\<rparr>) (with_hq h g) = with_hq (h(t := q)) g"
  by (auto simp: upd_tg_def with_hq_def fun_eq_iff)

lemma down_with_hq:
  "tg_cfs_schedulable_down d t (with_hq h g) =
     (case tg_parent (g_tg g t) of
        None \<Rightarrow> (0, with_hq (h(t := RUNTIME_INF)) g)
      | Some p \<Rightarrow> (case effective d g t (h p) of None \<Rightarrow> (- errno_val EINVAL, with_hq h g) | Some q \<Rightarrow> (0, with_hq (h(t := q)) g)))"
proof -
  have "cb_hierarchical_quota (tg_cfs_bandwidth (g_tg (with_hq h g) p)) = h p" for p by (simp add: with_hq_def)
  then show ?thesis
    by (simp add: tg_cfs_schedulable_down_def upd_with_hq effective_def Let_def split: option.split)
qed

interpretation cfs_walk: tree_visitor "tg_cfs_schedulable_down d" tg_nop
proof
  fix t g
  show "links (snd (tg_cfs_schedulable_down d t g)) = links g"
    using down_with_hq[of d t "hq g" g] by (simp add: with_hq_self split: option.splits)
qed (simp add: tg_nop_def)

lemma consistent_frame:
  assumes "consistent_quota d g h t" "h' t = h t" "\<And>p. tg_parent (g_tg g t) = Some p \<Longrightarrow> h' p = h p"
  shows "consistent_quota d g h' t"
  using assms by (auto simp: consistent_quota_def split: option.splits)

text \<open>
  One visit: it succeeds exactly when there are effective quotas for the subtree that agree with the one of
  the group above, and then it has stored them.
\<close>

definition visited :: "cfs_schedulable_data \<Rightarrow> groups \<Rightarrow> tg_id option \<Rightarrow> tg_id set \<Rightarrow> (tg_id \<Rightarrow> u64) \<Rightarrow> int \<times> groups \<Rightarrow> bool" where
  "visited d g p A h res \<longleftrightarrow> (\<exists>h'. snd res = with_hq h' g \<and> (\<forall>u. u \<notin> A \<longrightarrow> h' u = h u)
     \<and> (fst res = 0 \<longrightarrow> (\<forall>u \<in> A. consistent_quota d g h' u))
     \<and> (fst res \<noteq> 0 \<longrightarrow> \<not> (\<exists>f. (\<forall>u \<in> A. consistent_quota d g f u) \<and> (\<forall>q. p = Some q \<longrightarrow> f q = h q))))"

lemma visits_quota_step:
  assumes "\<And>c h. c \<in> set ts \<Longrightarrow> visited d g (Some t) (set (ids c)) h (visit (tg_cfs_schedulable_down d) tg_nop c (with_hq h g))"
    and "t \<notin> set (concat (map ids ts))" "distinct (concat (map ids ts))"
    and "\<And>c u p. c \<in> set ts \<Longrightarrow> u \<in> set (ids c) \<Longrightarrow> tg_parent (g_tg g u) = Some p \<Longrightarrow> p = t \<or> p \<in> set (ids c)"
  shows "visited d g (Some t) (set (concat (map ids ts))) h (visits (tg_cfs_schedulable_down d) tg_nop ts (with_hq h g))"
  using assms
proof (induction ts arbitrary: h)
  case Nil
  then show ?case by (auto simp: visited_def)
next
  case (Cons c ts)
  let ?B = "set (concat (map ids ts))" and ?down = "tg_cfs_schedulable_down d"
  obtain r g1 where v: "visit ?down tg_nop c (with_hq h g) = (r, g1)" by (cases "visit ?down tg_nop c (with_hq h g)")
  have "visited d g (Some t) (set (ids c)) h (r, g1)" using Cons.prems(1)[of c h] v by simp
  then obtain h1 where h1: "g1 = with_hq h1 g" "\<forall>u. u \<notin> set (ids c) \<longrightarrow> h1 u = h u"
    "r = 0 \<longrightarrow> (\<forall>u \<in> set (ids c). consistent_quota d g h1 u)"
    "r \<noteq> 0 \<longrightarrow> \<not> (\<exists>f. (\<forall>u \<in> set (ids c). consistent_quota d g f u) \<and> f t = h t)"
    by (auto simp: visited_def)
  have t: "h1 t = h t" using h1(2) Cons.prems(2) by simp
  have dis: "set (ids c) \<inter> ?B = {}" using Cons.prems(3) by auto
  have "visited d g (Some t) ?B h1 (visits ?down tg_nop ts (with_hq h1 g))"
    using Cons.prems by (intro Cons.IH) auto
  then obtain h2 where h2: "snd (visits ?down tg_nop ts g1) = with_hq h2 g" "\<forall>u. u \<notin> ?B \<longrightarrow> h2 u = h1 u"
    "fst (visits ?down tg_nop ts g1) = 0 \<longrightarrow> (\<forall>u \<in> ?B. consistent_quota d g h2 u)"
    "fst (visits ?down tg_nop ts g1) \<noteq> 0 \<longrightarrow> \<not> (\<exists>f. (\<forall>u \<in> ?B. consistent_quota d g f u) \<and> f t = h1 t)"
    unfolding h1(1) visited_def by auto
  show ?case
  proof (cases "r = 0")
    case False
    then have res: "visits ?down tg_nop (c # ts) (with_hq h g) = (r, g1)" using v by simp
    show ?thesis unfolding visited_def res
      by (rule exI[of _ h1]) (use h1 False in auto)
  next
    case True
    have keep: "consistent_quota d g h2 u" if u: "u \<in> set (ids c)" for u
    proof (rule consistent_frame)
      show "consistent_quota d g h1 u" using h1(3) True u by blast
      show "h2 u = h1 u" using h2(2) dis u by blast
      show "h2 p = h1 p" if "tg_parent (g_tg g u) = Some p" for p
        using Cons.prems(4)[of c u p] u that h2(2) dis Cons.prems(2) by auto
    qed
    have res: "visits ?down tg_nop (c # ts) (with_hq h g) = visits ?down tg_nop ts g1" using v True by simp
    have A: "set (concat (map ids (c # ts))) = set (ids c) \<union> ?B" by simp
    have none: "\<not> (\<exists>f. (\<forall>u \<in> set (ids c) \<union> ?B. consistent_quota d g f u) \<and> f t = h t)" if "fst (visits ?down tg_nop ts g1) \<noteq> 0"
      using h2(4) t that by (metis UnCI)
    show ?thesis unfolding visited_def res A
      by (intro exI[of _ h2] conjI) (use h1(2) h2(1-3) keep none in auto)
  qed
qed

lemma parents_inside:
  assumes "tree_in (links g) tr" "u \<in> set (ids tr)" "u \<noteq> root_of tr" "tg_parent (g_tg g u) = Some p"
  shows "p \<in> set (ids tr)"
  using tree_parent[OF assms(1-3)] assms(4) by (auto simp: links_def)

lemma visit_quota:
  assumes "tree_in (links g) tr" "distinct (ids tr)" "tg_parent (g_tg g (root_of tr)) = p" "\<And>q. p = Some q \<Longrightarrow> q \<notin> set (ids tr)"
  shows "visited d g p (set (ids tr)) h (visit (tg_cfs_schedulable_down d) tg_nop tr (with_hq h g))"
  using assms
proof (induction tr arbitrary: p h)
  case (Tg t ts)
  let ?down = "tg_cfs_schedulable_down d"
  define q where "q = (case p of None \<Rightarrow> Some RUNTIME_INF | Some p' \<Rightarrow> effective d g t (h p'))"
  have down: "?down t (with_hq h g) = (case q of None \<Rightarrow> (- errno_val EINVAL, with_hq h g) | Some v \<Rightarrow> (0, with_hq (h(t := v)) g))"
    using Tg.prems(3) by (simp add: down_with_hq q_def split: option.split)
  have only: "q = Some (f t)" if "consistent_quota d g f t" "\<forall>p'. p = Some p' \<longrightarrow> f p' = h p'" for f
    using that Tg.prems(3) by (auto simp: consistent_quota_def q_def split: option.splits)
  show ?case
  proof (cases q)
    case None
    then have res: "visit ?down tg_nop (Tg t ts) (with_hq h g) = (- errno_val EINVAL, with_hq h g)" using down by simp
    show ?thesis unfolding visited_def res
      by (rule exI[of _ h]) (use None only in auto)
  next
    case (Some v)
    let ?h = "h(t := v)" and ?A = "set (concat (map ids ts))"
    have d: "?down t (with_hq h g) = (0, with_hq ?h g)" using down Some by simp
    have nt: "t \<notin> ?A" "distinct (concat (map ids ts))" using Tg.prems(2) by auto
    have "visited d g (Some t) ?A ?h (visits ?down tg_nop ts (with_hq ?h g))"
    proof (rule visits_quota_step[OF _ nt])
      fix c h assume c: "c \<in> set ts"
      then show "visited d g (Some t) (set (ids c)) h (visit ?down tg_nop c (with_hq h g))"
        using Tg.prems(1,2) by (intro Tg.IH) (auto simp: links_def distinct_concat_iff)
      fix u p assume u: "u \<in> set (ids c)" "tg_parent (g_tg g u) = Some p"
      then show "p = t \<or> p \<in> set (ids c)"
        using parents_inside[of g c u p] c Tg.prems(1) by (cases "u = root_of c") (auto simp: fst_links)
    qed
    then obtain h2 where h2: "snd (visits ?down tg_nop ts (with_hq ?h g)) = with_hq h2 g" "\<forall>u. u \<notin> ?A \<longrightarrow> h2 u = ?h u"
      "fst (visits ?down tg_nop ts (with_hq ?h g)) = 0 \<longrightarrow> (\<forall>u \<in> ?A. consistent_quota d g h2 u)"
      "fst (visits ?down tg_nop ts (with_hq ?h g)) \<noteq> 0 \<longrightarrow> \<not> (\<exists>f. (\<forall>u \<in> ?A. consistent_quota d g f u) \<and> f t = v)"
      unfolding visited_def by auto
    have "h2 t = v" "\<And>p'. p = Some p' \<Longrightarrow> h2 p' = h p'" using h2(2) nt Tg.prems(4) by auto
    then have top: "consistent_quota d g h2 t" using Some Tg.prems(3) by (auto simp: consistent_quota_def q_def split: option.splits)
    have nop: "tg_nop t x = (0, x)" for x by (simp add: tg_nop_def)
    have res: "visit ?down tg_nop (Tg t ts) (with_hq h g) = visits ?down tg_nop ts (with_hq ?h g)"
      using d by (simp add: nop split: prod.split)
    show ?thesis unfolding visited_def res
    proof (intro exI[of _ h2] conjI)
      show "fst (visits ?down tg_nop ts (with_hq ?h g)) \<noteq> 0 \<longrightarrow>
          \<not> (\<exists>f. (\<forall>u \<in> set (ids (Tg t ts)). consistent_quota d g f u) \<and> (\<forall>q. p = Some q \<longrightarrow> f q = h q))"
        using h2(4) only Some by force
    qed (use h2(1-3) top in auto)
  qed
qed

definition cfs_request :: "tg_id \<Rightarrow> u64 \<Rightarrow> u64 \<Rightarrow> cfs_schedulable_data" where
  "cfs_request t period quota =
     (if quota \<noteq> RUNTIME_INF
      then \<lparr>cd_tg = t, cd_period = period div NSEC_PER_USEC, cd_quota = quota div NSEC_PER_USEC\<rparr>
      else \<lparr>cd_tg = t, cd_period = period, cd_quota = quota\<rparr>)"

lemma cfs_schedulable_visited:
  assumes tr: "group_tree g tr"
  obtains r h where "cfs_schedulable t period quota g = Some (r, with_hq h g)"
    "\<forall>u. u \<notin> set (g_list g) \<longrightarrow> h u = hq g u"
    "r = 0 \<longrightarrow> (\<forall>u \<in> set (g_list g). consistent_quota (cfs_request t period quota) g h u)"
    "r \<noteq> 0 \<longrightarrow> \<not> (\<exists>f. \<forall>u \<in> set (g_list g). consistent_quota (cfs_request t period quota) g f u)"
proof -
  let ?d = "cfs_request t period quota" and ?v = "visit (tg_cfs_schedulable_down (cfs_request t period quota)) tg_nop tr g"
  have T: "tree_in (links g) tr" "distinct (ids tr)" "root_of tr = root_task_group" "tg_parent (g_tg g root_task_group) = None"
    "set (ids tr) = set (g_list g)" using tr by (simp_all add: group_tree_def)
  have "cfs_schedulable t period quota g = Some ?v"
    unfolding cfs_schedulable_def cfs_request_def[symmetric] Let_def using tr by (rule cfs_walk.walk_tree)
  moreover have "visited ?d g None (set (ids tr)) (hq g) ?v"
    using visit_quota[of g tr None ?d "hq g"] T by (simp add: with_hq_self)
  ultimately obtain h where h: "cfs_schedulable t period quota g = Some (fst ?v, with_hq h g)" "\<forall>u. u \<notin> set (g_list g) \<longrightarrow> h u = hq g u"
    "fst ?v = 0 \<longrightarrow> (\<forall>u \<in> set (g_list g). consistent_quota ?d g h u)"
    "fst ?v \<noteq> 0 \<longrightarrow> \<not> (\<exists>f. \<forall>u \<in> set (g_list g). consistent_quota ?d g f u)"
    unfolding visited_def T(5) by (metis option.distinct(1) prod.collapse)
  then show ?thesis by (rule that)
qed

text \<open>
  C15: \<open>__cfs_schedulable\<close> accepts a period and quota exactly when effective quotas exist that obey the rule
  of every group, stores them, and changes nothing else; on the old hierarchy no limited group then has a
  larger quota than the effective quota above it.
\<close>

theorem cfs_schedulable_exact:
  assumes tr: "group_tree g tr"
  shows "\<exists>r h. cfs_schedulable t period quota g = Some (r, with_hq h g)
    \<and> (r = 0 \<longleftrightarrow> (\<exists>f. \<forall>u \<in> set (g_list g). consistent_quota (cfs_request t period quota) g f u))
    \<and> (r = 0 \<longrightarrow> (\<forall>u \<in> set (g_list g). consistent_quota (cfs_request t period quota) g h u))
    \<and> (r = 0 \<longrightarrow> \<not> g_on_dfl g \<longrightarrow> (\<forall>u \<in> set (g_list g). \<forall>p. tg_parent (g_tg g u) = Some p \<longrightarrow>
          normalize_cfs_quota (cfs_request t period quota) g u \<noteq> RUNTIME_INF \<longrightarrow> h p \<noteq> RUNTIME_INF \<longrightarrow>
          sint (normalize_cfs_quota (cfs_request t period quota) g u) \<le> sint (h p)))"
proof -
  let ?d = "cfs_request t period quota"
  obtain r h where s: "cfs_schedulable t period quota g = Some (r, with_hq h g)"
    and ok: "r = 0 \<longrightarrow> (\<forall>u \<in> set (g_list g). consistent_quota ?d g h u)"
    and no: "r \<noteq> 0 \<longrightarrow> \<not> (\<exists>f. \<forall>u \<in> set (g_list g). consistent_quota ?d g f u)"
    using cfs_schedulable_visited[OF tr, of t period quota] by metis
  have "sint (normalize_cfs_quota ?d g u) \<le> sint (h p)"
    if "r = 0" "\<not> g_on_dfl g" "u \<in> set (g_list g)" "tg_parent (g_tg g u) = Some p"
      "normalize_cfs_quota ?d g u \<noteq> RUNTIME_INF" "h p \<noteq> RUNTIME_INF" for u p
    using ok that by (force simp: consistent_quota_def effective_def Let_def split: if_splits)
  then show ?thesis using s ok no by blast
qed

text \<open>A property that the root has and that groups inherit holds in the whole tree.\<close>

lemma inherited:
  assumes "tree_in (links g) tr" "P (root_of tr)" "\<And>u p. u \<in> set (ids tr) \<Longrightarrow> tg_parent (g_tg g u) = Some p \<Longrightarrow> P p \<Longrightarrow> P u"
    "u \<in> set (ids tr)"
  shows "P u"
  using assms
proof (induction tr)
  case (Tg t ts)
  show ?case
  proof (cases "u = t")
    case False
    then obtain c where c: "c \<in> set ts" "u \<in> set (ids c)" using Tg.prems(4) by auto
    have p: "tree_in (links g) c" "tg_parent (g_tg g (root_of c)) = Some t" using c(1) Tg.prems(1) by (auto simp: fst_links)
    have "P (root_of c)" using Tg.prems(2,3) p(2) roots_in_ids[OF c(1)] by simp
    then show ?thesis using Tg.IH[OF c(1) p(1) _ _ c(2)] Tg.prems(3) c(1) by auto
  qed (use Tg.prems in simp)
qed

lemma to_ratio_positive:
  assumes "2 \<le> p" "r \<noteq> RUNTIME_INF"
  shows "0 \<le> sint (to_ratio p r)"
proof -
  let ?n = "push_bit BW_SHIFT r div p"
  have "unat ?n = unat (push_bit BW_SHIFT r) div unat p" by (rule unat_div)
  also have "\<dots> \<le> unat (push_bit BW_SHIFT r) div 2" using assms(1) by (intro div_le_mono2) (simp_all add: word_le_nat_alt)
  also have "\<dots> < 2 ^ 63" using unsigned_less[of "push_bit BW_SHIFT r", where 'a = nat] by simp
  finally have n: "unat ?n < 2 ^ 63" .
  have "int (unat ?n) < int (2 ^ 63)" using n by (rule of_nat_less_iff[THEN iffD2])
  then have "uint ?n < 2 ^ 63" by simp
  then have "signed_take_bit 63 (uint ?n) = uint ?n" by (intro signed_take_bit_int_eq_self) (simp_all add: order_trans[OF _ uint_ge_0])
  then have "sint ?n = uint ?n" by (simp add: sint_uint)
  moreover have "to_ratio p r = ?n" using assms by (auto simp: to_ratio_def)
  ultimately show ?thesis by simp
qed

lemma normalize_min:
  assumes "min_cfs_quota_period \<le> period" "min_cfs_quota_period \<le> cb_period (tg_cfs_bandwidth (g_tg g u))"
  shows "- 1 \<le> sint (normalize_cfs_quota (cfs_request t period quota) g u)"
proof -
  have b: "2 \<le> p div NSEC_PER_USEC" if "min_cfs_quota_period \<le> p" for p
    using div_le_mono[of 1000000 "unat p" 1000] that
    by (simp add: min_cfs_quota_period_def NSEC_PER_USEC_def word_le_nat_alt unat_div)
  have "0 \<le> sint (to_ratio (p div NSEC_PER_USEC) q)" if "min_cfs_quota_period \<le> p" "q \<noteq> RUNTIME_INF" for p q
    using to_ratio_positive[OF b[OF that(1)] that(2)] .
  from this[OF assms(1)] this[OF assms(2)] show ?thesis
    by (fastforce simp: normalize_cfs_quota_def cfs_request_def tg_get_cfs_period_def Let_def RUNTIME_INF_def)
qed

text \<open>
  On the default hierarchy \<open>__cfs_schedulable\<close> accepts every quota and leaves every group with an
  effective quota of \<open>RUNTIME_INF\<close>: the minimum is taken of signed numbers, where no limit is -1, so the
  unlimited root wins over every limit below it.
\<close>

theorem cfs_dfl_admits_everything:
  assumes tr: "group_tree g tr" and v2: "g_on_dfl g" and periods: "min_cfs_quota_period \<le> period"
    "\<forall>u \<in> set (g_list g). min_cfs_quota_period \<le> cb_period (tg_cfs_bandwidth (g_tg g u))"
  shows "\<exists>h. cfs_schedulable t period quota g = Some (0, with_hq h g) \<and> (\<forall>u \<in> set (g_list g). h u = RUNTIME_INF)"
proof -
  let ?d = "cfs_request t period quota"
  obtain r h where s: "cfs_schedulable t period quota g = Some (r, with_hq h g)"
    and ok: "r = 0 \<longrightarrow> (\<forall>u \<in> set (g_list g). consistent_quota ?d g h u)"
    and no: "r \<noteq> 0 \<longrightarrow> \<not> (\<exists>f. \<forall>u \<in> set (g_list g). consistent_quota ?d g f u)"
    using cfs_schedulable_visited[OF tr, of t period quota] by metis
  have eff: "effective ?d g u RUNTIME_INF = Some RUNTIME_INF" if "u \<in> set (g_list g)" for u
  proof -
    have "- 1 \<le> sint (normalize_cfs_quota ?d g u)" using normalize_min periods that by blast
    moreover have "sint (RUNTIME_INF :: u64) = - 1" by (simp add: RUNTIME_INF_def)
    moreover have "normalize_cfs_quota ?d g u = RUNTIME_INF" if "sint (normalize_cfs_quota ?d g u) = sint (RUNTIME_INF :: u64)"
      using that by (rule signed_word_eqI)
    ultimately show ?thesis using v2 by (auto simp: effective_def Let_def)
  qed
  have "\<forall>u \<in> set (g_list g). consistent_quota ?d g (\<lambda>_. RUNTIME_INF) u" using eff by (auto simp: consistent_quota_def split: option.split)
  then have r: "r = 0" using no by blast
  have T: "tree_in (links g) tr" "root_of tr = root_task_group" "set (ids tr) = set (g_list g)" "tg_parent (g_tg g root_task_group) = None"
    using tr by (simp_all add: group_tree_def)
  have c: "consistent_quota ?d g h u" if "u \<in> set (g_list g)" for u using ok r that by blast
  have "h (root_of tr) = RUNTIME_INF" using c[of root_task_group] T root_in_ids[of tr] by (simp add: consistent_quota_def)
  then have "h u = RUNTIME_INF" if "u \<in> set (ids tr)" for u
    using inherited[OF T(1), of "\<lambda>u. h u = RUNTIME_INF"] that c eff T(3) by (fastforce simp: consistent_quota_def)
  then show ?thesis using s r T(3) by auto
qed

definition two_groups :: "bool \<Rightarrow> groups" where
  "two_groups v2 = upd_tg 2 (\<lambda>x. x\<lparr>tg_cfs_bandwidth := \<lparr>cb_period = 100000000, cb_quota = 80000000, cb_runtime = 0, cb_hierarchical_quota = 0\<rparr>\<rparr>)
     (upd_tg 1 (\<lambda>x. x\<lparr>tg_cfs_bandwidth := \<lparr>cb_period = 100000000, cb_quota = 50000000, cb_runtime = 0, cb_hierarchical_quota = 0\<rparr>\<rparr>)
       (upd_tg 0 (\<lambda>x. x\<lparr>tg_cfs_bandwidth := \<lparr>cb_period = 100000000, cb_quota = RUNTIME_INF, cb_runtime = 0, cb_hierarchical_quota = 0\<rparr>\<rparr>)
         (link_child 2 1 one_group)))\<lparr>g_on_dfl := v2\<rparr>"

lemma two_groups_tree: "group_tree (two_groups v2) (Tg 0 [Tg 1 [Tg 2 []]])"
  by (simp add: group_tree_def two_groups_def link_child_def links_def root_task_group_def one_group_facts insert_commute
      one_group_facts[unfolded One_nat_def])

theorem cfs_dfl_admits_everything_witness:
  "\<exists>h. cfs_schedulable 2 100000000 80000000 (two_groups True) = Some (0, with_hq h (two_groups True)) \<and> h 1 = RUNTIME_INF \<and> h 2 = RUNTIME_INF"
proof -
  have "g_on_dfl (two_groups True)" by (simp add: two_groups_def)
  moreover have l: "set (g_list (two_groups True)) = {0, 1, 2}" by (auto simp: two_groups_def link_child_def one_group_tg)
  moreover have "min_cfs_quota_period \<le> (100000000 :: u64)" by (simp add: min_cfs_quota_period_def)
  moreover have "\<forall>u \<in> set (g_list (two_groups True)). min_cfs_quota_period \<le> cb_period (tg_cfs_bandwidth (g_tg (two_groups True) u))"
    unfolding l by (simp add: two_groups_def min_cfs_quota_period_def)
  ultimately show ?thesis using cfs_dfl_admits_everything[OF two_groups_tree, of True 100000000 2 80000000] by auto
qed

theorem cfs_schedulable_exact_witness:
  "\<exists>r h. cfs_schedulable 2 100000000 80000000 (two_groups False) = Some (r, with_hq h (two_groups False)) \<and> r \<noteq> 0"
proof -
  let ?g = "two_groups False" and ?d = "cfs_request 2 100000000 80000000"
  have l: "set (g_list ?g) = {0, 1, 2}" by (auto simp: two_groups_def link_child_def one_group_tg)
  have p: "tg_parent (g_tg ?g 0) = None" "tg_parent (g_tg ?g 1) = Some 0" "tg_parent (g_tg ?g 2) = Some 1" "\<not> g_on_dfl ?g"
    by (simp_all add: two_groups_def link_child_def one_group_facts one_group_facts[unfolded One_nat_def])
  have q: "normalize_cfs_quota ?d ?g 1 = 524288" "normalize_cfs_quota ?d ?g 2 = 838860"
    by (simp_all add: normalize_cfs_quota_def cfs_request_def two_groups_def tg_get_cfs_period_def tg_get_cfs_quota_def NSEC_PER_USEC_def
        RUNTIME_INF_def to_ratio_def BW_SHIFT_def)
  have "\<not> (\<exists>f. \<forall>u \<in> set (g_list ?g). consistent_quota ?d ?g f u)"
    unfolding l using p by (auto simp: consistent_quota_def effective_def Let_def q q[unfolded One_nat_def] RUNTIME_INF_def)
  then show ?thesis using cfs_schedulable_exact[OF two_groups_tree[of False], of 2 100000000 80000000] by blast
qed

end
