(* ===== verification/Sched_Group_Files.thy ===== *)
theory Sched_Group_Files
  imports Sched_Group_Cfs
begin

text \<open>
  The control files of task groups and of the global real-time limits: what is written is what is read.
\<close>

section \<open>Control files\<close>

text \<open>What the fair class does with a weight: it stores it, within the limits.\<close>

definition stores_shares :: "group_env \<Rightarrow> tg_id \<Rightarrow> bool" where
  "stores_shares e t \<longleftrightarrow> (\<forall>v g. fst (ge_set_shares e t v g) = 0
     \<and> tg_shares (g_tg (snd (ge_set_shares e t v g)) t) = max (scale_load MIN_SHARES) (min v (scale_load MAX_SHARES)))"

lemma scale_load_max:
  assumes "2 \<le> v" "v \<le> MAX_SHARES"
  shows "scale_load_down (max (scale_load MIN_SHARES) (min (scale_load v) (scale_load MAX_SHARES))) = v"
proof -
  have b: "2 \<le> unat v" "unat v \<le> 2 ^ 18" using assms by (simp_all add: word_le_nat_alt MAX_SHARES_def)
  have s: "unat (scale_load v) = unat v * 1024"
    using b by (simp add: scale_load_def SCHED_FIXEDPOINT_SHIFT_def push_bit_eq_mult unat_word_ariths)
  have "max (scale_load MIN_SHARES) (min (scale_load v) (scale_load MAX_SHARES)) = scale_load v"
    using b s by (simp add: max_def min_def word_le_nat_alt) (simp add: scale_load_def MIN_SHARES_def MAX_SHARES_def SCHED_FIXEDPOINT_SHIFT_def)
  moreover have "drop_bit SCHED_FIXEDPOINT_SHIFT (scale_load v) = v"
    using s by (intro word_unat_eq_iff[THEN iffD2]) (simp add: drop_bit_eq_div unat_div SCHED_FIXEDPOINT_SHIFT_def)
  moreover have "scale_load v \<noteq> 0" using s b by auto
  ultimately show ?thesis using assms(1) by (simp add: scale_load_down_def max_def)
qed

lemma weight_roundtrip_nat: "(100 * ((1024 * w + 50) div 100) + 512) div 1024 = (w :: nat)"
proof -
  let ?s = "(1024 * w + 50) div 100"
  have "100 * ?s + (1024 * w + 50) mod 100 = 1024 * w + 50" by (rule mult_div_mod_eq)
  moreover have "(1024 * w + 50) mod 100 < 100" by simp
  ultimately show ?thesis by linarith
qed

lemma cpu_weight_roundtrip:
  assumes e: "stores_shares e t" and w: "CGROUP_WEIGHT_MIN \<le> w" "w \<le> CGROUP_WEIGHT_MAX"
  shows "fst (cpu_weight_write_u64 e t w g) = 0 \<and> cpu_weight_read_u64 t (snd (cpu_weight_write_u64 e t w g)) = w"
proof -
  let ?s = "DIV_ROUND_CLOSEST_ULL (w * 1024) CGROUP_WEIGHT_DFL"
  have b: "1 \<le> unat w" "unat w \<le> 10000" using w by (simp_all add: word_le_nat_alt CGROUP_WEIGHT_MIN_def CGROUP_WEIGHT_MAX_def)
  have "unat (w * 1024 + 50) = unat w * 1024 + 50" using b by (simp add: unat_word_ariths)
  then have s: "unat ?s = (1024 * unat w + 50) div 100"
    by (simp add: DIV_ROUND_CLOSEST_ULL_def CGROUP_WEIGHT_DFL_def unat_div mult.commute)
  then have sb: "2 \<le> unat ?s" "unat ?s \<le> 2 ^ 18" using b div_le_mono[of 200 "1024 * unat w + 50" 100] div_le_mono[of "1024 * unat w + 50" 26214400 100] by simp_all
  have "?s \<le> MAX_SHARES" "2 \<le> ?s" using sb by (simp_all add: word_le_nat_alt MAX_SHARES_def)
  moreover have wr: "cpu_weight_write_u64 e t w g = ge_set_shares e t (scale_load ?s) g"
    using w by (simp add: cpu_weight_write_u64_def not_less[symmetric])
  ultimately have r: "scale_load_down (tg_shares (g_tg (snd (cpu_weight_write_u64 e t w g)) t)) = ?s"
    using e scale_load_max[of ?s] by (simp add: stores_shares_def)
  have "unat (?s * 100 + 512) = unat ?s * 100 + 512" using sb by (simp add: unat_word_ariths)
  then have "unat (DIV_ROUND_CLOSEST_ULL (?s * CGROUP_WEIGHT_DFL) 1024) = unat w"
    using weight_roundtrip_nat[of "unat w"] s by (simp add: DIV_ROUND_CLOSEST_ULL_def CGROUP_WEIGHT_DFL_def unat_div mult.commute)
  moreover have "fst (cpu_weight_write_u64 e t w g) = 0" using e by (simp add: wr stores_shares_def)
  ultimately show ?thesis by (simp add: cpu_weight_read_u64_def r word_unat_eq_iff)
qed

lemma nice_table: "list_all (\<lambda>i. nice_loop sched_prio_to_weight (sched_prio_to_weight ! nat i) 0 (2 ^ 31 - 1) = i + 1) [0..39]"
  by code_simp

lemma nice_weights: "list_all (\<lambda>i. 15 \<le> sched_prio_to_weight ! nat i \<and> sched_prio_to_weight ! nat i \<le> 88761) [0..39]"
  by code_simp

lemma cpu_nice_roundtrip:
  assumes e: "stores_shares e t" and n: "MIN_NICE \<le> nice" "nice \<le> MAX_NICE"
  shows "fst (cpu_weight_nice_write_s64 e t nice g) = 0 \<and> cpu_weight_nice_read_s64 t (snd (cpu_weight_nice_write_s64 e t nice g)) = nice"
proof -
  let ?i = "NICE_TO_PRIO nice - MAX_RT_PRIO"
  have i: "?i = nice + 20" "0 \<le> ?i" "?i \<le> 39" using n by (simp_all add: prio_consts)
  let ?w = "sched_prio_to_weight ! nat ?i"
  have w: "15 \<le> ?w" "?w \<le> 88761" "nice_loop sched_prio_to_weight ?w 0 (2 ^ 31 - 1) = ?i + 1"
    using nice_table nice_weights i(2,3) by (auto simp: list_all_iff)
  have u: "uint (word_of_int ?w :: u64) = ?w" using w by (simp add: uint_word_of_int)
  have "2 \<le> (word_of_int ?w :: u64)" "(word_of_int ?w :: u64) \<le> MAX_SHARES"
    using w u by (simp_all add: word_le_def MAX_SHARES_def)
  then have r: "scale_load_down (tg_shares (g_tg (snd (cpu_weight_nice_write_s64 e t nice g)) t)) = word_of_int ?w"
    using e n scale_load_max by (simp add: cpu_weight_nice_write_s64_def stores_shares_def Let_def)
  have "cpu_weight_nice_read_s64 t (snd (cpu_weight_nice_write_s64 e t nice g)) = PRIO_TO_NICE (?i + MAX_RT_PRIO)"
    using w(3) by (simp add: cpu_weight_nice_read_s64_def r u)
  then show ?thesis using e n i(1) by (simp add: prio_consts cpu_weight_nice_write_s64_def stores_shares_def Let_def)
qed

text \<open>
  Every weight from 1 to 10000 written to \<open>cpu.weight\<close> is read back as written, and every nice value from
  -20 to 19 written to \<open>cpu.weight.nice\<close> is.
\<close>

theorem cpu_weight_files_roundtrip:
  assumes "stores_shares e t"
  shows "(CGROUP_WEIGHT_MIN \<le> w \<and> w \<le> CGROUP_WEIGHT_MAX \<longrightarrow>
      fst (cpu_weight_write_u64 e t w g) = 0 \<and> cpu_weight_read_u64 t (snd (cpu_weight_write_u64 e t w g)) = w)
    \<and> (MIN_NICE \<le> nice \<and> nice \<le> MAX_NICE \<longrightarrow>
      fst (cpu_weight_nice_write_s64 e t nice g) = 0 \<and> cpu_weight_nice_read_s64 t (snd (cpu_weight_nice_write_s64 e t nice g)) = nice)"
  using cpu_weight_roundtrip[OF assms] cpu_nice_roundtrip[OF assms] by blast

theorem cpu_weight_files_roundtrip_witness:
  "cpu_weight_read_u64 1 (snd (cpu_weight_write_u64 free_env 1 333 one_group)) = 333
   \<and> cpu_weight_nice_read_s64 1 (snd (cpu_weight_nice_write_s64 free_env 1 (- 7) one_group)) = - 7"
proof -
  have "stores_shares free_env 1" by (simp add: stores_shares_def free_env_def)
  then show ?thesis using cpu_weight_files_roundtrip[of free_env 1 333 one_group "- 7"]
    by (simp add: CGROUP_WEIGHT_MIN_def CGROUP_WEIGHT_MAX_def prio_consts)
qed

lemma usec_small:
  assumes "us \<le> U64_MAX div NSEC_PER_USEC"
  shows "us * NSEC_PER_USEC div NSEC_PER_USEC = us" "us * NSEC_PER_USEC \<noteq> RUNTIME_INF"
proof -
  have "unat us \<le> unat (U64_MAX div NSEC_PER_USEC)" using assms by (simp add: word_le_nat_alt)
  also have "\<dots> = 18446744073709551" by (simp add: U64_MAX_def NSEC_PER_USEC_def unat_div)
  finally have u: "unat (us * NSEC_PER_USEC) = unat us * 1000" by (simp add: NSEC_PER_USEC_def unat_word_ariths)
  then show "us * NSEC_PER_USEC div NSEC_PER_USEC = us" by (simp add: word_unat_eq_iff unat_div NSEC_PER_USEC_def)
  have "unat (RUNTIME_INF :: u64) = 18446744073709551615" by (simp add: RUNTIME_INF_def unsigned_minus_1_eq_mask mask_eq_exp_minus_1)
  moreover have "unat us * 1000 \<noteq> 18446744073709551615"
    using arg_cong[of "unat us * 1000" 18446744073709551615 "\<lambda>n. n mod 1000"] by auto
  ultimately show "us * NSEC_PER_USEC \<noteq> RUNTIME_INF" using u by auto
qed

lemma tg_set_rt_bandwidth_stores:
  assumes "tg_set_rt_bandwidth t period runtime g = Some (0, g')"
  shows "rtb_runtime (tg_rt_bandwidth (g_tg g' t)) = runtime \<and> rt_period (tg_rt_bandwidth (g_tg g' t)) = period"
  using assms by (auto simp: tg_set_rt_bandwidth_def split: if_splits option.splits prod.splits)

text \<open>
  What \<open>cpu.rt_runtime_us\<close> or \<open>cpu.rt_period_us\<close> accepts is read back: the microseconds written, or -1
  for any negative runtime, and the other of the two values stays.
\<close>

theorem rt_files_roundtrip:
  shows "(sched_group_set_rt_runtime t us g = Some (0, g') \<longrightarrow>
      sched_group_rt_runtime t g' = (if sint us < 0 then - 1 else sint us)
      \<and> rt_period (tg_rt_bandwidth (g_tg g' t)) = rt_period (tg_rt_bandwidth (g_tg g t)))
    \<and> (sched_group_set_rt_period t us g = Some (0, g') \<longrightarrow>
      sched_group_rt_period t g' = sint us
      \<and> rtb_runtime (tg_rt_bandwidth (g_tg g' t)) = rtb_runtime (tg_rt_bandwidth (g_tg g t)))"
  using tg_set_rt_bandwidth_stores usec_small
  by (auto simp: sched_group_set_rt_runtime_def sched_group_set_rt_period_def sched_group_rt_runtime_def sched_group_rt_period_def
      Let_def not_less split: if_splits)

lemma length_show_nat: "n < 10 ^ Suc k \<Longrightarrow> length (show_nat n) \<le> Suc k"
proof (induction k arbitrary: n)
  case 0
  then show ?case by (simp add: show_nat.simps[of n])
next
  case (Suc k)
  then have "n div 10 < 10 ^ Suc k" by (simp add: less_mult_imp_div_less)
  then have "length (show_nat (n div 10)) \<le> Suc k" by (rule Suc.IH)
  then show ?case by (simp add: show_nat.simps[of n])
qed

lemma digits_no_space: "\<forall>c \<in> set (show_nat n). \<not> is_space c \<and> is_digit c"
  using show_nat_digits(1)[of n] by (auto simp: list_all_iff is_digit_def is_space_def)

lemma scan_u64_digits:
  assumes "rest = [] \<or> \<not> is_digit (hd rest)"
  shows "scan_u64 (show_nat n @ rest) = Some (of_nat n)" "scan_u64 (CHR '' '' # show_nat n @ rest) = Some (of_nat n)"
proof -
  have h: "show_nat n \<noteq> []" "is_digit (hd (show_nat n @ rest))" "\<not> is_space (hd (show_nat n @ rest))"
    using show_nat_digits(2)[of n] show_nat_head[of n] by simp_all
  then have d: "dropWhile is_space (show_nat n @ rest) = show_nat n @ rest" by (cases "show_nat n") simp_all
  have "takeWhile is_digit (show_nat n @ rest) = show_nat n"
    using assms digits_no_space[of n] by (cases rest) (simp_all add: takeWhile_append2)
  then have l: "leading_nat (show_nat n @ rest) = n" by (simp add: leading_nat_def leading_show_nat)
  show "scan_u64 (show_nat n @ rest) = Some (of_nat n)" using h l by (simp add: scan_u64_def d)
  show "scan_u64 (CHR '' '' # show_nat n @ rest) = Some (of_nat n)" using h l by (simp add: scan_u64_def d is_space_def)
qed

text \<open>What \<open>cpu_period_quota_print\<close> writes \<open>cpu_period_quota_parse\<close> reads.\<close>

lemma parse_print:
  assumes "0 \<le> period" "quota < 10 ^ 20"
  shows "cpu_period_quota_parse (cpu_period_quota_print period quota) p0 =
    (0, of_int period * NSEC_PER_USEC, if quota < 0 then RUNTIME_INF else of_int quota * NSEC_PER_USEC)"
proof -
  let ?q = "if quota < 0 then ''max'' else show_int quota" and ?r = "'' '' @ show_int period @ [NEWLINE]"
  have q: "?q \<noteq> []" "\<forall>c \<in> set ?q. \<not> is_space c" "length ?q \<le> 20"
    using digits_no_space[of "nat quota"] show_nat_digits(2)[of "nat quota"] length_show_nat[of "nat quota" 19] assms(2)
    by (auto simp: show_int_def is_space_def)
  have sp: "is_space (CHR '' '')" "\<not> is_digit NEWLINE" by (simp_all add: is_space_def is_digit_def NEWLINE_def)
  have d: "dropWhile is_space (?q @ ?r) = ?q @ ?r" using q by (cases ?q) (simp_all split: if_splits)
  have t: "take 20 (takeWhile (\<lambda>c. \<not> is_space c) (?q @ ?r)) = ?q" using q sp(1) by (simp add: takeWhile_append2)
  have r: "scan_u64 ?r = Some (of_int period)"
    using scan_u64_digits(2)[of "[NEWLINE]" "nat period"] assms(1) sp by (simp add: show_int_def)
  have s: "scan_u64 ?q = (if quota < 0 then None else Some (of_int quota))"
    using scan_u64_digits(1)[of "[]" "nat quota"] by (simp add: show_int_def) (simp add: scan_u64_def is_space_def is_digit_def)
  show ?thesis unfolding cpu_period_quota_parse_def cpu_period_quota_print_def d t Let_def using q(1) r s by simp
qed

lemma usec_sint:
  assumes "us \<le> U64_MAX div NSEC_PER_USEC"
  shows "0 \<le> sint us" "sint us < 10 ^ 20" "of_int (sint us) = us"
proof -
  have "unat us \<le> unat (U64_MAX div NSEC_PER_USEC)" using assms by (simp add: word_le_nat_alt)
  also have "\<dots> = 18446744073709551" by (simp add: U64_MAX_def NSEC_PER_USEC_def unat_div)
  finally have "int (unat us) \<le> int 18446744073709551" by (rule of_nat_le_iff[THEN iffD2])
  then have u: "uint us \<le> 18446744073709551" by simp
  then have "signed_take_bit 63 (uint us) = uint us" by (intro signed_take_bit_int_eq_self) (simp_all add: order_trans[OF _ uint_ge_0])
  then have s: "sint us = uint us" by (simp add: sint_uint)
  show "0 \<le> sint us" "sint us < 10 ^ 20" "of_int (sint us) = us" using u by (simp_all add: s)
qed

text \<open>
  Writing back to \<open>cpu.max\<close> the text that was read from it asks for exactly the period and quota the group
  has, with or without a limit.
\<close>

theorem cpu_max_write_back:
  assumes p: "cb_period (tg_cfs_bandwidth (g_tg g t)) = p * NSEC_PER_USEC" "p \<le> U64_MAX div NSEC_PER_USEC"
    and q: "cb_quota (tg_cfs_bandwidth (g_tg g t)) = RUNTIME_INF
      \<or> cb_quota (tg_cfs_bandwidth (g_tg g t)) = q * NSEC_PER_USEC \<and> q \<le> U64_MAX div NSEC_PER_USEC"
  shows "cpu_max_write e t (cpu_max_show t g) g =
    map_option (\<lambda>(r, g1). (if r \<noteq> 0 then r else int (length (cpu_max_show t g)), g1))
      (tg_set_cfs_bandwidth e t (cb_period (tg_cfs_bandwidth (g_tg g t))) (cb_quota (tg_cfs_bandwidth (g_tg g t))) g)"
proof -
  have pp: "tg_get_cfs_period t g = p" using usec_small(1)[OF p(2)] by (simp add: tg_get_cfs_period_def p(1))
  have "cpu_period_quota_parse (cpu_max_show t g) (tg_get_cfs_period t g)
      = (0, cb_period (tg_cfs_bandwidth (g_tg g t)), cb_quota (tg_cfs_bandwidth (g_tg g t)))"
  proof (cases "cb_quota (tg_cfs_bandwidth (g_tg g t)) = RUNTIME_INF")
    case True
    then have "tg_get_cfs_quota t g = - 1" by (simp add: tg_get_cfs_quota_def)
    then show ?thesis using parse_print[of "sint p" "- 1" p] usec_sint[OF p(2)] p(1) True by (simp add: cpu_max_show_def pp)
  next
    case False
    then have q': "cb_quota (tg_cfs_bandwidth (g_tg g t)) = q * NSEC_PER_USEC" "q \<le> U64_MAX div NSEC_PER_USEC" using q by auto
    then have "tg_get_cfs_quota t g = q" using usec_small[OF q'(2)] by (simp add: tg_get_cfs_quota_def)
    then show ?thesis using parse_print[of "sint p" "sint q" p] usec_sint[OF p(2)] usec_sint[OF q'(2)] p(1) q'(1)
      by (simp add: cpu_max_show_def pp)
  qed
  then show ?thesis by (simp add: cpu_max_write_def)
qed

theorem cpu_max_write_back_witness:
  "cpu_max_show 2 (two_groups False) = ''80000 100000'' @ [NEWLINE]
   \<and> cpu_max_write free_env 2 (cpu_max_show 2 (two_groups False)) (two_groups False) =
      map_option (\<lambda>(r, g1). (if r \<noteq> 0 then r else 13, g1)) (tg_set_cfs_bandwidth free_env 2 100000000 80000000 (two_groups False))"
proof -
  have f: "cb_period (tg_cfs_bandwidth (g_tg (two_groups False) 2)) = 100000 * NSEC_PER_USEC"
    "cb_quota (tg_cfs_bandwidth (g_tg (two_groups False) 2)) = 80000 * NSEC_PER_USEC" "(80000 :: u64) * NSEC_PER_USEC = 80000000"
    "(100000 :: u64) * NSEC_PER_USEC = 100000000"
    "(100000 :: u64) \<le> U64_MAX div NSEC_PER_USEC" "(80000 :: u64) \<le> U64_MAX div NSEC_PER_USEC"
    by (simp_all add: two_groups_def NSEC_PER_USEC_def U64_MAX_def)
  have digits: "char_of (56 :: nat) = CHR ''8''" "char_of (48 :: nat) = CHR ''0''" "char_of (49 :: nat) = CHR ''1''" by code_simp+
  have s: "cpu_max_show 2 (two_groups False) = ''80000 100000'' @ [NEWLINE]"
    by (simp add: digits cpu_max_show_def tg_get_cfs_period_def tg_get_cfs_quota_def f RUNTIME_INF_def cpu_period_quota_print_def show_int_def show_nat.simps
        NSEC_PER_USEC_def)
  have n: "int (length (''80000 100000'' @ [NEWLINE])) = 13" by simp
  show ?thesis using cpu_max_write_back[OF f(1,5) disjI2[OF conjI[OF f(2,6)]], of free_env] s
    unfolding f s n by simp
qed

text \<open>A quota above the range of 64 bits is not refused: it wraps around, here to about a millisecond.\<close>

lemma cpu_max_wraps_around:
  "cpu_period_quota_parse (cpu_period_quota_print 100000 18446744073710552) p0 = (0, 100000000, 1000384)"
  by (simp add: parse_print NSEC_PER_USEC_def)

theorem rt_files_roundtrip_witness:
  "sched_group_set_rt_runtime 1 400000 one_group = Some (0, limited_group) \<and> sched_group_rt_runtime 1 limited_group = 400000"
proof -
  have "sched_group_set_rt_runtime 1 400000 one_group = Some (0, limited_group)"
    using one_group_set(1) by (simp add: sched_group_set_rt_runtime_def one_group_tg one_group_tg[unfolded One_nat_def] NSEC_PER_USEC_def U64_MAX_def Let_def)
  then show ?thesis using rt_files_roundtrip[of 1 400000 one_group limited_group] by simp
qed

section \<open>The global limits\<close>

lemma upd_rt_loop:
  "rt_runtime (rq_rt (rqs (fold (\<lambda>i. if P i then upd_rt i (\<lambda>r. r\<lparr>rt_runtime := v\<rparr>) else id) xs s) c))
   = (if c \<in> set xs \<and> P c then v else rt_runtime (rq_rt (rqs s c)))"
proof (induction xs arbitrary: s)
  case (Cons i xs)
  have "rt_runtime (rq_rt (rqs (upd_rt i (\<lambda>r. r\<lparr>rt_runtime := v\<rparr>) s) c)) = (if c = i then v else rt_runtime (rq_rt (rqs s c)))"
    by (simp add: upd_rt_def upd_rq_def)
  then show ?case using Cons by (cases "c = i") auto
qed simp

lemma upd_rt_loop_frame:
  "sysctl_sched_rt_period (fold (\<lambda>i. if P i then upd_rt i f else id) xs s) = sysctl_sched_rt_period s"
  "sysctl_sched_rt_runtime (fold (\<lambda>i. if P i then upd_rt i f else id) xs s) = sysctl_sched_rt_runtime s"
  by (induction xs arbitrary: s) (auto simp: upd_rt_def upd_rq_def)

text \<open>
  C39: a write to \<open>sched_rt_period_us\<close> or \<open>sched_rt_runtime_us\<close> that is refused puts both values back; one that is
  accepted has passed both validations, and the default bandwidth and every possible CPU's real-time queue
  have the new values.
\<close>

theorem sched_rt_handler_effect:
  assumes d: "dointvec s = (0, s1)" and h: "sched_rt_handler dointvec dl_validate dl_do_global True s = (r, s')"
  shows "if r = 0
    then sched_rt_global_validate s1 = 0 \<and> dl_validate s1 = 0
      \<and> (\<exists>s2. s' = dl_do_global s2 \<and> rtb_runtime (def_rt_bandwidth s2) = global_rt_runtime s1 \<and> rt_period (def_rt_bandwidth s2) = global_rt_period s1
            \<and> (\<forall>i < nr_cpu_ids s1. cpu_possible_mask s1 i \<longrightarrow> rt_runtime (rq_rt (rqs s2 i)) = global_rt_runtime s1))
    else s' = s1\<lparr>sysctl_sched_rt_period := sysctl_sched_rt_period s, sysctl_sched_rt_runtime := sysctl_sched_rt_runtime s\<rparr>"
proof -
  have frame: "global_rt_runtime (snd (sched_rt_global_constraints s1)) = global_rt_runtime s1"
    "global_rt_period (snd (sched_rt_global_constraints s1)) = global_rt_period s1" "fst (sched_rt_global_constraints s1) = 0"
    by (simp_all add: sched_rt_global_constraints_def global_rt_runtime_def global_rt_period_def upd_rt_loop_frame)
  have loop: "rt_runtime (rq_rt (rqs (snd (sched_rt_global_constraints s1)) i)) = global_rt_runtime s1"
    if "i < nr_cpu_ids s1" "cpu_possible_mask s1 i" for i
    unfolding sched_rt_global_constraints_def snd_conv upd_rt_loop using that by simp
  have "sched_rt_global_validate s1 = 0 \<and> dl_validate s1 = 0 \<and> s' = dl_do_global (sched_rt_do_global (snd (sched_rt_global_constraints s1)))" if "r = 0"
    using h d that frame(3) by (cases "sched_rt_global_constraints s1") (auto simp: sched_rt_handler_def Let_def split: if_splits)
  moreover have "s' = s1\<lparr>sysctl_sched_rt_period := sysctl_sched_rt_period s, sysctl_sched_rt_runtime := sysctl_sched_rt_runtime s\<rparr>" if "r \<noteq> 0"
    using h d that frame(3) by (cases "sched_rt_global_constraints s1") (auto simp: sched_rt_handler_def Let_def split: if_splits)
  ultimately show ?thesis using frame loop by (auto simp: sched_rt_do_global_def)
qed

theorem sched_rt_handler_effect_witness:
  "\<exists>s'. sched_rt_handler (\<lambda>s. (0, s\<lparr>sysctl_sched_rt_runtime := 2000000\<rparr>)) (\<lambda>_. 0) (\<lambda>s. s) True boot_sys = (- errno_val EINVAL, s')
    \<and> sysctl_sched_rt_runtime s' = 950000"
proof -
  let ?w = "\<lambda>s. (0 :: int, s\<lparr>sysctl_sched_rt_runtime := 2000000\<rparr>)"
  have "fst (sched_rt_handler ?w (\<lambda>_. 0) (\<lambda>s. s) True boot_sys) = - errno_val EINVAL"
    by (simp add: sched_rt_handler_def sched_rt_global_validate_def boot_sys_def RUNTIME_INF_def)
  moreover obtain r s' where h: "sched_rt_handler ?w (\<lambda>_. 0) (\<lambda>s. s) True boot_sys = (r, s')" by fastforce
  ultimately show ?thesis using sched_rt_handler_effect[OF _ h] by (simp add: boot_sys_def)
qed

end
