(* ===== verification/Sched_Lock.thy ===== *)
theory Sched_Lock
  imports Prelude "HOL-Library.Product_Lexorder"
begin

text \<open>
  The locks of the scheduler: the functions of \<open>kernel/sched/sched.h\<close> and \<open>kernel/sched/core.c\<close> that lock one
  or two run queues, the locking of the paths that use them, and threads that run such paths side by side.
  Memory is sequentially consistent; waiting for a task to leave its CPU (\<open>on_cpu\<close>) and the queue of remote
  wakeups are not part of it.
\<close>

section \<open>Locks and their order\<close>

text \<open>
  The lock of a task (\<open>p->pi_lock\<close>), the mark of a task that is between two run queues
  (\<open>TASK_ON_RQ_MIGRATING\<close>, which others wait for), and the lock of a run queue, all by their addresses.
\<close>

datatype lock = Pi nat | Mig nat | Rq nat

primrec lock_key :: "lock \<Rightarrow> nat \<times> nat" where
  "lock_key (Pi a) = (0, a)"
| "lock_key (Mig a) = (1, a)"
| "lock_key (Rq a) = (2, a)"

lemma lock_key_inject: "lock_key a = lock_key b \<Longrightarrow> a = b"
  by (cases a; cases b) simp_all

instantiation lock :: linorder
begin

definition less_eq_lock :: "lock \<Rightarrow> lock \<Rightarrow> bool" where
  "less_eq_lock a b \<longleftrightarrow> lock_key a \<le> lock_key b"

definition less_lock :: "lock \<Rightarrow> lock \<Rightarrow> bool" where
  "less_lock a b \<longleftrightarrow> lock_key a < lock_key b"

instance
proof
  fix a b c :: lock
  show "(a < b) = (a \<le> b \<and> \<not> b \<le> a)" by (auto simp: less_eq_lock_def less_lock_def)
  show "a \<le> a" by (simp add: less_eq_lock_def)
  show "a \<le> b \<Longrightarrow> b \<le> c \<Longrightarrow> a \<le> c" by (simp add: less_eq_lock_def)
  show "a \<le> b \<Longrightarrow> b \<le> a \<Longrightarrow> a = b" by (simp add: less_eq_lock_def lock_key_inject)
  show "a \<le> b \<or> b \<le> a" by (auto simp: less_eq_lock_def)
qed

end

lemma lock_less [simp]:
  "Pi a < Pi b \<longleftrightarrow> a < b" "Mig a < Mig b \<longleftrightarrow> a < b" "Rq a < Rq b \<longleftrightarrow> a < b"
  "Pi a < Mig b" "Pi a < Rq b" "Mig a < Rq b" "\<not> Mig a < Pi b" "\<not> Rq a < Pi b" "\<not> Rq a < Mig b"
  by (simp_all add: less_lock_def)

section \<open>What a thread does to locks\<close>

text \<open>
  The locking of a kernel path: what it locks, unlocks, reads and stores of the state that locks protect,
  and what it does next.  \<open>Load\<close> reads the run queue of a task, \<open>Check\<close> whether the task is queued on the
  given run queue, \<open>Check_at\<close> whether it is there and not on its way, \<open>On_rq\<close> whether it is queued anywhere
  and, when not, where it was last.  \<open>Move\<close> is \<open>set_task_cpu\<close>, \<open>Mark\<close> stores \<open>TASK_ON_RQ_MIGRATING\<close>,
  \<open>Enqueue\<close> and \<open>Dequeue\<close> set and clear \<open>on_rq\<close>, \<open>Assert\<close> is a \<open>BUG_ON\<close> on the task's run queue.  \<open>Choose\<close>
  stands for the conditions on other state.  \<open>Loop\<close> is one of the loops without bound.
\<close>

datatype loop = Task_rq_lock nat | Task_rq_lock_pi nat | Yield_to nat nat

datatype prog =
    Halt
  | Bug
  | Lock lock prog
  | Unlock lock prog
  | Trylock lock "bool \<Rightarrow> prog"
  | Await nat prog
  | Load nat "nat \<Rightarrow> prog"
  | Check nat nat "bool \<Rightarrow> prog"
  | Check_at nat nat "bool \<Rightarrow> prog"
  | On_rq nat "nat option \<Rightarrow> prog"
  | Move nat nat prog
  | Mark nat prog
  | Enqueue nat prog
  | Dequeue nat prog
  | Assert nat nat prog
  | Choose "nat \<Rightarrow> prog"
  | Loop loop "nat \<Rightarrow> prog"

section \<open>The locking functions\<close>

text \<open>\<open>irqs\<close> says whether interrupts are disabled.\<close>

definition double_rq_lock :: "bool \<Rightarrow> nat \<Rightarrow> nat \<Rightarrow> prog \<Rightarrow> prog" where
  "double_rq_lock irqs rq1 rq2 k =
     (if \<not> irqs then Bug
      else if rq1 = rq2 then Lock (Rq rq1) k
      else if rq1 < rq2 then Lock (Rq rq1) (Lock (Rq rq2) k)
      else Lock (Rq rq2) (Lock (Rq rq1) k))"

definition double_rq_unlock :: "nat \<Rightarrow> nat \<Rightarrow> prog \<Rightarrow> prog" where
  "double_rq_unlock rq1 rq2 k = Unlock (Rq rq1) (if rq1 \<noteq> rq2 then Unlock (Rq rq2) k else k)"

text \<open>The two ways to lock a second run queue: with \<open>CONFIG_PREEMPT\<close>, and without.\<close>

definition fair_double_lock_balance :: "nat \<Rightarrow> nat \<Rightarrow> (bool \<Rightarrow> prog) \<Rightarrow> prog" where
  "fair_double_lock_balance this_rq busiest k = Unlock (Rq this_rq) (double_rq_lock True this_rq busiest (k True))"

definition unfair_double_lock_balance :: "nat \<Rightarrow> nat \<Rightarrow> (bool \<Rightarrow> prog) \<Rightarrow> prog" where
  "unfair_double_lock_balance this_rq busiest k =
     Trylock (Rq busiest) (\<lambda>got.
       if \<not> got then
         (if busiest < this_rq then Unlock (Rq this_rq) (Lock (Rq busiest) (Lock (Rq this_rq) (k True)))
          else Lock (Rq busiest) (k False))
       else k False)"

definition double_lock_balance :: "bool \<Rightarrow> bool \<Rightarrow> nat \<Rightarrow> nat \<Rightarrow> (bool \<Rightarrow> prog) \<Rightarrow> prog" where
  "double_lock_balance preempt irqs this_rq busiest k =
     (if \<not> irqs then Unlock (Rq this_rq) Bug
      else if preempt then fair_double_lock_balance this_rq busiest k
      else unfair_double_lock_balance this_rq busiest k)"

definition double_unlock_balance :: "nat \<Rightarrow> nat \<Rightarrow> prog \<Rightarrow> prog" where
  "double_unlock_balance this_rq busiest k = Unlock (Rq busiest) k"

definition double_raw_lock :: "lock \<Rightarrow> lock \<Rightarrow> prog \<Rightarrow> prog" where
  "double_raw_lock l1 l2 k = (if l1 > l2 then Lock l2 (Lock l1 k) else Lock l1 (Lock l2 k))"

definition task_rq_unlock :: "nat \<Rightarrow> nat \<Rightarrow> prog \<Rightarrow> prog" where
  "task_rq_unlock rq p k = Unlock (Rq rq) (Unlock (Pi p) k)"

definition task_rq_unlock_pi :: "nat \<Rightarrow> prog \<Rightarrow> prog" where
  "task_rq_unlock_pi rq k = Unlock (Rq rq) k"

text \<open>
  One round of each loop: \<open>task_rq_lock\<close>, \<open>__task_rq_lock\<close> (whose caller holds \<open>pi_lock\<close>) and the loop of
  \<open>yield_to\<close>, where the choice is whether both queues have one task only.  The continuation gets the run
  queue that is locked.
\<close>

fun unfold_loop :: "loop \<Rightarrow> (nat \<Rightarrow> prog) \<Rightarrow> prog" where
  "unfold_loop (Task_rq_lock p) k =
     Lock (Pi p) (Load p (\<lambda>rq. Lock (Rq rq) (Check_at p rq (\<lambda>ok.
       if ok then k rq
       else Unlock (Rq rq) (Unlock (Pi p) (Await p (Loop (Task_rq_lock p) k)))))))"
| "unfold_loop (Task_rq_lock_pi p) k =
     Load p (\<lambda>rq. Lock (Rq rq) (Check_at p rq (\<lambda>ok.
       if ok then k rq
       else Unlock (Rq rq) (Await p (Loop (Task_rq_lock_pi p) k)))))"
| "unfold_loop (Yield_to p rq) k =
     Load p (\<lambda>p_rq. Choose (\<lambda>alone.
       if alone = 0 then k p_rq
       else double_rq_lock True rq p_rq (Load p (\<lambda>now.
         if now \<noteq> p_rq then double_rq_unlock rq p_rq (Loop (Yield_to p rq) k)
         else double_rq_unlock rq p_rq (k p_rq)))))"

section \<open>Paths through the scheduler\<close>

text \<open>\<open>__sched_setscheduler\<close> and its like: the run queue of a task, locked.\<close>

definition change_task :: "nat \<Rightarrow> prog \<Rightarrow> prog" where
  "change_task p k = Loop (Task_rq_lock p) (\<lambda>rq. Assert p rq (task_rq_unlock rq p k))"

definition yield_to_locks :: "nat \<Rightarrow> nat \<Rightarrow> prog \<Rightarrow> prog" where
  "yield_to_locks p rq k = Loop (Yield_to p rq) (\<lambda>_. k)"

text \<open>\<open>__schedule\<close>: a task that goes to sleep leaves its run queue.\<close>

definition schedule_locks :: "nat \<Rightarrow> nat \<Rightarrow> prog \<Rightarrow> prog" where
  "schedule_locks rq p k =
     Lock (Rq rq) (Check p rq (\<lambda>here. Choose (\<lambda>sleeps.
       if here \<and> sleeps = 1 then Dequeue p (Unlock (Rq rq) k) else Unlock (Rq rq) k)))"

definition move_queued_task_locks :: "nat \<Rightarrow> nat \<Rightarrow> nat \<Rightarrow> (nat \<Rightarrow> prog) \<Rightarrow> prog" where
  "move_queued_task_locks rq p new_rq k =
     Mark p (Move p new_rq (Unlock (Rq rq) (Lock (Rq new_rq) (Assert p new_rq (Unlock (Mig p) (k new_rq))))))"

definition migrate_task_locks :: "nat \<Rightarrow> nat \<Rightarrow> nat \<Rightarrow> (nat \<Rightarrow> prog) \<Rightarrow> prog" where
  "migrate_task_locks rq p dest k = Choose (\<lambda>allowed. if allowed = 0 then k rq else move_queued_task_locks rq p dest k)"

definition migration_cpu_stop_locks :: "nat \<Rightarrow> nat \<Rightarrow> nat \<Rightarrow> prog \<Rightarrow> prog" where
  "migration_cpu_stop_locks rq p dest k =
     (let out = (\<lambda>r. Unlock (Rq r) (Unlock (Pi p) k))
      in Lock (Pi p) (Lock (Rq rq) (Check p rq (\<lambda>here. if here then migrate_task_locks rq p dest out else out rq))))"

definition migrate_swap_task_locks :: "nat \<Rightarrow> nat \<Rightarrow> nat \<Rightarrow> prog \<Rightarrow> prog" where
  "migrate_swap_task_locks p src_rq dst_rq k =
     Check p src_rq (\<lambda>queued. if queued then Mark p (Move p dst_rq (Unlock (Mig p) k)) else k)"

definition migrate_swap_stop_locks :: "nat \<Rightarrow> nat \<Rightarrow> nat \<Rightarrow> nat \<Rightarrow> prog \<Rightarrow> prog" where
  "migrate_swap_stop_locks src_task dst_task src_rq dst_rq k =
     (let unlock = double_rq_unlock src_rq dst_rq (Unlock (Pi dst_task) (Unlock (Pi src_task) k))
      in Choose (\<lambda>active. if active = 0 then k
         else double_raw_lock (Pi src_task) (Pi dst_task) (double_rq_lock True src_rq dst_rq
           (Load dst_task (\<lambda>d. if d \<noteq> dst_rq then unlock
            else Load src_task (\<lambda>s. if s \<noteq> src_rq then unlock
            else Choose (\<lambda>allowed. if allowed = 0 then unlock
            else migrate_swap_task_locks src_task src_rq dst_rq (migrate_swap_task_locks dst_task dst_rq src_rq unlock))))))))"

text \<open>
  The wakeup of a task whose state matches.  When it is not queued, another run queue is chosen and the task
  put on it.
\<close>

definition ttwu_queue_locks :: "nat \<Rightarrow> nat \<Rightarrow> prog \<Rightarrow> prog" where
  "ttwu_queue_locks p rq k = Lock (Rq rq) (Enqueue p (Unlock (Rq rq) k))"

definition ttwu_place :: "nat \<Rightarrow> nat \<Rightarrow> prog \<Rightarrow> prog" where
  "ttwu_place p old k =
     Choose (\<lambda>rq. if rq \<noteq> old then Move p rq (ttwu_queue_locks p rq (Unlock (Pi p) k)) else ttwu_queue_locks p rq (Unlock (Pi p) k))"

definition try_to_wake_up_locks :: "nat \<Rightarrow> prog \<Rightarrow> prog" where
  "try_to_wake_up_locks p k =
     Lock (Pi p) (Choose (\<lambda>match. if match = 0 then Unlock (Pi p) k
     else On_rq p (\<lambda>r. case r of
       Some old \<Rightarrow> ttwu_place p old k
     | None \<Rightarrow> Loop (Task_rq_lock_pi p) (\<lambda>rq. Assert p rq (On_rq p (\<lambda>r2. case r2 of
           None \<Rightarrow> task_rq_unlock_pi rq (Unlock (Pi p) k)
         | Some old \<Rightarrow> task_rq_unlock_pi rq (ttwu_place p old k)))))))"

text \<open>
  \<open>find_lock_lowest_rq\<close>: the choices are the run queue with the lowest priority, whether its priority is low
  enough, whether the task may still be moved there, and whether the queue is still suitable.
\<close>

fun find_lock_lowest_rq_locks :: "bool \<Rightarrow> nat \<Rightarrow> nat \<Rightarrow> nat \<Rightarrow> (nat option \<Rightarrow> prog) \<Rightarrow> prog" where
  "find_lock_lowest_rq_locks preempt 0 p rq k = k None"
| "find_lock_lowest_rq_locks preempt (Suc tries) p rq k =
     (let suitable = (\<lambda>lowest. Choose (\<lambda>fits. if fits \<noteq> 0 then k (Some lowest)
            else double_unlock_balance rq lowest (find_lock_lowest_rq_locks preempt tries p rq k)))
      in Choose (\<lambda>lowest. if lowest = rq then k None
         else Choose (\<lambda>lower. if lower = 0 then k None
         else double_lock_balance preempt True rq lowest (\<lambda>released.
           if released then Check p rq (\<lambda>here. Choose (\<lambda>may.
             if \<not> here \<or> may = 0 then double_unlock_balance rq lowest (k None) else suitable lowest))
           else suitable lowest))))"

text \<open>The pushable tasks of a run queue are queued on it: a choice of another task finds none.\<close>

definition pick_pushable :: "nat \<Rightarrow> (nat option \<Rightarrow> prog) \<Rightarrow> prog" where
  "pick_pushable rq k = Choose (\<lambda>p. Check p rq (\<lambda>here. if here then Assert p rq (k (Some p)) else k None))"

fun push_retry :: "bool \<Rightarrow> nat \<Rightarrow> nat \<Rightarrow> nat \<Rightarrow> prog \<Rightarrow> prog" where
  "push_retry preempt 0 p rq k = k"
| "push_retry preempt (Suc n) p rq k =
     Choose (\<lambda>outranks. if outranks = 0 then k
     else find_lock_lowest_rq_locks preempt 3 p rq (\<lambda>lowest_rq. case lowest_rq of
         Some lowest \<Rightarrow> Move p lowest (double_unlock_balance rq lowest k)
       | None \<Rightarrow> pick_pushable rq (\<lambda>t. case t of
             None \<Rightarrow> k
           | Some q \<Rightarrow> if q = p then k else push_retry preempt n q rq k)))"

definition push_rt_task_locks :: "bool \<Rightarrow> nat \<Rightarrow> nat \<Rightarrow> prog \<Rightarrow> prog" where
  "push_rt_task_locks preempt n rq k =
     Lock (Rq rq) (pick_pushable rq (\<lambda>t. case t of
       None \<Rightarrow> Unlock (Rq rq) k | Some p \<Rightarrow> push_retry preempt n p rq (Unlock (Rq rq) k)))"

fun pull_loop :: "bool \<Rightarrow> nat \<Rightarrow> nat list \<Rightarrow> prog \<Rightarrow> prog" where
  "pull_loop preempt this_rq [] k = k"
| "pull_loop preempt this_rq (src # srcs) k =
     (if src = this_rq then pull_loop preempt this_rq srcs k
      else Choose (\<lambda>higher. if higher = 0 then pull_loop preempt this_rq srcs k
      else double_lock_balance preempt True this_rq src (\<lambda>_.
        pick_pushable src (\<lambda>t. Choose (\<lambda>preempts. case t of
          Some p \<Rightarrow> if preempts \<noteq> 0 then Move p this_rq (double_unlock_balance this_rq src (pull_loop preempt this_rq srcs k))
                    else double_unlock_balance this_rq src (pull_loop preempt this_rq srcs k)
        | None \<Rightarrow> double_unlock_balance this_rq src (pull_loop preempt this_rq srcs k))))))"

definition pull_rt_task_locks :: "bool \<Rightarrow> nat \<Rightarrow> nat list \<Rightarrow> prog \<Rightarrow> prog" where
  "pull_rt_task_locks preempt this_rq srcs k = Lock (Rq this_rq) (pull_loop preempt this_rq srcs (Unlock (Rq this_rq) k))"

datatype path =
    Change_task nat
  | Yield_task nat nat
  | Schedule nat nat
  | Migrate nat nat nat
  | Swap nat nat nat nat
  | Wake nat
  | Push nat nat
  | Pull nat "nat list"

text \<open>Two tasks on two run queues are swapped; \<open>migrate_swap\<close> refuses anything else.\<close>

fun path_ok :: "path \<Rightarrow> bool" where
  "path_ok (Swap p q src dst) \<longleftrightarrow> p \<noteq> q \<and> src \<noteq> dst"
| "path_ok _ \<longleftrightarrow> True"

fun path_prog :: "bool \<Rightarrow> path \<Rightarrow> prog \<Rightarrow> prog" where
  "path_prog preempt (Change_task p) k = change_task p k"
| "path_prog preempt (Yield_task p rq) k = yield_to_locks p rq k"
| "path_prog preempt (Schedule rq p) k = schedule_locks rq p k"
| "path_prog preempt (Migrate rq p dest) k = migration_cpu_stop_locks rq p dest k"
| "path_prog preempt (Swap p q src dst) k = migrate_swap_stop_locks p q src dst k"
| "path_prog preempt (Wake p) k = try_to_wake_up_locks p k"
| "path_prog preempt (Push n rq) k = push_rt_task_locks preempt n rq k"
| "path_prog preempt (Pull rq srcs) k = pull_rt_task_locks preempt rq srcs k"

definition thread :: "bool \<Rightarrow> path list \<Rightarrow> prog" where
  "thread preempt ps = foldr (path_prog preempt) ps Halt"

section \<open>Threads side by side\<close>

text \<open>What the threads still do and hold, and where the tasks are and whether they are queued.\<close>

record machine =
  m_threads :: nat
  m_prog :: "nat \<Rightarrow> prog"
  m_held :: "nat \<Rightarrow> lock set"
  m_at :: "nat \<Rightarrow> nat"
  m_queued :: "nat \<Rightarrow> bool"

definition free :: "machine \<Rightarrow> lock \<Rightarrow> bool" where
  "free m l \<longleftrightarrow> list_all (\<lambda>i. l \<notin> m_held m i) [0..<m_threads m]"

definition goto :: "nat \<Rightarrow> prog \<Rightarrow> machine \<Rightarrow> machine" where
  "goto i k m = m\<lparr>m_prog := (m_prog m)(i := k)\<rparr>"

definition hold :: "nat \<Rightarrow> lock set \<Rightarrow> machine \<Rightarrow> machine" where
  "hold i H m = m\<lparr>m_held := (m_held m)(i := H)\<rparr>"

text \<open>
  One step of thread \<open>i\<close>, with \<open>c\<close> for a choice; \<open>None\<close> when it has to wait or has ended.  A lock that is
  taken can only be waited for, a failed assertion ends in \<open>Bug\<close>.
\<close>

definition tstep :: "nat \<Rightarrow> nat \<Rightarrow> machine \<Rightarrow> machine option" where
  "tstep i c m = (case m_prog m i of
      Halt \<Rightarrow> None
    | Bug \<Rightarrow> None
    | Lock l k \<Rightarrow> if free m l then Some (goto i k (hold i (insert l (m_held m i)) m)) else None
    | Unlock l k \<Rightarrow> Some (goto i k (hold i (m_held m i - {l}) m))
    | Trylock l k \<Rightarrow> if free m l then Some (goto i (k True) (hold i (insert l (m_held m i)) m)) else Some (goto i (k False) m)
    | Await p k \<Rightarrow> if free m (Mig p) then Some (goto i k m) else None
    | Load p k \<Rightarrow> Some (goto i (k (m_at m p)) m)
    | Check p rq k \<Rightarrow> Some (goto i (k (m_at m p = rq \<and> m_queued m p \<and> free m (Mig p))) m)
    | Check_at p rq k \<Rightarrow> Some (goto i (k (m_at m p = rq \<and> free m (Mig p))) m)
    | On_rq p k \<Rightarrow> Some (goto i (k (if m_queued m p then None else Some (m_at m p))) m)
    | Move p rq k \<Rightarrow> Some (goto i k (m\<lparr>m_at := (m_at m)(p := rq)\<rparr>))
    | Mark p k \<Rightarrow> Some (goto i k (hold i (insert (Mig p) (m_held m i)) m))
    | Enqueue p k \<Rightarrow> Some (goto i k (m\<lparr>m_queued := (m_queued m)(p := True)\<rparr>))
    | Dequeue p k \<Rightarrow> Some (goto i k (m\<lparr>m_queued := (m_queued m)(p := False)\<rparr>))
    | Assert p rq k \<Rightarrow> Some (goto i (if m_at m p = rq then k else Bug) m)
    | Choose k \<Rightarrow> Some (goto i (k c) m)
    | Loop l k \<Rightarrow> Some (goto i (unfold_loop l k) m))"

inductive lock_reach :: "machine \<Rightarrow> machine \<Rightarrow> bool" for m0 where
  start: "lock_reach m0 m0"
| step: "lock_reach m0 m \<Longrightarrow> i < m_threads m \<Longrightarrow> tstep i c m = Some m' \<Longrightarrow> lock_reach m0 m'"

end
