(* ===== verification/Sched_Lock_Inv.thy ===== *)
theory Sched_Lock_Inv
  imports Sched_Lock
begin

text \<open>
  Why the locks work: a discipline that every path keeps - locks in their order, tasks moved only by a thread
  whose locks keep them in place - and what it gives for all interleavings.
\<close>

section \<open>The discipline\<close>

text \<open>
  What a thread may know about a task, and what keeps it true: the task is at a run queue (\<open>At\<close>: its
  \<open>pi_lock\<close> and the lock of the run queue), it is queued there (\<open>Queued\<close>: the lock of the run queue, or the
  migration mark), it is not queued and was last there (\<open>Asleep\<close>: its \<open>pi_lock\<close>).
\<close>

datatype kind = At | Queued | Asleep

type_synonym facts = "nat \<Rightarrow> (kind \<times> nat) option"

fun guarded :: "lock set \<Rightarrow> nat \<Rightarrow> kind \<Rightarrow> nat \<Rightarrow> bool" where
  "guarded H p At c \<longleftrightarrow> Pi p \<in> H \<and> Rq c \<in> H"
| "guarded H p Queued c \<longleftrightarrow> Rq c \<in> H \<or> Mig p \<in> H"
| "guarded H p Asleep c \<longleftrightarrow> Pi p \<in> H"

definition keep :: "lock set \<Rightarrow> facts \<Rightarrow> facts" where
  "keep H F p = (case F p of None \<Rightarrow> None | Some (k, c) \<Rightarrow> if guarded H p k c then Some (k, c) else None)"

text \<open>
  Locks are taken in their order, what is known is what the locks keep true, and only a thread that knows
  where a task is moves it.
\<close>

definition above :: "lock set \<Rightarrow> lock \<Rightarrow> bool" where
  "above H l \<longleftrightarrow> (\<forall>h \<in> H. h < l)"

primrec is_mig :: "lock \<Rightarrow> bool" where
  "is_mig (Pi a) = False" | "is_mig (Mig a) = True" | "is_mig (Rq a) = False"

primrec ok :: "prog \<Rightarrow> lock set \<Rightarrow> facts \<Rightarrow> bool" where
  "ok Halt H F \<longleftrightarrow> H = {}"
| "ok Bug H F \<longleftrightarrow> False"
| "ok (Lock l k) H F \<longleftrightarrow> above H l \<and> \<not> is_mig l \<and> ok k (insert l H) F"
| "ok (Unlock l k) H F \<longleftrightarrow> l \<in> H \<and> ok k (H - {l}) (keep (H - {l}) F)"
| "ok (Trylock l k) H F \<longleftrightarrow> \<not> is_mig l \<and> ok (k True) (insert l H) F \<and> ok (k False) H F"
| "ok (Await p k) H F \<longleftrightarrow> above H (Mig p) \<and> ok k H F"
| "ok (Load p k) H F \<longleftrightarrow> (\<forall>c. ok (k c) H F)"
| "ok (Check p rq k) H F \<longleftrightarrow> Rq rq \<in> H \<and> Mig p \<notin> H \<and> ok (k True) H (F(p \<mapsto> (Queued, rq))) \<and> ok (k False) H F"
| "ok (Check_at p rq k) H F \<longleftrightarrow> Pi p \<in> H \<and> Rq rq \<in> H \<and> Mig p \<notin> H \<and> ok (k True) H (F(p \<mapsto> (At, rq))) \<and> ok (k False) H F"
| "ok (On_rq p k) H F \<longleftrightarrow> Pi p \<in> H \<and> Mig p \<notin> H \<and> ok (k None) H F \<and> (\<forall>c. ok (k (Some c)) H (F(p \<mapsto> (Asleep, c))))"
| "ok (Move p rq k) H F \<longleftrightarrow>
     (\<exists>c. F p = Some (Queued, c) \<and> (Rq rq \<in> H \<or> Mig p \<in> H) \<and> ok k H (F(p \<mapsto> (Queued, rq)))
        \<or> F p = Some (Asleep, c) \<and> ok k H (F(p \<mapsto> (Asleep, rq))))"
| "ok (Mark p k) H F \<longleftrightarrow> Mig p \<notin> H \<and> (\<exists>c. F p = Some (Queued, c)) \<and> ok k (insert (Mig p) H) F"
| "ok (Enqueue p k) H F \<longleftrightarrow> (\<exists>c. F p = Some (Asleep, c) \<and> Rq c \<in> H \<and> ok k H (F(p \<mapsto> (Queued, c))))"
| "ok (Dequeue p k) H F \<longleftrightarrow> Mig p \<notin> H \<and> (\<exists>c. F p = Some (Queued, c)) \<and> ok k H (F(p := None))"
| "ok (Assert p rq k) H F \<longleftrightarrow> (\<exists>d. F p = Some (d, rq)) \<and> ok k H F"
| "ok (Choose k) H F \<longleftrightarrow> (\<forall>c. ok (k c) H F)"
| "ok (Loop l k) H F \<longleftrightarrow> (case l of
       Task_rq_lock p \<Rightarrow> H = {} \<and> (\<forall>rq. ok (k rq) {Pi p, Rq rq} [p \<mapsto> (At, rq)])
     | Task_rq_lock_pi p \<Rightarrow> H = {Pi p} \<and> (\<forall>rq. ok (k rq) {Pi p, Rq rq} [p \<mapsto> (At, rq)])
     | Yield_to p rq \<Rightarrow> H = {} \<and> (\<forall>c. ok (k c) {} (\<lambda>_. None)))"

lemma keep_none [simp]: "keep H (\<lambda>_. None) = (\<lambda>_. None)"
  by (simp add: keep_def fun_eq_iff)

lemma keep_upd [simp]: "keep H (F(p \<mapsto> (k, c))) = (if guarded H p k c then (keep H F)(p \<mapsto> (k, c)) else (keep H F)(p := None))"
  by (auto simp: keep_def fun_eq_iff)

lemma keep_forget [simp]: "keep H (F(p := None)) = (keep H F)(p := None)"
  by (auto simp: keep_def fun_eq_iff)

lemma above_simps [simp]: "above {} l" "above (insert h H) l \<longleftrightarrow> h < l \<and> above H l"
  by (auto simp: above_def)

text \<open>Knowing more does no harm.\<close>

lemma keep_mono: "F \<subseteq>\<^sub>m G \<Longrightarrow> keep H F \<subseteq>\<^sub>m keep H G"
  by (auto simp: map_le_def keep_def dom_def split: option.splits if_splits)

lemma map_le_upd: "F \<subseteq>\<^sub>m G \<Longrightarrow> F(p := x) \<subseteq>\<^sub>m G(p := x)"
  by (auto simp: map_le_def)

lemma map_le_some: "F \<subseteq>\<^sub>m G \<Longrightarrow> F p = Some x \<Longrightarrow> G p = Some x"
  by (force simp: map_le_def)

lemma ok_mono: "ok k H F \<Longrightarrow> F \<subseteq>\<^sub>m G \<Longrightarrow> ok k H G"
proof (induction k arbitrary: H F G)
  case (Unlock l k)
  then show ?case using keep_mono by auto
next
  case (Trylock l k)
  then show ?case by (simp, meson rangeI)
next
  case (Load p k)
  then show ?case by (simp, meson rangeI)
next
  case (Choose k)
  then show ?case by (simp, meson rangeI)
next
  case (Check p rq k)
  have "ok (k True) H (G(p \<mapsto> (Queued, rq)))"
  proof (rule Check.IH[OF rangeI _ map_le_upd[OF Check.prems(2)]])
    show "ok (k True) H (F(p \<mapsto> (Queued, rq)))" using Check.prems(1) by simp
  qed
  moreover have "ok (k False) H G"
  proof (rule Check.IH[OF rangeI _ Check.prems(2)])
    show "ok (k False) H F" using Check.prems(1) by simp
  qed
  ultimately show ?case using Check.prems(1) by simp
next
  case (Check_at p rq k)
  have "ok (k True) H (G(p \<mapsto> (At, rq)))"
  proof (rule Check_at.IH[OF rangeI _ map_le_upd[OF Check_at.prems(2)]])
    show "ok (k True) H (F(p \<mapsto> (At, rq)))" using Check_at.prems(1) by simp
  qed
  moreover have "ok (k False) H G"
  proof (rule Check_at.IH[OF rangeI _ Check_at.prems(2)])
    show "ok (k False) H F" using Check_at.prems(1) by simp
  qed
  ultimately show ?case using Check_at.prems(1) by simp
next
  case (On_rq p k)
  have "ok (k (Some c)) H (G(p \<mapsto> (Asleep, c)))" for c
  proof (rule On_rq.IH[OF rangeI _ map_le_upd[OF On_rq.prems(2)]])
    show "ok (k (Some c)) H (F(p \<mapsto> (Asleep, c)))" using On_rq.prems(1) by simp
  qed
  moreover have "ok (k None) H G"
  proof (rule On_rq.IH[OF rangeI _ On_rq.prems(2)])
    show "ok (k None) H F" using On_rq.prems(1) by simp
  qed
  ultimately show ?case using On_rq.prems(1) by simp
next
  case (Move p rq k)
  have "ok k H (F(p \<mapsto> x)) \<Longrightarrow> ok k H (G(p \<mapsto> x))" for x by (erule Move.IH[OF _ map_le_upd[OF Move.prems(2)]])
  then show ?case using map_le_some[OF Move.prems(2), of p] Move.prems(1) by auto
next
  case (Enqueue p k)
  have "ok k H (F(p \<mapsto> x)) \<Longrightarrow> ok k H (G(p \<mapsto> x))" for x by (erule Enqueue.IH[OF _ map_le_upd[OF Enqueue.prems(2)]])
  then show ?case using map_le_some[OF Enqueue.prems(2), of p] Enqueue.prems(1) by auto
next
  case (Mark p k)
  have "ok k (insert (Mig p) H) G" by (rule Mark.IH[OF _ Mark.prems(2)]) (use Mark.prems(1) in simp)
  then show ?case using map_le_some[OF Mark.prems(2), of p] Mark.prems(1) by auto
next
  case (Dequeue p k)
  have "ok k H (F(p := None))" using Dequeue.prems(1) by simp
  then have "ok k H (G(p := None))" by (rule Dequeue.IH[OF _ map_le_upd[OF Dequeue.prems(2)]])
  then show ?case using map_le_some[OF Dequeue.prems(2), of p] Dequeue.prems(1) by auto
next
  case (Assert p rq k)
  have "ok k H G" by (rule Assert.IH[OF _ Assert.prems(2)]) (use Assert.prems(1) in simp)
  then show ?case using map_le_some[OF Assert.prems(2), of p] Assert.prems(1) by auto
next
  case (Loop l k)
  then show ?case by (cases l) auto
qed (simp_all, blast+)

lemma ok_any: "ok k H (\<lambda>_. None) \<Longrightarrow> ok k H F"
  by (erule ok_mono) (simp add: map_le_def)

lemma ok_one: "ok k H [p \<mapsto> x] \<Longrightarrow> F p = Some x \<Longrightarrow> ok k H F"
  by (erule ok_mono) (simp add: map_le_def)

text \<open>A round of a loop keeps the discipline.\<close>

lemma unfold_ok: "ok (Loop l k) H F \<Longrightarrow> ok (unfold_loop l k) H F"
proof (induction l k rule: unfold_loop.induct)
  case (1 p k)
  then show ?case by (auto simp: insert_commute insert_Diff_if intro: ok_one)
next
  case (2 p k)
  then show ?case by (auto simp: insert_commute insert_Diff_if intro: ok_one)
next
  case (3 p rq k)
  then show ?case by (auto simp: double_rq_lock_def double_rq_unlock_def insert_Diff_if intro: ok_any)
qed

section \<open>The invariant\<close>

definition true_fact :: "machine \<Rightarrow> nat \<Rightarrow> nat \<Rightarrow> kind \<Rightarrow> nat \<Rightarrow> bool" where
  "true_fact m i p k c \<longleftrightarrow> m_at m p = c \<and> guarded (m_held m i) p k c
     \<and> (\<forall>j < m_threads m. j \<noteq> i \<longrightarrow> Mig p \<notin> m_held m j)
     \<and> (k = Queued \<longrightarrow> m_queued m p) \<and> (k = Asleep \<longrightarrow> \<not> m_queued m p)"

definition thread_ok :: "machine \<Rightarrow> facts \<Rightarrow> nat \<Rightarrow> bool" where
  "thread_ok m F i \<longleftrightarrow> ok (m_prog m i) (m_held m i) F \<and> (\<forall>p k c. F p = Some (k, c) \<longrightarrow> true_fact m i p k c)
     \<and> (\<forall>p. Mig p \<in> m_held m i \<longrightarrow> (\<exists>c. F p = Some (Queued, c)))"

definition lock_inv :: "machine \<Rightarrow> (nat \<Rightarrow> facts) \<Rightarrow> bool" where
  "lock_inv m F \<longleftrightarrow> (\<forall>i < m_threads m. thread_ok m (F i) i)
     \<and> (\<forall>i < m_threads m. \<forall>j < m_threads m. i \<noteq> j \<longrightarrow> m_held m i \<inter> m_held m j = {})"

lemma marked:
  assumes "thread_ok m F i" "Mig p \<in> m_held m i"
  shows "\<exists>c. F p = Some (Queued, c)"
  using assms unfolding thread_ok_def by blast

text \<open>Two threads never know something about the same task.\<close>

lemma exclusive:
  assumes inv: "lock_inv m F" and ij: "i < m_threads m" "j < m_threads m" "i \<noteq> j"
    and f: "F i p = Some (k, c)" "F j p = Some (k', c')"
  shows False
proof -
  have t: "true_fact m i p k c" "true_fact m j p k' c'" using inv ij f by (auto simp: lock_inv_def thread_ok_def)
  have d: "m_held m i \<inter> m_held m j = {}" using inv ij by (auto simp: lock_inv_def)
  have "c' = c" using t by (simp add: true_fact_def)
  then show False using t d ij by (cases k; cases k') (auto simp: true_fact_def)
qed

lemma inv_step:
  assumes inv: "lock_inv m F" and i: "i < m_threads m"
    and frame: "m_threads m' = m_threads m" "\<And>j. j \<noteq> i \<Longrightarrow> m_prog m' j = m_prog m j" "\<And>j. j \<noteq> i \<Longrightarrow> m_held m' j = m_held m j"
    and own: "thread_ok m' G i"
    and disjoint: "\<And>j. j < m_threads m \<Longrightarrow> j \<noteq> i \<Longrightarrow> m_held m' i \<inter> m_held m j = {}"
    and known: "\<And>p. m_at m' p \<noteq> m_at m p \<or> m_queued m' p \<noteq> m_queued m p \<or> Mig p \<in> m_held m' i \<and> Mig p \<notin> m_held m i \<Longrightarrow> F i p \<noteq> None"
  shows "lock_inv m' (F(i := G))"
proof -
  have other: "thread_ok m' (F j) j" if j: "j < m_threads m" "j \<noteq> i" for j
  proof -
    have tj: "thread_ok m (F j) j" using inv j by (simp add: lock_inv_def)
    have "true_fact m' j p k c" if f: "F j p = Some (k, c)" for p k c
    proof -
      have none: "F i p = None"
      proof (rule ccontr)
        assume "F i p \<noteq> None"
        then obtain k' c' where "F i p = Some (k', c')" by auto
        then show False using exclusive[OF inv i j(1) _ _ f] j(2) by auto
      qed
      have tf: "true_fact m j p k c" using tj f by (simp add: thread_ok_def)
      have "thread_ok m (F i) i" using inv i by (simp add: lock_inv_def)
      then have "Mig p \<notin> m_held m i" using marked[of m "F i" i p] none by auto
      then have "Mig p \<notin> m_held m' i" "m_at m' p = m_at m p" "m_queued m' p = m_queued m p" using known[of p] none by auto
      moreover have "Mig p \<notin> m_held m' l" if "l < m_threads m'" "l \<noteq> j" for l
        using tf that calculation(1) frame(1) frame(3)[of l] by (cases "l = i") (auto simp: true_fact_def)
      ultimately show ?thesis using tf frame(3)[OF j(2)] by (auto simp: true_fact_def)
    qed
    then show ?thesis using tj frame(2,3)[OF j(2)] by (simp add: thread_ok_def)
  qed
  have "m_held m' j \<inter> m_held m' l = {}" if "j < m_threads m" "l < m_threads m" "j \<noteq> l" for j l
    using inv that disjoint[of j] disjoint[of l] frame(3)[of j] frame(3)[of l] by (cases "j = i"; cases "l = i") (auto simp: lock_inv_def)
  then show ?thesis using own other frame(1) by (auto simp: lock_inv_def)
qed

lemma free_others: "free m l \<longleftrightarrow> (\<forall>j < m_threads m. l \<notin> m_held m j)"
  by (auto simp: free_def list_all_iff)

lemma goto_simps [simp]:
  "m_threads (goto i k m) = m_threads m" "m_prog (goto i k m) j = (if j = i then k else m_prog m j)"
  "m_held (goto i k m) = m_held m" "m_at (goto i k m) = m_at m" "m_queued (goto i k m) = m_queued m"
  "m_threads (hold i H m) = m_threads m" "m_prog (hold i H m) = m_prog m"
  "m_held (hold i H m) j = (if j = i then H else m_held m j)" "m_at (hold i H m) = m_at m" "m_queued (hold i H m) = m_queued m"
  by (simp_all add: goto_def hold_def)

lemma guarded_mono: "guarded H p k c \<Longrightarrow> H \<subseteq> H' \<Longrightarrow> guarded H' p k c"
  by (cases k) auto

text \<open>A thread that only goes on, or takes or gives back a lock.\<close>

lemma inv_go:
  assumes inv: "lock_inv m F" and i: "i < m_threads m" and k: "ok k (m_held m i) G"
    and G: "\<And>p d c. G p = Some (d, c) \<Longrightarrow> true_fact m i p d c" "\<And>p. Mig p \<in> m_held m i \<Longrightarrow> \<exists>c. G p = Some (Queued, c)"
  shows "lock_inv (goto i k m) (F(i := G))"
proof (rule inv_step[OF inv i])
  have "true_fact (goto i k m) i p d c" if "G p = Some (d, c)" for p d c using G(1)[OF that] by (simp add: true_fact_def)
  then show "thread_ok (goto i k m) G i" using k G(2) by (simp add: thread_ok_def)
qed (use inv i in \<open>auto simp: lock_inv_def\<close>)

lemma inv_take:
  assumes inv: "lock_inv m F" and i: "i < m_threads m" and fr: "free m l" "\<not> is_mig l" and k: "ok k (insert l (m_held m i)) (F i)"
  shows "lock_inv (goto i k (hold i (insert l (m_held m i)) m)) (F(i := F i))"
proof (rule inv_step[OF inv i])
  let ?m = "goto i k (hold i (insert l (m_held m i)) m)"
  have t: "thread_ok m (F i) i" using inv i by (simp add: lock_inv_def)
  have "true_fact ?m i p d c" if "F i p = Some (d, c)" for p d c
  proof -
    have "true_fact m i p d c" using t that by (simp add: thread_ok_def)
    then show ?thesis using guarded_mono[of "m_held m i" p d c "insert l (m_held m i)"] by (auto simp: true_fact_def)
  qed
  then show "thread_ok ?m (F i) i" using k t fr(2) by (auto simp: thread_ok_def)
qed (use inv i fr in \<open>auto simp: lock_inv_def free_others\<close>)

lemma inv_give:
  assumes inv: "lock_inv m F" and i: "i < m_threads m" and k: "ok k (m_held m i - {l}) (keep (m_held m i - {l}) (F i))"
  shows "lock_inv (goto i k (hold i (m_held m i - {l}) m)) (F(i := keep (m_held m i - {l}) (F i)))"
proof (rule inv_step[OF inv i])
  let ?H = "m_held m i - {l}"
  let ?m = "goto i k (hold i ?H m)"
  have t: "thread_ok m (F i) i" using inv i by (simp add: lock_inv_def)
  have "true_fact ?m i p d c" if "keep ?H (F i) p = Some (d, c)" for p d c
  proof -
    have "F i p = Some (d, c)" "guarded ?H p d c" using that by (auto simp: keep_def split: option.splits if_splits)
    then show ?thesis using t by (auto simp: true_fact_def thread_ok_def)
  qed
  moreover have "\<exists>c. keep ?H (F i) p = Some (Queued, c)" if h: "Mig p \<in> ?H" for p
  proof -
    have "\<exists>c. F i p = Some (Queued, c)" using h by (intro marked[OF t]) simp
    then show ?thesis using h by (auto simp: keep_def)
  qed
  ultimately show "thread_ok ?m (keep ?H (F i)) i" using k by (simp add: thread_ok_def)
qed (use inv i in \<open>auto simp: lock_inv_def\<close>)

text \<open>A thread that changes where a task is, or whether it is queued.\<close>

lemma inv_task:
  assumes inv: "lock_inv m F" and i: "i < m_threads m" and old: "F i p = Some old"
    and k: "ok k (m_held m i) ((F i)(p := new))" and m': "m' = goto i k (m\<lparr>m_at := (m_at m)(p := c), m_queued := (m_queued m)(p := q)\<rparr>)"
    and new: "\<And>d b. new = Some (d, b) \<Longrightarrow> b = c \<and> guarded (m_held m i) p d c \<and> (d = Queued \<longrightarrow> q) \<and> (d = Asleep \<longrightarrow> \<not> q)"
    and mig: "Mig p \<in> m_held m i \<Longrightarrow> \<exists>b. new = Some (Queued, b)"
  shows "lock_inv m' (F(i := (F i)(p := new)))"
proof (rule inv_step[OF inv i])
  have t: "thread_ok m (F i) i" using inv i by (simp add: lock_inv_def)
  have "true_fact m' i r d b" if "((F i)(p := new)) r = Some (d, b)" for r d b
  proof (cases "r = p")
    case True
    then have n: "new = Some (d, b)" using that by simp
    moreover obtain k' c' where "F i p = Some (k', c')" using old by (cases old) auto
    ultimately show ?thesis using t new[OF n] True by (auto simp: true_fact_def thread_ok_def m')
  next
    case False
    then show ?thesis using t that by (auto simp: true_fact_def thread_ok_def m')
  qed
  then show "thread_ok m' ((F i)(p := new)) i" using t k mig by (auto simp: thread_ok_def m')
qed (use inv i old in \<open>auto simp: lock_inv_def m' split: if_splits\<close>)

lemma known_fact: "lock_inv m F \<Longrightarrow> i < m_threads m \<Longrightarrow> F i p = Some (k, c) \<Longrightarrow> true_fact m i p k c"
  by (simp add: lock_inv_def thread_ok_def)

lemma thread_prog: "lock_inv m F \<Longrightarrow> i < m_threads m \<Longrightarrow> ok (m_prog m i) (m_held m i) (F i)"
  by (simp add: lock_inv_def thread_ok_def)

lemma thread_marked: "lock_inv m F \<Longrightarrow> i < m_threads m \<Longrightarrow> Mig p \<in> m_held m i \<Longrightarrow> \<exists>c. F i p = Some (Queued, c)"
  by (rule marked) (simp_all add: lock_inv_def)

lemma inv_goto:
  assumes "lock_inv m F" "i < m_threads m" "ok k (m_held m i) (F i)"
  shows "\<exists>F'. lock_inv (goto i k m) F'"
  using inv_go[OF assms] known_fact[OF assms(1,2)] thread_marked[OF assms(1,2)] by blast

lemma inv_learn:
  assumes inv: "lock_inv m F" and i: "i < m_threads m" and k: "ok k (m_held m i) ((F i)(p \<mapsto> (d, c)))"
    and f: "true_fact m i p d c" "Mig p \<notin> m_held m i"
  shows "\<exists>F'. lock_inv (goto i k m) F'"
proof -
  have "lock_inv (goto i k m) (F(i := (F i)(p \<mapsto> (d, c))))"
  proof (rule inv_go[OF inv i k])
    show "true_fact m i q d' c'" if "((F i)(p \<mapsto> (d, c))) q = Some (d', c')" for q d' c'
      using that f(1) known_fact[OF inv i] by (cases "q = p") auto
    show "\<exists>c'. ((F i)(p \<mapsto> (d, c))) q = Some (Queued, c')" if "Mig q \<in> m_held m i" for q
      using that f(2) thread_marked[OF inv i] by (cases "q = p") auto
  qed
  then show ?thesis by blast
qed

lemma inv_mark:
  assumes inv: "lock_inv m F" and i: "i < m_threads m" and f: "F i p = Some (Queued, c)" and k: "ok k (insert (Mig p) (m_held m i)) (F i)"
  shows "lock_inv (goto i k (hold i (insert (Mig p) (m_held m i)) m)) (F(i := F i))"
proof (rule inv_step[OF inv i])
  let ?m = "goto i k (hold i (insert (Mig p) (m_held m i)) m)"
  have "true_fact ?m i q d b" if "F i q = Some (d, b)" for q d b
    using known_fact[OF inv i that] guarded_mono[of "m_held m i" q d b "insert (Mig p) (m_held m i)"] by (auto simp: true_fact_def)
  then show "thread_ok ?m (F i) i" using k f thread_marked[OF inv i] by (auto simp: thread_ok_def)
  show "m_held ?m i \<inter> m_held m j = {}" if "j < m_threads m" "j \<noteq> i" for j
    using known_fact[OF inv i f] inv i that by (auto simp: true_fact_def lock_inv_def)
qed (use f in \<open>auto split: if_splits\<close>)

text \<open>Whoever sees a task that is not queued sees one that nobody migrates.\<close>

lemma asleep_unmarked:
  assumes "lock_inv m F" "\<not> m_queued m p" "j < m_threads m"
  shows "Mig p \<notin> m_held m j"
proof
  assume "Mig p \<in> m_held m j"
  then obtain c where "F j p = Some (Queued, c)" using thread_marked[OF assms(1,3)] by blast
  then show False using known_fact[OF assms(1,3)] assms(2) by (auto simp: true_fact_def)
qed

lemma step_inv:
  assumes inv: "lock_inv m F" and i: "i < m_threads m" and st: "tstep i c m = Some m'"
  shows "\<exists>F'. lock_inv m' F'"
proof -
  note go = inv_goto[OF inv i] and learn = inv_learn[OF inv i] and fact = known_fact[OF inv i]
  have okp: "ok (m_prog m i) (m_held m i) (F i)" using thread_prog[OF inv i] .
  show ?thesis
  proof (cases "m_prog m i")
    case (Lock l k)
    then show ?thesis using st okp inv_take[OF inv i, of l k] by (auto simp: tstep_def split: if_splits)
  next
    case (Unlock l k)
    then show ?thesis using st okp inv_give[OF inv i, of k l] by (auto simp: tstep_def)
  next
    case (Trylock l k)
    then show ?thesis using st okp inv_take[OF inv i, of l "k True"] go[of "k False"] by (auto simp: tstep_def split: if_splits)
  next
    case (Check p rq k)
    define b where "b = (m_at m p = rq \<and> m_queued m p \<and> free m (Mig p))"
    have m': "m' = goto i (k b) m" using st Check by (simp add: tstep_def b_def)
    show ?thesis
    proof (cases b)
      case True
      then show ?thesis using learn[of "k True" p Queued rq] okp Check by (simp add: m' b_def true_fact_def free_others)
    next
      case False
      then show ?thesis using go[of "k False"] okp Check by (simp add: m')
    qed
  next
    case (Check_at p rq k)
    define b where "b = (m_at m p = rq \<and> free m (Mig p))"
    have m': "m' = goto i (k b) m" using st Check_at by (simp add: tstep_def b_def)
    show ?thesis
    proof (cases b)
      case True
      then show ?thesis using learn[of "k True" p At rq] okp Check_at by (simp add: m' b_def true_fact_def free_others)
    next
      case False
      then show ?thesis using go[of "k False"] okp Check_at by (simp add: m')
    qed
  next
    case (On_rq p k)
    then show ?thesis using st okp go[of "k None"] learn[of "k (Some (m_at m p))" p Asleep "m_at m p"] asleep_unmarked[OF inv, of p]
      by (cases "m_queued m p") (auto simp: tstep_def true_fact_def)
  next
    case (Move p rq k)
    then have m': "m' = goto i k (m\<lparr>m_at := (m_at m)(p := rq), m_queued := (m_queued m)(p := m_queued m p)\<rparr>)"
      using st by (simp add: tstep_def)
    obtain b where "F i p = Some (Queued, b) \<and> (Rq rq \<in> m_held m i \<or> Mig p \<in> m_held m i) \<and> ok k (m_held m i) ((F i)(p \<mapsto> (Queued, rq)))
      \<or> F i p = Some (Asleep, b) \<and> ok k (m_held m i) ((F i)(p \<mapsto> (Asleep, rq)))" using okp Move by auto
    then show ?thesis
    proof
      assume a: "F i p = Some (Queued, b) \<and> (Rq rq \<in> m_held m i \<or> Mig p \<in> m_held m i) \<and> ok k (m_held m i) ((F i)(p \<mapsto> (Queued, rq)))"
      then show ?thesis using inv_task[OF inv i _ _ m', of "(Queued, b)" "Some (Queued, rq)"] fact[of p Queued b] by (auto simp: true_fact_def)
    next
      assume a: "F i p = Some (Asleep, b) \<and> ok k (m_held m i) ((F i)(p \<mapsto> (Asleep, rq)))"
      then have "Mig p \<notin> m_held m i" using thread_marked[OF inv i, of p] by auto
      then show ?thesis using a inv_task[OF inv i _ _ m', of "(Asleep, b)" "Some (Asleep, rq)"] fact[of p Asleep b] by (auto simp: true_fact_def)
    qed
  next
    case (Mark p k)
    then show ?thesis using st okp inv_mark[OF inv i, of p _ k] by (auto simp: tstep_def)
  next
    case (Enqueue p k)
    then have m': "m' = goto i k (m\<lparr>m_at := (m_at m)(p := m_at m p), m_queued := (m_queued m)(p := True)\<rparr>)"
      using st by (simp add: tstep_def)
    obtain b where b: "F i p = Some (Asleep, b)" "Rq b \<in> m_held m i" "ok k (m_held m i) ((F i)(p \<mapsto> (Queued, b)))" using okp Enqueue by auto
    then show ?thesis using inv_task[OF inv i _ _ m', of "(Asleep, b)" "Some (Queued, b)"] fact[of p Asleep b] by (auto simp: true_fact_def)
  next
    case (Dequeue p k)
    then have m': "m' = goto i k (m\<lparr>m_at := (m_at m)(p := m_at m p), m_queued := (m_queued m)(p := False)\<rparr>)"
      using st by (simp add: tstep_def)
    obtain b where "F i p = Some (Queued, b)" "ok k (m_held m i) ((F i)(p := None))" "Mig p \<notin> m_held m i" using okp Dequeue by auto
    then show ?thesis using inv_task[OF inv i _ _ m', of "(Queued, b)" None] by auto
  next
    case (Assert p rq k)
    then obtain d where "F i p = Some (d, rq)" "ok k (m_held m i) (F i)" using okp by auto
    then show ?thesis using fact[of p d rq] go[of k] st Assert by (auto simp: tstep_def true_fact_def)
  next
    case (Loop l k)
    then show ?thesis using go[of "unfold_loop l k"] unfold_ok[of l k] okp st by (simp add: tstep_def del: ok.simps)
  qed (use st okp go in \<open>auto simp: tstep_def split: if_splits\<close>)
qed

section \<open>Some thread can always go on\<close>

definition wants :: "machine \<Rightarrow> nat \<Rightarrow> lock" where
  "wants m i = (case m_prog m i of Lock l k \<Rightarrow> l | Await p k \<Rightarrow> Mig p | _ \<Rightarrow> Pi 0)"

lemma stuck_wants:
  assumes "lock_inv m F" "i < m_threads m" "m_prog m i \<noteq> Halt" "tstep i c m = None"
  shows "above (m_held m i) (wants m i) \<and> \<not> free m (wants m i)"
  using thread_prog[OF assms(1,2)] assms(3,4) by (cases "m_prog m i") (auto simp: tstep_def wants_def split: if_splits)

lemma progress:
  assumes inv: "lock_inv m F" and i: "i < m_threads m" "m_prog m i \<noteq> Halt"
  shows "\<exists>j < m_threads m. tstep j c m \<noteq> None"
proof (rule ccontr)
  assume "\<not> ?thesis"
  then have stuck: "tstep j c m = None" if "j < m_threads m" for j using that by blast
  let ?B = "{j. j < m_threads m \<and> m_prog m j \<noteq> Halt}"
  let ?W = "wants m ` ?B"
  have "finite ?W" "?W \<noteq> {}" using i by auto
  then obtain j where j: "j \<in> ?B" "Max ?W = wants m j" using Max_in[of ?W] by (auto simp del: Max_in)
  have "\<not> free m (wants m j)" using stuck_wants[OF inv _ _ stuck] j by blast
  then obtain l where l: "l < m_threads m" "wants m j \<in> m_held m l" by (auto simp: free_others)
  have "m_prog m l \<noteq> Halt" using thread_prog[OF inv l(1)] l(2) by auto
  then have "above (m_held m l) (wants m l)" using stuck_wants[OF inv l(1) _ stuck[OF l(1)]] by blast
  then have "wants m j < wants m l" using l(2) by (simp add: above_def)
  moreover have "wants m l \<le> Max ?W" using \<open>finite ?W\<close> l(1) \<open>m_prog m l \<noteq> Halt\<close> by (intro Max_ge) auto
  ultimately show False using j(2) by simp
qed

section \<open>The paths keep the discipline\<close>

lemma keep_empty [simp]: "keep {} F = (\<lambda>_. None)"
proof
  fix p
  have "\<not> guarded {} p k c" for k c by (cases k) simp_all
  then show "keep {} F p = None" by (auto simp: keep_def split: option.splits)
qed

lemma double_lock_balance_ok:
  assumes "busiest \<noteq> this_rq" "ok (k True) {Rq this_rq, Rq busiest} (\<lambda>_. None)" "ok (k False) {Rq this_rq, Rq busiest} F"
  shows "ok (double_lock_balance preempt True this_rq busiest k) {Rq this_rq} F"
  using assms by (auto simp: double_lock_balance_def fair_double_lock_balance_def unfair_double_lock_balance_def double_rq_lock_def insert_commute)

lemma change_task_ok: "ok k {} (\<lambda>_. None) \<Longrightarrow> ok (change_task p k) {} F"
  by (simp add: change_task_def task_rq_unlock_def insert_Diff_if)

lemma yield_to_ok: "ok k {} (\<lambda>_. None) \<Longrightarrow> ok (yield_to_locks p rq k) {} F"
  by (simp add: yield_to_locks_def)

lemma schedule_ok: "ok k {} (\<lambda>_. None) \<Longrightarrow> ok (schedule_locks rq p k) {} F"
  by (simp add: schedule_locks_def insert_Diff_if)

lemma migration_ok: "ok k {} (\<lambda>_. None) \<Longrightarrow> ok (migration_cpu_stop_locks rq p dest k) {} F"
  by (auto simp: migration_cpu_stop_locks_def migrate_task_locks_def move_queued_task_locks_def Let_def insert_Diff_if insert_commute)

lemma swap_task_ok:
  assumes "Rq src \<in> H" "Rq dst \<in> H" "Mig p \<notin> H" "ok k H (\<lambda>_. None)"
  shows "ok (migrate_swap_task_locks p src dst k) H F"
  using assms by (auto simp: migrate_swap_task_locks_def intro: ok_any)

lemma swap_ok:
  assumes "ok k {} (\<lambda>_. None)" "p \<noteq> q" "src \<noteq> dst"
  shows "ok (migrate_swap_stop_locks p q src dst k) {} (\<lambda>_. None)"
proof -
  let ?H = "{Pi p, Pi q, Rq src, Rq dst}"
  have u: "ok (double_rq_unlock src dst (Unlock (Pi q) (Unlock (Pi p) k))) ?H F" for F
    using assms by (auto simp: double_rq_unlock_def insert_Diff_if intro: ok_any)
  have "ok (migrate_swap_task_locks p src dst (migrate_swap_task_locks q dst src (double_rq_unlock src dst (Unlock (Pi q) (Unlock (Pi p) k))))) ?H F" for F
    by (intro swap_task_ok u) simp_all
  then show ?thesis using assms u
    by (auto simp: migrate_swap_stop_locks_def Let_def double_raw_lock_def double_rq_lock_def insert_commute intro: ok_any)
qed

lemma place_ok:
  assumes "ok k {} (\<lambda>_. None)" "F p = Some (Asleep, old)"
  shows "ok (ttwu_place p old k) {Pi p} F"
  using assms by (auto simp: ttwu_place_def ttwu_queue_locks_def insert_Diff_if intro: ok_any)

lemma wake_ok: "ok k {} (\<lambda>_. None) \<Longrightarrow> ok (try_to_wake_up_locks p k) {} F"
  using place_ok[of k] by (auto simp: try_to_wake_up_locks_def task_rq_unlock_pi_def insert_Diff_if intro: ok_any split: option.split)

lemma pick_ok:
  assumes "Rq rq \<in> H" "\<And>p. Mig p \<notin> H" "ok (k None) H F" "\<And>p. ok (k (Some p)) H (F(p \<mapsto> (Queued, rq)))"
  shows "ok (pick_pushable rq k) H F"
  using assms by (simp add: pick_pushable_def)

lemma find_lock_ok:
  assumes "ok (k None) {Rq rq} (\<lambda>_. None)" "\<And>low. low \<noteq> rq \<Longrightarrow> ok (k (Some low)) {Rq rq, Rq low} [p \<mapsto> (Queued, rq)]"
    "F p = Some (Queued, rq)"
  shows "ok (find_lock_lowest_rq_locks preempt n p rq k) {Rq rq} F"
  using assms(3)
proof (induction n arbitrary: F)
  case 0
  then show ?case using assms(1) by (simp add: ok_any)
next
  case (Suc n)
  have fits: "ok (Choose (\<lambda>fits. if fits \<noteq> 0 then k (Some low) else double_unlock_balance rq low (find_lock_lowest_rq_locks preempt n p rq k)))
      {Rq rq, Rq low} G" if "G p = Some (Queued, rq)" "low \<noteq> rq" for G low
  proof -
    have "ok (k (Some low)) {Rq rq, Rq low} G" using assms(2)[OF that(2)] that(1) by (rule ok_one)
    moreover have "ok (find_lock_lowest_rq_locks preempt n p rq k) {Rq rq} (keep {Rq rq} G)"
      using that(1) by (intro Suc.IH) (simp add: keep_def)
    ultimately show ?thesis using that(2) by (simp add: double_unlock_balance_def insert_Diff_if)
  qed
  have none: "ok (double_unlock_balance rq low (k None)) {Rq rq, Rq low} G" if "low \<noteq> rq" for G low
    using assms(1) that by (simp add: double_unlock_balance_def insert_Diff_if ok_any)
  let ?S = "\<lambda>low. Choose (\<lambda>fits. if fits \<noteq> 0 then k (Some low) else double_unlock_balance rq low (find_lock_lowest_rq_locks preempt n p rq k))"
  let ?B = "\<lambda>low. double_lock_balance preempt True rq low (\<lambda>released. if released then Check p rq (\<lambda>here. Choose (\<lambda>may.
     if \<not> here \<or> may = 0 then double_unlock_balance rq low (k None) else ?S low)) else ?S low)"
  have bal: "ok (?B low) {Rq rq} F" if low: "low \<noteq> rq" for low
  proof (rule double_lock_balance_ok[OF low])
    have "ok (Choose (\<lambda>may. if \<not> True \<or> may = 0 then double_unlock_balance rq low (k None) else ?S low)) {Rq rq, Rq low} [p \<mapsto> (Queued, rq)]"
      using none[OF low] fits[of "[p \<mapsto> (Queued, rq)]" low] low by simp
    moreover have "ok (Choose (\<lambda>may. if \<not> False \<or> may = 0 then double_unlock_balance rq low (k None) else ?S low)) {Rq rq, Rq low} (\<lambda>_. None)"
      using none[OF low] by simp
    ultimately show "ok (if True then Check p rq (\<lambda>here. Choose (\<lambda>may. if \<not> here \<or> may = 0 then double_unlock_balance rq low (k None) else ?S low))
        else ?S low) {Rq rq, Rq low} (\<lambda>_. None)" by simp
    show "ok (if False then Check p rq (\<lambda>here. Choose (\<lambda>may. if \<not> here \<or> may = 0 then double_unlock_balance rq low (k None) else ?S low))
        else ?S low) {Rq rq, Rq low} F" using fits[of F low] Suc.prems low by simp
  qed
  have "ok (if low = rq then k None else Choose (\<lambda>lower. if lower = 0 then k None else ?B low)) {Rq rq} F" for low
    using bal[of low] ok_any[OF assms(1)] by (cases "low = rq") simp_all
  then show ?case unfolding find_lock_lowest_rq_locks.simps(2) Let_def ok.simps(16) by blast
qed

lemma push_retry_ok:
  assumes "ok k {Rq rq} (\<lambda>_. None)" "F p = Some (Queued, rq)"
  shows "ok (push_retry preempt n p rq k) {Rq rq} F"
  using assms(2)
proof (induction n arbitrary: p F)
  case 0
  then show ?case using assms(1) by (simp add: ok_any)
next
  case (Suc n)
  have "ok (find_lock_lowest_rq_locks preempt 3 p rq (\<lambda>lowest_rq. case lowest_rq of
         Some lowest \<Rightarrow> Move p lowest (double_unlock_balance rq lowest k)
       | None \<Rightarrow> pick_pushable rq (\<lambda>t. case t of None \<Rightarrow> k | Some q \<Rightarrow> if q = p then k else push_retry preempt n q rq k))) {Rq rq} F"
  proof (rule find_lock_ok[where F = F, OF _ _ Suc.prems])
    show "ok (case None of Some lowest \<Rightarrow> Move p lowest (double_unlock_balance rq lowest k)
       | None \<Rightarrow> pick_pushable rq (\<lambda>t. case t of None \<Rightarrow> k | Some q \<Rightarrow> if q = p then k else push_retry preempt n q rq k)) {Rq rq} (\<lambda>_. None)"
      using assms(1) Suc.IH by (auto intro!: pick_ok simp: ok_any)
    show "ok (case Some low of Some lowest \<Rightarrow> Move p lowest (double_unlock_balance rq lowest k)
       | None \<Rightarrow> pick_pushable rq (\<lambda>t. case t of None \<Rightarrow> k | Some q \<Rightarrow> if q = p then k else push_retry preempt n q rq k))
       {Rq rq, Rq low} [p \<mapsto> (Queued, rq)]" if "low \<noteq> rq" for low
      using assms(1) that by (simp add: double_unlock_balance_def insert_Diff_if ok_any)
  qed
  then show ?case using assms(1) by (simp add: ok_any)
qed

lemma push_ok: "ok k {} (\<lambda>_. None) \<Longrightarrow> ok (push_rt_task_locks preempt n rq k) {} F"
  by (auto simp: push_rt_task_locks_def intro!: pick_ok push_retry_ok)

lemma pull_loop_ok:
  assumes "ok k {Rq this_rq} (\<lambda>_. None)"
  shows "ok (pull_loop preempt this_rq srcs k) {Rq this_rq} F"
proof (induction srcs arbitrary: F)
  case Nil
  then show ?case using assms by (simp add: ok_any)
next
  case (Cons src srcs)
  have "ok (pick_pushable src (\<lambda>t. Choose (\<lambda>preempts. case t of
          Some p \<Rightarrow> if preempts \<noteq> 0 then Move p this_rq (double_unlock_balance this_rq src (pull_loop preempt this_rq srcs k))
                    else double_unlock_balance this_rq src (pull_loop preempt this_rq srcs k)
        | None \<Rightarrow> double_unlock_balance this_rq src (pull_loop preempt this_rq srcs k)))) {Rq this_rq, Rq src} G" if "src \<noteq> this_rq" for G
    using that Cons.IH by (intro pick_ok) (simp_all add: double_unlock_balance_def insert_Diff_if)
  then show ?case using Cons.IH by (auto intro!: double_lock_balance_ok)
qed

lemma pull_ok: "ok k {} (\<lambda>_. None) \<Longrightarrow> ok (pull_rt_task_locks preempt rq srcs k) {} F"
  by (simp add: pull_rt_task_locks_def pull_loop_ok)

lemmas paths_ok = change_task_ok yield_to_ok schedule_ok migration_ok swap_ok wake_ok push_ok pull_ok

lemma path_ok_prog: "ok k {} (\<lambda>_. None) \<Longrightarrow> path_ok pt \<Longrightarrow> ok (path_prog preempt pt k) {} (\<lambda>_. None)"
  by (cases pt) (simp_all add: paths_ok del: ok.simps)

lemma thread_disciplined: "list_all path_ok ps \<Longrightarrow> ok (thread preempt ps) {} (\<lambda>_. None)"
  by (induction ps) (simp_all add: thread_def path_ok_prog)

definition lock_start :: "bool \<Rightarrow> (nat \<Rightarrow> path list) \<Rightarrow> machine \<Rightarrow> bool" where
  "lock_start preempt ps m \<longleftrightarrow> list_all (\<lambda>i. list_all path_ok (ps i)) [0..<m_threads m]
     \<and> m_prog m = (\<lambda>i. thread preempt (ps i)) \<and> m_held m = (\<lambda>_. {})"

lemma lock_reach_inv:
  assumes "lock_start preempt ps m0" "lock_reach m0 m"
  shows "\<exists>F. lock_inv m F"
  using assms(2)
proof induction
  case start
  have "lock_inv m0 (\<lambda>_ _. None)"
    using assms(1) by (simp add: lock_inv_def thread_ok_def lock_start_def list_all_iff thread_disciplined)
  then show ?case by blast
next
  case (step m i c m')
  then show ?case using step_inv by blast
qed

text \<open>
  C7: however the paths through the scheduler interleave on any number of CPUs - policy changes, \<open>yield_to\<close>,
  \<open>__schedule\<close>, migrations, swaps, wakeups, pushes and pulls, with either version of \<open>double_lock_balance\<close> -
  no lock is held twice, a thread that has ended holds none, and as long as one thread has not ended some
  thread can go on: there is no deadlock.
\<close>

theorem sched_locks_deadlock_free:
  assumes "lock_start preempt ps m0" "lock_reach m0 m"
  shows "(\<forall>i < m_threads m. \<forall>j < m_threads m. i \<noteq> j \<longrightarrow> m_held m i \<inter> m_held m j = {})
    \<and> (\<forall>i < m_threads m. m_prog m i = Halt \<longrightarrow> m_held m i = {})
    \<and> ((\<exists>i < m_threads m. m_prog m i \<noteq> Halt) \<longrightarrow> (\<exists>j < m_threads m. tstep j c m \<noteq> None))"
proof -
  obtain F where inv: "lock_inv m F" using lock_reach_inv[OF assms] by blast
  have "m_held m i = {}" if "i < m_threads m" "m_prog m i = Halt" for i using thread_prog[OF inv that(1)] that(2) by simp
  then show ?thesis using inv progress[OF inv] by (auto simp: lock_inv_def)
qed

text \<open>
  C8: in every interleaving a thread that changes the CPU of a task holds the lock of the run queue the task is
  on, or has marked it as migrating, or the task is not queued and the thread holds its \<open>pi_lock\<close>; the run
  queue that \<open>task_rq_lock\<close> or \<open>__task_rq_lock\<close> has locked is the task's, and no \<open>BUG_ON\<close> is hit.
\<close>

theorem tasks_move_under_lock:
  assumes "lock_start preempt ps m0" "lock_reach m0 m" "i < m_threads m"
  shows "m_prog m i \<noteq> Bug
    \<and> (\<forall>p rq k. m_prog m i = Move p rq k \<longrightarrow>
         Rq (m_at m p) \<in> m_held m i \<or> Mig p \<in> m_held m i \<or> \<not> m_queued m p \<and> Pi p \<in> m_held m i)
    \<and> (\<forall>p rq k. m_prog m i = Assert p rq k \<longrightarrow> m_at m p = rq)"
proof -
  obtain F where inv: "lock_inv m F" using lock_reach_inv[OF assms(1,2)] by blast
  note okp = thread_prog[OF inv assms(3)] and fact = known_fact[OF inv assms(3)]
  have "Rq (m_at m p) \<in> m_held m i \<or> Mig p \<in> m_held m i \<or> \<not> m_queued m p \<and> Pi p \<in> m_held m i" if mv: "m_prog m i = Move p rq k" for p rq k
  proof -
    obtain c where "F i p = Some (Queued, c) \<or> F i p = Some (Asleep, c)" using okp mv by auto
    then show ?thesis using fact[of p Queued c] fact[of p Asleep c] by (auto simp: true_fact_def)
  qed
  moreover have "m_at m p = rq" if "m_prog m i = Assert p rq k" for p rq k
    using okp that fact[of p _ rq] by (auto simp: true_fact_def)
  ultimately show ?thesis using okp by auto
qed

definition lock_demo :: machine where
  "lock_demo = \<lparr>m_threads = 2, m_prog = (\<lambda>i. thread False (if i = 0 then [Migrate 0 7 1] else [Change_task 7])), m_held = (\<lambda>_. {}),
     m_at = (\<lambda>_. 0), m_queued = (\<lambda>_. True)\<rparr>"

text \<open>One thread has taken the task's lock and the run queue's, the other has to wait for the first.\<close>

fun steps :: "(nat \<times> nat) list \<Rightarrow> machine \<Rightarrow> machine option" where
  "steps [] m = Some m"
| "steps ((i, c) # is) m = (if i < m_threads m then (case tstep i c m of None \<Rightarrow> None | Some m1 \<Rightarrow> steps is m1) else None)"

lemma steps_reach: "lock_reach m0 m \<Longrightarrow> steps is m = Some m' \<Longrightarrow> lock_reach m0 m'"
  by (induction "is" m rule: steps.induct) (auto intro: lock_reach.step split: if_splits option.splits)

lemma lock_demo_start: "lock_start False (\<lambda>i. if i = 0 then [Migrate 0 7 1] else [Change_task 7]) lock_demo"
  by (simp add: lock_start_def lock_demo_def fun_eq_iff list_all_iff)

lemma lock_demo_steps:
  "\<exists>m. steps [(0, 0), (0, 0), (0, 0), (0, 1), (0, 0)] lock_demo = Some m \<and> (\<exists>k. m_prog m 0 = Move 7 1 k) \<and> m_held m 0 = {Pi 7, Rq 0, Mig 7}
     \<and> m_threads m = 2 \<and> tstep 1 0 m \<noteq> None"
  by (simp add: lock_demo_def thread_def migration_cpu_stop_locks_def migrate_task_locks_def move_queued_task_locks_def Let_def tstep_def free_def
      goto_def hold_def change_task_def upt_rec) auto

theorem sched_locks_deadlock_free_witness:
  "\<exists>m. steps [(0, 0), (0, 0), (0, 0), (0, 1), (0, 0)] lock_demo = Some m \<and> m_held m 0 \<inter> m_held m 1 = {} \<and> m_held m 0 = {Pi 7, Rq 0, Mig 7}
    \<and> (\<exists>j < 2. tstep j 0 m \<noteq> None)"
proof -
  obtain m k where m: "steps [(0, 0), (0, 0), (0, 0), (0, 1), (0, 0)] lock_demo = Some m" "m_prog m 0 = Move 7 1 k" "m_held m 0 = {Pi 7, Rq 0, Mig 7}"
    "m_threads m = 2" using lock_demo_steps by blast
  have r: "lock_reach lock_demo m" using lock_reach.start m(1) by (rule steps_reach)
  have "(\<forall>i < 2. \<forall>j < 2. i \<noteq> j \<longrightarrow> m_held m i \<inter> m_held m j = {}) \<and> (\<exists>j < 2. tstep j 0 m \<noteq> None)"
  proof -
    have "\<exists>i < m_threads m. m_prog m i \<noteq> Halt" using m(2,4) by (intro exI[of _ 0]) simp
    then have "\<exists>j < m_threads m. tstep j 0 m \<noteq> None"
      by (rule mp[OF conjunct2[OF conjunct2[OF sched_locks_deadlock_free[OF lock_demo_start r]]]])
    then show ?thesis using conjunct1[OF sched_locks_deadlock_free[OF lock_demo_start r]] unfolding m(4) by (rule conjI[rotated])
  qed
  then have "m_held m 0 \<inter> m_held m 1 = {}" "\<exists>j < 2. tstep j 0 m \<noteq> None" by simp_all
  with m(1,3) show ?thesis by (intro exI[of _ m] conjI)
qed

theorem tasks_move_under_lock_witness:
  "\<exists>m k. steps [(0, 0), (0, 0), (0, 0), (0, 1), (0, 0)] lock_demo = Some m \<and> m_prog m 0 = Move 7 1 k
     \<and> (Rq (m_at m 7) \<in> m_held m 0 \<or> Mig 7 \<in> m_held m 0 \<or> \<not> m_queued m 7 \<and> Pi 7 \<in> m_held m 0)"
proof -
  obtain m k where m: "steps [(0, 0), (0, 0), (0, 0), (0, 1), (0, 0)] lock_demo = Some m" "m_prog m 0 = Move 7 1 k"
    "m_threads m = 2" using lock_demo_steps by blast
  have r: "lock_reach lock_demo m" using lock_reach.start m(1) by (rule steps_reach)
  have "0 < m_threads m" using m(3) by simp
  from conjunct1[OF conjunct2[OF tasks_move_under_lock[OF lock_demo_start r this]]] m(2)
  have "Rq (m_at m 7) \<in> m_held m 0 \<or> Mig 7 \<in> m_held m 0 \<or> \<not> m_queued m 7 \<and> Pi 7 \<in> m_held m 0" by simp
  then show ?thesis using m(1,2) by (intro exI conjI)
qed

end
