(* ===== verification/Sched_Attr.thy ===== *)
theory Sched_Attr
  imports Sched_Params
begin

text \<open>
  The system calls that exchange structures with the user (\<open>kernel/sched/core.c\<close>): \<open>sched_setattr\<close> and
  \<open>sched_getattr\<close>, whose structure may be longer or shorter than the kernel's, and the calls on masks of CPUs.
\<close>

section \<open>Memory of the user\<close>

text \<open>Numbers as bytes, the lowest first.\<close>

primrec le_bytes :: "nat \<Rightarrow> nat \<Rightarrow> u8 list" where
  "le_bytes 0 v = []"
| "le_bytes (Suc n) v = of_nat v # le_bytes n (v div 256)"

primrec le_nat :: "u8 list \<Rightarrow> nat" where
  "le_nat [] = 0"
| "le_nat (b # bs) = unat b + 256 * le_nat bs"

text \<open>
  The bytes that can be read and written from a pointer of the user on.  A copy that runs past them stops
  there and faults.
\<close>

definition copy_from_user :: "u8 list \<Rightarrow> nat \<Rightarrow> u8 list option" where
  "copy_from_user mem n = (if n \<le> length mem then Some (take n mem) else None)"

definition copy_to_user :: "u8 list \<Rightarrow> u8 list \<Rightarrow> bool \<times> u8 list" where
  "copy_to_user mem bs = (length bs \<le> length mem, take (length mem) bs @ drop (length bs) mem)"

section \<open>Attributes\<close>

text \<open>
  The layout of \<open>struct sched_attr\<close> is not in the tree: the size of its first version, its size, the bytes
  after the field \<open>size\<close> (the first one, of four bytes), and what they mean.
\<close>

record attr_abi =
  aa_ver0 :: nat
  aa_size :: nat
  aa_body :: "sched_attr \<Rightarrow> u8 list"
  aa_parse :: "u8 list \<Rightarrow> sched_attr"

definition attr_bytes :: "attr_abi \<Rightarrow> nat \<Rightarrow> sched_attr \<Rightarrow> u8 list" where
  "attr_bytes abi sz attr = le_bytes 4 sz @ aa_body abi attr"

definition MAX_ATTR_SIZE :: nat where "MAX_ATTR_SIZE = 4096"

text \<open>The bytes of a larger structure than the kernel knows: all of them have to be zero.\<close>

fun unknown_bits :: "u8 list \<Rightarrow> nat \<Rightarrow> nat \<Rightarrow> errno option" where
  "unknown_bits mem addr 0 = None"
| "unknown_bits mem addr (Suc n) =
     (if length mem \<le> addr then Some EFAULT
      else if mem ! addr \<noteq> 0 then Some E2BIG
      else unknown_bits mem (Suc addr) n)"

definition attr_err_size :: "attr_abi \<Rightarrow> u8 list \<Rightarrow> (errno + sched_attr) \<times> u8 list" where
  "attr_err_size abi mem = (Inl E2BIG, if 4 \<le> length mem then le_bytes 4 (aa_size abi) @ drop 4 mem else mem)"

text \<open>\<open>access\<close> says which sizes are a range of addresses of the user.\<close>

definition sched_copy_attr :: "attr_abi \<Rightarrow> (nat \<Rightarrow> bool) \<Rightarrow> u8 list \<Rightarrow> (errno + sched_attr) \<times> u8 list" where
  "sched_copy_attr abi access mem =
     (if \<not> access (aa_ver0 abi) then (Inl EFAULT, mem)
      else case copy_from_user mem 4 of
        None \<Rightarrow> (Inl EFAULT, mem)
      | Some bs \<Rightarrow>
          let given = le_nat bs
          in if given > MAX_ATTR_SIZE then attr_err_size abi mem
             else
               let sz = (if given = 0 then aa_ver0 abi else given)
               in if sz < aa_ver0 abi then attr_err_size abi mem
                  else case (if sz > aa_size abi then unknown_bits mem (aa_size abi) (sz - aa_size abi) else None) of
                    Some E2BIG \<Rightarrow> attr_err_size abi mem
                  | Some err \<Rightarrow> (Inl err, mem)
                  | None \<Rightarrow>
                      let size1 = min sz (aa_size abi)
                      in case copy_from_user mem size1 of
                           None \<Rightarrow> (Inl EFAULT, mem)
                         | Some cs \<Rightarrow>
                             let attr = aa_parse abi (drop 4 (cs @ replicate (aa_size abi - size1) 0))
                             in (Inr (attr\<lparr>a_nice := clamp (a_nice attr) MIN_NICE MAX_NICE\<rparr>), mem))"

definition sched_read_attr :: "attr_abi \<Rightarrow> (nat \<Rightarrow> bool) \<Rightarrow> u8 list \<Rightarrow> sched_attr \<Rightarrow> nat \<Rightarrow> errno option \<times> u8 list" where
  "sched_read_attr abi access mem attr usize =
     (if \<not> access usize then (Some EFAULT, mem)
      else if usize < aa_size abi \<and> list_ex (\<lambda>b. b \<noteq> 0) (drop usize (attr_bytes abi (aa_size abi) attr)) then (Some EFBIG, mem)
      else
        let sz = min usize (aa_size abi)
        in case copy_to_user mem (take sz (attr_bytes abi sz attr)) of
             (done_ok, mem1) \<Rightarrow> (if done_ok then None else Some EFAULT, mem1))"

definition sys_sched_setattr ::
  "kenv \<Rightarrow> params_env \<Rightarrow> attr_abi \<Rightarrow> (nat \<Rightarrow> bool) \<Rightarrow> int \<Rightarrow> u8 list option \<Rightarrow> u32 \<Rightarrow> sys \<Rightarrow> errno option \<times> u8 list option \<times> sys" where
  "sys_sched_setattr e x abi access pid uattr flags s =
     (case uattr of
        None \<Rightarrow> (Some EINVAL, None, s)
      | Some mem \<Rightarrow>
          if pid < 0 \<or> flags \<noteq> 0 then (Some EINVAL, uattr, s)
          else case sched_copy_attr abi access mem of
            (Inl err, mem1) \<Rightarrow> (Some err, Some mem1, s)
          | (Inr attr, mem1) \<Rightarrow>
              if a_policy attr < 0 then (Some EINVAL, Some mem1, s)
              else case find_process_by_pid x s pid of
                None \<Rightarrow> (Some ESRCH, Some mem1, s)
              | Some p \<Rightarrow> (case sched_setattr e x p attr s of (err, s1) \<Rightarrow> (err, Some mem1, s1)))"

definition sys_sched_getattr ::
  "params_env \<Rightarrow> attr_abi \<Rightarrow> (nat \<Rightarrow> bool) \<Rightarrow> int \<Rightarrow> u8 list option \<Rightarrow> nat \<Rightarrow> u32 \<Rightarrow> sys \<Rightarrow> errno option \<times> u8 list option" where
  "sys_sched_getattr x abi access pid uattr usize flags s =
     (case uattr of
        None \<Rightarrow> (Some EINVAL, None)
      | Some mem \<Rightarrow>
          if pid < 0 \<or> usize > MAX_ATTR_SIZE \<or> usize < aa_ver0 abi \<or> flags \<noteq> 0 then (Some EINVAL, uattr)
          else case find_process_by_pid x s pid of
            None \<Rightarrow> (Some ESRCH, uattr)
          | Some p \<Rightarrow>
              (case x_sec_getscheduler x p of
                 Some err \<Rightarrow> (Some err, uattr)
               | None \<Rightarrow> map_prod id Some (sched_read_attr abi access mem (getattr_of x s p) usize)))"

section \<open>Masks of CPUs\<close>

text \<open>A mask in memory: bit \<open>c mod 8\<close> of byte \<open>c div 8\<close>.\<close>

definition mask_bytes :: "nat \<Rightarrow> cpumask \<Rightarrow> u8 list" where
  "mask_bytes n m = map (\<lambda>i. horner_sum of_bool 2 (map (\<lambda>j. m (8 * i + j)) [0..<8])) [0..<n]"

definition bytes_mask :: "u8 list \<Rightarrow> cpumask" where
  "bytes_mask bs c \<longleftrightarrow> c div 8 < length bs \<and> bit (bs ! (c div 8)) (c mod 8)"

text \<open>\<open>cpumask_size\<close> is the size of a mask of the kernel, in bytes.\<close>

definition get_user_cpu_mask :: "nat \<Rightarrow> u8 list \<Rightarrow> nat \<Rightarrow> errno + cpumask" where
  "get_user_cpu_mask cpumask_size mem len =
     (case copy_from_user mem (min len cpumask_size) of None \<Rightarrow> Inl EFAULT | Some bs \<Rightarrow> Inr (bytes_mask bs))"

definition sys_sched_setaffinity ::
  "kenv \<Rightarrow> params_env \<Rightarrow> nat \<Rightarrow> bool \<Rightarrow> int \<Rightarrow> nat \<Rightarrow> u8 list \<Rightarrow> sys \<Rightarrow> errno option \<times> sys" where
  "sys_sched_setaffinity e x cpumask_size memory pid len mem s =
     (if \<not> memory then (Some ENOMEM, s)
      else case get_user_cpu_mask cpumask_size mem len of
        Inl err \<Rightarrow> (Some err, s)
      | Inr new_mask \<Rightarrow> sched_setaffinity e x pid new_mask s)"

text \<open>The product of the length and 8 is an \<open>unsigned int\<close>.\<close>

definition sys_sched_getaffinity ::
  "params_env \<Rightarrow> nat \<Rightarrow> bool \<Rightarrow> int \<Rightarrow> u32 \<Rightarrow> u8 list \<Rightarrow> sys \<Rightarrow> (errno + nat) \<times> u8 list" where
  "sys_sched_getaffinity x cpumask_size memory pid len mem s =
     (if unat (len * 8) < nr_cpu_ids s then (Inl EINVAL, mem)
      else if len AND 7 \<noteq> 0 then (Inl EINVAL, mem)
      else if \<not> memory then (Inl ENOMEM, mem)
      else case sched_getaffinity x pid s of
        Inl err \<Rightarrow> (Inl err, mem)
      | Inr m \<Rightarrow>
          let retlen = min (unat len) cpumask_size
          in case copy_to_user mem (mask_bytes retlen m) of
               (done_ok, mem1) \<Rightarrow> (if done_ok then Inr retlen else Inl EFAULT, mem1))"

end
