(* ===== verification/Sched_Attr_Props.thy ===== *)
theory Sched_Attr_Props
  imports Sched_Attr Sched_Policy
begin

text \<open>
  What is read back from the user's memory is what was written to it: the interface \<open>attr_layout\<close> of the
  layout of \<open>struct sched_attr\<close>, with the layout of the manual as an instance, and the masks of CPUs.
\<close>

lemma length_le_bytes [simp]: "length (le_bytes n v) = n"
  by (induction n arbitrary: v) simp_all

lemma le_nat_bytes: "le_nat (le_bytes n v) = v mod 256 ^ n"
proof (induction n arbitrary: v)
  case (Suc n)
  have "unat (of_nat v :: u8) = v mod 256" by (simp add: unat_of_nat)
  then show ?case using Suc by (simp add: mod_mult2_eq)
qed simp

lemma unknown_bits_none:
  "unknown_bits mem addr n = None \<longleftrightarrow> n = 0 \<or> addr + n \<le> length mem \<and> (\<forall>i < n. mem ! (addr + i) = 0)"
  by (induction mem addr n rule: unknown_bits.induct) (auto simp: less_Suc_eq_0_disj)

lemma unknown_bits_big:
  "addr + n \<le> length mem \<Longrightarrow> unknown_bits mem addr n \<noteq> None \<Longrightarrow> unknown_bits mem addr n = Some E2BIG"
  by (induction mem addr n rule: unknown_bits.induct) (auto split: if_splits)

lemma clamp_id: "lo \<le> v \<Longrightarrow> v \<le> hi \<Longrightarrow> clamp v lo hi = v"
  by (simp add: clamp_def)

text \<open>What the calls rely on of the layout of \<open>struct sched_attr\<close>.\<close>

locale attr_layout =
  fixes abi :: attr_abi and rep :: "sched_attr \<Rightarrow> bool"
  assumes ver0: "4 \<le> aa_ver0 abi" "aa_ver0 abi \<le> aa_size abi"
    and largest: "aa_size abi \<le> MAX_ATTR_SIZE"
    and body_length: "length (aa_body abi a) = aa_size abi - 4"
    and parse_body: "rep a \<Longrightarrow> aa_parse abi (aa_body abi a) = a"
begin

lemma attr_bytes_length: "length (attr_bytes abi n a) = aa_size abi"
  using ver0 by (simp add: attr_bytes_def body_length)

text \<open>A structure in memory that starts with its size.\<close>

lemma copy_known:
  assumes sz: "aa_ver0 abi \<le> n" "n \<le> aa_size abi" and mem: "n \<le> length mem" "take 4 mem = le_bytes 4 n" and acc: "access (aa_ver0 abi)"
  shows "sched_copy_attr abi access mem = (let attr = aa_parse abi (drop 4 (take n mem @ replicate (aa_size abi - n) 0))
    in (Inr (attr\<lparr>a_nice := clamp (a_nice attr) MIN_NICE MAX_NICE\<rparr>), mem))"
proof -
  have n: "n < 256 ^ 4" "4 \<le> length mem" "n \<noteq> 0" "n \<le> MAX_ATTR_SIZE" using sz mem ver0 largest by (simp_all add: MAX_ATTR_SIZE_def)
  have "copy_from_user mem 4 = Some (le_bytes 4 n)" "le_nat (le_bytes 4 n) = n" "copy_from_user mem n = Some (take n mem)"
    using n mem by (simp_all add: copy_from_user_def le_nat_bytes)
  then show ?thesis using sz n acc by (simp add: sched_copy_attr_def Let_def min_absorb1)
qed

lemma read_copy:
  assumes r: "sched_read_attr abi access mem a usize = (None, mem')" and u: "aa_ver0 abi \<le> usize"
    and acc: "access (aa_ver0 abi)" and a: "rep a" "MIN_NICE \<le> a_nice a" "a_nice a \<le> MAX_NICE"
  shows "sched_copy_attr abi access mem' = (Inr a, mem') \<and> drop usize mem' = drop usize mem"
proof -
  let ?n = "min usize (aa_size abi)"
  let ?bs = "take ?n (attr_bytes abi ?n a)"
  have len: "length ?bs = ?n" using attr_bytes_length[of ?n a] by simp
  have fits: "?n \<le> length mem" and mem': "mem' = ?bs @ drop ?n mem"
    and zeros: "usize < aa_size abi \<longrightarrow> \<not> list_ex (\<lambda>b. b \<noteq> 0) (drop usize (attr_bytes abi (aa_size abi) a))"
    using r len by (auto simp: sched_read_attr_def copy_to_user_def Let_def split: if_splits)
  have n: "aa_ver0 abi \<le> ?n" "?n \<le> aa_size abi" "4 \<le> ?n" using u ver0 by simp_all
  have "take 4 mem' = le_bytes 4 ?n" using n(3) by (simp add: mem' attr_bytes_def)
  moreover have tk: "take ?n mem' = ?bs" using len by (simp add: mem')
  moreover have "drop 4 (?bs @ replicate (aa_size abi - ?n) 0) = aa_body abi a"
  proof (cases "usize < aa_size abi")
    case True
    have "drop (usize - 4) (aa_body abi a) = replicate (aa_size abi - usize) 0"
      using zeros True n(3) by (intro replicate_eqI) (auto simp: attr_bytes_def body_length list_ex_iff)
    then have "take (usize - 4) (aa_body abi a) @ replicate (aa_size abi - usize) 0 = aa_body abi a"
      by (metis append_take_drop_id)
    then show ?thesis using True n(3) len by (simp add: attr_bytes_def)
  next
    case False
    then show ?thesis using n(3) ver0 by (simp add: attr_bytes_def body_length)
  qed
  moreover have "?n \<le> length mem'" using fits len by (simp add: mem')
  ultimately have "sched_copy_attr abi access mem' = (Inr (a\<lparr>a_nice := clamp (a_nice a) MIN_NICE MAX_NICE\<rparr>), mem')"
    using copy_known[of ?n mem' access] n acc parse_body[OF a(1)] by (simp add: Let_def)
  moreover have "drop usize mem' = drop usize mem" using fits len by (cases "usize \<le> aa_size abi") (simp_all add: mem' min_def)
  ultimately show ?thesis using a by (simp add: clamp_id)
qed

text \<open>A structure of a newer version: its additions have to be zero.\<close>

lemma copy_newer:
  assumes mem: "mem = le_bytes 4 (aa_size abi + length extra) @ aa_body abi a @ extra" and big: "aa_size abi + length extra \<le> MAX_ATTR_SIZE"
    and acc: "access (aa_ver0 abi)" and a: "rep a"
  shows "sched_copy_attr abi access mem =
    (if list_all (\<lambda>b. b = 0) extra then (Inr (a\<lparr>a_nice := clamp (a_nice a) MIN_NICE MAX_NICE\<rparr>), mem)
     else (Inl E2BIG, le_bytes 4 (aa_size abi) @ aa_body abi a @ extra))"
proof -
  let ?n = "aa_size abi + length extra"
  have n: "?n < 256 ^ 4" "?n \<noteq> 0" using big ver0 by (simp_all add: MAX_ATTR_SIZE_def)
  have len: "length mem = ?n" "4 \<le> length mem" using ver0 by (simp_all add: mem body_length)
  have given: "copy_from_user mem 4 = Some (le_bytes 4 ?n)" "le_nat (le_bytes 4 ?n) = ?n"
    using n len by (simp_all add: copy_from_user_def mem le_nat_bytes)
  have "length (le_bytes 4 ?n @ aa_body abi a) = aa_size abi" using ver0 by (simp add: body_length)
  then have nth: "mem ! (aa_size abi + i) = extra ! i" for i
    using nth_append_length_plus[of "le_bytes 4 ?n @ aa_body abi a" extra i] by (simp add: mem)
  have whole: "copy_from_user mem (aa_size abi) = Some (le_bytes 4 ?n @ aa_body abi a)"
    using len ver0 by (simp add: copy_from_user_def mem body_length)
  show ?thesis
  proof (cases "list_all (\<lambda>b. b = 0) extra")
    case True
    then have "unknown_bits mem (aa_size abi) (length extra) = None" using nth len by (simp add: unknown_bits_none list_all_length)
    then show ?thesis using True given n big acc whole parse_body[OF a] ver0 by (auto simp: sched_copy_attr_def Let_def)
  next
    case False
    then have "unknown_bits mem (aa_size abi) (length extra) \<noteq> None" using nth len by (auto simp: unknown_bits_none list_all_length)
    then have "unknown_bits mem (aa_size abi) (length extra) = Some E2BIG" using len by (intro unknown_bits_big) simp_all
    moreover have "extra \<noteq> []" using False by auto
    ultimately show ?thesis using False given n big acc ver0 len by (auto simp: sched_copy_attr_def attr_err_size_def Let_def mem)
  qed
qed

end

text \<open>The layout that the manual of the calls gives, 48 bytes, is one.\<close>

definition x64_body :: "sched_attr \<Rightarrow> u8 list" where
  "x64_body a = le_bytes 4 (nat (a_policy a mod 2 ^ 32)) @ le_bytes 8 (unat (a_flags a)) @ le_bytes 4 (nat (a_nice a mod 2 ^ 32))
     @ le_bytes 4 (unat (a_priority a)) @ le_bytes 8 (unat (a_runtime a)) @ le_bytes 8 (unat (a_deadline a)) @ le_bytes 8 (unat (a_period a))"

definition signed32 :: "nat \<Rightarrow> int" where
  "signed32 n = (if n < 2 ^ 31 then int n else int n - 2 ^ 32)"

definition x64_parse :: "u8 list \<Rightarrow> sched_attr" where
  "x64_parse bs = \<lparr>a_policy = signed32 (le_nat (take 4 bs)), a_flags = of_nat (le_nat (take 8 (drop 4 bs))),
     a_nice = signed32 (le_nat (take 4 (drop 12 bs))), a_priority = of_nat (le_nat (take 4 (drop 16 bs))),
     a_runtime = of_nat (le_nat (take 8 (drop 20 bs))), a_deadline = of_nat (le_nat (take 8 (drop 28 bs))),
     a_period = of_nat (le_nat (take 8 (drop 36 bs)))\<rparr>"

definition x64_abi :: attr_abi where
  "x64_abi = \<lparr>aa_ver0 = 48, aa_size = 48, aa_body = x64_body, aa_parse = x64_parse\<rparr>"

definition fits_ints :: "sched_attr \<Rightarrow> bool" where
  "fits_ints a \<longleftrightarrow> - (2 ^ 31) \<le> a_policy a \<and> a_policy a < 2 ^ 31 \<and> - (2 ^ 31) \<le> a_nice a \<and> a_nice a < 2 ^ 31"

lemma signed32_mod:
  assumes "- (2 ^ 31) \<le> v" "v < 2 ^ 31"
  shows "signed32 (nat (v mod 2 ^ 32)) = v"
proof (cases "0 \<le> v")
  case True
  then show ?thesis using assms by (simp add: signed32_def nat_less_iff)
next
  case False
  then have "v mod 2 ^ 32 = v + 2 ^ 32" using assms(1) mod_pos_pos_trivial[of "v + 2 ^ 32" "2 ^ 32"] by simp
  then show ?thesis using assms False by (simp add: signed32_def nat_less_iff)
qed

lemma mod_less_256: "n < 256 ^ k \<Longrightarrow> le_nat (le_bytes k n) = n"
  by (simp add: le_nat_bytes)

lemma word_bytes: "le_nat (le_bytes 4 (unat (w :: u32))) = unat w" "le_nat (le_bytes 8 (unat (v :: u64))) = unat v"
  using unsigned_less[of w, where 'a = nat] unsigned_less[of v, where 'a = nat] by (simp_all add: le_nat_bytes)

lemma int_bytes: "le_nat (le_bytes 4 (nat (i mod 2 ^ 32))) = nat (i mod 2 ^ 32)"
  by (rule mod_less_256) (simp add: nat_less_iff)

lemma x64_parse_body: "fits_ints a \<Longrightarrow> x64_parse (x64_body a) = a"
  by (simp add: x64_parse_def x64_body_def word_bytes int_bytes[simplified] signed32_mod[simplified] fits_ints_def)

lemma x64_body_length: "length (x64_body a) = 44"
  by (simp add: x64_body_def)

interpretation x64: attr_layout x64_abi fits_ints
  by unfold_locales (simp_all add: x64_abi_def x64_parse_body MAX_ATTR_SIZE_def x64_body_length)

text \<open>
  C17: giving back to \<open>sched_setattr\<close> the bytes that \<open>sched_getattr\<close> wrote asks for exactly the attributes the
  task has, for every size the caller passed and every layout of \<open>struct sched_attr\<close>, also when the caller
  knows a shorter one; \<open>sched_getattr\<close> writes nothing past the size it was given.
\<close>

theorem getattr_setattr_roundtrip:
  assumes abi: "attr_layout abi rep" and acc: "access (aa_ver0 abi)"
    and get: "sys_sched_getattr x abi access pid (Some mem) usize 0 s = (None, Some mem')" and p: "find_process_by_pid x s pid = Some p"
    and a: "rep (getattr_of x s p)" "MIN_NICE \<le> a_nice (getattr_of x s p)" "a_nice (getattr_of x s p) \<le> MAX_NICE" "0 \<le> a_policy (getattr_of x s p)"
  shows "sys_sched_setattr e x abi access pid (Some mem') 0 s
      = (fst (sched_setattr e x p (getattr_of x s p) s), Some mem', snd (sched_setattr e x p (getattr_of x s p) s))
    \<and> drop usize mem' = drop usize mem"
proof -
  have g: "0 \<le> pid" "aa_ver0 abi \<le> usize" "sched_read_attr abi access mem (getattr_of x s p) usize = (None, mem')"
    using get p by (cases "sched_read_attr abi access mem (getattr_of x s p) usize", auto simp: sys_sched_getattr_def split: if_splits option.splits)+
  have "sched_copy_attr abi access mem' = (Inr (getattr_of x s p), mem') \<and> drop usize mem' = drop usize mem"
    using attr_layout.read_copy[OF abi g(3,2) acc a(1-3)] .
  then show ?thesis using g(1) p a(4) by (simp add: sys_sched_setattr_def split: prod.split)
qed

text \<open>
  C18: a program that knows a longer \<open>struct sched_attr\<close> than the kernel is served when all it adds is zero, with
  the nice value clamped, and otherwise gets \<open>E2BIG\<close> and the size the kernel knows.
\<close>

theorem attr_of_newer_program:
  assumes "attr_layout abi rep" "access (aa_ver0 abi)" "rep a" "aa_size abi + length extra \<le> MAX_ATTR_SIZE"
  shows "sched_copy_attr abi access (le_bytes 4 (aa_size abi + length extra) @ aa_body abi a @ extra) =
    (if list_all (\<lambda>b. b = 0) extra
     then (Inr (a\<lparr>a_nice := clamp (a_nice a) MIN_NICE MAX_NICE\<rparr>), le_bytes 4 (aa_size abi + length extra) @ aa_body abi a @ extra)
     else (Inl E2BIG, le_bytes 4 (aa_size abi) @ aa_body abi a @ extra))"
  using attr_layout.copy_newer[OF assms(1) refl assms(4), of access a] assms(2,3) by blast

theorem attr_of_newer_program_witness:
  "fst (sched_copy_attr x64_abi (\<lambda>_. True) (le_bytes 4 50 @ x64_body \<lparr>a_policy = 1, a_flags = 0, a_nice = - 30, a_priority = 5, a_runtime = 0, a_deadline = 0, a_period = 0\<rparr> @ [0, 0]))
     = Inr \<lparr>a_policy = 1, a_flags = 0, a_nice = - 20, a_priority = 5, a_runtime = 0, a_deadline = 0, a_period = 0\<rparr>
   \<and> fst (sched_copy_attr x64_abi (\<lambda>_. True) (le_bytes 4 50 @ x64_body \<lparr>a_policy = 1, a_flags = 0, a_nice = 0, a_priority = 5, a_runtime = 0, a_deadline = 0, a_period = 0\<rparr> @ [0, 7]))
     = Inl E2BIG"
proof -
  have x: "aa_ver0 x64_abi = 48" "aa_size x64_abi = 48" "aa_body x64_abi = x64_body" by (simp_all add: x64_abi_def)
  have f: "fits_ints \<lparr>a_policy = 1, a_flags = 0, a_nice = - 30, a_priority = 5, a_runtime = 0, a_deadline = 0, a_period = 0\<rparr>"
    "fits_ints \<lparr>a_policy = 1, a_flags = 0, a_nice = 0, a_priority = 5, a_runtime = 0, a_deadline = 0, a_period = 0\<rparr>" by (simp_all add: fits_ints_def)
  show ?thesis
    using attr_of_newer_program[OF x64.attr_layout_axioms, of "\<lambda>_. True" _ "[0, 0]", OF _ f(1)]
      attr_of_newer_program[OF x64.attr_layout_axioms, of "\<lambda>_. True" _ "[0, 7]", OF _ f(2)]
    by (simp add: x MAX_ATTR_SIZE_def clamp_def prio_consts del: le_bytes.simps)
qed

section \<open>Masks\<close>

lemma bytes_mask_bytes: "bytes_mask (mask_bytes n m) c \<longleftrightarrow> c < 8 * n \<and> m c"
proof (cases "c < 8 * n")
  case True
  then have i: "c div 8 < n" by (simp add: less_mult_imp_div_less mult.commute)
  have "bit (horner_sum of_bool 2 (map (\<lambda>j. m (8 * (c div 8) + j)) [0..<8]) :: u8) (c mod 8) \<longleftrightarrow> m c"
    by (simp add: bit_horner_sum_bit_word_iff del: upt_rec_numeral)
  then show ?thesis using True i by (simp add: bytes_mask_def mask_bytes_def del: upt_rec_numeral)
next
  case False
  then have "\<not> c div 8 < n" by (simp add: div_less_iff_less_mult mult.commute)
  then show ?thesis using False by (simp add: bytes_mask_def mask_bytes_def del: upt_rec_numeral)
qed

lemma length_mask_bytes [simp]: "length (mask_bytes n m) = n"
  by (simp add: mask_bytes_def)

text \<open>
  The bytes that \<open>sched_getaffinity\<close> writes are read by \<open>sched_setaffinity\<close> as the mask that was written, for
  every CPU there is, whatever length was passed; nothing past the returned length is written.
\<close>

theorem affinity_bytes_roundtrip:
  assumes get: "sys_sched_getaffinity x cpumask_size memory pid len mem s = (Inr n, mem')"
    and mask_size: "nr_cpu_ids s \<le> 8 * cpumask_size"
  shows "\<exists>m. sched_getaffinity x pid s = Inr m
    \<and> (\<exists>m'. get_user_cpu_mask cpumask_size mem' n = Inr m' \<and> (\<forall>c < nr_cpu_ids s. m' c = m c))
    \<and> drop n mem' = drop n mem \<and> n \<le> unat len"
proof -
  have w: "unat (len * 8) \<le> unat len * 8" by (simp add: unat_word_ariths)
  obtain m where m: "sched_getaffinity x pid s = Inr m" and n: "n = min (unat len) cpumask_size" "n \<le> length mem"
    "mem' = mask_bytes n m @ drop n mem" "nr_cpu_ids s \<le> unat len * 8"
    using get order_trans[OF _ w, of "nr_cpu_ids s"] by (auto simp: sys_sched_getaffinity_def copy_to_user_def Let_def not_less split: if_splits sum.splits)
  have "get_user_cpu_mask cpumask_size mem' n = Inr (bytes_mask (mask_bytes n m))"
    using n(1,2) by (simp add: get_user_cpu_mask_def copy_from_user_def n(3) min_def)
  moreover have "bytes_mask (mask_bytes n m) c = m c" if "c < nr_cpu_ids s" for c
    using that n(1,4) mask_size by (auto simp: bytes_mask_bytes)
  ultimately show ?thesis using m n by auto
qed

lemma sleep_demo_attr: "getattr_of root_caller sleep_demo 5 = \<lparr>a_policy = SCHED_TS, a_flags = 0, a_nice = 0, a_priority = 0, a_runtime = 0, a_deadline = 0, a_period = 0\<rparr>"
  by (simp add: getattr_of_def sleep_demo boot_task_def task_has_dl_policy_def task_has_rt_policy_def policy_defs policy_consts task_nice_def prio_consts Let_def)

theorem getattr_setattr_roundtrip_witness:
  "\<exists>mem'. sys_sched_getattr root_caller x64_abi (\<lambda>_. True) 5 (Some (replicate 60 9)) 60 0 sleep_demo = (None, Some mem')
     \<and> sys_sched_setattr quiet_env root_caller x64_abi (\<lambda>_. True) 5 (Some mem') 0 sleep_demo
        = (fst (sched_setattr quiet_env root_caller 5 (getattr_of root_caller sleep_demo 5) sleep_demo), Some mem',
           snd (sched_setattr quiet_env root_caller 5 (getattr_of root_caller sleep_demo 5) sleep_demo))
     \<and> drop 60 mem' = []"
proof -
  have x: "aa_ver0 x64_abi = 48" "aa_size x64_abi = 48" by (simp_all add: x64_abi_def)
  have p: "find_process_by_pid root_caller sleep_demo 5 = Some 5" by (simp add: find_process_by_pid_def root_caller_def)
  have "\<exists>mem'. sys_sched_getattr root_caller x64_abi (\<lambda>_. True) 5 (Some (replicate 60 9)) 60 0 sleep_demo = (None, Some mem')"
    using p x64.attr_bytes_length by (auto simp: sys_sched_getattr_def x MAX_ATTR_SIZE_def sched_read_attr_def copy_to_user_def Let_def root_caller_def)
  then obtain mem' where g: "sys_sched_getattr root_caller x64_abi (\<lambda>_. True) 5 (Some (replicate 60 9)) 60 0 sleep_demo = (None, Some mem')" by blast
  have "fits_ints (getattr_of root_caller sleep_demo 5)" by (simp add: sleep_demo_attr fits_ints_def policy_consts)
  then show ?thesis using getattr_setattr_roundtrip[OF x64.attr_layout_axioms _ g p, of quiet_env] g
    by (simp add: sleep_demo_attr prio_consts policy_consts)
qed

theorem affinity_bytes_roundtrip_witness:
  "\<exists>mem' m'. sys_sched_getaffinity root_caller 8 True 5 16 (replicate 10 255) sleep_demo = (Inr 8, mem')
     \<and> get_user_cpu_mask 8 mem' 8 = Inr m' \<and> m' 1 \<and> drop 8 mem' = [255, 255]"
proof -
  have n: "nr_cpu_ids sleep_demo = 2" by (simp add: sleep_demo_def boot_sys_def upd_task_def)
  have g: "\<exists>m. sched_getaffinity root_caller 5 sleep_demo = Inr m \<and> m 1"
    by (simp add: sched_getaffinity_def find_process_by_pid_def root_caller_def sleep_demo_def boot_sys_def upd_task_def boot_task_def)
  then obtain m where m: "sched_getaffinity root_caller 5 sleep_demo = Inr m" "m 1" by blast
  obtain mem' where mem': "sys_sched_getaffinity root_caller 8 True 5 16 (replicate 10 255) sleep_demo = (Inr 8, mem')"
    using m by (simp add: sys_sched_getaffinity_def n copy_to_user_def Let_def)
  from affinity_bytes_roundtrip[OF mem'] obtain m' where
    "get_user_cpu_mask 8 mem' 8 = Inr m'" "\<forall>c < 2. m' c = m c" "drop 8 mem' = drop 8 (replicate 10 255)"
    unfolding n by (auto simp: m(1))
  then show ?thesis using mem' m(2) by (auto simp: numeral_eq_Suc)
qed

end
