(* ===== verification/Sched_Hotplug.thy ===== *)
theory Sched_Hotplug
  imports Sched_Core
begin

text \<open>
  CPUs that come and go (\<open>kernel/sched/core.c\<close>): a run queue set online and offline, the activation and the end
  of a CPU with the migration of its tasks, and the state machine of the tick that one CPU runs for another.
\<close>

section \<open>State\<close>

text \<open>
  What the scheduler keeps about CPUs that come and go: the machine, the online masks of the root domains,
  the count of cores with two threads that are up, the count of CPUs that are down for a suspend, whether
  the domains are built, and whether this is part of a suspend.
\<close>

record hotplug =
  h_sys :: sys
  h_rd_online :: "nat \<Rightarrow> cpumask"
  h_smt_present :: int
  h_num_cpus_frozen :: int
  h_smp_initialized :: bool
  h_tasks_frozen :: bool

text \<open>
  The functions of other files: the operations \<open>rq_online\<close> and \<open>rq_offline\<close> of the deadline and fair classes,
  the mask of the threads of a core, the domains and cpusets, and what the deadline class says of a CPU.
\<close>

record hotplug_env =
  he_kenv :: kenv
  he_rq_online :: "sched_class \<Rightarrow> cpu_id \<Rightarrow> sys \<Rightarrow> sys"
  he_rq_offline :: "sched_class \<Rightarrow> cpu_id \<Rightarrow> sys \<Rightarrow> sys"
  he_scheduler_running :: bool
  he_smt_weight :: "cpu_id \<Rightarrow> nat"
  he_partition_domains :: "hotplug \<Rightarrow> hotplug"
  he_cpuset_update :: "hotplug \<Rightarrow> hotplug"
  he_cpuset_rebuild :: "hotplug \<Rightarrow> hotplug"
  he_dl_cpu_busy :: "cpu_id \<Rightarrow> sys \<Rightarrow> bool"

definition on_sys :: "(sys \<Rightarrow> sys) \<Rightarrow> hotplug \<Rightarrow> hotplug" where
  "on_sys f h = h\<lparr>h_sys := f (h_sys h)\<rparr>"

section \<open>Run queues\<close>

definition class_rq_online :: "hotplug_env \<Rightarrow> sched_class \<Rightarrow> cpu_id \<Rightarrow> sys \<Rightarrow> sys" where
  "class_rq_online e k c = (case k of
     Rt_class \<Rightarrow> rq_online_rt (he_scheduler_running e) c
   | Dl_class \<Rightarrow> he_rq_online e k c | Fair_class \<Rightarrow> he_rq_online e k c | _ \<Rightarrow> (\<lambda>s. s))"

definition class_rq_offline :: "hotplug_env \<Rightarrow> sched_class \<Rightarrow> cpu_id \<Rightarrow> sys \<Rightarrow> sys" where
  "class_rq_offline e k c = (case k of
     Rt_class \<Rightarrow> rq_offline_rt (he_scheduler_running e) c
   | Dl_class \<Rightarrow> he_rq_offline e k c | Fair_class \<Rightarrow> he_rq_offline e k c | _ \<Rightarrow> (\<lambda>s. s))"

definition set_rq_online :: "hotplug_env \<Rightarrow> cpu_id \<Rightarrow> hotplug \<Rightarrow> hotplug" where
  "set_rq_online e c h =
     (if rq_online (rqs (h_sys h) c) then h
      else
        let rd = rq_rd (rqs (h_sys h) c);
            h1 = h\<lparr>h_rd_online := (h_rd_online h)(rd := (h_rd_online h rd)(c := True))\<rparr>;
            h2 = on_sys (upd_rq c (\<lambda>rq. rq\<lparr>rq_online := True\<rparr>)) h1
        in on_sys (fold (\<lambda>k. class_rq_online e k c) class_order) h2)"

definition set_rq_offline :: "hotplug_env \<Rightarrow> cpu_id \<Rightarrow> hotplug \<Rightarrow> hotplug" where
  "set_rq_offline e c h =
     (if \<not> rq_online (rqs (h_sys h) c) then h
      else
        let h1 = on_sys (fold (\<lambda>k. class_rq_offline e k c) class_order) h;
            rd = rq_rd (rqs (h_sys h1) c);
            h2 = h1\<lparr>h_rd_online := (h_rd_online h1)(rd := (h_rd_online h1 rd)(c := False))\<rparr>
        in on_sys (upd_rq c (\<lambda>rq. rq\<lparr>rq_online := False\<rparr>)) h2)"

section \<open>Activation\<close>

definition set_cpu_active :: "cpu_id \<Rightarrow> bool \<Rightarrow> hotplug \<Rightarrow> hotplug" where
  "set_cpu_active c b = on_sys (\<lambda>s. s\<lparr>cpu_active_mask := (cpu_active_mask s)(c := b)\<rparr>)"

definition cpuset_cpu_active :: "hotplug_env \<Rightarrow> hotplug \<Rightarrow> hotplug" where
  "cpuset_cpu_active e h =
     (if h_tasks_frozen h then
        let h1 = he_partition_domains e h;
            h2 = h1\<lparr>h_num_cpus_frozen := h_num_cpus_frozen h1 - 1\<rparr>
        in if h_num_cpus_frozen h2 \<noteq> 0 then h2 else he_cpuset_update e (he_cpuset_rebuild e h2)
      else he_cpuset_update e h)"

definition cpuset_cpu_inactive :: "hotplug_env \<Rightarrow> cpu_id \<Rightarrow> hotplug \<Rightarrow> errno option \<times> hotplug" where
  "cpuset_cpu_inactive e c h =
     (if \<not> h_tasks_frozen h then
        (if he_dl_cpu_busy e c (h_sys h) then (Some EBUSY, h) else (None, he_cpuset_update e h))
      else (None, he_partition_domains e (h\<lparr>h_num_cpus_frozen := h_num_cpus_frozen h + 1\<rparr>)))"

definition sched_cpu_activate :: "hotplug_env \<Rightarrow> cpu_id \<Rightarrow> hotplug \<Rightarrow> hotplug" where
  "sched_cpu_activate e c h =
     (let h1 = (if he_smt_weight e c = 2 then h\<lparr>h_smt_present := h_smt_present h + 1\<rparr> else h);
          h2 = set_cpu_active c True h1;
          h3 = (if h_smp_initialized h2 then cpuset_cpu_active e h2 else h2)
      in if \<not> rd_span (rds (h_sys h3) (rq_rd (rqs (h_sys h3) c))) c then on_sys (raise_fault Bug_on) h3
         else set_rq_online e c h3)"

definition sched_cpu_deactivate :: "hotplug_env \<Rightarrow> cpu_id \<Rightarrow> hotplug \<Rightarrow> errno option \<times> hotplug" where
  "sched_cpu_deactivate e c h =
     (let h1 = set_cpu_active c False h;
          h2 = (if he_smt_weight e c = 2 then h1\<lparr>h_smt_present := h_smt_present h1 - 1\<rparr> else h1)
      in if \<not> h_smp_initialized h2 then (None, h2)
         else case cpuset_cpu_inactive e c h2 of
           (Some err, h3) \<Rightarrow> (Some err, set_cpu_active c True h3)
         | (None, h3) \<Rightarrow> (None, h3))"

section \<open>The end of a CPU\<close>

text \<open>
  \<open>fake_task\<close>, whose priority keeps the classes from pulling and whose class has an empty \<open>put_prev_task\<close> -
  as the time-sharing class has: that one stands for it.
\<close>

definition fake_task :: "task_struct \<Rightarrow> task_struct" where
  "fake_task t = t\<lparr>p_prio := MAX_PRIO + 1, p_sched_class := Ts_class\<rparr>"

fun migrate_loop :: "kenv \<Rightarrow> task_id \<Rightarrow> nat \<Rightarrow> cpu_id \<Rightarrow> sys \<Rightarrow> sys" where
  "migrate_loop e fake 0 c s = raise_fault No_progress s"
| "migrate_loop e fake (Suc n) c s =
     (if rq_nr_running (rqs s c) = 1 then s
      else case pick_next_task e c fake s of
        (None, s1) \<Rightarrow> raise_fault Bug_on s1
      | (Some p, s1) \<Rightarrow>
          let s2 = put_prev_task e c p s1
          in if p_cpu (tasks s2 p) \<noteq> c \<or> \<not> task_on_rq_queued s2 p then migrate_loop e fake n c s2
             else (case select_fallback_rq e c p s2 of (dest, s3) \<Rightarrow> migrate_loop e fake n c (migrate_task e c p dest s3)))"

definition migrate_tasks :: "kenv \<Rightarrow> task_id \<Rightarrow> cpu_id \<Rightarrow> sys \<Rightarrow> sys" where
  "migrate_tasks e fake c s =
     (let stop = rq_stop (rqs s c);
          s1 = upd_task fake fake_task (upd_rq c (\<lambda>rq. rq\<lparr>rq_stop := None\<rparr>) s);
          s2 = migrate_loop e fake (e_fuel e) c (update_rq_clock c s1)
      in upd_rq c (\<lambda>rq. rq\<lparr>rq_stop := stop\<rparr>) s2)"

text \<open>The call of \<open>sched_tick_stop\<close> is the transition of the remote tick below.\<close>

definition sched_cpu_dying :: "hotplug_env \<Rightarrow> task_id \<Rightarrow> cpu_id \<Rightarrow> hotplug \<Rightarrow> hotplug" where
  "sched_cpu_dying e fake c h =
     (let h1 = on_sys (sched_ttwu_pending (he_kenv e) c) h;
          h2 = (if \<not> rd_span (rds (h_sys h1) (rq_rd (rqs (h_sys h1) c))) c then on_sys (raise_fault Bug_on) h1
                else set_rq_offline e c h1);
          h3 = on_sys (migrate_tasks (he_kenv e) fake c) h2
      in if rq_nr_running (rqs (h_sys h3) c) \<noteq> 1 then on_sys (raise_fault Bug_on) h3 else h3)"

section \<open>The remote tick\<close>

definition TICK_SCHED_REMOTE_OFFLINE :: int where "TICK_SCHED_REMOTE_OFFLINE = 0"
definition TICK_SCHED_REMOTE_OFFLINING :: int where "TICK_SCHED_REMOTE_OFFLINING = 1"
definition TICK_SCHED_REMOTE_RUNNING :: int where "TICK_SCHED_REMOTE_RUNNING = 2"

text \<open>The state of the work of a CPU, how often the work is queued, and whether a warning was given.\<close>

record tick_work =
  tw_state :: int
  tw_queued :: nat
  tw_warned :: bool

definition tw_warn :: "bool \<Rightarrow> tick_work \<Rightarrow> tick_work" where
  "tw_warn b t = t\<lparr>tw_warned := tw_warned t \<or> b\<rparr>"

definition sched_tick_start :: "bool \<Rightarrow> tick_work \<Rightarrow> tick_work" where
  "sched_tick_start housekeeping t =
     (if housekeeping then t
      else
        let os = tw_state t;
            t1 = tw_warn (os = TICK_SCHED_REMOTE_RUNNING) (t\<lparr>tw_state := TICK_SCHED_REMOTE_RUNNING\<rparr>)
        in if os = TICK_SCHED_REMOTE_OFFLINE then t1\<lparr>tw_queued := tw_queued t1 + 1\<rparr> else t1)"

definition sched_tick_stop :: "bool \<Rightarrow> tick_work \<Rightarrow> tick_work" where
  "sched_tick_stop housekeeping t =
     (if housekeeping then t
      else tw_warn (tw_state t \<noteq> TICK_SCHED_REMOTE_RUNNING) (t\<lparr>tw_state := TICK_SCHED_REMOTE_OFFLINING\<rparr>))"

text \<open>The run of the work: the tick of the other CPU's task, and the next state.\<close>

definition remote_tick :: "kenv \<Rightarrow> bool \<Rightarrow> cpu_id \<Rightarrow> sys \<Rightarrow> sys" where
  "remote_tick e tick_stopped c s =
     (if idle_cpu s c \<or> \<not> tick_stopped then s
      else
        let p = rq_curr (rqs s c)
        in if is_idle_task (tasks s p) \<or> \<not> cpu_online_mask s c then s
           else let s1 = update_rq_clock c s in class_task_tick e (p_sched_class (tasks s1 p)) c p False s1)"

definition sched_tick_remote :: "tick_work \<Rightarrow> tick_work" where
  "sched_tick_remote t =
     (let os = tw_state t;
          t1 = t\<lparr>tw_queued := tw_queued t - 1, tw_state := (if os \<noteq> TICK_SCHED_REMOTE_RUNNING then os - 1 else os)\<rparr>;
          t2 = tw_warn (os = TICK_SCHED_REMOTE_OFFLINE) t1
      in if os = TICK_SCHED_REMOTE_RUNNING then t2\<lparr>tw_queued := tw_queued t2 + 1\<rparr> else t2)"

text \<open>A CPU comes up and goes down in turn; the work runs whenever it is queued.\<close>

inductive tick_reach :: "bool \<Rightarrow> tick_work \<Rightarrow> bool" where
  boot: "tick_reach False \<lparr>tw_state = TICK_SCHED_REMOTE_OFFLINE, tw_queued = 0, tw_warned = False\<rparr>"
| up: "tick_reach False t \<Longrightarrow> tick_reach True (sched_tick_start False t)"
| down: "tick_reach True t \<Longrightarrow> tick_reach False (sched_tick_stop False t)"
| run: "tick_reach b t \<Longrightarrow> 0 < tw_queued t \<Longrightarrow> tick_reach b (sched_tick_remote t)"

end
