(* ===== verification/Sched_Hotplug_Props.thy ===== *)
theory Sched_Hotplug_Props
  imports Sched_Hotplug Sched_Policy
begin

text \<open>
  The states of the remote tick, the refused deactivation of a CPU, and the tasks a dying CPU is left with.
\<close>

section \<open>The remote tick\<close>

lemmas tick_states = TICK_SCHED_REMOTE_OFFLINE_def TICK_SCHED_REMOTE_OFFLINING_def TICK_SCHED_REMOTE_RUNNING_def

text \<open>
  C24: however a CPU goes down and up again while its remote tick runs, in every order the hotplug core allows, the
  remote tick is \<open>RUNNING\<close> exactly while the CPU is up, is queued exactly once unless it is \<open>OFFLINE\<close>, and none
  of the warnings of the code is given.
\<close>

theorem remote_tick_state_machine:
  assumes "tick_reach b t"
  shows "\<not> tw_warned t
    \<and> tw_queued t = (if tw_state t = TICK_SCHED_REMOTE_OFFLINE then 0 else 1)
    \<and> (if b then tw_state t = TICK_SCHED_REMOTE_RUNNING
       else tw_state t = TICK_SCHED_REMOTE_OFFLINE \<or> tw_state t = TICK_SCHED_REMOTE_OFFLINING)"
  using assms
  by induction (auto simp: sched_tick_start_def sched_tick_stop_def sched_tick_remote_def tw_warn_def Let_def tick_states split: if_splits)

theorem remote_tick_state_machine_witness:
  "tick_reach True (sched_tick_start False (sched_tick_stop False (sched_tick_remote (sched_tick_start False
     \<lparr>tw_state = TICK_SCHED_REMOTE_OFFLINE, tw_queued = 0, tw_warned = False\<rparr>))))
   \<and> tw_queued (sched_tick_start False (sched_tick_stop False (sched_tick_remote (sched_tick_start False
     \<lparr>tw_state = TICK_SCHED_REMOTE_OFFLINE, tw_queued = 0, tw_warned = False\<rparr>)))) = 1"
proof -
  let ?t = "sched_tick_start False \<lparr>tw_state = TICK_SCHED_REMOTE_OFFLINE, tw_queued = 0, tw_warned = False\<rparr>"
  have "tick_reach True ?t" by (intro tick_reach.intros)
  moreover have "0 < tw_queued ?t" by (simp add: sched_tick_start_def tw_warn_def Let_def)
  ultimately have r: "tick_reach True (sched_tick_start False (sched_tick_stop False (sched_tick_remote ?t)))" by (intro tick_reach.intros)
  show ?thesis using r remote_tick_state_machine[OF r] by (simp add: tick_states)
qed

section \<open>Activation\<close>

lemma set_active_twice: "set_cpu_active c True (set_cpu_active c False h) = set_cpu_active c True h"
  by (simp add: set_cpu_active_def on_sys_def)

text \<open>
  When a deadline reservation forbids to take a CPU down, the error is \<open>EBUSY\<close> and the CPU is active again with
  nothing else changed, except that the count of cores with two threads stays one too low.
\<close>

theorem cpu_deactivate_refused:
  assumes "sched_cpu_deactivate e c h = (Some err, h')" "cpu_active_mask (h_sys h) c"
  shows "err = EBUSY \<and> h_sys h' = h_sys h \<and> h_rd_online h' = h_rd_online h \<and> h_num_cpus_frozen h' = h_num_cpus_frozen h
    \<and> h_smt_present h' = h_smt_present h - (if he_smt_weight e c = 2 then 1 else 0)"
proof -
  have a: "(cpu_active_mask (h_sys h))(c := True) = cpu_active_mask (h_sys h)" using assms(2) by (simp add: fun_eq_iff)
  show ?thesis using assms(1) a
    by (auto simp: sched_cpu_deactivate_def cpuset_cpu_inactive_def set_cpu_active_def on_sys_def Let_def split: if_splits)
qed

lemma set_rq_online_twice: "set_rq_online e c (set_rq_online e c h) = set_rq_online e c h"
  if "\<And>k s. rq_online (rqs (he_rq_online e k c s) c) = rq_online (rqs s c)"
proof -
  have k: "rq_online (rqs (class_rq_online e k c s) c) = rq_online (rqs s c)" for k s
    using that by (auto simp: class_rq_online_def rq_online_rt_def enable_runtime_def rt_set_overload_def cpupri_set_def upd_rt_def Let_def
        split: sched_class.split)
  have "rq_online (rqs (fold (\<lambda>k. class_rq_online e k c) ks s) c) = rq_online (rqs s c)" for ks s
    by (induction ks arbitrary: s) (simp_all add: k)
  then show ?thesis by (simp add: set_rq_online_def on_sys_def Let_def)
qed

section \<open>The end of a CPU\<close>

lemma migrate_loop_ends: "fault (migrate_loop e fake n c s) \<noteq> None \<or> rq_nr_running (rqs (migrate_loop e fake n c s) c) = 1"
proof (induction n arbitrary: s)
  case 0
  then show ?case by (simp add: raise_fault_def split: option.split)
next
  case (Suc n)
  have "fault (raise_fault f u) \<noteq> None" for f u by (simp add: raise_fault_def split: option.split)
  then show ?case using Suc.IH by (auto simp: Let_def split: option.split prod.split)
qed

text \<open>
  A dying CPU whose run queue counts its stop task alone is left with every time-sharing task it has queued: the
  tasks are not moved, since the class does not count its tasks in \<open>nr_running\<close>.
\<close>

theorem dying_cpu_keeps_ts_tasks:
  assumes offline: "\<not> rq_online (rqs (h_sys h) c)" and span: "rd_span (rds (h_sys h) (rq_rd (rqs (h_sys h) c))) c"
    and wakeups: "rq_wake_list (rqs (h_sys h) c) = []" and stop: "rq_nr_running (rqs (h_sys h) c) = 1" and fuel: "0 < e_fuel (he_kenv e)"
  shows "ts_queues (h_sys (sched_cpu_dying e fake c h)) c = ts_queues (h_sys h) c
    \<and> (\<forall>p. p \<noteq> fake \<longrightarrow> tasks (h_sys (sched_cpu_dying e fake c h)) p = tasks (h_sys h) p)
    \<and> fault (h_sys (sched_cpu_dying e fake c h)) = fault (h_sys h)"
proof -
  obtain n where n: "e_fuel (he_kenv e) = Suc n" using fuel by (cases "e_fuel (he_kenv e)") simp_all
  have w: "sched_ttwu_pending (he_kenv e) c (h_sys h) = h_sys h" using wakeups by (simp add: sched_ttwu_pending_def)
  let ?s = "h_sys h"
  let ?s1 = "upd_task fake fake_task (upd_rq c (\<lambda>rq. rq\<lparr>rq_stop := None\<rparr>) ?s)"
  have "rq_nr_running (rqs (update_rq_clock c ?s1) c) = 1" using stop by simp
  then have m: "migrate_tasks (he_kenv e) fake c ?s = upd_rq c (\<lambda>rq. rq\<lparr>rq_stop := rq_stop (rqs ?s c)\<rparr>) (update_rq_clock c ?s1)"
    by (simp add: migrate_tasks_def n Let_def)
  have d: "h_sys (sched_cpu_dying e fake c h) = migrate_tasks (he_kenv e) fake c ?s"
    using offline span w stop by (simp add: sched_cpu_dying_def on_sys_def set_rq_offline_def m Let_def)
  show ?thesis unfolding d m by (simp add: ts_queues_def)
qed

definition busy_env :: hotplug_env where
  "busy_env = \<lparr>he_kenv = quiet_env, he_rq_online = (\<lambda>_ _ s. s), he_rq_offline = (\<lambda>_ _ s. s), he_scheduler_running = True,
     he_smt_weight = (\<lambda>_. 2), he_partition_domains = (\<lambda>h. h), he_cpuset_update = (\<lambda>h. h), he_cpuset_rebuild = (\<lambda>h. h),
     he_dl_cpu_busy = (\<lambda>_ _. True)\<rparr>"

definition dying_demo :: hotplug where
  "dying_demo = \<lparr>h_sys = upd_rq 1 (\<lambda>rq. rq\<lparr>rq_online := False, rq_nr_running := 1, rq_ts := \<lparr>ts_queue = (replicate 40 [])[5 := [7]]\<rparr>\<rparr>) boot_sys,
     h_rd_online = (\<lambda>_ _. True), h_smt_present = 1, h_num_cpus_frozen = 0, h_smp_initialized = True, h_tasks_frozen = False\<rparr>"

theorem dying_cpu_keeps_ts_tasks_witness: "ts_queues (h_sys (sched_cpu_dying busy_env 9 1 dying_demo)) 1 ! 5 = [7]"
proof -
  have "ts_queues (h_sys (sched_cpu_dying busy_env 9 1 dying_demo)) 1 = ts_queues (h_sys dying_demo) 1"
    using dying_cpu_keeps_ts_tasks[of dying_demo 1 busy_env 9]
    by (simp add: dying_demo_def boot_sys_def boot_rq_def busy_env_def quiet_env_def)
  then show ?thesis by (simp add: dying_demo_def ts_queues_def)
qed

theorem cpu_deactivate_refused_witness:
  "\<exists>h'. sched_cpu_deactivate busy_env 1 dying_demo = (Some EBUSY, h') \<and> h_sys h' = h_sys dying_demo \<and> h_smt_present h' = 0"
proof -
  obtain r h' where r: "sched_cpu_deactivate busy_env 1 dying_demo = (r, h')" by fastforce
  have "fst (sched_cpu_deactivate busy_env 1 dying_demo) = Some EBUSY"
    by (simp add: sched_cpu_deactivate_def cpuset_cpu_inactive_def busy_env_def dying_demo_def set_cpu_active_def on_sys_def)
  then have e: "sched_cpu_deactivate busy_env 1 dying_demo = (Some EBUSY, h')" using r by simp
  have "cpu_active_mask (h_sys dying_demo) 1" by (simp add: dying_demo_def boot_sys_def upd_rq_def)
  from cpu_deactivate_refused[OF e this] show ?thesis using e by (simp add: busy_env_def dying_demo_def)
qed

end
