(* ===== verification/Sched_Entry.thy ===== *)
theory Sched_Entry
  imports Sched_Params
begin

text \<open>
  The ways into the scheduler (\<open>kernel/sched/core.c\<close>): \<open>schedule\<close>, the preemption of the kernel and of interrupts,
  voluntary preemption, waiting for I/O and the end of a task, with the preemption count they keep; the checks
  of a task that changes its cpuset, the reset of all real-time tasks, yielding to a task and waiting for one.
\<close>

section \<open>The preemption count\<close>

text \<open>
  What a way into the scheduler sees besides the machine: the preemption count (an \<open>int\<close>), whether
  interrupts are off, and whether a warning was given.  \<open>PREEMPT_MASK\<close> is its lowest byte.
\<close>

record ctx =
  c_count :: int
  c_irqs_off :: bool
  c_warned :: bool
  c_sys :: sys

definition PREEMPT_MASK :: int where "PREEMPT_MASK = 255"

definition c_warn :: "bool \<Rightarrow> ctx \<Rightarrow> ctx" where
  "c_warn b x = x\<lparr>c_warned := c_warned x \<or> b\<rparr>"

definition preempt_count_add :: "int \<Rightarrow> ctx \<Rightarrow> ctx" where
  "preempt_count_add val x =
     (if c_count x < 0 then c_warn True x
      else
        let x1 = x\<lparr>c_count := c_count x + val\<rparr>
        in c_warn (c_count x1 mod 256 \<ge> PREEMPT_MASK - 10) x1)"

definition preempt_count_sub :: "int \<Rightarrow> ctx \<Rightarrow> ctx" where
  "preempt_count_sub val x =
     (if val > c_count x then c_warn True x
      else if val < PREEMPT_MASK \<and> c_count x mod 256 = 0 then c_warn True x
      else x\<lparr>c_count := c_count x - val\<rparr>)"

definition preempt_disable :: "ctx \<Rightarrow> ctx" where
  "preempt_disable = preempt_count_add 1"

definition preempt_enable_no_resched :: "ctx \<Rightarrow> ctx" where
  "preempt_enable_no_resched = preempt_count_sub 1"

definition preemptible :: "ctx \<Rightarrow> bool" where
  "preemptible x \<longleftrightarrow> c_count x = 0 \<and> \<not> c_irqs_off x"

definition need_resched :: "sys \<Rightarrow> bool" where
  "need_resched s \<longleftrightarrow> p_need_resched (tasks s (rq_curr (rqs s (this_cpu s))))"

definition in_sched :: "(sys \<Rightarrow> sys) \<Rightarrow> ctx \<Rightarrow> ctx" where
  "in_sched f x = x\<lparr>c_sys := f (c_sys x)\<rparr>"

section \<open>Ways into the scheduler\<close>

text \<open>
  Every one of them is a loop around \<open>__schedule\<close>, with something before and after each round; \<open>n\<close> bounds
  the rounds.
\<close>

fun sched_rounds :: "kenv \<Rightarrow> bool \<Rightarrow> (ctx \<Rightarrow> ctx) \<Rightarrow> (ctx \<Rightarrow> ctx) \<Rightarrow> nat \<Rightarrow> ctx \<Rightarrow> ctx" where
  "sched_rounds e preempt before after 0 x = in_sched (raise_fault No_progress) x"
| "sched_rounds e preempt before after (Suc n) x =
     (let x1 = after (in_sched (schedule_once e preempt) (before x))
      in if need_resched (c_sys x1) then sched_rounds e preempt before after n x1 else x1)"

text \<open>\<open>flush\<close> submits the plugged requests of a task; \<open>blocked\<close> says it waits for a mutex with inheritance.\<close>

definition sched_submit_work :: "(sys \<Rightarrow> task_id \<Rightarrow> bool) \<Rightarrow> (task_id \<Rightarrow> sys \<Rightarrow> sys) \<Rightarrow> task_id \<Rightarrow> sys \<Rightarrow> sys" where
  "sched_submit_work blocked flush p s = (if p_state (tasks s p) = 0 \<or> blocked s p then s else flush p s)"

definition schedule_ctx :: "kenv \<Rightarrow> (sys \<Rightarrow> task_id \<Rightarrow> bool) \<Rightarrow> (task_id \<Rightarrow> sys \<Rightarrow> sys) \<Rightarrow> ctx \<Rightarrow> ctx" where
  "schedule_ctx e blocked flush x =
     sched_rounds e False preempt_disable preempt_enable_no_resched (e_fuel e)
       (in_sched (\<lambda>s. sched_submit_work blocked flush (current s) s) x)"

definition schedule_idle :: "kenv \<Rightarrow> ctx \<Rightarrow> ctx" where
  "schedule_idle e x =
     sched_rounds e False (\<lambda>x. x) (\<lambda>x. x) (e_fuel e) (c_warn (p_state (tasks (c_sys x) (current (c_sys x))) \<noteq> 0) x)"

definition schedule_preempt_disabled :: "kenv \<Rightarrow> (sys \<Rightarrow> task_id \<Rightarrow> bool) \<Rightarrow> (task_id \<Rightarrow> sys \<Rightarrow> sys) \<Rightarrow> ctx \<Rightarrow> ctx" where
  "schedule_preempt_disabled e blocked flush x =
     preempt_disable (schedule_ctx e blocked flush (preempt_enable_no_resched x))"

definition preempt_schedule_common :: "kenv \<Rightarrow> ctx \<Rightarrow> ctx" where
  "preempt_schedule_common e = sched_rounds e True preempt_disable preempt_enable_no_resched (e_fuel e)"

definition preempt_schedule :: "kenv \<Rightarrow> ctx \<Rightarrow> ctx" where
  "preempt_schedule e x = (if \<not> preemptible x then x else preempt_schedule_common e x)"

definition preempt_schedule_irq :: "kenv \<Rightarrow> ctx \<Rightarrow> ctx" where
  "preempt_schedule_irq e x =
     (if c_count x \<noteq> 0 \<or> \<not> c_irqs_off x then in_sched (raise_fault Bug_on) x
      else sched_rounds e True (\<lambda>x. (preempt_disable x)\<lparr>c_irqs_off := False\<rparr>)
             (\<lambda>x. preempt_enable_no_resched (x\<lparr>c_irqs_off := True\<rparr>)) (e_fuel e) x)"

text \<open>\<open>should_resched\<close>: the count is as expected and a reschedule is due.\<close>

definition should_resched :: "int \<Rightarrow> ctx \<Rightarrow> bool" where
  "should_resched offset x \<longleftrightarrow> c_count x = offset \<and> need_resched (c_sys x)"

definition cond_resched :: "kenv \<Rightarrow> ctx \<Rightarrow> bool \<times> ctx" where
  "cond_resched e x = (if should_resched 0 x then (True, preempt_schedule_common e x) else (False, x))"

text \<open>\<open>unlock\<close> and \<open>lock\<close> also lower and raise the count; \<open>contended\<close> is \<open>spin_needbreak\<close>.\<close>

definition cond_resched_lock :: "kenv \<Rightarrow> int \<Rightarrow> bool \<Rightarrow> ctx \<Rightarrow> bool \<times> ctx" where
  "cond_resched_lock e offset contended x =
     (let resched = should_resched offset x
      in if contended \<or> resched then
           let x1 = preempt_count_sub offset x;
               x2 = (if resched then preempt_schedule_common e x1 else x1)
           in (True, preempt_count_add offset x2)
         else (False, x))"

definition PF_NOFREEZE :: u32 where "PF_NOFREEZE = 0x00008000"

text \<open>The last call of a task: were it to run on, that is a bug.\<close>

definition do_task_dead :: "kenv \<Rightarrow> sys \<Rightarrow> sys" where
  "do_task_dead e s =
     (let p = current s;
          s1 = schedule_once e False (upd_task p (\<lambda>t. t\<lparr>p_state := TASK_DEAD, p_flags := p_flags t OR PF_NOFREEZE\<rparr>) s)
      in if current s1 = p then raise_fault Bug_on s1 else s1)"

section \<open>Sleeping for a device\<close>

definition io_schedule_prepare :: "(task_id \<Rightarrow> sys \<Rightarrow> sys) \<Rightarrow> sys \<Rightarrow> bool \<times> sys" where
  "io_schedule_prepare flush s =
     (p_in_iowait (tasks s (current s)), flush (current s) (upd_task (current s) (\<lambda>t. t\<lparr>p_in_iowait := True\<rparr>) s))"

text \<open>The task that finishes is the one that prepared.\<close>

definition io_schedule_finish :: "task_id \<Rightarrow> bool \<Rightarrow> sys \<Rightarrow> sys" where
  "io_schedule_finish p token = upd_task p (\<lambda>t. t\<lparr>p_in_iowait := token\<rparr>)"

definition io_schedule :: "(sys \<Rightarrow> sys) \<Rightarrow> (task_id \<Rightarrow> sys \<Rightarrow> sys) \<Rightarrow> sys \<Rightarrow> sys" where
  "io_schedule sleep flush s =
     (case io_schedule_prepare flush s of (token, s1) \<Rightarrow> io_schedule_finish (current s) token (sleep s1))"

definition io_schedule_timeout :: "(sys \<Rightarrow> int \<times> sys) \<Rightarrow> (task_id \<Rightarrow> sys \<Rightarrow> sys) \<Rightarrow> sys \<Rightarrow> int \<times> sys" where
  "io_schedule_timeout sleep flush s =
     (case io_schedule_prepare flush s of (token, s1) \<Rightarrow>
        (case sleep s1 of (ret, s2) \<Rightarrow> (ret, io_schedule_finish (current s) token s2)))"

section \<open>Attaching and resetting tasks\<close>

text \<open>What the deadline class answers are arguments.\<close>

definition cpuset_cpumask_can_shrink :: "(cpumask \<Rightarrow> cpumask \<Rightarrow> bool) \<Rightarrow> sys \<Rightarrow> cpumask \<Rightarrow> cpumask \<Rightarrow> bool" where
  "cpuset_cpumask_can_shrink dl_can_shrink s cur trial =
     (if cpumask_weight s cur = 0 then True else dl_can_shrink cur trial)"

definition task_can_attach :: "(task_id \<Rightarrow> cpumask \<Rightarrow> errno option) \<Rightarrow> sys \<Rightarrow> task_id \<Rightarrow> cpumask \<Rightarrow> errno option" where
  "task_can_attach dl_can_attach s p cs_cpus_allowed =
     (if flag_set (p_flags (tasks s p)) PF_NO_SETAFFINITY then Some EINVAL
      else if dl_task (tasks s p) \<and> \<not> list_ex (\<lambda>c. rd_span (rds s (rq_rd (rqs s (p_cpu (tasks s p))))) c \<and> cs_cpus_allowed c) [0..<nr_cpu_ids s]
        then dl_can_attach p cs_cpus_allowed
      else None)"

text \<open>The tasks of the user lose real-time priorities and negative nice values.\<close>

definition normalize_task :: "kenv \<Rightarrow> params_env \<Rightarrow> task_id \<Rightarrow> sys \<Rightarrow> sys" where
  "normalize_task e x p s =
     (if flag_set (p_flags (tasks s p)) PF_KTHREAD then s
      else
        let s1 = upd_task p (\<lambda>t. t\<lparr>p_se := (p_se t)\<lparr>se_exec_start := 0\<rparr>\<rparr>) s
        in if \<not> dl_task (tasks s1 p) \<and> \<not> rt_task (tasks s1 p) then
             (if task_nice (tasks s1 p) < 0 then set_user_nice e p 0 s1 else s1)
           else snd (sched_setscheduler_attr e x p
                  \<lparr>a_policy = SCHED_NORMAL, a_flags = 0, a_nice = 0, a_priority = 0, a_runtime = 0, a_deadline = 0, a_period = 0\<rparr> False False s1))"

definition normalize_rt_tasks :: "kenv \<Rightarrow> params_env \<Rightarrow> task_id list \<Rightarrow> sys \<Rightarrow> sys" where
  "normalize_rt_tasks e x threads s = fold (normalize_task e x) threads s"

section \<open>Giving way to a task\<close>

text \<open>
  \<open>lock_both\<close> is what other CPUs do before two run queues are locked, and \<open>op\<close> the operation \<open>yield_to_task\<close> of
  a class, which only some classes have.
\<close>

fun yield_to_locked ::
  "(cpu_id \<Rightarrow> cpu_id \<Rightarrow> sys \<Rightarrow> sys) \<Rightarrow> (sched_class \<Rightarrow> (cpu_id \<Rightarrow> task_id \<Rightarrow> bool \<Rightarrow> sys \<Rightarrow> bool \<times> sys) option) \<Rightarrow> nat \<Rightarrow>
   task_id \<Rightarrow> bool \<Rightarrow> sys \<Rightarrow> int \<times> sys" where
  "yield_to_locked lock_both yield_op 0 p preempt s = (0, raise_fault No_progress s)"
| "yield_to_locked lock_both yield_op (Suc n) p preempt s =
     (let c = this_cpu s; d = p_cpu (tasks s p)
      in if rq_nr_running (rqs s c) = 1 \<and> rq_nr_running (rqs s d) = 1 then (- errno_val ESRCH, s)
         else
           let s1 = lock_both c d s; cur = current s; k = p_sched_class (tasks s1 cur)
           in if p_cpu (tasks s1 p) \<noteq> d then yield_to_locked lock_both yield_op n p preempt s1
              else case yield_op k of
                None \<Rightarrow> (0, s1)
              | Some f \<Rightarrow>
                  if k \<noteq> p_sched_class (tasks s1 p) then (0, s1)
                  else if task_running s1 p \<or> p_state (tasks s1 p) \<noteq> 0 then (0, s1)
                  else case f c p preempt s1 of
                    (yielded, s2) \<Rightarrow>
                      if yielded then (1, if preempt \<and> c \<noteq> d then resched_curr d s2 else s2) else (0, s2))"

definition yield_to ::
  "kenv \<Rightarrow> (cpu_id \<Rightarrow> cpu_id \<Rightarrow> sys \<Rightarrow> sys) \<Rightarrow> (sched_class \<Rightarrow> (cpu_id \<Rightarrow> task_id \<Rightarrow> bool \<Rightarrow> sys \<Rightarrow> bool \<times> sys) option) \<Rightarrow>
   task_id \<Rightarrow> bool \<Rightarrow> sys \<Rightarrow> int \<times> sys" where
  "yield_to e lock_both yield_op p preempt s =
     (case yield_to_locked lock_both yield_op (e_fuel e) p preempt s of
        (yielded, s1) \<Rightarrow> (yielded, if yielded > 0 then schedule e s1 else s1))"

definition yield :: "kenv \<Rightarrow> sys \<Rightarrow> sys" where
  "yield e s = do_sched_yield e (upd_task (current s) (\<lambda>t. t\<lparr>p_state := TASK_RUNNING\<rparr>) s)"

section \<open>Waiting until a task is off its CPU\<close>

text \<open>
  Other CPUs go on between any two looks (\<open>others\<close>) and while the caller sleeps (\<open>sleep\<close>); \<open>None\<close> says that \<open>n\<close>
  looks were not enough.  In the inner loop, \<open>True\<close> says that the state of the task has changed.
\<close>

fun spin_running :: "(sys \<Rightarrow> sys) \<Rightarrow> nat \<Rightarrow> task_id \<Rightarrow> u64 \<Rightarrow> sys \<Rightarrow> (bool \<times> sys) option" where
  "spin_running others 0 p match_state s = None"
| "spin_running others (Suc n) p match_state s =
     (if \<not> task_running s p then Some (False, s)
      else if match_state \<noteq> 0 \<and> p_state (tasks s p) \<noteq> match_state then Some (True, s)
      else spin_running others n p match_state (others s))"

definition LONG_MIN :: u64 where "LONG_MIN = push_bit 63 1"

fun wait_task_inactive :: "(sys \<Rightarrow> sys) \<Rightarrow> (sys \<Rightarrow> sys) \<Rightarrow> nat \<Rightarrow> task_id \<Rightarrow> u64 \<Rightarrow> sys \<Rightarrow> (u64 \<times> sys) option" where
  "wait_task_inactive others sleep 0 p match_state s = None"
| "wait_task_inactive others sleep (Suc n) p match_state s =
     (case spin_running others n p match_state s of
        None \<Rightarrow> None
      | Some (True, s1) \<Rightarrow> Some (0, s1)
      | Some (False, s1) \<Rightarrow>
          let s2 = others s1;
              ncsw = (if match_state = 0 \<or> p_state (tasks s2 p) = match_state then p_nvcsw (tasks s2 p) OR LONG_MIN else 0)
          in if ncsw = 0 then Some (0, s2)
             else if task_running s2 p then wait_task_inactive others sleep n p match_state (others s2)
             else if task_on_rq_queued s2 p then wait_task_inactive others sleep n p match_state (sleep s2)
             else Some (ncsw, s2))"

section \<open>Moving the current task\<close>

definition SD_BALANCE_EXEC :: u32 where "SD_BALANCE_EXEC = 0x0004"

definition sched_exec :: "kenv \<Rightarrow> sys \<Rightarrow> sys" where
  "sched_exec e s =
     (let p = current s;
          dest_cpu = class_select_task_rq e (p_sched_class (tasks s p)) p (p_cpu (tasks s p)) SD_BALANCE_EXEC 0 s
      in if dest_cpu = this_cpu s then s
         else if cpu_active_mask s dest_cpu then migration_cpu_stop e (sched_ttwu_pending e) (p_cpu (tasks s p)) p dest_cpu s
         else s)"

definition migrate_task_to :: "kenv \<Rightarrow> task_id \<Rightarrow> cpu_id \<Rightarrow> sys \<Rightarrow> errno option \<times> sys" where
  "migrate_task_to e p target_cpu s =
     (if p_cpu (tasks s p) = target_cpu then (None, s)
      else if \<not> p_cpus_allowed (tasks s p) target_cpu then (Some EINVAL, s)
      else (None, migration_cpu_stop e (sched_ttwu_pending e) (p_cpu (tasks s p)) p target_cpu s))"

end
