(* ===== verification/Sched_Entry_Props.thy ===== *)
theory Sched_Entry_Props
  imports Sched_Entry Sched_Policy
begin

text \<open>
  Every way into the scheduler leaves the preemption count and the interrupt flag as it found them; waiting
  for a task ends.
\<close>

section \<open>Every way into the scheduler leaves as it came\<close>

definition same_ctx :: "ctx \<Rightarrow> ctx \<Rightarrow> bool" where
  "same_ctx x y \<longleftrightarrow> c_count y = c_count x \<and> c_irqs_off y = c_irqs_off x \<and> c_warned y = c_warned x"

definition settled :: "sys \<Rightarrow> bool" where
  "settled s \<longleftrightarrow> \<not> need_resched s \<or> fault s \<noteq> None"

lemma raise_fault_settled: "settled (raise_fault f s)"
  by (simp add: settled_def raise_fault_def split: option.split)

lemma rounds_balanced:
  assumes "\<And>y. same_ctx x y \<Longrightarrow> same_ctx x (after (in_sched (schedule_once e preempt) (before y)))" "same_ctx x y"
  shows "same_ctx x (sched_rounds e preempt before after n y) \<and> settled (c_sys (sched_rounds e preempt before after n y))"
  using assms(2)
proof (induction n arbitrary: y)
  case 0
  then show ?case by (simp add: in_sched_def same_ctx_def raise_fault_settled)
next
  case (Suc n)
  have r: "same_ctx x (after (in_sched (schedule_once e preempt) (before y)))" using assms(1) Suc.prems by blast
  show ?case using Suc.IH[OF r] r by (simp add: Let_def settled_def)
qed

lemma disable_enable:
  assumes "c_count y = 0"
  shows "same_ctx y (preempt_enable_no_resched (in_sched f (preempt_disable y)))"
  using assms by (simp add: same_ctx_def preempt_enable_no_resched_def preempt_disable_def preempt_count_sub_def preempt_count_add_def
      in_sched_def c_warn_def PREEMPT_MASK_def)

lemma same_ctx_trans: "same_ctx x y \<Longrightarrow> same_ctx y z \<Longrightarrow> same_ctx x z"
  by (simp add: same_ctx_def)

lemma common_balanced:
  assumes "c_count x = 0"
  shows "same_ctx x (preempt_schedule_common e x) \<and> settled (c_sys (preempt_schedule_common e x))"
  unfolding preempt_schedule_common_def
proof (rule rounds_balanced)
  fix y assume "same_ctx x y"
  then show "same_ctx x (preempt_enable_no_resched (in_sched (schedule_once e True) (preempt_disable y)))"
    using disable_enable[of y] assms by (auto simp: same_ctx_def)
qed (simp add: same_ctx_def)

lemma irq_balanced:
  assumes "c_count x = 0" "c_irqs_off x"
  shows "same_ctx x (preempt_schedule_irq e x) \<and> settled (c_sys (preempt_schedule_irq e x))"
proof -
  let ?r = "sched_rounds e True (\<lambda>x. (preempt_disable x)\<lparr>c_irqs_off := False\<rparr>)
      (\<lambda>x. preempt_enable_no_resched (x\<lparr>c_irqs_off := True\<rparr>)) (e_fuel e) x"
  have "same_ctx x ?r \<and> settled (c_sys ?r)"
  proof (rule rounds_balanced)
    fix y assume "same_ctx x y"
    then show "same_ctx x (preempt_enable_no_resched ((in_sched (schedule_once e True) ((preempt_disable y)\<lparr>c_irqs_off := False\<rparr>))\<lparr>c_irqs_off := True\<rparr>))"
      using assms by (simp add: same_ctx_def preempt_enable_no_resched_def preempt_disable_def preempt_count_sub_def preempt_count_add_def
          in_sched_def c_warn_def PREEMPT_MASK_def)
  qed (simp add: same_ctx_def)
  then show ?thesis using assms by (simp add: preempt_schedule_irq_def)
qed



section \<open>Waiting for a task ends\<close>

definition off_cpu :: "sys \<Rightarrow> task_id \<Rightarrow> bool" where
  "off_cpu s p \<longleftrightarrow> \<not> task_running s p \<and> \<not> task_on_rq_queued s p"

lemma ncsw_nonzero: "(x :: u64) OR LONG_MIN \<noteq> 0"
proof
  assume "x OR LONG_MIN = 0"
  then have "bit (x OR LONG_MIN) 63 = bit (0 :: u64) 63" by simp
  then show False by (simp add: LONG_MIN_def bit_or_iff bit_push_bit_iff)
qed

lemma spin_ends:
  assumes "\<And>t. \<not> off_cpu t p \<Longrightarrow> f (others t) < (f t :: nat)" "f s < n"
  shows "\<exists>r t. spin_running others n p m s = Some (r, t) \<and> f t \<le> f s"
  using assms(2)
proof (induction n arbitrary: s)
  case (Suc n)
  show ?case
  proof (cases "task_running s p")
    case True
    then have "f (others s) < f s" using assms(1) by (simp add: off_cpu_def)
    then show ?thesis using Suc.IH[of "others s"] Suc.prems by fastforce
  qed auto
qed simp

lemma wait_ends:
  assumes "\<And>t. \<not> off_cpu t p \<Longrightarrow> f (others t) < (f t :: nat) \<and> f (sleep t) < f t" "\<And>t. off_cpu t p \<Longrightarrow> off_cpu (others t) p" "f s + 1 < n"
  shows "wait_task_inactive others sleep n p m s \<noteq> None"
  using assms(3)
proof (induction n arbitrary: s)
  case (Suc n)
  obtain r t where t: "spin_running others n p m s = Some (r, t)" "f t \<le> f s"
    using spin_ends[of p f others s n m] assms(1) Suc.prems by auto
  show ?case
  proof (cases "off_cpu (others t) p")
    case True
    then show ?thesis using t(1) by (cases r) (simp_all add: Let_def off_cpu_def)
  next
    case False
    then have "\<not> off_cpu t p" using assms(2) by blast
    then have "f (others (others t)) + 1 < n" "f (sleep (others t)) + 1 < n"
      using assms(1)[of t] assms(1)[OF False] t(2) Suc.prems by linarith+
    then show ?thesis using t(1) Suc.IH by (cases r) (auto simp: Let_def)
  qed
qed simp

lemma spin_state:
  "spin_running others n p m s = Some (True, t) \<Longrightarrow> m \<noteq> 0 \<and> p_state (tasks t p) \<noteq> m"
  by (induction n arbitrary: s) (auto split: if_splits)

lemma wait_result:
  assumes "wait_task_inactive others sleep n p m s = Some (r, t)"
  shows "if r = 0 then m \<noteq> 0 \<and> p_state (tasks t p) \<noteq> m
    else off_cpu t p \<and> r = p_nvcsw (tasks t p) OR LONG_MIN \<and> (m \<noteq> 0 \<longrightarrow> p_state (tasks t p) = m)"
  using assms
proof (induction n arbitrary: s)
  case (Suc n)
  obtain b u where u: "spin_running others n p m s = Some (b, u)" using Suc.prems by (auto split: option.splits)
  show ?case
  proof (cases b)
    case True
    then show ?thesis using u spin_state[of others n p m s u] Suc.prems by simp
  next
    case False
    then show ?thesis using u Suc by (auto simp: Let_def off_cpu_def ncsw_nonzero split: if_splits)
  qed
qed simp

text \<open>
  C27: \<open>wait_task_inactive\<close> returns when the other CPUs make progress in taking the task off its CPU: either with 0,
  and the state of the task has changed, or with the switch count and the top bit set, and the task is neither
  running nor queued.
\<close>

theorem wait_task_inactive_ends:
  assumes "\<And>t. \<not> off_cpu t p \<Longrightarrow> f (others t) < (f t :: nat) \<and> f (sleep t) < f t" "\<And>t. off_cpu t p \<Longrightarrow> off_cpu (others t) p"
    "f s + 1 < n"
  shows "\<exists>r t. wait_task_inactive others sleep n p m s = Some (r, t)
    \<and> (if r = 0 then m \<noteq> 0 \<and> p_state (tasks t p) \<noteq> m
       else off_cpu t p \<and> r = p_nvcsw (tasks t p) OR LONG_MIN \<and> (m \<noteq> 0 \<longrightarrow> p_state (tasks t p) = m))"
proof -
  obtain r t where rt: "wait_task_inactive others sleep n p m s = Some (r, t)" using wait_ends[OF assms, of m] by auto
  show ?thesis using wait_result[OF rt] rt by blast
qed

text \<open>Another CPU takes the task off its CPU and its run queue.\<close>

definition stop_running :: "task_id \<Rightarrow> sys \<Rightarrow> sys" where
  "stop_running p = upd_task p (\<lambda>t. if p_on_cpu t then t\<lparr>p_on_cpu := False\<rparr> else t\<lparr>p_on_rq := 0\<rparr>)"

theorem wait_task_inactive_ends_witness:
  "\<exists>r t. wait_task_inactive (stop_running 5) (stop_running 5) 9 5 0 (upd_task 5 (\<lambda>t. t\<lparr>p_on_cpu := True, p_on_rq := 1\<rparr>) boot_sys) = Some (r, t)
     \<and> off_cpu t 5 \<and> r \<noteq> 0"
proof -
  let ?f = "\<lambda>s. (if p_on_cpu (tasks s 5) then 1 else 0) + (if p_on_rq (tasks s 5) = 1 then 1 else 0 :: nat)"
  let ?s = "upd_task 5 (\<lambda>t. t\<lparr>p_on_cpu := True, p_on_rq := 1\<rparr>) boot_sys"
  have "\<exists>r t. wait_task_inactive (stop_running 5) (stop_running 5) 9 5 0 ?s = Some (r, t)
    \<and> (if r = 0 then (0 :: u64) \<noteq> 0 \<and> p_state (tasks t 5) \<noteq> 0
       else off_cpu t 5 \<and> r = p_nvcsw (tasks t 5) OR LONG_MIN \<and> ((0 :: u64) \<noteq> 0 \<longrightarrow> p_state (tasks t 5) = 0))"
    by (rule wait_task_inactive_ends[of 5 ?f])
      (auto simp: off_cpu_def stop_running_def task_running_def task_on_rq_queued_def TASK_ON_RQ_QUEUED_def)
  then show ?thesis by (auto split: if_splits)
qed

section \<open>Giving way\<close>

text \<open>Only classes with an operation for it give way to a task; the others, the time-sharing class among them, do nothing.\<close>

lemma yield_to_without_operation:
  assumes "yield_op (p_sched_class (tasks s (current s))) = None" "0 < e_fuel e"
  shows "yield_to e (\<lambda>_ _ s. s) yield_op p preempt s = (if rq_nr_running (rqs s (this_cpu s)) = 1 \<and> rq_nr_running (rqs s (p_cpu (tasks s p))) = 1
    then - errno_val ESRCH else 0, s)"
proof -
  obtain n where "e_fuel e = Suc n" using assms(2) by (cases "e_fuel e") simp_all
  moreover have "\<not> - errno_val ESRCH > 0" by simp
  ultimately show ?thesis using assms(1) by (simp add: yield_to_def Let_def)
qed

text \<open>A task of the time-sharing class is never moved when it executes a program.\<close>

lemma sched_exec_keeps_ts_task:
  "p_sched_class (tasks s (current s)) = Ts_class \<Longrightarrow> p_cpu (tasks s (current s)) = this_cpu s \<Longrightarrow> sched_exec e s = s"
  by (simp add: sched_exec_def class_select_task_rq_def select_task_rq_ts_def Let_def)

end
