(* ===== verification/Sched_Boot.thy ===== *)
theory Sched_Boot
  imports Sched_Core
begin

text \<open>
  Boot (\<open>kernel/sched/core.c\<close>): \<open>sched_init\<close>, the idle tasks, and what follows when all CPUs are up.
\<close>

section \<open>Functions of other files\<close>

text \<open>
  The functions of other files that the boot calls: the initialisation of the fair and deadline queues, the
  default root domain, a run queue put into it, and the tunable \<open>sysctl_sched_migration_cost\<close>.
\<close>

record boot_env =
  be_kenv :: kenv
  be_init_cfs_rq :: "rq \<Rightarrow> rq"
  be_init_dl_rq :: "rq \<Rightarrow> rq"
  be_init_defrootdomain :: "sys \<Rightarrow> sys"
  be_rq_attach_root :: "cpu_id \<Rightarrow> sys \<Rightarrow> sys"
  be_migration_cost :: u64

section \<open>The idle task of a CPU\<close>

definition init_idle :: "task_id \<Rightarrow> cpu_id \<Rightarrow> sys \<Rightarrow> sys" where
  "init_idle idle c s =
     (let s1 = sched_fork_init idle s;
          s2 = upd_task idle (\<lambda>t. t\<lparr>p_state := TASK_RUNNING, p_se := (p_se t)\<lparr>se_exec_start := sched_clock s (this_cpu s)\<rparr>,
                 p_flags := p_flags t OR PF_IDLE\<rparr>) s1;
          s3 = set_cpus_allowed_common idle (\<lambda>d. d = c) s2;
          s4 = set_task_cpu_raw idle c s3;
          s5 = upd_rq c (\<lambda>rq. rq\<lparr>rq_curr := idle, rq_idle := idle\<rparr>) s4;
          s6 = upd_task idle (\<lambda>t. t\<lparr>p_on_rq := TASK_ON_RQ_QUEUED, p_on_cpu := True\<rparr>) s5
      in upd_task idle (\<lambda>t. t\<lparr>p_sched_class := Idle_class\<rparr>) s6)"

section \<open>Boot\<close>

text \<open>
  One run queue, as the loop of \<open>sched_init\<close> sets it up.  It has no root domain (\<open>rq->rd = NULL\<close>) until
  \<open>rq_attach_root\<close> gives it one.
\<close>

definition init_rq :: "boot_env \<Rightarrow> u64 \<Rightarrow> rq \<Rightarrow> rq" where
  "init_rq b runtime rq =
     (let r1 = be_init_cfs_rq b (rq\<lparr>rq_nr_running := 0\<rparr>);
          r2 = r1\<lparr>rq_rt := init_rt_rq (rq_rt r1)\<rparr>;
          r3 = be_init_dl_rq b r2;
          r4 = r3\<lparr>rq_ts := init_ts_rq (rq_ts r3)\<rparr>
      in r4\<lparr>rq_rt := (rq_rt r4)\<lparr>rt_runtime := runtime\<rparr>, rq_balance_callback := [], rq_online := False, rq_idle_stamp := 0,
            rq_avg_idle := 2 * be_migration_cost b, rq_max_idle_balance_cost := be_migration_cost b\<rparr>)"

definition init_cpu :: "boot_env \<Rightarrow> cpu_id \<Rightarrow> sys \<Rightarrow> sys" where
  "init_cpu b i s =
     (let s1 = upd_rq i (init_rq b (rtb_runtime (def_rt_bandwidth s))) s
      in upd_rq i (\<lambda>rq. rq\<lparr>rq_nr_iowait := 0\<rparr>) (be_rq_attach_root b i s1))"

text \<open>
  \<open>init_task\<close> is the task that boots, \<open>init_mm\<close> its address space.  Groups, the deadline bandwidth, load
  averages and balancing have no counterpart in the state.
\<close>

definition sched_init :: "boot_env \<Rightarrow> task_id \<Rightarrow> nat \<Rightarrow> sys \<Rightarrow> sys" where
  "sched_init b init_task init_mm s =
     (let s1 = s\<lparr>def_rt_bandwidth := init_rt_bandwidth (global_rt_period s) (global_rt_runtime s) (def_rt_bandwidth s)\<rparr>;
          s2 = be_init_defrootdomain b s1;
          s3 = fold (init_cpu b) (cpus_of s2 (cpu_possible_mask s2)) s2;
          s4 = set_load_weight (be_kenv b) init_task False s3;
          s5 = mmgrab (Some init_mm) s4
      in init_idle init_task (this_cpu s5) s5)"

text \<open>
  When all CPUs are up, the boot task may leave the CPUs kept free of it; \<open>domains\<close> builds the scheduling
  domains.
\<close>

definition sched_init_smp :: "boot_env \<Rightarrow> (sys \<Rightarrow> sys) \<Rightarrow> cpumask \<Rightarrow> sys \<Rightarrow> sys" where
  "sched_init_smp b domains housekeeping s =
     (let s1 = domains s
      in case set_cpus_allowed_ptr (be_kenv b) (sched_ttwu_pending (be_kenv b)) (rq_curr (rqs s1 (this_cpu s1))) housekeeping False s1 of
           (err, s2) \<Rightarrow> if err \<noteq> None then raise_fault Bug_on s2 else s2)"

end
