(* ===== verification/Sched_Boot_Props.thy ===== *)
theory Sched_Boot_Props
  imports Sched_Boot Sched_Policy
begin

text \<open>
  The state that boot reaches satisfies the invariants the scheduling classes keep from then on.
\<close>

section \<open>What a machine is like before it boots\<close>

text \<open>A run queue with nothing on it, and a task that is on no queue.\<close>

definition fresh_rt :: "rt_rq \<Rightarrow> bool" where
  "fresh_rt r \<longleftrightarrow> active r = \<lparr>bitmap = replicate 100 False @ [True], queue = replicate 100 []\<rparr> \<and> rt_nr_running r = 0 \<and> rr_nr_running r = 0
     \<and> rt_nr_total r = 0 \<and> rt_nr_migratory r = 0 \<and> highest_prio_curr r = 100 \<and> \<not> rt_is_overloaded r \<and> \<not> rt_queued r"

definition fresh_rq :: "rq \<Rightarrow> bool" where
  "fresh_rq r \<longleftrightarrow> ts_queue (rq_ts r) = replicate 40 [] \<and> rq_nr_running r = 0 \<and> fresh_rt (rq_rt r)"

definition off_queues :: "task_struct \<Rightarrow> bool" where
  "off_queues t \<longleftrightarrow> ts_list (p_ts t) \<noteq> Linked \<and> \<not> rte_on_list (p_rt t) \<and> \<not> rte_on_rq (p_rt t)"

text \<open>
  The memory of the kernel starts as zero: no task is on a queue and nothing is counted.  A number that is
  not one of a possible CPU stands for no run queue and counts as an empty one.
\<close>

definition boot_memory :: "sys \<Rightarrow> bool" where
  "boot_memory s \<longleftrightarrow> fault s = None \<and> (\<forall>p. off_queues (tasks s p))
     \<and> (\<forall>c. rt_nr_running (rtq s c) = 0 \<and> rr_nr_running (rtq s c) = 0 \<and> rt_nr_total (rtq s c) = 0)
     \<and> (\<forall>c. c \<notin> set (cpus_of s (cpu_possible_mask s)) \<longrightarrow> fresh_rq (rqs s c))"

text \<open>
  The functions of other files keep to their own data; putting a run queue into a root domain may start its
  real-time budget anew.
\<close>

definition keeps_queues :: "sys \<Rightarrow> sys \<Rightarrow> bool" where
  "keeps_queues s s' \<longleftrightarrow> tasks s' = tasks s \<and> fault s' = fault s \<and> this_cpu s' = this_cpu s \<and> nr_cpu_ids s' = nr_cpu_ids s
     \<and> cpu_possible_mask s' = cpu_possible_mask s
     \<and> (\<forall>c. rq_ts (rqs s' c) = rq_ts (rqs s c) \<and> rq_nr_running (rqs s' c) = rq_nr_running (rqs s c)
         \<and> (\<exists>budget used b. rtq s' c = (rtq s c)\<lparr>rt_runtime := budget, rt_time := used, rt_throttled := b\<rparr>))"

definition boot_env_ok :: "boot_env \<Rightarrow> bool" where
  "boot_env_ok b \<longleftrightarrow> (\<forall>r. rq_rt (be_init_cfs_rq b r) = rq_rt r \<and> rq_nr_running (be_init_cfs_rq b r) = rq_nr_running r)
     \<and> (\<forall>r. rq_rt (be_init_dl_rq b r) = rq_rt r \<and> rq_nr_running (be_init_dl_rq b r) = rq_nr_running r)
     \<and> (\<forall>s. keeps_queues s (be_init_defrootdomain b s)) \<and> (\<forall>c s. keeps_queues s (be_rq_attach_root b c s))"

section \<open>The loop over the CPUs\<close>

lemma fresh_budget [simp]: "fresh_rt (r\<lparr>rt_runtime := x, rt_time := y, rt_throttled := z\<rparr>) = fresh_rt r"
  by (simp add: fresh_rt_def)

lemma keeps_fresh: "keeps_queues s s' \<Longrightarrow> fresh_rq (rqs s' c) = fresh_rq (rqs s c)"
  unfolding keeps_queues_def fresh_rq_def by (metis fresh_budget)

lemma keeps_counts:
  assumes "keeps_queues s s'"
  shows "rt_nr_running (rtq s' c) = rt_nr_running (rtq s c)" "rr_nr_running (rtq s' c) = rr_nr_running (rtq s c)"
    "rt_nr_total (rtq s' c) = rt_nr_total (rtq s c)"
proof -
  obtain x y z where "rtq s' c = (rtq s c)\<lparr>rt_runtime := x, rt_time := y, rt_throttled := z\<rparr>"
    using assms unfolding keeps_queues_def by blast
  then show "rt_nr_running (rtq s' c) = rt_nr_running (rtq s c)" "rr_nr_running (rtq s' c) = rr_nr_running (rtq s c)"
    "rt_nr_total (rtq s' c) = rt_nr_total (rtq s c)" by simp_all
qed

definition no_counts :: "sys \<Rightarrow> bool" where
  "no_counts s \<longleftrightarrow> (\<forall>c. rt_nr_running (rtq s c) = 0 \<and> rr_nr_running (rtq s c) = 0 \<and> rt_nr_total (rtq s c) = 0)"

lemma init_rq_fresh:
  assumes "boot_env_ok b" "rt_nr_running (rq_rt r) = 0" "rr_nr_running (rq_rt r) = 0" "rt_nr_total (rq_rt r) = 0"
  shows "fresh_rq (init_rq b x r)" "rt_nr_running (rq_rt (init_rq b x r)) = 0" "rr_nr_running (rq_rt (init_rq b x r)) = 0"
    "rt_nr_total (rq_rt (init_rq b x r)) = 0"
  using assms by (simp_all add: boot_env_ok_def init_rq_def Let_def fresh_rq_def fresh_rt_def init_rt_rq_def init_ts_rq_def MAX_RT_PRIO_def
      MAX_TS_PRIO_def)

lemma init_cpu_step:
  assumes "boot_env_ok b" "no_counts s"
  shows "tasks (init_cpu b i s) = tasks s" "fault (init_cpu b i s) = fault s" "this_cpu (init_cpu b i s) = this_cpu s"
    "no_counts (init_cpu b i s)" "fresh_rq (rqs (init_cpu b i s) c) \<longleftrightarrow> c = i \<or> fresh_rq (rqs s c)"
proof -
  let ?s = "upd_rq i (init_rq b (rtb_runtime (def_rt_bandwidth s))) s"
  have k: "keeps_queues ?s (be_rq_attach_root b i ?s)" using assms(1) by (simp add: boot_env_ok_def)
  have n: "no_counts ?s" using assms init_rq_fresh[OF assms(1)] by (simp add: no_counts_def)
  have f: "fresh_rq (rqs ?s c) \<longleftrightarrow> c = i \<or> fresh_rq (rqs s c)" for c
    using init_rq_fresh(1)[OF assms(1)] assms(2) by (simp add: no_counts_def)
  show "tasks (init_cpu b i s) = tasks s" "fault (init_cpu b i s) = fault s" "this_cpu (init_cpu b i s) = this_cpu s"
    using k by (simp_all add: init_cpu_def Let_def keeps_queues_def)
  show "no_counts (init_cpu b i s)" using n keeps_counts[OF k] by (simp add: init_cpu_def Let_def no_counts_def)
  show "fresh_rq (rqs (init_cpu b i s) c) \<longleftrightarrow> c = i \<or> fresh_rq (rqs s c)"
    using f keeps_fresh[OF k] by (simp add: init_cpu_def Let_def fresh_rq_def)
qed

lemma init_cpus:
  assumes "boot_env_ok b" "no_counts s"
  shows "tasks (fold (init_cpu b) cs s) = tasks s \<and> fault (fold (init_cpu b) cs s) = fault s \<and> this_cpu (fold (init_cpu b) cs s) = this_cpu s
    \<and> (\<forall>c. fresh_rq (rqs (fold (init_cpu b) cs s) c) \<longleftrightarrow> c \<in> set cs \<or> fresh_rq (rqs s c))"
  using assms(2)
  by (induction cs arbitrary: s) (auto simp: init_cpu_step[OF assms(1)])

section \<open>Empty queues are good queues\<close>

lemma fresh_good:
  assumes "\<And>c. fresh_rq (rqs s c)" "\<And>p. off_queues (tasks s p)" "fault s = None"
  shows "ts_good s \<and> rt_good s"
proof
  have q: "ts_queues s c = replicate 40 []" for c using assms(1) by (simp add: ts_queues_def fresh_rq_def)
  have l: "\<not> ts_linked s p" for p using assms(2) by (simp add: ts_linked_def off_queues_def)
  show "ts_good s" using assms(3) by (simp add: ts_good_def ts_inv_def l ts_members_def q MAX_TS_PRIO_def)
  have F: "fresh_rt (rtq s c)" "rq_nr_running (rqs s c) = 0" for c using assms(1) by (simp_all add: fresh_rq_def)
  have T: "\<not> rte_on_list (p_rt (tasks s p))" "\<not> rte_on_rq (p_rt (tasks s p))" for p using assms(2) by (simp_all add: off_queues_def)
  have "rt_inv s"
  proof (rule rt_inv_top_bound)
    show "rt_lists s" using F(1) by (simp add: rt_lists_def T rt_array_ok_def fresh_rt_def)
    have "sched_find_first_bit (replicate 100 False @ [True]) = 100"
      by (simp add: sched_find_first_bit_def find_index_append) (simp add: numeral_eq_Suc)
    then show "\<forall>c. rt_counts (tasks s) (rtq s c)" using F(1) by (simp add: rt_counts_def members_def fresh_rt_def rt_overload_due_def)
    show "unat (nr_others (rqs s c)) < 2 ^ 31" for c using F by (simp add: nr_others_def fresh_rt_def)
    show "rt_queued (rtq s c) \<longleftrightarrow> \<not> rt_throttled (rtq s c) \<and> rt_nr_running (rtq s c) \<noteq> 0" for c using F(1) by (simp add: fresh_rt_def)
  qed
  then show "rt_good s" using assms(3) by (simp add: rt_good_def)
qed

lemma init_idle_fresh:
  shows "fresh_rq (rqs (init_idle p c s) d) = fresh_rq (rqs s d)" "fault (init_idle p c s) = fault s"
    "off_queues (tasks s q) \<Longrightarrow> off_queues (tasks (init_idle p c s) q)"
  by (simp_all add: init_idle_def Let_def sched_fork_init_def set_cpus_allowed_common_def set_task_cpu_raw_def fresh_rq_def off_queues_def)

lemma idle_threads_fresh:
  assumes "\<And>c. fresh_rq (rqs s c)" "\<And>p. off_queues (tasks s p)" "fault s = None"
  shows "ts_good (fold (\<lambda>(p, c). init_idle p c) ps s) \<and> rt_good (fold (\<lambda>(p, c). init_idle p c) ps s)"
  using assms
proof (induction ps arbitrary: s)
  case Nil
  then show ?case using fresh_good by simp
next
  case (Cons pc ps)
  obtain p c where pc: "pc = (p, c)" by fastforce
  show ?case unfolding pc using Cons.IH[of "init_idle p c s"] Cons.prems by (simp add: init_idle_fresh)
qed

lemma load_weight_quiet:
  assumes "100 \<le> p_static_prio (tasks s p)" "p_static_prio (tasks s p) < 140"
  shows "rqs (set_load_weight e p False s) = rqs s" "fault (set_load_weight e p False s) = fault s"
    "this_cpu (set_load_weight e p False s) = this_cpu s"
    "off_queues (tasks (set_load_weight e p False s) q) = off_queues (tasks s q)"
  using assms by (simp_all add: set_load_weight_def Let_def MAX_RT_PRIO_def off_queues_def)

text \<open>
  C6: from memory that starts as zero, \<open>sched_init\<close> and the set-up of the idle tasks of further CPUs, in any order,
  reach a state that satisfies the invariants of the time-sharing and of the real-time class, without a fault;
  the boot task has become the idle task of its CPU and may run nowhere else.
\<close>

theorem boot_state_good:
  assumes b: "boot_env_ok b" and m: "boot_memory s"
    and prio: "100 \<le> p_static_prio (tasks s init_task)" "p_static_prio (tasks s init_task) < 140"
  shows "(\<forall>ps. ts_good (fold (\<lambda>(p, c). init_idle p c) ps (sched_init b init_task init_mm s))
        \<and> rt_good (fold (\<lambda>(p, c). init_idle p c) ps (sched_init b init_task init_mm s)))
    \<and> rq_curr (rqs (sched_init b init_task init_mm s) (this_cpu s)) = init_task
    \<and> p_sched_class (tasks (sched_init b init_task init_mm s) init_task) = Idle_class
    \<and> p_cpu (tasks (sched_init b init_task init_mm s) init_task) = this_cpu s
    \<and> p_cpus_allowed (tasks (sched_init b init_task init_mm s) init_task) = (\<lambda>c. c = this_cpu s)"
proof -
  let ?s1 = "s\<lparr>def_rt_bandwidth := init_rt_bandwidth (global_rt_period s) (global_rt_runtime s) (def_rt_bandwidth s)\<rparr>"
  let ?s2 = "be_init_defrootdomain b ?s1"
  let ?s3 = "fold (init_cpu b) (cpus_of ?s2 (cpu_possible_mask ?s2)) ?s2"
  let ?s5 = "mmgrab (Some init_mm) (set_load_weight (be_kenv b) init_task False ?s3)"
  have k: "keeps_queues ?s1 ?s2" using b by (simp add: boot_env_ok_def)
  have n: "no_counts ?s2" using m keeps_counts[OF k] by (simp add: no_counts_def boot_memory_def)
  have cs: "cpus_of ?s2 (cpu_possible_mask ?s2) = cpus_of s (cpu_possible_mask s)" using k by (simp add: cpus_of_def keeps_queues_def)
  have k1: "tasks ?s2 = tasks s" "fault ?s2 = fault s" "this_cpu ?s2 = this_cpu s" "\<And>c. fresh_rq (rqs ?s2 c) = fresh_rq (rqs s c)"
    using k keeps_fresh[OF k] by (simp_all add: keeps_queues_def)
  have three: "tasks ?s3 = tasks s" "fault ?s3 = None" "this_cpu ?s3 = this_cpu s" "fresh_rq (rqs ?s3 c)" for c
    using init_cpus[OF b n, of "cpus_of s (cpu_possible_mask s)"] m by (simp_all add: cs k1 boot_memory_def) blast
  have pr: "100 \<le> p_static_prio (tasks ?s3 init_task)" "p_static_prio (tasks ?s3 init_task) < 140" using prio by (simp_all add: three(1))
  note w = load_weight_quiet[OF pr, of "be_kenv b"]
  have five: "fresh_rq (rqs ?s5 c)" "off_queues (tasks ?s5 p)" "fault ?s5 = None" "this_cpu ?s5 = this_cpu s" for c p
    using m by (simp_all add: mmgrab_def w three boot_memory_def)
  define u where "u = ?s5"
  note u = five[folded u_def]
  have s: "sched_init b init_task init_mm s = init_idle init_task (this_cpu s) u" using u(4) by (simp add: sched_init_def Let_def u_def)
  have "ts_good (fold (\<lambda>(p, c). init_idle p c) ps (sched_init b init_task init_mm s))
      \<and> rt_good (fold (\<lambda>(p, c). init_idle p c) ps (sched_init b init_task init_mm s))" for ps
    unfolding s by (rule idle_threads_fresh) (simp_all add: init_idle_fresh u)
  then show ?thesis unfolding s
    by (simp add: init_idle_def Let_def sched_fork_init_def set_cpus_allowed_common_def set_task_cpu_raw_def)
qed

definition plain_boot :: boot_env where
  "plain_boot = \<lparr>be_kenv = quiet_env, be_init_cfs_rq = (\<lambda>r. r\<lparr>rq_cfs_h_nr_running := 0\<rparr>), be_init_dl_rq = (\<lambda>r. r\<lparr>rq_dl_nr_running := 0\<rparr>),
     be_init_defrootdomain = (\<lambda>s. s), be_rq_attach_root = (\<lambda>c. upd_rq c (\<lambda>r. r\<lparr>rq_rd := 0, rq_online := True\<rparr>)), be_migration_cost = 500000\<rparr>"

theorem boot_state_good_witness:
  "ts_good (init_idle 1 1 (sched_init plain_boot 0 0 boot_sys)) \<and> rt_good (init_idle 1 1 (sched_init plain_boot 0 0 boot_sys))
   \<and> rq_curr (rqs (sched_init plain_boot 0 0 boot_sys) 0) = 0"
proof -
  have "\<exists>x y z. r = r\<lparr>rt_runtime := x, rt_time := y, rt_throttled := z\<rparr>" for r :: rt_rq
    by (intro exI[of _ "rt_runtime r"] exI[of _ "rt_time r"] exI[of _ "rt_throttled r"]) simp
  then have "keeps_queues s s" "keeps_queues s (upd_rq c (\<lambda>r. r\<lparr>rq_rd := 0, rq_online := True\<rparr>) s)" for s c
    by (auto simp: keeps_queues_def upd_rq_def)
  then have b: "boot_env_ok plain_boot" by (simp add: boot_env_ok_def plain_boot_def)
  have m: "boot_memory boot_sys"
    by (simp add: boot_memory_def boot_sys_def off_queues_def boot_task_def boot_rq_def boot_rt_rq_def fresh_rq_def fresh_rt_def)
  have p: "100 \<le> p_static_prio (tasks boot_sys 0)" "p_static_prio (tasks boot_sys 0) < 140" by (simp_all add: boot_sys_def boot_task_def)
  have t: "this_cpu boot_sys = 0" by (simp add: boot_sys_def)
  note g = boot_state_good[OF b m p, of 0, unfolded t]
  have "ts_good (fold (\<lambda>(p, c). init_idle p c) [(1, 1)] (sched_init plain_boot 0 0 boot_sys))
    \<and> rt_good (fold (\<lambda>(p, c). init_idle p c) [(1, 1)] (sched_init plain_boot 0 0 boot_sys))"
    by (rule spec[OF conjunct1[OF g]])
  then show ?thesis using conjunct1[OF conjunct2[OF g]] by simp
qed

end
