(* ===== verification/Sched_Hrtick.thy ===== *)
theory Sched_Hrtick
  imports Sched_Entry
begin

text \<open>
  Ticks out of the usual order (\<open>kernel/sched/core.c\<close>): the high-resolution timer of a run queue, which another CPU starts
  with an interrupt, and the kicks for CPUs whose tick has been stopped.
\<close>

section \<open>The high-resolution tick of a run queue\<close>

text \<open>
  \<open>hk_queued\<close> is the time under which the timer stands in the queue of its CPU, \<open>hk_expires\<close> the field
  \<open>hrtimer_set_expires\<close> writes; \<open>hrtimer_start_expires\<close> queues the timer under that time.  \<open>hk_ipis\<close> is the number
  of calls on their way to the CPU.
\<close>

record hrtick_state =
  hk_expires :: u64
  hk_queued :: "u64 option"
  hk_csd_pending :: bool
  hk_ipis :: nat

definition hrtick_clear :: "hrtick_state \<Rightarrow> hrtick_state" where
  "hrtick_clear st = (if hk_queued st \<noteq> None then st\<lparr>hk_queued := None\<rparr> else st)"

definition hrtick_restart :: "hrtick_state \<Rightarrow> hrtick_state" where
  "hrtick_restart st = st\<lparr>hk_queued := Some (hk_expires st)\<rparr>"

text \<open>The handler of the call from another CPU.\<close>

definition hrtick_start_call :: "hrtick_state \<Rightarrow> hrtick_state" where
  "hrtick_start_call st = (hrtick_restart st)\<lparr>hk_csd_pending := False\<rparr>"

text \<open>\<open>delay\<close> is compared as a signed number.\<close>

definition hrtick_delta :: "u64 \<Rightarrow> u64" where
  "hrtick_delta delay = (if sint delay < 10000 then 10000 else delay)"

definition hrtick_start :: "bool \<Rightarrow> u64 \<Rightarrow> u64 \<Rightarrow> hrtick_state \<Rightarrow> hrtick_state" where
  "hrtick_start is_this now delay st =
     (let st1 = st\<lparr>hk_expires := now + hrtick_delta delay\<rparr>
      in if is_this then hrtick_restart st1
         else if \<not> hk_csd_pending st1 then st1\<lparr>hk_ipis := hk_ipis st1 + 1, hk_csd_pending := True\<rparr>
         else st1)"

definition hrtick_rq_init :: "hrtick_state \<Rightarrow> hrtick_state" where
  "hrtick_rq_init st = st\<lparr>hk_csd_pending := False, hk_expires := 0, hk_queued := None\<rparr>"

text \<open>The handler of the timer, which runs on the CPU of the queue.\<close>

definition hrtick :: "kenv \<Rightarrow> cpu_id \<Rightarrow> sys \<Rightarrow> sys" where
  "hrtick e c s =
     (let s1 = update_rq_clock c s; p = rq_curr (rqs s1 c)
      in class_task_tick e (p_sched_class (tasks s1 p)) c p True s1)"

text \<open>What happens to the timer: it is started here or from another CPU, a call arrives, it goes off, it is cancelled.\<close>

inductive hrtick_reach :: "hrtick_state \<Rightarrow> bool" where
  init: "hk_ipis st = 0 \<Longrightarrow> hrtick_reach (hrtick_rq_init st)"
| start: "hrtick_reach st \<Longrightarrow> hrtick_reach (hrtick_start is_this now delay st)"
| arrive: "hrtick_reach st \<Longrightarrow> hk_ipis st \<noteq> 0 \<Longrightarrow> hrtick_reach (hrtick_start_call (st\<lparr>hk_ipis := hk_ipis st - 1\<rparr>))"
| fire: "hrtick_reach st \<Longrightarrow> hrtick_reach (st\<lparr>hk_queued := None\<rparr>)"
| clear: "hrtick_reach st \<Longrightarrow> hrtick_reach (hrtick_clear st)"

text \<open>
  At most one call is on its way to a CPU, exactly while \<open>hrtick_csd_pending\<close> is set; while it is not set, a queued
  timer stands under the time it is set to.
\<close>

theorem hrtick_one_call:
  assumes "hrtick_reach st"
  shows "hk_ipis st = (if hk_csd_pending st then 1 else 0)
    \<and> (\<not> hk_csd_pending st \<longrightarrow> hk_queued st = None \<or> hk_queued st = Some (hk_expires st))"
  using assms
  by (induction rule: hrtick_reach.induct)
    (auto simp: hrtick_rq_init_def hrtick_start_def hrtick_restart_def hrtick_start_call_def hrtick_clear_def Let_def split: if_splits)

lemma hrtick_delta_bound: "10000 \<le> sint (hrtick_delta delay)"
  by (simp add: hrtick_delta_def)

text \<open>
  A start from another CPU changes the time of a timer that is still queued: until the call arrives, the queue
  has it under a time that it no longer has.
\<close>

theorem remote_start_moves_queued_timer:
  "\<exists>st. hrtick_reach st \<and> hk_queued st = Some 30000 \<and> hk_expires st = 60000"
proof -
  define st where "st = hrtick_start False 40000 20000 (hrtick_start True 10000 20000
    (hrtick_rq_init \<lparr>hk_expires = 0, hk_queued = None, hk_csd_pending = False, hk_ipis = 0\<rparr>))"
  have "hrtick_reach st" unfolding st_def by (intro hrtick_reach.intros) simp
  moreover have "hk_queued st = Some 30000 \<and> hk_expires st = 60000"
    by (simp add: st_def hrtick_start_def hrtick_restart_def hrtick_delta_def hrtick_rq_init_def Let_def)
  ultimately show ?thesis by blast
qed

section \<open>Kicks for CPUs without a tick\<close>

text \<open>The first result says whether the CPU needs no wakeup, the second whether it is kicked.\<close>

definition wake_up_full_nohz_cpu :: "(cpu_id \<Rightarrow> bool) \<Rightarrow> bool \<Rightarrow> cpu_id \<Rightarrow> sys \<Rightarrow> bool \<times> bool" where
  "wake_up_full_nohz_cpu nohz_full stopped c s =
     (if \<not> cpu_online_mask s c then (True, False)
      else if nohz_full c then (True, c \<noteq> this_cpu s \<or> stopped)
      else (False, False))"

definition wake_up_nohz_cpu :: "(cpu_id \<Rightarrow> bool) \<Rightarrow> bool \<Rightarrow> cpu_id \<Rightarrow> sys \<Rightarrow> bool \<times> sys" where
  "wake_up_nohz_cpu nohz_full stopped c s =
     (case wake_up_full_nohz_cpu nohz_full stopped c s of (handled, kick) \<Rightarrow>
        (kick, if handled then s else wake_up_idle_cpu c s))"

definition NOHZ_BALANCE_KICK :: u32 where "NOHZ_BALANCE_KICK = 1"
definition NOHZ_STATS_KICK :: u32 where "NOHZ_STATS_KICK = 2"

definition NOHZ_KICK_MASK :: u32 where
  "NOHZ_KICK_MASK = NOHZ_BALANCE_KICK OR NOHZ_STATS_KICK"

text \<open>\<open>flags\<close> are the \<open>nohz_flags\<close> of this CPU.\<close>

definition got_nohz_idle_kick :: "u32 \<Rightarrow> sys \<Rightarrow> bool \<times> u32" where
  "got_nohz_idle_kick flags s =
     (if flags AND NOHZ_KICK_MASK = 0 then (False, flags)
      else if idle_cpu s (this_cpu s) \<and> \<not> need_resched s then (True, flags)
      else (False, flags AND NOT NOHZ_KICK_MASK))"

text \<open>A kick is either taken by an idle CPU or dropped, and no other flag is touched.\<close>

lemma idle_kick_taken_or_dropped:
  "got_nohz_idle_kick flags s = (b, flags') \<Longrightarrow> (b \<longrightarrow> idle_cpu s (this_cpu s) \<and> flags' = flags \<and> flags AND NOHZ_KICK_MASK \<noteq> 0)
    \<and> (\<not> b \<longrightarrow> flags' AND NOHZ_KICK_MASK = 0) \<and> flags' AND NOT NOHZ_KICK_MASK = flags AND NOT NOHZ_KICK_MASK"
  by (auto simp: got_nohz_idle_kick_def bit_eq_iff bit_simps split: if_splits)

end
