(* ===== verification/Sched_Checks.thy ===== *)
theory Sched_Checks
  imports Sched_Entry
begin

text \<open>
  Notifiers, switches and checks around the scheduler (\<open>kernel/sched/core.c\<close> and \<open>sched.h\<close>): notifiers of preemption,
  the switches of statistics and NUMA balancing, the checks for sleeping or scheduling where it must not happen and for
  stale clocks, untraced preemption, the search for a domain with a flag, and the preferred node of a task.
\<close>

section \<open>Notifiers of preemption\<close>

text \<open>
  \<open>nt_key\<close> counts the users of the static key; every task has a list of notifiers, the newest first.  A
  notification names the notifier and the CPU it comes in on, or the task that is next.
\<close>

record notifiers =
  nt_key :: int
  nt_list :: "task_id \<Rightarrow> nat list"
  nt_warned :: bool

datatype notification = Sched_in nat cpu_id | Sched_out nat task_id

definition preempt_notifier_inc :: "notifiers \<Rightarrow> notifiers" where
  "preempt_notifier_inc t = t\<lparr>nt_key := nt_key t + 1\<rparr>"

definition preempt_notifier_dec :: "notifiers \<Rightarrow> notifiers" where
  "preempt_notifier_dec t = t\<lparr>nt_key := nt_key t - 1\<rparr>"

definition preempt_notifier_register :: "task_id \<Rightarrow> nat \<Rightarrow> notifiers \<Rightarrow> notifiers" where
  "preempt_notifier_register p k t =
     (let t1 = (if \<not> nt_key t > 0 then t\<lparr>nt_warned := True\<rparr> else t)
      in t1\<lparr>nt_list := (nt_list t1)(p := k # nt_list t1 p)\<rparr>)"

text \<open>\<open>hlist_del\<close> takes the notifier off the list it is on.\<close>

definition preempt_notifier_unregister :: "nat \<Rightarrow> notifiers \<Rightarrow> notifiers" where
  "preempt_notifier_unregister k t = t\<lparr>nt_list := \<lambda>p. removeAll k (nt_list t p)\<rparr>"

definition fire_all_sched_in :: "cpu_id \<Rightarrow> task_id \<Rightarrow> notifiers \<Rightarrow> notification list" where
  "fire_all_sched_in cpu p t = map (\<lambda>k. Sched_in k cpu) (nt_list t p)"

definition fire_sched_in_preempt_notifiers :: "cpu_id \<Rightarrow> task_id \<Rightarrow> notifiers \<Rightarrow> notification list" where
  "fire_sched_in_preempt_notifiers cpu p t = (if nt_key t > 0 then fire_all_sched_in cpu p t else [])"

definition fire_all_sched_out :: "task_id \<Rightarrow> task_id \<Rightarrow> notifiers \<Rightarrow> notification list" where
  "fire_all_sched_out p next_task t = map (\<lambda>k. Sched_out k next_task) (nt_list t p)"

definition fire_sched_out_preempt_notifiers :: "task_id \<Rightarrow> task_id \<Rightarrow> notifiers \<Rightarrow> notification list" where
  "fire_sched_out_preempt_notifiers p next_task t = (if nt_key t > 0 then fire_all_sched_out p next_task t else [])"

section \<open>Switches\<close>

text \<open>
  \<open>parsed\<close> is what \<open>proc_dointvec_minmax\<close> returns and the number it leaves in \<open>state\<close>; a write of an unprivileged
  user is refused before.
\<close>

definition sysctl_switch :: "bool \<Rightarrow> bool \<Rightarrow> int \<times> int \<Rightarrow> bool \<Rightarrow> int \<times> bool" where
  "sysctl_switch write admin parsed key =
     (if write \<and> \<not> admin then (- errno_val EPERM, key)
      else case parsed of (err, state) \<Rightarrow>
        if err < 0 then (err, key) else (err, if write then state \<noteq> 0 else key))"

definition sysctl_numa_balancing :: "bool \<Rightarrow> bool \<Rightarrow> int \<times> int \<Rightarrow> bool \<Rightarrow> int \<times> bool" where
  "sysctl_numa_balancing = sysctl_switch"

definition sysctl_schedstats :: "bool \<Rightarrow> bool \<Rightarrow> int \<times> int \<Rightarrow> bool \<Rightarrow> int \<times> bool" where
  "sysctl_schedstats = sysctl_switch"

definition setup_schedstats :: "string option \<Rightarrow> bool \<Rightarrow> int \<times> bool" where
  "setup_schedstats str boot =
     (case str of
        None \<Rightarrow> (0, boot)
      | Some t \<Rightarrow> if t = ''enable'' then (1, True) else if t = ''disable'' then (1, False) else (0, boot))"

definition force_schedstat_enabled :: "bool \<Rightarrow> bool" where
  "force_schedstat_enabled key = (if \<not> key then True else key)"

text \<open>Only a privileged writer changes a switch, and only to what it wrote.\<close>

lemma sysctl_switch_effect:
  "sysctl_switch write admin parsed key = (err, key') \<Longrightarrow> key' \<noteq> key \<Longrightarrow> write \<and> admin \<and> 0 \<le> err \<and> key' = (snd parsed \<noteq> 0)"
  by (auto simp: sysctl_switch_def split: if_splits prod.splits)

section \<open>Checks\<close>

text \<open>\<open>rcu_depth\<close> is the nesting of read sections, \<open>early\<close> says that the system boots, stops or has crashed.\<close>

definition preempt_count_equals :: "int \<Rightarrow> int \<Rightarrow> ctx \<Rightarrow> bool" where
  "preempt_count_equals offset rcu_depth x \<longleftrightarrow> c_count x + rcu_depth = offset"

text \<open>
  \<open>___might_sleep\<close>: whether it complains, and the time of the last complaint; \<open>jiffies\<close> wrap around.
\<close>

definition might_sleep_check :: "int \<Rightarrow> int \<Rightarrow> bool \<Rightarrow> u64 \<Rightarrow> u64 \<Rightarrow> ctx \<Rightarrow> bool \<times> u64" where
  "might_sleep_check offset rcu_depth early hz prev_jiffy x =
     (if preempt_count_equals offset rcu_depth x \<and> \<not> c_irqs_off x \<and> \<not> is_idle_task (tasks (c_sys x) (current (c_sys x))) \<or> early
      then (False, prev_jiffy)
      else if sint (jiffies (c_sys x) - (prev_jiffy + hz)) < 0 \<and> prev_jiffy \<noteq> 0 then (False, prev_jiffy)
      else (True, jiffies (c_sys x)))"

text \<open>\<open>changed\<close> is \<open>task_state_change\<close>, where the state was set.\<close>

definition might_sleep :: "bool \<Rightarrow> int \<Rightarrow> int \<Rightarrow> bool \<Rightarrow> u64 \<Rightarrow> u64 \<Rightarrow> ctx \<Rightarrow> (bool \<times> u64) \<times> ctx" where
  "might_sleep changed offset rcu_depth early hz prev_jiffy x =
     (might_sleep_check offset rcu_depth early hz prev_jiffy x,
      c_warn (p_state (tasks (c_sys x) (current (c_sys x))) \<noteq> TASK_RUNNING \<and> changed) x)"

text \<open>Complaints are a second apart: within \<open>hz\<close> of the last one there is none.\<close>

lemma sint_diff_neg:
  fixes a b :: u64
  assumes "uint a < uint b" "uint b < 2 ^ 63"
  shows "sint (a - b) < 0"
proof -
  have small: "sint w = uint w" if "uint w < 2 ^ 63" for w :: u64
  proof -
    have "- (2 ^ 63) \<le> uint w" by (rule order_trans[OF _ uint_ge_0]) simp
    then show ?thesis unfolding sint_uint using that by (subst signed_take_bit_int_eq_self) simp_all
  qed
  have "sint a = uint a" "sint b = uint b" by (rule small, use assms in simp)+
  moreover have "- (2 ^ 63) \<le> uint a - uint b" using assms(2) uint_ge_0[of a] by linarith
  then have "sint (a - b) = sint a - sint b"
    unfolding sint_word_ariths by (subst signed_take_bit_int_eq_self) (use assms calculation uint_ge_0[of a] in simp_all)
  ultimately show ?thesis using assms by simp
qed

lemma might_sleep_rate_limit:
  assumes "prev \<noteq> 0" "jiffies (c_sys x) = prev + d" "uint d < uint hz" "uint hz < 2 ^ 63"
  shows "might_sleep_check offset rcu_depth early hz prev x = (False, prev)"
  using assms sint_diff_neg[of d hz] by (simp add: might_sleep_check_def)

text \<open>\<open>in_atomic_preempt_off\<close>: the count is not the one \<open>preempt_disable\<close> of \<open>schedule\<close> gives; it is repaired.  A stack that has run
  over stops the machine; counting the calls is left out.\<close>

definition schedule_debug :: "bool \<Rightarrow> ctx \<Rightarrow> ctx" where
  "schedule_debug corrupted x =
     (if corrupted then in_sched (raise_fault Bug_on) x
      else if c_count x \<noteq> 1 then (c_warn True x)\<lparr>c_count := 1\<rparr>
      else x)"

section \<open>Preemption that is not traced\<close>

text \<open>The count is changed without the checks of \<open>preempt_count_add\<close>; the state of context tracking is left as it was.\<close>

definition preempt_schedule_notrace :: "kenv \<Rightarrow> ctx \<Rightarrow> ctx" where
  "preempt_schedule_notrace e x =
     (if \<not> preemptible x then x
      else sched_rounds e True (\<lambda>x. x\<lparr>c_count := c_count x + 1\<rparr>) (\<lambda>x. x\<lparr>c_count := c_count x - 1\<rparr>) (e_fuel e) x)"

lemma rounds_untraced:
  "c_count x = 0 \<Longrightarrow> sched_rounds e b (\<lambda>x. x\<lparr>c_count := c_count x + 1\<rparr>) (\<lambda>x. x\<lparr>c_count := c_count x - 1\<rparr>) n x
    = sched_rounds e b preempt_disable preempt_enable_no_resched n x"
proof (induction n arbitrary: x)
  case (Suc n)
  have d: "preempt_disable x = x\<lparr>c_count := 1\<rparr>" using Suc.prems
    by (simp add: preempt_disable_def preempt_count_add_def c_warn_def PREEMPT_MASK_def)
  have u: "preempt_enable_no_resched (in_sched f (x\<lparr>c_count := 1\<rparr>)) = in_sched f (x\<lparr>c_count := 0\<rparr>)" for f
    by (simp add: preempt_enable_no_resched_def preempt_count_sub_def in_sched_def PREEMPT_MASK_def)
  have v: "(in_sched f (x\<lparr>c_count := 1\<rparr>))\<lparr>c_count := 0\<rparr> = in_sched f (x\<lparr>c_count := 0\<rparr>)" "c_count (in_sched f (x\<lparr>c_count := i\<rparr>)) = i" for f i
    by (simp_all add: in_sched_def)
  show ?case using Suc.prems Suc.IH by (simp add: Let_def d u v)
qed simp

text \<open>It does what \<open>preempt_schedule\<close> does.\<close>

theorem notrace_same_as_preempt_schedule: "preempt_schedule_notrace e x = preempt_schedule e x"
  by (simp add: preempt_schedule_notrace_def preempt_schedule_def preempt_schedule_common_def preemptible_def rounds_untraced)

section \<open>Stale clocks\<close>

text \<open>
  With \<open>CONFIG_SCHED_DEBUG\<close> the flags of a run queue (\<open>f\<close>) also say whether its clock has been updated since its
  lock was pinned; \<open>rf\<close> keeps that over a stretch in which the lock is dropped.
\<close>

definition assert_clock_updated :: "u32 \<Rightarrow> bool" where
  "assert_clock_updated f \<longleftrightarrow> \<not> f < RQCF_ACT_SKIP"

definition rq_pin_lock :: "u32 \<Rightarrow> u32 \<times> u32" where
  "rq_pin_lock f = (f AND (RQCF_REQ_SKIP OR RQCF_ACT_SKIP), 0)"

definition rq_unpin_lock :: "u32 \<Rightarrow> u32 \<Rightarrow> u32" where
  "rq_unpin_lock f rf = (if f > RQCF_ACT_SKIP then RQCF_UPDATED else rf)"

definition rq_repin_lock :: "u32 \<Rightarrow> u32 \<Rightarrow> u32" where
  "rq_repin_lock f rf = f OR rf"

definition mark_clock_updated :: "u32 \<Rightarrow> u32" where
  "mark_clock_updated f = (if flag_set f RQCF_ACT_SKIP then f else f OR RQCF_UPDATED)"

lemma or_updated_bound: "RQCF_UPDATED \<le> f OR RQCF_UPDATED"
  unfolding RQCF_UPDATED_def word_le_def uint_or by simp (metis OR_upper or.commute uint_ge_0 or_greater_eq)

text \<open>
  Whoever takes the lock meanwhile (\<open>g\<close> is any change of the flags), a clock that was updated before the lock was
  dropped counts as updated after it is pinned again; a fresh pin forgets it.
\<close>

theorem repin_keeps_clock_update:
  assumes "\<not> flag_set f RQCF_ACT_SKIP"
  shows "assert_clock_updated (rq_repin_lock (g (mark_clock_updated f)) (rq_unpin_lock (mark_clock_updated f) rf))
    \<and> \<not> assert_clock_updated (fst (rq_pin_lock (mark_clock_updated f)))"
proof
  have m: "mark_clock_updated f = f OR RQCF_UPDATED" using assms by (simp add: mark_clock_updated_def)
  have act: "RQCF_ACT_SKIP < RQCF_UPDATED" by (simp add: RQCF_ACT_SKIP_def RQCF_UPDATED_def)
  have "rq_unpin_lock (mark_clock_updated f) rf = RQCF_UPDATED"
    using less_le_trans[OF act or_updated_bound] by (simp add: m rq_unpin_lock_def)
  then show "assert_clock_updated (rq_repin_lock (g (mark_clock_updated f)) (rq_unpin_lock (mark_clock_updated f) rf))"
    using less_le_trans[OF act or_updated_bound] by (simp add: rq_repin_lock_def assert_clock_updated_def not_less order.strict_implies_order)
  have "(f OR RQCF_UPDATED) AND (RQCF_REQ_SKIP OR RQCF_ACT_SKIP) = f AND RQCF_REQ_SKIP OR f AND RQCF_ACT_SKIP"
    by (simp only: bit.conj_disj_distrib bit.conj_disj_distrib2) (simp add: RQCF_ACT_SKIP_def RQCF_REQ_SKIP_def RQCF_UPDATED_def)
  then have "fst (rq_pin_lock (mark_clock_updated f)) = f AND RQCF_REQ_SKIP"
    using assms by (simp add: m rq_pin_lock_def flag_set_def)
  moreover have "f AND RQCF_REQ_SKIP < RQCF_ACT_SKIP" 
    by (simp add: RQCF_REQ_SKIP_def RQCF_ACT_SKIP_def and_one_eq word_less_def uint_mod)
  ultimately show "\<not> assert_clock_updated (fst (rq_pin_lock (mark_clock_updated f)))"
    by (simp add: assert_clock_updated_def)
qed

section \<open>Domains with a flag\<close>

text \<open>\<open>sds\<close> are the flags of the domains of a CPU from the lowest up; the result is a position.\<close>

fun highest_flag_from :: "u32 \<Rightarrow> nat option \<Rightarrow> nat \<Rightarrow> u32 list \<Rightarrow> nat option" where
  "highest_flag_from flag hsd i [] = hsd"
| "highest_flag_from flag hsd i (sd # sds) =
     (if sd AND flag = 0 then hsd else highest_flag_from flag (Some i) (i + 1) sds)"

definition highest_flag_domain :: "u32 \<Rightarrow> u32 list \<Rightarrow> nat option" where
  "highest_flag_domain flag sds = highest_flag_from flag None 0 sds"

fun lowest_flag_from :: "u32 \<Rightarrow> nat \<Rightarrow> u32 list \<Rightarrow> nat option" where
  "lowest_flag_from flag i [] = None"
| "lowest_flag_from flag i (sd # sds) = (if sd AND flag \<noteq> 0 then Some i else lowest_flag_from flag (i + 1) sds)"

definition lowest_flag_domain :: "u32 \<Rightarrow> u32 list \<Rightarrow> nat option" where
  "lowest_flag_domain flag sds = lowest_flag_from flag 0 sds"

lemma takeWhile_nth_holds:
  assumes "i < length (takeWhile P xs)"
  shows "P (xs ! i)"
  using nth_mem[OF assms] by (auto simp: takeWhile_nth[OF assms] dest: set_takeWhileD)

lemma highest_flag_from_eq:
  "highest_flag_from flag h i sds
    = (let n = length (takeWhile (\<lambda>sd. sd AND flag \<noteq> 0) sds) in if n = 0 then h else Some (i + n - 1))"
  by (induction sds arbitrary: h i) (auto simp: Let_def)

lemma lowest_flag_from_eq:
  "lowest_flag_from flag i sds
    = (let n = length (takeWhile (\<lambda>sd. sd AND flag = 0) sds) in if n < length sds then Some (i + n) else None)"
  by (induction sds arbitrary: i) (auto simp: Let_def)

text \<open>
  The highest domain has the flag with all below it, and the one above does not; the lowest is the first with the
  flag.  Both are none when the first, or every, domain is without it.
\<close>

theorem highest_flag_domain_spec:
  "highest_flag_domain flag sds = Some n \<longleftrightarrow> n < length sds \<and> (\<forall>i \<le> n. sds ! i AND flag \<noteq> 0)
    \<and> (n + 1 < length sds \<longrightarrow> sds ! (n + 1) AND flag = 0)"
  (is "_ \<longleftrightarrow> ?R")
proof -
  let ?P = "\<lambda>sd. sd AND flag \<noteq> 0"
  let ?k = "length (takeWhile ?P sds)"
  have run: "\<forall>i < ?k. ?P (sds ! i)" using takeWhile_nth_holds[of _ ?P] by blast
  have top: "?k < length sds \<Longrightarrow> \<not> ?P (sds ! ?k)" by (rule nth_length_takeWhile)
  have le: "?k \<le> length sds" by (rule length_takeWhile_le)
  have "?R \<longleftrightarrow> ?k = Suc n"
  proof
    assume R: ?R
    have "\<not> ?k \<le> n"
    proof
      assume "?k \<le> n" then have "?P (sds ! ?k)" "?k < length sds" using R by simp_all
      then show False using top by simp
    qed
    moreover have "\<not> n + 1 < ?k"
    proof
      assume k: "n + 1 < ?k" then have "?P (sds ! (n + 1))" "n + 1 < length sds" using run le by simp_all
      then show False using R by simp
    qed
    ultimately show "?k = Suc n" by simp
  next
    assume "?k = Suc n" then show ?R using run top le by simp
  qed
  moreover have "highest_flag_domain flag sds = Some n \<longleftrightarrow> ?k = Suc n"
    by (auto simp: highest_flag_domain_def highest_flag_from_eq Let_def)
  ultimately show ?thesis by simp
qed

theorem lowest_flag_domain_spec:
  "lowest_flag_domain flag sds = Some n \<longleftrightarrow> n < length sds \<and> sds ! n AND flag \<noteq> 0 \<and> (\<forall>i < n. sds ! i AND flag = 0)"
  (is "_ \<longleftrightarrow> ?R")
proof -
  let ?P = "\<lambda>sd. sd AND flag = 0"
  let ?k = "length (takeWhile ?P sds)"
  have run: "\<forall>i < ?k. ?P (sds ! i)" using takeWhile_nth_holds[of _ ?P] by blast
  have top: "?k < length sds \<Longrightarrow> \<not> ?P (sds ! ?k)" by (rule nth_length_takeWhile)
  have "?R \<longleftrightarrow> ?k = n \<and> ?k < length sds"
  proof (cases n ?k rule: linorder_cases)
    case less then show ?thesis using run by simp
  next
    case equal then show ?thesis using run top by auto
  next
    case greater then show ?thesis using top by auto
  qed
  then show ?thesis by (auto simp: lowest_flag_domain_def lowest_flag_from_eq Let_def)
qed

section \<open>Tasks and their memory\<close>

text \<open>\<open>nids\<close> are the nodes the tasks prefer.\<close>

definition sched_setnuma :: "kenv \<Rightarrow> task_id \<Rightarrow> int \<Rightarrow> (task_id \<Rightarrow> int) \<Rightarrow> sys \<Rightarrow> (task_id \<Rightarrow> int) \<times> sys" where
  "sched_setnuma e p nid nids s =
     (let c = p_cpu (tasks s p);
          queued = task_on_rq_queued s p;
          running = task_current s c p;
          s1 = (if queued then dequeue_task e c p DEQUEUE_SAVE s else s);
          s2 = (if running then put_prev_task e c p s1 else s1);
          s3 = (if queued then enqueue_task e c p (ENQUEUE_RESTORE OR ENQUEUE_NOCLOCK) s2 else s2)
      in (nids(p := nid), if running then set_curr_task e c p s3 else s3))"

text \<open>Whether the address space of the kernel has to be loaded; the reference is dropped elsewhere.\<close>

definition idle_task_exit :: "nat \<Rightarrow> sys \<Rightarrow> bool \<times> sys" where
  "idle_task_exit init_mm s =
     (let s1 = (if cpu_online_mask s (this_cpu s) then raise_fault Bug_on s else s);
          s2 = (if current s1 \<noteq> rq_idle (rqs s1 (this_cpu s1)) then raise_fault Bug_on s1 else s1)
      in (p_active_mm (tasks s2 (current s2)) \<noteq> Some init_mm, s2))"

definition default_wake_function :: "kenv \<Rightarrow> task_id \<Rightarrow> u64 \<Rightarrow> u32 \<Rightarrow> sys \<Rightarrow> bool \<times> sys" where
  "default_wake_function e p mode wake_flags s = try_to_wake_up e p mode wake_flags s"

definition nr_iowait_cpu :: "cpu_id \<Rightarrow> sys \<Rightarrow> u64" where
  "nr_iowait_cpu c s = word_of_int (sint (rq_nr_iowait (rqs s c)))"

definition in_sched_functions :: "(u64 \<Rightarrow> bool) \<Rightarrow> u64 \<Rightarrow> u64 \<Rightarrow> u64 \<Rightarrow> bool" where
  "in_sched_functions in_lock_functions text_start text_end addr \<longleftrightarrow> in_lock_functions addr \<or> text_start \<le> addr \<and> addr < text_end"

text \<open>Which tasks a listing shows; a task that only idles is not taken for one that waits for a device.\<close>

definition TASK_IDLE :: u64 where "TASK_IDLE = TASK_UNINTERRUPTIBLE OR TASK_NOLOAD"

definition state_filter_match :: "u64 \<Rightarrow> task_struct \<Rightarrow> bool" where
  "state_filter_match state_filter p =
     (if state_filter = 0 then True
      else if p_state p AND state_filter = 0 then False
      else if state_filter = TASK_UNINTERRUPTIBLE \<and> p_state p = TASK_IDLE then False
      else True)"

end
