(* ===== verification/Sched_Dl_Bw.thy ===== *)
theory Sched_Dl_Bw
  imports Prelude "HOL-Library.Multiset" "HOL-Library.Signed_Division"
begin

text \<open>
  The bandwidth of deadline tasks (\<open>kernel/sched/sched.h\<close>): the account of a root domain, its change when a
  task comes or goes, the admission test, and the order of deadlines; and that the account stays true.
\<close>

section \<open>The account of a root domain\<close>

record dl_bw =
  dl_max_bw :: u64
  dl_total_bw :: u64

text \<open>The account, the CPUs of the domain that are active, and \<open>extra_bw\<close> of every CPU.\<close>

record dl_domain =
  dd_bw :: dl_bw
  dd_cpus :: "cpu_id list"
  dd_extra :: "cpu_id \<Rightarrow> u64"

definition dl_update :: "u64 \<Rightarrow> dl_domain \<Rightarrow> dl_domain" where
  "dl_update bw d = d\<lparr>dd_extra := fold (\<lambda>i e. e(i := e i + bw)) (dd_cpus d) (dd_extra d)\<rparr>"

text \<open>The bandwidth is cut to 32 bits with a sign and divided towards zero.\<close>

definition dl_share :: "u64 \<Rightarrow> int \<Rightarrow> int" where
  "dl_share tsk_bw cpus = sint (ucast tsk_bw :: 32 word) sdiv cpus"

definition dl_sub :: "u64 \<Rightarrow> int \<Rightarrow> dl_domain \<Rightarrow> dl_domain" where
  "dl_sub tsk_bw cpus d =
     dl_update (word_of_int (dl_share tsk_bw cpus)) (d\<lparr>dd_bw := (dd_bw d)\<lparr>dl_total_bw := dl_total_bw (dd_bw d) - tsk_bw\<rparr>\<rparr>)"

definition dl_add :: "u64 \<Rightarrow> int \<Rightarrow> dl_domain \<Rightarrow> dl_domain" where
  "dl_add tsk_bw cpus d =
     dl_update (word_of_int (- dl_share tsk_bw cpus)) (d\<lparr>dd_bw := (dd_bw d)\<lparr>dl_total_bw := dl_total_bw (dd_bw d) + tsk_bw\<rparr>\<rparr>)"

definition dl_overflow :: "dl_bw \<Rightarrow> int \<Rightarrow> u64 \<Rightarrow> u64 \<Rightarrow> bool" where
  "dl_overflow b cpus old_bw new_bw \<longleftrightarrow>
     dl_max_bw b \<noteq> - 1 \<and> dl_max_bw b * word_of_int cpus < dl_total_bw b - old_bw + new_bw"

section \<open>The order of deadlines\<close>

record sched_dl_entity =
  dl_deadline :: u64
  dl_flags :: u32

text \<open>\<open>dl_time_before\<close> of \<open>linux/sched/deadline.h\<close>; \<open>sugov\<close> is \<open>CONFIG_CPU_FREQ_GOV_SCHEDUTIL\<close>.\<close>

definition dl_time_before :: "u64 \<Rightarrow> u64 \<Rightarrow> bool" where
  "dl_time_before a b \<longleftrightarrow> sint (a - b) < 0"

definition dl_entity_is_special :: "bool \<Rightarrow> sched_dl_entity \<Rightarrow> bool" where
  "dl_entity_is_special sugov e \<longleftrightarrow> sugov \<and> dl_flags e AND 0x10000000 \<noteq> 0"

definition dl_entity_preempt :: "bool \<Rightarrow> sched_dl_entity \<Rightarrow> sched_dl_entity \<Rightarrow> bool" where
  "dl_entity_preempt sugov a b \<longleftrightarrow> dl_entity_is_special sugov a \<or> dl_time_before (dl_deadline a) (dl_deadline b)"

section \<open>Tasks that come and go\<close>

text \<open>
  A task comes or changes its bandwidth after the test, or leaves; the state has the account and the bandwidths
  admitted.  A bandwidth is at most one CPU (\<open>BW_UNIT\<close>).
\<close>

inductive dl_reach :: "int \<Rightarrow> dl_domain \<Rightarrow> dl_domain \<Rightarrow> u64 multiset \<Rightarrow> bool" for cpus d0 where
  dl_start: "dl_reach cpus d0 d0 {#}"
| dl_admit: "dl_reach cpus d0 d B \<Longrightarrow> unat new \<le> 2 ^ 20 \<Longrightarrow> \<not> dl_overflow (dd_bw d) cpus 0 new \<Longrightarrow>
     dl_reach cpus d0 (dl_add new cpus d) (add_mset new B)"
| dl_change: "dl_reach cpus d0 d (add_mset old B) \<Longrightarrow> unat new \<le> 2 ^ 20 \<Longrightarrow> \<not> dl_overflow (dd_bw d) cpus old new \<Longrightarrow>
     dl_reach cpus d0 (dl_add new cpus (dl_sub old cpus d)) (add_mset new B)"
| dl_leave: "dl_reach cpus d0 d (add_mset old B) \<Longrightarrow> dl_reach cpus d0 (dl_sub old cpus d) B"

lemma fold_add: "distinct cs \<Longrightarrow> fold (\<lambda>i e. e(i := e i + v)) cs e c = (if c \<in> set cs then e c + v else e c)" for v :: "'a :: ab_semigroup_add"
  by (induction cs arbitrary: e) auto

lemma dl_update_extra:
  "distinct (dd_cpus d) \<Longrightarrow> dd_extra (dl_update v d) c = (if c \<in> set (dd_cpus d) then dd_extra d c + v else dd_extra d c)"
  by (simp add: dl_update_def fold_add)

lemma dl_change_frame [simp]:
  "dd_cpus (dl_add b cpus d) = dd_cpus d" "dd_cpus (dl_sub b cpus d) = dd_cpus d"
  "dl_max_bw (dd_bw (dl_add b cpus d)) = dl_max_bw (dd_bw d)" "dl_max_bw (dd_bw (dl_sub b cpus d)) = dl_max_bw (dd_bw d)"
  "dl_total_bw (dd_bw (dl_add b cpus d)) = dl_total_bw (dd_bw d) + b" "dl_total_bw (dd_bw (dl_sub b cpus d)) = dl_total_bw (dd_bw d) - b"
  by (simp_all add: dl_add_def dl_sub_def dl_update_def)

lemma dl_change_extra:
  assumes "distinct (dd_cpus d)"
  shows "dd_extra (dl_add b cpus d) c = (if c \<in> set (dd_cpus d) then dd_extra d c - word_of_int (dl_share b cpus) else dd_extra d c)"
    "dd_extra (dl_sub b cpus d) c = (if c \<in> set (dd_cpus d) then dd_extra d c + word_of_int (dl_share b cpus) else dd_extra d c)"
  using assms by (simp_all add: dl_add_def dl_sub_def dl_update_extra)

definition dl_account :: "int \<Rightarrow> dl_domain \<Rightarrow> dl_domain \<Rightarrow> u64 multiset \<Rightarrow> bool" where
  "dl_account cpus d0 d B \<longleftrightarrow> dd_cpus d = dd_cpus d0 \<and> dl_max_bw (dd_bw d) = dl_max_bw (dd_bw d0)
     \<and> (\<forall>b \<in># B. unat b \<le> 2 ^ 20) \<and> unat (dl_total_bw (dd_bw d)) = (\<Sum>b \<in># B. unat b)
     \<and> (\<Sum>b \<in># B. unat b) \<le> unat (dl_max_bw (dd_bw d0)) * nat cpus
     \<and> (\<forall>c. dd_extra d c = (if c \<in> set (dd_cpus d0) then dd_extra d0 c - (\<Sum>b \<in># B. word_of_int (dl_share b cpus)) else dd_extra d0 c))"

text \<open>What the test compares, without wrap-around.\<close>

lemma dl_overflow_exact:
  assumes m: "unat (dl_max_bw b) \<le> 2 ^ 20" and c: "0 < cpus" "cpus \<le> 2 ^ 16" and o: "unat old \<le> unat (dl_total_bw b)"
    and t: "unat (dl_total_bw b) \<le> 2 ^ 36" and n: "unat new \<le> 2 ^ 20"
  shows "dl_overflow b cpus old new \<longleftrightarrow> unat (dl_max_bw b) * nat cpus < unat (dl_total_bw b) - unat old + unat new"
proof -
  have "dl_max_bw b \<noteq> - 1"
  proof
    assume "dl_max_bw b = - 1"
    then have "unat (dl_max_bw b) = 2 ^ 64 - 1" by (simp add: unsigned_minus_1_eq_mask mask_eq_exp_minus_1)
    then show False using m by simp
  qed
  moreover have w: "unat (word_of_int cpus :: u64) = nat cpus"
    using c by (simp add: unsigned_of_int take_bit_int_eq_self)
  have "unat (dl_max_bw b) * nat cpus \<le> 2 ^ 20 * 2 ^ 16" using m c by (intro mult_mono) simp_all
  then have "unat (dl_max_bw b * word_of_int cpus) = unat (dl_max_bw b) * nat cpus" using w by (simp add: unat_word_ariths)
  moreover have "unat (dl_total_bw b - old) = unat (dl_total_bw b) - unat old" using o by (simp add: unat_sub word_le_nat_alt)
  then have "unat (dl_total_bw b - old + new) = unat (dl_total_bw b) - unat old + unat new"
    using t n by (simp add: unat_word_ariths)
  ultimately show ?thesis by (simp add: dl_overflow_def word_less_nat_alt)
qed

lemma dl_account_step:
  assumes a: "dl_account cpus d0 d B" and d: "distinct (dd_cpus d0)"
    and m: "unat (dl_max_bw (dd_bw d0)) \<le> 2 ^ 20" and c: "0 < cpus" "cpus \<le> 2 ^ 16"
  shows "unat new \<le> 2 ^ 20 \<Longrightarrow> \<not> dl_overflow (dd_bw d) cpus 0 new \<Longrightarrow> dl_account cpus d0 (dl_add new cpus d) (add_mset new B)"
    and "B = add_mset old B' \<Longrightarrow> dl_account cpus d0 (dl_sub old cpus d) B'"
proof -
  let ?t = "dl_total_bw (dd_bw d)"
  have t: "unat ?t = (\<Sum>b \<in># B. unat b)" "unat ?t \<le> unat (dl_max_bw (dd_bw d0)) * nat cpus" using a by (simp_all add: dl_account_def)
  have "unat (dl_max_bw (dd_bw d0)) * nat cpus \<le> 2 ^ 20 * 2 ^ 16" using m c by (intro mult_mono) simp_all
  then have big: "unat ?t \<le> 2 ^ 36" using t(2) by simp
  have dd: "distinct (dd_cpus d)" using a d by (simp add: dl_account_def)
  {
    assume n: "unat new \<le> 2 ^ 20" "\<not> dl_overflow (dd_bw d) cpus 0 new"
    have fit: "unat ?t + unat new \<le> unat (dl_max_bw (dd_bw d0)) * nat cpus"
      using dl_overflow_exact[of "dd_bw d" cpus 0 new] n a m c big by (simp add: dl_account_def)
    have "unat (?t + new) = unat ?t + unat new" using big n(1) by (simp add: unat_word_ariths)
    then show "dl_account cpus d0 (dl_add new cpus d) (add_mset new B)"
      using a n(1) fit dd by (auto simp: dl_account_def dl_change_extra)
  next
    assume B: "B = add_mset old B'"
    then have "old \<le> ?t" using t(1) by (simp add: word_le_nat_alt)
    then have "unat (?t - old) = unat ?t - unat old" by (rule unat_sub)
    then show "dl_account cpus d0 (dl_sub old cpus d) B'" using a B dd by (auto simp: dl_account_def dl_change_extra)
  }
qed

lemma dl_overflow_change:
  assumes "unat old \<le> unat (dl_total_bw (dd_bw d))" "\<not> dl_overflow (dd_bw d) cpus old new"
  shows "\<not> dl_overflow (dd_bw (dl_sub old cpus d)) cpus 0 new"
  using assms(2) by (simp add: dl_overflow_def)

text \<open>
  C21: however deadline tasks are admitted, changed and removed with the test of the code, the total of a root
  domain is the sum of the bandwidths of its tasks and never more than the bandwidth of its CPUs, without
  wrap-around; and the extra bandwidth of every active CPU is what it was, less the shares of the tasks, so that
  it is restored when they leave.
\<close>

theorem dl_bandwidth_bounded:
  assumes "dl_reach cpus d0 d B" "distinct (dd_cpus d0)" "dl_total_bw (dd_bw d0) = 0"
    and "unat (dl_max_bw (dd_bw d0)) \<le> 2 ^ 20" "0 < cpus" "cpus \<le> 2 ^ 16"
  shows "unat (dl_total_bw (dd_bw d)) = (\<Sum>b \<in># B. unat b) \<and> (\<Sum>b \<in># B. unat b) \<le> unat (dl_max_bw (dd_bw d0)) * nat cpus
    \<and> (\<forall>c \<in> set (dd_cpus d0). dd_extra d c = dd_extra d0 c - (\<Sum>b \<in># B. word_of_int (dl_share b cpus)))
    \<and> (B = {#} \<longrightarrow> d = d0)"
proof -
  have "dl_account cpus d0 d B" using assms(1)
  proof induction
    case dl_start
    then show ?case using assms(3) by (simp add: dl_account_def)
  next
    case (dl_admit d B new)
    then show ?case using dl_account_step(1)[OF _ assms(2,4-6)] by blast
  next
    case (dl_change d old B new)
    have "unat old \<le> unat (dl_total_bw (dd_bw d))" using dl_change.IH by (simp add: dl_account_def)
    then show ?case
      using dl_account_step[OF _ assms(2,4-6)] dl_change dl_overflow_change by blast
  next
    case (dl_leave d old B)
    then show ?case using dl_account_step(2)[OF _ assms(2,4-6)] by blast
  qed
  moreover from this have "d = d0" if "B = {#}"
    using that assms(3) by (intro dl_domain.equality dl_bw.equality ext) (simp_all add: dl_account_def unat_eq_0)
  ultimately show ?thesis by (simp add: dl_account_def)
qed

theorem dl_bandwidth_bounded_witness:
  "unat (dl_total_bw (dd_bw (dl_add 500000 2 (dl_add 300000 2 \<lparr>dd_bw = \<lparr>dl_max_bw = 996147, dl_total_bw = 0\<rparr>, dd_cpus = [0, 1], dd_extra = (\<lambda>_. 0)\<rparr>)))) = 800000"
proof -
  let ?d = "\<lparr>dd_bw = \<lparr>dl_max_bw = 996147, dl_total_bw = 0\<rparr>, dd_cpus = [0, 1], dd_extra = (\<lambda>_. 0)\<rparr>"
  have "dl_reach 2 ?d (dl_add 300000 2 ?d) {#300000#}"
    by (rule dl_admit[OF dl_start]) (simp_all add: dl_overflow_def)
  then have "dl_reach 2 ?d (dl_add 500000 2 (dl_add 300000 2 ?d)) {#500000, 300000#}"
    by (rule dl_admit) (simp_all add: dl_overflow_def)
  from dl_bandwidth_bounded[OF this] show ?thesis by simp
qed

text \<open>The order of deadlines is right as long as they are less than half the range of the clock apart.\<close>

lemma dl_time_before_int:
  assumes "\<bar>uint a - uint b\<bar> < 2 ^ 63"
  shows "dl_time_before a b \<longleftrightarrow> a < b"
proof -
  have "sint (a - b) = signed_take_bit 63 (uint a - uint b)"
    using signed_take_bit_take_bit[of 63 64 "uint a - uint b"] by (simp add: sint_uint uint_word_ariths take_bit_eq_mod)
  also have "\<dots> = uint a - uint b" using assms by (intro signed_take_bit_int_eq_self) simp_all
  finally show ?thesis by (simp add: dl_time_before_def word_less_def)
qed

end
