(* ===== verification/Xmerge.thy ===== *)
theory Xmerge
  imports Prelude
begin

text \<open>
  The system call \<open>xmerge\<close> (\<open>HW4-xmerge/xmerge.c\<close>), which concatenates files onto an output file, and
  its user-space counterpart \<open>usr_xmerge\<close> (\<open>HW4-xmerge/test_xmerge.c\<close>).  The file system below them
  is not part of the repository: it is a record of operations on a world of any type, and what POSIX
  says of these operations is stated on a view of the world (\<open>posix\<close>).  The copy loop need not end
  (a file can be appended to itself), so it is a partial function whose value is then \<open>None\<close>.
\<close>

section \<open>The file system as the code sees it\<close>

type_synonym uptr = nat

text \<open>The address limit of the thread: \<open>set_fs(get_ds())\<close> lifts the check of user addresses.\<close>

datatype segment = User_ds | Kernel_ds

text \<open>
  Results below zero are negated error numbers.  \<open>fo_read\<close> and \<open>fo_write\<close> take the address limit and
  the segment their buffer lives in; a path or a pointer array is given by its user address.
\<close>

record 'w file_ops =
  fo_kmalloc_ok :: "nat \<Rightarrow> 'w \<Rightarrow> bool"
  fo_get_ptrs :: "uptr \<Rightarrow> nat \<Rightarrow> 'w \<Rightarrow> uptr list option"
  fo_open :: "segment \<Rightarrow> uptr \<Rightarrow> u32 \<Rightarrow> u32 \<Rightarrow> 'w \<Rightarrow> int \<times> 'w"
  fo_read :: "segment \<Rightarrow> segment \<Rightarrow> int \<Rightarrow> nat \<Rightarrow> 'w \<Rightarrow> int \<times> u8 list \<times> 'w"
  fo_write :: "segment \<Rightarrow> segment \<Rightarrow> int \<Rightarrow> u8 list \<Rightarrow> 'w \<Rightarrow> int \<times> 'w"
  fo_close :: "int \<Rightarrow> 'w \<Rightarrow> int \<times> 'w"
  fo_put_int :: "segment \<Rightarrow> uptr \<Rightarrow> int \<Rightarrow> 'w \<Rightarrow> 'w"

definition O_RDONLY :: u32 where "O_RDONLY = 0"
definition PAGE_SIZE :: nat where "PAGE_SIZE = 4096"
definition BUFSIZE :: nat where "BUFSIZE = 1024"

section \<open>The system call\<close>

record xmerge_params =
  xp_outfile :: uptr
  xp_infiles :: uptr
  xp_num_files :: u32
  xp_oflags :: u32
  xp_mode :: u32
  xp_ofile_count :: uptr

text \<open>The world, the address limit and the number of live allocations of the calling thread.\<close>

record 'w kstate =
  ks_world :: 'w
  ks_limit :: segment
  ks_allocs :: nat

datatype xm_result = Returned int | Oops

text \<open>
  The inner loop: read a buffer, write what was read.  The result carries the error it stopped with,
  if any, and the byte count, an \<open>int\<close> that wraps.
\<close>

partial_function (option) copy_file ::
  "'w file_ops \<Rightarrow> segment \<Rightarrow> segment \<Rightarrow> nat \<Rightarrow> int \<Rightarrow> int \<Rightarrow> u32 \<Rightarrow> 'w \<Rightarrow> (int option \<times> u32 \<times> 'w) option" where
  "copy_file ops limit buf bsize ifd ofd num w =
     (case fo_read ops limit buf ifd bsize w of (bytes_read, data, w1) \<Rightarrow>
        if bytes_read < 0 then Some (Some bytes_read, num, w1)
        else if bytes_read = 0 then Some (None, num, w1)
        else case fo_write ops limit buf ofd data w1 of (bytes_write, w2) \<Rightarrow>
          if bytes_write < 0 then Some (Some bytes_write, num, w2)
          else copy_file ops limit buf bsize ifd ofd (num + word_of_int bytes_write) w2)"

text \<open>The outer loop over the input files; the third component counts the files done.\<close>

primrec merge_files ::
  "'w file_ops \<Rightarrow> segment \<Rightarrow> uptr list \<Rightarrow> int \<Rightarrow> u32 \<Rightarrow> nat \<Rightarrow> 'w \<Rightarrow> (int option \<times> u32 \<times> nat \<times> 'w) option" where
  "merge_files ops limit [] ofd num cnt w = Some (None, num, cnt, w)"
| "merge_files ops limit (f # fs) ofd num cnt w =
     (case fo_open ops limit f O_RDONLY 292 w of (ifd, w1) \<Rightarrow>
        if ifd < 0 then Some (Some ifd, num, cnt, w1)
        else case copy_file ops limit Kernel_ds PAGE_SIZE ifd ofd num w1 of
          None \<Rightarrow> None
        | Some (Some err, num1, w2) \<Rightarrow> Some (Some err, num1, cnt, snd (fo_close ops ifd w2))
        | Some (None, num1, w2) \<Rightarrow> merge_files ops limit fs ofd num1 (cnt + 1) (snd (fo_close ops ifd w2)))"

definition kfree :: "'w kstate \<Rightarrow> 'w kstate" where
  "kfree k = k\<lparr>ks_allocs := ks_allocs k - 1\<rparr>"

text \<open>
  The two ways out once the output is open: success restores the address limit before it closes the
  output and stores the count, an error stores the count first.
\<close>

definition xmerge_done :: "'w file_ops \<Rightarrow> uptr \<Rightarrow> segment \<Rightarrow> int \<Rightarrow> nat \<Rightarrow> 'w \<Rightarrow> 'w kstate \<Rightarrow> 'w kstate" where
  "xmerge_done ops ptr old_fs ofd cnt w k =
     (let k1 = k\<lparr>ks_limit := old_fs\<rparr>;
          k2 = k1\<lparr>ks_world := snd (fo_close ops ofd w)\<rparr>;
          k3 = k2\<lparr>ks_world := fo_put_int ops (ks_limit k2) ptr (int cnt) (ks_world k2)\<rparr>
      in kfree k3)"

definition xmerge_fail :: "'w file_ops \<Rightarrow> uptr \<Rightarrow> segment \<Rightarrow> int \<Rightarrow> nat \<Rightarrow> 'w \<Rightarrow> 'w kstate \<Rightarrow> 'w kstate" where
  "xmerge_fail ops ptr old_fs ofd cnt w k =
     (let k1 = k\<lparr>ks_world := snd (fo_close ops ofd w)\<rparr>;
          k2 = k1\<lparr>ks_world := fo_put_int ops (ks_limit k1) ptr (int cnt) (ks_world k1)\<rparr>;
          k3 = k2\<lparr>ks_limit := old_fs\<rparr>
      in kfree k3)"

text \<open>The result of \<open>kmalloc\<close> is not checked: copying to a null pointer is an oops.\<close>

definition xmerge :: "'w file_ops \<Rightarrow> xmerge_params \<Rightarrow> 'w kstate \<Rightarrow> (xm_result \<times> 'w kstate) option" where
  "xmerge ops p k =
     (if \<not> fo_kmalloc_ok ops (8 * unat (xp_num_files p)) (ks_world k) then Some (Oops, k)
      else
        let k1 = k\<lparr>ks_allocs := ks_allocs k + 1\<rparr>
        in case fo_get_ptrs ops (xp_infiles p) (unat (xp_num_files p)) (ks_world k1) of
             None \<Rightarrow> Some (Returned (- errno_val EFAULT), kfree k1)
           | Some infiles \<Rightarrow>
               (case fo_open ops (ks_limit k1) (xp_outfile p) (xp_oflags p) (xp_mode p) (ks_world k1) of
                  (out, w1) \<Rightarrow>
                    if out < 0 then Some (Returned out, kfree (k1\<lparr>ks_world := w1\<rparr>))
                    else
                      let old_fs = ks_limit k1;
                          k2 = k1\<lparr>ks_world := w1, ks_limit := Kernel_ds\<rparr>
                      in case merge_files ops (ks_limit k2) infiles out 0 0 w1 of
                           None \<Rightarrow> None
                         | Some (None, num, cnt, w2) \<Rightarrow>
                             Some (Returned (sint num), xmerge_done ops (xp_ofile_count p) old_fs out cnt w2 k2)
                         | Some (Some err, num, cnt, w2) \<Rightarrow>
                             Some (Returned err, xmerge_fail ops (xp_ofile_count p) old_fs out cnt w2 k2)))"

section \<open>The user-space version\<close>

text \<open>A library call that fails returns -1 and sets \<open>errno\<close>.\<close>

definition libc :: "int \<Rightarrow> int \<Rightarrow> int \<times> int" where
  "libc r errno = (if r < 0 then (- 1, - r) else (r, errno))"

text \<open>
  The loops of \<open>usr_xmerge\<close>: on failure the flag is set and the second component is the value of the
  variable \<open>in\<close> at the label \<open>quit\<close>.
\<close>

primrec usr_merge_files ::
  "'w file_ops \<Rightarrow> uptr list \<Rightarrow> int \<Rightarrow> u32 \<Rightarrow> nat \<Rightarrow> int \<Rightarrow> 'w \<Rightarrow> (int option \<times> int \<times> u32 \<times> nat \<times> 'w) option" where
  "usr_merge_files ops [] ofd num cnt errno w = Some (None, errno, num, cnt, w)"
| "usr_merge_files ops (f # fs) ofd num cnt errno w =
     (case fo_open ops User_ds f O_RDONLY 0 w of (r, w1) \<Rightarrow>
        (case libc r errno of (ifd, errno1) \<Rightarrow>
           if ifd < 0 then Some (Some ifd, errno1, num, cnt, w1)
           else case copy_file ops User_ds User_ds BUFSIZE ifd ofd num w1 of
             None \<Rightarrow> None
           | Some (Some r1, num1, w2) \<Rightarrow> Some (Some ifd, snd (libc r1 errno1), num1, cnt, w2)
           | Some (None, num1, w2) \<Rightarrow>
               (case fo_close ops ifd w2 of (rc, w3) \<Rightarrow>
                  usr_merge_files ops fs ofd num1 (cnt + 1) (snd (libc rc errno1)) w3)))"

text \<open>The result of \<open>usr_xmerge\<close>, the final \<open>errno\<close> and the world.\<close>

definition usr_xmerge :: "'w file_ops \<Rightarrow> xmerge_params \<Rightarrow> uptr list \<Rightarrow> int \<Rightarrow> 'w \<Rightarrow> (int \<times> int \<times> 'w) option" where
  "usr_xmerge ops p infiles errno w =
     (case fo_open ops User_ds (xp_outfile p) (xp_oflags p) (xp_mode p) w of (r, w1) \<Rightarrow>
        (case libc r errno of (out, errno1) \<Rightarrow>
           if out < 0 then Some (- errno1, errno1, w1)
           else case usr_merge_files ops infiles out 0 0 errno1 w1 of
             None \<Rightarrow> None
           | Some (None, errno2, num, cnt, w2) \<Rightarrow>
               (case fo_close ops out w2 of (rc, w3) \<Rightarrow>
                  Some (sint num, snd (libc rc errno2), fo_put_int ops User_ds (xp_ofile_count p) (int cnt) w3))
           | Some (Some ifd, errno2, num, cnt, w2) \<Rightarrow>
               (case fo_close ops ifd w2 of (rc, w3) \<Rightarrow>
                  (case fo_close ops out w3 of (rc', w4) \<Rightarrow>
                     let errno3 = snd (libc rc' (snd (libc rc errno2)))
                     in Some (- errno3, errno3, fo_put_int ops User_ds (xp_ofile_count p) (int cnt) w4)))))"

end
