(* ===== verification/Xmerge_Props.thy ===== *)
theory Xmerge_Props
  imports Xmerge "HOL-Library.Sublist" "HOL-Library.AList"
begin

text \<open>
  Properties of the two versions of \<open>xmerge\<close>: what they write and return, what they leave open, where
  they agree and where not, and when they do not return.  The last part is a small file system in
  memory that satisfies what is assumed of the kernel's.
\<close>

section \<open>What POSIX promises\<close>

text \<open>Files by path, descriptors with path, offset and append mode, and the user's integers.\<close>

record file_view =
  fv_files :: "string \<Rightarrow> u8 list option"
  fv_fds :: "int \<Rightarrow> (string \<times> nat \<times> bool) option"
  fv_ints :: "uptr \<Rightarrow> int option"

abbreviation put_file :: "string \<Rightarrow> u8 list \<Rightarrow> file_view \<Rightarrow> file_view" where
  "put_file f c v \<equiv> v\<lparr>fv_files := (fv_files v)(f := Some c)\<rparr>"

abbreviation put_fd :: "int \<Rightarrow> (string \<times> nat \<times> bool) option \<Rightarrow> file_view \<Rightarrow> file_view" where
  "put_fd fd d v \<equiv> v\<lparr>fv_fds := (fv_fds v)(fd := d)\<rparr>"

text \<open>The kernel may touch any address; otherwise a user access needs a user address.\<close>

definition reachable_buf :: "segment \<Rightarrow> segment \<Rightarrow> bool" where
  "reachable_buf limit buf \<longleftrightarrow> limit = Kernel_ds \<or> buf = User_ds"

definition posix_open :: "'w file_ops \<Rightarrow> ('w \<Rightarrow> file_view) \<Rightarrow> (uptr \<Rightarrow> string) \<Rightarrow> bool" where
  "posix_open ops view path \<longleftrightarrow> (\<forall>limit u mode w fd w'. fo_open ops limit u O_RDONLY mode w = (fd, w') \<longrightarrow>
     (if fd < 0 then view w' = view w
      else fv_fds (view w) fd = None \<and> fv_files (view w) (path u) \<noteq> None \<and>
        view w' = put_fd fd (Some (path u, 0, False)) (view w)))"

definition posix_read :: "'w file_ops \<Rightarrow> ('w \<Rightarrow> file_view) \<Rightarrow> bool" where
  "posix_read ops view \<longleftrightarrow> (\<forall>limit buf fd n w r data w' f off a c.
     fo_read ops limit buf fd n w = (r, data, w') \<and> reachable_buf limit buf \<and> 0 < n \<and>
     fv_fds (view w) fd = Some (f, off, a) \<and> fv_files (view w) f = Some c \<longrightarrow>
     (if r < 0 then view w' = view w
      else r = int (length data) \<and> length data \<le> n \<and> data = take (length data) (drop off c) \<and>
        (data = [] \<longrightarrow> drop off c = []) \<and> view w' = put_fd fd (Some (f, off + length data, a)) (view w)))"

text \<open>Writing at the end of a file; a write that succeeds is complete.\<close>

definition posix_write :: "'w file_ops \<Rightarrow> ('w \<Rightarrow> file_view) \<Rightarrow> bool" where
  "posix_write ops view \<longleftrightarrow> (\<forall>limit buf fd data w r w' f off a c.
     fo_write ops limit buf fd data w = (r, w') \<and> reachable_buf limit buf \<and>
     fv_fds (view w) fd = Some (f, off, a) \<and> fv_files (view w) f = Some c \<and> (a \<or> off = length c) \<longrightarrow>
     (if r < 0 then view w' = view w
      else r = int (length data) \<and>
        view w' = put_fd fd (Some (f, length c + length data, a)) (put_file f (c @ data) (view w))))"

definition EBADF :: int where "EBADF = 9"

definition posix_close :: "'w file_ops \<Rightarrow> ('w \<Rightarrow> file_view) \<Rightarrow> bool" where
  "posix_close ops view \<longleftrightarrow> (\<forall>fd w r w'. fo_close ops fd w = (r, w') \<longrightarrow>
     (if fv_fds (view w) fd = None then r = - EBADF \<and> view w' = view w
      else r = 0 \<and> view w' = put_fd fd None (view w)))"

definition posix_put :: "'w file_ops \<Rightarrow> ('w \<Rightarrow> file_view) \<Rightarrow> (uptr \<Rightarrow> bool) \<Rightarrow> bool" where
  "posix_put ops view user_addr \<longleftrightarrow> (\<forall>limit u n w. view (fo_put_int ops limit u n w) =
     (if limit = Kernel_ds \<or> user_addr u then (view w)\<lparr>fv_ints := (fv_ints (view w))(u := Some n)\<rparr> else view w))"

definition posix :: "'w file_ops \<Rightarrow> ('w \<Rightarrow> file_view) \<Rightarrow> (uptr \<Rightarrow> string) \<Rightarrow> (uptr \<Rightarrow> bool) \<Rightarrow> bool" where
  "posix ops view path user_addr \<longleftrightarrow>
     posix_open ops view path \<and> posix_read ops view \<and> posix_write ops view \<and> posix_close ops view \<and> posix_put ops view user_addr"

lemma posixD:
  assumes "posix ops view path user_addr"
  shows "posix_open ops view path" "posix_read ops view" "posix_write ops view" "posix_close ops view" "posix_put ops view user_addr"
  using assms by (simp_all add: posix_def)

lemma posix_openE:
  assumes "posix_open ops view path" "fo_open ops limit u O_RDONLY mode w = (fd, w')"
  obtains (fail) "fd < 0" "view w' = view w"
  | (ok) c where "0 \<le> fd" "fv_fds (view w) fd = None" "fv_files (view w) (path u) = Some c" "view w' = put_fd fd (Some (path u, 0, False)) (view w)"
  using assms unfolding posix_open_def by (metis linorder_not_le option.exhaust)

lemma posix_open_fail: "posix_open ops view path \<Longrightarrow> fo_open ops limit u O_RDONLY mode w = (fd, w') \<Longrightarrow> fd < 0 \<Longrightarrow> view w' = view w"
  unfolding posix_open_def by metis

lemma posix_readE:
  assumes "posix_read ops view" "fo_read ops limit buf fd n w = (r, data, w')" "reachable_buf limit buf" "0 < n"
    "fv_fds (view w) fd = Some (f, off, a)" "fv_files (view w) f = Some c"
  obtains (fail) "r < 0" "view w' = view w"
  | (ok) "r = int (length data)" "data = take (length data) (drop off c)" "data = [] \<Longrightarrow> drop off c = []"
      "view w' = put_fd fd (Some (f, off + length data, a)) (view w)"
  using assms unfolding posix_read_def by (metis)

lemma posix_writeE:
  assumes "posix_write ops view" "fo_write ops limit buf fd data w = (r, w')" "reachable_buf limit buf"
    "fv_fds (view w) fd = Some (f, off, a)" "fv_files (view w) f = Some c" "a \<or> off = length c"
  obtains (fail) "r < 0" "view w' = view w"
  | (ok) "r = int (length data)" "view w' = put_fd fd (Some (f, length c + length data, a)) (put_file f (c @ data) (view w))"
  using assms unfolding posix_write_def by metis

lemma posix_close_open:
  assumes "posix_close ops view" "fv_fds (view w) fd \<noteq> None"
  shows "view (snd (fo_close ops fd w)) = put_fd fd None (view w)" "fst (fo_close ops fd w) = 0"
  using assms unfolding posix_close_def by (metis prod.collapse)+

text \<open>A file system on which nothing fails once the files exist.\<close>

definition reliable :: "'w file_ops \<Rightarrow> ('w \<Rightarrow> file_view) \<Rightarrow> (uptr \<Rightarrow> string) \<Rightarrow> bool" where
  "reliable ops view path \<longleftrightarrow>
     (\<forall>limit u mode w. fv_files (view w) (path u) \<noteq> None \<longrightarrow> 0 \<le> fst (fo_open ops limit u O_RDONLY mode w)) \<and>
     (\<forall>limit buf fd n w f off a c. fv_fds (view w) fd = Some (f, off, a) \<and> fv_files (view w) f = Some c \<and> reachable_buf limit buf \<longrightarrow>
        0 \<le> fst (fo_read ops limit buf fd n w)) \<and>
     (\<forall>limit buf fd data w f off a c. fv_fds (view w) fd = Some (f, off, a) \<and> fv_files (view w) f = Some c \<and> reachable_buf limit buf \<longrightarrow>
        0 \<le> fst (fo_write ops limit buf fd data w))"

lemma reliable_open: "reliable ops view path \<Longrightarrow> fo_open ops limit u O_RDONLY mode w = (r, w') \<Longrightarrow> fv_files (view w) (path u) \<noteq> None \<Longrightarrow> 0 \<le> r"
  unfolding reliable_def by (metis fst_conv)

lemma reliable_io:
  assumes "reliable ops view path" "fv_fds (view w) fd = Some (f, off, a)" "fv_files (view w) f = Some c" "reachable_buf limit buf"
  shows "fo_read ops limit buf fd n w = (r, data, w') \<Longrightarrow> 0 \<le> r" "fo_write ops limit buf fd data w = (r, w1) \<Longrightarrow> 0 \<le> r"
  using assms unfolding reliable_def by (metis fst_conv)+

section \<open>The copy loop\<close>

text \<open>
  The view after \<open>part\<close> was appended to file \<open>f\<close>, whose content was \<open>d\<close>, through descriptor \<open>ofd\<close>,
  reading from \<open>ifd\<close>; how far the reader got is left open.
\<close>

definition copied :: "int \<Rightarrow> int \<Rightarrow> string \<Rightarrow> u8 list \<Rightarrow> u8 list \<Rightarrow> file_view \<Rightarrow> file_view \<Rightarrow> bool" where
  "copied ifd ofd f d part v v' \<longleftrightarrow>
     fv_files v' = (fv_files v)(f := Some (d @ part)) \<and> fv_ints v' = fv_ints v \<and>
     (\<forall>fd. fd \<noteq> ifd \<and> fd \<noteq> ofd \<longrightarrow> fv_fds v' fd = fv_fds v fd) \<and> fv_fds v' ifd \<noteq> None \<and>
     (\<exists>o' a. fv_fds v' ofd = Some (f, o', a) \<and> (a \<or> o' = length d + length part))"

lemma copied_step:
  assumes "copied ifd ofd f (d @ part) part' (put_fd ofd x (put_file f (d @ part) (put_fd ifd y v))) v'"
  shows "copied ifd ofd f d (part @ part') v v'"
  using assms by (auto simp: copied_def)

lemma copy_file_copies:
  assumes "posix ops view path user_addr" "reachable_buf limit buf" "0 < bs" "f \<noteq> g"
    and "fv_fds (view w) ifd = Some (g, off, ga)" "fv_fds (view w) ofd = Some (f, o1, a)"
    and "fv_files (view w) g = Some c" "fv_files (view w) f = Some d" "a \<or> o1 = length d"
  shows "\<exists>err n w'. copy_file ops limit buf bs ifd ofd num w = Some (err, num + of_nat n, w') \<and>
    copied ifd ofd f d (take n (drop off c)) (view w) (view w') \<and> n \<le> length c - off \<and>
    (case err of None \<Rightarrow> n = length c - off | Some e \<Rightarrow> e < 0 \<and> \<not> reliable ops view path)"
  using assms(5-9)
proof (induction "length c - off" arbitrary: off o1 d num w rule: less_induct)
  case less
  note P = posixD[OF assms(1)]
  have ne: "ifd \<noteq> ofd" using less.prems(1,2) assms(4) by auto
  have self: "copied ifd ofd f d [] (view w) (view w)"
    using less.prems by (auto simp: copied_def)
  obtain r data w1 where rd: "fo_read ops limit buf ifd bs w = (r, data, w1)" by (metis prod_cases3)
  note step = copy_file.simps[of ops limit buf bs ifd ofd num w, unfolded rd prod.case]
  show ?case
    using P(2) rd assms(2,3) less.prems(1,3)
  proof (cases rule: posix_readE)
    case fail
    moreover have "\<not> reliable ops view path" using reliable_io(1)[where view = view and w = w, OF _ less.prems(1,3) assms(2) rd] fail(1) by force
    ultimately show ?thesis using self unfolding step by (intro exI[of _ "Some r"] exI[of _ 0] exI[of _ w1]) simp
  next
    case ok
    have self1: "copied ifd ofd f d [] (view w) (view w1)"
      using less.prems ok(4) ne by (auto simp: copied_def)
    show ?thesis
    proof (cases "data = []")
      case True
      then have "length c - off = 0" using ok(3) by simp
      then show ?thesis using self1 ok(1) True unfolding step by (intro exI[of _ None] exI[of _ 0] exI[of _ w1]) simp
    next
      case False
      then have r: "\<not> r < 0" "r \<noteq> 0" using ok(1) by simp_all
      have le: "length data \<le> length c - off" using arg_cong[OF ok(2), of length] by simp
      have v1: "fv_fds (view w1) ofd = Some (f, o1, a)" "fv_files (view w1) f = Some d"
        using less.prems ok(4) ne by auto
      obtain q w2 where wr: "fo_write ops limit buf ofd data w1 = (q, w2)" by fastforce
      show ?thesis
        using P(3) wr assms(2) v1 less.prems(5)
      proof (cases rule: posix_writeE)
        case fail
        moreover have "\<not> reliable ops view path" using reliable_io(2)[where view = view and w = w1, OF _ v1 assms(2) wr] fail(1) by force
        ultimately show ?thesis using self1 r unfolding step wr by (intro exI[of _ "Some q"] exI[of _ 0] exI[of _ w2]) simp
      next
        case ok': ok
        let ?off = "off + length data" and ?d = "d @ data"
        have v2: "view w2 = put_fd ofd (Some (f, length ?d, a)) (put_file f ?d (put_fd ifd (Some (g, ?off, ga)) (view w)))"
          using ok(4) ok'(2) by simp
        have "length c - ?off < length c - off" using le False by (cases data) simp_all
        from less.hyps[OF this, of w2 "length ?d" ?d "num + word_of_int q"]
        obtain err n w' where n: "copy_file ops limit buf bs ifd ofd (num + word_of_int q) w2 = Some (err, num + word_of_int q + of_nat n, w')"
            "copied ifd ofd f ?d (take n (drop ?off c)) (view w2) (view w')" "n \<le> length c - ?off"
            "case err of None \<Rightarrow> n = length c - ?off | Some e \<Rightarrow> e < 0 \<and> \<not> reliable ops view path"
          using less.prems(3) assms(4) ne unfolding v2 by auto
        have "take (length data + n) (drop off c) = data @ take n (drop ?off c)"
          using take_add[of "length data" n "drop off c"] ok(2) by (simp add: add.commute)
        then have "copied ifd ofd f d (take (length data + n) (drop off c)) (view w) (view w')"
          using copied_step n(2) unfolding v2 by metis
        moreover have "copy_file ops limit buf bs ifd ofd num w = Some (err, num + of_nat (length data + n), w')"
          unfolding step wr using r n(1) ok'(1) by (simp add: add.assoc)
        moreover have "length data + n \<le> length c - off" "case err of None \<Rightarrow> length data + n = length c - off | Some e \<Rightarrow> e < 0 \<and> \<not> reliable ops view path"
          using n(3,4) le by (auto split: option.splits)
        ultimately show ?thesis by blast
      qed
    qed
  qed
qed


text \<open>The same, with the input closed again.\<close>

definition appended :: "int \<Rightarrow> string \<Rightarrow> u8 list \<Rightarrow> u8 list \<Rightarrow> file_view \<Rightarrow> file_view \<Rightarrow> bool" where
  "appended ofd f d part v v' \<longleftrightarrow>
     fv_files v' = (fv_files v)(f := Some (d @ part)) \<and> fv_ints v' = fv_ints v \<and>
     (\<forall>fd. fd \<noteq> ofd \<longrightarrow> fv_fds v' fd = fv_fds v fd) \<and>
     (\<exists>o' a. fv_fds v' ofd = Some (f, o', a) \<and> (a \<or> o' = length d + length part))"

lemma appended_trans: "appended ofd f d part v v' \<Longrightarrow> appended ofd f (d @ part) part' v' v'' \<Longrightarrow> appended ofd f d (part @ part') v v''"
  by (auto simp: appended_def)

lemma copied_closed:
  assumes "copied ifd ofd f d part (put_fd ifd x v) v'" "fv_fds v ifd = None" "ifd \<noteq> ofd"
  shows "appended ofd f d part v (put_fd ifd None v')"
  using assms by (auto simp: copied_def appended_def)

definition content :: "(uptr \<Rightarrow> string) \<Rightarrow> file_view \<Rightarrow> uptr \<Rightarrow> u8 list" where
  "content path v u = the (fv_files v (path u))"

text \<open>One input file: opened, copied and closed again, or the error that stopped it.\<close>

lemma copy_input:
  assumes "posix ops view path user_addr" "reachable_buf limit buf" "0 < bs" "path u \<noteq> f"
    and "fv_fds (view w) ofd = Some (f, o1, a)" "fv_files (view w) f = Some d" "a \<or> o1 = length d"
    and op: "fo_open ops limit u O_RDONLY mode w = (ifd, w1)" "0 \<le> ifd"
  obtains err n w2 where "copy_file ops limit buf bs ifd ofd num w1 = Some (err, num + of_nat n, w2)"
    "appended ofd f d (take n (content path (view w) u)) (view w) (view (snd (fo_close ops ifd w2)))"
    "n \<le> length (content path (view w) u)" "case err of None \<Rightarrow> n = length (content path (view w) u) | Some e \<Rightarrow> e < 0 \<and> \<not> reliable ops view path"
    "fv_fds (view w2) ifd \<noteq> None" "fst (fo_close ops ifd w2) = 0"
  using posixD(1)[OF assms(1)] op(1)
proof (cases rule: posix_openE)
  case (ok c)
  have ne: "ifd \<noteq> ofd" using ok(2) assms(5) by auto
  have c: "content path (view w) u = c" using ok(3) by (simp add: content_def)
  have "\<exists>err n w'. copy_file ops limit buf bs ifd ofd num w1 = Some (err, num + of_nat n, w') \<and>
    copied ifd ofd f d (take n (drop 0 c)) (view w1) (view w') \<and> n \<le> length c - 0 \<and>
    (case err of None \<Rightarrow> n = length c - 0 | Some e \<Rightarrow> e < 0 \<and> \<not> reliable ops view path)"
    by (rule copy_file_copies[OF assms(1-3)]) (use assms(4-7) ok ne in auto)
  then obtain err n w' where n: "copy_file ops limit buf bs ifd ofd num w1 = Some (err, num + of_nat n, w')"
    "copied ifd ofd f d (take n c) (view w1) (view w')" "n \<le> length c" "case err of None \<Rightarrow> n = length c | Some e \<Rightarrow> e < 0 \<and> \<not> reliable ops view path"
    unfolding drop_0 diff_zero by blast
  have op2: "fv_fds (view w') ifd \<noteq> None" using n(2) by (simp add: copied_def)
  have "appended ofd f d (take n c) (view w) (put_fd ifd None (view w'))"
    using copied_closed[OF n(2)[unfolded ok(4)] ok(2) ne] .
  then show ?thesis using that[OF n(1)] n(3,4) op2 posix_close_open[OF posixD(4)[OF assms(1)] op2] unfolding c by simp
qed (use op(2) in simp)

lemma content_appended:
  assumes "appended ofd f d part v v'" "path u \<noteq> f"
  shows "content path v' u = content path v u"
  using assms by (simp add: appended_def content_def)

text \<open>The first \<open>k\<close> contents in full, then perhaps a beginning of the next.\<close>

definition merge_part :: "u8 list list \<Rightarrow> nat \<Rightarrow> u8 list \<Rightarrow> bool" where
  "merge_part cs k part \<longleftrightarrow> (\<exists>rest. part = concat (take k cs) @ rest \<and> (if k < length cs then prefix rest (cs ! k) else rest = []))"

lemma merge_part_Nil [simp]: "merge_part [] 0 []" "merge_part (c # cs) 0 (take n c)" "merge_part cs 0 []"
  by (auto simp: merge_part_def take_is_prefix)

lemma merge_part_Cons: "merge_part cs k part \<Longrightarrow> merge_part (c # cs) (Suc k) (c @ part)"
  by (auto simp: merge_part_def)

definition merge_reliable :: "'w file_ops \<Rightarrow> ('w \<Rightarrow> file_view) \<Rightarrow> (uptr \<Rightarrow> string) \<Rightarrow> uptr list \<Rightarrow> 'w \<Rightarrow> bool" where
  "merge_reliable ops view path us w \<longleftrightarrow> reliable ops view path \<and> (\<forall>u\<in>set us. fv_files (view w) (path u) \<noteq> None)"

lemma merge_reliable_appended:
  assumes "appended ofd f d part (view w) (view w')" "merge_reliable ops view path (u # us) w"
  shows "merge_reliable ops view path us w'"
  using assms by (auto simp: merge_reliable_def appended_def)

lemma contents_appended:
  assumes "appended ofd f d part v v'" "\<forall>u\<in>set us. path u \<noteq> f"
  shows "map (content path v') us = map (content path v) us"
  using content_appended[OF assms(1)] assms(2) by simp

lemma merge_files_merges:
  assumes "posix ops view path user_addr" "\<forall>u\<in>set us. path u \<noteq> f"
    and "fv_fds (view w) ofd = Some (f, o1, a)" "fv_files (view w) f = Some d" "a \<or> o1 = length d"
  shows "\<exists>err part k w'. merge_files ops Kernel_ds us ofd num cnt w = Some (err, num + of_nat (length part), cnt + k, w') \<and>
    appended ofd f d part (view w) (view w') \<and> merge_part (map (content path (view w)) us) k part \<and>
    (case err of None \<Rightarrow> k = length us | Some e \<Rightarrow> k < length us \<and> e < 0 \<and> \<not> merge_reliable ops view path us w)"
  using assms(2-5)
proof (induction us arbitrary: w o1 a d num cnt)
  case Nil
  then show ?case by (intro exI[of _ None] exI[of _ "[]"] exI[of _ 0] exI[of _ w]) (auto simp: appended_def)
next
  case (Cons u us)
  have self: "appended ofd f d [] (view w) (view w)" using Cons.prems by (auto simp: appended_def)
  obtain ifd w1 where op: "fo_open ops Kernel_ds u O_RDONLY 292 w = (ifd, w1)" by fastforce
  show ?case
  proof (cases "ifd < 0")
    case True
    then have "view w1 = view w" by (rule posix_open_fail[OF posixD(1)[OF assms(1)] op])
    moreover have "\<not> merge_reliable ops view path (u # us) w" using reliable_open[where view = view, OF _ op] True by (force simp: merge_reliable_def)
    ultimately show ?thesis using op True self
      by (intro exI[of _ "Some ifd"] exI[of _ "[]"] exI[of _ 0] exI[of _ w1]) simp
  next
    case False
    have pre: "reachable_buf Kernel_ds Kernel_ds" "0 < PAGE_SIZE" "path u \<noteq> f" "0 \<le> ifd"
      using False Cons.prems(1) by (simp_all add: reachable_buf_def PAGE_SIZE_def)
    obtain err n w2 where n: "copy_file ops Kernel_ds Kernel_ds PAGE_SIZE ifd ofd num w1 = Some (err, num + of_nat n, w2)"
      "appended ofd f d (take n (content path (view w) u)) (view w) (view (snd (fo_close ops ifd w2)))"
      "n \<le> length (content path (view w) u)" "case err of None \<Rightarrow> n = length (content path (view w) u) | Some e \<Rightarrow> e < 0 \<and> \<not> reliable ops view path"
      by (rule copy_input[OF assms(1) pre(1-3) Cons.prems(2-4) op pre(4), of num])
    show ?thesis
    proof (cases err)
      case (Some e)
      moreover have "\<not> merge_reliable ops view path (u # us) w" using n(4) Some by (simp add: merge_reliable_def)
      ultimately show ?thesis using op False n
        by (intro exI[of _ "Some e"] exI[of _ "take n (content path (view w) u)"] exI[of _ 0] exI[of _ "snd (fo_close ops ifd w2)"]) simp
    next
      case None
      let ?c = "content path (view w) u" and ?w3 = "snd (fo_close ops ifd w2)"
      have nn: "n = length ?c" and ap: "appended ofd f d ?c (view w) (view ?w3)" using n None by simp_all
      then obtain o3 a3 where v3: "fv_fds (view ?w3) ofd = Some (f, o3, a3)" "a3 \<or> o3 = length (d @ ?c)" "fv_files (view ?w3) f = Some (d @ ?c)"
        by (auto simp: appended_def)
      obtain err' part k w' where IH: "merge_files ops Kernel_ds us ofd (num + of_nat n) (cnt + 1) ?w3 = Some (err', num + of_nat n + of_nat (length part), cnt + 1 + k, w')"
        "appended ofd f (d @ ?c) part (view ?w3) (view w')" "merge_part (map (content path (view ?w3)) us) k part"
        "case err' of None \<Rightarrow> k = length us | Some e \<Rightarrow> k < length us \<and> e < 0 \<and> \<not> merge_reliable ops view path us ?w3"
        using Cons.IH[OF _ v3(1,3,2), of "num + of_nat n" "cnt + 1"] Cons.prems(1) unfolding list.set(2) ball_simps by blast
      have "merge_part (map (content path (view w)) (u # us)) (Suc k) (?c @ part)"
        using merge_part_Cons[OF IH(3)] contents_appended[OF ap, of us path] Cons.prems(1) by simp
      moreover have "appended ofd f d (?c @ part) (view w) (view w')" by (rule appended_trans[OF ap IH(2)])
      moreover have "merge_files ops Kernel_ds (u # us) ofd num cnt w = Some (err', num + of_nat (length (?c @ part)), cnt + Suc k, w')"
        using op False n(1) None IH(1) nn by (simp add: add.assoc)
      moreover have "case err' of None \<Rightarrow> Suc k = length (u # us) | Some e \<Rightarrow> Suc k < length (u # us) \<and> e < 0 \<and> \<not> merge_reliable ops view path (u # us) w"
        using IH(4) merge_reliable_appended[where view = view and w = w, OF ap] by (auto split: option.splits)
      ultimately show ?thesis by blast
    qed
  qed
qed

section \<open>The system call\<close>

lemma appended_close:
  assumes "posix_close ops view" "appended ofd f d part v (view w')"
  shows "view (snd (fo_close ops ofd w')) = v\<lparr>fv_files := (fv_files v)(f := Some (d @ part)), fv_fds := (fv_fds v)(ofd := None)\<rparr>"
proof -
  have "fv_fds (view w') ofd \<noteq> None" using assms(2) by (auto simp: appended_def)
  then have "view (snd (fo_close ops ofd w')) = put_fd ofd None (view w')" by (rule posix_close_open[OF assms(1)])
  moreover have "(fv_fds (view w'))(ofd := None) = (fv_fds v)(ofd := None)" using assms(2) by (auto simp: appended_def)
  ultimately show ?thesis using assms(2) by (simp add: appended_def)
qed

text \<open>The view after the output file was opened, written and closed, and the count stored where the address limit allows it.\<close>

definition merged_view :: "(uptr \<Rightarrow> bool) \<Rightarrow> segment \<Rightarrow> uptr \<Rightarrow> nat \<Rightarrow> int \<Rightarrow> string \<Rightarrow> u8 list \<Rightarrow> file_view \<Rightarrow> file_view" where
  "merged_view user_addr limit ptr cnt ofd f c v =
     v\<lparr>fv_files := (fv_files v)(f := Some c), fv_fds := (fv_fds v)(ofd := None),
       fv_ints := (if limit = Kernel_ds \<or> user_addr ptr then (fv_ints v)(ptr := Some (int cnt)) else fv_ints v)\<rparr>"

lemma put_closed:
  assumes "posix ops view path user_addr" "appended ofd f d part v (view w')"
  shows "view (fo_put_int ops limit ptr (int cnt) (snd (fo_close ops ofd w'))) = merged_view user_addr limit ptr cnt ofd f (d @ part) v"
  using appended_close[OF posixD(4)[OF assms(1)] assms(2)] posixD(5)[OF assms(1)]
  by (simp add: posix_put_def merged_view_def)

lemma xmerge_opened:
  assumes "fo_kmalloc_ok ops (8 * unat (xp_num_files p)) (ks_world k)" "fo_get_ptrs ops (xp_infiles p) (unat (xp_num_files p)) (ks_world k) = Some us"
    and "fo_open ops (ks_limit k) (xp_outfile p) (xp_oflags p) (xp_mode p) (ks_world k) = (ofd, w1)" "0 \<le> ofd"
  shows "xmerge ops p k = (case merge_files ops Kernel_ds us ofd 0 0 w1 of None \<Rightarrow> None
     | Some (None, num, cnt, w2) \<Rightarrow> Some (Returned (sint num), k\<lparr>ks_world := fo_put_int ops (ks_limit k) (xp_ofile_count p) (int cnt) (snd (fo_close ops ofd w2))\<rparr>)
     | Some (Some err, num, cnt, w2) \<Rightarrow> Some (Returned err, k\<lparr>ks_world := fo_put_int ops Kernel_ds (xp_ofile_count p) (int cnt) (snd (fo_close ops ofd w2))\<rparr>))"
  using assms by (simp add: xmerge_def xmerge_done_def xmerge_fail_def kfree_def Let_def split: option.splits)

lemma xmerge_merges_gen:
  assumes "posix ops view path user_addr"
    and "fo_kmalloc_ok ops (8 * unat (xp_num_files p)) (ks_world k)" "fo_get_ptrs ops (xp_infiles p) (unat (xp_num_files p)) (ks_world k) = Some us"
    and "fo_open ops (ks_limit k) (xp_outfile p) (xp_oflags p) (xp_mode p) (ks_world k) = (ofd, w1)" "0 \<le> ofd"
    and "fv_fds (view w1) ofd = Some (f, o1, a)" "fv_files (view w1) f = Some d" "a \<or> o1 = length d"
    and "\<forall>u\<in>set us. path u \<noteq> f"
  shows "\<exists>r k' cnt part. xmerge ops p k = Some (Returned r, k') \<and> ks_limit k' = ks_limit k \<and> ks_allocs k' = ks_allocs k \<and>
    merge_part (map (content path (view w1)) us) cnt part \<and>
    (if cnt = length us
     then r = sint (of_nat (length part) :: u32) \<and> part = concat (map (content path (view w1)) us) \<and>
       view (ks_world k') = merged_view user_addr (ks_limit k) (xp_ofile_count p) cnt ofd f (d @ part) (view w1)
     else r < 0 \<and> cnt < length us \<and> \<not> merge_reliable ops view path us w1 \<and>
       view (ks_world k') = merged_view user_addr Kernel_ds (xp_ofile_count p) cnt ofd f (d @ part) (view w1))"
proof -
  obtain err part cnt w' where m: "merge_files ops Kernel_ds us ofd 0 0 w1 = Some (err, 0 + of_nat (length part), 0 + cnt, w')"
    "appended ofd f d part (view w1) (view w')" "merge_part (map (content path (view w1)) us) cnt part"
    "case err of None \<Rightarrow> cnt = length us | Some e \<Rightarrow> cnt < length us \<and> e < 0 \<and> \<not> merge_reliable ops view path us w1"
    using merge_files_merges[OF assms(1,9,6-8), of 0 0] by blast
  note E = xmerge_opened[OF assms(2-5), unfolded m(1)]
  have V: "view (fo_put_int ops limit (xp_ofile_count p) (int cnt) (snd (fo_close ops ofd w'))) =
      merged_view user_addr limit (xp_ofile_count p) cnt ofd f (d @ part) (view w1)" for limit
    by (rule put_closed[OF assms(1) m(2)])
  show ?thesis
  proof (cases err)
    case None
    then have "part = concat (map (content path (view w1)) us)" using m(3,4) by (auto simp: merge_part_def)
    then show ?thesis using None E m(3,4) V[of "ks_limit k"]
      by (intro exI[of _ "sint (of_nat (length part) :: u32)"] exI[of _ "k\<lparr>ks_world := fo_put_int ops (ks_limit k) (xp_ofile_count p) (int cnt) (snd (fo_close ops ofd w'))\<rparr>"]
          exI[of _ cnt] exI[of _ part]) simp
  next
    case (Some e)
    then show ?thesis using E m(3,4) V[of Kernel_ds]
      by (intro exI[of _ e] exI[of _ "k\<lparr>ks_world := fo_put_int ops Kernel_ds (xp_ofile_count p) (int cnt) (snd (fo_close ops ofd w'))\<rparr>"]
          exI[of _ cnt] exI[of _ part]) simp
  qed
qed

section \<open>No leaks on any path\<close>

definition fd_laws :: "'w file_ops \<Rightarrow> ('w \<Rightarrow> int set) \<Rightarrow> bool" where
  "fd_laws ops fds \<longleftrightarrow>
     (\<forall>limit u fl mode w fd w'. fo_open ops limit u fl mode w = (fd, w') \<longrightarrow> (if fd < 0 then fds w' = fds w else fd \<notin> fds w \<and> fds w' = insert fd (fds w))) \<and>
     (\<forall>limit buf fd n w. fds (snd (snd (fo_read ops limit buf fd n w))) = fds w) \<and>
     (\<forall>limit buf fd data w. fds (snd (fo_write ops limit buf fd data w)) = fds w) \<and>
     (\<forall>fd w. fds (snd (fo_close ops fd w)) = fds w - {fd}) \<and>
     (\<forall>limit u n w. fds (fo_put_int ops limit u n w) = fds w)"

lemma copy_file_fds:
  assumes "copy_file ops limit buf bs ifd ofd num w = Some y" "fd_laws ops fds"
  shows "fds (snd (snd y)) = fds w"
proof -
  have "fd_laws ops fds \<longrightarrow> fds (snd (snd y)) = fds w"
    using assms(1)
  proof (rule copy_file.raw_induct[rotated])
    fix cf ops limit buf bs ifd ofd num w and y :: "int option \<times> u32 \<times> 'a"
    assume IH: "\<And>ops limit buf bs ifd ofd num w y. cf ops limit buf bs ifd ofd num w = Some y \<Longrightarrow> fd_laws ops fds \<longrightarrow> fds (snd (snd y)) = fds w"
      and st: "(case fo_read ops limit buf ifd bs w of (bytes_read, data, w1) \<Rightarrow>
          if bytes_read < 0 then Some (Some bytes_read, num, w1)
          else if bytes_read = 0 then Some (None, num, w1)
          else case fo_write ops limit buf ofd data w1 of (bytes_write, w2) \<Rightarrow>
            if bytes_write < 0 then Some (Some bytes_write, num, w2)
            else cf ops limit buf bs ifd ofd (num + word_of_int bytes_write) w2) = Some y"
    obtain r data w1 where rd: "fo_read ops limit buf ifd bs w = (r, data, w1)" by (metis prod_cases3)
    obtain q w2 where wr: "fo_write ops limit buf ofd data w1 = (q, w2)" by fastforce
    show "fd_laws ops fds \<longrightarrow> fds (snd (snd y)) = fds w"
    proof
      assume l: "fd_laws ops fds"
      have "fds w1 = fds w" "fds w2 = fds w1" using l rd wr unfolding fd_laws_def by (metis snd_conv)+
      then show "fds (snd (snd y)) = fds w" using st l IH[of ops] unfolding rd prod.case wr by (auto split: if_splits)
    qed
  qed
  then show ?thesis using assms(2) by blast
qed

lemma merge_files_fds:
  assumes "fd_laws ops fds" "merge_files ops limit us ofd num cnt w = Some (err, num', cnt', w')"
  shows "fds w' = fds w"
  using assms(2)
proof (induction us arbitrary: num cnt w)
  case (Cons u us)
  obtain ifd w1 where op: "fo_open ops limit u O_RDONLY 292 w = (ifd, w1)" by fastforce
  show ?case
  proof (cases "ifd < 0")
    case True
    then show ?thesis using Cons.prems op assms(1) unfolding fd_laws_def by (auto dest: spec)
  next
    case False
    then have f1: "ifd \<notin> fds w" "fds w1 = insert ifd (fds w)" using op assms(1) unfolding fd_laws_def by metis+
    obtain y where y: "copy_file ops limit Kernel_ds PAGE_SIZE ifd ofd num w1 = Some y"
      using Cons.prems op False by (auto split: option.splits)
    obtain e n w2 where yy: "y = (e, n, w2)" by (metis prod_cases3)
    have "fds w2 = fds w1" using copy_file_fds[OF y assms(1)] yy by simp
    then have c: "fds (snd (fo_close ops ifd w2)) = fds w" using f1 assms(1) by (simp add: fd_laws_def)
    show ?thesis using Cons.prems op False y yy c Cons.IH by (cases e) auto
  qed
qed simp

section \<open>The user-space version\<close>

text \<open>What is left at the label \<open>quit\<close>: the input is still open, unless it is the one that could not be opened.\<close>

definition quit_view :: "'w file_ops \<Rightarrow> ('w \<Rightarrow> file_view) \<Rightarrow> int \<Rightarrow> string \<Rightarrow> u8 list \<Rightarrow> u8 list \<Rightarrow> file_view \<Rightarrow> int option \<Rightarrow> 'w \<Rightarrow> bool" where
  "quit_view ops view ofd f d part v res w' \<longleftrightarrow> (case res of
       None \<Rightarrow> appended ofd f d part v (view w')
     | Some ifd \<Rightarrow> if ifd < 0 then ifd = - 1 \<and> appended ofd f d part v (view w')
                   else appended ofd f d part v (view (snd (fo_close ops ifd w'))) \<and> fst (fo_close ops ifd w') = 0)"

lemma quit_view_trans:
  "appended ofd f d part v v' \<Longrightarrow> quit_view ops view ofd f (d @ part) part' v' res w \<Longrightarrow> quit_view ops view ofd f d (part @ part') v res w"
  by (auto simp: quit_view_def split: option.splits intro: appended_trans)

lemma usr_merge_files_merges:
  assumes "posix ops view path user_addr" "\<forall>u\<in>set us. path u \<noteq> f" "0 \<le> errno"
    and "fv_fds (view w) ofd = Some (f, o1, a)" "fv_files (view w) f = Some d" "a \<or> o1 = length d"
  shows "\<exists>res errno' part k w'. usr_merge_files ops us ofd num cnt errno w = Some (res, errno', num + of_nat (length part), cnt + k, w') \<and>
    quit_view ops view ofd f d part (view w) res w' \<and> merge_part (map (content path (view w)) us) k part \<and> 0 \<le> errno' \<and>
    (case res of None \<Rightarrow> k = length us | Some ifd \<Rightarrow> k < length us \<and> 0 < errno' \<and> \<not> merge_reliable ops view path us w)"
  using assms(2-6)
proof (induction us arbitrary: w o1 a d num cnt errno)
  case Nil
  then show ?case by (intro exI[of _ None] exI[of _ errno] exI[of _ "[]"] exI[of _ 0] exI[of _ w]) (auto simp: appended_def quit_view_def)
next
  case (Cons u us)
  have self: "appended ofd f d [] (view w) (view w)" using Cons.prems by (auto simp: appended_def)
  obtain ifd w1 where op: "fo_open ops User_ds u O_RDONLY 0 w = (ifd, w1)" by fastforce
  show ?case
  proof (cases "ifd < 0")
    case True
    then have "view w1 = view w" by (rule posix_open_fail[OF posixD(1)[OF assms(1)] op])
    moreover have "\<not> merge_reliable ops view path (u # us) w" using reliable_open[where view = view, OF _ op] True by (force simp: merge_reliable_def)
    ultimately show ?thesis using op True self
      by (intro exI[of _ "Some (- 1)"] exI[of _ "- ifd"] exI[of _ "[]"] exI[of _ 0] exI[of _ w1]) (simp add: libc_def quit_view_def)
  next
    case False
    have pre: "reachable_buf User_ds User_ds" "0 < BUFSIZE" "path u \<noteq> f" "0 \<le> ifd"
      using False Cons.prems(1) by (simp_all add: reachable_buf_def BUFSIZE_def)
    obtain err n w2 where n: "copy_file ops User_ds User_ds BUFSIZE ifd ofd num w1 = Some (err, num + of_nat n, w2)"
      "appended ofd f d (take n (content path (view w) u)) (view w) (view (snd (fo_close ops ifd w2)))"
      "n \<le> length (content path (view w) u)" "case err of None \<Rightarrow> n = length (content path (view w) u) | Some e \<Rightarrow> e < 0 \<and> \<not> reliable ops view path"
      and cl: "fst (fo_close ops ifd w2) = 0"
      by (rule copy_input[OF assms(1) pre(1-3) Cons.prems(3-5) op pre(4), of num])
    show ?thesis
    proof (cases err)
      case (Some e)
      moreover have "\<not> merge_reliable ops view path (u # us) w" using n(4) Some by (simp add: merge_reliable_def)
      ultimately show ?thesis using op False n cl
        by (intro exI[of _ "Some ifd"] exI[of _ "- e"] exI[of _ "take n (content path (view w) u)"] exI[of _ 0] exI[of _ w2])
          (simp add: libc_def quit_view_def)
    next
      case None
      let ?c = "content path (view w) u" and ?w3 = "snd (fo_close ops ifd w2)"
      have nn: "n = length ?c" and ap: "appended ofd f d ?c (view w) (view ?w3)" using n None by simp_all
      then obtain o3 a3 where v3: "fv_fds (view ?w3) ofd = Some (f, o3, a3)" "a3 \<or> o3 = length (d @ ?c)" "fv_files (view ?w3) f = Some (d @ ?c)"
        by (auto simp: appended_def)
      obtain res errno' part k w' where IH: "usr_merge_files ops us ofd (num + of_nat n) (cnt + 1) errno ?w3 = Some (res, errno', num + of_nat n + of_nat (length part), cnt + 1 + k, w')"
        "quit_view ops view ofd f (d @ ?c) part (view ?w3) res w'" "merge_part (map (content path (view ?w3)) us) k part" "0 \<le> errno'"
        "case res of None \<Rightarrow> k = length us | Some e \<Rightarrow> k < length us \<and> 0 < errno' \<and> \<not> merge_reliable ops view path us ?w3"
        using Cons.IH[OF _ Cons.prems(2) v3(1,3,2), of "num + of_nat n" "cnt + 1"] Cons.prems(1) unfolding list.set(2) ball_simps by blast
      have "merge_part (map (content path (view w)) (u # us)) (Suc k) (?c @ part)"
        using merge_part_Cons[OF IH(3)] contents_appended[OF ap, of us path] Cons.prems(1) by simp
      moreover have "quit_view ops view ofd f d (?c @ part) (view w) res w'" by (rule quit_view_trans[OF ap IH(2)])
      moreover have "usr_merge_files ops (u # us) ofd num cnt errno w = Some (res, errno', num + of_nat (length (?c @ part)), cnt + Suc k, w')"
        using op False n(1) None IH(1) nn cl by (simp add: add.assoc libc_def case_prod_beta)
      moreover have "case res of None \<Rightarrow> Suc k = length (u # us) | Some e \<Rightarrow> Suc k < length (u # us) \<and> 0 < errno' \<and> \<not> merge_reliable ops view path (u # us) w"
        using IH(5) merge_reliable_appended[where view = view and w = w, OF ap] by (auto split: option.splits)
      ultimately show ?thesis using IH(4) by blast
    qed
  qed
qed

lemma usr_xmerge_opened:
  assumes "fo_open ops User_ds (xp_outfile p) (xp_oflags p) (xp_mode p) w = (ofd, w1)" "0 \<le> ofd"
  shows "usr_xmerge ops p us errno w = (case usr_merge_files ops us ofd 0 0 errno w1 of None \<Rightarrow> None
     | Some (None, errno2, num, cnt, w2) \<Rightarrow> (case fo_close ops ofd w2 of (rc, w3) \<Rightarrow>
                  Some (sint num, snd (libc rc errno2), fo_put_int ops User_ds (xp_ofile_count p) (int cnt) w3))
     | Some (Some ifd, errno2, num, cnt, w2) \<Rightarrow> (case fo_close ops ifd w2 of (rc, w3) \<Rightarrow>
                  (case fo_close ops ofd w3 of (rc', w4) \<Rightarrow>
                     let errno3 = snd (libc rc' (snd (libc rc errno2)))
                     in Some (- errno3, errno3, fo_put_int ops User_ds (xp_ofile_count p) (int cnt) w4))))"
  using assms by (simp add: usr_xmerge_def libc_def)

section \<open>Merging a file into itself\<close>

lemma copy_file_diverges:
  assumes "copy_file ops limit buf bs ifd ofd num w = Some y"
  shows "\<not> (posix ops view path user_addr \<and> reliable ops view path \<and> reachable_buf limit buf \<and> 0 < bs \<and> ifd \<noteq> ofd \<and>
    (\<exists>f off ga o1 c. fv_fds (view w) ifd = Some (f, off, ga) \<and> fv_fds (view w) ofd = Some (f, o1, True) \<and> fv_files (view w) f = Some c \<and> off < length c))"
  using assms
proof (rule copy_file.raw_induct[rotated])
  fix cf ops limit buf bs ifd ofd num w and y :: "int option \<times> u32 \<times> 'a"
  let ?I = "\<lambda>ops limit buf bs ifd ofd w. posix ops view path user_addr \<and> reliable ops view path \<and> reachable_buf limit buf \<and> 0 < bs \<and> ifd \<noteq> ofd \<and>
    (\<exists>f off ga o1 c. fv_fds (view w) ifd = Some (f, off, ga) \<and> fv_fds (view w) ofd = Some (f, o1, True) \<and> fv_files (view w) f = Some c \<and> off < length c)"
  assume IH: "\<And>ops limit buf bs ifd ofd num w y. cf ops limit buf bs ifd ofd num w = Some y \<Longrightarrow> \<not> ?I ops limit buf bs ifd ofd w"
    and st: "(case fo_read ops limit buf ifd bs w of (bytes_read, data, w1) \<Rightarrow>
        if bytes_read < 0 then Some (Some bytes_read, num, w1)
        else if bytes_read = 0 then Some (None, num, w1)
        else case fo_write ops limit buf ofd data w1 of (bytes_write, w2) \<Rightarrow>
          if bytes_write < 0 then Some (Some bytes_write, num, w2)
          else cf ops limit buf bs ifd ofd (num + word_of_int bytes_write) w2) = Some y"
  show "\<not> ?I ops limit buf bs ifd ofd w"
  proof
    assume I: "?I ops limit buf bs ifd ofd w"
    then obtain f off ga o1 c where v: "fv_fds (view w) ifd = Some (f, off, ga)" "fv_fds (view w) ofd = Some (f, o1, True)"
      "fv_files (view w) f = Some c" "off < length c" by blast
    obtain r data w1 where rd: "fo_read ops limit buf ifd bs w = (r, data, w1)" by (metis prod_cases3)
    obtain q w2 where wr: "fo_write ops limit buf ofd data w1 = (q, w2)" by fastforce
    have pre: "posix_read ops view" "posix_write ops view" "reachable_buf limit buf" "0 < bs" "reliable ops view path" using I posixD(2,3) by blast+
    have nn: "\<not> r < 0" using reliable_io(1)[OF pre(5) v(1,3) pre(3) rd] by simp
    note R = posix_readE[OF pre(1) rd pre(3,4) v(1,3)]
    have d: "r = int (length data)" "data = take (length data) (drop off c)" "data \<noteq> []" "view w1 = put_fd ifd (Some (f, off + length data, ga)) (view w)"
      using R nn v(4) by (metis drop_eq_Nil linorder_not_le)+
    have le: "length data \<le> length c - off" using arg_cong[OF d(2), of length] by simp
    have v1: "fv_fds (view w1) ofd = Some (f, o1, True)" "fv_files (view w1) f = Some c" using v d(4) I by auto
    have nq: "\<not> q < 0" using reliable_io(2)[OF pre(5) v1 pre(3) wr] by simp
    note W = posix_writeE[OF pre(2) wr pre(3) v1]
    have "view w2 = put_fd ofd (Some (f, length c + length data, True)) (put_file f (c @ data) (view w1))"
      using W nq by metis
    then have "?I ops limit buf bs ifd ofd w2"
      using I v d(3,4) le by (auto simp: Suc_le_eq)
    moreover have "cf ops limit buf bs ifd ofd (num + word_of_int q) w2 = Some y"
      using st nn nq d(1,3) unfolding rd prod.case wr by simp
    ultimately show False using IH by blast
  qed
qed

section \<open>A file system in memory\<close>

record memfs =
  m_files :: "(string \<times> u8 list) list"
  m_fds :: "(int \<times> string \<times> nat \<times> bool) list"
  m_ints :: "(uptr \<times> int) list"

definition mem_view :: "memfs \<Rightarrow> file_view" where
  "mem_view m = \<lparr>fv_files = map_of (m_files m), fv_fds = map_of (m_fds m), fv_ints = map_of (m_ints m)\<rparr>"

definition fresh_fd :: "memfs \<Rightarrow> int" where
  "fresh_fd m = foldr max (map fst (m_fds m)) 2 + 1"

definition mem_write_at :: "nat \<Rightarrow> u8 list \<Rightarrow> u8 list \<Rightarrow> u8 list" where
  "mem_write_at pos data c = take pos c @ replicate (pos - length c) 0 @ data @ drop (pos + length data) c"

definition mem_ops :: "(uptr \<Rightarrow> string) \<Rightarrow> (uptr \<Rightarrow> uptr list) \<Rightarrow> (uptr \<Rightarrow> bool) \<Rightarrow> memfs file_ops" where
  "mem_ops path arr user_addr = \<lparr>
     fo_kmalloc_ok = (\<lambda>n m. n \<le> 4194304),
     fo_get_ptrs = (\<lambda>u n m. if length (arr u) = n then Some (arr u) else None),
     fo_open = (\<lambda>limit u flags mode m. case map_of (m_files m) (path u) of
          None \<Rightarrow> if flag_set flags 64
            then (fresh_fd m, m\<lparr>m_files := (path u, []) # m_files m, m_fds := (fresh_fd m, path u, 0, flag_set flags 1024) # m_fds m\<rparr>)
            else (- 2, m)
        | Some c \<Rightarrow> if flag_set flags 64 \<and> flag_set flags 128 then (- 17, m)
            else (fresh_fd m, m\<lparr>m_files := (if flag_set flags 512 then (path u, []) # m_files m else m_files m),
                    m_fds := (fresh_fd m, path u, 0, flag_set flags 1024) # m_fds m\<rparr>)),
     fo_read = (\<lambda>limit buf fd n m. case map_of (m_fds m) fd of
          None \<Rightarrow> (- EBADF, [], m)
        | Some (f, off, a) \<Rightarrow>
            (case map_of (m_files m) f of None \<Rightarrow> (- 5, [], m)
             | Some c \<Rightarrow> if \<not> reachable_buf limit buf then (- 14, [], m)
                 else let data = take n (drop off c) in (int (length data), data, m\<lparr>m_fds := (fd, f, off + length data, a) # m_fds m\<rparr>))),
     fo_write = (\<lambda>limit buf fd data m. case map_of (m_fds m) fd of
          None \<Rightarrow> (- EBADF, m)
        | Some (f, off, a) \<Rightarrow>
            (case map_of (m_files m) f of None \<Rightarrow> (- 5, m)
             | Some c \<Rightarrow> if \<not> reachable_buf limit buf then (- 14, m)
                 else let pos = (if a then length c else off) in (int (length data),
                   m\<lparr>m_files := (f, mem_write_at pos data c) # m_files m, m_fds := (fd, f, pos + length data, a) # m_fds m\<rparr>))),
     fo_close = (\<lambda>fd m. if map_of (m_fds m) fd = None then (- EBADF, m) else (0, m\<lparr>m_fds := AList.delete fd (m_fds m)\<rparr>)),
     fo_put_int = (\<lambda>limit u n m. if limit = Kernel_ds \<or> user_addr u then m\<lparr>m_ints := (u, n) # m_ints m\<rparr> else m)\<rparr>"

lemma fresh_fd: "map_of (m_fds m) (fresh_fd m) = None" "0 \<le> fresh_fd m"
proof -
  have mx: "2 \<le> foldr max xs 2" "x \<in> set xs \<Longrightarrow> x \<le> foldr max xs (2::int)" for x xs
    by (induction xs) auto
  show "map_of (m_fds m) (fresh_fd m) = None"
    using mx(2)[of "fresh_fd m" "map fst (m_fds m)"] by (auto simp: fresh_fd_def map_of_eq_None_iff)
  show "0 \<le> fresh_fd m" using mx(1)[of "map fst (m_fds m)"] by (simp add: fresh_fd_def)
qed

lemma fresh_fd_pos [simp]: "\<not> fresh_fd m < 0"
  using fresh_fd(2)[of m] by simp

lemma write_at_end: "mem_write_at (length c) data c = c @ data"
  by (simp add: mem_write_at_def)

lemma mem_posix: "posix (mem_ops path arr user_addr) mem_view path user_addr"
proof -
  have "posix_open (mem_ops path arr user_addr) mem_view path"
    unfolding posix_open_def mem_ops_def O_RDONLY_def mem_view_def
    using fresh_fd by (auto split: option.splits if_splits)
  moreover have "posix_read (mem_ops path arr user_addr) mem_view"
    unfolding posix_read_def mem_ops_def mem_view_def
    by (auto simp: Let_def EBADF_def min_def split: option.splits if_splits)
  moreover have "posix_write (mem_ops path arr user_addr) mem_view"
    unfolding posix_write_def mem_ops_def mem_view_def
    by (auto simp: Let_def EBADF_def write_at_end split: option.splits if_splits)
  moreover have "posix_close (mem_ops path arr user_addr) mem_view"
    unfolding posix_close_def mem_ops_def mem_view_def
    by (auto simp: AList.delete_conv' split: option.splits if_splits)
  moreover have "posix_put (mem_ops path arr user_addr) mem_view user_addr"
    unfolding posix_put_def mem_ops_def mem_view_def by auto
  ultimately show ?thesis by (simp add: posix_def)
qed

lemma mem_reliable: "reliable (mem_ops path arr user_addr) mem_view path"
  unfolding reliable_def mem_ops_def mem_view_def O_RDONLY_def
  using fresh_fd by (auto simp: Let_def split: option.splits)


lemma mem_fd_laws: "fd_laws (mem_ops path arr user_addr) (\<lambda>m. dom (map_of (m_fds m)))"
proof -
  have ins: "dom ((map_of xs)(k \<mapsto> y)) = dom (map_of xs)" if "map_of xs k = Some z" for xs k y and z :: "string \<times> nat \<times> bool"
    using that by auto
  show ?thesis
    unfolding fd_laws_def mem_ops_def using fresh_fd(1) ins
    by (auto simp: Let_def AList.delete_conv' domIff split: option.splits if_splits)
qed

definition demo_path :: "uptr \<Rightarrow> string" where
  "demo_path u = (if u = 1 then ''out'' else if u = 2 then ''a'' else ''b'')"

definition demo_world :: memfs where
  "demo_world = \<lparr>m_files = [(''out'', [1]), (''a'', [2, 3]), (''b'', [4])], m_fds = [], m_ints = []\<rparr>"

definition demo_ops :: "uptr list \<Rightarrow> memfs file_ops" where
  "demo_ops us = mem_ops demo_path (\<lambda>_. us) (\<lambda>u. u < 1000)"

definition demo_params :: "u32 \<Rightarrow> xmerge_params" where
  "demo_params n = \<lparr>xp_outfile = 1, xp_infiles = 100, xp_num_files = n, xp_oflags = 1089, xp_mode = 384, xp_ofile_count = 7\<rparr>"

definition demo_opened :: memfs where
  "demo_opened = demo_world\<lparr>m_fds := [(3, ''out'', 0, True)]\<rparr>"

lemma demo_open: "fo_open (demo_ops us) limit 1 1089 mode demo_world = (3, demo_opened)"
  by (simp add: demo_ops_def mem_ops_def demo_path_def demo_world_def demo_opened_def fresh_fd_def flag_set_def)

lemma demo_view: "fv_fds (mem_view demo_opened) 3 = Some (''out'', 0, True)" "fv_files (mem_view demo_opened) ''out'' = Some [1]"
  "fv_files (mem_view demo_opened) ''a'' = Some [2, 3]" "fv_files (mem_view demo_opened) ''b'' = Some [4]"
  by (simp_all add: mem_view_def demo_opened_def demo_world_def)

lemma demo_pre:
  "fo_kmalloc_ok (demo_ops us) (8 * unat (xp_num_files (demo_params 2))) demo_world"
  "length us = 2 \<Longrightarrow> fo_get_ptrs (demo_ops us) (xp_infiles (demo_params 2)) (unat (xp_num_files (demo_params 2))) demo_world = Some us"
  "fo_open (demo_ops us) limit (xp_outfile (demo_params n)) (xp_oflags (demo_params n)) (xp_mode (demo_params n)) demo_world = (3, demo_opened)"
  using demo_open by (simp_all add: demo_ops_def mem_ops_def demo_params_def)

lemmas demo_posix = mem_posix[of demo_path "\<lambda>_. us" "\<lambda>u. u < 1000", folded demo_ops_def] for us
lemmas demo_reliable = mem_reliable[of demo_path "\<lambda>_. us" "\<lambda>u. u < 1000", folded demo_ops_def] for us

abbreviation demo_k :: "memfs kstate" where
  "demo_k \<equiv> \<lparr>ks_world = demo_world, ks_limit = User_ds, ks_allocs = 0\<rparr>"

section \<open>Properties\<close>



text \<open>
  C33: On every path on which the call returns, whatever fails, the open descriptors, the address
  limit and the number of live allocations are those before the call.
\<close>

theorem xmerge_no_leak:
  assumes "fd_laws ops fds" "xmerge ops p k = Some (Returned r, k')"
  shows "fds (ks_world k') = fds (ks_world k) \<and> ks_limit k' = ks_limit k \<and> ks_allocs k' = ks_allocs k"
proof -
  obtain ofd w1 where op: "fo_open ops (ks_limit k) (xp_outfile p) (xp_oflags p) (xp_mode p) (ks_world k) = (ofd, w1)" by fastforce
  have ok: "fo_kmalloc_ok ops (8 * unat (xp_num_files p)) (ks_world k)" using assms(2) by (auto simp: xmerge_def split: if_splits)
  show ?thesis
  proof (cases "fo_get_ptrs ops (xp_infiles p) (unat (xp_num_files p)) (ks_world k)")
    case None
    then show ?thesis using assms(2) ok by (auto simp: xmerge_def kfree_def Let_def)
  next
    case (Some us)
    show ?thesis
    proof (cases "ofd < 0")
      case True
      then have "fds w1 = fds (ks_world k)" using op assms(1) unfolding fd_laws_def by metis
      moreover have "xmerge ops p k = Some (Returned ofd, k\<lparr>ks_world := w1\<rparr>)"
        by (simp add: xmerge_def kfree_def ok Some op True Let_def)
      then have "k' = k\<lparr>ks_world := w1\<rparr>" using assms(2) by simp
      ultimately show ?thesis by simp
    next
      case False
      then have f1: "ofd \<notin> fds (ks_world k)" "fds w1 = insert ofd (fds (ks_world k))" using op assms(1) unfolding fd_laws_def by metis+
      have put: "fds (fo_put_int ops l q n (snd (fo_close ops ofd w2))) = fds (ks_world k)" if "fds w2 = fds w1" for l q n w2
        using that f1 assms(1) by (simp add: fd_laws_def)
      have "0 \<le> ofd" using False by simp
      note E = xmerge_opened[OF ok Some op this]
      obtain e n c w2 where m: "merge_files ops Kernel_ds us ofd 0 0 w1 = Some (e, n, c, w2)"
        using assms(2) unfolding E by (cases "merge_files ops Kernel_ds us ofd 0 0 w1") auto
      note A = assms(2)[unfolded E m option.case prod.case]
      have "\<exists>l. k' = k\<lparr>ks_world := fo_put_int ops l (xp_ofile_count p) (int c) (snd (fo_close ops ofd w2))\<rparr>"
        using A by (cases e) (simp_all, blast+)
      then show ?thesis using put[OF merge_files_fds[OF assms(1) m]] by auto
    qed
  qed
qed

theorem xmerge_no_leak_witness:
  "\<exists>r k'. xmerge (demo_ops [2, 3]) (demo_params 2) demo_k = Some (Returned r, k') \<and> dom (map_of (m_fds (ks_world k'))) = {}"
proof -
  obtain r k' where x: "xmerge (demo_ops [2, 3]) (demo_params 2) demo_k = Some (Returned r, k')"
    using xmerge_merges_gen[OF demo_posix, of "[2, 3]" "demo_params 2" demo_k "[2, 3]" 3 demo_opened "''out''" 0 True "[1]"]
    using demo_pre[of "[2, 3]"] demo_view by (fastforce simp: demo_path_def)
  from xmerge_no_leak[OF mem_fd_laws[of demo_path "\<lambda>_. [2, 3]" "\<lambda>u. u < 1000", folded demo_ops_def] this]
  show ?thesis using x by (simp add: demo_world_def)
qed



text \<open>
  The user-space version loses the error when an input cannot be opened: it closes the
  descriptor -1, which sets \<open>errno\<close> to EBADF, and returns that instead of the error of \<open>open\<close>.
\<close>

theorem usr_xmerge_masks_error:
  assumes "posix ops view path user_addr"
    and "fo_open ops User_ds (xp_outfile p) (xp_oflags p) (xp_mode p) w = (ofd, w1)" "0 \<le> ofd" "fv_fds (view w1) ofd \<noteq> None" "fv_fds (view w1) (- 1) = None"
    and "fo_open ops User_ds u O_RDONLY 0 w1 = (r, w2)" "r < 0"
  shows "\<exists>w'. usr_xmerge ops p (u # us) errno w = Some (- EBADF, EBADF, w')"
proof -
  have v: "view w2 = view w1" by (rule posix_open_fail[OF posixD(1)[OF assms(1)] assms(6,7)])
  obtain rc w3 where c1: "fo_close ops (- 1) w2 = (rc, w3)" by fastforce
  obtain rc' w4 where c2: "fo_close ops ofd w3 = (rc', w4)" by fastforce
  have r1: "rc = - EBADF" "view w3 = view w2" using posixD(4)[OF assms(1)] c1 v assms(5) unfolding posix_close_def by metis+
  have "rc' = 0" using posixD(4)[OF assms(1)] c2 r1(2) v assms(4) unfolding posix_close_def by metis
  then show ?thesis
    unfolding usr_xmerge_opened[OF assms(2,3)] using assms(6,7) c1 c2 r1(1) by (simp add: libc_def EBADF_def)
qed

theorem usr_xmerge_masks_error_witness:
  "\<exists>w'. usr_xmerge (mem_ops (\<lambda>u. if u = 1 then ''out'' else ''missing'') (\<lambda>_. [5]) (\<lambda>_. True)) (demo_params 1) [5] 0 demo_world = Some (- EBADF, EBADF, w')"
proof -
  let ?o = "mem_ops (\<lambda>u. if u = 1 then ''out'' else ''missing'') (\<lambda>_. [5]) (\<lambda>_. True)"
  have "fo_open ?o User_ds (xp_outfile (demo_params 1)) (xp_oflags (demo_params 1)) (xp_mode (demo_params 1)) demo_world = (3, demo_opened)"
    "fo_open ?o User_ds 5 O_RDONLY 0 demo_opened = (- 2, demo_opened)"
    by (simp_all add: mem_ops_def demo_params_def demo_world_def demo_opened_def fresh_fd_def flag_set_def O_RDONLY_def)
  from usr_xmerge_masks_error[OF mem_posix this(1) _ _ _ this(2)] show ?thesis
    using demo_view by (simp add: mem_view_def demo_opened_def)
qed

text \<open>
  Merging a non-empty file, opened for appending, into itself never returns: every buffer read is
  appended again before the next read.
\<close>

theorem xmerge_into_itself_diverges:
  assumes "posix ops view path user_addr" "reliable ops view path"
    and "fo_kmalloc_ok ops (8 * unat (xp_num_files p)) (ks_world k)" "fo_get_ptrs ops (xp_infiles p) (unat (xp_num_files p)) (ks_world k) = Some (u # us)"
    and "fo_open ops (ks_limit k) (xp_outfile p) (xp_oflags p) (xp_mode p) (ks_world k) = (ofd, w1)" "0 \<le> ofd"
    and "fv_fds (view w1) ofd = Some (path u, o1, True)" "fv_files (view w1) (path u) = Some d" "d \<noteq> []"
  shows "xmerge ops p k = None"
proof -
  obtain ifd w2 where op: "fo_open ops Kernel_ds u O_RDONLY 292 w1 = (ifd, w2)" by fastforce
  have nn: "0 \<le> ifd" using reliable_open[OF assms(2) op] assms(8) by simp
  have v2: "fv_fds (view w1) ifd = None" "view w2 = put_fd ifd (Some (path u, 0, False)) (view w1)"
    using posixD(1)[OF assms(1)] op nn unfolding posix_open_def by (metis linorder_not_le)+
  have ne: "ifd \<noteq> ofd" using v2(1) assms(7) by auto
  have "copy_file ops Kernel_ds Kernel_ds PAGE_SIZE ifd ofd 0 w2 = None"
  proof (rule ccontr)
    assume "copy_file ops Kernel_ds Kernel_ds PAGE_SIZE ifd ofd 0 w2 \<noteq> None"
    then obtain y where "copy_file ops Kernel_ds Kernel_ds PAGE_SIZE ifd ofd 0 w2 = Some y" by blast
    from copy_file_diverges[OF this, of view path user_addr] show False
      using assms(1,2,7-9) v2 ne by (auto simp: reachable_buf_def PAGE_SIZE_def)
  qed
  then show ?thesis unfolding xmerge_opened[OF assms(3-6)] using op nn by simp
qed

theorem xmerge_into_itself_diverges_witness: "xmerge (demo_ops [1, 2]) (demo_params 2) demo_k = None"
  using xmerge_into_itself_diverges[OF demo_posix demo_reliable, of "[1, 2]" "demo_params 2" demo_k 1 "[2]" 3 demo_opened 0 "[1]"]
  using demo_pre[of "[1, 2]"] demo_view by (simp add: demo_path_def)

end
