(* ===== verification/Xmerge_Main.thy ===== *)
theory Xmerge_Main
  imports Xmerge C_Text
begin

text \<open>
  The main program of \<open>HW4-xmerge/test_xmerge.c\<close>: the command line with \<open>getopt\<close>, the parameters of the call,
  and what is printed; the parameters are those that the command line asks for.
\<close>

section \<open>Options\<close>

text \<open>
  \<open>getopt\<close> of the GNU library with the options \<open>actem:\<close>: letters may be joined, the argument of \<open>m\<close> is the rest of
  its word or the next word, unknown letters and a missing argument give a question mark, and words that
  are no options are moved to the end.
\<close>

datatype opt = Opt char "string option"

fun getopt_word :: "string \<Rightarrow> string list \<Rightarrow> opt list \<times> string list" where
  "getopt_word [] rest = ([], rest)"
| "getopt_word (c # cs) rest =
     (if c = CHR ''m'' then
        (if cs \<noteq> [] then ([Opt c (Some cs)], rest)
         else case rest of [] \<Rightarrow> ([Opt CHR ''?'' None], []) | a # as \<Rightarrow> ([Opt c (Some a)], as))
      else case getopt_word cs rest of
        (opts, r) \<Rightarrow> (Opt (if c \<in> set ''acte'' then c else CHR ''?'') None # opts, r))"

lemma getopt_word_length: "length (snd (getopt_word cs rest)) \<le> length rest"
  by (induction cs) (auto split: list.split prod.split)

function getopt_all :: "string list \<Rightarrow> opt list \<times> string list" where
  "getopt_all [] = ([], [])"
| "getopt_all (a # rest) =
     (if a = ''--'' then ([], rest)
      else if 2 \<le> length a \<and> hd a = CHR ''-'' then
        (case getopt_word (tl a) rest of
           (opts, r) \<Rightarrow> (case getopt_all r of (opts2, files) \<Rightarrow> (opts @ opts2, files)))
      else (case getopt_all rest of (opts, files) \<Rightarrow> (opts, a # files)))"
  by pat_completeness auto
termination
proof (relation "measure length")
  fix a rest opts r
  assume "(opts, r) = getopt_word (tl a) rest"
  then show "(r, a # rest) \<in> measure length" using getopt_word_length[of "tl a" rest] by (cases "getopt_word (tl a) rest") simp
qed simp_all

section \<open>Parameters\<close>

definition MAX_FILENAME :: nat where "MAX_FILENAME = 128"

definition O_WRONLY :: u32 where "O_WRONLY = 1"
definition O_CREAT :: u32 where "O_CREAT = 64"
definition O_EXCL :: u32 where "O_EXCL = 128"
definition O_TRUNC :: u32 where "O_TRUNC = 512"
definition O_APPEND :: u32 where "O_APPEND = 1024"

text \<open>\<open>strtol\<close> in base eight, to a \<open>mode_t\<close>: the nearest \<open>long\<close> when the number does not fit.\<close>

definition is_octal :: "char \<Rightarrow> bool" where
  "is_octal c \<longleftrightarrow> 48 \<le> (of_char c :: nat) \<and> (of_char c :: nat) \<le> 55"

definition strtol8 :: "string \<Rightarrow> int" where
  "strtol8 cs =
     (let ds = dropWhile is_space cs;
          neg = (case ds of [] \<Rightarrow> False | c # xs \<Rightarrow> c = CHR ''-'');
          es = (case ds of [] \<Rightarrow> [] | c # xs \<Rightarrow> if c = CHR ''-'' \<or> c = CHR ''+'' then xs else ds);
          n = int (foldl (\<lambda>n c. 8 * n + (of_char c - 48)) 0 (takeWhile is_octal es))
      in if neg then max (- n) (- (2 ^ 63)) else min n (2 ^ 63 - 1))"

record merge_request =
  mr_outfile :: string
  mr_infiles :: "string list"
  mr_oflags :: u32
  mr_mode :: u32

fun apply_opt :: "opt \<Rightarrow> u32 \<times> u32 \<Rightarrow> u32 \<times> u32" where
  "apply_opt (Opt c arg) (oflags, mode) =
     (if c = CHR ''a'' then (oflags OR O_APPEND, mode)
      else if c = CHR ''c'' then (oflags OR O_CREAT, mode)
      else if c = CHR ''t'' then (oflags OR O_TRUNC, mode)
      else if c = CHR ''e'' then (oflags OR O_EXCL, mode)
      else if c = CHR ''m'' then (oflags, case arg of None \<Rightarrow> mode | Some a \<Rightarrow> word_of_int (strtol8 a))
      else (oflags, mode))"

text \<open>
  The names are copied into buffers of \<open>MAX_FILENAME\<close> bytes without a check, and the output is read from the
  null pointer after the last word when there is none: both are \<open>None\<close>.
\<close>

definition merge_args :: "string list \<Rightarrow> merge_request option" where
  "merge_args args =
     (case getopt_all args of
        (opts, []) \<Rightarrow> None
      | (opts, out # ins) \<Rightarrow>
          if \<not> list_all (\<lambda>f. length f < MAX_FILENAME) (out # ins) then None
          else case fold apply_opt opts (O_WRONLY OR O_CREAT OR O_APPEND, 384) of
            (oflags, mode) \<Rightarrow> Some \<lparr>mr_outfile = out, mr_infiles = ins, mr_oflags = oflags, mr_mode = mode\<rparr>)"

section \<open>The program\<close>

datatype merge_output = Merged int int | Errno int

text \<open>The result of the system call through \<open>syscall\<close>, with the count and the old \<open>errno\<close>.\<close>

definition merge_report :: "int \<Rightarrow> int \<Rightarrow> int \<Rightarrow> merge_output" where
  "merge_report r file_count errno =
     (case libc r errno of (bytes_num, errno1) \<Rightarrow> if bytes_num > 0 then Merged bytes_num file_count else Errno (- errno1))"

text \<open>
  \<open>place\<close> writes the request into memory and gives the structure with its addresses, \<open>get_int\<close> reads an
  integer; \<open>None\<close> is a crash of the program or a call that does not return.
\<close>

definition test_xmerge ::
  "'w file_ops \<Rightarrow> (merge_request \<Rightarrow> 'w \<Rightarrow> xmerge_params \<times> 'w) \<Rightarrow> (uptr \<Rightarrow> 'w \<Rightarrow> int) \<Rightarrow> string list \<Rightarrow> int \<Rightarrow> 'w kstate \<Rightarrow>
   (merge_output \<times> 'w kstate) option" where
  "test_xmerge ops place get_int args errno k =
     (case merge_args args of
        None \<Rightarrow> None
      | Some q \<Rightarrow>
          (case place q (ks_world k) of
             (p, w) \<Rightarrow>
               (case xmerge ops p (k\<lparr>ks_world := w\<rparr>) of
                  Some (Returned r, k1) \<Rightarrow> Some (merge_report r (get_int (xp_ofile_count p) (ks_world k1)) errno, k1)
                | _ \<Rightarrow> None)))"

section \<open>The command line says what is merged\<close>

text \<open>The words of a command line: letters of options, a mode in octal, a file.\<close>

fun show_oct :: "nat \<Rightarrow> string" where
  "show_oct n = (if n < 8 then [char_of (48 + n)] else show_oct (n div 8) @ [char_of (48 + n mod 8)])"

declare show_oct.simps [simp del]

datatype item = Letters string | Mode u32 | File string

primrec item_words :: "item \<Rightarrow> string list" where
  "item_words (Letters cs) = [CHR ''-'' # cs]"
| "item_words (Mode m) = [''-m'', show_oct (unat m)]"
| "item_words (File f) = [f]"

primrec item_ok :: "item \<Rightarrow> bool" where
  "item_ok (Letters cs) \<longleftrightarrow> cs \<noteq> [] \<and> set cs \<subseteq> set ''acte''"
| "item_ok (Mode m) \<longleftrightarrow> True"
| "item_ok (File f) \<longleftrightarrow> length f < MAX_FILENAME \<and> (f = [] \<or> f = ''-'' \<or> hd f \<noteq> CHR ''-'')"

definition item_files :: "item list \<Rightarrow> string list" where
  "item_files items = [f. File f \<leftarrow> items]"

definition item_letters :: "item list \<Rightarrow> char set" where
  "item_letters items = {c. \<exists>cs. Letters cs \<in> set items \<and> c \<in> set cs}"

definition item_mode :: "item list \<Rightarrow> u32" where
  "item_mode items = last (384 # [m. Mode m \<leftarrow> items])"

primrec item_opts :: "item \<Rightarrow> opt list" where
  "item_opts (Letters cs) = map (\<lambda>c. Opt c None) cs"
| "item_opts (Mode m) = [Opt CHR ''m'' (Some (show_oct (unat m)))]"
| "item_opts (File f) = []"

lemma show_oct_digits: "list_all is_octal (show_oct n)" "show_oct n \<noteq> []"
proof (induction n rule: show_oct.induct)
  case (1 n)
  have o: "is_octal (char_of (48 + k))" if "k < 8" for k :: nat using that digit_char(1)[of k] by (simp add: is_octal_def)
  {
    case 1
    show ?case using "1.IH"(1) o by (subst show_oct.simps) simp
  next
    case 2
    show ?case by (subst show_oct.simps) simp
  }
qed

lemma show_oct_value: "foldl (\<lambda>n c. 8 * n + (of_char c - 48)) 0 (show_oct n) = n"
proof (induction n rule: show_oct.induct)
  case (1 n)
  show ?case using 1 digit_char(1)[of "n mod 8"] digit_char(1)[of n] by (subst show_oct.simps) simp
qed

lemma strtol8_show_oct:
  fixes m :: u32
  shows "word_of_int (strtol8 (show_oct (unat m))) = m"
proof -
  obtain c cs where s: "show_oct (unat m) = c # cs" using show_oct_digits(2) by (cases "show_oct (unat m)") simp_all
  have o: "is_octal c" using show_oct_digits(1)[of "unat m"] s by simp
  then have h: "\<not> is_space c" "c \<noteq> CHR ''-''" "c \<noteq> CHR ''+''" by (auto simp: is_octal_def is_space_def)
  have t: "takeWhile is_octal (show_oct (unat m)) = show_oct (unat m)"
    using show_oct_digits(1)[of "unat m"] by (simp add: takeWhile_eq_all_conv list_all_iff)
  have "int (unat m) < 2 ^ 32" using unsigned_less[of m] by simp
  then have b: "min (int (unat m)) (2 ^ 63 - 1) = int (unat m)" by (simp only: min_def) simp
  have "strtol8 (show_oct (unat m)) = int (unat m)"
    using h t b show_oct_value[of "unat m"] unfolding strtol8_def Let_def s by simp
  then show ?thesis by simp
qed

lemma getopt_letters: "set cs \<subseteq> set ''acte'' \<Longrightarrow> getopt_word cs rest = (map (\<lambda>c. Opt c None) cs, rest)"
  by (induction cs) auto

lemma getopt_item:
  assumes "item_ok i"
  shows "getopt_all (item_words i @ rest) = (case getopt_all rest of (opts, files) \<Rightarrow> (item_opts i @ opts, item_files [i] @ files))"
proof (cases i)
  case (Letters cs)
  then obtain c ds where c: "cs = c # ds" using assms by (cases cs) simp_all
  have "CHR ''-'' # cs \<noteq> ''--''" using Letters assms c by auto
  then show ?thesis using Letters assms c getopt_letters[of cs rest] by (simp add: item_files_def split: prod.split)
next
  case (File f)
  have "f \<noteq> ''--''" "(2 \<le> length f \<and> hd f = CHR ''-'') = False" using File assms by auto
  then show ?thesis using File by (simp only: item_words.simps append.simps getopt_all.simps if_False)
      (simp add: item_files_def split: prod.split)
qed (simp add: item_files_def split: prod.split)

lemma getopt_items:
  "list_all item_ok items \<Longrightarrow> getopt_all (concat (map item_words items)) = (concat (map item_opts items), item_files items)"
proof (induction items)
  case (Cons i items)
  have "item_files (i # items) = item_files [i] @ item_files items" by (simp add: item_files_def)
  then show ?case using Cons getopt_item[of i "concat (map item_words items)"] by simp
qed (simp add: item_files_def)

text \<open>The flags that some letters ask for.\<close>

definition letter_flags :: "char set \<Rightarrow> u32" where
  "letter_flags cs = (if CHR ''a'' \<in> cs then O_APPEND else 0) OR (if CHR ''c'' \<in> cs then O_CREAT else 0)
     OR (if CHR ''t'' \<in> cs then O_TRUNC else 0) OR (if CHR ''e'' \<in> cs then O_EXCL else 0)"

lemma letter_flags_union: "letter_flags (A \<union> B) = letter_flags A OR letter_flags B"
  by (simp add: letter_flags_def ac_simps)

lemma apply_letters: "set cs \<subseteq> set ''acte'' \<Longrightarrow> fold apply_opt (map (\<lambda>c. Opt c None) cs) (f, m) = (f OR letter_flags (set cs), m)"
proof (induction cs arbitrary: f)
  case (Cons c cs)
  have "apply_opt (Opt c None) (f, m) = (f OR letter_flags {c}, m)" using Cons.prems by (auto simp: letter_flags_def)
  then show ?case using Cons letter_flags_union[of "{c}" "set cs"] by (simp add: ac_simps)
qed (simp add: letter_flags_def)

lemma item_letters_Cons [simp]:
  "item_letters (Letters cs # items) = set cs \<union> item_letters items"
  "item_letters (Mode m # items) = item_letters items" "item_letters (File f # items) = item_letters items"
  by (auto simp: item_letters_def)

lemma apply_items:
  "list_all item_ok items \<Longrightarrow>
    fold apply_opt (concat (map item_opts items)) (f, m) = (f OR letter_flags (item_letters items), last (m # [x. Mode x \<leftarrow> items]))"
proof (induction items arbitrary: f m)
  case (Cons i items)
  show ?case
    using Cons by (cases i) (simp_all add: apply_letters strtol8_show_oct letter_flags_union ac_simps)
qed (simp add: letter_flags_def item_letters_def)

text \<open>
  A command line of options, modes in octal and file names in any order gives the request it stands for: the
  first file is the output, the others the inputs in order, the flags are those of all letters besides the
  default ones, and the mode is the last one given, or 0600.
\<close>

theorem merge_args_roundtrip:
  assumes "list_all item_ok items" "item_files items = out # ins"
  shows "merge_args (concat (map item_words items))
    = Some \<lparr>mr_outfile = out, mr_infiles = ins, mr_oflags = O_WRONLY OR O_CREAT OR O_APPEND OR letter_flags (item_letters items),
        mr_mode = item_mode items\<rparr>"
proof -
  have "list_all (\<lambda>f. length f < MAX_FILENAME) (item_files items)" using assms(1) by (auto simp: item_files_def list_all_iff split: item.splits)
  then show ?thesis using getopt_items[OF assms(1)] apply_items[OF assms(1)] assms(2)
    by (simp add: merge_args_def item_mode_def ac_simps)
qed

theorem merge_args_roundtrip_witness:
  "merge_args [''-te'', ''out'', ''one'', ''-m'', ''644'', ''two'']
    = Some \<lparr>mr_outfile = ''out'', mr_infiles = [''one'', ''two''], mr_oflags = 1 OR 64 OR 128 OR 512 OR 1024, mr_mode = 420\<rparr>"
proof -
  let ?is = "[Letters ''te'', File ''out'', File ''one'', Mode 420, File ''two'']"
  have "show_oct 420 = ''644''" by code_simp
  then have "concat (map item_words ?is) = [''-te'', ''out'', ''one'', ''-m'', ''644'', ''two'']" by simp
  moreover have "list_all item_ok ?is" "item_files ?is = [''out'', ''one'', ''two'']" "item_mode ?is = 420"
    by (simp_all add: MAX_FILENAME_def item_files_def item_mode_def)
  moreover have "item_letters ?is = set ''te''" by (auto simp: item_letters_def)
  ultimately show ?thesis using merge_args_roundtrip[of ?is "''out''" "[''one'', ''two'']"]
    by (simp add: letter_flags_def O_WRONLY_def O_CREAT_def O_APPEND_def O_TRUNC_def O_EXCL_def)
qed

text \<open>Nothing merged counts as an error: with empty inputs the program prints the number of an error that did not happen.\<close>

lemma empty_merge_reports_error: "merge_report 0 n 0 = Errno 0"
  by (simp add: merge_report_def libc_def)

text \<open>What the program prints is what the system call answers: bytes and files, or the negated error number.\<close>

lemma merge_report_cases: "merge_report r n errno = (if r > 0 then Merged r n else if r < 0 then Errno r else Errno (- errno))"
  by (simp add: merge_report_def libc_def)

end
