(* ===== verification/Byte_Store.thy ===== *)
theory Byte_Store
  imports Prelude
begin

text \<open>
  The interface of a character device that stores a sequence of bytes: reads and writes at a
  position, which may transfer less than asked for, as \<open>read(2)\<close> and \<open>write(2)\<close> allow.  The loops with
  which a client transfers everything, and what they amount to, are given once here.
\<close>

section \<open>Replacing a part of a sequence\<close>

definition overwrite :: "nat \<Rightarrow> 'a list \<Rightarrow> 'a list \<Rightarrow> 'a list" where
  "overwrite pos bs xs = take pos xs @ bs @ drop (pos + length bs) xs"

lemma length_overwrite: "pos \<le> length xs \<Longrightarrow> length (overwrite pos bs xs) = max (length xs) (pos + length bs)"
  by (simp add: overwrite_def)

lemma overwrite_nth:
  assumes "pos \<le> length xs" "i < max (length xs) (pos + length bs)"
  shows "overwrite pos bs xs ! i = (if pos \<le> i \<and> i < pos + length bs then bs ! (i - pos) else xs ! i)"
  using assms by (auto simp: overwrite_def nth_append min_def)

lemma overwrite_overwrite:
  assumes "pos \<le> length xs" "k \<le> length bs"
  shows "overwrite (pos + k) (drop k bs) (overwrite pos (take k bs) xs) = overwrite pos bs xs"
proof (rule nth_equalityI)
  have l: "length (overwrite pos (take k bs) xs) = max (length xs) (pos + k)"
    using assms by (simp add: length_overwrite min_def)
  then show len: "length (overwrite (pos + k) (drop k bs) (overwrite pos (take k bs) xs)) = length (overwrite pos bs xs)"
    using assms by (subst length_overwrite) (simp_all add: length_overwrite max_def)
  fix i assume "i < length (overwrite (pos + k) (drop k bs) (overwrite pos (take k bs) xs))"
  then have i: "i < max (length xs) (pos + length bs)" unfolding len using assms(1) by (simp add: length_overwrite)
  show "overwrite (pos + k) (drop k bs) (overwrite pos (take k bs) xs) ! i = overwrite pos bs xs ! i"
  proof (cases "i < max (length xs) (pos + k)")
    case True
    then show ?thesis using assms i l by (subst overwrite_nth) (auto simp: overwrite_nth min_def)
  next
    case False
    then show ?thesis using assms i l by (subst overwrite_nth) (auto simp: overwrite_nth min_def)
  qed
qed

lemma overwrite_end: "overwrite (length xs) bs xs = xs @ bs"
  by (simp add: overwrite_def)

section \<open>The client's loops\<close>

text \<open>
  Read until nothing comes any more, and write until everything is out or a write fails; at most as
  often as the first argument says.
\<close>

fun read_all :: "(nat \<Rightarrow> nat \<Rightarrow> 'd \<Rightarrow> u8 list \<times> 'd) \<Rightarrow> nat \<Rightarrow> nat \<Rightarrow> nat \<Rightarrow> 'd \<Rightarrow> (u8 list \<times> 'd) option" where
  "read_all rd 0 n pos d = None"
| "read_all rd (Suc fuel) n pos d =
     (case rd pos n d of (bs, d1) \<Rightarrow>
        if bs = [] then Some ([], d1)
        else map_option (\<lambda>(cs, d2). (bs @ cs, d2)) (read_all rd fuel n (pos + length bs) d1))"

fun write_all :: "(nat \<Rightarrow> u8 list \<Rightarrow> 'd \<Rightarrow> nat option \<times> 'd) \<Rightarrow> nat \<Rightarrow> nat \<Rightarrow> u8 list \<Rightarrow> 'd \<Rightarrow> (nat \<times> 'd) option" where
  "write_all wr 0 pos bs d = None"
| "write_all wr (Suc fuel) pos bs d =
     (if bs = [] then Some (0, d)
      else case wr pos bs d of
        (None, d1) \<Rightarrow> Some (0, d1)
      | (Some k, d1) \<Rightarrow> map_option (\<lambda>(m, d2). (k + m, d2)) (write_all wr fuel (pos + k) (drop k bs) d1))"

section \<open>The contract\<close>

locale byte_store =
  fixes inv :: "'d \<Rightarrow> bool"
    and contents :: "'d \<Rightarrow> u8 list"
    and cap :: nat
    and rd :: "nat \<Rightarrow> nat \<Rightarrow> 'd \<Rightarrow> u8 list \<times> 'd"
    and wr :: "nat \<Rightarrow> u8 list \<Rightarrow> 'd \<Rightarrow> nat option \<times> 'd"
  assumes rd_keeps: "inv d \<Longrightarrow> pos \<le> length (contents d) \<Longrightarrow> n < 2 ^ 63 \<Longrightarrow> rd pos n d = (bs, d') \<Longrightarrow> inv d' \<and> contents d' = contents d"
    and rd_part: "inv d \<Longrightarrow> pos \<le> length (contents d) \<Longrightarrow> n < 2 ^ 63 \<Longrightarrow> rd pos n d = (bs, d') \<Longrightarrow>
      length bs \<le> n \<and> bs = take (length bs) (drop pos (contents d))"
    and rd_progress: "inv d \<Longrightarrow> pos < length (contents d) \<Longrightarrow> 0 < n \<Longrightarrow> n < 2 ^ 63 \<Longrightarrow> rd pos n d = (bs, d') \<Longrightarrow> bs \<noteq> []"
    and wr_some: "inv d \<Longrightarrow> pos \<le> length (contents d) \<Longrightarrow> pos + length bs \<le> cap \<Longrightarrow> bs \<noteq> [] \<Longrightarrow> wr pos bs d = (Some k, d') \<Longrightarrow>
      0 < k \<and> k \<le> length bs \<and> inv d' \<and> contents d' = overwrite pos (take k bs) (contents d)"
    and wr_none: "inv d \<Longrightarrow> pos \<le> length (contents d) \<Longrightarrow> pos + length bs \<le> cap \<Longrightarrow> bs \<noteq> [] \<Longrightarrow> wr pos bs d = (None, d') \<Longrightarrow>
      inv d' \<and> contents d' = contents d"
begin

lemma read_all_rest:
  assumes "inv d" "pos \<le> length (contents d)" "0 < n" "n < 2 ^ 63" "length (contents d) - pos < fuel"
  shows "\<exists>d'. read_all rd fuel n pos d = Some (drop pos (contents d), d') \<and> inv d' \<and> contents d' = contents d"
  using assms(1,2,5)
proof (induction fuel arbitrary: pos d)
  case (Suc fuel)
  obtain bs d1 where r: "rd pos n d = (bs, d1)" by fastforce
  note k = rd_keeps[OF Suc.prems(1,2) assms(4) r] and p = rd_part[OF Suc.prems(1,2) assms(4) r]
  show ?case
  proof (cases "bs = []")
    case True
    then have "\<not> pos < length (contents d)" using rd_progress[OF Suc.prems(1) _ assms(3,4) r] by blast
    then show ?thesis using r k True by simp
  next
    case False
    have le: "length bs \<le> length (contents d) - pos" using arg_cong[OF conjunct2[OF p], of length] by simp
    have "length (contents d1) - (pos + length bs) < fuel" using Suc.prems(3) k False le by (cases bs) auto
    then obtain d2 where d2: "read_all rd fuel n (pos + length bs) d1 = Some (drop (pos + length bs) (contents d1), d2)"
        "inv d2" "contents d2 = contents d1"
      using Suc.IH[of d1 "pos + length bs"] k le Suc.prems(2) by (auto simp: le_diff_conv2 add.commute)
    have "bs @ drop (pos + length bs) (contents d) = drop pos (contents d)"
      using append_take_drop_id[of "length bs" "drop pos (contents d)"] p by (simp add: add.commute)
    then show ?thesis using r False d2 k by simp
  qed
qed simp

lemma write_all_overwrites:
  assumes "inv d" "pos \<le> length (contents d)" "pos + length bs \<le> cap" "length bs < fuel"
  shows "\<exists>m d'. write_all wr fuel pos bs d = Some (m, d') \<and> m \<le> length bs \<and> inv d' \<and> contents d' = overwrite pos (take m bs) (contents d)"
  using assms
proof (induction fuel arbitrary: pos bs d)
  case (Suc fuel)
  show ?case
  proof (cases "bs = []")
    case True
    then show ?thesis using Suc.prems by (simp add: overwrite_def)
  next
    case False
    obtain r d1 where w: "wr pos bs d = (r, d1)" by fastforce
    show ?thesis
    proof (cases r)
      case None
      then show ?thesis using False w wr_none[OF Suc.prems(1-3) False, of d1] Suc.prems(2) by (simp add: overwrite_def)
    next
      case (Some k)
      note s = wr_some[OF Suc.prems(1-3) False, of k d1, OF w[unfolded Some]]
      have "pos + k \<le> length (contents d1)" using s Suc.prems(2) by (auto simp: length_overwrite min_def)
      then obtain m d2 where m: "write_all wr fuel (pos + k) (drop k bs) d1 = Some (m, d2)" "m \<le> length (drop k bs)" "inv d2"
          "contents d2 = overwrite (pos + k) (take m (drop k bs)) (contents d1)"
        using Suc.IH[of d1 "pos + k" "drop k bs"] s Suc.prems by fastforce
      have "take m (drop k bs) = drop k (take (k + m) bs)" "take k bs = take k (take (k + m) bs)" by (simp_all add: take_drop add.commute)
      then have "contents d2 = overwrite pos (take (k + m) bs) (contents d)"
        using m(2,4) s overwrite_overwrite[OF Suc.prems(2), of k "take (k + m) bs"] by simp
      then show ?thesis using False w Some m s by (auto simp: le_diff_conv2 add.commute)
    qed
  qed
qed simp

text \<open>What was written from the start of an empty store is what is read back.\<close>

lemma write_read:
  assumes "inv d" "contents d = []" "length bs \<le> cap" "length bs < fuel" "0 < n" "n < 2 ^ 63"
  shows "\<exists>m d' d''. write_all wr fuel 0 bs d = Some (m, d') \<and> read_all rd fuel n 0 d' = Some (take m bs, d'')"
proof -
  obtain m d' where w: "write_all wr fuel 0 bs d = Some (m, d')" "m \<le> length bs" "inv d'" "contents d' = take m bs"
    using write_all_overwrites[OF assms(1), of 0 bs fuel] assms(2-4) by (auto simp: overwrite_def)
  then show ?thesis using read_all_rest[OF w(3), of 0 n fuel] assms(4-6) by auto
qed

end

section \<open>Writes that cannot fail\<close>

locale sure_store = byte_store +
  fixes sure :: "'a \<Rightarrow> bool"
  assumes sure_wr: "inv d \<Longrightarrow> sure d \<Longrightarrow> pos \<le> length (contents d) \<Longrightarrow> pos + length bs \<le> cap \<Longrightarrow> bs \<noteq> [] \<Longrightarrow>
    wr pos bs d = (r, d') \<Longrightarrow> r \<noteq> None \<and> sure d'"
begin

lemma write_all_complete:
  assumes "inv d" "sure d" "pos \<le> length (contents d)" "pos + length bs \<le> cap" "length bs < fuel"
    and "write_all wr fuel pos bs d = Some (m, d')"
  shows "m = length bs"
  using assms
proof (induction fuel arbitrary: pos bs d m)
  case (Suc fuel)
  show ?case
  proof (cases "bs = []")
    case False
    obtain r d1 where w: "wr pos bs d = (r, d1)" by fastforce
    from sure_wr[OF Suc.prems(1-4) False this] obtain k where k: "r = Some k" "sure d1" by blast
    note s = wr_some[OF Suc.prems(1,3,4) False, of k d1, OF w[unfolded k(1)]]
    obtain n where n: "write_all wr fuel (pos + k) (drop k bs) d1 = Some (n, d')" "m = k + n"
      using Suc.prems(6) False w k(1) by (auto split: option.splits)
    have "pos + k \<le> length (contents d1)" using s Suc.prems(3) by (auto simp: length_overwrite min_def)
    then have "n = length (drop k bs)" using Suc.IH[OF _ k(2) _ _ _ n(1)] s Suc.prems(4,5) by auto
    then show ?thesis using n(2) s by simp
  qed (use Suc.prems(6) in simp)
qed simp

lemma write_read_all:
  assumes "inv d" "sure d" "contents d = []" "length bs \<le> cap" "length bs < fuel" "0 < n" "n < 2 ^ 63"
  shows "\<exists>d' d''. write_all wr fuel 0 bs d = Some (length bs, d') \<and> read_all rd fuel n 0 d' = Some (bs, d'')"
proof -
  obtain m d' d'' where w: "write_all wr fuel 0 bs d = Some (m, d')" "read_all rd fuel n 0 d' = Some (take m bs, d'')"
    using write_read[OF assms(1,3-7)] by blast
  have "m = length bs" using write_all_complete[OF assms(1,2) _ _ _ w(1)] assms(3-5) by simp
  then show ?thesis using w by simp
qed

end

end
