(* ===== verification/Scull.thy ===== *)
theory Scull
  imports Byte_Store "HOL-Library.Signed_Division"
begin

text \<open>
  The memory device of \<open>Labs/lab9/lab09-examples/scull.c\<close>: a linked list of quantum sets, each an array
  of pointers to blocks of \<open>quantum\<close> bytes.  Allocations may fail, fresh blocks hold whatever the
  allocator left there, and integers have their C widths.  A null dereference, an index outside an
  array and a division by zero are \<open>Oops\<close>.
\<close>

section \<open>Allocation\<close>

text \<open>
  \<open>kh_avail\<close> and \<open>kh_junk\<close> say which of the allocations to come succeed and what their memory holds;
  \<open>kh_count\<close> numbers them and \<open>kh_live\<close> counts the blocks that were not freed.
\<close>

record kheap =
  kh_avail :: "nat \<Rightarrow> bool"
  kh_junk :: "nat \<Rightarrow> nat \<Rightarrow> u8"
  kh_count :: nat
  kh_live :: int

definition kmalloc :: "kheap \<Rightarrow> bool \<times> kheap" where
  "kmalloc h =
     (if kh_avail h (kh_count h) then (True, h\<lparr>kh_count := kh_count h + 1, kh_live := kh_live h + 1\<rparr>)
      else (False, h\<lparr>kh_count := kh_count h + 1\<rparr>))"

definition kfree_blocks :: "nat \<Rightarrow> kheap \<Rightarrow> kheap" where
  "kfree_blocks n h = h\<lparr>kh_live := kh_live h - int n\<rparr>"

section \<open>The device\<close>

text \<open>A quantum set: no array yet, or an array of blocks that may be missing.\<close>

type_synonym scull_qset = "u8 list option list option"

record scull_dev =
  sd_data :: "scull_qset list"
  sd_quantum :: int
  sd_qset :: int
  sd_size :: u64

definition SCULL_QUANTUM :: int where "SCULL_QUANTUM = 4000"
definition SCULL_QSET :: int where "SCULL_QSET = 1000"

datatype kres = Ret int | Oops

text \<open>The statically allocated device before anybody opened it.\<close>

definition scull_device :: scull_dev where
  "scull_device = \<lparr>sd_data = [], sd_quantum = 0, sd_qset = 0, sd_size = 0\<rparr>"

definition present :: "u8 list option list \<Rightarrow> nat" where
  "present arr = length (filter (\<lambda>b. b \<noteq> None) arr)"

text \<open>
  \<open>scull_trim\<close> with the module parameters \<open>scull_quantum\<close> and \<open>scull_qset\<close>: the number of blocks it
  frees per quantum set, or \<open>None\<close> when it reads beyond an array.
\<close>

fun trim_blocks :: "nat \<Rightarrow> scull_qset list \<Rightarrow> nat option" where
  "trim_blocks qset [] = Some 0"
| "trim_blocks qset (None # qs) = map_option Suc (trim_blocks qset qs)"
| "trim_blocks qset (Some arr # qs) =
     (if length arr < qset then None
      else map_option (\<lambda>n. present (take qset arr) + 2 + n) (trim_blocks qset qs))"

definition scull_trim :: "int \<Rightarrow> int \<Rightarrow> scull_dev \<Rightarrow> kheap \<Rightarrow> kres \<times> scull_dev \<times> kheap" where
  "scull_trim scull_quantum scull_qset dev h =
     (case trim_blocks (nat (sd_qset dev)) (sd_data dev) of
        None \<Rightarrow> (Oops, dev, h)
      | Some n \<Rightarrow>
          (Ret 0, \<lparr>sd_data = [], sd_quantum = scull_quantum, sd_qset = scull_qset, sd_size = 0\<rparr>, kfree_blocks n h))"

definition O_ACCMODE :: u32 where "O_ACCMODE = 3"
definition O_WRONLY :: u32 where "O_WRONLY = 1"

definition scull_open :: "int \<Rightarrow> int \<Rightarrow> u32 \<Rightarrow> scull_dev \<Rightarrow> kheap \<Rightarrow> kres \<times> scull_dev \<times> kheap" where
  "scull_open scull_quantum scull_qset f_flags dev h =
     (if f_flags AND O_ACCMODE = O_WRONLY then scull_trim scull_quantum scull_qset dev h
      else (Ret 0, dev, h))"

definition scull_release :: "scull_dev \<Rightarrow> kres \<times> scull_dev" where
  "scull_release dev = (Ret 0, dev)"

text \<open>The loop of \<open>scull_follow\<close>: \<open>n\<close> steps from set \<open>i\<close>, appending empty sets at the end.\<close>

primrec follow_loop :: "nat \<Rightarrow> nat \<Rightarrow> scull_qset list \<Rightarrow> kheap \<Rightarrow> nat option \<times> scull_qset list \<times> kheap" where
  "follow_loop 0 i qs h = (Some i, qs, h)"
| "follow_loop (Suc n) i qs h =
     (if i + 1 < length qs then follow_loop n (i + 1) qs h
      else case kmalloc h of
        (False, h1) \<Rightarrow> (None, qs, h1)
      | (True, h1) \<Rightarrow> follow_loop n (i + 1) (qs @ [None]) h1)"

text \<open>The index of the set found, \<open>None\<close> for NULL; a negative \<open>n\<close> counts down through all of \<open>int\<close>.\<close>

definition scull_follow :: "scull_dev \<Rightarrow> int \<Rightarrow> kheap \<Rightarrow> nat option \<times> scull_dev \<times> kheap" where
  "scull_follow dev n h =
     (let steps = unat (word_of_int n :: u32) in
      if sd_data dev = [] then
        (case kmalloc h of
           (False, h1) \<Rightarrow> (None, dev, h1)
         | (True, h1) \<Rightarrow> (case follow_loop steps 0 [None] h1 of (r, qs, h2) \<Rightarrow> (r, dev\<lparr>sd_data := qs\<rparr>, h2)))
      else (case follow_loop steps 0 (sd_data dev) h of (r, qs, h2) \<Rightarrow> (r, dev\<lparr>sd_data := qs\<rparr>, h2)))"

definition int32 :: "int \<Rightarrow> int" where
  "int32 n = sint (word_of_int n :: u32)"

text \<open>Set, block and offset of a file position; \<open>None\<close> for a division by zero.\<close>

definition scull_pos :: "scull_dev \<Rightarrow> u64 \<Rightarrow> (int \<times> int \<times> int) option" where
  "scull_pos dev f_pos =
     (let itemsize = int32 (sd_quantum dev * sd_qset dev);
          rest = int32 (sint f_pos smod itemsize)
      in if itemsize = 0 \<or> sd_quantum dev = 0 then None
         else Some (int32 (sint f_pos sdiv itemsize), rest sdiv sd_quantum dev, rest smod sd_quantum dev))"

text \<open>\<open>writable\<close> says whether the user's buffer can be written; the second component is what it got.\<close>

definition scull_read ::
  "bool \<Rightarrow> u64 \<Rightarrow> u64 \<Rightarrow> scull_dev \<Rightarrow> kheap \<Rightarrow> kres \<times> u8 list \<times> u64 \<times> scull_dev \<times> kheap" where
  "scull_read writable count f_pos dev h =
     (if f_pos \<ge> sd_size dev then (Ret 0, [], f_pos, dev, h)
      else
        let count1 = (if f_pos + count > sd_size dev then sd_size dev - f_pos else count)
        in case scull_pos dev f_pos of
             None \<Rightarrow> (Oops, [], f_pos, dev, h)
           | Some (item, s_pos, q_pos) \<Rightarrow>
               (case scull_follow dev item h of
                  (None, dev1, h1) \<Rightarrow> (Ret 0, [], f_pos, dev1, h1)
                | (Some i, dev1, h1) \<Rightarrow>
                    (case sd_data dev1 ! i of
                       None \<Rightarrow> (Ret 0, [], f_pos, dev1, h1)
                     | Some arr \<Rightarrow>
                         if s_pos < 0 \<or> s_pos \<ge> int (length arr) then (Oops, [], f_pos, dev1, h1)
                         else (case arr ! nat s_pos of
                             None \<Rightarrow> (Ret 0, [], f_pos, dev1, h1)
                           | Some block \<Rightarrow>
                               let limit = word_of_int (sd_quantum dev - q_pos) :: u64;
                                   count2 = (if count1 > limit then limit else count1)
                               in if q_pos < 0 \<or> nat q_pos + unat count2 > length block then (Oops, [], f_pos, dev1, h1)
                                  else if \<not> writable then (Ret (- errno_val EFAULT), [], f_pos, dev1, h1)
                                  else (Ret (sint count2), take (unat count2) (drop (nat q_pos) block), f_pos + count2, dev1, h1)))))"

text \<open>
  The array and the block a write goes to, allocated when missing: \<open>None\<close> when an allocation fails.
\<close>

definition get_array :: "nat \<Rightarrow> scull_dev \<Rightarrow> kheap \<Rightarrow> u8 list option list option \<times> scull_dev \<times> kheap" where
  "get_array i dev h =
     (case sd_data dev ! i of
        Some arr \<Rightarrow> (Some arr, dev, h)
      | None \<Rightarrow>
          (case kmalloc h of
             (False, h1) \<Rightarrow> (None, dev, h1)
           | (True, h1) \<Rightarrow>
               let arr = replicate (nat (sd_qset dev)) None
               in (Some arr, dev\<lparr>sd_data := (sd_data dev)[i := Some arr]\<rparr>, h1)))"

definition get_block :: "nat \<Rightarrow> nat \<Rightarrow> scull_dev \<Rightarrow> kheap \<Rightarrow> u8 list option \<times> scull_dev \<times> kheap" where
  "get_block i s dev h =
     (case get_array i dev h of
        (None, dev1, h1) \<Rightarrow> (None, dev1, h1)
      | (Some arr, dev1, h1) \<Rightarrow>
          (case arr ! s of
             Some block \<Rightarrow> (Some block, dev1, h1)
           | None \<Rightarrow>
               (case kmalloc h1 of
                  (False, h2) \<Rightarrow> (None, dev1, h2)
                | (True, h2) \<Rightarrow>
                    let block = map (kh_junk h1 (kh_count h1)) [0..<nat (sd_quantum dev)]
                    in (Some block, dev1\<lparr>sd_data := (sd_data dev1)[i := Some (arr[s := Some block])]\<rparr>, h2))))"

definition put_block :: "nat \<Rightarrow> nat \<Rightarrow> u8 list \<Rightarrow> scull_dev \<Rightarrow> scull_dev" where
  "put_block i s block dev =
     (case sd_data dev ! i of
        None \<Rightarrow> dev
      | Some arr \<Rightarrow> dev\<lparr>sd_data := (sd_data dev)[i := Some (arr[s := Some block])]\<rparr>)"

text \<open>
  \<open>buf\<close> is the readable part of the user's buffer.  When it is shorter than what is copied,
  \<open>copy_from_user\<close> fills the rest with zeros and the write fails.
\<close>

definition scull_write ::
  "u8 list \<Rightarrow> u64 \<Rightarrow> u64 \<Rightarrow> scull_dev \<Rightarrow> kheap \<Rightarrow> kres \<times> u64 \<times> scull_dev \<times> kheap" where
  "scull_write buf count f_pos dev h =
     (case scull_pos dev f_pos of
        None \<Rightarrow> (Oops, f_pos, dev, h)
      | Some (item, s_pos, q_pos) \<Rightarrow>
          (case scull_follow dev item h of
             (None, dev1, h1) \<Rightarrow> (Ret (- errno_val ENOMEM), f_pos, dev1, h1)
           | (Some i, dev1, h1) \<Rightarrow>
               if s_pos < 0 \<or> s_pos \<ge> (case sd_data dev1 ! i of None \<Rightarrow> sd_qset dev | Some arr \<Rightarrow> int (length arr))
               then (Oops, f_pos, dev1, h1)
               else (case get_block i (nat s_pos) dev1 h1 of
                   (None, dev2, h2) \<Rightarrow> (Ret (- errno_val ENOMEM), f_pos, dev2, h2)
                 | (Some block, dev2, h2) \<Rightarrow>
                     let limit = word_of_int (sd_quantum dev - q_pos) :: u64;
                         count1 = (if count > limit then limit else count);
                         n = unat count1;
                         bytes = take n buf @ replicate (n - length buf) 0;
                         dev3 = put_block i (nat s_pos) (overwrite (nat q_pos) bytes block) dev2
                     in if q_pos < 0 \<or> nat q_pos + n > length block then (Oops, f_pos, dev2, h2)
                        else if length buf < n then (Ret (- errno_val EFAULT), f_pos, dev3, h2)
                        else
                          let f_pos1 = f_pos + count1
                          in (Ret (sint count1), f_pos1,
                              (if sd_size dev < f_pos1 then dev3\<lparr>sd_size := f_pos1\<rparr> else dev3), h2))))"

end
