(* ===== verification/Scull_Props.thy ===== *)
theory Scull_Props
  imports Scull
begin

text \<open>
  The memory device as a sequence of bytes: the invariant that everything below the size is
  allocated, the refinement of reads and writes, the interpretation of the byte-store contract, and
  the first write to a device that was never opened write-only.
\<close>

section \<open>Invariant and contents\<close>

abbreviation qlen :: "scull_dev \<Rightarrow> nat" where "qlen d \<equiv> nat (sd_quantum d)"
abbreviation slen :: "scull_dev \<Rightarrow> nat" where "slen d \<equiv> nat (sd_qset d)"

text \<open>The block with number \<open>g\<close>, counted through all quantum sets.\<close>

definition quantum_at :: "scull_dev \<Rightarrow> nat \<Rightarrow> u8 list option" where
  "quantum_at d g =
     (if g div slen d < length (sd_data d)
      then (case sd_data d ! (g div slen d) of None \<Rightarrow> None | Some arr \<Rightarrow> arr ! (g mod slen d)) else None)"

definition scull_wf :: "scull_dev \<Rightarrow> bool" where
  "scull_wf d \<longleftrightarrow> 0 < sd_quantum d \<and> 0 < sd_qset d \<and> sd_quantum d * sd_qset d < 2 ^ 31 \<and>
     (\<forall>arr. Some arr \<in> set (sd_data d) \<longrightarrow> length arr = slen d \<and> (\<forall>b. Some b \<in> set arr \<longrightarrow> length b = qlen d))"

definition scull_inv :: "scull_dev \<Rightarrow> bool" where
  "scull_inv d \<longleftrightarrow> scull_wf d \<and> unat (sd_size d) \<le> 2 ^ 31 \<and> (\<forall>i<unat (sd_size d). quantum_at d (i div qlen d) \<noteq> None)"

definition scull_contents :: "scull_dev \<Rightarrow> u8 list" where
  "scull_contents d = map (\<lambda>i. the (quantum_at d (i div qlen d)) ! (i mod qlen d)) [0..<unat (sd_size d)]"

lemma length_contents [simp]: "length (scull_contents d) = unat (sd_size d)"
  by (simp add: scull_contents_def)

lemma contents_nth: "i < unat (sd_size d) \<Longrightarrow> scull_contents d ! i = the (quantum_at d (i div qlen d)) ! (i mod qlen d)"
  by (simp add: scull_contents_def)

lemma block_length:
  assumes "scull_wf d" "quantum_at d g = Some b"
  shows "length b = qlen d"
proof -
  have "0 < slen d" using assms(1) by (simp add: scull_wf_def)
  then have m: "g mod slen d < slen d" by simp
  from assms(2) obtain arr where a: "g div slen d < length (sd_data d)" "sd_data d ! (g div slen d) = Some arr" "arr ! (g mod slen d) = Some b"
    by (auto simp: quantum_at_def split: if_splits option.splits)
  then have "Some arr \<in> set (sd_data d)" by (metis nth_mem)
  with assms(1) have "length arr = slen d" "\<forall>b. Some b \<in> set arr \<longrightarrow> length b = qlen d" by (auto simp: scull_wf_def)
  then show ?thesis using a(3) m by (metis nth_mem)
qed

section \<open>Positions\<close>

lemma int32_id: "- (2 ^ 31) \<le> n \<Longrightarrow> n < 2 ^ 31 \<Longrightarrow> int32 n = n"
  by (simp add: int32_def signed_of_int signed_take_bit_int_eq_self)

lemma sint_of_nat64: "p < 2 ^ 63 \<Longrightarrow> sint (of_nat p :: u64) = int p"
  by (simp add: sint_uint unsigned_of_nat signed_take_bit_int_eq_self take_bit_nat_eq_self uint_nat)

lemma sdiv_nonneg: "0 \<le> a \<Longrightarrow> 0 < b \<Longrightarrow> a sdiv b = a div (b::int)" "0 \<le> a \<Longrightarrow> 0 < b \<Longrightarrow> a smod b = a mod (b::int)"
  by (auto simp: signed_divide_int_def signed_modulo_int_def sgn_if minus_div_mult_eq_mod)

lemma sdiv_int:
  assumes "0 < (b::nat)"
  shows "int a sdiv int b = int (a div b)" "int a smod int b = int (a mod b)"
  using assms by (simp_all add: sdiv_nonneg zdiv_int zmod_int)

lemma scull_pos_eq:
  assumes "scull_wf d" "p < 2 ^ 31"
  shows "scull_pos d (of_nat p) = Some (int (p div qlen d div slen d), int (p div qlen d mod slen d), int (p mod qlen d))"
proof -
  let ?Q = "qlen d" and ?S = "slen d"
  have q: "sd_quantum d = int ?Q" "sd_qset d = int ?S" "0 < ?Q" "0 < ?S" using assms(1) by (auto simp: scull_wf_def)
  have "sd_quantum d * sd_qset d = int ?Q * int ?S" "sd_quantum d * sd_qset d < 2 ^ 31"
    using assms(1) by (auto simp: scull_wf_def)
  then have qs: "sd_quantum d * sd_qset d = int (?Q * ?S)" "?Q * ?S < 2 ^ 31" "0 < ?Q * ?S"
    using q(3,4) unfolding of_nat_mult[symmetric] by (simp_all del: of_nat_mult)
  have it: "int32 (sd_quantum d * sd_qset d) = int (?Q * ?S)" unfolding qs(1) by (rule int32_id) (use qs(2,3) in \<open>simp_all del: of_nat_mult\<close>)
  have s: "sint (of_nat p :: u64) = int p" using assms(2) by (simp add: sint_of_nat64)
  have sm: "int p smod int (?Q * ?S) = int (p mod (?Q * ?S))" "int p sdiv int (?Q * ?S) = int (p div (?Q * ?S))"
    using sdiv_int[OF qs(3), of p] by blast+
  have lt: "p mod (?Q * ?S) < 2 ^ 31" "p div (?Q * ?S) < 2 ^ 31"
    using qs(2,3) assms(2) by (meson less_trans mod_less_divisor, meson div_le_dividend le_less_trans)
  then have r: "int32 (int (p mod (?Q * ?S))) = int (p mod (?Q * ?S))" "int32 (int (p div (?Q * ?S))) = int (p div (?Q * ?S))"
    by (simp_all add: int32_id)
  have e: "p mod (?Q * ?S) div ?Q = p div ?Q mod ?S" "p mod (?Q * ?S) mod ?Q = p mod ?Q"
    using q(3) by (simp_all add: mod_mult2_eq)
  have "int (p mod (?Q * ?S)) sdiv int ?Q = int (p div ?Q mod ?S)" "int (p mod (?Q * ?S)) smod int ?Q = int (p mod ?Q)"
    unfolding sdiv_int[OF q(3)] e by (rule refl)+
  then show ?thesis
    unfolding scull_pos_def Let_def it s sm r using q qs(3) by (simp add: div_mult2_eq)
qed

section \<open>Finding a quantum set\<close>

lemma kmalloc_cases:
  obtains (fail) h' where "kmalloc h = (False, h')" | (ok) h' where "kmalloc h = (True, h')"
  by (cases "kmalloc h") (metis (full_types))

lemma follow_loop_spec:
  assumes "i < length qs" "follow_loop n i qs h = (r, qs', h')"
  shows "\<exists>k. qs' = qs @ replicate k None \<and> (r = None \<or> r = Some (i + n) \<and> i + n < length qs') \<and>
    (i + n < length qs \<longrightarrow> r = Some (i + n) \<and> k = 0 \<and> h' = h)"
  using assms
proof (induction n arbitrary: i qs h)
  case (Suc n)
  show ?case
  proof (cases "i + 1 < length qs")
    case True
    then show ?thesis using Suc.IH[of "i + 1" qs h] Suc.prems by auto
  next
    case False
    show ?thesis
    proof (cases h rule: kmalloc_cases)
      case fail
      then show ?thesis using False Suc.prems by (intro exI[of _ 0]) auto
    next
      case (ok h1)
      then have "follow_loop n (i + 1) (qs @ [None]) h1 = (r, qs', h')" using False Suc.prems by simp
      then obtain k where "qs' = (qs @ [None]) @ replicate k None" "r = None \<or> r = Some (i + 1 + n) \<and> i + 1 + n < length qs'"
        using Suc.IH[of "i + 1" "qs @ [None]" h1] Suc.prems(1) by auto
      then show ?thesis using False Suc.prems(1) by (intro exI[of _ "Suc k"]) auto
    qed
  qed
qed auto

lemma scull_follow_spec:
  assumes "scull_follow d (int m) h = (r, d', h')" "m < 2 ^ 31"
  shows "\<exists>k. d' = d\<lparr>sd_data := sd_data d @ replicate k None\<rparr> \<and> (r = None \<or> r = Some m \<and> m < length (sd_data d')) \<and>
    (m < length (sd_data d) \<longrightarrow> r = Some m \<and> k = 0 \<and> h' = h)"
proof -
  have u: "unat (word_of_int (int m) :: u32) = m" using assms(2) by (simp add: unat_of_nat take_bit_nat_eq_self)
  show ?thesis
  proof (cases "sd_data d = []")
    case True
    show ?thesis
    proof (cases h rule: kmalloc_cases)
      case fail
      then show ?thesis using assms(1) True by (auto simp: scull_follow_def intro!: exI[of _ 0])
    next
      case (ok h1)
      obtain r1 qs1 h2 where f: "follow_loop m 0 [None] h1 = (r1, qs1, h2)" by (metis prod_cases3)
      have d: "d' = d\<lparr>sd_data := qs1\<rparr>" "r = r1" using assms(1) True ok f u by (auto simp: scull_follow_def Let_def)
      obtain k where "qs1 = [None] @ replicate k None" "r1 = None \<or> r1 = Some m \<and> m < length qs1"
        using follow_loop_spec[OF _ f] by auto
      then show ?thesis using d True by (intro exI[of _ "Suc k"]) auto
    qed
  next
    case False
    obtain r1 qs1 h2 where f: "follow_loop m 0 (sd_data d) h = (r1, qs1, h2)" by (metis prod_cases3)
    then have "d' = d\<lparr>sd_data := qs1\<rparr>" "r = r1" "h' = h2" using assms(1) False u by (auto simp: scull_follow_def Let_def)
    then show ?thesis using follow_loop_spec[OF _ f] False by auto
  qed
qed

text \<open>Empty sets at the end change nothing.\<close>

lemma quantum_at_extend: "quantum_at (d\<lparr>sd_data := sd_data d @ replicate k None\<rparr>) g = quantum_at d g"
  by (auto simp: quantum_at_def nth_append split: option.splits)

lemma wf_extend: "scull_wf d \<Longrightarrow> scull_wf (d\<lparr>sd_data := sd_data d @ replicate k None\<rparr>)"
  by (auto simp: scull_wf_def)

section \<open>Blocks\<close>

lemma quantum_at_upd:
  "i < length (sd_data d) \<Longrightarrow>
   quantum_at (d\<lparr>sd_data := (sd_data d)[i := Some arr]\<rparr>) g = (if g div slen d = i then arr ! (g mod slen d) else quantum_at d g)"
  by (auto simp: quantum_at_def split: option.splits)

lemma quantum_at_in: "sd_data d ! i = Some arr \<Longrightarrow> i < length (sd_data d) \<Longrightarrow> g div slen d = i \<Longrightarrow> quantum_at d g = arr ! (g mod slen d)"
  by (auto simp: quantum_at_def)

lemma wf_upd:
  assumes "scull_wf d" "length arr = slen d" "\<forall>b. Some b \<in> set arr \<longrightarrow> length b = qlen d"
  shows "scull_wf (d\<lparr>sd_data := (sd_data d)[i := Some arr]\<rparr>)"
  using assms set_update_subset_insert[of "sd_data d" i "Some arr"] by (auto simp: scull_wf_def)

text \<open>Same sizes and position parameters, and the blocks changed only at number \<open>g0\<close>.\<close>

definition block_change :: "scull_dev \<Rightarrow> nat \<Rightarrow> u8 list option \<Rightarrow> scull_dev \<Rightarrow> bool" where
  "block_change d g0 b d' \<longleftrightarrow> scull_wf d' \<and> sd_size d' = sd_size d \<and> sd_quantum d' = sd_quantum d \<and> sd_qset d' = sd_qset d \<and>
     (\<forall>g. quantum_at d' g = (if g = g0 then b else quantum_at d g))"

lemma block_number: "0 < (S::nat) \<Longrightarrow> s < S \<Longrightarrow> (g = i * S + s) = (g div S = i \<and> g mod S = s)"
  by (auto simp: div_mult_mod_eq)

lemma number_div: "s < S \<Longrightarrow> (i * S + s) div S = i" "s < S \<Longrightarrow> (i * S + s) mod S = (s::nat)"
  by simp_all

lemma put_block_spec:
  assumes "scull_wf d" "i < length (sd_data d)" "s < slen d" "sd_data d ! i = Some arr" "length b = qlen d"
  shows "block_change d (i * slen d + s) (Some b) (put_block i s b d)"
proof -
  have la: "length arr = slen d" "\<forall>b. Some b \<in> set arr \<longrightarrow> length b = qlen d"
    using assms(1,2,4) by (auto simp: scull_wf_def) (metis nth_mem)+
  have pos: "0 < slen d" using assms(3) by simp
  have "scull_wf (put_block i s b d)"
    unfolding put_block_def using assms(4) wf_upd[OF assms(1), of "arr[s := Some b]" i] la assms(5) set_update_subset_insert[of arr s "Some b"] by auto
  moreover have "quantum_at (put_block i s b d) g = (if g = i * slen d + s then Some b else quantum_at d g)" for g
    unfolding block_number[OF pos assms(3)] put_block_def using assms(2,3,4) la(1) pos
    by (auto simp: quantum_at_upd nth_list_update quantum_at_in)
  ultimately show ?thesis using assms(4) by (simp add: block_change_def put_block_def)
qed

lemma get_array_spec:
  assumes "scull_wf d" "i < length (sd_data d)" "get_array i d h = (r, d', h')"
  shows "block_change d g (quantum_at d g) d'" "i < length (sd_data d')" "r = Some arr \<Longrightarrow> sd_data d' ! i = Some arr"
proof -
  have pos: "0 < slen d" using assms(1) by (simp add: scull_wf_def)
  let ?n = "d\<lparr>sd_data := (sd_data d)[i := Some (replicate (slen d) None)]\<rparr>"
  have self: "block_change d g (quantum_at d g) d" using assms(1) by (simp add: block_change_def)
  have new: "block_change d g (quantum_at d g) ?n" if "sd_data d ! i = None"
  proof -
    have "quantum_at ?n k = quantum_at d k" for k
    proof (cases "k div slen d = i")
      case True
      have "k mod slen d < slen d" by (rule mod_less_divisor[OF pos])
      then show ?thesis unfolding quantum_at_upd[OF assms(2)] using True that by (simp add: quantum_at_def)
    qed (simp add: quantum_at_upd[OF assms(2)])
    moreover have "scull_wf ?n" by (rule wf_upd[OF assms(1)]) auto
    ultimately show ?thesis by (simp add: block_change_def)
  qed
  consider (old) a where "sd_data d ! i = Some a" "r = Some a" "d' = d"
    | (fail) "r = None" "d' = d" | (new) "sd_data d ! i = None" "r = Some (replicate (slen d) None)" "d' = ?n"
  proof (cases "sd_data d ! i")
    case (Some a)
    then show thesis using assms(3) by (intro old[of a]) (simp_all add: get_array_def)
  next
    case None
    show thesis
    proof (cases h rule: kmalloc_cases)
      case (fail h1)
      then show thesis using assms(3) None that(2) by (simp add: get_array_def)
    next
      case (ok h1)
      then show thesis using assms(3) None by (intro new) (auto simp: get_array_def Let_def)
    qed
  qed
  then show "block_change d g (quantum_at d g) d'" "i < length (sd_data d')" "r = Some arr \<Longrightarrow> sd_data d' ! i = Some arr"
    using self new assms(2) by (cases; simp)+
qed

lemma get_block_spec:
  assumes "scull_wf d" "i < length (sd_data d)" "s < slen d" "get_block i s d h = (r, d', h')"
  shows "case r of
       None \<Rightarrow> block_change d (i * slen d + s) (quantum_at d (i * slen d + s)) d'
     | Some b \<Rightarrow> length b = qlen d \<and> i < length (sd_data d') \<and> sd_data d' ! i \<noteq> None \<and> block_change d (i * slen d + s) (Some b) d' \<and>
         (quantum_at d (i * slen d + s) = None \<or> quantum_at d (i * slen d + s) = Some b)"
proof -
  let ?g = "i * slen d + s"
  have gd: "?g div slen d = i" "?g mod slen d = s" by (rule number_div[OF assms(3)])+
  obtain ra d1 h1 where A: "get_array i d h = (ra, d1, h1)" by (cases "get_array i d h") auto
  note a1 = get_array_spec[OF assms(1,2) A]
  note G = assms(4)[unfolded get_block_def A prod.case]
  show ?thesis
  proof (cases ra)
    case None
    then show ?thesis using G a1(1) by auto
  next
    case (Some arr)
    have n1: "sd_data d1 ! i = Some arr" using a1(3)[OF Some] .
    have w1: "scull_wf d1" "qlen d1 = qlen d" "slen d1 = slen d" using a1(1) by (auto simp: block_change_def)
    have "quantum_at d1 ?g = arr ! s" using quantum_at_in[OF n1 a1(2), of ?g] gd w1(3) by simp
    then have q1: "quantum_at d ?g = arr ! s" using a1(1)[of ?g] by (simp add: block_change_def split: if_splits)
    show ?thesis
    proof (cases "arr ! s")
      case (Some b)
      then have "r = Some b" "d' = d1" using G \<open>ra = Some arr\<close> by auto
      then show ?thesis using Some a1(1)[of ?g] a1(2) n1 q1 block_length[OF assms(1), of ?g b] by simp
    next
      case None
      let ?b = "map (kh_junk h1 (kh_count h1)) [0..<nat (sd_quantum d)]"
      show ?thesis
      proof (cases h1 rule: kmalloc_cases)
        case fail
        then show ?thesis using G \<open>ra = Some arr\<close> None a1(1)[of ?g] q1 by auto
      next
        case (ok h2)
        have "block_change d1 ?g (Some ?b) (put_block i s ?b d1)"
          using put_block_spec[OF w1(1) a1(2) _ n1, of s ?b] assms(3) w1 by simp
        then have "block_change d ?g (Some ?b) (put_block i s ?b d1)" using a1(1)[of ?g] by (auto simp: block_change_def)
        then show ?thesis using G \<open>ra = Some arr\<close> None ok n1 a1(2) q1 by (auto simp: Let_def put_block_def)
      qed
    qed
  qed
qed

section \<open>Reading\<close>

text \<open>How much one transfer at \<open>pos\<close> can take: what is left of the block.\<close>

definition chunk :: "scull_dev \<Rightarrow> nat \<Rightarrow> nat \<Rightarrow> nat" where
  "chunk d pos n = min n (qlen d - pos mod qlen d)"

lemma block_part:
  assumes "scull_inv d" "pos < unat (sd_size d)" "n \<le> qlen d - pos mod qlen d" "pos + n \<le> unat (sd_size d)"
    and "quantum_at d (pos div qlen d) = Some b"
  shows "take n (drop (pos mod qlen d) b) = take n (drop pos (scull_contents d))"
proof (rule nth_equalityI)
  have q: "0 < qlen d" using assms(1) by (simp add: scull_inv_def scull_wf_def)
  have lb: "length b = qlen d" using block_length assms(1,5) by (auto simp: scull_inv_def)
  have m: "pos mod qlen d < qlen d" using q by simp
  show "length (take n (drop (pos mod qlen d) b)) = length (take n (drop pos (scull_contents d)))" using assms(3,4) lb m by simp
  fix j assume "j < length (take n (drop (pos mod qlen d) b))"
  then have j: "j < n" by simp
  have "pos mod qlen d + j < qlen d" using j assms(3) by simp
  moreover have "pos + j = qlen d * (pos div qlen d) + (pos mod qlen d + j)" by simp
  ultimately have e: "(pos + j) div qlen d = pos div qlen d" "(pos + j) mod qlen d = pos mod qlen d + j"
    by (metis div_mult_self4 q div_less add.right_neutral less_numeral_extra(3), metis mod_mult_self4 mod_less)
  show "take n (drop (pos mod qlen d) b) ! j = take n (drop pos (scull_contents d)) ! j"
    using j assms(3-5) lb m e by (simp add: contents_nth)
qed

lemma follow_present:
  assumes "scull_wf d" "quantum_at d g = Some b" "g < 2 ^ 31"
  shows "scull_follow d (int (g div slen d)) h = (Some (g div slen d), d, h)"
proof -
  have i: "g div slen d < length (sd_data d)" using assms(2) by (simp add: quantum_at_def split: if_splits)
  obtain r d' h' where f: "scull_follow d (int (g div slen d)) h = (r, d', h')" by (cases "scull_follow d (int (g div slen d)) h") auto
  have "g div slen d < 2 ^ 31" using assms(3) by (meson div_le_dividend le_less_trans)
  from scull_follow_spec[OF f this] show ?thesis using i f by auto
qed

lemma unat_nat64: "n < 2 ^ 64 \<Longrightarrow> unat (of_nat n :: u64) = n"
  by (simp add: unat_of_nat take_bit_nat_eq_self)

lemma nat64_less: "a < 2 ^ 64 \<Longrightarrow> b < 2 ^ 64 \<Longrightarrow> (of_nat a :: u64) < of_nat b \<longleftrightarrow> a < b"
  by (simp add: word_less_nat_alt unat_nat64)

lemma count_in_file:
  assumes "pos < z" "z \<le> 2 ^ 31" "n < 2 ^ 63"
  shows "(if (of_nat z :: u64) < of_nat pos + of_nat n then of_nat z - of_nat pos else of_nat n) = (of_nat (min n (z - pos)) :: u64)"
proof -
  have "(of_nat z :: u64) < of_nat pos + of_nat n \<longleftrightarrow> z < pos + n"
    unfolding of_nat_add[symmetric] by (rule nat64_less) (use assms in simp_all)
  moreover have "(of_nat z :: u64) - of_nat pos = of_nat (z - pos)" using assms(1) by (simp add: of_nat_diff)
  moreover have "min n (z - pos) = (if z < pos + n then z - pos else n)" by (auto simp: min_def)
  ultimately show ?thesis by simp
qed

lemma count_in_block:
  assumes "a < 2 ^ 64" "r < q" "q < 2 ^ 31" "qi = int q"
  shows "(if word_of_int (qi - int r) < (of_nat a :: u64) then word_of_int (qi - int r) else of_nat a) = (of_nat (min a (q - r)) :: u64)"
proof -
  have "(word_of_int (qi - int r) :: u64) = of_nat (q - r)" using assms(2,4) by (simp add: of_nat_diff)
  moreover have "(of_nat (q - r) :: u64) < of_nat a \<longleftrightarrow> q - r < a" using assms by (intro nat64_less) simp_all
  ultimately show ?thesis by (simp add: min_def)
qed

lemma wf_sizes:
  assumes "scull_wf d"
  shows "sd_quantum d = int (qlen d)" "0 < qlen d" "0 < slen d" "qlen d < 2 ^ 31"
proof -
  show q: "sd_quantum d = int (qlen d)" "0 < qlen d" "0 < slen d" using assms by (simp_all add: scull_wf_def)
  have "0 < sd_quantum d" "1 \<le> sd_qset d" "sd_quantum d * sd_qset d < 2 ^ 31" using assms by (auto simp: scull_wf_def)
  then have "sd_quantum d < 2 ^ 31" using mult_left_mono[of 1 "sd_qset d" "sd_quantum d"] by linarith
  then show "qlen d < 2 ^ 31" by (simp add: nat_less_iff)
qed

lemma scull_read_spec:
  assumes "scull_inv d" "pos < unat (sd_size d)" "n < 2 ^ 63" "k = min (chunk d pos n) (unat (sd_size d) - pos)"
  shows "scull_read writable (of_nat n) (of_nat pos) d h =
      (if writable then (Ret (int k), take k (drop pos (scull_contents d)), of_nat (pos + k), d, h)
       else (Ret (- errno_val EFAULT), [], of_nat pos, d, h))"
proof -
  let ?Q = "qlen d" and ?S = "slen d"
  have w: "scull_wf d" and sz: "unat (sd_size d) \<le> 2 ^ 31" using assms(1) by (simp_all add: scull_inv_def)
  note q = wf_sizes[OF w]
  have p: "pos < 2 ^ 31" using assms(2) sz by simp
  have lt: "\<not> sd_size d \<le> (of_nat pos :: u64)" using assms(2) p by (simp add: word_le_nat_alt unat_nat64)
  obtain b where b: "quantum_at d (pos div ?Q) = Some b" using assms(1,2) by (auto simp: scull_inv_def)
  have g31: "pos div ?Q < 2 ^ 31" using p by (meson div_le_dividend le_less_trans)
  note F = follow_present[OF w b g31, of h]
  have lb: "length b = ?Q" using block_length[OF w b] .
  let ?i = "pos div ?Q div ?S" and ?s = "pos div ?Q mod ?S"
  obtain arr where arr: "sd_data d ! ?i = Some arr" "arr ! ?s = Some b" "?i < length (sd_data d)"
    using b by (auto simp: quantum_at_def split: if_splits option.splits)
  have la: "?s < length arr" using w arr q(3) by (auto simp: scull_wf_def) (metis mod_less_divisor nth_mem q(3))
  have z: "(of_nat (unat (sd_size d)) :: u64) = sd_size d" by simp
  have c1: "(if of_nat pos + of_nat n > sd_size d then sd_size d - of_nat pos else of_nat n) = (of_nat (min n (unat (sd_size d) - pos)) :: u64)"
    using count_in_file[OF assms(2) sz assms(3)] unfolding z .
  have r: "pos mod ?Q < ?Q" by (rule mod_less_divisor[OF q(2)])
  have c2: "(if of_nat (min n (unat (sd_size d) - pos)) > (word_of_int (sd_quantum d - int (pos mod ?Q)) :: u64) then word_of_int (sd_quantum d - int (pos mod ?Q))
      else of_nat (min n (unat (sd_size d) - pos))) = (of_nat k :: u64)"
  proof -
    have mm: "min n (unat (sd_size d) - pos) < 2 ^ 64" using sz by simp
    have kk: "k = min (min n (unat (sd_size d) - pos)) (?Q - pos mod ?Q)" unfolding assms(4) chunk_def by (rule min.assoc[THEN trans], subst min.commute[of "?Q - _"], rule min.assoc[symmetric])
    show ?thesis unfolding kk by (rule count_in_block[OF mm r q(4,1)])
  qed
  have k: "k \<le> ?Q - pos mod ?Q" "pos + k \<le> unat (sd_size d)" "k < 2 ^ 31"
    using assms(2,4) q(4) unfolding chunk_def by linarith+
  then have uk: "unat (of_nat k :: u64) = k" "sint (of_nat k :: u64) = int k" by (simp_all add: unat_nat64 sint_of_nat64)
  have bp: "take k (drop (pos mod ?Q) b) = take k (drop pos (scull_contents d))" by (rule block_part[OF assms(1,2) k(1,2) b])
  have nk: "\<not> ?Q < pos mod ?Q + k" using k(1) r by linarith
  show ?thesis
    unfolding scull_read_def Let_def c1 scull_pos_eq[OF w p] option.case prod.case F arr c2
    using lt la arr(2) nk lb by (simp add: c2 uk bp)
qed

section \<open>Writing\<close>

lemma overwrite_block_nth:
  "pos + length bs \<le> length xs \<Longrightarrow> i < length xs \<Longrightarrow>
   overwrite pos bs xs ! i = (if pos \<le> i \<and> i < pos + length bs then bs ! (i - pos) else xs ! i)"
  using overwrite_nth[of pos xs i bs] by simp

text \<open>Writing into one block writes into the contents.\<close>

lemma contents_block_change:
  assumes "scull_inv d" "pos \<le> unat (sd_size d)" "length bs \<le> qlen d - pos mod qlen d" "pos + length bs \<le> 2 ^ 31"
    and "block_change d (pos div qlen d) (Some (overwrite (pos mod qlen d) bs b)) d'" "length b = qlen d"
    and old: "quantum_at d (pos div qlen d) = None \<or> quantum_at d (pos div qlen d) = Some b"
    and "d'' = d'\<lparr>sd_size := of_nat (max (unat (sd_size d)) (pos + length bs))\<rparr>"
  shows "scull_inv d'' \<and> scull_contents d'' = overwrite pos bs (scull_contents d)"
proof -
  let ?Q = "qlen d" and ?z = "max (unat (sd_size d)) (pos + length bs)" and ?r = "pos mod qlen d"
  have inv: "scull_wf d" "unat (sd_size d) \<le> 2 ^ 31" "\<And>i. i < unat (sd_size d) \<Longrightarrow> quantum_at d (i div ?Q) \<noteq> None"
    using assms(1) by (simp_all add: scull_inv_def)
  note q = wf_sizes[OF inv(1)]
  have z: "?z \<le> 2 ^ 31" using inv(2) assms(4) by simp
  then have uz: "unat (sd_size d'') = ?z" using assms(8) by (simp add: unat_nat64)
  have Q'': "qlen d'' = ?Q" "slen d'' = slen d" using assms(5,8) by (simp_all add: block_change_def)
  have qa: "quantum_at d'' g = (if g = pos div ?Q then Some (overwrite ?r bs b) else quantum_at d g)" for g
  proof -
    have "quantum_at d'' g = quantum_at d' g" using assms(8) by (simp add: quantum_at_def split: option.splits)
    then show ?thesis using assms(5) by (simp add: block_change_def)
  qed
  have r: "?r < ?Q" by (rule mod_less_divisor[OF q(2)])
  have same: "(i div ?Q = pos div ?Q \<and> ?r \<le> i mod ?Q \<and> i mod ?Q < ?r + length bs) = (pos \<le> i \<and> i < pos + length bs)" for i
  proof
    assume "i div ?Q = pos div ?Q \<and> ?r \<le> i mod ?Q \<and> i mod ?Q < ?r + length bs"
    then show "pos \<le> i \<and> i < pos + length bs"
      using div_mult_mod_eq[of i ?Q] div_mult_mod_eq[of pos ?Q] by (metis add.assoc nat_add_left_cancel_le nat_add_left_cancel_less)
  next
    assume i: "pos \<le> i \<and> i < pos + length bs"
    then obtain j where j: "i = pos + j" "j < length bs" using le_Suc_ex by fastforce
    have "i = ?Q * (pos div ?Q) + (?r + j)" using j by simp
    moreover have "?r + j < ?Q" using j assms(3) by linarith
    ultimately have "i div ?Q = pos div ?Q" "i mod ?Q = ?r + j"
      using q(2) by (metis div_mult_self4 div_less add.right_neutral less_numeral_extra(3), metis mod_mult_self4 mod_less)
    then show "i div ?Q = pos div ?Q \<and> ?r \<le> i mod ?Q \<and> i mod ?Q < ?r + length bs" using j by simp
  qed
  have byte: "the (quantum_at d'' (i div ?Q)) ! (i mod ?Q) = (if pos \<le> i \<and> i < pos + length bs then bs ! (i - pos) else the (quantum_at d (i div ?Q)) ! (i mod ?Q))"
    if i: "i < ?z" for i
  proof (cases "i div ?Q = pos div ?Q")
    case True
    have m: "i mod ?Q < length b" using assms(6) q(2) by simp
    have ob: "overwrite ?r bs b ! (i mod ?Q) = (if ?r \<le> i mod ?Q \<and> i mod ?Q < ?r + length bs then bs ! (i mod ?Q - ?r) else b ! (i mod ?Q))"
      using overwrite_block_nth[OF _ m, of ?r bs] assms(3,6) r by simp
    have dist: "i - pos = i mod ?Q - ?r" if "pos \<le> i"
      using that True div_mult_mod_eq[of i ?Q] div_mult_mod_eq[of pos ?Q] by (metis diff_add_inverse diff_cancel2 add.commute diff_diff_left)
    show ?thesis
    proof (cases "pos \<le> i \<and> i < pos + length bs")
      case True': True
      then show ?thesis using qa True ob dist same[of i] by simp
    next
      case False
      then have "i < unat (sd_size d)" using i assms(2) by (auto simp: max_def split: if_splits)
      then have "quantum_at d (i div ?Q) = Some b" using inv(3) old True by metis
      then show ?thesis using qa True ob False same[of i] by auto
    qed
  next
    case False
    then show ?thesis using qa same[of i] by auto
  qed
  have pres: "quantum_at d'' (i div ?Q) \<noteq> None" if "i < ?z" for i
  proof (cases "i < unat (sd_size d)")
    case False
    then have "pos \<le> i \<and> i < pos + length bs" using that assms(2) by (auto simp: max_def split: if_splits)
    then show ?thesis using same[of i] qa by simp
  qed (use qa inv(3) in simp)
  have "scull_wf d'" using assms(5) by (simp add: block_change_def)
  then have "scull_wf d''" using assms(8) by (simp add: scull_wf_def)
  then have inv'': "scull_inv d''" using uz z pres Q'' by (simp add: scull_inv_def)
  have len: "length (overwrite pos bs (scull_contents d)) = ?z" using assms(2) by (simp add: length_overwrite)
  have "scull_contents d'' = overwrite pos bs (scull_contents d)"
  proof (rule nth_equalityI)
    show "length (scull_contents d'') = length (overwrite pos bs (scull_contents d))" using uz len by simp
    fix i assume "i < length (scull_contents d'')"
    then have i: "i < ?z" using uz by simp
    have "scull_contents d'' ! i = (if pos \<le> i \<and> i < pos + length bs then bs ! (i - pos) else the (quantum_at d (i div ?Q)) ! (i mod ?Q))"
      using contents_nth[of i d''] byte[OF i] i uz Q'' by simp
    also have "\<dots> = overwrite pos bs (scull_contents d) ! i"
      using overwrite_nth[of pos "scull_contents d" i bs] assms(2) i by (auto simp: contents_nth max_def split: if_splits)
    finally show "scull_contents d'' ! i = overwrite pos bs (scull_contents d) ! i" .
  qed
  then show ?thesis using inv'' by blast
qed

lemma contents_shrink:
  assumes "scull_inv (d\<lparr>sd_size := z\<rparr>)" "unat (sd_size d) \<le> unat z"
  shows "scull_inv d" "scull_contents d = take (unat (sd_size d)) (scull_contents (d\<lparr>sd_size := z\<rparr>))"
proof -
  have qa: "quantum_at (d\<lparr>sd_size := z\<rparr>) g = quantum_at d g" for g by (simp add: quantum_at_def split: option.splits)
  show "scull_inv d" using assms by (simp add: scull_inv_def scull_wf_def qa)
  show "scull_contents d = take (unat (sd_size d)) (scull_contents (d\<lparr>sd_size := z\<rparr>))"
    using assms(2) by (simp add: scull_contents_def qa take_map)
qed

lemma block_change_same: "block_change d g (quantum_at d g) d' \<Longrightarrow> scull_inv d \<Longrightarrow> scull_inv d' \<and> scull_contents d' = scull_contents d"
  by (auto simp: block_change_def scull_inv_def scull_contents_def)

lemma block_change_trans: "block_change d g b d1 \<Longrightarrow> block_change d1 g b' d2 \<Longrightarrow> block_change d g b' d2"
  by (auto simp: block_change_def)

lemma extend_same: "scull_wf d \<Longrightarrow> block_change d g (quantum_at d g) (d\<lparr>sd_data := sd_data d @ replicate k None\<rparr>)"
  using wf_extend quantum_at_extend by (simp add: block_change_def)

section \<open>Running out of memory\<close>

text \<open>Allocation fails only where the heap says so.\<close>

abbreviation short :: "kheap \<Rightarrow> bool" where
  "short h \<equiv> (\<exists>n. \<not> kh_avail h n)"

lemma kmalloc_avail: "kmalloc h = (b, h') \<Longrightarrow> kh_avail h' = kh_avail h \<and> (b \<or> short h)"
  by (auto simp: kmalloc_def split: if_splits)

lemma follow_loop_avail: "follow_loop n i qs h = (r, qs', h') \<Longrightarrow> kh_avail h' = kh_avail h \<and> (r \<noteq> None \<or> short h)"
proof (induction n arbitrary: i qs h)
  case (Suc n)
  obtain b h1 where k: "kmalloc h = (b, h1)" by fastforce
  show ?case
    using Suc.prems Suc.IH[of "i + 1" qs h] Suc.IH[of "i + 1" "qs @ [None]" h1] kmalloc_avail[OF k] k
    by (cases b) (auto split: if_splits)
qed auto

lemma scull_follow_avail:
  assumes "scull_follow d n h = (r, d', h')"
  shows "kh_avail h' = kh_avail h \<and> (r \<noteq> None \<or> short h)"
proof -
  obtain b h1 where k: "kmalloc h = (b, h1)" by fastforce
  obtain r1 qs1 h2 where f1: "follow_loop (unat (word_of_int n :: u32)) 0 [None] h1 = (r1, qs1, h2)" by (cases "follow_loop (unat (word_of_int n :: u32)) 0 [None] h1") auto
  obtain r2 qs2 h3 where f2: "follow_loop (unat (word_of_int n :: u32)) 0 (sd_data d) h = (r2, qs2, h3)" by (cases "follow_loop (unat (word_of_int n :: u32)) 0 (sd_data d) h") auto
  show ?thesis
    using assms k f1 f2 kmalloc_avail[OF k] follow_loop_avail[OF f1] follow_loop_avail[OF f2]
    by (cases b) (auto simp: scull_follow_def Let_def split: if_splits)
qed

lemma get_array_avail:
  assumes "get_array i d h = (r, d', h')"
  shows "kh_avail h' = kh_avail h \<and> (r \<noteq> None \<or> short h)"
proof -
  obtain b h1 where k: "kmalloc h = (b, h1)" by fastforce
  show ?thesis using assms k kmalloc_avail[OF k]
    by (cases b; cases "sd_data d ! i") (auto simp: get_array_def Let_def)
qed

lemma get_block_avail:
  assumes "get_block i s d h = (r, d', h')"
  shows "kh_avail h' = kh_avail h \<and> (r \<noteq> None \<or> short h)"
proof -
  obtain ra d1 h1 where A: "get_array i d h = (ra, d1, h1)" by (cases "get_array i d h") auto
  obtain b h2 where k: "kmalloc h1 = (b, h2)" by fastforce
  note G = assms[unfolded get_block_def A prod.case]
  show ?thesis
  proof (cases ra)
    case (Some arr)
    then show ?thesis using G k get_array_avail[OF A] kmalloc_avail[OF k] by (cases b; cases "arr ! s") (auto simp: Let_def)
  qed (use G get_array_avail[OF A] in auto)
qed

text \<open>Finding the block of a position and filling it.\<close>

lemma write_block:
  assumes "scull_inv d" "pos < 2 ^ 31" "get_block (pos div qlen d div slen d) (pos div qlen d mod slen d) d1 h1 = (r, d2, h2)"
    and "d1 = d\<lparr>sd_data := sd_data d @ replicate k None\<rparr>" "pos div qlen d div slen d < length (sd_data d1)"
  shows "case r of None \<Rightarrow> scull_inv d2 \<and> scull_contents d2 = scull_contents d
    | Some b \<Rightarrow> length b = qlen d \<and> sd_size d2 = sd_size d \<and>
        (quantum_at d (pos div qlen d) = None \<or> quantum_at d (pos div qlen d) = Some b) \<and>
        (\<forall>b'. length b' = qlen d \<longrightarrow> block_change d (pos div qlen d) (Some b') (put_block (pos div qlen d div slen d) (pos div qlen d mod slen d) b' d2))"
proof -
  let ?g = "pos div qlen d" let ?i = "?g div slen d" and ?s = "?g mod slen d"
  have w: "scull_wf d" using assms(1) by (simp add: scull_inv_def)
  note q = wf_sizes[OF w]
  have e: "block_change d ?g (quantum_at d ?g) d1" unfolding assms(4) by (rule extend_same[OF w])
  then have w1: "scull_wf d1" "qlen d1 = qlen d" "slen d1 = slen d" "quantum_at d1 ?g = quantum_at d ?g" by (auto simp: block_change_def)
  have s: "?s < slen d1" unfolding w1(3) by (rule mod_less_divisor[OF q(3)])
  have g: "?i * slen d1 + ?s = ?g" unfolding w1(3) by simp
  note G = get_block_spec[OF w1(1) assms(5) s assms(3), unfolded g]
  show ?thesis
  proof (cases r)
    case None
    then have "block_change d ?g (quantum_at d ?g) d2" using block_change_trans[OF e] G w1(4) by auto
    then show ?thesis using None block_change_same[OF _ assms(1)] by auto
  next
    case (Some b)
    then have b: "length b = qlen d" "?i < length (sd_data d2)" "sd_data d2 ! ?i \<noteq> None" "block_change d1 ?g (Some b) d2"
        "quantum_at d ?g = None \<or> quantum_at d ?g = Some b"
      using G w1 by auto
    have c: "block_change d ?g (Some b) d2" by (rule block_change_trans[OF e b(4)])
    then have w2: "scull_wf d2" "qlen d2 = qlen d" "slen d2 = slen d" "sd_size d2 = sd_size d" by (auto simp: block_change_def)
    obtain arr where arr: "sd_data d2 ! ?i = Some arr" using b(3) by blast
    have "block_change d2 ?g (Some b') (put_block ?i ?s b' d2)" if "length b' = qlen d" for b'
    proof -
      have "?s < slen d2" "length b' = qlen d2" using s w1(3) w2 that by simp_all
      from put_block_spec[OF w2(1) b(2) this(1) arr this(2)] show ?thesis using g w1(3) w2(3) by simp
    qed
    then show ?thesis using Some b(1,5) w2(4) block_change_trans[OF c] by auto
  qed
qed

definition zero_filled :: "nat \<Rightarrow> u8 list \<Rightarrow> u8 list" where
  "zero_filled n buf = take n buf @ replicate (n - length buf) 0"

lemma length_zero_filled [simp]: "length (zero_filled n buf) = n"
  by (simp add: zero_filled_def)

lemma zero_filled_all: "n \<le> length buf \<Longrightarrow> zero_filled n buf = take n buf"
  by (simp add: zero_filled_def)

text \<open>One write: out of memory, a fault in the user's buffer, or the part of the block it fits in.\<close>

definition write_result :: "u8 list \<Rightarrow> nat \<Rightarrow> nat \<Rightarrow> scull_dev \<Rightarrow> kheap \<Rightarrow> kres \<times> u64 \<times> scull_dev \<times> kheap \<Rightarrow> bool" where
  "write_result buf n pos d h res \<longleftrightarrow> (case res of (r, f_pos, d', h') \<Rightarrow>
     let k = chunk d pos n in scull_inv d' \<and> kh_avail h' = kh_avail h \<and>
     (r = Ret (- errno_val ENOMEM) \<and> short h \<and> f_pos = of_nat pos \<and> scull_contents d' = scull_contents d \<or>
      r = Ret (- errno_val EFAULT) \<and> f_pos = of_nat pos \<and> length buf < k \<and>
        scull_contents d' = take (unat (sd_size d)) (overwrite pos (zero_filled k buf) (scull_contents d)) \<or>
      r = Ret (int k) \<and> f_pos = of_nat (pos + k) \<and> k \<le> length buf \<and>
        scull_contents d' = overwrite pos (take k buf) (scull_contents d)))"

lemma scull_write_spec:
  assumes "scull_inv d" "pos \<le> unat (sd_size d)" "0 < n" "pos + n \<le> 2 ^ 31"
  shows "write_result buf n pos d h (scull_write buf (of_nat n) (of_nat pos) d h)"
proof -
  let ?Q = "qlen d" and ?S = "slen d" and ?k = "chunk d pos n" and ?r = "pos mod qlen d"
  let ?i = "pos div ?Q div ?S" and ?s = "pos div ?Q mod ?S"
  have w: "scull_wf d" and sz: "unat (sd_size d) \<le> 2 ^ 31" using assms(1) by (simp_all add: scull_inv_def)
  note q = wf_sizes[OF w]
  have p: "pos < 2 ^ 31" using assms(3,4) by simp
  have r: "?r < ?Q" by (rule mod_less_divisor[OF q(2)])
  have i31: "?i < 2 ^ 31" using p by (meson div_le_dividend le_less_trans)
  have k1: "0 < ?k" "?k \<le> n" "?k \<le> ?Q - ?r" using assms(3) r unfolding chunk_def by linarith+
  have k: "?k \<le> ?Q - ?r" "?k < 2 ^ 64" "pos + ?k \<le> 2 ^ 31" "?k < 2 ^ 63" using k1(2,3) assms(4) by simp_all
  have c: "(if of_nat n > (word_of_int (sd_quantum d - int ?r) :: u64) then word_of_int (sd_quantum d - int ?r) else of_nat n) = (of_nat ?k :: u64)"
    unfolding chunk_def by (rule count_in_block[OF _ r q(4,1)]) (use assms(4) in simp)
  obtain rf d1 h1 where f: "scull_follow d (int ?i) h = (rf, d1, h1)" by (cases "scull_follow d (int ?i) h") auto
  obtain m where m: "d1 = d\<lparr>sd_data := sd_data d @ replicate m None\<rparr>" "rf = None \<or> rf = Some ?i \<and> ?i < length (sd_data d1)"
    using scull_follow_spec[OF f i31] by blast
  note U = scull_write_def[of buf "of_nat n" "of_nat pos" d h, unfolded scull_pos_eq[OF w p] option.case prod.case f Let_def c]
  show ?thesis
  proof (cases rf)
    case None
    have "scull_inv d1 \<and> scull_contents d1 = scull_contents d"
      using block_change_same[OF extend_same[OF w] assms(1)] m(1) by blast
    then show ?thesis unfolding U None using scull_follow_avail[OF f] None by (simp add: write_result_def Let_def)
  next
    case (Some j)
    then have j: "rf = Some ?i" "?i < length (sd_data d1)" using m(2) by auto
    have sq: "sd_qset d = int ?S" using q(3) by simp
    have s: "?s < ?S" by (rule mod_less_divisor[OF q(3)])
    have w1: "scull_wf d1" "slen d1 = ?S" using wf_extend[OF w] m(1) by auto
    have ok: "\<not> (int ?s < 0 \<or> int ?s \<ge> (case sd_data d1 ! ?i of None \<Rightarrow> sd_qset d | Some arr \<Rightarrow> int (length arr)))"
    proof (cases "sd_data d1 ! ?i")
      case (Some arr)
      then have "length arr = ?S" using w1 j(2) by (metis scull_wf_def nth_mem)
      then have "int ?s < int (length arr)" using s by linarith
      then show ?thesis using Some by simp
    qed (use s sq in \<open>simp add: nat_less_iff\<close>)
    obtain rb d2 h2 where b: "get_block ?i ?s d1 h1 = (rb, d2, h2)" by (cases "get_block ?i ?s d1 h1") auto
    have av: "kh_avail h2 = kh_avail h \<and> (rb \<noteq> None \<or> short h)"
      using scull_follow_avail[OF f] get_block_avail[OF b] by metis
    note B = write_block[OF assms(1) p b m(1) j(2)]
    have U': "scull_write buf (of_nat n) (of_nat pos) d h = (case rb of
        None \<Rightarrow> (Ret (- errno_val ENOMEM), of_nat pos, d2, h2)
      | Some block \<Rightarrow>
          let d3 = put_block ?i ?s (overwrite ?r (zero_filled ?k buf) block) d2
          in if ?r + ?k > length block then (Oops, of_nat pos, d2, h2)
             else if length buf < ?k then (Ret (- errno_val EFAULT), of_nat pos, d3, h2)
             else (Ret (int ?k), of_nat (pos + ?k), (if sd_size d < of_nat (pos + ?k) then d3\<lparr>sd_size := of_nat (pos + ?k)\<rparr> else d3), h2))"
      unfolding U j(1) option.case if_not_P[OF ok] nat_int b prod.case using k(2,4)
      by (simp add: unat_nat64 sint_of_nat64 zero_filled_def Let_def split: option.splits)
    show ?thesis
    proof (cases rb)
      case None
      then show ?thesis unfolding U' using B av by (simp add: write_result_def Let_def)
    next
      case (Some block)
      let ?bs = "zero_filled ?k buf"
      let ?d3 = "put_block ?i ?s (overwrite ?r ?bs block) d2" and ?z = "max (unat (sd_size d)) (pos + ?k)"
      have lb: "length block = ?Q" "quantum_at d (pos div ?Q) = None \<or> quantum_at d (pos div ?Q) = Some block"
        using B Some by simp_all
      have fit: "\<not> length block < ?r + ?k" using k(1) r lb(1) by linarith
      have "length (overwrite ?r ?bs block) = ?Q" using fit lb(1) by (simp add: length_overwrite)
      then have ch: "block_change d (pos div ?Q) (Some (overwrite ?r ?bs block)) ?d3" using B Some by simp
      have C: "scull_inv (?d3\<lparr>sd_size := of_nat ?z\<rparr>)" "scull_contents (?d3\<lparr>sd_size := of_nat ?z\<rparr>) = overwrite pos ?bs (scull_contents d)"
        using contents_block_change[OF assms(1,2) _ _ ch lb refl] k(1,3) by simp_all
      have uz: "unat (of_nat ?z :: u64) = ?z" by (rule unat_nat64) (use sz k(3) in simp)
      have s3: "sd_size ?d3 = sd_size d" using ch by (simp add: block_change_def)
      have D: "scull_inv ?d3" "scull_contents ?d3 = take (unat (sd_size d)) (overwrite pos ?bs (scull_contents d))"
        using contents_shrink[OF C(1)] C(2) uz s3 by simp_all
      have E: "(if sd_size d < of_nat (pos + ?k) then ?d3\<lparr>sd_size := of_nat (pos + ?k)\<rparr> else ?d3) = ?d3\<lparr>sd_size := of_nat ?z\<rparr>"
      proof -
        have "sd_size d < of_nat (pos + ?k) \<longleftrightarrow> unat (sd_size d) < pos + ?k"
          unfolding word_less_nat_alt using k(3) by (subst unat_nat64) simp_all
        then show ?thesis using s3 by (simp add: max_def)
      qed
      show ?thesis
      proof (cases "length buf < ?k")
        case True
        then show ?thesis unfolding U' Some option.case Let_def if_not_P[OF fit] E using D av by (simp add: write_result_def Let_def)
      next
        case False
        then have zf: "zero_filled ?k buf = take ?k buf" by (simp add: zero_filled_all)
        show ?thesis unfolding U' Some option.case Let_def if_not_P[OF fit] E if_not_P[OF False]
          using C False av unfolding zf by (simp add: write_result_def Let_def)
      qed
    qed
  qed
qed


section \<open>The contract\<close>

text \<open>The device with the heap as a store of bytes; the file position is the client's.\<close>

definition scull_rd :: "nat \<Rightarrow> nat \<Rightarrow> scull_dev \<times> kheap \<Rightarrow> u8 list \<times> scull_dev \<times> kheap" where
  "scull_rd pos n dh = (case scull_read True (of_nat n) (of_nat pos) (fst dh) (snd dh) of (r, bs, f_pos, dh') \<Rightarrow> (bs, dh'))"

definition scull_wr :: "nat \<Rightarrow> u8 list \<Rightarrow> scull_dev \<times> kheap \<Rightarrow> nat option \<times> scull_dev \<times> kheap" where
  "scull_wr pos bs dh = (case scull_write bs (of_nat (length bs)) (of_nat pos) (fst dh) (snd dh) of (r, f_pos, dh') \<Rightarrow>
     ((case r of Ret k \<Rightarrow> if 0 \<le> k then Some (nat k) else None | Oops \<Rightarrow> None), dh'))"

lemma scull_rd_eq:
  assumes "scull_inv (fst dh)" "pos \<le> unat (sd_size (fst dh))" "n < 2 ^ 63"
  shows "scull_rd pos n dh = (let k = min (chunk (fst dh) pos n) (unat (sd_size (fst dh)) - pos) in
    (take k (drop pos (scull_contents (fst dh))), dh))"
proof (cases "pos < unat (sd_size (fst dh))")
  case True
  show ?thesis unfolding scull_rd_def Let_def scull_read_spec[OF assms(1) True assms(3) refl] by simp
next
  case False
  have "(of_nat pos :: u64) \<ge> sd_size (fst dh)"
  proof -
    have "pos = unat (sd_size (fst dh))" using False assms(2) by simp
    then show ?thesis by simp
  qed
  then show ?thesis using False by (simp add: scull_rd_def scull_read_def Let_def)
qed

lemma chunk_pos: "scull_wf d \<Longrightarrow> 0 < n \<Longrightarrow> 0 < chunk d pos n" "chunk d pos n \<le> n"
  using wf_sizes(2)[of d] mod_less_divisor[of "qlen d" pos] by (auto simp: chunk_def)

interpretation scull: byte_store "\<lambda>dh. scull_inv (fst dh)" "\<lambda>dh. scull_contents (fst dh)" "2 ^ 31" scull_rd scull_wr
proof unfold_locales
  fix d :: "scull_dev \<times> kheap" and pos n bs d'
  assume i: "scull_inv (fst d)" and p: "pos \<le> length (scull_contents (fst d))" and r: "scull_rd pos n d = (bs, d')"
  show "scull_inv (fst d') \<and> scull_contents (fst d') = scull_contents (fst d)" if n: "n < 2 ^ 63"
    using scull_rd_eq[OF i _ n, of pos] p r i by (auto simp: Let_def)
  show "length bs \<le> n \<and> bs = take (length bs) (drop pos (scull_contents (fst d)))" if n: "n < 2 ^ 63"
  proof -
    have "length bs \<le> chunk (fst d) pos n" using scull_rd_eq[OF i _ n, of pos] p r by (auto simp: Let_def)
    then show ?thesis using scull_rd_eq[OF i _ n, of pos] p r chunk_pos(2)[of "fst d" pos n] by (auto simp: Let_def)
  qed
next
  fix d :: "scull_dev \<times> kheap" and pos n bs d'
  assume i: "scull_inv (fst d)" and p: "pos < length (scull_contents (fst d))" and n: "0 < n" "n < 2 ^ 63" and r: "scull_rd pos n d = (bs, d')"
  have "0 < chunk (fst d) pos n" using i n by (intro chunk_pos) (simp_all add: scull_inv_def)
  then show "bs \<noteq> []" using scull_rd_eq[OF i _ n(2), of pos] p r by (auto simp: Let_def)
next
  fix d :: "scull_dev \<times> kheap" and pos bs k d'
  assume i: "scull_inv (fst d)" and p: "pos \<le> length (scull_contents (fst d))" and c: "pos + length bs \<le> 2 ^ 31" "bs \<noteq> []"
    and r: "scull_wr pos bs d = (Some k, d')"
  have "write_result bs (length bs) pos (fst d) (snd d) (scull_write bs (of_nat (length bs)) (of_nat pos) (fst d) (snd d))"
    using scull_write_spec[OF i, of pos "length bs"] p c by simp
  then show "0 < k \<and> k \<le> length bs \<and> scull_inv (fst d') \<and> scull_contents (fst d') = overwrite pos (take k bs) (scull_contents (fst d))"
    using r chunk_pos[of "fst d" "length bs" pos] i c(2)
    by (auto simp: write_result_def scull_wr_def Let_def scull_inv_def split: prod.splits kres.splits if_splits)
next
  fix d :: "scull_dev \<times> kheap" and pos bs d'
  assume i: "scull_inv (fst d)" and p: "pos \<le> length (scull_contents (fst d))" and c: "pos + length bs \<le> 2 ^ 31" "bs \<noteq> []"
    and r: "scull_wr pos bs d = (None, d')"
  have "write_result bs (length bs) pos (fst d) (snd d) (scull_write bs (of_nat (length bs)) (of_nat pos) (fst d) (snd d))"
    using scull_write_spec[OF i, of pos "length bs"] p c by simp
  then show "scull_inv (fst d') \<and> scull_contents (fst d') = scull_contents (fst d)"
    using r chunk_pos(2)[of "fst d" pos "length bs"]
    by (auto simp: write_result_def scull_wr_def Let_def split: prod.splits kres.splits if_splits)
qed


interpretation scull_sure: sure_store "\<lambda>dh. scull_inv (fst dh)" "\<lambda>dh. scull_contents (fst dh)" "2 ^ 31" scull_rd scull_wr "\<lambda>dh. \<not> short (snd dh)"
proof unfold_locales
  fix d :: "scull_dev \<times> kheap" and pos bs r d'
  assume i: "scull_inv (fst d)" and a: "\<not> short (snd d)" and p: "pos \<le> length (scull_contents (fst d))" and c: "pos + length bs \<le> 2 ^ 31" "bs \<noteq> []"
    and r: "scull_wr pos bs d = (r, d')"
  have "write_result bs (length bs) pos (fst d) (snd d) (scull_write bs (of_nat (length bs)) (of_nat pos) (fst d) (snd d))"
    using scull_write_spec[OF i, of pos "length bs"] p c by simp
  then show "r \<noteq> None \<and> \<not> short (snd d')"
    using r a chunk_pos(2)[of "fst d" pos "length bs"]
    by (auto simp: write_result_def scull_wr_def Let_def split: prod.splits kres.splits if_splits)
qed

section \<open>Opening\<close>

lemma trim_blocks_total: "\<forall>arr. Some arr \<in> set qs \<longrightarrow> length arr = n \<Longrightarrow> \<exists>k. trim_blocks n qs = Some k"
  by (induction n qs rule: trim_blocks.induct) auto

lemma scull_open_write:
  assumes "scull_inv d \<or> d = scull_device" "0 < q" "0 < s" "q * s < 2 ^ 31" "flags AND O_ACCMODE = O_WRONLY"
  obtains d' h' where "scull_open q s flags d h = (Ret 0, d', h')" "scull_inv d'" "scull_contents d' = []" "kh_avail h' = kh_avail h"
proof -
  have "\<exists>k. trim_blocks (slen d) (sd_data d) = Some k"
    using assms(1) by (auto simp: scull_inv_def scull_wf_def scull_device_def intro!: trim_blocks_total)
  then obtain k where k: "trim_blocks (slen d) (sd_data d) = Some k" by blast
  show ?thesis
    by (rule that[of "\<lparr>sd_data = [], sd_quantum = q, sd_qset = s, sd_size = 0\<rparr>" "kfree_blocks k h"])
      (use assms k in \<open>simp_all add: scull_open_def scull_trim_def scull_inv_def scull_wf_def scull_contents_def kfree_blocks_def\<close>)
qed

definition demo_heap :: kheap where
  "demo_heap = \<lparr>kh_avail = (\<lambda>_. True), kh_junk = (\<lambda>_ _. 255), kh_count = 0, kh_live = 0\<rparr>"

definition demo_dev :: scull_dev where
  "demo_dev = \<lparr>sd_data = [Some [Some [1, 2], Some [3, 255]]], sd_quantum = 2, sd_qset = 2, sd_size = 3\<rparr>"

lemma demo_inv: "scull_inv demo_dev"
proof -
  have "quantum_at demo_dev (i div 2) \<noteq> None" if "i < 3" for i
  proof -
    have "i = 0 \<or> i = 1 \<or> i = 2" using that by linarith
    then show ?thesis by (auto simp: quantum_at_def demo_dev_def)
  qed
  then show ?thesis by (auto simp: scull_inv_def scull_wf_def demo_dev_def)
qed

section \<open>Properties\<close>

text \<open>
  C10: The device refines a sequence of bytes.  While its blocks are consistent and everything below
  its size is allocated, a read at a position of the file returns as many bytes of the sequence as
  the block, the file and the request allow, none only at the end, and changes nothing.  A write
  either fails for lack of memory and changes nothing, or fails on the user's buffer after replacing
  the part within the file by what could be read, filled up with zeros, or replaces or appends as
  many bytes as the block takes.  Positions and counts come back as the code computes them, the
  invariant is kept, and no access is out of bounds.
\<close>

theorem scull_refines_bytes:
  assumes "scull_inv d" "pos \<le> unat (sd_size d)" "0 < n" "n < 2 ^ 63"
  shows "(let k = min (chunk d pos n) (unat (sd_size d) - pos) in
      scull_read True (of_nat n) (of_nat pos) d h = (Ret (int k), take k (drop pos (scull_contents d)), of_nat (pos + k), d, h) \<and>
      (k = 0 \<longleftrightarrow> pos = unat (sd_size d))) \<and>
    (pos + n \<le> 2 ^ 31 \<longrightarrow> write_result buf n pos d h (scull_write buf (of_nat n) (of_nat pos) d h))"
proof -
  have c: "0 < chunk d pos n" using assms(1,3) by (intro chunk_pos) (simp_all add: scull_inv_def)
  have "scull_read True (of_nat n) (of_nat pos) d h = (Ret 0, [], of_nat pos, d, h)" if "pos = unat (sd_size d)"
    using that by (simp add: scull_read_def)
  then show ?thesis
    using scull_read_spec[OF assms(1) _ assms(4) refl, of pos True h] scull_write_spec[OF assms(1,2,3)] assms(2) c
    by (cases "pos = unat (sd_size d)") (auto simp: Let_def min_def)
qed

theorem scull_refines_bytes_witness:
  "fst (scull_read True 9 1 demo_dev demo_heap) = Ret 1 \<and>
   write_result [7, 8, 9] 3 1 demo_dev demo_heap (scull_write [7, 8, 9] 3 1 demo_dev demo_heap) \<and> chunk demo_dev 1 3 = 1"
proof -
  have u: "unat (sd_size demo_dev) = 3" "chunk demo_dev 1 9 = 1" "chunk demo_dev 1 3 = 1" by (simp_all add: demo_dev_def chunk_def)
  show ?thesis
    using scull_refines_bytes[OF demo_inv, of 1 9 demo_heap "[7, 8, 9]"] scull_refines_bytes[OF demo_inv, of 1 3 demo_heap "[7, 8, 9]"] u
    by (simp add: Let_def)
qed

text \<open>
  C34: Opening the device for writing, writing any sequence of bytes with repeated writes and reading it
  back with repeated reads of any size returns the sequence, if memory does not run out; both loops
  end after at most one step more than there are bytes.
\<close>

theorem scull_roundtrip:
  assumes "scull_inv d \<or> d = scull_device" "0 < q" "0 < s" "q * s < 2 ^ 31" "flags AND O_ACCMODE = O_WRONLY" "\<not> short h"
    and "length bs \<le> 2 ^ 31" "length bs < fuel" "0 < n" "n < 2 ^ 63"
  shows "\<exists>d1 h1 dh2 dh3. scull_open q s flags d h = (Ret 0, d1, h1) \<and>
    write_all scull_wr fuel 0 bs (d1, h1) = Some (length bs, dh2) \<and> read_all scull_rd fuel n 0 dh2 = Some (bs, dh3)"
proof -
  obtain d1 h1 where o: "scull_open q s flags d h = (Ret 0, d1, h1)" "scull_inv d1" "scull_contents d1 = []" "kh_avail h1 = kh_avail h"
    by (rule scull_open_write[OF assms(1-5)])
  show ?thesis using scull_sure.write_read_all[of "(d1, h1)" bs fuel n] o assms(6-10) by auto
qed

theorem scull_roundtrip_witness:
  "\<exists>d1 h1 dh2 dh3. scull_open 2 2 O_WRONLY demo_dev demo_heap = (Ret 0, d1, h1) \<and>
    write_all scull_wr 6 0 [1, 2, 3, 4, 5] (d1, h1) = Some (length [1, 2, 3, 4, 5 :: u8], dh2) \<and> read_all scull_rd 6 100 0 dh2 = Some ([1, 2, 3, 4, 5], dh3)"
  using scull_roundtrip[of demo_dev 2 2 O_WRONLY demo_heap "[1, 2, 3, 4, 5]" 6 100] demo_inv
  by (simp add: demo_heap_def O_ACCMODE_def O_WRONLY_def)

text \<open>
  A device that was never opened write-only has no quantum size: opening it for reading and
  writing succeeds, and the first write divides by zero.
\<close>

theorem scull_unopened_write_oops:
  assumes "flags AND O_ACCMODE \<noteq> O_WRONLY" "scull_open q s flags scull_device h = (r, d, h')"
  shows "r = Ret 0 \<and> fst (scull_write buf n pos d h') = Oops"
  using assms by (auto simp: scull_open_def scull_device_def scull_write_def scull_pos_def int32_def)

theorem scull_unopened_write_oops_witness:
  "fst (scull_write [1] 1 0 scull_device demo_heap) = Oops"
  using scull_unopened_write_oops[of 2 4000 1000 demo_heap "Ret 0" scull_device demo_heap "[1]" 1 0]
  by (simp add: scull_open_def O_ACCMODE_def O_WRONLY_def)

end
