(* ===== verification/Drivers.thy ===== *)
theory Drivers
  imports Scull_Props "HOL-Library.Multiset"
begin

text \<open>
  The small character drivers of \<open>Labs/lab9\<close> (\<open>mynull.c\<close>, \<open>myfirst.c\<close>, \<open>hellodev.c\<close>, \<open>devnum.c\<close>) and the
  registration code they share with \<open>scull.c\<close>.  What a driver holds of the kernel is a multiset of
  resources; whether a registration succeeds is the kernel's choice.
\<close>

section \<open>Registration\<close>

type_synonym dev_t = nat

datatype resource = Region dev_t nat | Dev_class | Device dev_t | Cdev dev_t

text \<open>
  The answers of the kernel: the device number and result of \<open>alloc_chrdev_region\<close> and
  \<open>register_chrdev_region\<close>, the error of \<open>class_create\<close> and \<open>device_create\<close> if any, and the result of
  \<open>cdev_add\<close>.
\<close>

record reg_env =
  re_dev :: dev_t
  re_region :: int
  re_class :: "int option"
  re_device :: "int option"
  re_cdev :: int

text \<open>The initialisation of \<open>scull.c\<close>, \<open>mynull.c\<close> and \<open>myfirst.c\<close>, with its unwinding.\<close>

definition chrdev_init :: "reg_env \<Rightarrow> resource multiset \<Rightarrow> int \<times> resource multiset" where
  "chrdev_init e r =
     (if re_region e < 0 then (re_region e, r)
      else
        let r1 = add_mset (Region (re_dev e) 1) r
        in case re_class e of
             Some err \<Rightarrow> (err, r1 - {#Region (re_dev e) 1#})
           | None \<Rightarrow>
               let r2 = add_mset Dev_class r1
               in (case re_device e of
                     Some err \<Rightarrow> (err, r2 - {#Dev_class#} - {#Region (re_dev e) 1#})
                   | None \<Rightarrow>
                       let r3 = add_mset (Device (re_dev e)) r2
                       in if re_cdev e < 0
                          then (re_cdev e, r3 - {#Device (re_dev e)#} - {#Dev_class#} - {#Region (re_dev e) 1#})
                          else (0, add_mset (Cdev (re_dev e)) r3)))"

definition chrdev_exit :: "dev_t \<Rightarrow> resource multiset \<Rightarrow> resource multiset" where
  "chrdev_exit dev r = r - {#Cdev dev#} - {#Device dev#} - {#Dev_class#} - {#Region dev 1#}"

definition mynull_init :: "reg_env \<Rightarrow> resource multiset \<Rightarrow> int \<times> resource multiset" where
  "mynull_init = chrdev_init"
definition mynull_exit :: "dev_t \<Rightarrow> resource multiset \<Rightarrow> resource multiset" where
  "mynull_exit = chrdev_exit"

definition myfirst_init :: "reg_env \<Rightarrow> resource multiset \<Rightarrow> int \<times> resource multiset" where
  "myfirst_init = chrdev_init"
definition myfirst_exit :: "dev_t \<Rightarrow> resource multiset \<Rightarrow> resource multiset" where
  "myfirst_exit = chrdev_exit"

definition scull_init :: "reg_env \<Rightarrow> resource multiset \<Rightarrow> int \<times> resource multiset" where
  "scull_init = chrdev_init"

text \<open>\<open>scull_exit\<close> frees the device memory first.\<close>

definition scull_exit ::
  "int \<Rightarrow> int \<Rightarrow> dev_t \<Rightarrow> scull_dev \<Rightarrow> kheap \<Rightarrow> resource multiset \<Rightarrow> kres \<times> scull_dev \<times> kheap \<times> resource multiset" where
  "scull_exit scull_quantum scull_qset dev d h r =
     (case scull_trim scull_quantum scull_qset d h of (res, d1, h1) \<Rightarrow> (res, d1, h1, chrdev_exit dev r))"

text \<open>\<open>hellodev.c\<close> and \<open>devnum.c\<close> take the device number as module parameters or let the kernel choose.\<close>

definition MKDEV :: "nat \<Rightarrow> nat \<Rightarrow> dev_t" where
  "MKDEV major minor = major * 2 ^ 20 + minor"

definition MAJOR :: "dev_t \<Rightarrow> nat" where
  "MAJOR dev = dev div 2 ^ 20"

definition hellodev_init :: "nat \<Rightarrow> nat \<Rightarrow> reg_env \<Rightarrow> resource multiset \<Rightarrow> int \<times> nat \<times> resource multiset" where
  "hellodev_init major minor e r =
     (let dev = (if 0 < major then MKDEV major minor else re_dev e);
          major1 = (if 0 < major then major else MAJOR (re_dev e))
      in if re_region e \<noteq> 0 then (re_region e, major1, r)
         else
           let r1 = add_mset (Region dev 1) r
           in case re_class e of
                Some err \<Rightarrow> (err, major1, r1 - {#Region dev 1#})
              | None \<Rightarrow>
                  let r2 = add_mset Dev_class r1
                  in (case re_device e of
                        Some err \<Rightarrow> (err, major1, r2 - {#Dev_class#} - {#Region dev 1#})
                      | None \<Rightarrow> (0, major1, add_mset (Device dev) r2)))"

definition hellodev_exit :: "nat \<Rightarrow> nat \<Rightarrow> resource multiset \<Rightarrow> resource multiset" where
  "hellodev_exit major minor r =
     (let dev = MKDEV major minor in r - {#Device dev#} - {#Dev_class#} - {#Region dev 1#})"

definition devnum_init :: "nat \<Rightarrow> nat \<Rightarrow> nat \<Rightarrow> reg_env \<Rightarrow> resource multiset \<Rightarrow> int \<times> nat \<times> resource multiset" where
  "devnum_init major minor nr_devs e r =
     (let dev = (if 0 < major then MKDEV major minor else re_dev e);
          major1 = (if 0 < major then major else MAJOR (re_dev e))
      in (re_region e, major1, if re_region e = 0 then add_mset (Region dev nr_devs) r else r))"

definition devnum_exit :: "nat \<Rightarrow> nat \<Rightarrow> nat \<Rightarrow> resource multiset \<Rightarrow> resource multiset" where
  "devnum_exit major minor nr_devs r = r - {#Region (MKDEV major minor) nr_devs#}"

section \<open>Reads and writes\<close>

definition mynull_read :: "u64 \<Rightarrow> u64 \<Rightarrow> kres \<times> u8 list \<times> u64" where
  "mynull_read cnt f_pos = (Ret 0, [], f_pos)"

definition mynull_write :: "u64 \<Rightarrow> u64 \<Rightarrow> kres \<times> u64" where
  "mynull_write cnt f_pos = (Ret (sint cnt), f_pos)"

text \<open>\<open>myfirst\<close> stores one byte; the second component of a read is what was copied to the user.\<close>

definition myfirst_read :: "bool \<Rightarrow> u64 \<Rightarrow> u64 \<Rightarrow> u8 \<Rightarrow> kres \<times> u8 list \<times> u64" where
  "myfirst_read writable cnt f_pos first_byte =
     (if f_pos = 0
      then (if \<not> writable then (Ret (- errno_val EFAULT), [], f_pos) else (Ret 1, [first_byte], f_pos + 1))
      else (Ret 0, [], f_pos))"

definition myfirst_write :: "u8 list \<Rightarrow> u64 \<Rightarrow> u64 \<Rightarrow> u8 \<Rightarrow> kres \<times> u64 \<times> u8" where
  "myfirst_write buf cnt f_pos first_byte =
     (case buf of
        [] \<Rightarrow> (Ret (- errno_val EFAULT), f_pos, 0)
      | b # _ \<Rightarrow> (Ret (sint cnt), f_pos, b))"

section \<open>Properties\<close>

lemma chrdev_init_balanced:
  assumes "\<And>n. re_class e = Some n \<Longrightarrow> n < 0" "\<And>n. re_device e = Some n \<Longrightarrow> n < 0" "chrdev_init e r = (res, r')"
  shows "if res < 0 then r' = r else res = 0 \<and> chrdev_exit (re_dev e) r' = r"
  using assms by (auto simp: chrdev_init_def chrdev_exit_def Let_def split: if_splits option.splits)

lemma MAJOR_MKDEV: "minor < 2 ^ 20 \<Longrightarrow> MAJOR (MKDEV major minor) = major"
  by (simp add: MAJOR_def MKDEV_def)

lemma hellodev_init_balanced:
  assumes "\<And>n. re_class e = Some n \<Longrightarrow> n < 0" "\<And>n. re_device e = Some n \<Longrightarrow> n < 0" "re_dev e = MKDEV maj minor" "minor < 2 ^ 20"
    and "hellodev_init major minor e r = (res, major', r')"
  shows "if res \<noteq> 0 then r' = r else hellodev_exit major' minor r' = r"
  using assms by (auto simp: hellodev_init_def hellodev_exit_def Let_def MAJOR_MKDEV split: if_splits option.splits)

text \<open>
  Loading and unloading the drivers is balanced: when an initialisation fails, at whatever step,
  everything registered before is given back; when it succeeds, the exit function gives back exactly
  what it registered.  For \<open>hellodev\<close> the kernel's choice of a device number must carry the minor number
  asked for, as \<open>alloc_chrdev_region\<close> promises.
\<close>

theorem driver_registration_balanced:
  assumes "\<And>n. re_class e = Some n \<Longrightarrow> n < 0" "\<And>n. re_device e = Some n \<Longrightarrow> n < 0" "re_dev e = MKDEV maj minor" "minor < 2 ^ 20"
  shows "(\<forall>res r'. scull_init e r = (res, r') \<longrightarrow> (if res < 0 then r' = r else res = 0 \<and> snd (snd (snd (scull_exit q s (re_dev e) d h r'))) = r)) \<and>
    (\<forall>res r'. mynull_init e r = (res, r') \<longrightarrow> (if res < 0 then r' = r else res = 0 \<and> mynull_exit (re_dev e) r' = r)) \<and>
    (\<forall>res r'. myfirst_init e r = (res, r') \<longrightarrow> (if res < 0 then r' = r else res = 0 \<and> myfirst_exit (re_dev e) r' = r)) \<and>
    (\<forall>res m r'. hellodev_init major minor e r = (res, m, r') \<longrightarrow> (if res \<noteq> 0 then r' = r else hellodev_exit m minor r' = r)) \<and>
    (\<forall>res m r'. devnum_init major minor k e r = (res, m, r') \<longrightarrow> (if res \<noteq> 0 then r' = r else devnum_exit m minor k r' = r))"
proof -
  have b: "\<forall>res r'. chrdev_init e r = (res, r') \<longrightarrow> (if res < 0 then r' = r else res = 0 \<and> chrdev_exit (re_dev e) r' = r)"
    using chrdev_init_balanced[OF assms(1,2)] by blast
  have x: "snd (snd (snd (scull_exit q s dev d h r'))) = chrdev_exit dev r'" for dev r'
    by (simp add: scull_exit_def split: prod.splits)
  have "\<forall>res m r'. devnum_init major minor k e r = (res, m, r') \<longrightarrow> (if res \<noteq> 0 then r' = r else devnum_exit m minor k r' = r)"
    using assms(3,4) by (auto simp: devnum_init_def devnum_exit_def Let_def MAJOR_MKDEV)
  moreover have "\<forall>res m r'. hellodev_init major minor e r = (res, m, r') \<longrightarrow> (if res \<noteq> 0 then r' = r else hellodev_exit m minor r' = r)"
    using hellodev_init_balanced[OF assms] by blast
  ultimately show ?thesis
    unfolding scull_init_def mynull_init_def myfirst_init_def mynull_exit_def myfirst_exit_def x using b by blast
qed

theorem driver_registration_balanced_witness:
  "scull_init \<lparr>re_dev = MKDEV 240 0, re_region = 0, re_class = None, re_device = Some (- 12), re_cdev = 0\<rparr> {#} = (- 12, {#}) \<and>
   mynull_exit (MKDEV 240 0) (snd (mynull_init \<lparr>re_dev = MKDEV 240 0, re_region = 0, re_class = None, re_device = None, re_cdev = 0\<rparr> {#})) = {#}"
proof -
  let ?e = "\<lparr>re_dev = MKDEV 240 0, re_region = 0, re_class = None, re_device = Some (- 12), re_cdev = 0\<rparr>"
  let ?f = "\<lparr>re_dev = MKDEV 240 0, re_region = 0, re_class = None, re_device = None, re_cdev = 0\<rparr>"
  have r: "fst (scull_init ?e {#}) = - 12" "fst (mynull_init ?f {#}) = 0"
    by (simp_all add: scull_init_def mynull_init_def chrdev_init_def Let_def)
  have "scull_init ?e {#} = (- 12, snd (scull_init ?e {#}))" "mynull_init ?f {#} = (0, snd (mynull_init ?f {#}))"
    using r by (metis prod.collapse)+
  then show ?thesis
    using driver_registration_balanced[of ?e 240 0 "{#}" 1 1 scull_device demo_heap 0 1] driver_registration_balanced[of ?f 240 0 "{#}" 1 1 scull_device demo_heap 0 1]
    by fastforce
qed

text \<open>
  The one-byte device returns what was stored last, once per open file.  It looks at no count: a
  read of no bytes still stores one byte through the user's pointer and returns 1, and a write of
  no bytes, or of many, consumes exactly the first byte of the buffer and returns the count.
\<close>

theorem myfirst_one_byte:
  "myfirst_write (b # bs) cnt p old = (Ret (sint cnt), p, b) \<and>
   (\<forall>n. myfirst_read True n 0 b = (Ret 1, [b], 1)) \<and> (\<forall>n. myfirst_read True n 1 b = (Ret 0, [], 1)) \<and>
   fst (myfirst_read True 0 0 b) = Ret 1 \<and> fst (myfirst_read False n 0 b) = Ret (- errno_val EFAULT)"
  by (simp add: myfirst_write_def myfirst_read_def)

end
