(* ===== verification/Mysum.thy ===== *)
theory Mysum
  imports Prelude
begin

text \<open>
  The kernel module \<open>Labs/lab8/mysum.c\<close>: the sum of the integers from one module parameter to another,
  by a loop over 32-bit integers.  The kernel is compiled with wrapping signed arithmetic, so an
  increment of the largest \<open>int\<close> gives the smallest.
\<close>

partial_function (option) sum_loop :: "u32 \<Rightarrow> u32 \<Rightarrow> u32 \<Rightarrow> u32 option" where
  "sum_loop from to result =
     (if sint from \<le> sint to then sum_loop (from + 1) to (result + from) else Some result)"

definition mysum :: "u32 \<Rightarrow> u32 \<Rightarrow> u32 option" where
  "mysum from to = (if sint from > sint to then Some 0 else sum_loop from to 0)"

definition sum_init :: "u32 \<Rightarrow> u32 \<Rightarrow> (int \<times> u32) option" where
  "sum_init from to = map_option (\<lambda>result. (0, result)) (mysum from to)"

section \<open>The loop\<close>

lemma sint_succ: "sint (w :: u32) < 2 ^ 31 - 1 \<Longrightarrow> sint (w + 1) = sint w + 1"
proof -
  assume a: "sint w < 2 ^ 31 - 1"
  have "sint (w + 1) = signed_take_bit 31 (sint w + 1)" by (simp add: sint_word_ariths)
  moreover have "- (2 ^ 31) \<le> sint w" using sint_ge[of w] by simp
  ultimately show ?thesis using a by (simp add: signed_take_bit_int_eq_self)
qed

lemma word_of_sint: "(word_of_int (sint w) :: u32) = w"
  by simp

text \<open>The sum of an interval of integers, from its ends.\<close>

definition gauss :: "int \<Rightarrow> int \<Rightarrow> int" where
  "gauss a b = (if a \<le> b then (b - a + 1) * (a + b) div 2 else 0)"

lemma gauss_step:
  assumes "a \<le> b"
  shows "gauss a b = a + gauss (a + 1) b"
proof (cases "a = b")
  case False
  have "(b - a + 1) * (a + b) = (b - (a + 1) + 1) * (a + 1 + b) + a * 2" by (simp add: algebra_simps)
  then show ?thesis using assms False by (simp add: gauss_def)
qed (simp add: gauss_def)

lemma sum_loop_gauss:
  assumes "sint to < 2 ^ 31 - 1"
  shows "sum_loop from to r = Some (r + word_of_int (gauss (sint from) (sint to)))"
proof (induction "nat (sint to - sint from + 1)" arbitrary: "from" r rule: less_induct)
  case less
  show ?case
  proof (cases "sint from \<le> sint to")
    case True
    have s: "sint (from + 1) = sint from + 1" using True assms by (intro sint_succ) simp
    have "sum_loop (from + 1) to (r + from) = Some (r + from + word_of_int (gauss (sint (from + 1)) (sint to)))"
      using True s by (intro less) simp
    then show ?thesis
      unfolding sum_loop.simps[of "from"] using True gauss_step[OF True] s by (simp add: add.assoc)
  next
    case False
    then show ?thesis by (subst sum_loop.simps) (simp add: gauss_def)
  qed
qed

lemma sum_loop_diverges:
  assumes "sum_loop from to r = Some y"
  shows "sint to \<noteq> 2 ^ 31 - 1"
  using assms
proof (rule sum_loop.raw_induct[rotated])
  fix sl and "from" to r y :: u32
  assume IH: "\<And>from to r y. sl from to r = Some y \<Longrightarrow> sint to \<noteq> 2 ^ 31 - 1"
    and st: "(if sint from \<le> sint to then sl (from + 1) to (r + from) else Some r) = Some y"
  show "sint (to :: u32) \<noteq> 2 ^ 31 - 1"
  proof
    assume m: "sint to = 2 ^ 31 - 1"
    have "sint from \<le> sint to" using sint_lt[of "from"] m by simp
    then show False using st IH m by simp
  qed
qed

section \<open>Property\<close>

text \<open>
  The loop computes what the formula for arithmetic series says, modulo 2 to the 32, and returns,
  whenever the upper end is below the largest \<open>int\<close>; an empty interval sums to 0.  With the largest
  \<open>int\<close> as the upper end of a non-empty interval it never returns.
\<close>

theorem mysum_closed_form:
  "mysum from to =
     (if sint to < 2 ^ 31 - 1 \<or> sint to < sint from then Some (word_of_int (gauss (sint from) (sint to))) else None)"
proof (cases "sint to < sint from")
  case True
  then show ?thesis by (simp add: mysum_def gauss_def)
next
  case False
  show ?thesis
  proof (cases "sint to < 2 ^ 31 - 1")
    case True
    then show ?thesis using False sum_loop_gauss[OF True, of "from" 0] by (simp add: mysum_def)
  next
    case False': False
    then have "sint to = 2 ^ 31 - 1" using sint_lt[of to] by simp
    then have "sum_loop from to 0 = None" using sum_loop_diverges by (cases "sum_loop from to 0") auto
    then show ?thesis using False False' by (simp add: mysum_def)
  qed
qed

end
