(* ===== verification/Shell_Parse.thy ===== *)
theory Shell_Parse
  imports C_Text "HOL-Library.Monad_Syntax"
begin

text \<open>
  How \<open>HW2.3-Shell/myshell.c\<close> reads and takes apart command lines.  A buffer is the list of all its
  characters, the text in it ends at the first NUL.  Reading or writing outside a buffer has no
  defined meaning in C; the functions then return \<open>None\<close>.
\<close>

section \<open>Characters and buffers\<close>

definition MAX_CMDLINE_LEN :: nat where "MAX_CMDLINE_LEN = 1024"
definition MAX_ARG_LEN :: nat where "MAX_ARG_LEN = 512"
definition MAX_ARGC :: nat where "MAX_ARGC = 128"
definition PATH_MAX :: nat where "PATH_MAX = 128"
definition MAX_PIPE :: nat where "MAX_PIPE = 128"

definition get :: "string \<Rightarrow> int \<Rightarrow> char option" where
  "get buf i = (if 0 \<le> i \<and> i < int (length buf) then Some (buf ! nat i) else None)"

definition put :: "string \<Rightarrow> int \<Rightarrow> char \<Rightarrow> string option" where
  "put buf i c = (if 0 \<le> i \<and> i < int (length buf) then Some (buf[nat i := c]) else None)"

definition is_delim :: "char \<Rightarrow> char \<Rightarrow> bool" where
  "is_delim c delim \<longleftrightarrow> delim = c \<or> (delim = CHR '' '' \<and> c = TAB)"

abbreviation blank :: "char \<Rightarrow> bool" where
  "blank c \<equiv> c = CHR '' '' \<or> c = TAB"

section \<open>Reading a line\<close>

text \<open>\<open>fgets\<close>: at most \<open>n\<close> characters, up to and with the end of the line.\<close>

fun fgets_line :: "nat \<Rightarrow> string \<Rightarrow> string" where
  "fgets_line 0 xs = []"
| "fgets_line n [] = []"
| "fgets_line (Suc n) (c # cs) = (if c = NEWLINE then [c] else c # fgets_line n cs)"

text \<open>
  The loop that removes trailing blanks, with the two decrements of its condition: a character that
  is not a space is followed by a test of the one before it for a tab.
\<close>

function trim_loop :: "int \<Rightarrow> string \<Rightarrow> string option" where
  "trim_loop n buf =
     (if n < 1 then None
      else case get buf (n - 1) of
        None \<Rightarrow> None
      | Some c \<Rightarrow>
          if c = CHR '' '' then Option.bind (put buf (n - 1) NUL) (trim_loop (n - 1))
          else (case get buf (n - 2) of
              None \<Rightarrow> None
            | Some d \<Rightarrow> if d = TAB then Option.bind (put buf (n - 2) NUL) (trim_loop (n - 2)) else Some buf))"
  by auto
termination
  by (relation "measure (\<lambda>(n, buf). nat n)") auto

declare trim_loop.simps [simp del]

text \<open>The answer is whether there is a command, with the rest of the input and the buffer.\<close>

definition get_cmd_line :: "string \<Rightarrow> string \<Rightarrow> (bool \<times> string \<times> string) option" where
  "get_cmd_line input buf =
     (if input = [] then Some (False, input, buf)
      else
        let line = fgets_line (MAX_CMDLINE_LEN - 1) input;
            buf1 = line @ [NUL] @ drop (length line + 1) buf;
            n = int (strlen buf1) - 1
        in do {
             buf2 \<leftarrow> put buf1 n NUL;
             if list_all blank (take (nat n) buf2) then Some (False, drop (length line) input, buf2)
             else do {
               buf3 \<leftarrow> trim_loop n buf2;
               Some (True, drop (length line) input, buf3)
             }
           })"

section \<open>Redirections\<close>

text \<open>\<open>while (is_delim(cmdline[++i], ' '))\<close>: the index the loop stops at.\<close>

function skip_delim :: "string \<Rightarrow> nat \<Rightarrow> nat option" where
  "skip_delim buf i =
     (if i + 1 < length buf
      then (if is_delim (buf ! (i + 1)) (CHR '' '') then skip_delim buf (i + 1) else Some (i + 1))
      else None)"
  by auto
termination
  by (relation "measure (\<lambda>(buf, i). length buf - i)") auto

declare skip_delim.simps [simp del]

text \<open>\<open>while (i < strlen(cmdline) && !is_delim(cmdline[++i], ' '))\<close>.\<close>

function path_end :: "string \<Rightarrow> nat \<Rightarrow> nat option" where
  "path_end buf i =
     (if i < strlen buf
      then (if i + 1 < length buf
            then (if \<not> is_delim (buf ! (i + 1)) (CHR '' '') then path_end buf (i + 1) else Some (i + 1))
            else None)
      else Some i)"
  by auto
termination
  by (relation "measure (\<lambda>(buf, i). length buf - i)") auto

declare path_end.simps [simp del]

definition get_path :: "string \<Rightarrow> nat \<Rightarrow> (nat \<times> string) option" where
  "get_path buf i =
     do {
       j \<leftarrow> skip_delim buf i;
       k \<leftarrow> path_end buf j;
       if k - j < PATH_MAX then Some (k, c_str (take (k - j) (drop j buf))) else None
     }"

datatype redirect = Out_trunc string | Out_append string | Out_err string | In_file string

text \<open>The index after a redirection at \<open>i\<close> with what it asks for, or \<open>i\<close> itself.\<close>

definition process_redirection :: "string \<Rightarrow> nat \<Rightarrow> (nat \<times> redirect option) option" where
  "process_redirection buf i =
     do {
       c \<leftarrow> get buf (int i);
       if c = CHR ''>'' then
         do {
           d \<leftarrow> get buf (int i + 1);
           (k, path) \<leftarrow> get_path buf (if d = CHR ''>'' then i + 1 else i);
           k1 \<leftarrow> skip_delim buf k;
           Some (k1, Some (if d = CHR ''>'' then Out_append path else Out_trunc path))
         }
       else if c = CHR ''&'' then
         do {
           d \<leftarrow> get buf (int i + 1);
           if d = CHR ''>'' then
             do {
               (k, path) \<leftarrow> get_path buf (i + 1);
               k1 \<leftarrow> skip_delim buf k;
               Some (k1, Some (Out_err path))
             }
           else Some (i, None)
         }
       else if c = CHR ''<'' then
         do {
           (k, path) \<leftarrow> get_path buf i;
           k1 \<leftarrow> skip_delim buf k;
           Some (k1, Some (In_file path))
         }
       else Some (i, None)
     }"

lemma skip_delim_gt: "skip_delim buf i = Some k \<Longrightarrow> i < k"
proof (induction buf i rule: skip_delim.induct)
  case (1 buf i)
  show ?case using "1.prems" "1.IH" by (subst (asm) skip_delim.simps) (auto split: if_splits)
qed

lemma path_end_ge: "path_end buf i = Some k \<Longrightarrow> i \<le> k"
proof (induction buf i rule: path_end.induct)
  case (1 buf i)
  show ?case using "1.prems" "1.IH" by (subst (asm) path_end.simps) (auto split: if_splits)
qed

lemma get_path_gt: "get_path buf i = Some (k, path) \<Longrightarrow> i < k"
  by (auto simp: get_path_def split: if_splits Option.bind_splits dest!: skip_delim_gt path_end_ge)

lemma redirection_gt: "process_redirection buf i = Some (k, r) \<Longrightarrow> k = i \<or> i < k"
  by (auto simp: process_redirection_def split: if_splits Option.bind_splits dest!: skip_delim_gt get_path_gt)

section \<open>Arguments\<close>

definition push_arg :: "string \<Rightarrow> string list \<Rightarrow> string list option" where
  "push_arg arg argv = (if length arg < MAX_ARG_LEN \<and> length argv < MAX_ARGC then Some (argv @ [arg]) else None)"

text \<open>
  The loop of \<open>process_cmd\<close> at index \<open>i\<close>, with the argument read so far, the delimiter it ends at, the
  arguments before it and the redirections done.  Every round moves on.
\<close>

function arg_loop ::
  "int \<Rightarrow> int \<Rightarrow> string \<Rightarrow> nat \<Rightarrow> string \<Rightarrow> char \<Rightarrow> string list \<Rightarrow> redirect list \<Rightarrow> (string list \<times> redirect list) option" where
  "arg_loop pid exit_status buf i arg delim argv rs =
     (if \<not> i < strlen buf then Some (argv, rs)
      else
        let c = buf ! i
        in if is_delim c delim then
             (case push_arg arg argv of
                None \<Rightarrow> None
              | Some argv1 \<Rightarrow>
                  (case skip_delim buf i of
                     None \<Rightarrow> None
                   | Some k \<Rightarrow>
                       arg_loop pid exit_status buf k []
                         (if delim = SQUOTE \<or> delim = DQUOTE then CHR '' '' else delim) argv1 rs))
           else if i = strlen buf - 1 then
             map_option (\<lambda>argv1. (argv1, rs)) (push_arg (if delim = CHR '' '' then arg @ [c] else arg) argv)
           else if (c = DQUOTE \<or> c = SQUOTE) \<and> delim = CHR '' '' then
             arg_loop pid exit_status buf (i + 1) arg c argv rs
           else if delim \<noteq> SQUOTE \<and> c = CHR ''$'' \<and> (buf ! (i + 1) = CHR ''$'' \<or> buf ! (i + 1) = CHR ''?'') then
             let arg1 = arg @ show_int (if buf ! (i + 1) = CHR ''$'' then pid else exit_status)
             in if MAX_ARG_LEN \<le> length arg1 then None
                else if strlen buf \<le> i + 2 then map_option (\<lambda>argv1. (argv1, rs)) (push_arg arg1 argv)
                else arg_loop pid exit_status buf (i + 2) arg1 delim argv rs
           else
             (case process_redirection buf i of
                None \<Rightarrow> None
              | Some (k, r) \<Rightarrow>
                  if k = i then
                    (if length arg < MAX_ARG_LEN then arg_loop pid exit_status buf (i + 1) (arg @ [c]) delim argv rs
                     else None)
                  else arg_loop pid exit_status buf k arg delim argv (rs @ (case r of None \<Rightarrow> [] | Some x \<Rightarrow> [x]))))"
  by auto
termination
  by (relation "measure (\<lambda>(pid, es, buf, i, arg, delim, argv, rs). strlen buf - i)")
    (auto dest: skip_delim_gt redirection_gt)

declare arg_loop.simps [simp del]

text \<open>\<open>process_cmd\<close> up to \<open>execvpe\<close>: the arguments and the redirections.\<close>

definition process_cmd :: "int \<Rightarrow> int \<Rightarrow> string \<Rightarrow> (string list \<times> redirect list) option" where
  "process_cmd pid exit_status buf =
     (case arg_loop pid exit_status buf (length (takeWhile blank (c_str buf))) [] (CHR '' '') [] [] of
        None \<Rightarrow> None
      | Some (argv, rs) \<Rightarrow> if length argv < MAX_ARGC then Some (argv, rs) else None)"

section \<open>Pipelines and built-in commands\<close>

text \<open>
  \<open>exec_job\<close> looks for an ampersand as the last character that is not blank, and cuts the command
  there; a command of blanks only is not passed to it.
\<close>

definition split_async :: "string \<Rightarrow> bool \<times> string" where
  "split_async cmd =
     (let body = rev (dropWhile blank (rev cmd))
      in if body \<noteq> [] \<and> last body = CHR ''&'' then (True, butlast body) else (False, cmd))"

function split_pipe :: "string \<Rightarrow> string list" where
  "split_pipe cmd =
     (let seg = takeWhile (\<lambda>c. c \<noteq> CHR ''|'') cmd;
          rest = dropWhile (\<lambda>c. c \<noteq> CHR ''|'') cmd
      in if rest = [] then [seg] else seg # split_pipe (dropWhile blank (tl rest)))"
  by auto
termination
proof (relation "measure length")
  fix cmd seg rest :: string
  assume r: "rest = dropWhile (\<lambda>c. c \<noteq> CHR ''|'') cmd" "rest \<noteq> []"
  have "length (dropWhile blank (tl rest)) \<le> length (tl rest)" by (rule length_dropWhile_le)
  also have "\<dots> < length rest" using r(2) by (cases rest) simp_all
  also have "\<dots> \<le> length cmd" unfolding r(1) by (rule length_dropWhile_le)
  finally show "(dropWhile blank (tl rest), cmd) \<in> measure length" by simp
qed simp

declare split_pipe.simps [simp del]

text \<open>\<open>None\<close> when there are more commands than the array takes.\<close>

definition split_job :: "string \<Rightarrow> (bool \<times> string list) option" where
  "split_job cmd =
     (case split_async cmd of (async, body) \<Rightarrow>
        let cmds = split_pipe body in if length cmds \<le> MAX_PIPE then Some (async, cmds) else None)"

datatype internal = Exit | Jobs | Cd "string list" | Bg "string list" | Fg "string list" | External

text \<open>Without a token the first comparison dereferences a null pointer: \<open>None\<close>.\<close>

definition exec_internal_cmd :: "string \<Rightarrow> internal option" where
  "exec_internal_cmd cmd =
     (if cmd = ''exit'' \<or> cmd = ''exit &'' then Some Exit
      else if cmd = ''jobs'' then Some Jobs
      else case strtok (CHR '' '') cmd of
        [] \<Rightarrow> None
      | name # args \<Rightarrow>
          Some (if name = ''cd'' then Cd args
                else if name = ''bg'' then Bg args
                else if name = ''fg'' then Fg args
                else External))"

end
