(* ===== verification/Shell_Args.thy ===== *)
theory Shell_Args
  imports Shell_Parse
begin

text \<open>
  Reading and splitting command lines: what \<open>process_cmd\<close> makes of a line written with blanks between
  the words and quotes where they are needed, and what \<open>get_cmd_line\<close> leaves of a line with blanks at
  its end.
\<close>

section \<open>Writing words down\<close>

definition plain :: "char \<Rightarrow> bool" where
  "plain c \<longleftrightarrow> c \<notin> {NUL, SQUOTE, DQUOTE, CHR ''$'', CHR ''<'', CHR ''>'', CHR ''&''}"

definition quote_word :: "string \<Rightarrow> string" where
  "quote_word w = (if w = [] \<or> list_ex blank w then SQUOTE # w @ [SQUOTE] else w)"

fun command_line :: "string list \<Rightarrow> string" where
  "command_line [] = []"
| "command_line [w] = quote_word w"
| "command_line (w # v # ws) = quote_word w @ CHR '' '' # command_line (v # ws)"

lemmas char_consts = NUL_def TAB_def SQUOTE_def DQUOTE_def

lemma c_str_text [simp]: "NUL \<notin> set tx \<Longrightarrow> c_str (tx @ NUL # rest) = tx"
  by (induction tx) (auto simp: c_str_def)

lemma redirection_plain:
  assumes "i < length buf" "plain (buf ! i)"
  shows "process_redirection buf i = Some (i, None)"
  using assms by (auto simp: process_redirection_def get_def plain_def)

lemma arg_char:
  assumes "NUL \<notin> set tx" "i + 1 < length tx" "plain (tx ! i)" "\<not> is_delim (tx ! i) delim" "length arg < MAX_ARG_LEN"
  shows "arg_loop pid es (tx @ NUL # rest) i arg delim argv rs
    = arg_loop pid es (tx @ NUL # rest) (i + 1) (arg @ [tx ! i]) delim argv rs"
proof -
  have b: "(tx @ NUL # rest) ! i = tx ! i" using assms(2) by (simp add: nth_append)
  have p: "process_redirection (tx @ NUL # rest) i = Some (i, None)"
    using redirection_plain[of i "tx @ NUL # rest"] assms(2,3) b by simp
  show ?thesis
    using assms by (subst arg_loop.simps) (auto simp: b p plain_def Let_def)
qed

lemma arg_run:
  assumes "NUL \<notin> set (pre @ w @ suf)" "suf \<noteq> []" "list_all plain w" "list_all (\<lambda>c. \<not> is_delim c delim) w"
    "length arg + length w \<le> MAX_ARG_LEN"
  shows "arg_loop pid es (pre @ w @ suf @ NUL # rest) (length pre) arg delim argv rs
    = arg_loop pid es (pre @ w @ suf @ NUL # rest) (length pre + length w) (arg @ w) delim argv rs"
  using assms
proof (induction w arbitrary: pre arg)
  case (Cons c w)
  have "arg_loop pid es ((pre @ (c # w) @ suf) @ NUL # rest) (length pre) arg delim argv rs
    = arg_loop pid es ((pre @ (c # w) @ suf) @ NUL # rest) (length pre + 1) (arg @ [c]) delim argv rs"
    using Cons.prems arg_char[of "pre @ (c # w) @ suf" "length pre" delim arg pid es rest argv rs]
    by (cases suf) (auto simp: nth_append)
  moreover have "arg_loop pid es ((pre @ [c]) @ w @ suf @ NUL # rest) (length (pre @ [c])) (arg @ [c]) delim argv rs
    = arg_loop pid es ((pre @ [c]) @ w @ suf @ NUL # rest) (length (pre @ [c]) + length w) ((arg @ [c]) @ w) delim argv rs"
    using Cons.prems by (intro Cons.IH) auto
  ultimately show ?case by simp
qed simp

lemma skip_no_blank:
  assumes "i + 1 < length buf" "\<not> blank (buf ! (i + 1))"
  shows "skip_delim buf i = Some (i + 1)"
  using assms by (subst skip_delim.simps) (auto simp: is_delim_def)

lemma skip_one_blank:
  assumes "i + 2 < length buf" "buf ! (i + 1) = CHR '' ''" "\<not> blank (buf ! (i + 2))"
  shows "skip_delim buf i = Some (i + 2)"
  using assms skip_no_blank[of "i + 1" buf] by (subst skip_delim.simps) (auto simp: is_delim_def)

lemma arg_end:
  assumes "NUL \<notin> set tx" "i < length tx" "is_delim (tx ! i) delim" "skip_delim (tx @ NUL # rest) i = Some k"
    "length arg < MAX_ARG_LEN" "length argv < MAX_ARGC"
  shows "arg_loop pid es (tx @ NUL # rest) i arg delim argv rs
    = arg_loop pid es (tx @ NUL # rest) k [] (if delim = SQUOTE \<or> delim = DQUOTE then CHR '' '' else delim) (argv @ [arg]) rs"
proof -
  have b: "(tx @ NUL # rest) ! i = tx ! i" using assms(2) by (simp add: nth_append)
  show ?thesis using assms by (subst arg_loop.simps) (auto simp: b push_arg_def Let_def)
qed

lemma arg_last:
  assumes "NUL \<notin> set tx" "i + 1 = length tx" "\<not> blank (tx ! i)"
    "length arg + 1 < MAX_ARG_LEN" "length argv < MAX_ARGC"
  shows "arg_loop pid es (tx @ NUL # rest) i arg (CHR '' '') argv rs = Some (argv @ [arg @ [tx ! i]], rs)"
proof -
  have b: "(tx @ NUL # rest) ! i = tx ! i" using assms(2) by (simp add: nth_append)
  show ?thesis using assms by (subst arg_loop.simps) (auto simp: b push_arg_def Let_def is_delim_def)
qed

lemma arg_quote:
  assumes "NUL \<notin> set tx" "i + 1 < length tx" "tx ! i = SQUOTE"
  shows "arg_loop pid es (tx @ NUL # rest) i arg (CHR '' '') argv rs
    = arg_loop pid es (tx @ NUL # rest) (i + 1) arg SQUOTE argv rs"
proof -
  have b: "(tx @ NUL # rest) ! i = SQUOTE" using assms(2,3) by (simp add: nth_append)
  have d: "\<not> is_delim SQUOTE (CHR '' '')" by (simp add: is_delim_def char_consts)
  have k: "i < length tx" "i \<noteq> length tx - 1" using assms(2) by linarith+
  show ?thesis using assms(1) k by (subst arg_loop.simps) (simp add: b d)
qed

lemma arg_done: "NUL \<notin> set tx \<Longrightarrow> arg_loop pid es (tx @ NUL # rest) (length tx) arg delim argv rs = Some (argv, rs)"
  by (subst arg_loop.simps) simp

definition word_ok :: "string \<Rightarrow> bool" where
  "word_ok w \<longleftrightarrow> list_all plain w \<and> length w < MAX_ARG_LEN"

lemma NUL_neq [simp]: "NUL \<noteq> SQUOTE" "SQUOTE \<noteq> NUL" "NUL \<noteq> CHR '' ''" "CHR '' '' \<noteq> NUL" "NUL \<noteq> TAB"
    "SQUOTE \<noteq> CHR '' ''" "SQUOTE \<noteq> TAB"
  by (simp_all add: char_consts)

lemma plain_no_NUL: "list_all plain w \<Longrightarrow> NUL \<notin> set w"
  by (auto simp: list_all_iff plain_def)

lemma plain_no_quote: "list_all plain w \<Longrightarrow> list_all (\<lambda>c. \<not> is_delim c SQUOTE) w"
  by (auto simp: list_all_iff plain_def is_delim_def)

lemma unquoted_no_blank: "\<not> list_ex blank w \<Longrightarrow> list_all (\<lambda>c. \<not> is_delim c (CHR '' '')) w"
  by (auto simp: list_all_iff list_ex_iff is_delim_def)

lemma quote_word_no_NUL: "word_ok w \<Longrightarrow> NUL \<notin> set (quote_word w)"
  by (auto simp: word_ok_def quote_word_def dest: plain_no_NUL)

text \<open>A quoted word up to its closing quote.\<close>

lemma quoted_run:
  assumes "NUL \<notin> set (pre @ (SQUOTE # w @ [SQUOTE]) @ tail)" "word_ok w"
  shows "arg_loop pid es ((pre @ (SQUOTE # w @ [SQUOTE]) @ tail) @ NUL # rest) (length pre) [] (CHR '' '') argv rs
    = arg_loop pid es ((pre @ (SQUOTE # w @ [SQUOTE]) @ tail) @ NUL # rest) (length pre + 1 + length w) w SQUOTE argv rs"
proof -
  have "arg_loop pid es ((pre @ (SQUOTE # w @ [SQUOTE]) @ tail) @ NUL # rest) (length pre) [] (CHR '' '') argv rs
    = arg_loop pid es ((pre @ (SQUOTE # w @ [SQUOTE]) @ tail) @ NUL # rest) (length pre + 1) [] SQUOTE argv rs"
    using assms by (intro arg_quote) (auto simp: nth_append)
  also have "\<dots> = arg_loop pid es ((pre @ [SQUOTE]) @ w @ (SQUOTE # tail) @ NUL # rest) (length (pre @ [SQUOTE])) [] SQUOTE argv rs"
    by simp
  also have "\<dots> = arg_loop pid es ((pre @ [SQUOTE]) @ w @ (SQUOTE # tail) @ NUL # rest) (length (pre @ [SQUOTE]) + length w) ([] @ w) SQUOTE argv rs"
    using assms by (intro arg_run) (auto simp: word_ok_def intro: plain_no_quote)
  finally show ?thesis by simp
qed

lemma word_end:
  assumes "NUL \<notin> set pre" "word_ok w" "length argv < MAX_ARGC"
  shows "arg_loop pid es ((pre @ quote_word w) @ NUL # rest) (length pre) [] (CHR '' '') argv rs = Some (argv @ [w], rs)"
proof (cases "w = [] \<or> list_ex blank w")
  case True
  let ?t = "pre @ (SQUOTE # w @ [SQUOTE]) @ []"
  have n: "NUL \<notin> set ?t" using assms by (auto simp: word_ok_def dest: plain_no_NUL)
  have s: "skip_delim (?t @ NUL # rest) (length pre + 1 + length w) = Some (length ?t)"
    using skip_no_blank[of "length pre + 1 + length w" "?t @ NUL # rest"] by (simp add: nth_append)
  have "arg_loop pid es (?t @ NUL # rest) (length pre) [] (CHR '' '') argv rs
    = arg_loop pid es (?t @ NUL # rest) (length pre + 1 + length w) w SQUOTE argv rs"
    using n assms(2) by (rule quoted_run)
  also have "\<dots> = arg_loop pid es (?t @ NUL # rest) (length ?t) [] (if SQUOTE = SQUOTE \<or> SQUOTE = DQUOTE then CHR '' '' else SQUOTE) (argv @ [w]) rs"
    using n s assms by (intro arg_end) (auto simp: word_ok_def is_delim_def nth_append)
  also have "\<dots> = Some (argv @ [w], rs)" using n by (rule arg_done)
  finally show ?thesis using True by (simp add: quote_word_def)
next
  case False
  then obtain u c where w: "w = u @ [c]" by (cases w rule: rev_cases) auto
  have n: "NUL \<notin> set (pre @ u @ [c])" using assms w plain_no_NUL[of w] by (simp add: word_ok_def)
  have "arg_loop pid es (pre @ u @ [c] @ NUL # rest) (length pre) [] (CHR '' '') argv rs
    = arg_loop pid es (pre @ u @ [c] @ NUL # rest) (length pre + length u) ([] @ u) (CHR '' '') argv rs"
    using n assms False w by (intro arg_run) (auto simp: word_ok_def intro!: unquoted_no_blank)
  also have "\<dots> = Some (argv @ [u @ [c]], rs)"
    using arg_last[of "pre @ u @ [c]" "length pre + length u" u argv pid es rest rs] n assms False w
    by (simp add: nth_append word_ok_def)
  finally show ?thesis using False w by (simp add: quote_word_def)
qed

lemma word_mid:
  assumes "NUL \<notin> set (pre @ quote_word w @ CHR '' '' # x # suf)" "word_ok w" "\<not> blank x" "length argv < MAX_ARGC"
  shows "arg_loop pid es ((pre @ quote_word w @ CHR '' '' # x # suf) @ NUL # rest) (length pre) [] (CHR '' '') argv rs
    = arg_loop pid es ((pre @ quote_word w @ CHR '' '' # x # suf) @ NUL # rest) (length (pre @ quote_word w @ '' '')) [] (CHR '' '') (argv @ [w]) rs"
proof (cases "w = [] \<or> list_ex blank w")
  case True
  let ?t = "pre @ (SQUOTE # w @ [SQUOTE]) @ CHR '' '' # x # suf"
  have q: "quote_word w = SQUOTE # w @ [SQUOTE]" using True by (simp add: quote_word_def)
  have n: "NUL \<notin> set ?t" using assms q by simp
  have s: "skip_delim (?t @ NUL # rest) (length pre + 1 + length w) = Some (length pre + 1 + length w + 2)"
    using assms(3) by (intro skip_one_blank) (simp_all add: nth_append)
  have "arg_loop pid es (?t @ NUL # rest) (length pre) [] (CHR '' '') argv rs
    = arg_loop pid es (?t @ NUL # rest) (length pre + 1 + length w) w SQUOTE argv rs"
    using n assms(2) by (rule quoted_run)
  also have "\<dots> = arg_loop pid es (?t @ NUL # rest) (length pre + 1 + length w + 2) [] (if SQUOTE = SQUOTE \<or> SQUOTE = DQUOTE then CHR '' '' else SQUOTE) (argv @ [w]) rs"
    using n s assms by (intro arg_end) (auto simp: word_ok_def is_delim_def nth_append)
  finally show ?thesis using q by simp
next
  case False
  let ?t = "pre @ w @ CHR '' '' # x # suf"
  have q: "quote_word w = w" using False by (simp add: quote_word_def)
  have n: "NUL \<notin> set ?t" using assms q by simp
  have s: "skip_delim (?t @ NUL # rest) (length pre + length w) = Some (length pre + length w + 1)"
    using assms(3) by (intro skip_no_blank) (simp_all add: nth_append)
  have "arg_loop pid es (pre @ w @ (CHR '' '' # x # suf) @ NUL # rest) (length pre) [] (CHR '' '') argv rs
    = arg_loop pid es (pre @ w @ (CHR '' '' # x # suf) @ NUL # rest) (length pre + length w) ([] @ w) (CHR '' '') argv rs"
    using n assms False by (intro arg_run) (auto simp: word_ok_def intro!: unquoted_no_blank)
  also have "\<dots> = arg_loop pid es (?t @ NUL # rest) (length pre + length w) w (CHR '' '') argv rs" by simp
  also have "\<dots> = arg_loop pid es (?t @ NUL # rest) (length pre + length w + 1) []
     (if CHR '' '' = SQUOTE \<or> CHR '' '' = DQUOTE then CHR '' '' else CHR '' '') (argv @ [w]) rs"
    using n s assms by (intro arg_end) (auto simp: word_ok_def is_delim_def nth_append)
  finally show ?thesis using q by simp
qed

lemma quote_word_head: "\<exists>x xs. quote_word w = x # xs \<and> \<not> blank x"
  by (cases w) (auto simp: quote_word_def)

lemma command_line_head: "\<exists>x xs. command_line (w # ws) = x # xs \<and> \<not> blank x"
  using quote_word_head[of w] by (cases ws) auto

lemma command_line_no_NUL: "list_all word_ok ws \<Longrightarrow> NUL \<notin> set (command_line ws)"
  by (induction ws rule: command_line.induct) (auto simp: quote_word_no_NUL)

lemma arg_loop_command_line:
  assumes "NUL \<notin> set pre" "list_all word_ok ws" "length argv + length ws \<le> MAX_ARGC"
  shows "arg_loop pid es ((pre @ command_line ws) @ NUL # rest) (length pre) [] (CHR '' '') argv rs = Some (argv @ ws, rs)"
  using assms
proof (induction ws arbitrary: pre argv rule: command_line.induct)
  case 1
  then show ?case using arg_done[of pre] by simp
next
  case (2 w)
  then show ?case using word_end[of pre w argv] by simp
next
  case (3 w v ws)
  obtain x xs where h: "command_line (v # ws) = x # xs" "\<not> blank x" using command_line_head by blast
  have n: "NUL \<notin> set (pre @ quote_word w @ CHR '' '' # x # xs)"
    using "3.prems" quote_word_no_NUL[of w] command_line_no_NUL[of "v # ws"] h(1) by simp
  have "arg_loop pid es (((pre @ quote_word w @ '' '') @ command_line (v # ws)) @ NUL # rest) (length (pre @ quote_word w @ '' '')) []
      (CHR '' '') (argv @ [w]) rs = Some ((argv @ [w]) @ v # ws, rs)"
    using "3.prems" n by (intro "3.IH") auto
  then show ?case
    using word_mid[OF n _ h(2), of argv pid es rest rs] "3.prems" h(1) by simp
qed

lemma takeWhile_blank_command_line: "takeWhile blank (command_line ws) = []"
proof (cases ws)
  case (Cons w ws')
  obtain x xs where "command_line (w # ws') = x # xs" "\<not> blank x" using command_line_head by blast
  then show ?thesis using Cons by simp
qed simp



section \<open>Reading a line\<close>

lemma trim_loop_spaces:
  assumes "w = u @ [d, c]" "c \<noteq> CHR '' ''" "d \<noteq> TAB"
  shows "trim_loop (int (length w + k)) (w @ replicate k (CHR '' '') @ NUL # r) = Some (w @ replicate k NUL @ NUL # r)"
proof (induction k arbitrary: r)
  case 0
  have "nat (1 + int (length u)) = Suc (length u)" by simp
  then show ?case using assms by (subst trim_loop.simps) (simp add: get_def nth_append)
next
  case (Suc k)
  let ?b = "w @ replicate (Suc k) (CHR '' '') @ NUL # r"
  have i: "nat (int (length w + Suc k) - 1) = length w + k" by simp
  have g: "get ?b (int (length w + Suc k) - 1) = Some (CHR '' '')"
    unfolding get_def i by (simp add: nth_append replicate_append_same[symmetric])
  have b: "?b = w @ replicate k (CHR '' '') @ CHR '' '' # NUL # r"
    by (simp add: replicate_app_Cons_same)
  have p: "put ?b (int (length w + Suc k) - 1) NUL = Some (w @ replicate k (CHR '' '') @ NUL # NUL # r)"
    unfolding put_def i unfolding b by (simp add: list_update_append)
  have "trim_loop (int (length w + Suc k)) ?b = trim_loop (int (length w + k)) (w @ replicate k (CHR '' '') @ NUL # NUL # r)"
    using g p by (subst trim_loop.simps) simp
  also have "\<dots> = Some (w @ replicate k NUL @ NUL # NUL # r)" by (rule Suc.IH)
  finally show ?case by (simp add: replicate_app_Cons_same)
qed

lemma fgets_line_text:
  assumes "NEWLINE \<notin> set xs" "length xs < n"
  shows "fgets_line n (xs @ NEWLINE # inp) = xs @ [NEWLINE]"
  using assms
proof (induction xs arbitrary: n)
  case Nil
  then show ?case by (cases n) simp_all
next
  case (Cons x xs)
  then show ?case by (cases n) auto
qed

lemma get_cmd_line_text:
  assumes "NUL \<notin> set xs" "NEWLINE \<notin> set xs" "length xs + 1 < MAX_CMDLINE_LEN" "\<not> list_all blank xs"
  shows "get_cmd_line (xs @ NEWLINE # inp) buf =
    map_option (\<lambda>b. (True, inp, b)) (trim_loop (int (length xs)) (xs @ NUL # NUL # drop (length xs + 2) buf))"
proof -
  have f: "fgets_line (MAX_CMDLINE_LEN - 1) (xs @ NEWLINE # inp) = xs @ [NEWLINE]"
    using assms by (intro fgets_line_text) auto
  have "NUL \<noteq> NEWLINE" by (simp add: NUL_def NEWLINE_def)
  then have c: "c_str (xs @ NEWLINE # NUL # r) = xs @ [NEWLINE]" for r
    using assms c_str_text[of "xs @ [NEWLINE]" r] by simp
  have p: "put (xs @ NEWLINE # r) (int (length xs)) NUL = Some (xs @ NUL # r)" for r
    by (simp add: put_def list_update_append)
  show ?thesis
    unfolding get_cmd_line_def Let_def f using assms(4) by (simp add: c p map_option_case split: option.splits)
qed

text \<open>
  A line of at least two characters that does not end in a blank and has no tab before its last
  character, followed by any number of spaces, is read without them, and the rest of the input stays.
\<close>

theorem get_cmd_line_trims:
  assumes "w = u @ [d, c]" "\<not> blank c" "d \<noteq> TAB" "NUL \<notin> set w" "NEWLINE \<notin> set w" "length w + k + 1 < MAX_CMDLINE_LEN"
  shows "\<exists>b. get_cmd_line (w @ replicate k (CHR '' '') @ NEWLINE # inp) buf = Some (True, inp, b) \<and> c_str b = w"
proof -
  let ?x = "w @ replicate k (CHR '' '')"
  let ?r = "NUL # drop (length ?x + 2) buf"
  have "get_cmd_line (?x @ NEWLINE # inp) buf = map_option (\<lambda>b. (True, inp, b)) (trim_loop (int (length ?x)) (?x @ NUL # ?r))"
    using assms by (intro get_cmd_line_text) (auto simp: NEWLINE_def)
  also have "trim_loop (int (length ?x)) (?x @ NUL # ?r) = Some (w @ replicate k NUL @ NUL # ?r)"
    using trim_loop_spaces[OF assms(1) _ assms(3), of k ?r] assms(2) by simp
  finally have g: "get_cmd_line (w @ replicate k (CHR '' '') @ NEWLINE # inp) buf = Some (True, inp, w @ replicate k NUL @ NUL # ?r)"
    by simp
  have "c_str (w @ replicate k NUL @ NUL # ?r) = w"
  proof (cases k)
    case 0
    then show ?thesis using assms(4) by simp
  next
    case (Suc m)
    then show ?thesis using c_str_text[OF assms(4), of "replicate m NUL @ NUL # ?r"] by simp
  qed
  with g show ?thesis by blast
qed

theorem get_cmd_line_trims_witness:
  "\<exists>b. get_cmd_line (''ls'' @ replicate 3 (CHR '' '') @ NEWLINE # ''pwd'') [] = Some (True, ''pwd'', b) \<and> c_str b = ''ls''"
  using get_cmd_line_trims[of "''ls''" "[]" "CHR ''l''" "CHR ''s''" 3 "''pwd''" "[]"]
  by (simp add: NUL_def TAB_def NEWLINE_def MAX_CMDLINE_LEN_def)

text \<open>
  The condition of the trimming loop decrements its index twice for a character that is not a space.
  A command of one letter makes it read the character before the buffer, and a tab before the last
  letter makes it cut that letter off.
\<close>

theorem one_letter_command_reads_before_buffer:
  assumes "c \<notin> {NUL, NEWLINE, TAB, CHR '' ''}"
  shows "get_cmd_line (c # NEWLINE # inp) buf = None"
proof -
  have "get_cmd_line ([c] @ NEWLINE # inp) buf =
      map_option (\<lambda>b. (True, inp, b)) (trim_loop (int (length [c])) ([c] @ NUL # NUL # drop (length [c] + 2) buf))"
    using assms by (intro get_cmd_line_text) (auto simp: MAX_CMDLINE_LEN_def)
  moreover have "trim_loop 1 (c # NUL # NUL # r) = None" for r
    using assms by (subst trim_loop.simps) (simp add: get_def)
  ultimately show ?thesis by simp
qed

theorem tab_before_last_letter_loses_it:
  assumes "w = u @ [d, c]" "\<not> blank c" "d \<noteq> TAB" "NUL \<notin> set w" "NEWLINE \<notin> set w" "length w + 3 < MAX_CMDLINE_LEN"
    "x \<notin> {NUL, NEWLINE, TAB, CHR '' ''}"
  shows "\<exists>b. get_cmd_line (w @ TAB # x # NEWLINE # inp) buf = Some (True, inp, b) \<and> c_str b = w"
proof -
  let ?x = "w @ [TAB, x]" and ?n = "length w"
  have "get_cmd_line (?x @ NEWLINE # inp) buf
      = map_option (\<lambda>b. (True, inp, b)) (trim_loop (int (length ?x)) (?x @ NUL # NUL # drop (length ?x + 2) buf))"
    using assms by (intro get_cmd_line_text) (auto simp: NEWLINE_def TAB_def NUL_def)
  moreover have "trim_loop (int (length ?x)) (?x @ NUL # r) = Some (w @ NUL # x # NUL # r)" for r
  proof -
    have i: "nat (1 + int ?n) = Suc ?n" by simp
    have "trim_loop (int (length ?x)) (?x @ NUL # r) = trim_loop (int ?n) (w @ NUL # x # NUL # r)"
      using assms(7) by (subst trim_loop.simps) (simp add: get_def put_def nth_append list_update_append i)
    also have "\<dots> = Some (w @ NUL # x # NUL # r)"
      using trim_loop_spaces[OF assms(1) _ assms(3), of 0 "x # NUL # r"] assms(2) by simp
    finally show ?thesis .
  qed
  ultimately show ?thesis using c_str_text[OF assms(4)] by simp
qed

end
