(* ===== verification/Shell_Jobs.thy ===== *)
theory Shell_Jobs
  imports Shell_Parse
begin

text \<open>
  The job table of \<open>HW2.3-Shell/myshell.c\<close>.  Jobs live in a store and are linked from \<open>head\<close>; \<open>current\<close>
  points into the store and may point to a job that is no longer linked.  Dereferencing a null
  pointer is \<open>None\<close>.  What the kernel reports of the children, the process ids it hands out and the
  results of \<open>kill\<close> are arguments.
\<close>

section \<open>State\<close>

text \<open>The status of a process: running (0), stopped (1), terminated (2).\<close>

record process =
  ps_pid :: int
  ps_status :: nat

record job =
  jb_list :: "process list"
  jb_pgid :: int
  jb_cmd :: string

record shell =
  sh_jobs :: "nat \<Rightarrow> job"
  sh_head :: "nat list"
  sh_current :: "nat option"
  sh_fresh :: nat

text \<open>What \<open>waitpid\<close> reports, as the macros of \<open>sys/wait.h\<close> tell it apart.\<close>

datatype wstatus = Exited | Signaled | Stopped | Continued

section \<open>Process status\<close>

definition change_status :: "wstatus \<Rightarrow> process \<Rightarrow> process" where
  "change_status st p =
     p\<lparr>ps_status := (case st of Exited \<Rightarrow> 2 | Signaled \<Rightarrow> 2 | Stopped \<Rightarrow> 1 | Continued \<Rightarrow> 0)\<rparr>"

definition all_status :: "nat \<Rightarrow> process list \<Rightarrow> bool" where
  "all_status n ps \<longleftrightarrow> list_all (\<lambda>p. ps_status p = n) ps"

definition set_list :: "nat \<Rightarrow> process list \<Rightarrow> shell \<Rightarrow> shell" where
  "set_list j ps s = s\<lparr>sh_jobs := (sh_jobs s)(j := (sh_jobs s j)\<lparr>jb_list := ps\<rparr>)\<rparr>"

text \<open>
  When no job has the process, \<open>cur\<close> is null and \<open>terminated\<close> is still set: each of the branches then
  dereferences a null pointer.
\<close>

definition update_process_status :: "int \<Rightarrow> wstatus \<Rightarrow> shell \<Rightarrow> shell option" where
  "update_process_status pid st s =
     (case find (\<lambda>j. list_ex (\<lambda>p. ps_pid p = pid) (jb_list (sh_jobs s j))) (sh_head s) of
        None \<Rightarrow> None
      | Some cur \<Rightarrow>
          let ps = map (\<lambda>p. if ps_pid p = pid then change_status st p else p) (jb_list (sh_jobs s cur));
              s1 = set_list cur ps s
          in Some (if all_status 2 ps
                   then s1\<lparr>sh_current := (if sh_current s = Some cur then next_of cur (sh_head s) else sh_current s),
                          sh_head := remove1 cur (sh_head s)\<rparr>
                   else if all_status 1 ps then s1\<lparr>sh_current := Some cur\<rparr>
                   else s1))"

text \<open>\<open>reap\<close>: the children \<open>waitpid\<close> reports without blocking, one after the other.\<close>

fun reap :: "(int \<times> wstatus) list \<Rightarrow> shell \<Rightarrow> shell option" where
  "reap [] s = Some s"
| "reap ((pid, st) # evs) s = Option.bind (update_process_status pid st s) (reap evs)"

section \<open>Waiting in the foreground\<close>

text \<open>
  \<open>waitpid\<close> on each process in turn.  When it fails, the variable \<open>status\<close> keeps its value, which is
  undetermined before the first success.
\<close>

fun wait_procs :: "(int \<Rightarrow> wstatus option) \<Rightarrow> wstatus \<Rightarrow> process list \<Rightarrow> process list" where
  "wait_procs w st [] = []"
| "wait_procs w st (p # ps) =
     (let st1 = (case w (ps_pid p) of None \<Rightarrow> st | Some x \<Rightarrow> x) in change_status st1 p # wait_procs w st1 ps)"

text \<open>When every process has terminated, the head of the list is unlinked, whichever job it is.\<close>

definition wait_job :: "(int \<Rightarrow> wstatus option) \<Rightarrow> wstatus \<Rightarrow> nat \<Rightarrow> shell \<Rightarrow> shell option" where
  "wait_job w junk j s =
     (let ps = wait_procs w junk (jb_list (sh_jobs s j));
          s1 = set_list j ps s
      in if all_status 2 ps
         then (case sh_head s of [] \<Rightarrow> None | h # hs \<Rightarrow> Some (s1\<lparr>sh_head := hs\<rparr>))
         else if all_status 1 ps then Some (s1\<lparr>sh_current := Some j\<rparr>)
         else Some s1)"

section \<open>Resuming\<close>

definition get_job :: "int \<Rightarrow> shell \<Rightarrow> nat option" where
  "get_job pgid s = find (\<lambda>j. jb_pgid (sh_jobs s j) = pgid) (sh_head s)"

text \<open>The comment says \<open>as running\<close>; the code stores 1.\<close>

definition mark_job_running :: "nat \<Rightarrow> shell \<Rightarrow> shell" where
  "mark_job_running j s = set_list j (map (\<lambda>p. p\<lparr>ps_status := 1\<rparr>) (jb_list (sh_jobs s j))) s"

text \<open>\<open>WIFSTOPPED\<close> applied to the status of the table: a test of its low byte for 127.\<close>

definition is_stopped :: "nat \<Rightarrow> shell \<Rightarrow> bool" where
  "is_stopped j s \<longleftrightarrow> list_all (\<lambda>p. ps_status p mod 256 = 127) (jb_list (sh_jobs s j))"

text \<open>
  \<open>args\<close> are the arguments after the command name; with more than one, \<open>pgid\<close> is never set and \<open>wild\<close>
  is what it happens to hold.
\<close>

definition resume ::
  "(int \<Rightarrow> bool) \<Rightarrow> (int \<Rightarrow> wstatus option) \<Rightarrow> wstatus \<Rightarrow> int \<Rightarrow> string list \<Rightarrow> bool \<Rightarrow> shell \<Rightarrow> shell option" where
  "resume kill_ok w junk wild args fg s =
     (let pgid = (case args of
            [] \<Rightarrow> (case sh_current s of
                     Some j \<Rightarrow> Some (jb_pgid (sh_jobs s j))
                   | None \<Rightarrow> (case sh_head s of [] \<Rightarrow> None | h # hs \<Rightarrow> Some (jb_pgid (sh_jobs s h))))
          | [a] \<Rightarrow> Some (atoi a)
          | _ \<Rightarrow> Some wild)
      in case pgid of
           None \<Rightarrow> Some s
         | Some g \<Rightarrow>
             if \<not> kill_ok g then Some s
             else (case get_job g s of
                 None \<Rightarrow> None
               | Some j \<Rightarrow>
                   let s1 = mark_job_running j s
                   in if fg then wait_job w junk j s1 else Some s1))"

definition print_jobs :: "shell \<Rightarrow> (nat \<times> int \<times> string) list" where
  "print_jobs s =
     zip [1..<length (sh_head s) + 1] (map (\<lambda>j. (jb_pgid (sh_jobs s j), jb_cmd (sh_jobs s j))) (sh_head s))"

section \<open>Starting a job\<close>

text \<open>
  The bookkeeping of the parent: the first child makes the job and its group, the others are put in
  front of the list of processes of \<open>head\<close>, which is this job.
\<close>

definition launch :: "string \<Rightarrow> int list \<Rightarrow> shell \<Rightarrow> shell" where
  "launch cmd pids s =
     s\<lparr>sh_jobs := (sh_jobs s)(sh_fresh s :=
           \<lparr>jb_list = rev (map (\<lambda>p. \<lparr>ps_pid = p, ps_status = 0\<rparr>) pids), jb_pgid = hd pids, jb_cmd = cmd\<rparr>),
       sh_head := sh_fresh s # sh_head s,
       sh_fresh := sh_fresh s + 1\<rparr>"

text \<open>
  The descriptors of the parent.  A pipe is made for every command, the last one too; its writing end
  is closed, its reading end is kept in \<open>in\<close> and never closed.
\<close>

definition lowest_free :: "nat list \<Rightarrow> nat" where
  "lowest_free fds = hd (filter (\<lambda>i. i \<notin> set fds) [0..<length fds + 1])"

fun pipeline_fds :: "nat \<Rightarrow> nat list \<Rightarrow> nat list" where
  "pipeline_fds 0 fds = fds"
| "pipeline_fds (Suc n) fds =
     (let r = lowest_free fds;
          w = lowest_free (r # fds)
      in pipeline_fds n (removeAll w (w # r # fds)))"

section \<open>A command line\<close>

record shell_env =
  se_reap1 :: "(int \<times> wstatus) list"
  se_reap2 :: "(int \<times> wstatus) list"
  se_pids :: "int list"
  se_wait :: "int \<Rightarrow> wstatus option"
  se_junk :: wstatus
  se_kill :: "int \<Rightarrow> bool"
  se_wild :: int

datatype shell_out = Continue | Leave | Listing "(nat \<times> int \<times> string) list" | Chdir "string list"

text \<open>From the second \<open>reap\<close> on: fork the commands, and wait for them in the foreground.\<close>

definition run_job :: "shell_env \<Rightarrow> string \<Rightarrow> bool \<Rightarrow> nat \<Rightarrow> shell \<Rightarrow> shell option" where
  "run_job e cmd async n s =
     Option.bind (reap (se_reap2 e) s) (\<lambda>s1.
       let s2 = launch cmd (take n (se_pids e)) s1
       in if async then Some s2 else wait_job (se_wait e) (se_junk e) (sh_fresh s1) s2)"

definition exec_job :: "shell_env \<Rightarrow> string \<Rightarrow> shell \<Rightarrow> (shell_out \<times> shell) option" where
  "exec_job e cmd s =
     do {
       (async, cmds) \<leftarrow> split_job cmd;
       if length cmds = 1 then
         do {
           s1 \<leftarrow> reap (se_reap1 e) s;
           k \<leftarrow> exec_internal_cmd (hd cmds);
           (case k of
              Exit \<Rightarrow> Some (Leave, s1)
            | Jobs \<Rightarrow> Some (Listing (print_jobs s1), s1)
            | Cd args \<Rightarrow> Some (Chdir args, s1)
            | Bg args \<Rightarrow> map_option (Pair Continue) (resume (se_kill e) (se_wait e) (se_junk e) (se_wild e) args False s1)
            | Fg args \<Rightarrow> map_option (Pair Continue) (resume (se_kill e) (se_wait e) (se_junk e) (se_wild e) args True s1)
            | External \<Rightarrow> map_option (Pair Continue) (run_job e cmd async 1 s1))
         }
       else map_option (Pair Continue) (run_job e cmd async (length cmds) s)
     }"

section \<open>Prompt, directory and main loop\<close>

text \<open>The prompt shows the directory relative to the home directory when its name starts with that one's.\<close>

definition show_prompt :: "string \<Rightarrow> string \<Rightarrow> string" where
  "show_prompt home_dir cur_dir =
     ''['' @ (if home_dir = cur_dir then ''~''
              else if take (length home_dir) cur_dir = home_dir then drop (length home_dir + 1) cur_dir
              else cur_dir) @ ''] myshell> ''"

definition cd_message :: "errno \<Rightarrow> string option" where
  "cd_message e = (case e of
     EACCES \<Rightarrow> Some ''Permission not allowed''
   | EFAULT \<Rightarrow> Some ''Path points outside your accessible address space''
   | EIO \<Rightarrow> Some ''An I/O error occurred''
   | ELOOP \<Rightarrow> Some ''Too many symbolic links were encountered in resolving path''
   | ENAMETOOLONG \<Rightarrow> Some ''path is too long''
   | ENOENT \<Rightarrow> Some ''The directory does not exist''
   | ENOMEM \<Rightarrow> Some ''Insufficient kernel memory was available''
   | ENOTDIR \<Rightarrow> Some ''Target is not a directory''
   | _ \<Rightarrow> None)"

text \<open>\<open>chdir\<close> answers an error or the new directory; \<open>args\<close> are the arguments after \<open>cd\<close>.\<close>

definition cd :: "(string \<Rightarrow> string \<Rightarrow> errno + string) \<Rightarrow> string \<Rightarrow> string list \<Rightarrow> string \<Rightarrow> string \<times> string option" where
  "cd chdir home_dir args dir = (case args of
     [] \<Rightarrow> (case chdir dir home_dir of Inl e \<Rightarrow> (dir, None) | Inr d \<Rightarrow> (d, None))
   | [a] \<Rightarrow> (case chdir dir a of Inl e \<Rightarrow> (dir, cd_message e) | Inr d \<Rightarrow> (d, None))
   | a # b # xs \<Rightarrow> (dir, Some (''cd: string not in pwd: '' @ a)))"

text \<open>
  The loop of \<open>main\<close>, one round for each environment: read a line, run it unless it is empty.  The
  end of the input is treated like an empty line, only \<open>exit\<close> ends the loop.
\<close>

fun main_loop :: "shell_env list \<Rightarrow> string \<Rightarrow> string \<Rightarrow> shell \<Rightarrow> (shell_out list \<times> string \<times> shell) option" where
  "main_loop [] input buf s = Some ([], input, s)"
| "main_loop (e # es) input buf s =
     do {
       (some, input1, buf1) \<leftarrow> get_cmd_line input buf;
       if \<not> some then main_loop es input1 buf1 s
       else do {
         (r, s1) \<leftarrow> exec_job e (c_str buf1) s;
         if r = Leave then Some ([Leave], input1, s1)
         else do {
           (rs, input2, s2) \<leftarrow> main_loop es input1 buf1 s1;
           Some (r # rs, input2, s2)
         }
       }
     }"

end
