(* ===== verification/Shell_Table.thy ===== *)
theory Shell_Table
  imports Shell_Jobs
begin

text \<open>
  The job table of \<open>myshell.c\<close> against an abstract table: a list of jobs, each with its group, its
  command and the set of its children that have not finished.  Every report of a child, every job put
  in the background and every job waited for in the foreground does to the pointer structure what it
  should do to the list, as long as jobs are not resumed with \<open>fg\<close>.
\<close>

section \<open>The abstract table\<close>

text \<open>The job a process id is looked up in, and the processes of a job that have not finished.\<close>

definition owner :: "int \<Rightarrow> shell \<Rightarrow> nat option" where
  "owner pid s = find (\<lambda>j. list_ex (\<lambda>p. ps_pid p = pid) (jb_list (sh_jobs s j))) (sh_head s)"

definition live_pids :: "process list \<Rightarrow> int set" where
  "live_pids ps = {ps_pid p |p. p \<in> set ps \<and> ps_status p \<noteq> 2}"

definition entry :: "shell \<Rightarrow> nat \<Rightarrow> int \<times> string \<times> int set" where
  "entry s j = (jb_pgid (sh_jobs s j), jb_cmd (sh_jobs s j), live_pids (jb_list (sh_jobs s j)))"

definition jobs_view :: "shell \<Rightarrow> (int \<times> string \<times> int set) list" where
  "jobs_view s = map (entry s) (sh_head s)"

definition shell_ok :: "shell \<Rightarrow> bool" where
  "shell_ok s \<longleftrightarrow> distinct (sh_head s) \<and> (\<forall>j \<in> set (sh_head s). j < sh_fresh s)
     \<and> (\<forall>j \<in> set (sh_head s). distinct (map ps_pid (jb_list (sh_jobs s j))) \<and> live_pids (jb_list (sh_jobs s j)) \<noteq> {}
          \<and> (\<forall>pid \<in> live_pids (jb_list (sh_jobs s j)). owner pid s = Some j))
     \<and> (\<forall>j. sh_current s = Some j \<longrightarrow> j \<in> set (sh_head s))"

text \<open>The abstract table: a finished child disappears from its job, a job without children from the table.\<close>

definition drop_child :: "int \<Rightarrow> (int \<times> string \<times> int set) list \<Rightarrow> (int \<times> string \<times> int set) list" where
  "drop_child pid v = filter (\<lambda>(g, c, A). A \<noteq> {}) (map (\<lambda>(g, c, A). (g, c, A - {pid})) v)"

definition finished :: "wstatus \<Rightarrow> bool" where
  "finished st \<longleftrightarrow> st = Exited \<or> st = Signaled"

definition report_child :: "int \<Rightarrow> wstatus \<Rightarrow> (int \<times> string \<times> int set) list \<Rightarrow> (int \<times> string \<times> int set) list" where
  "report_child pid st v = (if finished st then drop_child pid v else v)"

definition children :: "(int \<times> string \<times> int set) list \<Rightarrow> int set" where
  "children v = (\<Union>(g, c, A) \<in> set v. A)"

abbreviation report :: "int \<Rightarrow> wstatus \<Rightarrow> process list \<Rightarrow> process list" where
  "report pid st ps \<equiv> map (\<lambda>p. if ps_pid p = pid then change_status st p else p) ps"

lemma change_status_simps [simp]:
  "ps_pid (change_status st p) = ps_pid p"
  "ps_status (change_status st p) = 2 \<longleftrightarrow> finished st"
  by (auto simp: change_status_def finished_def split: wstatus.splits)

lemma report_pid [simp]: "ps_pid (if b then change_status st p else p) = ps_pid p"
  by simp

lemma live_pids_Nil [simp]: "live_pids [] = {}"
  by (simp add: live_pids_def)

lemma live_pids_Cons [simp]:
  "live_pids (p # ps) = (if ps_status p = 2 then live_pids ps else insert (ps_pid p) (live_pids ps))"
  by (auto simp: live_pids_def)

lemma live_sub_pids: "live_pids ps \<subseteq> ps_pid ` set ps"
  by (auto simp: live_pids_def)

lemma live_pids_report:
  assumes "distinct (map ps_pid ps)" "pid \<in> live_pids ps"
  shows "live_pids (report pid st ps) = (if finished st then live_pids ps - {pid} else live_pids ps)"
  using assms
proof (induction ps)
  case (Cons p ps)
  show ?case
  proof (cases "ps_pid p = pid")
    case True
    then have n: "pid \<notin> ps_pid ` set ps" using Cons.prems(1) by auto
    then have "report pid st ps = ps" by (intro map_idI) auto
    then show ?thesis using True n Cons.prems(2) live_sub_pids[of ps] by auto
  next
    case False
    then show ?thesis using Cons by (auto split: if_splits)
  qed
qed simp

lemma live_pids_none: "all_status 2 ps \<longleftrightarrow> live_pids ps = {}"
  by (auto simp: all_status_def live_pids_def list_all_iff)

lemma set_list_simps [simp]:
  "sh_head (set_list j ps s) = sh_head s" "sh_fresh (set_list j ps s) = sh_fresh s"
  "sh_current (set_list j ps s) = sh_current s"
  "sh_jobs (set_list j ps s) i = (if i = j then (sh_jobs s j)\<lparr>jb_list := ps\<rparr> else sh_jobs s i)"
  by (simp_all add: set_list_def)

text \<open>Looking a process up depends on the ids only.\<close>

lemma owner_cong:
  assumes "sh_head t = sh_head s" "\<And>j. j \<in> set (sh_head s) \<Longrightarrow> map ps_pid (jb_list (sh_jobs t j)) = map ps_pid (jb_list (sh_jobs s j))"
  shows "owner pid t = owner pid s"
proof -
  have e: "list_ex (\<lambda>p. ps_pid p = pid) ps \<longleftrightarrow> pid \<in> set (map ps_pid ps)" for ps by (auto simp: list_ex_iff)
  show ?thesis unfolding owner_def assms(1) e using assms(2) by (intro find_cong) auto
qed

lemma find_remove1:
  assumes "find P xs = Some y" "y \<noteq> x"
  shows "find P (remove1 x xs) = Some y"
  using assms by (induction xs) (auto split: if_splits)

lemma find_mem: "find P xs = Some y \<Longrightarrow> y \<in> set xs \<and> P y"
  by (induction xs) (auto split: if_splits)

lemma owner_remove1:
  assumes "owner pid s = Some j" "j \<noteq> i" "sh_head t = remove1 i (sh_head s)" "sh_jobs t = sh_jobs s"
  shows "owner pid t = Some j"
  using assms find_remove1 by (simp add: owner_def)

lemma children_view: "pid \<in> children (jobs_view s) \<longleftrightarrow> (\<exists>j \<in> set (sh_head s). pid \<in> live_pids (jb_list (sh_jobs s j)))"
  by (auto simp: children_def jobs_view_def entry_def)

lemma owner_live:
  assumes "shell_ok s" "j \<in> set (sh_head s)" "pid \<in> live_pids (jb_list (sh_jobs s j))" "i \<in> set (sh_head s)"
    "pid \<in> live_pids (jb_list (sh_jobs s i))"
  shows "i = j"
proof -
  have "owner pid s = Some j" "owner pid s = Some i" using assms unfolding shell_ok_def by blast+
  then show ?thesis by simp
qed

text \<open>The table after a report, before an empty job is unlinked.\<close>

lemma report_view:
  fixes st :: wstatus
  assumes "shell_ok s" "j \<in> set (sh_head s)" "pid \<in> live_pids (jb_list (sh_jobs s j))"
  defines "t \<equiv> set_list j (report pid st (jb_list (sh_jobs s j))) s"
  shows "map (entry t) (sh_head s) = (if finished st then map (\<lambda>(g, c, A). (g, c, A - {pid})) (jobs_view s) else jobs_view s)"
proof -
  have "entry t i = (if finished st then (\<lambda>(g, c, A). (g, c, A - {pid})) (entry s i) else entry s i)" if "i \<in> set (sh_head s)" for i
  proof (cases "i = j")
    case True
    have "distinct (map ps_pid (jb_list (sh_jobs s j)))" using assms(1,2) by (simp add: shell_ok_def)
    then show ?thesis using True live_pids_report[OF _ assms(3)] by (simp add: t_def entry_def)
  next
    case False
    then have "pid \<notin> live_pids (jb_list (sh_jobs s i))" using owner_live[OF assms(1-3) that] by blast
    then show ?thesis using False by (simp add: t_def entry_def)
  qed
  then show ?thesis by (simp add: jobs_view_def)
qed

lemma filter_remove1:
  assumes "distinct xs" "x \<in> set xs" "\<not> P x" "\<And>y. y \<in> set xs \<Longrightarrow> y \<noteq> x \<Longrightarrow> P y"
  shows "filter P xs = remove1 x xs"
  using assms by (induction xs) (auto simp: filter_id_conv)

section \<open>Reports of children\<close>

lemma update_finds:
  assumes "owner pid s = Some j"
  shows "update_process_status pid st s =
    (let ps = report pid st (jb_list (sh_jobs s j)); s1 = set_list j ps s
     in Some (if all_status 2 ps
              then s1\<lparr>sh_current := (if sh_current s = Some j then next_of j (sh_head s) else sh_current s), sh_head := remove1 j (sh_head s)\<rparr>
              else if all_status 1 ps then s1\<lparr>sh_current := Some j\<rparr> else s1))"
  using assms by (simp add: update_process_status_def owner_def)

text \<open>New statuses for the processes of a linked job, one of them still alive, keep the table well formed.\<close>

lemma relist_ok:
  assumes ok: "shell_ok s" and j: "j \<in> set (sh_head s)" and ids: "map ps_pid ps = map ps_pid (jb_list (sh_jobs s j))"
    and sub: "live_pids ps \<subseteq> live_pids (jb_list (sh_jobs s j))" and ne: "live_pids ps \<noteq> {}"
    and c: "\<And>k. c = Some k \<Longrightarrow> k \<in> set (sh_head s)"
  shows "shell_ok ((set_list j ps s)\<lparr>sh_current := c\<rparr>)"
proof -
  let ?t = "(set_list j ps s)\<lparr>sh_current := c\<rparr>"
  have o: "owner q ?t = owner q s" for q using ids by (intro owner_cong) simp_all
  have "\<forall>i \<in> set (sh_head s). distinct (map ps_pid (jb_list (sh_jobs ?t i))) \<and> live_pids (jb_list (sh_jobs ?t i)) \<noteq> {}
      \<and> (\<forall>q \<in> live_pids (jb_list (sh_jobs ?t i)). owner q ?t = Some i)"
  proof
    fix i assume i: "i \<in> set (sh_head s)"
    have s: "distinct (map ps_pid (jb_list (sh_jobs s i)))" "live_pids (jb_list (sh_jobs s i)) \<noteq> {}"
      "\<forall>q \<in> live_pids (jb_list (sh_jobs s i)). owner q s = Some i" using ok i unfolding shell_ok_def by blast+
    show "distinct (map ps_pid (jb_list (sh_jobs ?t i))) \<and> live_pids (jb_list (sh_jobs ?t i)) \<noteq> {}
      \<and> (\<forall>q \<in> live_pids (jb_list (sh_jobs ?t i)). owner q ?t = Some i)"
    proof (cases "i = j")
      case True
      then have "jb_list (sh_jobs ?t i) = ps" by simp
      then show ?thesis using s sub ne ids True unfolding o by auto
    next
      case False
      then have "sh_jobs ?t i = sh_jobs s i" by simp
      then show ?thesis using s unfolding o by simp
    qed
  qed
  then show ?thesis using ok c unfolding shell_ok_def by simp
qed

lemma report_keeps_ok:
  assumes ok: "shell_ok s" and j: "j \<in> set (sh_head s)" and pid: "pid \<in> live_pids (jb_list (sh_jobs s j))"
    and ne: "live_pids (report pid st (jb_list (sh_jobs s j))) \<noteq> {}" and c: "\<And>k. c = Some k \<Longrightarrow> k \<in> set (sh_head s)"
  shows "shell_ok ((set_list j (report pid st (jb_list (sh_jobs s j))) s)\<lparr>sh_current := c\<rparr>)"
proof (rule relist_ok[OF ok j _ _ ne c])
  have "distinct (map ps_pid (jb_list (sh_jobs s j)))" using ok j by (simp add: shell_ok_def)
  then show "live_pids (report pid st (jb_list (sh_jobs s j))) \<subseteq> live_pids (jb_list (sh_jobs s j))"
    using live_pids_report[OF _ pid, of st] by auto
qed (simp_all add: o_def)

text \<open>Unlinking a job whose processes have all finished.\<close>

lemma unlink_ok:
  assumes ok: "shell_ok s" and t: "sh_head t = remove1 j (sh_head s)" "sh_fresh t = sh_fresh s"
    "\<And>i. i \<noteq> j \<Longrightarrow> sh_jobs t i = sh_jobs s i" "map ps_pid (jb_list (sh_jobs t j)) = map ps_pid (jb_list (sh_jobs s j))"
    and c: "\<And>k. sh_current t = Some k \<Longrightarrow> k \<in> set (remove1 j (sh_head s))"
  shows "shell_ok t"
proof -
  have mem: "i \<in> set (sh_head t) \<longleftrightarrow> i \<in> set (sh_head s) \<and> i \<noteq> j" for i
    using ok t(1) by (simp add: shell_ok_def)
  let ?s = "s\<lparr>sh_jobs := sh_jobs t\<rparr>"
  have o: "owner q t = Some i" if "owner q s = Some i" "i \<noteq> j" for q i
  proof -
    have "map ps_pid (jb_list (sh_jobs t k)) = map ps_pid (jb_list (sh_jobs s k))" for k
      using t(3,4) by (cases "k = j") simp_all
    then have "owner q ?s = owner q s" using owner_cong[of ?s s q] by simp
    then show ?thesis using that t(1) owner_remove1[of q ?s i j t] by simp
  qed
  have "\<forall>i \<in> set (sh_head t). distinct (map ps_pid (jb_list (sh_jobs t i))) \<and> live_pids (jb_list (sh_jobs t i)) \<noteq> {}
      \<and> (\<forall>q \<in> live_pids (jb_list (sh_jobs t i)). owner q t = Some i)"
    using ok mem o t(3) unfolding shell_ok_def by metis
  moreover have "distinct (sh_head t)" "\<forall>i \<in> set (sh_head t). i < sh_fresh t"
    using ok mem t(1,2) by (simp_all add: shell_ok_def)
  moreover have "\<forall>k. sh_current t = Some k \<longrightarrow> k \<in> set (sh_head t)" using c t(1) by simp
  ultimately show ?thesis by (simp add: shell_ok_def)
qed

lemma entry_cong: "sh_jobs t i = sh_jobs s i \<Longrightarrow> entry t i = entry s i"
  by (simp add: entry_def)

lemma drop_child_view:
  fixes st :: wstatus
  assumes fin: "finished st" and ok: "shell_ok s" and j: "j \<in> set (sh_head s)" and pid: "pid \<in> live_pids (jb_list (sh_jobs s j))"
  defines "t \<equiv> set_list j (report pid st (jb_list (sh_jobs s j))) s"
  shows "drop_child pid (jobs_view s) = map (entry t) (filter (\<lambda>i. live_pids (jb_list (sh_jobs t i)) \<noteq> {}) (sh_head s))"
proof -
  have "drop_child pid (jobs_view s) = filter (\<lambda>(g, c, A). A \<noteq> {}) (map (entry t) (sh_head s))"
    unfolding t_def drop_child_def by (subst report_view[OF ok j pid]) (simp add: fin)
  also have "\<dots> = map (entry t) (filter (\<lambda>i. live_pids (jb_list (sh_jobs t i)) \<noteq> {}) (sh_head s))"
    by (simp add: filter_map o_def entry_def)
  finally show ?thesis .
qed

section \<open>Starting jobs\<close>

lemma update_refines:
  assumes ok: "shell_ok s" and pid: "pid \<in> children (jobs_view s)"
  shows "\<exists>s'. update_process_status pid st s = Some s' \<and> shell_ok s' \<and> jobs_view s' = report_child pid st (jobs_view s)"
proof -
  obtain j where j: "j \<in> set (sh_head s)" "pid \<in> live_pids (jb_list (sh_jobs s j))" using pid by (auto simp: children_view)
  have ow: "owner pid s = Some j" and d: "distinct (map ps_pid (jb_list (sh_jobs s j)))"
    using ok j by (auto simp: shell_ok_def)
  let ?ps = "report pid st (jb_list (sh_jobs s j))"
  let ?t = "set_list j ?ps s"
  note upd = update_finds[OF ow, of st, unfolded Let_def]
  show ?thesis
  proof (cases "live_pids ?ps = {}")
    case True
    let ?c = "if sh_current s = Some j then next_of j (sh_head s) else sh_current s"
    let ?u = "?t\<lparr>sh_current := ?c, sh_head := remove1 j (sh_head s)\<rparr>"
    have fin: "finished st" using True live_pids_report[OF d j(2), of st] j(2) by (auto split: if_splits)
    have "shell_ok ?u"
    proof (rule unlink_ok[OF ok])
      fix k assume "sh_current ?u = Some k"
      then have "k \<in> set (sh_head s) \<and> k \<noteq> j"
        using ok next_of_mem[of j "sh_head s" k] by (auto simp: shell_ok_def split: if_splits)
      then show "k \<in> set (remove1 j (sh_head s))" by simp
    qed simp_all
    moreover have "jobs_view ?u = drop_child pid (jobs_view s)"
    proof -
      have "filter (\<lambda>i. live_pids (jb_list (sh_jobs ?t i)) \<noteq> {}) (sh_head s) = remove1 j (sh_head s)"
        using ok j(1) True by (intro filter_remove1) (auto simp: shell_ok_def)
      then have "drop_child pid (jobs_view s) = map (entry ?t) (remove1 j (sh_head s))"
        using drop_child_view[OF fin ok j] by simp
      then show ?thesis by (simp add: jobs_view_def entry_def)
    qed
    ultimately show ?thesis using upd True fin by (simp add: live_pids_none report_child_def)
  next
    case False
    let ?c = "if all_status 1 ?ps then Some j else sh_current s"
    have "update_process_status pid st s = Some (?t\<lparr>sh_current := ?c\<rparr>)"
      using upd False by (simp add: live_pids_none)
    moreover have "shell_ok (?t\<lparr>sh_current := ?c\<rparr>)"
      using ok j(1) by (intro report_keeps_ok[OF ok j False]) (auto simp: shell_ok_def split: if_splits)
    moreover have "jobs_view (?t\<lparr>sh_current := ?c\<rparr>) = report_child pid st (jobs_view s)"
    proof -
      have v: "jobs_view (?t\<lparr>sh_current := ?c\<rparr>) = map (entry ?t) (sh_head s)" by (simp add: jobs_view_def entry_def)
      have "filter (\<lambda>(g, c, A). A \<noteq> {}) (map (entry ?t) (sh_head s)) = map (entry ?t) (sh_head s)"
        using ok False by (auto simp: filter_id_conv entry_def shell_ok_def)
      then show ?thesis unfolding v report_child_def drop_child_def using report_view[OF ok j, of st]
        by (cases "finished st") simp_all
    qed
    ultimately show ?thesis by blast
  qed
qed

lemma launch_simps [simp]:
  "sh_head (launch cmd pids s) = sh_fresh s # sh_head s" "sh_fresh (launch cmd pids s) = sh_fresh s + 1"
  "sh_current (launch cmd pids s) = sh_current s"
  "j \<noteq> sh_fresh s \<Longrightarrow> sh_jobs (launch cmd pids s) j = sh_jobs s j"
  "jb_list (sh_jobs (launch cmd pids s) (sh_fresh s)) = rev (map (\<lambda>p. \<lparr>ps_pid = p, ps_status = 0\<rparr>) pids)"
  "jb_pgid (sh_jobs (launch cmd pids s) (sh_fresh s)) = hd pids"
  "jb_cmd (sh_jobs (launch cmd pids s) (sh_fresh s)) = cmd"
  by (simp_all add: launch_def)

lemma live_pids_launched [simp]: "live_pids (map (\<lambda>p. \<lparr>ps_pid = p, ps_status = 0\<rparr>) pids) = set pids"
  by (induction pids) simp_all

lemma owner_launch:
  assumes "\<forall>j \<in> set (sh_head s). j < sh_fresh s"
  shows "owner q (launch cmd pids s) = (if q \<in> set pids then Some (sh_fresh s) else owner q s)"
proof -
  have "sh_jobs (launch cmd pids s) j = sh_jobs s j" if "j \<in> set (sh_head s)" for j using assms that by auto
  then have "find (\<lambda>j. list_ex (\<lambda>p. ps_pid p = q) (jb_list (sh_jobs (launch cmd pids s) j))) (sh_head s) = owner q s"
    unfolding owner_def by (intro find_cong) simp_all
  then show ?thesis by (simp add: owner_def list_ex_iff)
qed

lemma launch_refines:
  assumes ok: "shell_ok s" and p: "distinct pids" "pids \<noteq> []" "set pids \<inter> children (jobs_view s) = {}"
  shows "shell_ok (launch cmd pids s) \<and> jobs_view (launch cmd pids s) = (hd pids, cmd, set pids) # jobs_view s"
proof -
  let ?t = "launch cmd pids s"
  have fr: "\<forall>j \<in> set (sh_head s). j < sh_fresh s" using ok by (simp add: shell_ok_def)
  then have fr': "sh_fresh s \<notin> set (sh_head s)" by auto
  have old: "sh_jobs ?t j = sh_jobs s j" if "j \<in> set (sh_head s)" for j using fr that by auto
  have o: "owner q ?t = Some j" if "j \<in> set (sh_head s)" "q \<in> live_pids (jb_list (sh_jobs s j))" for j q
  proof -
    have "q \<in> children (jobs_view s)" using that by (auto simp: children_view)
    then show ?thesis using p(3) ok that owner_launch[OF fr] by (auto simp: shell_ok_def)
  qed
  have "\<forall>j \<in> set (sh_head ?t). distinct (map ps_pid (jb_list (sh_jobs ?t j))) \<and> live_pids (jb_list (sh_jobs ?t j)) \<noteq> {}
      \<and> (\<forall>q \<in> live_pids (jb_list (sh_jobs ?t j)). owner q ?t = Some j)"
  proof
    fix j assume j: "j \<in> set (sh_head ?t)"
    show "distinct (map ps_pid (jb_list (sh_jobs ?t j))) \<and> live_pids (jb_list (sh_jobs ?t j)) \<noteq> {}
      \<and> (\<forall>q \<in> live_pids (jb_list (sh_jobs ?t j)). owner q ?t = Some j)"
    proof (cases "j = sh_fresh s")
      case True
      then show ?thesis using p owner_launch[OF fr] by (simp add: rev_map o_def)
    next
      case False
      then have m: "j \<in> set (sh_head s)" using j by simp
      then show ?thesis using ok o by (simp add: old shell_ok_def)
    qed
  qed
  then have "shell_ok ?t" using ok fr' by (auto simp: shell_ok_def)
  moreover have "jobs_view ?t = (hd pids, cmd, set pids) # jobs_view s"
    using old by (simp add: jobs_view_def entry_def rev_map)
  ultimately show ?thesis by blast
qed

section \<open>Waiting, and whole command lines\<close>

lemma wait_procs_some:
  "\<forall>p \<in> set ps. w (ps_pid p) \<noteq> None \<Longrightarrow> wait_procs w st ps = map (\<lambda>p. change_status (the (w (ps_pid p))) p) ps"
  by (induction w st ps rule: wait_procs.induct) (auto simp: Let_def)

lemma live_pids_waited:
  "live_pids (map (\<lambda>p. change_status (the (w (ps_pid p))) p) ps) = {pid \<in> ps_pid ` set ps. \<not> finished (the (w pid))}"
  by (induction ps) auto

lemma foreground_refines:
  assumes ok: "shell_ok s" and p: "distinct pids" "pids \<noteq> []" "set pids \<inter> children (jobs_view s) = {}"
    and w: "\<forall>pid \<in> set pids. w pid \<noteq> None"
  defines "A \<equiv> {pid \<in> set pids. \<not> finished (the (w pid))}"
  shows "\<exists>s'. wait_job w junk (sh_fresh s) (launch cmd pids s) = Some s' \<and> shell_ok s'
    \<and> jobs_view s' = (if A = {} then jobs_view s else (hd pids, cmd, A) # jobs_view s)"
proof -
  let ?t = "launch cmd pids s" and ?j = "sh_fresh s"
  let ?ps = "map (\<lambda>p. change_status (the (w (ps_pid p))) p) (jb_list (sh_jobs ?t ?j))"
  have t: "shell_ok ?t" using launch_refines[OF ok p] by simp
  have fr: "?j \<notin> set (sh_head s)" using ok by (auto simp: shell_ok_def)
  have ps: "wait_procs w junk (jb_list (sh_jobs ?t ?j)) = ?ps"
    using w by (intro wait_procs_some) auto
  have pids: "ps_pid ` set (jb_list (sh_jobs ?t ?j)) = set pids" by (simp add: image_image)
  have l: "live_pids ?ps = A" by (simp only: live_pids_waited pids A_def)
  have same: "map ps_pid ?ps = map ps_pid (jb_list (sh_jobs ?t ?j))" by simp
  let ?u = "set_list ?j ?ps ?t"
  have old: "entry ?u i = entry s i" if "i \<in> set (sh_head s)" for i
    using fr that by (intro entry_cong) (auto simp: set_list_def)
  note wj = wait_job_def[of w junk ?j ?t, unfolded ps Let_def]
  show ?thesis
  proof (cases "A = {}")
    case True
    let ?v = "?u\<lparr>sh_head := sh_head s\<rparr>"
    have "shell_ok ?v" using ok fr same
      by (intro unlink_ok[OF t, of _ ?j]) (auto simp: shell_ok_def)
    moreover have "jobs_view ?v = jobs_view s" using old by (simp add: jobs_view_def entry_def)
    ultimately show ?thesis using wj l True by (simp add: live_pids_none)
  next
    case False
    let ?v = "?u\<lparr>sh_current := if all_status 1 ?ps then Some ?j else sh_current s\<rparr>"
    have "wait_job w junk ?j ?t = Some ?v" using wj l False by (simp add: live_pids_none)
    moreover have "shell_ok ?v"
    proof (rule relist_ok[OF t _ same])
      show "live_pids ?ps \<subseteq> live_pids (jb_list (sh_jobs ?t ?j))" using l by (auto simp: A_def rev_map)
    qed (use l False ok in \<open>auto simp: shell_ok_def split: if_splits\<close>)
    moreover have "jobs_view ?v = (hd pids, cmd, A) # jobs_view s"
      using old l by (simp add: jobs_view_def entry_def)
    ultimately show ?thesis using False by auto
  qed
qed


fun reports_ok :: "(int \<times> wstatus) list \<Rightarrow> (int \<times> string \<times> int set) list \<Rightarrow> bool" where
  "reports_ok [] v \<longleftrightarrow> True"
| "reports_ok ((pid, st) # evs) v \<longleftrightarrow> pid \<in> children v \<and> reports_ok evs (report_child pid st v)"

fun report_all :: "(int \<times> wstatus) list \<Rightarrow> (int \<times> string \<times> int set) list \<Rightarrow> (int \<times> string \<times> int set) list" where
  "report_all [] v = v"
| "report_all ((pid, st) # evs) v = report_all evs (report_child pid st v)"

lemma reap_refines:
  assumes "shell_ok s" "reports_ok evs (jobs_view s)"
  shows "\<exists>s'. reap evs s = Some s' \<and> shell_ok s' \<and> jobs_view s' = report_all evs (jobs_view s)"
  using assms
proof (induction evs arbitrary: s)
  case (Cons ev evs)
  obtain pid st where e: "ev = (pid, st)" by (cases ev)
  obtain s1 where s1: "update_process_status pid st s = Some s1" "shell_ok s1" "jobs_view s1 = report_child pid st (jobs_view s)"
    using update_refines[OF Cons.prems(1), of pid st] Cons.prems(2) e by auto
  then show ?case using Cons.IH[OF s1(2)] Cons.prems(2) e by simp
qed simp

text \<open>What a command line does to the abstract table, and what the kernel guarantees of its reports.\<close>

definition run_spec :: "shell_env \<Rightarrow> string \<Rightarrow> bool \<Rightarrow> nat \<Rightarrow> (int \<times> string \<times> int set) list \<Rightarrow> (int \<times> string \<times> int set) list" where
  "run_spec e cmd async n v =
     (let v1 = report_all (se_reap2 e) v;
          pids = take n (se_pids e);
          A = (if async then set pids else {pid \<in> set pids. \<not> finished (the (se_wait e pid))})
      in if A = {} then v1 else (hd pids, cmd, A) # v1)"

definition kernel_ok :: "shell_env \<Rightarrow> bool \<Rightarrow> nat \<Rightarrow> (int \<times> string \<times> int set) list \<Rightarrow> bool" where
  "kernel_ok e async n v \<longleftrightarrow> reports_ok (se_reap2 e) v
     \<and> 0 < n \<and> n \<le> length (se_pids e) \<and> distinct (take n (se_pids e))
     \<and> set (take n (se_pids e)) \<inter> children (report_all (se_reap2 e) v) = {}
     \<and> (async \<or> (\<forall>pid \<in> set (take n (se_pids e)). se_wait e pid \<noteq> None))"

lemma print_jobs_view: "print_jobs s = zip [1..<length (jobs_view s) + 1] (map (\<lambda>(g, c, A). (g, c)) (jobs_view s))"
  by (simp add: print_jobs_def jobs_view_def entry_def o_def)

definition shell0 :: shell where
  "shell0 = \<lparr>sh_jobs = (\<lambda>_. \<lparr>jb_list = [], jb_pgid = 0, jb_cmd = []\<rparr>), sh_head = [], sh_current = None, sh_fresh = 0\<rparr>"

lemma shell0_ok: "shell_ok shell0" "jobs_view shell0 = []"
  by (simp_all add: shell_ok_def shell0_def jobs_view_def)

definition env_demo :: shell_env where
  "env_demo = \<lparr>se_reap1 = [], se_reap2 = [], se_pids = [100, 101], se_wait = (\<lambda>pid. if pid = 100 then Some Exited else Some Stopped),
     se_junk = Exited, se_kill = (\<lambda>_. True), se_wild = 0\<rparr>"



section \<open>Resuming in the foreground\<close>

lemma find_none_owner:
  "(\<forall>j \<in> set (sh_head s). pid \<notin> ps_pid ` set (jb_list (sh_jobs s j))) \<Longrightarrow> update_process_status pid st s = None"
proof -
  assume "\<forall>j \<in> set (sh_head s). pid \<notin> ps_pid ` set (jb_list (sh_jobs s j))"
  then have "find (\<lambda>j. list_ex (\<lambda>p. ps_pid p = pid) (jb_list (sh_jobs s j))) (sh_head s) = None"
    by (auto simp: find_None_iff list_ex_iff)
  then show ?thesis by (simp add: update_process_status_def)
qed

definition shell_demo :: shell where
  "shell_demo = launch ''b &'' [20] (launch ''a &'' [10] shell0)"

text \<open>
  \<open>fg\<close> of a job that is not the newest one, run until all its processes exit, unlinks the newest job
  instead: the finished job stays in the table, and when a child of the dropped job is reported
  afterwards, the shell dereferences a null pointer.
\<close>

theorem fg_drops_other_job:
  assumes h: "sh_head s = a # rest" and j: "get_job (atoi arg) s = Some j" "j \<in> set rest" "j \<noteq> a"
    and k: "kill_ok (atoi arg)"
    and w: "\<forall>p \<in> set (jb_list (sh_jobs s j)). w (ps_pid p) = Some Exited"
    and pid: "\<forall>i \<in> set rest. pid \<notin> ps_pid ` set (jb_list (sh_jobs s i))"
  shows "\<exists>s'. resume kill_ok w junk wild [arg] True s = Some s' \<and> sh_head s' = rest
    \<and> all_status 2 (jb_list (sh_jobs s' j)) \<and> update_process_status pid st s' = None"
proof -
  let ?s1 = "mark_job_running j s"
  let ?ps = "map (\<lambda>p. change_status (the (w (ps_pid p))) p) (jb_list (sh_jobs ?s1 j))"
  let ?s2 = "(set_list j ?ps ?s1)\<lparr>sh_head := rest\<rparr>"
  have l1: "jb_list (sh_jobs ?s1 j) = map (\<lambda>p. p\<lparr>ps_status := 1\<rparr>) (jb_list (sh_jobs s j))"
    and h1: "sh_head ?s1 = a # rest" by (simp_all add: mark_job_running_def h)
  have ps: "wait_procs w junk (jb_list (sh_jobs ?s1 j)) = ?ps" using w l1 by (intro wait_procs_some) auto
  have fin: "all_status 2 ?ps" using w l1 by (auto simp: all_status_def list_all_iff finished_def)
  have "wait_job w junk j ?s1 = Some ?s2" by (simp only: wait_job_def ps Let_def fin h1 if_True list.case)
  then have "resume kill_ok w junk wild [arg] True s = Some ?s2" using j(1) k by (simp add: resume_def)
  moreover have "update_process_status pid st ?s2 = None"
  proof (rule find_none_owner, rule ballI)
    fix i assume i: "i \<in> set (sh_head ?s2)"
    have "ps_pid ` set (jb_list (sh_jobs ?s2 i)) = ps_pid ` set (jb_list (sh_jobs s i))"
      using l1 by (cases "i = j") (auto simp: image_image mark_job_running_def)
    then show "pid \<notin> ps_pid ` set (jb_list (sh_jobs ?s2 i))" using pid i by simp
  qed
  ultimately show ?thesis using fin by simp
qed

theorem fg_drops_other_job_witness:
  "sh_head shell_demo = [1, 0] \<and> jb_list (sh_jobs shell_demo 1) = [\<lparr>ps_pid = 20, ps_status = 0\<rparr>]
   \<and> (\<exists>s'. resume (\<lambda>_. True) (\<lambda>_. Some Exited) Exited 0 [''10''] True shell_demo = Some s' \<and> sh_head s' = [0]
        \<and> all_status 2 (jb_list (sh_jobs s' 0)) \<and> update_process_status 20 Exited s' = None)"
proof -
  have a: "atoi ''10'' = 10" by code_simp
  have h: "sh_head shell_demo = [1, 0]" "jb_list (sh_jobs shell_demo 1) = [\<lparr>ps_pid = 20, ps_status = 0\<rparr>]"
    "jb_list (sh_jobs shell_demo 0) = [\<lparr>ps_pid = 10, ps_status = 0\<rparr>]"
    by (simp_all add: shell_demo_def shell0_def launch_def)
  have g: "get_job (atoi ''10'') shell_demo = Some 0"
    by (simp add: a get_job_def shell_demo_def shell0_def launch_def)
  show ?thesis using fg_drops_other_job[OF h(1) g, of "\<lambda>_. True" "\<lambda>_. Some Exited" 20 Exited 0 Exited] h by simp
qed

section \<open>Descriptors of a pipeline\<close>

lemma lowest_free_fresh: "lowest_free fds \<notin> set fds"
proof -
  have "card {0..<length fds + 1} > card (set fds)" using card_length[of fds] by simp
  then have "\<not> {0..<length fds + 1} \<subseteq> set fds" by (meson card_mono finite_set not_le)
  then have "filter (\<lambda>i. i \<notin> set fds) [0..<length fds + 1] \<noteq> []" by (auto simp: filter_empty_conv simp del: upt_Suc)
  from hd_in_set[OF this] show ?thesis unfolding lowest_free_def by (simp only: set_filter mem_Collect_eq) blast
qed

text \<open>
  A pipeline of \<open>n\<close> commands leaves the shell with \<open>n\<close> more open descriptors than before it, on top of
  those it had.
\<close>

theorem pipeline_leaks_descriptors:
  "length (pipeline_fds n fds) = length fds + n \<and> set fds \<subseteq> set (pipeline_fds n fds)"
proof (induction n arbitrary: fds)
  case (Suc n)
  let ?r = "lowest_free fds"
  let ?w = "lowest_free (?r # fds)"
  have "?w \<notin> set (?r # fds)" by (rule lowest_free_fresh)
  then have "removeAll ?w (?w # ?r # fds) = ?r # fds" by simp
  then have "pipeline_fds (Suc n) fds = pipeline_fds n (?r # fds)" by (simp add: Let_def)
  then show ?case using Suc.IH[of "?r # fds"] by auto
qed simp

section \<open>End of input and status marks\<close>

text \<open>
  At the end of the input the shell keeps prompting.  \<open>bg\<close> marks finished processes as stopped, so a
  job with one of them is never removed, and the test for stopped jobs never succeeds.
\<close>

lemma end_of_input_never_ends: "main_loop es [] buf s = Some ([], [], s)"
  by (induction es) (simp_all add: get_cmd_line_def)

lemma bg_revives_finished_children:
  "live_pids (jb_list (sh_jobs (mark_job_running j s) j)) = ps_pid ` set (jb_list (sh_jobs s j))"
proof -
  have "live_pids (map (\<lambda>p. p\<lparr>ps_status := 1\<rparr>) ps) = ps_pid ` set ps" for ps by (induction ps) simp_all
  then show ?thesis by (simp add: mark_job_running_def)
qed

lemma is_stopped_never:
  assumes "jb_list (sh_jobs s j) \<noteq> []" "\<forall>p \<in> set (jb_list (sh_jobs s j)). ps_status p \<le> 2"
  shows "\<not> is_stopped j s"
  using assms by (cases "jb_list (sh_jobs s j)") (auto simp: is_stopped_def)


end
