(* ===== verification/Shell_Fds.thy ===== *)
theory Shell_Fds
  imports Shell_Parse
begin

text \<open>
  The descriptors of the shell and of the commands it starts (\<open>HW2.3-Shell/myshell.c\<close>): the pipes \<open>exec_job\<close> makes, what
  each child does with them after \<open>fork\<close>, and the redirections of \<open>process_redirection\<close>.  Every command reads what
  the one before it writes, and nobody else can write to a pipe, so that its reader sees the end.
\<close>

section \<open>Tables of descriptors\<close>

text \<open>A descriptor stands for one end of a pipe, a file that has been opened, or what the shell was started with.\<close>

datatype file_end = Given nat | Reads nat | Writes nat | Opened string

type_synonym fd_table = "nat \<Rightarrow> file_end option"

text \<open>The system calls give the lowest free descriptor below the limit of the process.  A failing \<open>pipe\<close> leaves its array as it was.\<close>

definition free_fd :: "nat \<Rightarrow> fd_table \<Rightarrow> nat option" where
  "free_fd limit t = find (\<lambda>d. t d = None) [0..<limit]"

definition sys_close :: "nat \<Rightarrow> fd_table \<Rightarrow> fd_table" where
  "sys_close d t = t(d := None)"

definition sys_dup :: "nat \<Rightarrow> nat \<Rightarrow> fd_table \<Rightarrow> fd_table" where
  "sys_dup limit d t = (case t d of
     None \<Rightarrow> t
   | Some x \<Rightarrow> (case free_fd limit t of None \<Rightarrow> t | Some d' \<Rightarrow> t(d' := Some x)))"

definition sys_dup2 :: "nat \<Rightarrow> nat \<Rightarrow> fd_table \<Rightarrow> fd_table" where
  "sys_dup2 d d' t = (case t d of None \<Rightarrow> t | Some x \<Rightarrow> t(d' := Some x))"

definition sys_pipe :: "nat \<Rightarrow> nat \<Rightarrow> nat \<times> nat \<Rightarrow> fd_table \<Rightarrow> (nat \<times> nat) \<times> fd_table" where
  "sys_pipe limit k fd t = (case free_fd limit t of
     None \<Rightarrow> (fd, t)
   | Some r \<Rightarrow> (case free_fd limit (t(r := Some (Reads k))) of
        None \<Rightarrow> (fd, t)
      | Some w \<Rightarrow> ((r, w), t(r := Some (Reads k), w := Some (Writes k)))))"

section \<open>A pipeline\<close>

text \<open>What child \<open>i\<close> of \<open>n\<close> does before \<open>process_cmd\<close>.\<close>

definition child_wires :: "nat \<Rightarrow> nat \<Rightarrow> nat \<Rightarrow> nat \<Rightarrow> nat \<times> nat \<Rightarrow> fd_table \<Rightarrow> fd_table" where
  "child_wires limit i n inp fd t =
     (let t1 = (if i \<noteq> 0 then sys_close inp (sys_close (fst fd) (sys_dup limit inp (sys_close 0 t))) else t)
      in if i \<noteq> n - 1 then sys_close (snd fd) (sys_dup limit (snd fd) (sys_close 1 t1)) else t1)"

text \<open>
  The loop of \<open>exec_job\<close> with \<open>m\<close> rounds left: the tables of the children and of the shell.  The pipe of round \<open>i\<close> has
  the number \<open>k + i\<close>.
\<close>

fun spawn :: "nat \<Rightarrow> nat \<Rightarrow> nat \<Rightarrow> nat \<Rightarrow> nat \<Rightarrow> nat \<times> nat \<Rightarrow> fd_table \<Rightarrow> fd_table list \<times> fd_table" where
  "spawn limit k i 0 inp fd t = ([], t)"
| "spawn limit k i (Suc m) inp fd t =
     (let (fd', t1) = sys_pipe limit (k + i) fd t;
          c = child_wires limit i (i + Suc m) inp fd' t1;
          (cs, t') = spawn limit k (Suc i) m (fst fd') fd' (sys_close (snd fd') t1)
      in (c # cs, t'))"

text \<open>\<open>junk\<close> is what the array of descriptors holds at first.\<close>

definition start_pipeline :: "nat \<Rightarrow> nat \<Rightarrow> nat \<Rightarrow> nat \<times> nat \<Rightarrow> fd_table \<Rightarrow> fd_table list \<times> fd_table" where
  "start_pipeline limit k n junk t = spawn limit k 0 n 0 junk t"

section \<open>Redirections\<close>

definition open_file :: "nat \<Rightarrow> (string \<Rightarrow> bool) \<Rightarrow> string \<Rightarrow> fd_table \<Rightarrow> (nat \<times> fd_table) option" where
  "open_file limit can_open p t =
     (if can_open p then map_option (\<lambda>d. (d, t(d := Some (Opened p)))) (free_fd limit t) else None)"

text \<open>When a file cannot be opened, \<open>dup2\<close> and \<open>close\<close> are called on \<open>-1\<close> and fail without effect.\<close>

definition do_redirect :: "nat \<Rightarrow> (string \<Rightarrow> bool) \<Rightarrow> redirect \<Rightarrow> fd_table \<Rightarrow> fd_table" where
  "do_redirect limit can_open r t = (case r of
     Out_trunc p \<Rightarrow> (case open_file limit can_open p t of None \<Rightarrow> t | Some (d, t1) \<Rightarrow> sys_close d (sys_dup2 d 1 t1))
   | Out_append p \<Rightarrow> (case open_file limit can_open p t of None \<Rightarrow> t | Some (d, t1) \<Rightarrow> sys_close d (sys_dup2 d 1 t1))
   | Out_err p \<Rightarrow> (case open_file limit can_open p t of None \<Rightarrow> t | Some (d, t1) \<Rightarrow> sys_close d (sys_dup2 d 2 (sys_dup2 d 1 t1)))
   | In_file p \<Rightarrow> (case open_file limit can_open p t of None \<Rightarrow> t | Some (d, t1) \<Rightarrow> sys_close d (sys_dup2 d 0 t1)))"

text \<open>A child up to \<open>execvpe\<close>: its arguments and its descriptors.\<close>

definition run_child :: "nat \<Rightarrow> (string \<Rightarrow> bool) \<Rightarrow> int \<Rightarrow> int \<Rightarrow> string \<Rightarrow> fd_table \<Rightarrow> (string list \<times> fd_table) option" where
  "run_child limit can_open pid exit_status cmd t =
     map_option (\<lambda>(argv, rs). (argv, fold (do_redirect limit can_open) rs t)) (process_cmd pid exit_status cmd)"

section \<open>One round\<close>

definition room :: "nat \<Rightarrow> fd_table \<Rightarrow> nat" where
  "room limit t = card {d. d < limit \<and> t d = None}"

lemma free_fd_first: "d < limit \<Longrightarrow> t d = None \<Longrightarrow> (\<And>j. j < d \<Longrightarrow> t j \<noteq> None) \<Longrightarrow> free_fd limit t = Some d"
  unfolding free_fd_def by (subst find_Some_iff) (auto intro!: exI[of _ d])

lemma free_fd_room: "room limit t \<noteq> 0 \<Longrightarrow> \<exists>d. free_fd limit t = Some d \<and> d < limit \<and> t d = None"
proof -
  assume "room limit t \<noteq> 0"
  then obtain d where "d < limit" "t d = None" unfolding room_def by (metis (mono_tags, lifting) Collect_empty_eq card.empty)
  then obtain x where x: "free_fd limit t = Some x" unfolding free_fd_def by (cases "find (\<lambda>d. t d = None) [0..<limit]") (auto simp: find_None_iff)
  then show ?thesis unfolding free_fd_def by (auto simp: find_Some_iff)
qed

lemma room_take: "d < limit \<Longrightarrow> t d = None \<Longrightarrow> room limit (t(d := Some x)) = room limit t - 1"
proof -
  assume d: "d < limit" "t d = None"
  have "{e. e < limit \<and> (t(d := Some x)) e = None} = {e. e < limit \<and> t e = None} - {d}" by auto
  then show ?thesis using d by (simp add: room_def)
qed

lemma pipe_made:
  assumes "2 \<le> room limit t"
  obtains r w where "sys_pipe limit k fd t = ((r, w), t(r := Some (Reads k), w := Some (Writes k)))"
    "t r = None" "t w = None" "r \<noteq> w" "r < limit" "w < limit"
proof -
  obtain r where r: "free_fd limit t = Some r" "r < limit" "t r = None" using free_fd_room[of limit t] assms by auto
  have "room limit (t(r := Some (Reads k))) = room limit t - 1" using room_take[of r limit t] r by simp
  then obtain w where w: "free_fd limit (t(r := Some (Reads k))) = Some w" "w < limit" "(t(r := Some (Reads k))) w = None"
    using free_fd_room[of limit "t(r := Some (Reads k))"] assms by auto
  show ?thesis by (rule that[of r w]) (use r w in \<open>auto simp: sys_pipe_def split: if_splits\<close>)
qed

text \<open>Before round \<open>i\<close>: the standard descriptors are open, \<open>inp\<close> is the reading end of the pipe before, and no writing end is open.\<close>

definition ready :: "nat \<Rightarrow> nat \<Rightarrow> nat \<Rightarrow> fd_table \<Rightarrow> bool" where
  "ready k i inp t \<longleftrightarrow> t 0 \<noteq> None \<and> t 1 \<noteq> None \<and> t 2 \<noteq> None \<and> (i \<noteq> 0 \<longrightarrow> t inp = Some (Reads (k + i - 1)) \<and> inp \<notin> {0, 1, 2})
     \<and> (\<forall>d l. t d \<noteq> Some (Writes (k + l)))"

lemma not_std: "ready k i inp t \<Longrightarrow> t r = None \<Longrightarrow> r \<notin> {0, 1, 2}"
  unfolding ready_def by (metis empty_iff insert_iff)

lemma child_effect:
  assumes rd: "ready k i inp t" and rw: "t r = None" "t w = None" "r \<noteq> w" and lim: "2 < limit"
  shows "child_wires limit i n inp (r, w) (t(r := Some (Reads (k + i)), w := Some (Writes (k + i)))) =
    (let t1 = (if i \<noteq> 0 then t(0 := t inp, r := None, inp := None, w := Some (Writes (k + i)))
               else t(r := Some (Reads (k + i)), w := Some (Writes (k + i))))
     in if i \<noteq> n - 1 then t1(1 := Some (Writes (k + i)), w := None) else t1)"
proof -
  define T where "T = t(r := Some (Reads (k + i)), w := Some (Writes (k + i)))"
  define t1 where "t1 = (if i \<noteq> 0 then t(0 := t inp, r := None, inp := None, w := Some (Writes (k + i))) else T)"
  have ne: "r \<notin> {0, 1, 2}" "w \<notin> {0, 1, 2}" using not_std[OF rd] rw by blast+
  have inp: "i \<noteq> 0 \<Longrightarrow> inp \<notin> {0, 1, 2, r, w}" using rd rw by (auto simp: ready_def)
  have 1: "sys_close inp (sys_close r (sys_dup limit inp (sys_close 0 T))) = t1" if "i \<noteq> 0"
  proof -
    have "free_fd limit (T(0 := None)) = Some 0" by (rule free_fd_first) (use lim in auto)
    moreover have "(T(0 := None)) inp = Some (Reads (k + i - 1))" using inp[OF that] rd that by (simp add: T_def ready_def)
    ultimately have "sys_dup limit inp (sys_close 0 T) = T(0 := Some (Reads (k + i - 1)))" by (simp add: sys_dup_def sys_close_def)
    then show ?thesis using that rd inp[OF that] ne rw(3) by (auto simp: sys_close_def t1_def T_def ready_def fun_eq_iff)
  qed
  have t1: "t1 0 \<noteq> None" "t1 w = Some (Writes (k + i))" using rd ne inp by (auto simp: t1_def T_def ready_def)
  have 2: "sys_close w (sys_dup limit w (sys_close 1 t1)) = t1(1 := Some (Writes (k + i)), w := None)"
  proof -
    have "free_fd limit (t1(1 := None)) = Some 1" by (rule free_fd_first) (use lim t1(1) in auto)
    moreover have "(t1(1 := None)) w = Some (Writes (k + i))" using t1(2) ne by simp
    ultimately show ?thesis by (simp add: sys_dup_def sys_close_def)
  qed
  show ?thesis unfolding T_def[symmetric] child_wires_def Let_def fst_conv snd_conv
    using 1 2 by (auto simp: t1_def T_def)
qed

lemma child_ends:
  fixes n :: nat
  assumes rd: "ready k i inp t" and rw: "t r = None" "t w = None" "r \<noteq> w" and lim: "2 < limit"
  defines "c \<equiv> child_wires limit i n inp (r, w) (t(r := Some (Reads (k + i)), w := Some (Writes (k + i))))"
  shows "c 0 = (if i = 0 then t 0 else Some (Reads (k + i - 1)))" "c 1 = (if i = n - 1 then t 1 else Some (Writes (k + i)))" "c 2 = t 2"
    "c d = Some (Writes (k + l)) \<Longrightarrow> l = i \<and> (i \<noteq> n - 1 \<longrightarrow> d = 1)"
proof -
  have ne: "r \<notin> {0, 1, 2}" "w \<notin> {0, 1, 2}" using not_std[OF rd] rw by blast+
  have inp: "i \<noteq> 0 \<Longrightarrow> inp \<notin> {0, 1, 2, r, w}" using rd rw by (auto simp: ready_def)
  note c = child_effect[OF rd rw lim, of n, folded c_def, unfolded Let_def]
  show "c 0 = (if i = 0 then t 0 else Some (Reads (k + i - 1)))" "c 1 = (if i = n - 1 then t 1 else Some (Writes (k + i)))" "c 2 = t 2"
    using rd ne inp unfolding c by (auto simp: ready_def)
  show "l = i \<and> (i \<noteq> n - 1 \<longrightarrow> d = 1)" if "c d = Some (Writes (k + l))"
    using that rd ne inp unfolding c by (auto simp: ready_def split: if_splits)
qed

lemma ready_next:
  assumes "ready k i inp t" "t r = None"
  shows "ready k (Suc i) r (t(r := Some (Reads (k + i))))"
  using assms not_std[OF assms] by (auto simp: ready_def)

text \<open>The tables \<open>cs\<close> of the children \<open>i\<close>, \<open>i + 1\<close>, \dots and the table \<open>t'\<close> the shell is left with.\<close>

definition wired :: "nat \<Rightarrow> nat \<Rightarrow> fd_table \<Rightarrow> fd_table list \<Rightarrow> fd_table \<Rightarrow> bool" where
  "wired k i t cs t' \<longleftrightarrow> (\<forall>j < length cs.
       (cs ! j) 0 = (if i + j = 0 then t 0 else Some (Reads (k + (i + j) - 1)))
     \<and> (cs ! j) 1 = (if j = length cs - 1 then t 1 else Some (Writes (k + (i + j)))) \<and> (cs ! j) 2 = t 2
     \<and> (\<forall>d l. (cs ! j) d = Some (Writes (k + l)) \<longrightarrow> l = i + j \<and> (j \<noteq> length cs - 1 \<longrightarrow> d = 1))
     \<and> (\<exists>d. t' d = Some (Reads (k + (i + j)))))
   \<and> (\<forall>d l. t' d \<noteq> Some (Writes (k + l))) \<and> (\<forall>d. t d \<noteq> None \<longrightarrow> t' d = t d)"

lemma spawn_wired:
  assumes lim: "2 < limit"
  shows "ready k i inp t \<Longrightarrow> m < room limit t \<Longrightarrow> length (fst (spawn limit k i m inp fd t)) = m
    \<and> wired k i t (fst (spawn limit k i m inp fd t)) (snd (spawn limit k i m inp fd t))"
proof (induction m arbitrary: i inp fd t)
  case 0
  then show ?case by (simp add: wired_def ready_def)
next
  case (Suc m)
  have "2 \<le> room limit t" using Suc.prems(2) by simp
  then obtain r w where p: "sys_pipe limit (k + i) fd t = ((r, w), t(r := Some (Reads (k + i)), w := Some (Writes (k + i))))"
    and rw: "t r = None" "t w = None" "r \<noteq> w" "r < limit" by (rule pipe_made)
  define t2 where "t2 = t(r := Some (Reads (k + i)))"
  have cl: "sys_close w (t(r := Some (Reads (k + i)), w := Some (Writes (k + i)))) = t2" using rw by (auto simp: sys_close_def t2_def fun_eq_iff)
  define c where "c = child_wires limit i (i + Suc m) inp (r, w) (t(r := Some (Reads (k + i)), w := Some (Writes (k + i))))"
  obtain cs t' where sp: "spawn limit k (Suc i) m r (r, w) t2 = (cs, t')" by fastforce
  have all: "spawn limit k i (Suc m) inp fd t = (c # cs, t')" by (simp add: p cl sp c_def)
  have "room limit t2 = room limit t - 1" unfolding t2_def using room_take[of r limit t] rw by simp
  then have ih: "length cs = m" "wired k (Suc i) t2 cs t'"
    using Suc.IH[OF ready_next[OF Suc.prems(1) rw(1), folded t2_def], of "(r, w)"] Suc.prems(2) sp by simp_all
  note e = child_ends[OF Suc.prems(1) rw(1-3) lim, of "i + Suc m", folded c_def]
  have std: "t2 1 = t 1" "t2 2 = t 2" "r \<noteq> 0" using not_std[OF Suc.prems(1) rw(1)] by (auto simp: t2_def)
  have keep: "t d \<noteq> None \<Longrightarrow> t2 d = t d" for d using rw(1) by (auto simp: t2_def)
  have r: "t' r = Some (Reads (k + i))" using ih(2) by (simp add: wired_def t2_def)
  have "wired k i t (c # cs) t'"
    unfolding wired_def
  proof (intro conjI allI impI)
    fix j assume j: "j < length (c # cs)"
    show "((c # cs) ! j) 0 = (if i + j = 0 then t 0 else Some (Reads (k + (i + j) - 1)))"
      using e(1) ih(2) j by (cases j) (simp_all add: wired_def)
    show "((c # cs) ! j) 1 = (if j = length (c # cs) - 1 then t 1 else Some (Writes (k + (i + j))))"
      using e(2) ih j std by (cases j) (auto simp: wired_def)
    show "((c # cs) ! j) 2 = t 2" using e(3) ih(2) j std by (cases j) (simp_all add: wired_def)
    show "\<exists>d. t' d = Some (Reads (k + (i + j)))" using r ih(2) j by (cases j) (auto simp: wired_def)
    fix d l assume "((c # cs) ! j) d = Some (Writes (k + l))"
    then have "l = i + j \<and> (j \<noteq> length (c # cs) - 1 \<longrightarrow> d = 1)" using e(4)[of d l] ih j by (cases j) (auto simp: wired_def)
    then show "l = i + j" "j \<noteq> length (c # cs) - 1 \<Longrightarrow> d = 1" by simp_all
  qed (use ih(2) keep in \<open>auto simp: wired_def\<close>)
  then show ?case using all ih(1) by simp
qed

text \<open>
  C29: When the standard descriptors of the shell are open and enough others are free, the commands of a pipeline are
  connected: each reads from the pipe the one before writes to, the first and the last keep the input and the
  output of the shell.  A pipe between two commands can be written by the first of them only, through its
  descriptor 1, so the reader sees the end of its input when the writer is gone; the shell keeps what it had open.
\<close>

theorem pipeline_wired:
  assumes "t 0 \<noteq> None" "t 1 \<noteq> None" "t 2 \<noteq> None" "2 < limit" "n < room limit t" "\<forall>d l. t d \<noteq> Some (Writes (k + l))"
    and "start_pipeline limit k n junk t = (cs, t')"
  shows "length cs = n \<and> (\<forall>i < n.
      (cs ! i) 0 = (if i = 0 then t 0 else Some (Reads (k + (i - 1)))) \<and> (cs ! i) 1 = (if i = n - 1 then t 1 else Some (Writes (k + i)))
    \<and> (cs ! i) 2 = t 2)
    \<and> (\<forall>i < n - 1. \<forall>j < n. \<forall>d. (cs ! j) d = Some (Writes (k + i)) \<longleftrightarrow> j = i \<and> d = 1)
    \<and> (\<forall>d i. t' d \<noteq> Some (Writes (k + i))) \<and> (\<forall>d. t d \<noteq> None \<longrightarrow> t' d = t d)"
proof -
  have "ready k 0 0 t" using assms(1-3,6) by (simp add: ready_def)
  from spawn_wired[OF assms(4) this assms(5), of junk] assms(7)
  have l: "length cs = n" and w: "wired k 0 t cs t'" by (simp_all add: start_pipeline_def)
  have "(cs ! j) d = Some (Writes (k + i)) \<longleftrightarrow> j = i \<and> d = 1" if "i < n - 1" "j < n" for i j d
    using w l that by (auto simp: wired_def)
  moreover have "\<forall>i < n. (cs ! i) 0 = (if i = 0 then t 0 else Some (Reads (k + (i - 1)))) \<and> (cs ! i) 1 = (if i = n - 1 then t 1 else Some (Writes (k + i)))
    \<and> (cs ! i) 2 = t 2"
    using w l by (auto simp: wired_def)
  ultimately show ?thesis using l w by (simp add: wired_def)
qed

text \<open>
  The shell itself keeps a reading end of every pipe it has made.  A command that writes to one whose reader is gone
  is never told, and waits for ever once the pipe is full.
\<close>

theorem shell_keeps_readers:
  assumes "t 0 \<noteq> None" "t 1 \<noteq> None" "t 2 \<noteq> None" "2 < limit" "n < room limit t" "\<forall>d l. t d \<noteq> Some (Writes (k + l))" "i < n"
  shows "\<exists>d. snd (start_pipeline limit k n junk t) d = Some (Reads (k + i))"
proof -
  have "ready k 0 0 t" using assms(1-3,6) by (simp add: ready_def)
  from spawn_wired[OF assms(4) this assms(5), of junk] assms(7) show ?thesis by (simp add: start_pipeline_def wired_def)
qed

section \<open>Redirections take effect\<close>

lemma open_file_some:
  assumes "open_file limit can_open p t = Some (d, t1)"
  shows "t d = None" "d < limit" "t1 = t(d := Some (Opened p))"
  using assms by (auto simp: open_file_def free_fd_def find_Some_iff split: if_splits)

text \<open>A redirection that can be opened replaces the descriptors it names and leaves all others; one that cannot be opened changes nothing, and the command runs.\<close>

definition redirected :: "redirect \<Rightarrow> string \<times> nat set" where
  "redirected r = (case r of Out_trunc p \<Rightarrow> (p, {1}) | Out_append p \<Rightarrow> (p, {1}) | Out_err p \<Rightarrow> (p, {1, 2}) | In_file p \<Rightarrow> (p, {0}))"

lemma redirect_effect:
  assumes std: "t 0 \<noteq> None" "t 1 \<noteq> None" "t 2 \<noteq> None" and room: "room limit t \<noteq> 0"
  shows "do_redirect limit can_open r t = (\<lambda>d. if can_open (fst (redirected r)) \<and> d \<in> snd (redirected r) then Some (Opened (fst (redirected r))) else t d)"
proof -
  obtain x where x: "free_fd limit t = Some x" "t x = None" using free_fd_room[OF room] by blast
  have ne: "x \<notin> {0, 1, 2}" using x std by (metis empty_iff insert_iff)
  show ?thesis using x ne
    by (cases r) (auto simp: do_redirect_def redirected_def open_file_def sys_dup2_def sys_close_def fun_eq_iff)
qed

lemma redirect_std:
  assumes "t 0 \<noteq> None" "t 1 \<noteq> None" "t 2 \<noteq> None" "room limit t \<noteq> 0"
  shows "do_redirect limit can_open r t 0 \<noteq> None" "do_redirect limit can_open r t 1 \<noteq> None" "do_redirect limit can_open r t 2 \<noteq> None"
    "room limit (do_redirect limit can_open r t) = room limit t"
proof -
  note e = redirect_effect[OF assms, of can_open r]
  show "do_redirect limit can_open r t 0 \<noteq> None" "do_redirect limit can_open r t 1 \<noteq> None" "do_redirect limit can_open r t 2 \<noteq> None"
    using assms by (auto simp: e)
  have "do_redirect limit can_open r t d = None \<longleftrightarrow> t d = None" for d
  proof -
    have "d \<in> snd (redirected r) \<Longrightarrow> t d \<noteq> None" using assms(1-3) by (cases r) (auto simp: redirected_def)
    then show ?thesis by (auto simp: e)
  qed
  then show "room limit (do_redirect limit can_open r t) = room limit t" by (simp add: room_def)
qed

text \<open>Of several redirections of a descriptor the last that can be opened counts, whatever pipe was there before.\<close>

theorem last_redirection_counts:
  assumes "t 0 \<noteq> None" "t 1 \<noteq> None" "t 2 \<noteq> None" "room limit t \<noteq> 0"
  shows "fold (do_redirect limit can_open) rs t d =
    (case filter (\<lambda>r. can_open (fst (redirected r)) \<and> d \<in> snd (redirected r)) rs of
       [] \<Rightarrow> t d | r # rest \<Rightarrow> Some (Opened (fst (redirected (last (r # rest))))))"
  using assms
proof (induction rs arbitrary: t)
  case (Cons r rs)
  note std = redirect_std[OF Cons.prems, of can_open r]
  have "room limit (do_redirect limit can_open r t) \<noteq> 0" using std(4) Cons.prems(4) by simp
  note ih = Cons.IH[OF std(1-3) this]
  show ?case by (simp add: ih) (auto simp: redirect_effect[OF Cons.prems] split: list.splits)
qed simp

section \<open>An example\<close>

definition std_table :: fd_table where
  "std_table d = (if d < 3 then Some (Given d) else None)"

lemma std_room: "room 16 std_table = 13"
proof -
  have "{d. d < 16 \<and> std_table d = None} = {3..<16}" by (auto simp: std_table_def)
  then show ?thesis by (simp add: room_def)
qed

theorem pipeline_wired_witness:
  "length (fst (start_pipeline 16 0 3 (0, 0) std_table)) = 3
    \<and> (fst (start_pipeline 16 0 3 (0, 0) std_table) ! 1) 0 = Some (Reads 0)
    \<and> (fst (start_pipeline 16 0 3 (0, 0) std_table) ! 1) 1 = Some (Writes 1)"
proof -
  obtain cs t' where c: "start_pipeline 16 0 3 (0, 0) std_table = (cs, t')" by fastforce
  have "std_table 0 \<noteq> None" "std_table 1 \<noteq> None" "std_table 2 \<noteq> None" "\<forall>d l. std_table d \<noteq> Some (Writes (0 + l))"
    by (simp_all add: std_table_def)
  from pipeline_wired[OF this(1-3) _ _ this(4) c] show ?thesis by (simp add: c std_room)
qed

theorem shell_keeps_readers_witness: "\<exists>d. snd (start_pipeline 16 0 3 (0, 0) std_table) d = Some (Reads (0 + 1))"
  by (rule shell_keeps_readers) (simp_all add: std_room, simp_all add: std_table_def)

end
