(* ===== verification/Proc_Info.thy ===== *)
theory Proc_Info
  imports C_Text "HOL-Library.Multiset" "HOL-Library.Monad_Syntax"
begin

text \<open>
  The programs of \<open>HW1\<close> that format files of \<open>/proc\<close>: the process listing \<open>myps.c\<close> and the system
  monitor \<open>info.c\<close>.  The files, the user database and \<open>qsort\<close> are arguments.  \<open>None\<close> stands for what C
  leaves undefined (a null pointer, a buffer overrun, a variable that was never set) and for a loop
  that does not end.
\<close>

section \<open>\<open>myps.c\<close>: one process\<close>

record psinfo =
  pi_pid :: int
  pi_name :: string
  pi_vsize :: u64
  pi_cputime :: u64
  pi_user :: string

text \<open>The comparators subtract \<open>long long\<close> values and return the difference as an \<open>int\<close>.\<close>

definition compare_desc :: "u64 \<Rightarrow> u64 \<Rightarrow> int" where
  "compare_desc a b = sint (ucast (b - a) :: u32)"

definition psinfo_cmp_cputime :: "psinfo \<Rightarrow> psinfo \<Rightarrow> int" where
  "psinfo_cmp_cputime a b = compare_desc (pi_cputime a) (pi_cputime b)"

definition psinfo_cmp_vsize :: "psinfo \<Rightarrow> psinfo \<Rightarrow> int" where
  "psinfo_cmp_vsize a b = compare_desc (pi_vsize a) (pi_vsize b)"

text \<open>
  \<open>print_ps\<close> takes hours and minutes out of the time it stores: the variables are \<open>int\<close>, the products
  with them too, and the subtractions are on \<open>unsigned long\<close>.
\<close>

record ps_row =
  row_pid :: int
  row_user :: string
  row_hour :: int
  row_minute :: int
  row_second :: int
  row_vsize :: u64
  row_name :: string

definition print_ps :: "psinfo \<Rightarrow> ps_row" where
  "print_ps ps =
     (let hour = ucast (pi_cputime ps div 3600) :: u32;
          t1 = pi_cputime ps - scast (hour * 3600);
          minute = ucast (t1 div 60) :: u32;
          t2 = t1 - scast (minute * 60);
          second = ucast t2 :: u32
      in \<lparr>row_pid = pi_pid ps, row_user = pi_user ps, row_hour = sint hour, row_minute = sint minute,
          row_second = sint second, row_vsize = pi_vsize ps, row_name = pi_name ps\<rparr>)"

definition print_all_ps :: "psinfo list \<Rightarrow> ps_row list" where
  "print_all_ps pses = map print_ps pses"

section \<open>\<open>myps.c\<close>: reading \<open>/proc\<close>\<close>

text \<open>
  The loop that looks for the line \<open>Uid:\<close> has no other exit: without that line it runs for ever.  The
  effective user is the third field.
\<close>

fun read_uid :: "string list \<Rightarrow> u32 option" where
  "read_uid [] = None"
| "read_uid (line # rest) =
     (case strtok TAB line of
        [] \<Rightarrow> None
      | tok # toks \<Rightarrow>
          if tok = ''Uid:'' then (case toks of real # effective # _ \<Rightarrow> Some (ucast (strtoul effective)) | _ \<Rightarrow> None)
          else read_uid rest)"

text \<open>
  The fields of the line of \<open>stat\<close>, separated by spaces: the name without its parentheses, user and
  system time and the size.
\<close>

definition read_stat :: "string \<Rightarrow> (string \<times> u64 \<times> u64 \<times> u64) option" where
  "read_stat data =
     (let toks = strtok (CHR '' '') data
      in if length toks \<le> 22 then None
         else
           let tok = toks ! 1;
               len = length tok
           in if len < 2 \<or> 65 \<le> len - 2 then None
              else Some (take (len - 2) (drop 1 tok), strtoul (toks ! 13), strtoul (toks ! 14), strtoul (toks ! 22)))"

text \<open>The part of the machine the program reads: files of a process, user names, clock ticks per second.\<close>

record proc_env =
  pe_status :: "int \<Rightarrow> string list option"
  pe_stat :: "int \<Rightarrow> string option"
  pe_user :: "u32 \<Rightarrow> string option"
  pe_clk_tck :: u64

definition make_ps :: "proc_env \<Rightarrow> int \<Rightarrow> string \<Rightarrow> psinfo option" where
  "make_ps e pid user =
     do {
       data \<leftarrow> pe_stat e pid;
       (name, utime, stime, vsize) \<leftarrow> read_stat data;
       if 128 \<le> length user then None
       else Some \<lparr>pi_pid = pid, pi_name = name, pi_vsize = vsize div 1000,
                  pi_cputime = (utime + stime) div pe_clk_tck e, pi_user = user\<rparr>
     }"

fun collect :: "proc_env \<Rightarrow> string option \<Rightarrow> string list \<Rightarrow> psinfo list option" where
  "collect e wanted [] = Some []"
| "collect e wanted (name # names) =
     (case scan_int name of
        None \<Rightarrow> collect e wanted names
      | Some (pid, _) \<Rightarrow>
          do {
            lines \<leftarrow> pe_status e pid;
            uid \<leftarrow> read_uid lines;
            user \<leftarrow> pe_user e uid;
            if wanted \<noteq> None \<and> wanted \<noteq> Some user then collect e wanted names
            else do {
              ps \<leftarrow> make_ps e pid user;
              pses \<leftarrow> collect e wanted names;
              Some (ps # pses)
            }
          })"

section \<open>\<open>myps.c\<close>: the program\<close>

datatype ps_opt = Opt_m | Opt_p | Opt_u string | Opt_other

text \<open>The options set the order (1 by size, 2 by time) and the user, which has to fit its buffer.\<close>

fun ps_options :: "ps_opt list \<Rightarrow> nat \<Rightarrow> string option \<Rightarrow> (nat \<times> string option) option" where
  "ps_options [] sort_by wanted = Some (sort_by, wanted)"
| "ps_options (Opt_m # opts) sort_by wanted = ps_options opts 1 wanted"
| "ps_options (Opt_p # opts) sort_by wanted = ps_options opts 2 wanted"
| "ps_options (Opt_u u # opts) sort_by wanted = (if 65 \<le> length u then None else ps_options opts sort_by (Some u))"
| "ps_options (Opt_other # opts) sort_by wanted = ps_options opts sort_by wanted"

datatype ps_output = Invalid_user string | Table "ps_row list"

definition order_ps :: "((psinfo \<Rightarrow> psinfo \<Rightarrow> int) \<Rightarrow> psinfo list \<Rightarrow> psinfo list) \<Rightarrow> nat \<Rightarrow> psinfo list \<Rightarrow> psinfo list" where
  "order_ps qsort sort_by pses =
     (if sort_by = 1 then qsort psinfo_cmp_vsize pses
      else if sort_by = 2 then qsort psinfo_cmp_cputime pses
      else pses)"

definition myps ::
  "((psinfo \<Rightarrow> psinfo \<Rightarrow> int) \<Rightarrow> psinfo list \<Rightarrow> psinfo list) \<Rightarrow> proc_env \<Rightarrow> string list \<Rightarrow> ps_opt list \<Rightarrow> ps_output option" where
  "myps qsort e entries opts =
     do {
       (sort_by, wanted) \<leftarrow> ps_options opts 0 None;
       pses \<leftarrow> collect e wanted entries;
       if 1024 \<le> length pses then None
       else Some (case wanted of
           Some user \<Rightarrow> if pses = [] then Invalid_user user else Table (print_all_ps (order_ps qsort sort_by pses))
         | None \<Rightarrow> Table (print_all_ps (order_ps qsort sort_by pses)))
     }"

section \<open>\<open>info.c\<close>\<close>

text \<open>Seconds since the start, never negative, as days, hours, minutes and seconds.\<close>

definition uptime :: "string \<Rightarrow> (int \<times> int \<times> int \<times> int) option" where
  "uptime file =
     do {
       (seconds, _) \<leftarrow> scan_int file;
       let day = seconds div (24 * 3600);
           seconds1 = seconds - day * (24 * 3600);
           hour = seconds1 div 3600;
           seconds2 = seconds1 - hour * 3600;
           minute = seconds2 div 60
       in Some (day, hour, minute, seconds2 - minute * 60)
     }"

text \<open>\<open>sscanf\<close> with \<open>%*s%d\<close>: skip a word, read a number.\<close>

definition scan_second :: "string \<Rightarrow> int option" where
  "scan_second line =
     map_option fst (scan_int (dropWhile (\<lambda>c. \<not> is_space c) (dropWhile is_space line)))"

text \<open>The line goes into a buffer of 25 characters, the next one into one of 128.\<close>

definition meminfo :: "string \<Rightarrow> string \<Rightarrow> (int \<times> int) option" where
  "meminfo total_line free_line =
     (if 25 \<le> length total_line \<or> 128 \<le> length free_line then None
      else do {
        num_total \<leftarrow> scan_second total_line;
        num_free \<leftarrow> scan_second free_line;
        Some (num_total - num_free, num_total)
      })"

record cpustat =
  cs_total :: u64
  cs_used :: u64

text \<open>
  Numbers read with \<open>%ld\<close> one after the other, clamped to the range of \<open>long\<close>; those that cannot be
  read leave the variables as they are.
\<close>

fun scan_fields :: "string \<Rightarrow> u64 list \<Rightarrow> u64 list" where
  "scan_fields cs [] = []"
| "scan_fields cs (v # vs) =
     (case scan_int cs of None \<Rightarrow> v # vs
       | Some (n, rest) \<Rightarrow> word_of_int (max (- (2 ^ 63)) (min (2 ^ 63 - 1) n)) # scan_fields rest vs)"

definition scan_cpu :: "string \<Rightarrow> u64 list \<Rightarrow> u64 list" where
  "scan_cpu line vs =
     (if take 3 line \<noteq> ''cpu'' then vs
      else case scan_int (drop 3 line) of None \<Rightarrow> vs | Some (n, rest) \<Rightarrow> scan_fields rest vs)"

text \<open>
  The variables in the order user, nice, system, idle, iowait, irq, softirq, steal, guest, guest-nice;
  they keep their values from one line to the next.
\<close>

definition cpu_stat :: "u64 list \<Rightarrow> cpustat" where
  "cpu_stat vs = (let total = sum_list vs in \<lparr>cs_total = total, cs_used = total - vs ! 4 - vs ! 3\<rparr>)"

fun get_cpu_usage :: "string list \<Rightarrow> u64 list \<Rightarrow> cpustat list" where
  "get_cpu_usage [] vs = []"
| "get_cpu_usage (line # lines) vs =
     (let vs1 = scan_cpu line vs in cpu_stat vs1 # get_cpu_usage lines vs1)"

text \<open>The first line of \<open>/proc/stat\<close> is skipped; the lines that start with \<open>cpu\<close> after it are counted.\<close>

definition cpu_usage :: "string list \<Rightarrow> u64 list \<Rightarrow> cpustat list" where
  "cpu_usage file junk =
     (let lines = tl file;
          num_cpu = length (takeWhile (\<lambda>l. take 3 l = ''cpu'') lines)
      in get_cpu_usage (take num_cpu lines) junk)"

end
