(* ===== verification/Proc_Props.thy ===== *)
theory Proc_Props
  imports Proc_Info
begin

text \<open>
  What the programs of \<open>HW1\<close> print: the listing is in order and its times add up while the values stay
  below the range of the comparators, and the lines of \<open>/proc\<close> are read back as the kernel writes them.
\<close>

section \<open>Order of the listing\<close>

text \<open>What \<open>qsort\<close> asks of a comparator on the elements it sorts, and what it then promises.\<close>

definition consistent :: "('a \<Rightarrow> 'a \<Rightarrow> int) \<Rightarrow> 'a set \<Rightarrow> bool" where
  "consistent cmp A \<longleftrightarrow> (\<forall>x \<in> A. \<forall>y \<in> A. cmp x y \<le> 0 \<or> cmp y x \<le> 0) \<and>
     (\<forall>x \<in> A. \<forall>y \<in> A. \<forall>z \<in> A. cmp x y \<le> 0 \<longrightarrow> cmp y z \<le> 0 \<longrightarrow> cmp x z \<le> 0)"

definition qsort_ok :: "((psinfo \<Rightarrow> psinfo \<Rightarrow> int) \<Rightarrow> psinfo list \<Rightarrow> psinfo list) \<Rightarrow> bool" where
  "qsort_ok qsort \<longleftrightarrow> (\<forall>cmp xs. consistent cmp (set xs) \<longrightarrow>
     mset (qsort cmp xs) = mset xs \<and> sorted_wrt (\<lambda>x y. cmp x y \<le> 0) (qsort cmp xs))"

lemma consistent_total: "consistent cmp A \<Longrightarrow> x \<in> A \<Longrightarrow> y \<in> A \<Longrightarrow> \<not> cmp x y \<le> 0 \<Longrightarrow> cmp y x \<le> 0"
  unfolding consistent_def by (drule conjunct1) blast

lemma consistent_trans:
  "consistent cmp A \<Longrightarrow> x \<in> A \<Longrightarrow> y \<in> A \<Longrightarrow> z \<in> A \<Longrightarrow> cmp x y \<le> 0 \<Longrightarrow> cmp y z \<le> 0 \<Longrightarrow> cmp x z \<le> 0"
  unfolding consistent_def by (drule conjunct2) blast

lemma consistent_mono: "consistent cmp B \<Longrightarrow> A \<subseteq> B \<Longrightarrow> consistent cmp A"
  unfolding consistent_def by (meson subsetD)

lemma sint_word_of_int_small: "- (2 ^ 31) \<le> k \<Longrightarrow> k < 2 ^ 31 \<Longrightarrow> sint (word_of_int k :: u32) = k"
  by transfer (simp add: signed_take_bit_int_eq_self)

lemma ucast_diff: "(ucast (b - a :: u64) :: u32) = word_of_int (uint b - uint a)"
proof (transfer, simp)
  fix a b :: int
  show "take_bit 32 (b - a) = take_bit 32 (take_bit 64 b - take_bit 64 a)"
    using take_bit_diff[of 32 "take_bit 64 b" "take_bit 64 a"] take_bit_diff[of 32 b a] by simp
qed

lemma compare_desc_small:
  assumes "a < 2 ^ 31" "b < 2 ^ 31"
  shows "compare_desc a b \<le> 0 \<longleftrightarrow> b \<le> a"
proof -
  have "uint a < 2 ^ 31" "uint b < 2 ^ 31" using assms by (simp_all add: word_less_def)
  then have "sint (word_of_int (uint b - uint a) :: u32) = uint b - uint a"
    using uint_nonnegative[of a] uint_nonnegative[of b] by (intro sint_word_of_int_small) linarith+
  then show ?thesis by (simp add: compare_desc_def ucast_diff word_le_def)
qed

lemma compare_desc_wrong_sign: "compare_desc 0 (2 ^ 31) < 0" "compare_desc (2 ^ 31) 0 < 0"
  by (simp_all add: compare_desc_def) 

lemma compare_sorted:
  assumes q: "qsort_ok qsort" and k: "\<forall>p \<in> set pses. key p < 2 ^ 31" and c: "\<And>a b. cmp a b = compare_desc (key a) (key b)"
  shows "mset (qsort cmp pses) = mset pses \<and> sorted_wrt (\<lambda>a b. key b \<le> key a) (qsort cmp pses)"
proof -
  have le: "cmp x y \<le> 0 \<longleftrightarrow> key y \<le> key x" if "x \<in> set pses" "y \<in> set pses" for x y
    using k that compare_desc_small by (simp add: c)
  have tot: "\<forall>x \<in> set pses. \<forall>y \<in> set pses. cmp x y \<le> 0 \<or> cmp y x \<le> 0" by (simp add: le linear)
  have tr: "\<forall>x \<in> set pses. \<forall>y \<in> set pses. \<forall>z \<in> set pses. cmp x y \<le> 0 \<longrightarrow> cmp y z \<le> 0 \<longrightarrow> cmp x z \<le> 0"
    by (auto simp: le)
  have "consistent cmp (set pses)" using tot tr unfolding consistent_def by (rule conjI)
  note s = mp[OF spec[OF spec[OF q[unfolded qsort_ok_def], of cmp], of pses], OF this]
  note s = conjunct1[OF s] conjunct2[OF s]
  have "set (qsort cmp pses) = set pses" using s(1) by (rule mset_eq_setD)
  then have "sorted_wrt (\<lambda>a b. key b \<le> key a) (qsort cmp pses)"
    using s(2) le by (auto elim!: sorted_wrt_mono_rel[rotated])
  with s(1) show ?thesis by blast
qed

section \<open>The time column\<close>

definition row_seconds :: "ps_row \<Rightarrow> int" where
  "row_seconds r = 3600 * row_hour r + 60 * row_minute r + row_second r"

lemma word_small:
  assumes "n < 2 ^ 31"
  shows "sint (of_nat n :: u32) = int n" "(scast (of_nat n :: u32) :: u64) = of_nat n"
proof -
  show s: "sint (of_nat n :: u32) = int n" using sint_word_of_int_small[of "int n"] assms by simp
  have "(scast (of_nat n :: u32) :: u64) = word_of_int (sint (of_nat n :: u32))" by simp
  then show "(scast (of_nat n :: u32) :: u64) = of_nat n" unfolding s by simp
qed

lemma ucast_of_nat64: "n < 2 ^ 31 \<Longrightarrow> (ucast (of_nat n :: u64) :: u32) = of_nat n"
  by transfer (simp add: take_bit_nat_eq_self)

lemma div_of_nat64: "n < 2 ^ 31 \<Longrightarrow> m < 2 ^ 31 \<Longrightarrow> (of_nat n :: u64) div of_nat m = of_nat (n div m)"
  by (simp add: word_arith_nat_div unat_of_nat)

lemma print_ps_time:
  assumes "pi_cputime ps < 2 ^ 31"
  shows "row_seconds (print_ps ps) = uint (pi_cputime ps)"
    "row_minute (print_ps ps) \<in> {0..<60}" "row_second (print_ps ps) \<in> {0..<60}"
proof -
  define n where "n = unat (pi_cputime ps)"
  have n: "n < 2 ^ 31" "pi_cputime ps = of_nat n"
    using assms by (simp_all add: n_def word_less_nat_alt)
  let ?h = "n div 3600" let ?r = "n mod 3600" let ?m = "n mod 3600 div 60"
  have "?h * 3600 \<le> n" "?h \<le> n" "?r \<le> n" "?m \<le> n" "?m * 60 \<le> n" "n mod 3600 mod 60 \<le> n"
    using le_trans[OF div_le_dividend mod_less_eq_dividend] le_trans[OF div_times_less_eq_dividend mod_less_eq_dividend]
      le_trans[OF mod_less_eq_dividend mod_less_eq_dividend] by (simp_all add: div_times_less_eq_dividend)
  then have b: "?h * 3600 < 2 ^ 31" "?h < 2 ^ 31" "?r < 2 ^ 31" "?m < 2 ^ 31" "?m * 60 < 2 ^ 31" "n mod 3600 mod 60 < 2 ^ 31"
    using n(1) by (simp_all only: le_less_trans)
  have h: "(ucast (pi_cputime ps div 3600) :: u32) = of_nat ?h"
    using div_of_nat64[of n 3600] ucast_of_nat64[of ?h] n b by simp
  have "(of_nat ?h :: u32) * 3600 = of_nat (?h * 3600)" by simp
  then have t1: "pi_cputime ps - scast ((of_nat ?h :: u32) * 3600) = of_nat ?r"
    using word_small(2)[OF b(1)] n(2) by (simp add: minus_mult_div_eq_mod[symmetric] of_nat_diff mult.commute)
  have m: "(ucast ((of_nat ?r :: u64) div 60) :: u32) = of_nat ?m"
    using div_of_nat64[of ?r 60] ucast_of_nat64[of ?m] b by simp
  have "(of_nat ?m :: u32) * 60 = of_nat (?m * 60)" by simp
  then have t2: "of_nat ?r - scast ((of_nat ?m :: u32) * 60) = (of_nat (?r mod 60) :: u64)"
    using word_small(2)[OF b(5)] by (simp add: minus_mult_div_eq_mod[symmetric] of_nat_diff mult.commute)
  have s: "(ucast (of_nat (?r mod 60) :: u64) :: u32) = of_nat (?r mod 60)" using ucast_of_nat64[OF b(6)] .
  have p: "row_hour (print_ps ps) = int ?h" "row_minute (print_ps ps) = int ?m" "row_second (print_ps ps) = int (?r mod 60)"
    unfolding print_ps_def Let_def h t1 m t2 s using word_small(1)[OF b(2)] word_small(1)[OF b(4)] word_small(1)[OF b(6)] by simp_all
  have e: "3600 * ?h + 60 * ?m + ?r mod 60 = n"
    using mult_div_mod_eq[of 3600 n] mult_div_mod_eq[of 60 ?r] by linarith
  have "uint (pi_cputime ps) = int n" by (simp add: n_def)
  also have "\<dots> = 3600 * int ?h + 60 * int ?m + int (?r mod 60)" using e by linarith
  finally show "row_seconds (print_ps ps) = uint (pi_cputime ps)" by (simp add: row_seconds_def p)
  show "row_minute (print_ps ps) \<in> {0..<60}" "row_second (print_ps ps) \<in> {0..<60}" unfolding p using div_less_iff_less_mult[of 60 ?r 60] by simp_all
qed


section \<open>The line of \<open>stat\<close>\<close>

fun join :: "char \<Rightarrow> string list \<Rightarrow> string" where
  "join d [] = []"
| "join d [w] = w"
| "join d (w # v # ws) = w @ d # join d (v # ws)"

definition token :: "char \<Rightarrow> string \<Rightarrow> bool" where
  "token d w \<longleftrightarrow> w \<noteq> [] \<and> d \<notin> set w"

lemma strtok_word:
  assumes "token d w" "rest = [] \<or> hd rest = d"
  shows "strtok d (w @ rest) = w # strtok d rest"
proof -
  obtain c cs where w: "w = c # cs" "c \<noteq> d" using assms(1) by (cases w) (auto simp: token_def)
  have n: "\<forall>x \<in> set w. x \<noteq> d" using assms(1) by (auto simp: token_def)
  have r: "takeWhile (\<lambda>c. c \<noteq> d) rest = []" "dropWhile (\<lambda>c. c \<noteq> d) rest = rest" using assms(2) by (cases rest; simp)+
  have "takeWhile (\<lambda>c. c \<noteq> d) (w @ rest) = w" "dropWhile (\<lambda>c. c \<noteq> d) (w @ rest) = rest"
    using n r by (simp_all add: takeWhile_append2 dropWhile_append2)
  then show ?thesis using w by (subst strtok.simps) simp
qed

lemma strtok_skip: "strtok d (d # xs) = strtok d xs"
  by (subst (1 2) strtok.simps) simp

lemma strtok_Nil [simp]: "strtok d [] = []"
  by (subst strtok.simps) simp

lemma strtok_join: "list_all (token d) ws \<Longrightarrow> strtok d (join d ws) = ws"
proof (induction d ws rule: join.induct)
  case (2 d w)
  then show ?case using strtok_word[of d w "[]"] by simp
next
  case (3 d w v ws)
  then show ?case by (simp add: strtok_word strtok_skip)
qed simp

text \<open>The kernel writes pid, name in parentheses, state and the numeric fields.\<close>

definition stat_line :: "nat \<Rightarrow> string \<Rightarrow> string \<Rightarrow> u64 list \<Rightarrow> string" where
  "stat_line pid name state fs =
     join (CHR '' '') (show_nat pid # (CHR ''('' # name @ '')'') # state # map (\<lambda>f. show_nat (unat f)) fs)"

lemma show_nat_token: "token (CHR '' '') (show_nat n)"
proof -
  have "\<not> is_digit (CHR '' '')" by (simp add: is_digit_def)
  then show ?thesis using show_nat_digits[of n] by (auto simp: token_def list_all_iff)
qed

text \<open>
  A line of \<open>/proc/pid/stat\<close> for a process whose name has no spaces is read back: name, user time,
  system time and size.
\<close>

theorem read_stat_roundtrip:
  assumes "CHR '' '' \<notin> set name" "length name < 65" "token (CHR '' '') state" "length fs > 19"
  shows "read_stat (stat_line pid name state fs) = Some (name, fs ! 10, fs ! 11, fs ! 19)"
proof -
  have "strtok (CHR '' '') (stat_line pid name state fs)
      = show_nat pid # (CHR ''('' # name @ '')'') # state # map (\<lambda>f. show_nat (unat f)) fs"
    unfolding stat_line_def using assms show_nat_token
    by (intro strtok_join) (auto simp: token_def list_all_iff)
  then show ?thesis using assms by (simp add: read_stat_def Let_def nth_Cons')
qed

text \<open>A name with a space moves every field: the name is cut and the times are those of other fields.\<close>

lemma read_stat_name_with_space:
  assumes "token (CHR '' '') a" "token (CHR '' '') b" "length a < 65" "token (CHR '' '') state" "length fs > 19"
  shows "read_stat (stat_line pid (a @ CHR '' '' # b) state fs) = Some (butlast a, fs ! 9, fs ! 10, fs ! 18)"
proof -
  let ?ws = "show_nat pid # (CHR ''('' # a) # (b @ '')'') # state # map (\<lambda>f. show_nat (unat f)) fs"
  have e: "stat_line pid (a @ CHR '' '' # b) state fs = join (CHR '' '') ?ws"
    by (simp add: stat_line_def)
  have "strtok (CHR '' '') (stat_line pid (a @ CHR '' '' # b) state fs) = ?ws"
    unfolding e using assms show_nat_token by (intro strtok_join) (auto simp: token_def list_all_iff)
  moreover obtain x xs where "a = x # xs" using assms(1) by (cases a) (auto simp: token_def)
  ultimately show ?thesis using assms by (simp add: read_stat_def Let_def nth_Cons' butlast_conv_take)
qed

section \<open>The lines of \<open>/proc/stat\<close>\<close>

definition cpu_line :: "nat \<Rightarrow> u64 list \<Rightarrow> string" where
  "cpu_line i vs = ''cpu'' @ show_nat i @ concat (map (\<lambda>v. CHR '' '' # show_nat (unat v)) vs) @ [NEWLINE]"

lemma not_digit [simp]: "\<not> is_digit (CHR '' '')" "\<not> is_digit NEWLINE" "is_space (CHR '' '')"
  by (simp_all add: is_digit_def is_space_def NEWLINE_def)

lemma numbers_no_digit: "\<not> is_digit (hd (concat (map (\<lambda>v. CHR '' '' # show_nat (unat v)) vs) @ [NEWLINE]))"
  by (cases vs) simp_all

lemma scan_fields_line:
  assumes "list_all (\<lambda>v. v < 2 ^ 63) vs" "length ws = length vs"
  shows "scan_fields (concat (map (\<lambda>v. CHR '' '' # show_nat (unat v)) vs) @ [NEWLINE]) ws = vs"
  using assms
proof (induction vs arbitrary: ws)
  case (Cons v vs)
  let ?r = "concat (map (\<lambda>v. CHR '' '' # show_nat (unat v)) vs) @ [NEWLINE]"
  obtain w ws' where ws: "ws = w # ws'" "length ws' = length vs" using Cons.prems(2) by (cases ws) auto
  have "scan_int (CHR '' '' # show_nat (unat v) @ ?r) = Some (int (unat v), ?r)"
    using scan_show_nat[of ?r "unat v"] numbers_no_digit[of vs] by (simp add: scan_show_nat_blank)
  moreover have "int (unat v) \<le> 2 ^ 63 - 1" using Cons.prems(1) by (simp add: word_less_def)
  moreover have "max (- (2 ^ 63)) (int (unat v)) = int (unat v)"
    by (rule max_absorb2) (rule order_trans[of _ 0], simp_all)
  ultimately show ?case using Cons ws by (simp add: min_def)
qed simp

lemma scan_cpu_line:
  assumes "list_all (\<lambda>v. v < 2 ^ 63) vs" "length ws = length vs"
  shows "scan_cpu (cpu_line i vs) ws = vs"
proof -
  let ?r = "concat (map (\<lambda>v. CHR '' '' # show_nat (unat v)) vs) @ [NEWLINE]"
  have "scan_int (show_nat i @ ?r) = Some (int i, ?r)"
    using scan_show_nat[of ?r i] numbers_no_digit[of vs] by simp
  then show ?thesis using scan_fields_line[OF assms] by (simp add: scan_cpu_def cpu_line_def)
qed

lemma get_cpu_usage_lines:
  assumes "list_all (\<lambda>(i, vs). list_all (\<lambda>v. v < 2 ^ 63) vs \<and> length vs = 10) cpus" "length ws = 10"
  shows "get_cpu_usage (map (\<lambda>(i, vs). cpu_line i vs) cpus) ws = map (\<lambda>(i, vs). cpu_stat vs) cpus"
  using assms by (induction cpus arbitrary: ws) (auto simp: scan_cpu_line Let_def)

text \<open>
  From a file with one line for each CPU the monitor computes the sum of the ten counters and, as used
  time, the sum of all but idle and waiting time, whatever its variables held before.
\<close>

theorem cpu_usage_roundtrip:
  assumes "list_all (\<lambda>(i, vs). list_all (\<lambda>v. v < 2 ^ 63) vs \<and> length vs = 10) cpus" "length junk = 10"
    "others = [] \<or> take 3 (hd others) \<noteq> ''cpu''"
  shows "cpu_usage (first # map (\<lambda>(i, vs). cpu_line i vs) cpus @ others) junk
    = map (\<lambda>(i, vs). \<lparr>cs_total = sum_list vs,
        cs_used = vs ! 0 + vs ! 1 + vs ! 2 + vs ! 5 + vs ! 6 + vs ! 7 + vs ! 8 + vs ! 9\<rparr>) cpus"
proof -
  let ?ls = "map (\<lambda>(i, vs). cpu_line i vs) cpus"
  have c: "\<forall>l \<in> set ?ls. take 3 l = ''cpu''" by (auto simp: cpu_line_def)
  have m: "takeWhile (\<lambda>l. take 3 l = ''cpu'') others = []" using assms(3) by (cases others) simp_all
  have "takeWhile (\<lambda>l. take 3 l = ''cpu'') (?ls @ others) = ?ls @ takeWhile (\<lambda>l. take 3 l = ''cpu'') others"
    by (rule takeWhile_append2) (use c in blast)
  then have "takeWhile (\<lambda>l. take 3 l = ''cpu'') (?ls @ others) = ?ls" unfolding m by simp
  then have "cpu_usage (first # ?ls @ others) junk = map (\<lambda>(i, vs). cpu_stat vs) cpus"
    using get_cpu_usage_lines[OF assms(1,2)] by (simp add: cpu_usage_def Let_def)
  also have "\<dots> = map (\<lambda>(i, vs). \<lparr>cs_total = sum_list vs,
        cs_used = vs ! 0 + vs ! 1 + vs ! 2 + vs ! 5 + vs ! 6 + vs ! 7 + vs ! 8 + vs ! 9\<rparr>) cpus"
  proof (rule map_cong[OF refl], clarify)
    fix i vs assume "(i, vs) \<in> set cpus"
    then have "length vs = Suc (Suc (Suc (Suc (Suc (Suc (Suc (Suc (Suc (Suc 0)))))))))"
      using assms(1) by (auto simp: list_all_iff)
    then show "cpu_stat vs = \<lparr>cs_total = sum_list vs,
        cs_used = vs ! 0 + vs ! 1 + vs ! 2 + vs ! 5 + vs ! 6 + vs ! 7 + vs ! 8 + vs ! 9\<rparr>"
      by (auto simp: cpu_stat_def length_Suc_conv Let_def)
  qed
  finally show ?thesis .
qed

section \<open>Memory and uptime\<close>

lemma meminfo_overruns_buffer:
  "8 \<le> length digits \<Longrightarrow> meminfo (''MemTotal:       '' @ digits @ '' kB'' @ [NEWLINE]) free_line = None"
  by (simp add: meminfo_def)

lemma uptime_parts:
  assumes "uptime (show_nat n @ CHR ''.'' # file) = Some (d, h, m, s)"
  shows "int n = ((d * 24 + h) * 60 + m) * 60 + s \<and> 0 \<le> h \<and> h < 24 \<and> 0 \<le> m \<and> m < 60 \<and> 0 \<le> s \<and> s < 60"
proof -
  have "\<not> is_digit (CHR ''.'')" by (simp add: is_digit_def)
  then have "scan_int (show_nat n @ CHR ''.'' # file) = Some (int n, CHR ''.'' # file)"
    using scan_show_nat[of "CHR ''.'' # file" n] by simp
  then have p: "d = int n div 86400" "h = (int n - d * 86400) div 3600" "m = (int n - d * 86400 - h * 3600) div 60"
    "s = int n - d * 86400 - h * 3600 - m * 60"
    using assms by (auto simp: uptime_def Let_def)
  have r1: "int n - d * 86400 = int n mod 86400" unfolding p(1) by (rule minus_div_mult_eq_mod)
  have r2: "int n - d * 86400 - h * 3600 = int n mod 86400 mod 3600" unfolding p(2) r1 by (rule minus_div_mult_eq_mod)
  have r3: "s = int n mod 86400 mod 3600 mod 60" unfolding p(4) p(3) r2 by (rule minus_div_mult_eq_mod)
  have "0 \<le> h" "h < 24" "0 \<le> m" "m < 60" unfolding p(2,3) r1 r2
    using pos_mod_bound[of 86400 "int n"] pos_mod_bound[of 3600 "int n mod 86400"] by (auto simp: div_less_iff_less_mult)
  moreover have "0 \<le> s" "s < 60" unfolding r3 by simp_all
  moreover have "int n = ((d * 24 + h) * 60 + m) * 60 + s" using p(4) by (simp add: algebra_simps)
  ultimately show ?thesis by blast
qed


section \<open>Instances\<close>

fun insert_by :: "(psinfo \<Rightarrow> psinfo \<Rightarrow> int) \<Rightarrow> psinfo \<Rightarrow> psinfo list \<Rightarrow> psinfo list" where
  "insert_by cmp x [] = [x]"
| "insert_by cmp x (y # ys) = (if cmp x y \<le> 0 then x # y # ys else y # insert_by cmp x ys)"

fun sort_by_cmp :: "(psinfo \<Rightarrow> psinfo \<Rightarrow> int) \<Rightarrow> psinfo list \<Rightarrow> psinfo list" where
  "sort_by_cmp cmp [] = []"
| "sort_by_cmp cmp (x # xs) = insert_by cmp x (sort_by_cmp cmp xs)"

lemma mset_insert_by: "mset (insert_by cmp x xs) = add_mset x (mset xs)"
  by (induction xs) auto

lemma mset_sort_by_cmp: "mset (sort_by_cmp cmp xs) = mset xs"
  by (induction xs) (simp_all add: mset_insert_by)

lemma sorted_insert_by:
  assumes "consistent cmp (insert x (set xs))" "sorted_wrt (\<lambda>a b. cmp a b \<le> 0) xs"
  shows "sorted_wrt (\<lambda>a b. cmp a b \<le> 0) (insert_by cmp x xs)"
  using assms
proof (induction xs)
  case (Cons y ys)
  have s: "set (insert_by cmp x ys) = insert x (set ys)" using arg_cong[OF mset_insert_by[of cmp x ys], of set_mset] by simp
  have "consistent cmp (insert x (set ys))" using Cons.prems(1) by (rule consistent_mono) auto
  then have ih: "sorted_wrt (\<lambda>a b. cmp a b \<le> 0) (insert_by cmp x ys)" using Cons.IH Cons.prems(2) by simp
  show ?case
  proof (cases "cmp x y \<le> 0")
    case True
    have "cmp x b \<le> 0" if b: "b \<in> set ys" for b
      using consistent_trans[OF Cons.prems(1), of x y b] True b Cons.prems(2) by simp
    then show ?thesis using True Cons.prems(2) by simp
  next
    case False
    then have "cmp y x \<le> 0" using consistent_total[OF Cons.prems(1), of x y] by simp
    then show ?thesis using False ih Cons.prems(2) by (simp add: s)
  qed
qed simp

lemma sorted_sort_by_cmp: "consistent cmp (set xs) \<Longrightarrow> sorted_wrt (\<lambda>x y. cmp x y \<le> 0) (sort_by_cmp cmp xs)"
proof (induction xs)
  case (Cons x xs)
  have "set (sort_by_cmp cmp xs) = set xs" using mset_sort_by_cmp by (rule mset_eq_setD)
  moreover have "consistent cmp (set xs)" using Cons.prems by (rule consistent_mono) auto
  ultimately show ?case using Cons sorted_insert_by by simp
qed simp

lemma qsort_ok_insertion: "qsort_ok sort_by_cmp"
  by (simp add: qsort_ok_def mset_sort_by_cmp sorted_sort_by_cmp)

text \<open>Two processes: the second has run longer.\<close>

definition demo_proc :: proc_env where
  "demo_proc = \<lparr>pe_status = (\<lambda>_. Some [join TAB [''Uid:'', show_nat 0, show_nat 0]]),
     pe_stat = (\<lambda>pid. Some (stat_line 1 ''a'' ''S'' [0, 0, 0, 0, 0, 0, 0, 0, 0, 0, if pid = 1 then 100 else 400000, 0,
        0, 0, 0, 0, 0, 0, 0, 5000])),
     pe_user = (\<lambda>_. Some ''root''), pe_clk_tck = 100\<rparr>"

definition demo_ps :: "int \<Rightarrow> u64 \<Rightarrow> psinfo" where
  "demo_ps pid t = \<lparr>pi_pid = pid, pi_name = ''a'', pi_vsize = 5, pi_cputime = t, pi_user = ''root''\<rparr>"

lemma demo_uid: "read_uid [join TAB [''Uid:'', show_nat 0, show_nat 0]] = Some 0"
proof -
  have "\<not> is_digit TAB" by (simp add: TAB_def is_digit_def)
  then have "token TAB (show_nat 0)" using show_nat_digits[of 0] by (auto simp: token_def list_all_iff)
  then have "strtok TAB (join TAB [''Uid:'', show_nat 0, show_nat 0]) = [''Uid:'', show_nat 0, show_nat 0]"
    by (intro strtok_join) (simp add: token_def TAB_def)
  then show ?thesis using strtoul_show_nat[of 0] by (simp del: join.simps)
qed

lemma demo_proc_collect:
  "collect demo_proc None [show_nat 1, ''self'', show_nat 2] = Some [demo_ps 1 1, demo_ps 2 4000]"
proof -
  have n: "scan_int (show_nat 1) = Some (1, [])" "scan_int (show_nat 2) = Some (2, [])" "scan_int ''self'' = None"
    using scan_show_nat[of "[]" 1] scan_show_nat[of "[]" 2] by (simp_all add: scan_int_def is_space_def is_digit_def)
  have "make_ps demo_proc pid ''root'' = Some (demo_ps pid (if pid = 1 then 1 else 4000))" for pid
    by (simp add: make_ps_def demo_proc_def demo_ps_def read_stat_roundtrip token_def)
  moreover have "pe_status demo_proc pid = Some [join TAB [''Uid:'', show_nat 0, show_nat 0]]" "pe_user demo_proc u = Some ''root''" for pid u
    by (simp_all add: demo_proc_def)
  ultimately show ?thesis using demo_uid n by (simp del: join.simps read_uid.simps)
qed


theorem read_stat_roundtrip_witness:
  "read_stat (stat_line 7 ''bash'' ''S'' [0, 0, 0, 0, 0, 0, 0, 0, 0, 0, 3, 4, 0, 0, 0, 0, 0, 0, 0, 8192]) = Some (''bash'', 3, 4, 8192)"
  using read_stat_roundtrip[of "''bash''" "''S''" "[0, 0, 0, 0, 0, 0, 0, 0, 0, 0, 3, 4, 0, 0, 0, 0, 0, 0, 0, 8192]" 7]
  by (simp add: token_def)

theorem cpu_usage_roundtrip_witness:
  "cpu_usage [''cpu  1'', cpu_line 0 [1, 2, 3, 4, 5, 6, 7, 8, 9, 10], ''intr 0''] (replicate 10 0)
     = [\<lparr>cs_total = 55, cs_used = 46\<rparr>]"
  using cpu_usage_roundtrip[of "[(0, [1, 2, 3, 4, 5, 6, 7, 8, 9, 10])]" "replicate 10 0" "[''intr 0'']" "''cpu  1''"]
  by simp

end
