(* ===== verification/Spec2Isabelle.thy ===== *)
theory Spec2Isabelle
  imports Sched_Push Sched_Ttwu Sched_Rt_Bandwidth Sched_Rt_Hier_Save Sched_Policy Sched_Group_Files Sched_Lock_Inv Sched_Attr_Props
    Sched_Hotplug_Props Sched_Entry_Props Sched_Boot_Props Sched_Hrtick Sched_Checks Sched_Dl_Bw Xmerge_Props Xmerge_Main Drivers Mysum Shell_Args Shell_Table Shell_Fds Proc_Props
begin

text \<open>
  Verification of the programs of a kernel-programming course (sources under \<open>src/\<close>): a Linux 4.x
  scheduler extended by a time-sharing class, a system call that merges files, character drivers and
  small kernel modules, a shell with job control, and programs that read \<open>/proc\<close>.

  \<^bold>\<open>The parts and how they interact.\<close>  \<open>HW5-scheduler/kernel/sched\<close> is the largest.  \<open>core.c\<close> holds
  the paths every task takes (wakeup, \<open>schedule\<close>, tick, fork, the system calls on policies) and calls
  the scheduling classes through their tables of operations; \<open>ts.c\<close> is the class the course adds,
  \<open>rt.c\<close> the real-time class with its load balancing.  The shell, the merge, the drivers and the
  programs of \<open>HW1\<close> are separate.

  \<^bold>\<open>Scheduler: model.\<close>  \<open>Sched_Types\<close> has the records (\<open>task_struct\<close>, \<open>rq\<close>, \<open>rt_rq\<close>, \<open>ts_rq\<close>,
  \<open>root_domain\<close>) and constants of \<open>include/linux/sched.h\<close> and \<open>sched.h\<close>, and the state \<open>sys\<close> of the
  machine: all tasks, all run queues, the root domain, and the first fault (a \<open>BUG\<close> or a corrupted
  list) if one has been hit.  Each C function is a function on \<open>sys\<close> with the name of the source.
  \<open>Sched_Base\<close>: clocks, reschedule requests, counters (\<open>core.c\<close>, \<open>sched.h\<close>).  \<open>Sched_Ts\<close>: all of \<open>ts.c\<close>.
  \<open>Sched_Rt\<close>: queues, throttling, runtime and period timer of \<open>rt.c\<close>; \<open>Sched_Balance\<close>: its push and
  pull; \<open>Sched_Rt_Hier\<close>: the queues of task groups, one below the other, of \<open>CONFIG_RT_GROUP_SCHED\<close> on one CPU.
  \<open>Sched_Class\<close>: class dispatch, affinity and migration of \<open>core.c\<close>; \<open>Sched_Prio\<close>: priorities and
  weights; \<open>Sched_Wakeup\<close>: \<open>try_to_wake_up\<close> and fork; \<open>Sched_Core\<close>: \<open>pick_next_task\<close>, \<open>__schedule\<close>,
  \<open>context_switch\<close>, tick, yield; \<open>Sched_Params\<close>: nice, priority inheritance and the policy calls.
  \<open>Sched_Attr\<close>: the same calls with the bytes of the user's structures and masks.  \<open>Sched_Entry\<close>: the ways
  into \<open>__schedule\<close> with the preemption count, waiting for a task, giving way.  \<open>Sched_Hotplug\<close>: CPUs that come
  and go and the remote tick.  \<open>Sched_Boot\<close>: \<open>sched_init\<close> and the idle tasks.  \<open>Sched_Group\<close>: the tree of task
  groups, admission of bandwidth, control files and the global real-time limits.  \<open>Sched_Dl_Bw\<close>: the account of
  deadline bandwidth of a root domain (\<open>sched.h\<close>), which stays within its CPUs.  \<open>Sched_Hrtick\<close>: the high-resolution timer
  of a run queue, with at most one call on its way to a CPU, and the kicks for CPUs without a tick.  \<open>Sched_Checks\<close>:
  preemption notifiers, the switches of statistics, the checks for sleeping and for stale clocks, and untraced
  preemption, which does what \<open>preempt_schedule\<close> does.
  In these theories a function runs alone.  Where the source drops a lock and retries, what
  other CPUs do meanwhile is an argument (\<open>kenv\<close>).  The classes whose files are absent (stop,
  deadline, fair, idle), \<open>cpupri\<close>, domains and cpusets are records of operations given as arguments.
  \<open>Sched_Lock\<close> models the locks themselves: the locking functions of \<open>sched.h\<close> and \<open>core.c\<close>, the locking of
  the paths that call them, and any number of threads whose steps interleave.

  \<^bold>\<open>Scheduler: results.\<close>  \<open>Level_Queue\<close> is the contract of a priority array as a locale; \<open>Sched_Ts\<close>
  and \<open>Sched_Rt_Queue\<close> interpret it on the queues of the two classes.  \<open>Sched_Ts\<close>: every run of class
  operations keeps the queues well formed and never faults, round robin reaches every task of the
  best level, slices expire as the dispatch table says.  \<open>Sched_Rt_Inv\<close>: the same for the real-time
  class with its bitmap, counters, pushable list and overload mark.  \<open>Sched_Rt_Bandwidth\<close>: lending
  conserves runtime, going offline reclaims it, throttling is undone by the timer, round-robin
  slices.  \<open>Sched_Push\<close>: push and pull move a task only to a CPU it may use and where it outranks what
  runs, the push loop ends, the search for the lowest run queue is exact, the chain of interrupts
  visits every overloaded CPU.  \<open>Sched_Rt_Hier_Queue\<close>, \<open>Sched_Rt_Hier_Inv\<close> and \<open>Sched_Rt_Hier_Pick\<close>: in every state the
  hierarchy of queues can reach, array, counters and best priority of each queue agree with what is on it, a group
  is queued exactly when it has tasks and is not throttled, and the best task that may run is picked; \<open>Sched_Rt_Hier_Save\<close>: a task that goes and
  comes back without moving changes nothing, except where a group runs only because the task is boosted.  \<open>Sched_Dispatch\<close>: order of the classes, reference counts of address
  spaces over context switches, yield.  \<open>Sched_Ttwu\<close>: wakeup, choice of the CPU, fork.
  \<open>Sched_Policy\<close>: permissions, errors without effect, round trips of policy and affinity.
  \<open>Sched_Attr_Props\<close>: the locale \<open>attr_layout\<close> says what a layout of \<open>struct sched_attr\<close> promises, with the layout
  of the manual as an instance; what \<open>sched_getattr\<close> writes \<open>sched_setattr\<close> reads back.  \<open>Sched_Entry_Props\<close>: the
  entry points leave the preemption count as it was, waiting ends.  \<open>Sched_Hotplug_Props\<close>: the states of the
  remote tick, refused deactivation, tasks left on a dying CPU.  \<open>Sched_Boot_Props\<close>: boot reaches a state that
  satisfies the invariants.  \<open>Sched_Group_Tree\<close>: the walk with its jumps is a recursive walk, in the locale
  \<open>tree_visitor\<close>, which \<open>Sched_Group_Rt\<close> and \<open>Sched_Group_Cfs\<close> interpret on the two admission tests; the bandwidths
  of all reachable trees fit, the test of quotas is exact.  \<open>Sched_Group_Files\<close>: what is written to a control
  file is read back.  \<open>Sched_Lock_Inv\<close>: a discipline that every path keeps, hence no deadlock in any
  interleaving, and no task moves except under its locks.

  \<^bold>\<open>Merge.\<close>  \<open>Xmerge\<close> models the system call of \<open>HW4-xmerge/xmerge.c\<close> and \<open>usr_xmerge\<close> of
  \<open>test_xmerge.c\<close> over a record of file operations; \<open>Xmerge_Props\<close> states what POSIX says of them
  (\<open>posix\<close>), gives a file system in memory that satisfies it, and shows what the call writes, returns
  and leaves open, that both versions agree, and that merging a file onto itself does not end.
  \<open>Xmerge_Main\<close> models the main program, whose command line gives the request it stands for.

  \<^bold>\<open>Drivers and modules.\<close>  \<open>Byte_Store\<close> is the contract of a device that stores bytes with short reads
  and writes (locales \<open>byte_store\<close> and, with enough memory, \<open>sure_store\<close>), with the client loops proved
  once.  \<open>Scull\<close> models \<open>Labs/lab9/lab09-examples/scull.c\<close> (quantum sets, failing allocations, uninitialised
  memory, arithmetic at 32 bits), \<open>Scull_Props\<close> interprets the contract on it.  \<open>Drivers\<close> models the
  registration and the calls of the other drivers of \<open>lab9\<close>, \<open>Mysum\<close> the loop of \<open>lab8/mysum.c\<close>.

  \<^bold>\<open>Shell.\<close>  \<open>Shell_Parse\<close> models the line reading, argument and redirection parsing of
  \<open>HW2.3-Shell/myshell.c\<close> on character buffers; an access outside a buffer is \<open>None\<close>.  \<open>Shell_Jobs\<close> models
  the job table, \<open>reap\<close>, \<open>wait_job\<close>, \<open>resume\<close>, \<open>exec_job\<close>, \<open>cd\<close> and the main loop; a null dereference is \<open>None\<close>,
  what the kernel answers is an argument.  \<open>Shell_Args\<close>: parsing inverts quoting, lines are trimmed.
  \<open>Shell_Table\<close>: command lines refine an abstract table of jobs and their living children; \<open>fg\<close> of an
  older job breaks it.  \<open>Shell_Fds\<close>: the tables of descriptors of the shell and its children, pipes and redirections;
  every command reads what the one before writes.

  \<^bold>\<open>Programs on /proc.\<close>  \<open>C_Text\<close> has numbers and words as text (\<open>strtok\<close>, \<open>sscanf\<close>, \<open>atoi\<close>).  \<open>Proc_Info\<close> models
  \<open>HW1/myps.c\<close> (options, parsing, comparison, table) and \<open>HW1/info.c\<close> (uptime, memory, processor usage); the files
  of \<open>/proc\<close>, the user names and \<open>qsort\<close> are arguments.  \<open>Proc_Props\<close>: the table is complete and in order, lines
  are parsed back.

  \<^bold>\<open>Fuel and termination.\<close>  Loops of the source that end are total functions with a measure.  Retry
  loops that depend on other CPUs take their bound from the environment (\<open>e_fuel\<close>); the push loop is
  shown to need no more than the number of pushable tasks, the walk over the groups no more than its links, the
  way up and down a hierarchy of queues no more than its depth (\<open>h_depth\<close>, which grows with every group), and
  \<open>wait_task_inactive\<close> no more than the steps the other CPUs take.  The copy loop of \<open>xmerge\<close> and the loop of
  \<open>mysum\<close> are partial functions, since they need not end: the theorems say when they do.  The client
  loops of \<open>Byte_Store\<close> take the number of bytes as fuel, one call moving at least one.

  \<^bold>\<open>Not modelled.\<close>  Scheduler: the classes and topology code absent from the tree, the pushing of tasks between
  hierarchies of real-time queues, NUMA balancing, printing,
  tracing and the collection of statistics, load averages, memory ordering.  Shell: terminal groups, signals
  and the end of a child that cannot be executed.  The test programs and laboratory examples make single calls and have
  no logic of their own.
\<close>

end
